(* ===== verification/Prelude.thy ===== *)
theory Prelude
  imports Main "HOL-Library.Word" "HOL-Library.Multiset"
begin

unbundle bit_operations_syntax

text \<open>
  Shared vocabulary of the development: the errno values and flag bits the C sources test,
  the result type of a C call, the effect of the book's error wrappers, chains of indices
  through a memory (the linked lists of a mapped file), counting lemmas for lists of threads,
  integers as octets of memory,
  and the locale of programs whose runs all end.
\<close>

section \<open>C results\<close>

text \<open>
  The errno values that the modelled sources set or test themselves; every other value a
  system call may deliver is \<open>EOTHER n\<close>.
\<close>

datatype errno =
    EBADF | EINVAL | EAGAIN | EMSGSIZE | EBUSY | EEXIST | ENOENT | ETIMEDOUT | ESRCH
  | EINTR | ENOMEM | EAFNOSUPPORT | ENOSPC | EPIPE | EOTHER nat

text \<open>
  A call that returns a value or \<open>-1\<close> with errno set is an \<open>errno + 'a\<close>; a pthread-style
  call that returns 0 or an errno value is an \<open>errno option\<close> (\<open>None\<close> is 0).
\<close>

type_synonym 'a result = "errno + 'a"
type_synonym status = "errno option"

text \<open>
  The book's wrapper functions (\<open>Mymq_send\<close>, \<open>Mysem_wait\<close>, \<dots>) call the function and, when it
  fails, \<open>err_sys\<close>, which prints a message and exits the process with status 1.
\<close>

datatype 'a wrapped = Returns 'a | Exits string errno

definition err_sys_on_error :: "string \<Rightarrow> 'a result \<Rightarrow> 'a wrapped" where
  "err_sys_on_error msg r = (case r of Inl e \<Rightarrow> Exits msg e | Inr a \<Rightarrow> Returns a)"

definition err_sys_on_status :: "string \<Rightarrow> status \<Rightarrow> unit wrapped" where
  "err_sys_on_status msg n = (case n of Some e \<Rightarrow> Exits msg e | None \<Rightarrow> Returns ())"

lemma err_sys_on_error_Returns [simp]:
  "err_sys_on_error msg r = Returns a \<longleftrightarrow> r = Inr a"
  by (cases r) (auto simp: err_sys_on_error_def)

lemma err_sys_on_status_Returns [simp]:
  "err_sys_on_status msg n = Returns u \<longleftrightarrow> n = None"
  by (cases n) (auto simp: err_sys_on_status_def)

section \<open>Flag words\<close>

text \<open>The Linux values of the flag bits (octal 0100, 0200, 04000, 02 and 0100 in the headers).\<close>

type_synonym cint = "32 word"

definition O_RDWR :: cint where "O_RDWR = 2"
definition O_CREAT :: cint where "O_CREAT = 64"
definition O_EXCL :: cint where "O_EXCL = 128"
definition O_NONBLOCK :: cint where "O_NONBLOCK = 2048"
definition S_IXUSR :: cint where "S_IXUSR = 64"

lemmas flag_defs = O_RDWR_def O_CREAT_def O_EXCL_def O_NONBLOCK_def S_IXUSR_def

definition has_flag :: "cint \<Rightarrow> cint \<Rightarrow> bool" where
  "has_flag w f \<longleftrightarrow> w AND f \<noteq> 0"

lemma has_flag_OR [simp]: "has_flag (a OR b) f \<longleftrightarrow> has_flag a f \<or> has_flag b f"
  by (auto simp: has_flag_def bit_eq_iff bit_simps)

section \<open>Collections of rewrite rules\<close>

named_theorems thread_simps \<open>counting and updating threads\<close>
named_theorems chain_simps \<open>chains of message indices\<close>

section \<open>Counting in lists\<close>

text \<open>
  How many threads of a list are in a given situation, as an integer, so that one update is
  a difference of two zero-or-one terms.
\<close>

definition cnt :: "('a \<Rightarrow> bool) \<Rightarrow> 'a list \<Rightarrow> int" where
  "cnt P xs = int (length (filter P xs))"

lemma cnt_Nil [simp]: "cnt P [] = 0"
  by (simp add: cnt_def)

lemma cnt_Cons [simp]: "cnt P (x # xs) = (if P x then 1 else 0) + cnt P xs"
  by (simp add: cnt_def)

lemma cnt_nonneg [simp]: "0 \<le> cnt P xs"
  by (simp add: cnt_def)

lemma cnt_le_length: "cnt P xs \<le> int (length xs)"
  by (simp add: cnt_def)

lemma cnt_update [thread_simps]:
  "i < length xs \<Longrightarrow>
   cnt P (xs[i := x]) = cnt P xs - (if P (xs ! i) then 1 else 0) + (if P x then 1 else 0)"
proof (induction xs arbitrary: i)
  case Nil
  then show ?case by simp
next
  case (Cons y ys)
  then show ?case by (cases i) auto
qed

lemma cnt_pos_iff: "0 < cnt P xs \<longleftrightarrow> (\<exists>x \<in> set xs. P x)"
  by (auto simp: cnt_def filter_empty_conv)

lemma cnt_zero_iff: "cnt P xs = 0 \<longleftrightarrow> (\<forall>x \<in> set xs. \<not> P x)"
  by (auto simp: cnt_def filter_empty_conv)

lemma cnt_map: "cnt P (map f xs) = cnt (P \<circ> f) xs"
  by (induction xs) auto

lemma cnt_cong: "(\<And>x. x \<in> set xs \<Longrightarrow> P x = Q x) \<Longrightarrow> cnt P xs = cnt Q xs"
  by (induction xs) auto

lemma cnt_nth_pos: "i < length xs \<Longrightarrow> P (xs ! i) \<Longrightarrow> 1 \<le> cnt P xs"
  using cnt_pos_iff [of P xs] by (fastforce simp: in_set_conv_nth)

lemma cnt_two:
  assumes "i < length xs" and "j < length xs" and "i \<noteq> j" and "P (xs ! i)" and "P (xs ! j)"
  shows "2 \<le> cnt P xs"
proof -
  have "{i, j} \<subseteq> {k. k < length xs \<and> P (xs ! k)}"
    using assms by auto
  then have "card {i, j} \<le> card {k. k < length xs \<and> P (xs ! k)}"
    by (intro card_mono) auto
  then have "2 \<le> card {k. k < length xs \<and> P (xs ! k)}"
    using assms(3) by simp
  then show ?thesis
    by (simp add: cnt_def length_filter_conv_card)
qed

text \<open>The same for sums of what the threads hold, for example multisets of messages.\<close>

lemma sum_list_update_cancel [thread_simps]:
  fixes f :: "'a \<Rightarrow> 'b::cancel_comm_monoid_add"
  shows "i < length xs \<Longrightarrow>
    sum_list (map f (xs[i := x])) + f (xs ! i) = sum_list (map f xs) + f x"
proof (induction xs arbitrary: i)
  case Nil
  then show ?case by simp
next
  case (Cons y ys)
  then show ?case by (cases i) (auto simp: ac_simps)
qed

lemma sum_left_update:
  fixes f :: "'a \<Rightarrow> int"
  shows "i < length xs \<Longrightarrow> sum_list (map f (xs[i := x])) = sum_list (map f xs) + f x - f (xs ! i)"
  using sum_list_update_cancel [of i xs f x] by simp

lemma map_update_same: "f x = f (xs ! i) \<Longrightarrow> map f (xs[i := x]) = map f xs"
  by (metis list_update_id map_update)

section \<open>Chains through a memory\<close>

text \<open>
  The lists of a mapped queue file are chained by byte offsets, with 0 for the end.
  \<open>chain nxt i is\<close>: following \<open>nxt\<close> from \<open>i\<close> visits exactly the offsets \<open>is\<close> and ends at 0.
\<close>

fun chain :: "(int \<Rightarrow> int option) \<Rightarrow> int \<Rightarrow> int list \<Rightarrow> bool" where
  "chain nxt i [] \<longleftrightarrow> i = 0"
| "chain nxt i (a # as) \<longleftrightarrow> i = a \<and> a \<noteq> 0 \<and> (case nxt a of None \<Rightarrow> False | Some j \<Rightarrow> chain nxt j as)"

text \<open>An open segment: the same, ending at a given offset.\<close>

fun segment :: "(int \<Rightarrow> int option) \<Rightarrow> int \<Rightarrow> int list \<Rightarrow> int \<Rightarrow> bool" where
  "segment nxt i [] z \<longleftrightarrow> i = z"
| "segment nxt i (a # as) z \<longleftrightarrow>
     i = a \<and> a \<noteq> 0 \<and> (case nxt a of None \<Rightarrow> False | Some j \<Rightarrow> segment nxt j as z)"

lemma chain_zero [chain_simps]: "chain nxt 0 is \<longleftrightarrow> is = []"
  by (cases "is") auto

lemma chain_nonzero [chain_simps]:
  "i \<noteq> 0 \<Longrightarrow> chain nxt i is \<longleftrightarrow> (\<exists>j js. is = i # js \<and> nxt i = Some j \<and> chain nxt j js)"
  by (cases "is") (auto split: option.splits)

lemma chain_append [chain_simps]:
  "chain nxt i (as @ bs) \<longleftrightarrow> (\<exists>j. segment nxt i as j \<and> chain nxt j bs)"
  by (induction as arbitrary: i) (auto split: option.splits)

lemma segment_append [chain_simps]:
  "segment nxt i (as @ bs) z \<longleftrightarrow> (\<exists>j. segment nxt i as j \<and> segment nxt j bs z)"
  by (induction as arbitrary: i) (auto split: option.splits)

lemma chain_frame:
  "(\<And>a. a \<in> set is \<Longrightarrow> nxt' a = nxt a) \<Longrightarrow> chain nxt' i is \<longleftrightarrow> chain nxt i is"
proof (induction "is" arbitrary: i)
  case Nil
  then show ?case by simp
next
  case (Cons a as)
  then show ?case by (auto split: option.splits)
qed

lemma segment_frame:
  "(\<And>a. a \<in> set is \<Longrightarrow> nxt' a = nxt a) \<Longrightarrow> segment nxt' i is z \<longleftrightarrow> segment nxt i is z"
proof (induction "is" arbitrary: i)
  case Nil
  then show ?case by simp
next
  case (Cons a as)
  then show ?case by (auto split: option.splits)
qed

lemma chain_subset_dom: "chain nxt i is \<Longrightarrow> set is \<subseteq> dom nxt"
  by (induction "is" arbitrary: i) (auto split: option.splits)

lemma chain_unique: "chain nxt i is \<Longrightarrow> chain nxt i js \<Longrightarrow> is = js"
proof (induction "is" arbitrary: i js)
  case Nil
  then show ?case by (simp add: chain_zero)
next
  case (Cons a as)
  then show ?case by (cases js) (auto split: option.splits)
qed

section \<open>Programs whose runs all end\<close>

text \<open>
  A program whose steps keep an invariant, use up a finite amount of work and are possible
  until the end: all its runs are short and stop at the end only.
\<close>

locale ending_program =
  fixes step :: "'s \<Rightarrow> 's \<Rightarrow> bool"
    and good :: "'s \<Rightarrow> bool"
    and left :: "'s \<Rightarrow> int"
    and final :: "'s \<Rightarrow> bool"
  assumes keeps: "good s \<Longrightarrow> step s s' \<Longrightarrow> good s'"
    and spends: "good s \<Longrightarrow> step s s' \<Longrightarrow> left s' < left s"
    and some_left: "good s \<Longrightarrow> 0 \<le> left s"
    and moves: "good s \<Longrightarrow> \<not> final s \<Longrightarrow> \<exists>s'. step s s'"
begin

lemma run_good: "(step ^^ n) s0 s \<Longrightarrow> good s0 \<Longrightarrow> good s \<and> left s + int n \<le> left s0"
proof (induction n arbitrary: s)
  case (Suc n)
  then obtain t where "(step ^^ n) s0 t" "step t s" by auto
  then show ?case using Suc.IH [of t] Suc.prems(2) keeps [of t s] spends [of t s] by fastforce
qed simp

lemma run_short: "(step ^^ n) s0 s \<Longrightarrow> good s0 \<Longrightarrow> int n \<le> left s0"
  using run_good [of n s0 s] some_left [of s] by simp

lemma run_stuck: "(step ^^ n) s0 s \<Longrightarrow> good s0 \<Longrightarrow> \<nexists>s'. step s s' \<Longrightarrow> final s"
  using run_good [of n s0 s] moves [of s] by blast

end

section \<open>Integers as octets\<close>

text \<open>The octets of an integer, the least significant one first, and the number that octets represent.\<close>

fun le_octets :: "nat \<Rightarrow> int \<Rightarrow> 8 word list" where
  "le_octets 0 x = []"
| "le_octets (Suc n) x = word_of_int x # le_octets n (x div 256)"

fun le_value :: "8 word list \<Rightarrow> int" where
  "le_value [] = 0"
| "le_value (b # bs) = uint b + 256 * le_value bs"

lemma length_le_octets [simp]: "length (le_octets n x) = n"
  by (induction n arbitrary: x) auto

lemma le_value_octets: "le_value (le_octets n x) = x mod 256 ^ n"
proof (induction n arbitrary: x)
  case (Suc n)
  have "uint (word_of_int x :: 8 word) = x mod 256"
    by (simp add: uint_word_of_int)
  then show ?case
    by (simp add: Suc zmod_zmult2_eq)
qed simp

end
