(* ===== verification/Monitor.thy ===== *)
theory Monitor
  imports Prelude
begin

text \<open>
  Threads that share an object protected by one mutex and some condition variables: the
  discipline of the message queue, the semaphores and the read-write locks.  Between
  \<open>pthread_mutex_lock\<close> and the next \<open>pthread_cond_wait\<close> or \<open>pthread_mutex_unlock\<close> a thread
  runs alone, so an operation is a few atomic segments: the one from the call to the first
  wait or to the return, and the one from a wait to the next wait or to the return.  A step
  of the system is one segment of one thread, a wake-up, or a cancellation; which thread
  moves is not determined.
\<close>

section \<open>Segments and threads\<close>

datatype 'cv wake = Signal 'cv | Broadcast 'cv

text \<open>
  A segment ends by returning (with the wake-ups it issued), by blocking on a condition
  variable, or by bringing the process down (\<open>err_dump\<close>, or an access outside the mapping).
\<close>

datatype ('d, 'cv, 'r) seg = Finish 'd "'cv wake list" 'r | Sleep 'd 'cv | Crash

datatype ('op, 'cv) pc = Outside | Asleep 'op 'cv | Woken 'op | Cancelled

text \<open>\<open>th_cli\<close> is what the client of the object knows, for example which lock it holds.\<close>

record ('op, 'cv, 'c) thread =
  th_pc :: "('op, 'cv) pc"
  th_cli :: 'c

text \<open>
  The code of an object: its segments (the second argument of \<open>enter\<close> is what
  \<open>pthread_mutex_lock\<close> returned, that of \<open>resume\<close> what \<open>pthread_cond_wait\<close> returned), the
  cleanup handler of a cancelled wait, and how the client behaves.
\<close>

record ('d, 'op, 'cv, 'r, 'c) code =
  enter :: "'op \<Rightarrow> status \<Rightarrow> 'd \<Rightarrow> ('d, 'cv, 'r) seg"
  resume :: "'op \<Rightarrow> status \<Rightarrow> 'd \<Rightarrow> ('d, 'cv, 'r) seg"
  can_cancel :: "'op \<Rightarrow> bool"
  cleanup :: "'op \<Rightarrow> 'd \<Rightarrow> 'd"
  may_call :: "'c \<Rightarrow> 'op \<Rightarrow> bool"
  note_ret :: "'c \<Rightarrow> 'op \<Rightarrow> 'r \<Rightarrow> 'c"

record ('d, 'op, 'cv, 'c) mon =
  m_data :: 'd
  m_thr :: "('op, 'cv, 'c) thread list"

fun asleep_on :: "'cv \<Rightarrow> ('op, 'cv, 'c) thread \<Rightarrow> bool" where
  "asleep_on cv t = (case th_pc t of Asleep op cv' \<Rightarrow> cv' = cv | _ \<Rightarrow> False)"

fun is_woken :: "('op, 'cv, 'c) thread \<Rightarrow> bool" where
  "is_woken t = (case th_pc t of Woken op \<Rightarrow> True | _ \<Rightarrow> False)"

fun rouse :: "('op, 'cv, 'c) thread \<Rightarrow> ('op, 'cv, 'c) thread" where
  "rouse t = (case th_pc t of Asleep op cv \<Rightarrow> t\<lparr>th_pc := Woken op\<rparr> | _ \<Rightarrow> t)"

section \<open>Steps\<close>

text \<open>
  \<open>pthread_cond_signal\<close> wakes one thread blocked on the variable if there is one,
  \<open>pthread_cond_broadcast\<close> wakes all of them.
\<close>

inductive deliver :: "'cv wake list \<Rightarrow> ('op, 'cv, 'c) thread list \<Rightarrow> ('op, 'cv, 'c) thread list \<Rightarrow> bool"
where
  deliver_none: "deliver [] ts ts"
| deliver_signal: "\<lbrakk>j < length ts; asleep_on cv (ts ! j); deliver ws (ts[j := rouse (ts ! j)]) ts'\<rbrakk>
    \<Longrightarrow> deliver (Signal cv # ws) ts ts'"
| deliver_lost: "\<lbrakk>\<not> list_ex (asleep_on cv) ts; deliver ws ts ts'\<rbrakk>
    \<Longrightarrow> deliver (Signal cv # ws) ts ts'"
| deliver_broadcast: "deliver ws (map (\<lambda>t. if asleep_on cv t then rouse t else t) ts) ts'
    \<Longrightarrow> deliver (Broadcast cv # ws) ts ts'"

text \<open>
  \<open>F\<close> is the set of results that \<open>pthread_mutex_lock\<close> and \<open>pthread_cond_wait\<close> may give
  (\<open>{None}\<close>: they never fail).  A blocked thread may also wake up spuriously.
\<close>

inductive mstep ::
  "('d, 'op, 'cv, 'r, 'c) code \<Rightarrow> status set \<Rightarrow> ('d, 'op, 'cv, 'c) mon \<Rightarrow> ('d, 'op, 'cv, 'c) mon \<Rightarrow> bool"
  for P F where
  call_finish: "\<lbrakk>i < length ts; th_pc (ts ! i) = Outside; may_call P (th_cli (ts ! i)) op; st \<in> F;
      enter P op st d = Finish d' ws r;
      deliver ws (ts[i := \<lparr>th_pc = Outside, th_cli = note_ret P (th_cli (ts ! i)) op r\<rparr>]) ts'\<rbrakk>
    \<Longrightarrow> mstep P F \<lparr>m_data = d, m_thr = ts\<rparr> \<lparr>m_data = d', m_thr = ts'\<rparr>"
| call_sleep: "\<lbrakk>i < length ts; th_pc (ts ! i) = Outside; may_call P (th_cli (ts ! i)) op; st \<in> F;
      enter P op st d = Sleep d' cv\<rbrakk>
    \<Longrightarrow> mstep P F \<lparr>m_data = d, m_thr = ts\<rparr>
          \<lparr>m_data = d', m_thr = ts[i := (ts ! i)\<lparr>th_pc := Asleep op cv\<rparr>]\<rparr>"
| resume_finish: "\<lbrakk>i < length ts; th_pc (ts ! i) = Woken op; st \<in> F;
      resume P op st d = Finish d' ws r;
      deliver ws (ts[i := \<lparr>th_pc = Outside, th_cli = note_ret P (th_cli (ts ! i)) op r\<rparr>]) ts'\<rbrakk>
    \<Longrightarrow> mstep P F \<lparr>m_data = d, m_thr = ts\<rparr> \<lparr>m_data = d', m_thr = ts'\<rparr>"
| resume_sleep: "\<lbrakk>i < length ts; th_pc (ts ! i) = Woken op; st \<in> F;
      resume P op st d = Sleep d' cv\<rbrakk>
    \<Longrightarrow> mstep P F \<lparr>m_data = d, m_thr = ts\<rparr>
          \<lparr>m_data = d', m_thr = ts[i := (ts ! i)\<lparr>th_pc := Asleep op cv\<rparr>]\<rparr>"
| spurious: "\<lbrakk>i < length ts; asleep_on cv (ts ! i)\<rbrakk>
    \<Longrightarrow> mstep P F \<lparr>m_data = d, m_thr = ts\<rparr> \<lparr>m_data = d, m_thr = ts[i := rouse (ts ! i)]\<rparr>"
| cancel: "\<lbrakk>i < length ts; th_pc (ts ! i) = Asleep op cv \<or> th_pc (ts ! i) = Woken op; can_cancel P op\<rbrakk>
    \<Longrightarrow> mstep P F \<lparr>m_data = d, m_thr = ts\<rparr>
          \<lparr>m_data = cleanup P op d, m_thr = ts[i := (ts ! i)\<lparr>th_pc := Cancelled\<rparr>]\<rparr>"

inductive mreach ::
  "('d, 'op, 'cv, 'r, 'c) code \<Rightarrow> status set \<Rightarrow> ('d, 'op, 'cv, 'c) mon \<Rightarrow> ('d, 'op, 'cv, 'c) mon \<Rightarrow> bool"
  for P F s where
  reach_start: "mreach P F s s"
| reach_step: "mreach P F s t \<Longrightarrow> mstep P F t u \<Longrightarrow> mreach P F s u"

section \<open>What an invariant may see\<close>

text \<open>
  A thread that is blocked and one that has been woken but has not yet got the mutex back
  are both inside the operation.  An invariant of the object depends on the threads only
  through this view, so that wake-ups preserve it.
\<close>

definition inside :: "('op, 'cv, 'c) thread \<Rightarrow> 'op option" where
  "inside t = (case th_pc t of Asleep op cv \<Rightarrow> Some op | Woken op \<Rightarrow> Some op | _ \<Rightarrow> None)"

definition view :: "('op, 'cv, 'c) thread \<Rightarrow> 'op option \<times> 'c" where
  "view t = (inside t, th_cli t)"

lemma inside_simps [simp]:
  "th_pc t = Outside \<Longrightarrow> inside t = None"
  "th_pc t = Cancelled \<Longrightarrow> inside t = None"
  "th_pc t = Asleep op cv \<Longrightarrow> inside t = Some op"
  "th_pc t = Woken op \<Longrightarrow> inside t = Some op"
  by (simp_all add: inside_def)

lemma view_rouse [simp]: "view (rouse t) = view t"
  by (auto simp: view_def inside_def split: pc.splits)

lemma view_simps [simp]:
  "view \<lparr>th_pc = Outside, th_cli = c\<rparr> = (None, c)"
  "view (t\<lparr>th_pc := Asleep op cv\<rparr>) = (Some op, th_cli t)"
  "view (t\<lparr>th_pc := Cancelled\<rparr>) = (None, th_cli t)"
  by (simp_all add: view_def inside_def)

lemma map_view_update_rouse [simp]: "map view (ts[j := rouse (ts ! j)]) = map view ts"
  by (metis list_update_id map_update view_rouse)

lemma deliver_view: "deliver ws ts ts' \<Longrightarrow> map view ts' = map view ts"
proof (induction rule: deliver.induct)
  case (deliver_broadcast ws cv ts ts')
  then show ?case by (auto simp del: rouse.simps asleep_on.simps)
qed (simp_all del: rouse.simps asleep_on.simps)

lemma deliver_length: "deliver ws ts ts' \<Longrightarrow> length ts' = length ts"
  using deliver_view by (metis length_map)

text \<open>Wake-ups can always be delivered: a signal never blocks its sender.\<close>

lemma deliver_total: "\<exists>ts'. deliver ws ts ts'"
proof (induction ws arbitrary: ts)
  case Nil
  then show ?case by (blast intro: deliver_none)
next
  case (Cons w ws)
  show ?case
  proof (cases w)
    case (Broadcast cv)
    with Cons show ?thesis by (blast intro: deliver_broadcast)
  next
    case (Signal cv)
    show ?thesis
    proof (cases "list_ex (asleep_on cv) ts")
      case True
      then obtain j where "j < length ts" "asleep_on cv (ts ! j)"
        by (auto simp: list_ex_length simp del: asleep_on.simps)
      with Cons Signal show ?thesis by (blast intro: deliver_signal)
    next
      case False
      with Cons Signal show ?thesis by (blast intro: deliver_lost)
    qed
  qed
qed

lemma deliver_first: "asleep_on cv t \<Longrightarrow> deliver [Signal cv] (t # ts) (rouse t # ts)"
  using deliver_signal [of 0 "t # ts" cv "[]" "rouse t # ts"] deliver_none [of "rouse t # ts"]
  by (simp del: asleep_on.simps rouse.simps)

section \<open>Invariants of an object\<close>

text \<open>
  The contract of an object towards its threads: every segment keeps the invariant \<open>I\<close> that
  ties the shared data to the views of the threads.  It then holds in every reachable state.
\<close>

locale monitor_inv =
  fixes P :: "('d, 'op, 'cv, 'r, 'c) code"
    and F :: "status set"
    and I :: "'d \<Rightarrow> ('op option \<times> 'c) list \<Rightarrow> bool"
  assumes enter_Finish:
      "\<lbrakk>I d vs; i < length vs; vs ! i = (None, c); may_call P c op; st \<in> F;
        enter P op st d = Finish d' ws r\<rbrakk> \<Longrightarrow> I d' (vs[i := (None, note_ret P c op r)])"
    and enter_Sleep:
      "\<lbrakk>I d vs; i < length vs; vs ! i = (None, c); may_call P c op; st \<in> F;
        enter P op st d = Sleep d' cv\<rbrakk> \<Longrightarrow> I d' (vs[i := (Some op, c)])"
    and resume_Finish:
      "\<lbrakk>I d vs; i < length vs; vs ! i = (Some op, c); st \<in> F;
        resume P op st d = Finish d' ws r\<rbrakk> \<Longrightarrow> I d' (vs[i := (None, note_ret P c op r)])"
    and resume_Sleep:
      "\<lbrakk>I d vs; i < length vs; vs ! i = (Some op, c); st \<in> F;
        resume P op st d = Sleep d' cv\<rbrakk> \<Longrightarrow> I d' vs"
    and cancel_cleanup:
      "\<lbrakk>I d vs; i < length vs; vs ! i = (Some op, c); can_cancel P op\<rbrakk>
        \<Longrightarrow> I (cleanup P op d) (vs[i := (None, c)])"
begin

lemma step_inv:
  assumes "mstep P F s t" and "I (m_data s) (map view (m_thr s))"
  shows "I (m_data t) (map view (m_thr t))"
  using assms
proof (induction rule: mstep.induct)
  case (call_finish i ts op st d d' ws r ts')
  have v: "map view ts ! i = (None, th_cli (ts ! i))"
    using call_finish(1,2) by (simp add: view_def)
  have "I d' ((map view ts)[i := (None, note_ret P (th_cli (ts ! i)) op r)])"
    using call_finish(1,3,4,5,7) v by (intro enter_Finish) auto
  with call_finish(6) show ?case
    by (simp add: deliver_view map_update)
next
  case (call_sleep i ts op st d d' cv)
  have v: "map view ts ! i = (None, th_cli (ts ! i))"
    using call_sleep(1,2) by (simp add: view_def)
  have "I d' ((map view ts)[i := (Some op, th_cli (ts ! i))])"
    using call_sleep v by (intro enter_Sleep) auto
  then show ?case by (simp add: map_update)
next
  case (resume_finish i ts op st d d' ws r ts')
  have v: "map view ts ! i = (Some op, th_cli (ts ! i))"
    using resume_finish(1,2) by (simp add: view_def)
  have "I d' ((map view ts)[i := (None, note_ret P (th_cli (ts ! i)) op r)])"
    using resume_finish(1,3,4,6) v by (intro resume_Finish) auto
  with resume_finish(5) show ?case
    by (simp add: deliver_view map_update)
next
  case (resume_sleep i ts op st d d' cv)
  have v: "map view ts ! i = (Some op, th_cli (ts ! i))"
    using resume_sleep(1,2) by (simp add: view_def)
  have "I d' (map view ts)"
    using resume_sleep v by (auto intro: resume_Sleep [of d "map view ts" i op "th_cli (ts ! i)" st d' cv, OF _ _ v])
  moreover have "map view (ts[i := (ts ! i)\<lparr>th_pc := Asleep op cv\<rparr>]) = map view ts"
    using resume_sleep(1) v by (simp add: map_update list_update_same_conv)
  ultimately show ?case by simp
next
  case (spurious i ts cv d)
  then show ?case by (simp del: rouse.simps)
next
  case (cancel i ts op cv d)
  have v: "map view ts ! i = (Some op, th_cli (ts ! i))"
    using cancel(1,2) by (auto simp: view_def)
  have "I (cleanup P op d) ((map view ts)[i := (None, th_cli (ts ! i))])"
    using cancel v by (intro cancel_cleanup) auto
  then show ?case by (simp add: map_update)
qed

lemma reach_inv:
  "mreach P F s t \<Longrightarrow> I (m_data s) (map view (m_thr s)) \<Longrightarrow> I (m_data t) (map view (m_thr t))"
  by (induction rule: mreach.induct) (auto intro: step_inv)

end

text \<open>An object none of whose segments brings the process down while the invariant holds.\<close>

locale monitor_safe = monitor_inv P F I
  for P :: "('d, 'op, 'cv, 'r, 'c) code" and F I +
  assumes enter_safe:
      "\<lbrakk>I d vs; i < length vs; vs ! i = (None, c); may_call P c op; st \<in> F\<rbrakk>
        \<Longrightarrow> enter P op st d \<noteq> Crash"
    and resume_safe:
      "\<lbrakk>I d vs; i < length vs; vs ! i = (Some op, c); st \<in> F\<rbrakk> \<Longrightarrow> resume P op st d \<noteq> Crash"
begin

text \<open>No call and no wake-up is ever stuck or fatal: each has a successor state.\<close>

lemma reach_call_progress:
  assumes "mreach P F s t" and "I (m_data s) (map view (m_thr s))"
    and "i < length (m_thr t)" and "th_pc (m_thr t ! i) = Outside"
    and "may_call P (th_cli (m_thr t ! i)) op" and "st \<in> F"
  shows "enter P op st (m_data t) \<noteq> Crash \<and> (\<exists>u. mstep P F t u)"
proof -
  obtain d ts where t: "t = \<lparr>m_data = d, m_thr = ts\<rparr>" by (cases t)
  have inv: "I d (map view ts)"
    using reach_inv [OF assms(1,2)] t by simp
  have nc: "enter P op st d \<noteq> Crash"
    using inv assms(3-6) t by (intro enter_safe [of d "map view ts" i]) (auto simp: view_def)
  show ?thesis
  proof (cases "enter P op st d")
    case (Finish d' ws r)
    obtain ts' where "deliver ws (ts[i := \<lparr>th_pc = Outside,
        th_cli = note_ret P (th_cli (ts ! i)) op r\<rparr>]) ts'"
      using deliver_total by blast
    with assms t Finish have "mstep P F t \<lparr>m_data = d', m_thr = ts'\<rparr>"
      by (auto intro: call_finish)
    with nc t show ?thesis by auto
  next
    case (Sleep d' cv)
    with assms t have "mstep P F t \<lparr>m_data = d', m_thr = ts[i := (ts ! i)\<lparr>th_pc := Asleep op cv\<rparr>]\<rparr>"
      by (auto intro: call_sleep)
    with nc t show ?thesis by auto
  qed (use nc in simp)
qed

lemma reach_resume_progress:
  assumes "mreach P F s t" and "I (m_data s) (map view (m_thr s))"
    and "i < length (m_thr t)" and "th_pc (m_thr t ! i) = Woken op" and "st \<in> F"
  shows "resume P op st (m_data t) \<noteq> Crash \<and> (\<exists>u. mstep P F t u)"
proof -
  obtain d ts where t: "t = \<lparr>m_data = d, m_thr = ts\<rparr>" by (cases t)
  have inv: "I d (map view ts)"
    using reach_inv [OF assms(1,2)] t by simp
  have nc: "resume P op st d \<noteq> Crash"
    using inv assms(3-5) t by (intro resume_safe [of d "map view ts" i]) (auto simp: view_def)
  show ?thesis
  proof (cases "resume P op st d")
    case (Finish d' ws r)
    obtain ts' where "deliver ws (ts[i := \<lparr>th_pc = Outside,
        th_cli = note_ret P (th_cli (ts ! i)) op r\<rparr>]) ts'"
      using deliver_total by blast
    with assms t Finish have "mstep P F t \<lparr>m_data = d', m_thr = ts'\<rparr>"
      by (auto intro: resume_finish)
    with nc t show ?thesis by auto
  next
    case (Sleep d' cv)
    with assms t have "mstep P F t \<lparr>m_data = d', m_thr = ts[i := (ts ! i)\<lparr>th_pc := Asleep op cv\<rparr>]\<rparr>"
      by (auto intro: resume_sleep)
    with nc t show ?thesis by auto
  qed (use nc in simp)
qed

end

end
