(* ===== verification/Mqueue.thy ===== *)
theory Mqueue
  imports Monitor
begin

text \<open>
  The message queue of my_pxmsg_mmap: the structures of mqueue.h, and mymq_send,
  mymq_receive, mymq_notify, mymq_getattr, mymq_setattr and mymq_close.  The queue lives in
  a mapped file; its messages are two linked lists of byte offsets (the queued messages in
  priority order and the free ones) that share the slots of the file.
\<close>

section \<open>Data (mqueue.h)\<close>

type_synonym byte = "8 word"
type_synonym prio = "32 word"

record mymq_attr =
  mq_flags :: "64 word"
  mq_maxmsg :: int
  mq_msgsize :: int
  mq_curmsgs :: int

datatype notify_kind = SIGEV_SIGNAL | SIGEV_NONE | SIGEV_THREAD

record sigevent =
  sigev_notify :: notify_kind
  sigev_signo :: int
  sigev_value :: int

text \<open>The mutex and the condition variable of the header are the monitor's.\<close>

record mymq_hdr =
  mqh_attr :: mymq_attr
  mqh_head :: int
  mqh_free :: int
  mqh_nwait :: int
  mqh_pid :: int
  mqh_event :: sigevent

text \<open>One slot: its header and the bytes that follow the header in the file.\<close>

record mymsg_hdr =
  msg_next :: int
  msg_len :: int
  msg_prio :: prio
  msg_data :: "byte list"

text \<open>
  The mapped file: the header at its beginning, the slots by byte offset, and the signals
  that \<open>sigqueue\<close> has sent on behalf of the queue (process, signal number, value).
\<close>

record mymq =
  q_hdr :: mymq_hdr
  q_msgs :: "int \<Rightarrow> mymsg_hdr option"
  q_sigs :: "(int \<times> int \<times> int) list"

record mymq_info =
  mqi_magic :: "64 word"
  mqi_flags :: cint

definition MQI_MAGIC :: "64 word" where "MQI_MAGIC = 0x98765432"

abbreviation q_attr :: "mymq \<Rightarrow> mymq_attr" where "q_attr q \<equiv> mqh_attr (q_hdr q)"
abbreviation curmsgs :: "mymq \<Rightarrow> int" where "curmsgs q \<equiv> mq_curmsgs (q_attr q)"
abbreviation maxmsg :: "mymq \<Rightarrow> int" where "maxmsg q \<equiv> mq_maxmsg (q_attr q)"
abbreviation msgsize :: "mymq \<Rightarrow> int" where "msgsize q \<equiv> mq_msgsize (q_attr q)"
abbreviation nwait :: "mymq \<Rightarrow> int" where "nwait q \<equiv> mqh_nwait (q_hdr q)"

definition set_curmsgs :: "int \<Rightarrow> mymq \<Rightarrow> mymq" where
  "set_curmsgs n q = q\<lparr>q_hdr := (q_hdr q)\<lparr>mqh_attr := (q_attr q)\<lparr>mq_curmsgs := n\<rparr>\<rparr>\<rparr>"

definition set_nwait :: "int \<Rightarrow> mymq \<Rightarrow> mymq" where
  "set_nwait n q = q\<lparr>q_hdr := (q_hdr q)\<lparr>mqh_nwait := n\<rparr>\<rparr>"

text \<open>A \<open>long\<close> compared with a \<open>size_t\<close> is converted to \<open>size_t\<close> first.\<close>

definition usize :: "int \<Rightarrow> int" where
  "usize n = n mod 2 ^ 64"

section \<open>mymq_send\<close>

datatype mq_ret = MqErr errno | MqDone | MqSent | MqReceived "byte list" "prio option"

text \<open>
  \<open>pmsghdr\<close> points either at \<open>mqhdr->mqh_head\<close>, which the code casts to a message header (the
  link is the first member of both), or at a slot.
\<close>

datatype msgptr = AtHead | AtMsg int

fun set_next :: "msgptr \<Rightarrow> int \<Rightarrow> mymq \<Rightarrow> mymq option" where
  "set_next AtHead n q = Some (q\<lparr>q_hdr := (q_hdr q)\<lparr>mqh_head := n\<rparr>\<rparr>)"
| "set_next (AtMsg i) n q =
     (case q_msgs q i of
        None \<Rightarrow> None
      | Some m \<Rightarrow> Some (q\<lparr>q_msgs := (q_msgs q)(i \<mapsto> m\<lparr>msg_next := n\<rparr>)\<rparr>))"

text \<open>
  The search for the right place: \<open>None\<close> when it follows a link that leads outside the
  mapping or never reaches the end of the list.
\<close>

partial_function (option) mq_link :: "prio \<Rightarrow> int \<Rightarrow> msgptr \<Rightarrow> int \<Rightarrow> mymq \<Rightarrow> mymq option" where
  "mq_link prio freeindex pmsghdr index q =
     (if index = 0
      then Option.bind (set_next pmsghdr freeindex q) (set_next (AtMsg freeindex) 0)
      else case q_msgs q index of
             None \<Rightarrow> None
           | Some msghdr \<Rightarrow>
               if prio > msg_prio msghdr
               then Option.bind (set_next (AtMsg freeindex) index q) (set_next pmsghdr freeindex)
               else mq_link prio freeindex (AtMsg index) (msg_next msghdr) q)"

text \<open>Lines 55 to 88: take the first free slot, fill it, link it in.\<close>

definition mymq_send_put :: "byte list \<Rightarrow> prio \<Rightarrow> mymq \<Rightarrow> (mymq, unit, mq_ret) seg" where
  "mymq_send_put ptr prio q =
     (let freeindex = mqh_free (q_hdr q) in
      if freeindex = 0 then Crash
      else case q_msgs q freeindex of
             None \<Rightarrow> Crash
           | Some nmsghdr \<Rightarrow>
               if length (msg_data nmsghdr) < length ptr then Crash
               else let nmsghdr' = nmsghdr\<lparr>msg_prio := prio, msg_len := int (length ptr),
                          msg_data := ptr @ drop (length ptr) (msg_data nmsghdr)\<rparr>;
                        q1 = q\<lparr>q_msgs := (q_msgs q)(freeindex \<mapsto> nmsghdr'),
                          q_hdr := (q_hdr q)\<lparr>mqh_free := msg_next nmsghdr\<rparr>\<rparr>
                    in case mq_link prio freeindex AtHead (mqh_head (q_hdr q1)) q1 of
                         None \<Rightarrow> Crash
                       | Some q2 \<Rightarrow>
                           Finish (set_curmsgs (curmsgs q2 + 1) q2)
                             (if curmsgs q2 = 0 then [Signal ()] else []) MqSent)"

text \<open>Lines 34 to 42: a message arrives on an empty queue.\<close>

definition mq_notify_arrival :: "mymq \<Rightarrow> mymq" where
  "mq_notify_arrival q =
     (let h = q_hdr q; sigev = mqh_event h in
      if mqh_pid h \<noteq> 0 \<and> mqh_nwait h = 0
      then q\<lparr>q_hdr := h\<lparr>mqh_pid := 0\<rparr>,
             q_sigs := (if sigev_notify sigev = SIGEV_SIGNAL
                        then q_sigs q @ [(mqh_pid h, sigev_signo sigev, sigev_value sigev)]
                        else q_sigs q)\<rparr>
      else q)"

text \<open>The segment from the call; \<open>lock\<close> is the result of \<open>pthread_mutex_lock\<close>.\<close>

definition mymq_send :: "mymq_info \<Rightarrow> byte list \<Rightarrow> prio \<Rightarrow> status \<Rightarrow> mymq \<Rightarrow> (mymq, unit, mq_ret) seg"
where
  "mymq_send mqinfo ptr prio lock q =
     (if mqi_magic mqinfo \<noteq> MQI_MAGIC then Finish q [] (MqErr EBADF)
      else case lock of
        Some n \<Rightarrow> Finish q [] (MqErr n)
      | None \<Rightarrow>
          if int (length ptr) > usize (msgsize q) then Finish q [] (MqErr EMSGSIZE)
          else if curmsgs q = 0 then mymq_send_put ptr prio (mq_notify_arrival q)
          else if curmsgs q \<ge> maxmsg q then
            (if has_flag (mqi_flags mqinfo) O_NONBLOCK then Finish q [] (MqErr EAGAIN)
             else Sleep q ())
          else mymq_send_put ptr prio q)"

text \<open>The segment after \<open>pthread_cond_wait\<close> (whose result the code ignores).\<close>

definition mymq_send_resume :: "byte list \<Rightarrow> prio \<Rightarrow> mymq \<Rightarrow> (mymq, unit, mq_ret) seg" where
  "mymq_send_resume ptr prio q =
     (if curmsgs q \<ge> maxmsg q then Sleep q () else mymq_send_put ptr prio q)"

section \<open>mymq_receive\<close>

text \<open>Lines 48 to 68: take the first message and put its slot at the front of the free list.\<close>

definition mymq_receive_take :: "bool \<Rightarrow> mymq \<Rightarrow> (mymq, unit, mq_ret) seg" where
  "mymq_receive_take want_prio q =
     (let index = mqh_head (q_hdr q) in
      if index = 0 then Crash
      else case q_msgs q index of
             None \<Rightarrow> Crash
           | Some msghdr \<Rightarrow>
               let len = nat (usize (msg_len msghdr)) in
               if length (msg_data msghdr) < len then Crash
               else let q1 = q\<lparr>q_msgs := (q_msgs q)(index \<mapsto> msghdr\<lparr>msg_next := mqh_free (q_hdr q)\<rparr>),
                          q_hdr := (q_hdr q)\<lparr>mqh_head := msg_next msghdr, mqh_free := index\<rparr>\<rparr>
                    in Finish (set_curmsgs (curmsgs q - 1) q1)
                         (if curmsgs q = maxmsg q then [Signal ()] else [])
                         (MqReceived (take len (msg_data msghdr))
                            (if want_prio then Some (msg_prio msghdr) else None)))"

definition mymq_receive :: "mymq_info \<Rightarrow> nat \<Rightarrow> bool \<Rightarrow> status \<Rightarrow> mymq \<Rightarrow> (mymq, unit, mq_ret) seg"
where
  "mymq_receive mqinfo maxlen want_prio lock q =
     (if mqi_magic mqinfo \<noteq> MQI_MAGIC then Finish q [] (MqErr EBADF)
      else case lock of
        Some n \<Rightarrow> Finish q [] (MqErr n)
      | None \<Rightarrow>
          if int maxlen < usize (msgsize q) then Finish q [] (MqErr EMSGSIZE)
          else if curmsgs q = 0 then
            (if has_flag (mqi_flags mqinfo) O_NONBLOCK then Finish q [] (MqErr EAGAIN)
             else Sleep (set_nwait (nwait q + 1) q) ())
          else mymq_receive_take want_prio q)"

definition mymq_receive_resume :: "bool \<Rightarrow> mymq \<Rightarrow> (mymq, unit, mq_ret) seg" where
  "mymq_receive_resume want_prio q =
     (if curmsgs q = 0 then Sleep q ()
      else mymq_receive_take want_prio (set_nwait (nwait q - 1) q))"

section \<open>mymq_notify, mymq_getattr, mymq_setattr, mymq_close\<close>

text \<open>\<open>kill0\<close> is the outcome of \<open>kill(pid, 0)\<close>; \<open>pid\<close> is the caller's process id.\<close>

definition mymq_notify ::
  "mymq_info \<Rightarrow> sigevent option \<Rightarrow> int \<Rightarrow> (int \<Rightarrow> status) \<Rightarrow> status \<Rightarrow> mymq \<Rightarrow> mymq \<times> unit result"
where
  "mymq_notify mqinfo notification pid kill0 lock q =
     (if mqi_magic mqinfo \<noteq> MQI_MAGIC then (q, Inl EBADF)
      else case lock of
        Some n \<Rightarrow> (q, Inl n)
      | None \<Rightarrow>
          let h = q_hdr q in
          case notification of
            None \<Rightarrow> (if mqh_pid h = pid then q\<lparr>q_hdr := h\<lparr>mqh_pid := 0\<rparr>\<rparr> else q, Inr ())
          | Some ev \<Rightarrow>
              if mqh_pid h \<noteq> 0 \<and> kill0 (mqh_pid h) \<noteq> Some ESRCH then (q, Inl EBUSY)
              else (q\<lparr>q_hdr := h\<lparr>mqh_pid := pid, mqh_event := ev\<rparr>\<rparr>, Inr ()))"

definition mq_status :: "mymq_info \<Rightarrow> mymq \<Rightarrow> mymq_attr" where
  "mq_status mqinfo q =
     \<lparr>mq_flags = scast (mqi_flags mqinfo), mq_maxmsg = maxmsg q, mq_msgsize = msgsize q,
      mq_curmsgs = curmsgs q\<rparr>"

definition mymq_getattr :: "mymq_info \<Rightarrow> status \<Rightarrow> mymq \<Rightarrow> mymq_attr result" where
  "mymq_getattr mqinfo lock q =
     (if mqi_magic mqinfo \<noteq> MQI_MAGIC then Inl EBADF
      else case lock of Some n \<Rightarrow> Inl n | None \<Rightarrow> Inr (mq_status mqinfo q))"

text \<open>The result carries what is stored through \<open>omqstat\<close> when that is not null.\<close>

definition mymq_setattr ::
  "mymq_info \<Rightarrow> mymq_attr \<Rightarrow> bool \<Rightarrow> status \<Rightarrow> mymq \<Rightarrow> mymq_info \<times> mymq_attr option result"
where
  "mymq_setattr mqinfo mqstat want_old lock q =
     (if mqi_magic mqinfo \<noteq> MQI_MAGIC then (mqinfo, Inl EBADF)
      else case lock of
        Some n \<Rightarrow> (mqinfo, Inl n)
      | None \<Rightarrow>
          (if mq_flags mqstat AND scast O_NONBLOCK \<noteq> 0
           then mqinfo\<lparr>mqi_flags := mqi_flags mqinfo OR O_NONBLOCK\<rparr>
           else mqinfo\<lparr>mqi_flags := mqi_flags mqinfo AND NOT O_NONBLOCK\<rparr>,
           Inr (if want_old then Some (mq_status mqinfo q) else None)))"

text \<open>
  Sizes of the structures, in bytes, are those of the platform; \<open>MSGSIZE\<close> rounds a message
  up to a multiple of \<open>sizeof(long)\<close>.
\<close>

record layout =
  sizeof_long :: int
  sizeof_mq_hdr :: int
  sizeof_msg_hdr :: int

definition MSGSIZE :: "layout \<Rightarrow> int \<Rightarrow> int" where
  "MSGSIZE L i = ((i + sizeof_long L - 1) div sizeof_long L) * sizeof_long L"

text \<open>The value of an expression once it is stored in a \<open>long\<close>.\<close>

definition to_long :: "int \<Rightarrow> int" where
  "to_long n = sint (word_of_int n :: 64 word)"

definition mq_slotsize :: "layout \<Rightarrow> mymq_attr \<Rightarrow> int" where
  "mq_slotsize L attr = sizeof_msg_hdr L + to_long (MSGSIZE L (mq_msgsize attr))"

definition mq_filesize :: "layout \<Rightarrow> mymq_attr \<Rightarrow> int" where
  "mq_filesize L attr = to_long (sizeof_mq_hdr L + mq_maxmsg attr * mq_slotsize L attr)"

text \<open>
  \<open>munmap\<close> is the outcome of unmapping that many bytes.  The descriptor is \<open>None\<close> once it has
  been freed.
\<close>

definition mymq_close ::
  "layout \<Rightarrow> (int \<Rightarrow> status) \<Rightarrow> mymq_info \<Rightarrow> int \<Rightarrow> (int \<Rightarrow> status) \<Rightarrow> status \<Rightarrow> mymq \<Rightarrow>
   mymq \<times> mymq_info option \<times> unit result"
where
  "mymq_close L munmap mqinfo pid kill0 lock q =
     (if mqi_magic mqinfo \<noteq> MQI_MAGIC then (q, Some mqinfo, Inl EBADF)
      else case mymq_notify mqinfo None pid kill0 lock q of
        (q', Inl e) \<Rightarrow> (q', Some mqinfo, Inl e)
      | (q', Inr _) \<Rightarrow>
          (case munmap (mq_filesize L (q_attr q')) of
             Some e \<Rightarrow> (q', Some mqinfo, Inl e)
           | None \<Rightarrow> (q', None, Inr ())))"

section \<open>The wrapper functions\<close>

definition Mymq_send ::
  "mymq_info \<Rightarrow> byte list \<Rightarrow> prio \<Rightarrow> status \<Rightarrow> mymq \<Rightarrow> (mymq, unit, mq_ret wrapped) seg"
where
  "Mymq_send mqinfo ptr prio lock q =
     map_seg id id (\<lambda>r. case r of MqErr e \<Rightarrow> Exits ''mymq_send error'' e | _ \<Rightarrow> Returns r)
       (mymq_send mqinfo ptr prio lock q)"

definition Mymq_receive ::
  "mymq_info \<Rightarrow> nat \<Rightarrow> bool \<Rightarrow> status \<Rightarrow> mymq \<Rightarrow> (mymq, unit, mq_ret wrapped) seg"
where
  "Mymq_receive mqinfo maxlen want_prio lock q =
     map_seg id id (\<lambda>r. case r of MqErr e \<Rightarrow> Exits ''mymq_receive error'' e | _ \<Rightarrow> Returns r)
       (mymq_receive mqinfo maxlen want_prio lock q)"

definition Mymq_notify ::
  "mymq_info \<Rightarrow> sigevent option \<Rightarrow> int \<Rightarrow> (int \<Rightarrow> status) \<Rightarrow> status \<Rightarrow> mymq \<Rightarrow> mymq \<times> unit wrapped"
where
  "Mymq_notify mqinfo notification pid kill0 lock q =
     map_prod id (err_sys_on_error ''mymq_notify error'')
       (mymq_notify mqinfo notification pid kill0 lock q)"

definition Mymq_getattr :: "mymq_info \<Rightarrow> status \<Rightarrow> mymq \<Rightarrow> mymq_attr wrapped" where
  "Mymq_getattr mqinfo lock q =
     err_sys_on_error ''mymq_getattr error'' (mymq_getattr mqinfo lock q)"

definition Mymq_setattr ::
  "mymq_info \<Rightarrow> mymq_attr \<Rightarrow> bool \<Rightarrow> status \<Rightarrow> mymq \<Rightarrow> mymq_info \<times> mymq_attr option wrapped"
where
  "Mymq_setattr mqinfo mqstat want_old lock q =
     map_prod id (err_sys_on_error ''mymq_setattr error'')
       (mymq_setattr mqinfo mqstat want_old lock q)"

definition Mymq_close ::
  "layout \<Rightarrow> (int \<Rightarrow> status) \<Rightarrow> mymq_info \<Rightarrow> int \<Rightarrow> (int \<Rightarrow> status) \<Rightarrow> status \<Rightarrow> mymq \<Rightarrow>
   mymq \<times> mymq_info option \<times> unit wrapped"
where
  "Mymq_close L munmap mqinfo pid kill0 lock q =
     map_prod id (map_prod id (err_sys_on_error ''mymq_close error''))
       (mymq_close L munmap mqinfo pid kill0 lock q)"

end
