(* ===== verification/Mqueue_Spec.thy ===== *)
theory Mqueue_Spec
  imports Prelude
begin

text \<open>
  The abstract message queue: a list of prioritised messages, highest priority first and
  oldest first within a priority, with a capacity.  The locale states what an implementation
  promises; its lemmas describe whole sequences of sends and receives.
\<close>

section \<open>Stable insertion by priority\<close>

fun pq_insert :: "('p::linorder \<times> 'm) \<Rightarrow> ('p \<times> 'm) list \<Rightarrow> ('p \<times> 'm) list" where
  "pq_insert x [] = [x]"
| "pq_insert x (y # ys) = (if fst x > fst y then x # y # ys else y # pq_insert x ys)"

definition pq_sorted :: "('p::linorder \<times> 'm) list \<Rightarrow> bool" where
  "pq_sorted xs \<longleftrightarrow> sorted_wrt (\<lambda>x y. fst y \<le> fst x) xs"

lemma pq_insert_split:
  "pq_insert x ys = takeWhile (\<lambda>y. fst x \<le> fst y) ys @ x # dropWhile (\<lambda>y. fst x \<le> fst y) ys"
  by (induction ys) auto

lemma length_pq_insert [simp]: "length (pq_insert x ys) = Suc (length ys)"
  by (induction ys) auto

lemma mset_pq_insert [simp]: "mset (pq_insert x ys) = add_mset x (mset ys)"
  by (induction ys) auto

lemma set_pq_insert [simp]: "set (pq_insert x ys) = insert x (set ys)"
  by (induction ys) auto

lemma pq_sorted_Nil [simp]: "pq_sorted []"
  by (simp add: pq_sorted_def)

lemma pq_sorted_Cons [simp]:
  "pq_sorted (x # xs) \<longleftrightarrow> (\<forall>y \<in> set xs. fst y \<le> fst x) \<and> pq_sorted xs"
  by (auto simp: pq_sorted_def)

lemma pq_sorted_insert: "pq_sorted ys \<Longrightarrow> pq_sorted (pq_insert x ys)"
  by (induction ys) auto

text \<open>Within one priority, the new message comes last.\<close>

lemma filter_pq_insert:
  "pq_sorted ys \<Longrightarrow>
   filter (\<lambda>y. fst y = p) (pq_insert x ys) =
     filter (\<lambda>y. fst y = p) ys @ (if fst x = p then [x] else [])"
proof (induction ys)
  case Nil
  then show ?case by simp
next
  case (Cons y ys)
  show ?case
  proof (cases "fst x > fst y")
    case True
    with Cons.prems have "filter (\<lambda>z. fst z = fst x) (y # ys) = []"
      by (auto simp: filter_empty_conv)
    with True show ?thesis by auto
  next
    case False
    with Cons show ?thesis by auto
  qed
qed

text \<open>A list sorted by priority is determined by its subsequences of equal priority.\<close>

lemma pq_sorted_eqI:
  assumes "pq_sorted xs" and "pq_sorted ys"
    and "\<And>p. filter (\<lambda>y. fst y = p) xs = filter (\<lambda>y. fst y = p) ys"
  shows "xs = ys"
  using assms
proof (induction xs arbitrary: ys)
  case Nil
  show ?case
  proof (cases ys)
    case (Cons y ys')
    with Nil.prems(3) [of "fst y"] show ?thesis by simp
  qed simp
next
  case (Cons x xs)
  have memb: "set (x # xs) = set ys"
  proof (intro set_eqI iffI)
    fix z assume "z \<in> set (x # xs)"
    then have "z \<in> set (filter (\<lambda>y. fst y = fst z) (x # xs))" by auto
    then show "z \<in> set ys" using Cons.prems(3) [of "fst z"] by (metis filter_is_subset subsetD)
  next
    fix z assume "z \<in> set ys"
    then have "z \<in> set (filter (\<lambda>y. fst y = fst z) ys)" by simp
    then show "z \<in> set (x # xs)"
      using Cons.prems(3) [of "fst z"] by (metis filter_is_subset subsetD)
  qed
  then obtain y ys' where ys: "ys = y # ys'" by (cases ys) auto
  have "fst y = fst x"
  proof (rule antisym)
    show "fst y \<le> fst x" using memb ys Cons.prems(1) by auto
    have "x \<in> set (y # ys')" using memb ys by auto
    then show "fst x \<le> fst y" using ys Cons.prems(2) by auto
  qed
  then have "x = y"
    using Cons.prems(3) [of "fst x"] ys by simp
  have "xs = ys'"
  proof (rule Cons.IH)
    fix p show "filter (\<lambda>y. fst y = p) xs = filter (\<lambda>y. fst y = p) ys'"
      using Cons.prems(3) [of p] ys \<open>x = y\<close> by (simp split: if_splits)
  qed (use Cons.prems ys in auto)
  with \<open>x = y\<close> ys show ?case by simp
qed

text \<open>The order in which a batch of messages is delivered.\<close>

definition delivery_order :: "('p::linorder \<times> 'm) list \<Rightarrow> ('p \<times> 'm) list" where
  "delivery_order ms = fold pq_insert ms []"

lemma fold_pq_insert_props:
  "pq_sorted ys \<Longrightarrow>
   pq_sorted (fold pq_insert ms ys) \<and>
   mset (fold pq_insert ms ys) = mset ys + mset ms \<and>
   filter (\<lambda>y. fst y = p) (fold pq_insert ms ys) =
     filter (\<lambda>y. fst y = p) ys @ filter (\<lambda>y. fst y = p) ms"
  by (induction ms arbitrary: ys) (auto simp: pq_sorted_insert filter_pq_insert)

lemma delivery_order_props:
  "pq_sorted (delivery_order ms)"
  "mset (delivery_order ms) = mset ms"
  "filter (\<lambda>y. fst y = p) (delivery_order ms) = filter (\<lambda>y. fst y = p) ms"
  using fold_pq_insert_props [of "[]" ms] by (auto simp: delivery_order_def)

section \<open>The interface of a queue\<close>

text \<open>
  \<open>put m p q\<close> and \<open>get q\<close> are the sending and receiving halves of an implementation, \<open>None\<close>
  when they fail; \<open>fits q m\<close> says the message is not too long for the queue.
\<close>

locale message_queue =
  fixes ok :: "'q \<Rightarrow> bool"
    and contents :: "'q \<Rightarrow> ('p::linorder \<times> 'm) list"
    and capacity :: "'q \<Rightarrow> nat"
    and fits :: "'q \<Rightarrow> 'm \<Rightarrow> bool"
    and put :: "'m \<Rightarrow> 'p \<Rightarrow> 'q \<Rightarrow> 'q option"
    and get :: "'q \<Rightarrow> ('q \<times> 'p \<times> 'm) option"
  assumes put_spec:
      "\<lbrakk>ok q; length (contents q) < capacity q; fits q m\<rbrakk> \<Longrightarrow>
       \<exists>q'. put m p q = Some q' \<and> ok q' \<and> contents q' = pq_insert (p, m) (contents q) \<and>
            capacity q' = capacity q \<and> fits q' = fits q"
    and get_spec:
      "\<lbrakk>ok q; contents q = x # xs\<rbrakk> \<Longrightarrow>
       \<exists>q'. get q = Some (q', x) \<and> ok q' \<and> contents q' = xs \<and>
            capacity q' = capacity q \<and> fits q' = fits q"
    and sorted: "ok q \<Longrightarrow> pq_sorted (contents q)"
    and bounded: "ok q \<Longrightarrow> length (contents q) \<le> capacity q"
begin

fun put_all :: "('p \<times> 'm) list \<Rightarrow> 'q \<Rightarrow> 'q option" where
  "put_all [] q = Some q"
| "put_all (x # xs) q = Option.bind (put (snd x) (fst x) q) (put_all xs)"

fun get_all :: "nat \<Rightarrow> 'q \<Rightarrow> ('q \<times> ('p \<times> 'm) list) option" where
  "get_all 0 q = Some (q, [])"
| "get_all (Suc n) q =
     (case get q of None \<Rightarrow> None
      | Some (q', x) \<Rightarrow> map_option (map_prod id ((#) x)) (get_all n q'))"

lemma put_all_spec:
  "\<lbrakk>ok q; length (contents q) + length ms \<le> capacity q; \<forall>x \<in> set ms. fits q (snd x)\<rbrakk> \<Longrightarrow>
   \<exists>q'. put_all ms q = Some q' \<and> ok q' \<and> contents q' = fold pq_insert ms (contents q) \<and>
        capacity q' = capacity q \<and> fits q' = fits q"
proof (induction ms arbitrary: q)
  case Nil
  then show ?case by simp
next
  case (Cons x ms)
  then obtain q1 where q1: "put (snd x) (fst x) q = Some q1" "ok q1"
      "contents q1 = pq_insert x (contents q)" "capacity q1 = capacity q" "fits q1 = fits q"
    using put_spec [of q "snd x" "fst x"] by auto
  with Cons.prems Cons.IH [of q1] show ?case by auto
qed

lemma get_all_spec:
  "\<lbrakk>ok q; n \<le> length (contents q)\<rbrakk> \<Longrightarrow>
   \<exists>q'. get_all n q = Some (q', take n (contents q)) \<and> ok q' \<and> contents q' = drop n (contents q)"
proof (induction n arbitrary: q)
  case 0
  then show ?case by simp
next
  case (Suc n)
  then obtain x xs where xs: "contents q = x # xs" by (cases "contents q") auto
  with Suc.prems obtain q1 where q1: "get q = Some (q1, x)" "ok q1" "contents q1 = xs"
    using get_spec by blast
  with Suc.prems Suc.IH [of q1] xs show ?case by auto
qed

text \<open>
  Sending a batch to an empty queue and receiving as many messages delivers exactly the
  batch, in delivery order, and leaves the queue empty.
\<close>

lemma put_all_get_all:
  assumes "ok q" and "contents q = []" and "length ms \<le> capacity q"
    and "\<forall>x \<in> set ms. fits q (snd x)"
  shows "\<exists>q1 q2. put_all ms q = Some q1 \<and> get_all (length ms) q1 = Some (q2, delivery_order ms) \<and>
           ok q2 \<and> contents q2 = []"
proof -
  from assms obtain q1 where q1: "put_all ms q = Some q1" "ok q1"
      "contents q1 = delivery_order ms"
    using put_all_spec [of q ms] by (auto simp: delivery_order_def)
  have "length (delivery_order ms) = length ms"
    by (metis delivery_order_props(2) size_mset)
  with q1 get_all_spec [of q1 "length ms"] show ?thesis by auto
qed

end

end
