(* ===== verification/Mqueue_Inv.thy ===== *)
theory Mqueue_Inv
  imports Mqueue Mqueue_Spec
begin

text \<open>
  The well-formedness invariant of a mapped queue, its contents as a list of prioritised
  messages, and the refinement of the abstract queue of Mqueue_Spec by the linked lists that
  mymq_send and mymq_receive maintain.
\<close>

section \<open>Invariant and abstraction\<close>

definition nxt :: "mymq \<Rightarrow> int \<Rightarrow> int option" where
  "nxt q i = map_option msg_next (q_msgs q i)"

definition message :: "(int \<Rightarrow> mymsg_hdr option) \<Rightarrow> int \<Rightarrow> prio \<times> byte list" where
  "message ms i = (case ms i of None \<Rightarrow> (0, [])
     | Some m \<Rightarrow> (msg_prio m, take (nat (msg_len m)) (msg_data m)))"

text \<open>The queued messages, read by following the links \<open>mq_curmsgs\<close> times.\<close>

fun messages :: "nat \<Rightarrow> (int \<Rightarrow> mymsg_hdr option) \<Rightarrow> int \<Rightarrow> (prio \<times> byte list) list" where
  "messages 0 ms i = []"
| "messages (Suc n) ms i =
     (case ms i of None \<Rightarrow> [] | Some m \<Rightarrow> message ms i # messages n ms (msg_next m))"

definition mq_contents :: "mymq \<Rightarrow> (prio \<times> byte list) list" where
  "mq_contents q = messages (nat (curmsgs q)) (q_msgs q) (mqh_head (q_hdr q))"

text \<open>
  \<open>hs\<close> are the offsets of the queued messages and \<open>fs\<close> those of the free slots: together
  they are all slots of the file, each once.
\<close>

definition mq_lists :: "mymq \<Rightarrow> int list \<Rightarrow> int list \<Rightarrow> bool" where
  "mq_lists q hs fs \<longleftrightarrow>
     chain (nxt q) (mqh_head (q_hdr q)) hs \<and> chain (nxt q) (mqh_free (q_hdr q)) fs \<and>
     distinct (hs @ fs) \<and> dom (q_msgs q) = set (hs @ fs)"

definition mq_sizes :: "mymq \<Rightarrow> int list \<Rightarrow> bool" where
  "mq_sizes q hs \<longleftrightarrow>
     0 < msgsize q \<and> msgsize q < 2 ^ 63 \<and>
     (\<forall>i m. q_msgs q i = Some m \<longrightarrow>
        msgsize q \<le> int (length (msg_data m)) \<and>
        (i \<in> set hs \<longrightarrow> 0 \<le> msg_len m \<and> msg_len m \<le> msgsize q))"

definition mq_ok :: "mymq \<Rightarrow> bool" where
  "mq_ok q \<longleftrightarrow> (\<exists>hs fs. mq_lists q hs fs \<and> mq_sizes q hs \<and>
     curmsgs q = int (length hs) \<and> maxmsg q = int (length hs + length fs) \<and> 0 < maxmsg q \<and>
     pq_sorted (map (message (q_msgs q)) hs))"

lemma mq_okE:
  assumes "mq_ok q"
  obtains hs fs where "mq_lists q hs fs" "mq_sizes q hs" "curmsgs q = int (length hs)"
    "maxmsg q = int (length hs + length fs)" "0 < maxmsg q"
    "pq_sorted (map (message (q_msgs q)) hs)"
  using assms by (auto simp: mq_ok_def)

lemma messages_chain:
  "chain (\<lambda>i. map_option msg_next (ms i)) i hs \<Longrightarrow> messages (length hs) ms i = map (message ms) hs"
  by (induction hs arbitrary: i) (auto split: option.splits)

lemma mq_contents_lists:
  "mq_lists q hs fs \<Longrightarrow> curmsgs q = int (length hs) \<Longrightarrow> mq_contents q = map (message (q_msgs q)) hs"
  by (simp add: mq_contents_def mq_lists_def nxt_def [abs_def] messages_chain)

lemma mq_ok_bounds:
  "mq_ok q \<Longrightarrow> 0 \<le> curmsgs q \<and> curmsgs q \<le> maxmsg q \<and> 0 < maxmsg q \<and>
     curmsgs q = int (length (mq_contents q)) \<and> pq_sorted (mq_contents q)"
  by (elim mq_okE) (simp add: mq_contents_lists)

lemma usize_msgsize: "mq_ok q \<Longrightarrow> usize (msgsize q) = msgsize q"
  by (elim mq_okE) (auto simp: usize_def mq_sizes_def)

section \<open>Linking a message in\<close>

lemma nxt_Some: "nxt q i = Some j \<longleftrightarrow> (\<exists>m. q_msgs q i = Some m \<and> j = msg_next m)"
  by (auto simp: nxt_def)

lemma nxt_upd [simp]:
  "nxt (q\<lparr>q_msgs := (q_msgs q)(i \<mapsto> m), q_hdr := h\<rparr>) = (nxt q)(i \<mapsto> msg_next m)"
  "nxt (q\<lparr>q_msgs := (q_msgs q)(i \<mapsto> m)\<rparr>) = (nxt q)(i \<mapsto> msg_next m)"
  "nxt (q\<lparr>q_hdr := h\<rparr>) = nxt q"
  by (auto simp: nxt_def fun_eq_iff)

text \<open>
  The search stops before the first message of a lower priority; \<open>js\<close> are the messages
  still ahead of the search and \<open>p\<close> is where the link to the new message goes.
\<close>

definition link_before :: "prio \<Rightarrow> mymq \<Rightarrow> int list \<Rightarrow> int list" where
  "link_before prio q js = takeWhile (\<lambda>j. prio \<le> fst (message (q_msgs q) j)) js"

definition link_after :: "prio \<Rightarrow> mymq \<Rightarrow> int list \<Rightarrow> int list" where
  "link_after prio q js = dropWhile (\<lambda>j. prio \<le> fst (message (q_msgs q) j)) js"

lemma mq_link_chain:
  assumes "chain (nxt q) index js"
  shows "mq_link prio f p index q =
    (let p' = (if link_before prio q js = [] then p else AtMsg (last (link_before prio q js)))
     in case link_after prio q js of
          [] \<Rightarrow> Option.bind (set_next p' f q) (set_next (AtMsg f) 0)
        | z # zs \<Rightarrow> Option.bind (set_next (AtMsg f) z q) (set_next p' f))"
  using assms
proof (induction js arbitrary: index p)
  case Nil
  then show ?case
    by (simp add: mq_link.simps link_before_def link_after_def)
next
  case (Cons j js)
  from Cons.prems obtain m where
      m: "q_msgs q j = Some m" "index = j" "j \<noteq> 0" "chain (nxt q) (msg_next m) js"
    by (auto simp: nxt_Some split: option.splits)
  have ba: "link_before prio q (j # js) = (if prio \<le> msg_prio m then j # link_before prio q js else [])"
      "link_after prio q (j # js) = (if prio \<le> msg_prio m then link_after prio q js else j # js)"
    using m(1) by (simp_all add: link_before_def link_after_def message_def)
  show ?case
  proof (cases "prio \<le> msg_prio m")
    case True
    then have "mq_link prio f p index q = mq_link prio f (AtMsg j) (msg_next m) q"
      using m by (subst mq_link.simps) (simp add: leD)
    with True Cons.IH [OF m(4), of "AtMsg j"] show ?thesis
      by (simp add: ba Let_def)
  next
    case False
    then have "mq_link prio f p index q = Option.bind (set_next (AtMsg f) j q) (set_next p f)"
      using m by (subst mq_link.simps) (simp add: not_le)
    with False show ?thesis by (simp add: ba)
  qed
qed

text \<open>What a slot holds apart from its link; relinking a list changes links only.\<close>

definition payload :: "mymsg_hdr \<Rightarrow> int \<times> prio \<times> byte list" where
  "payload m = (msg_len m, msg_prio m, msg_data m)"

definition relinked :: "mymq \<Rightarrow> mymq \<Rightarrow> bool" where
  "relinked q q' \<longleftrightarrow>
     (\<forall>i. map_option payload (q_msgs q' i) = map_option payload (q_msgs q i)) \<and>
     q_sigs q' = q_sigs q \<and> (\<exists>n. q_hdr q' = (q_hdr q)\<lparr>mqh_head := n\<rparr>)"

lemma relinked_dom: "relinked q q' \<Longrightarrow> dom (q_msgs q') = dom (q_msgs q)"
  unfolding relinked_def by (metis (mono_tags, lifting) Collect_cong dom_def map_option_is_None)

lemma relinked_Some:
  "relinked q q' \<Longrightarrow> q_msgs q' i = Some m' \<Longrightarrow> \<exists>m. q_msgs q i = Some m \<and> payload m' = payload m"
  unfolding relinked_def by (metis map_option_eq_Some)

lemma relinked_message: "relinked q q' \<Longrightarrow> message (q_msgs q') = message (q_msgs q)"
proof
  fix i assume r: "relinked q q'"
  then have "map_option payload (q_msgs q' i) = map_option payload (q_msgs q i)"
    by (simp add: relinked_def)
  then show "message (q_msgs q') i = message (q_msgs q) i"
    by (cases "q_msgs q' i"; cases "q_msgs q i") (auto simp: message_def payload_def)
qed

text \<open>
  Splicing a filled slot \<open>f\<close> between \<open>xs\<close> and \<open>ys\<close>: the chain from the head then runs through
  \<open>xs\<close>, \<open>f\<close> and \<open>ys\<close>, in whichever order the two links are written, and slots outside are
  untouched.
\<close>

lemma splice_chain:
  assumes q: "chain (nxt q) (mqh_head (q_hdr q)) (xs @ ys)" and dist: "distinct (xs @ ys)"
    and f: "q_msgs q f = Some m" "f \<noteq> 0" "f \<notin> set (xs @ ys)"
    and p: "p = (if xs = [] then AtHead else AtMsg (last xs))"
    and z: "z = (case ys of [] \<Rightarrow> 0 | y # _ \<Rightarrow> y)"
  shows "\<exists>q'. Option.bind (set_next p f q) (set_next (AtMsg f) z) = Some q' \<and>
     Option.bind (set_next (AtMsg f) z q) (set_next p f) = Some q' \<and>
     chain (nxt q') (mqh_head (q_hdr q')) (xs @ f # ys) \<and>
     (\<forall>i. i \<notin> set xs \<and> i \<noteq> f \<longrightarrow> nxt q' i = nxt q i) \<and> relinked q q'"
proof (cases xs rule: rev_cases)
  case Nil
  have head: "mqh_head (q_hdr q) = z"
    using q z Nil by (cases ys) auto
  let ?q' = "q\<lparr>q_msgs := (q_msgs q)(f \<mapsto> m\<lparr>msg_next := z\<rparr>), q_hdr := (q_hdr q)\<lparr>mqh_head := f\<rparr>\<rparr>"
  have "chain ((nxt q)(f \<mapsto> z)) z ys"
    using q f Nil head by (subst chain_frame [where nxt = "nxt q"]) auto
  moreover have "relinked q ?q'"
    using f by (auto simp: relinked_def payload_def)
  ultimately show ?thesis
    using f Nil p by (intro exI [of _ ?q']) auto
next
  case (snoc as a)
  then obtain ma where a: "segment (nxt q) (mqh_head (q_hdr q)) as a" "q_msgs q a = Some ma"
      "a \<noteq> 0" "chain (nxt q) (msg_next ma) ys"
    using q by (auto simp: chain_append segment_append nxt_def split: option.splits)
  have z': "z = msg_next ma"
    using a(4) z by (cases ys) auto
  have af: "a \<noteq> f" "a \<notin> set as" "a \<notin> set ys"
    using f(3) snoc dist by auto
  let ?q' = "q\<lparr>q_msgs := (q_msgs q)(a \<mapsto> ma\<lparr>msg_next := f\<rparr>, f \<mapsto> m\<lparr>msg_next := z\<rparr>)\<rparr>"
  have n': "nxt ?q' = (nxt q)(a \<mapsto> f, f \<mapsto> z)"
    by (auto simp: nxt_def fun_eq_iff)
  have "segment (nxt ?q') (mqh_head (q_hdr q)) as a"
    unfolding n' using a(1) af f snoc by (subst segment_frame [where nxt = "nxt q"]) auto
  moreover have "chain (nxt ?q') z ys"
    unfolding n' using a(4) z' af f snoc by (subst chain_frame [where nxt = "nxt q"]) auto
  ultimately have ch: "chain (nxt ?q') (mqh_head (q_hdr ?q')) (xs @ f # ys)"
    using snoc a f af by (auto simp: chain_append segment_append n')
  have sn: "Option.bind (set_next p f q) (set_next (AtMsg f) z) = Some ?q'"
      "Option.bind (set_next (AtMsg f) z q) (set_next p f) = Some ?q'"
    using snoc p a f af by (auto simp: fun_upd_twist)
  have "relinked q ?q'"
    using a f by (auto simp: relinked_def payload_def intro: exI [of _ "mqh_head (q_hdr q)"])
  with ch sn snoc show ?thesis
    by (intro exI [of _ ?q']) (auto simp: n')
qed

section \<open>Sending and receiving refine the abstract queue\<close>

lemma link_before_after [simp]: "link_before prio q js @ link_after prio q js = js"
  by (simp add: link_before_def link_after_def)

text \<open>Linking slot \<open>f\<close>, already filled, into the list of queued messages.\<close>

lemma mq_link_correct:
  assumes "chain (nxt q) (mqh_head (q_hdr q)) hs" and "distinct hs"
    and "q_msgs q f = Some m" and "f \<noteq> 0" and "f \<notin> set hs" and "prio = msg_prio m"
  shows "\<exists>q' hs'. mq_link prio f AtHead (mqh_head (q_hdr q)) q = Some q' \<and>
     chain (nxt q') (mqh_head (q_hdr q')) hs' \<and> relinked q q' \<and>
     (\<forall>i. i \<notin> set hs \<and> i \<noteq> f \<longrightarrow> nxt q' i = nxt q i) \<and>
     mset hs' = add_mset f (mset hs) \<and>
     map (message (q_msgs q)) hs' = pq_insert (message (q_msgs q) f) (map (message (q_msgs q)) hs)"
proof -
  define xs where "xs = link_before prio q hs"
  define ys where "ys = link_after prio q hs"
  have hs: "hs = xs @ ys"
    by (simp add: xs_def ys_def)
  define p where "p = (if xs = [] then AtHead else AtMsg (last xs))"
  define z where "z = (case ys of [] \<Rightarrow> 0 | y # _ \<Rightarrow> y)"
  obtain q' where q': "Option.bind (set_next p f q) (set_next (AtMsg f) z) = Some q'"
      "Option.bind (set_next (AtMsg f) z q) (set_next p f) = Some q'"
      "chain (nxt q') (mqh_head (q_hdr q')) (xs @ f # ys)"
      "\<forall>i. i \<notin> set xs \<and> i \<noteq> f \<longrightarrow> nxt q' i = nxt q i" "relinked q q'"
    using splice_chain [of q xs ys f m p z] assms hs p_def z_def by auto
  have "mq_link prio f AtHead (mqh_head (q_hdr q)) q = Some q'"
    using mq_link_chain [OF assms(1), of prio f AtHead] q'(1,2) p_def z_def
    by (auto simp: xs_def [symmetric] ys_def [symmetric] split: list.splits)
  moreover have "map (message (q_msgs q)) (xs @ f # ys) =
      pq_insert (message (q_msgs q) f) (map (message (q_msgs q)) hs)"
    using assms(3,6)
    by (simp add: pq_insert_split xs_def ys_def link_before_def link_after_def takeWhile_map
        dropWhile_map comp_def message_def [of _ f])
  ultimately show ?thesis
    using q' hs by (intro exI [of _ q'] exI [of _ "xs @ f # ys"]) auto
qed

text \<open>What a send or a receive leaves alone.\<close>

definition mq_frame :: "mymq \<Rightarrow> int \<times> int \<times> 64 word \<times> int \<times> int \<times> sigevent \<times> (int \<times> int \<times> int) list" where
  "mq_frame q = (maxmsg q, msgsize q, mq_flags (q_attr q), nwait q, mqh_pid (q_hdr q),
     mqh_event (q_hdr q), q_sigs q)"

lemma set_curmsgs_simps [simp]:
  "q_msgs (set_curmsgs n q) = q_msgs q" "q_sigs (set_curmsgs n q) = q_sigs q"
  "mqh_head (q_hdr (set_curmsgs n q)) = mqh_head (q_hdr q)"
  "mqh_free (q_hdr (set_curmsgs n q)) = mqh_free (q_hdr q)"
  "curmsgs (set_curmsgs n q) = n" "maxmsg (set_curmsgs n q) = maxmsg q"
  "msgsize (set_curmsgs n q) = msgsize q" "nxt (set_curmsgs n q) = nxt q"
  "mq_frame (set_curmsgs n q) = mq_frame q"
  by (auto simp: set_curmsgs_def nxt_def mq_frame_def)

lemma set_nwait_simps [simp]:
  "q_msgs (set_nwait n q) = q_msgs q" "q_sigs (set_nwait n q) = q_sigs q"
  "mqh_head (q_hdr (set_nwait n q)) = mqh_head (q_hdr q)"
  "mqh_free (q_hdr (set_nwait n q)) = mqh_free (q_hdr q)"
  "q_attr (set_nwait n q) = q_attr q" "nwait (set_nwait n q) = n"
  "mqh_pid (q_hdr (set_nwait n q)) = mqh_pid (q_hdr q)"
  "mqh_event (q_hdr (set_nwait n q)) = mqh_event (q_hdr q)"
  "nxt (set_nwait n q) = nxt q"
  by (auto simp: set_nwait_def nxt_def)

text \<open>The invariant depends only on the slots, the two list heads and the attributes.\<close>

lemma mq_ok_cong:
  assumes "q_msgs q' = q_msgs q" "mqh_head (q_hdr q') = mqh_head (q_hdr q)"
    "mqh_free (q_hdr q') = mqh_free (q_hdr q)" "q_attr q' = q_attr q"
  shows "mq_ok q' = mq_ok q" and "mq_contents q' = mq_contents q"
  using assms by (simp_all add: mq_ok_def mq_lists_def mq_sizes_def mq_contents_def nxt_def [abs_def])

lemma mq_ok_set_nwait [simp]:
  "mq_ok (set_nwait n q) = mq_ok q" "mq_contents (set_nwait n q) = mq_contents q"
  by (rule mq_ok_cong; simp)+

lemma mq_notify_arrival_simps [simp]:
  "q_msgs (mq_notify_arrival q) = q_msgs q"
  "mqh_head (q_hdr (mq_notify_arrival q)) = mqh_head (q_hdr q)"
  "mqh_free (q_hdr (mq_notify_arrival q)) = mqh_free (q_hdr q)"
  "q_attr (mq_notify_arrival q) = q_attr q"
  "nwait (mq_notify_arrival q) = nwait q"
  by (simp_all add: mq_notify_arrival_def Let_def)

lemma mq_ok_notify_arrival [simp]:
  "mq_ok (mq_notify_arrival q) = mq_ok q" "mq_contents (mq_notify_arrival q) = mq_contents q"
  by (rule mq_ok_cong; simp)+

lemma mq_sizes_relinked:
  assumes "mq_sizes q hs" and "relinked q q'" and "q_msgs q f = Some m"
    and "set hs' = insert f (set hs)" and "0 \<le> msg_len m" and "msg_len m \<le> msgsize q"
  shows "mq_sizes q' hs'"
proof -
  have attr: "q_attr q' = q_attr q"
    using assms(2) by (auto simp: relinked_def)
  have "msgsize q \<le> int (length (msg_data m')) \<and>
      (i \<in> set hs' \<longrightarrow> 0 \<le> msg_len m' \<and> msg_len m' \<le> msgsize q)" if i: "q_msgs q' i = Some m'" for i m'
  proof -
    obtain m0 where "q_msgs q i = Some m0" "payload m' = payload m0"
      using relinked_Some [OF assms(2) i] by blast
    with assms show ?thesis
      unfolding mq_sizes_def payload_def by (cases "i = f") auto
  qed
  with assms(1) attr show ?thesis
    by (simp add: mq_sizes_def)
qed

text \<open>
  Moving the first free slot \<open>f\<close>, once filled (\<open>q1\<close>), to the list of queued messages.
\<close>

lemma mq_link_lists:
  assumes lists: "mq_lists q hs (f # fs)" and f: "q_msgs q f = Some m"
    and q1: "nxt q1 = nxt q" "mqh_head (q_hdr q1) = mqh_head (q_hdr q)"
      "mqh_free (q_hdr q1) = msg_next m" "dom (q_msgs q1) = dom (q_msgs q)"
      "q_msgs q1 f = Some m'"
  shows "\<exists>q2 hs'. mq_link (msg_prio m') f AtHead (mqh_head (q_hdr q1)) q1 = Some q2 \<and>
     mq_lists q2 hs' fs \<and> relinked q1 q2 \<and> set hs' = insert f (set hs) \<and>
     length hs' = Suc (length hs) \<and>
     map (message (q_msgs q1)) hs' =
       pq_insert (message (q_msgs q1) f) (map (message (q_msgs q1)) hs)"
proof -
  have f0: "f \<noteq> 0" "f \<notin> set hs" "f \<notin> set fs" and fch: "chain (nxt q) (msg_next m) fs"
    using lists f by (auto simp: mq_lists_def nxt_def [of q f])
  have "\<exists>q2 hs'. mq_link (msg_prio m') f AtHead (mqh_head (q_hdr q1)) q1 = Some q2 \<and>
     chain (nxt q2) (mqh_head (q_hdr q2)) hs' \<and> relinked q1 q2 \<and>
     (\<forall>i. i \<notin> set hs \<and> i \<noteq> f \<longrightarrow> nxt q2 i = nxt q1 i) \<and>
     mset hs' = add_mset f (mset hs) \<and>
     map (message (q_msgs q1)) hs' = pq_insert (message (q_msgs q1) f) (map (message (q_msgs q1)) hs)"
    using lists f0 q1 by (intro mq_link_correct) (auto simp: mq_lists_def)
  then obtain q2 hs' where q2: "mq_link (msg_prio m') f AtHead (mqh_head (q_hdr q1)) q1 = Some q2"
      "chain (nxt q2) (mqh_head (q_hdr q2)) hs'" "relinked q1 q2"
      "\<forall>i. i \<notin> set hs \<and> i \<noteq> f \<longrightarrow> nxt q2 i = nxt q1 i" "mset hs' = add_mset f (mset hs)"
      "map (message (q_msgs q1)) hs' = pq_insert (message (q_msgs q1) f) (map (message (q_msgs q1)) hs)"
    by blast
  have set': "set hs' = insert f (set hs)"
    using q2(5) by (metis set_mset_add_mset_insert set_mset_mset)
  have len': "length hs' = Suc (length hs)"
    using q2(5) by (metis size_add_mset size_mset)
  have "chain (nxt q2) (msg_next m) fs"
    using fch f0 lists q2(4) q1(1)
    by (subst chain_frame [where nxt = "nxt q"]) (auto simp: mq_lists_def)
  moreover have "mqh_free (q_hdr q2) = msg_next m"
    using q2(3) q1(3) by (auto simp: relinked_def)
  moreover have "distinct (hs' @ fs)"
    using lists q2(5) mset_eq_imp_distinct_iff [of "hs' @ fs" "hs @ f # fs"]
    by (simp add: mq_lists_def)
  moreover have "dom (q_msgs q2) = set (hs' @ fs)"
    using relinked_dom [OF q2(3)] lists set' q1(4) by (auto simp: mq_lists_def)
  ultimately have "mq_lists q2 hs' fs"
    using q2(2) by (simp add: mq_lists_def)
  with q2 set' len' show ?thesis by blast
qed

lemma mymq_send_put_correct:
  assumes ok: "mq_ok q" and room: "curmsgs q < maxmsg q" and len: "int (length ptr) \<le> msgsize q"
  shows "\<exists>q'. mymq_send_put ptr prio q =
        Finish q' (if curmsgs q = 0 then [Signal ()] else []) MqSent \<and>
      mq_ok q' \<and> mq_contents q' = pq_insert (prio, ptr) (mq_contents q) \<and>
      curmsgs q' = curmsgs q + 1 \<and> mq_frame q' = mq_frame q"
proof -
  from ok obtain hs fs where I: "mq_lists q hs fs" "mq_sizes q hs" "curmsgs q = int (length hs)"
    "maxmsg q = int (length hs + length fs)" "0 < maxmsg q" "pq_sorted (map (message (q_msgs q)) hs)"
    by (rule mq_okE)
  from I room obtain f fs' where fs: "fs = f # fs'"
    by (cases fs) auto
  with I(1) obtain m where f: "q_msgs q f = Some m" "f \<noteq> 0" "mqh_free (q_hdr q) = f" "f \<notin> set hs"
    by (auto simp: mq_lists_def nxt_Some split: option.splits)
  have fit: "length ptr \<le> length (msg_data m)"
    using I(2) f(1) len unfolding mq_sizes_def by force
  define m' where "m' = m\<lparr>msg_prio := prio, msg_len := int (length ptr),
    msg_data := ptr @ drop (length ptr) (msg_data m)\<rparr>"
  define q1 where "q1 = q\<lparr>q_msgs := (q_msgs q)(f \<mapsto> m'), q_hdr := (q_hdr q)\<lparr>mqh_free := msg_next m\<rparr>\<rparr>"
  have q1: "nxt q1 = nxt q" "mqh_head (q_hdr q1) = mqh_head (q_hdr q)"
      "mqh_free (q_hdr q1) = msg_next m" "dom (q_msgs q1) = dom (q_msgs q)" "q_msgs q1 f = Some m'"
      "q_attr q1 = q_attr q"
    using f(1) by (auto simp: q1_def m'_def nxt_def fun_eq_iff)
  have msg1: "message (q_msgs q1) f = (prio, ptr)"
      "map (message (q_msgs q1)) hs = map (message (q_msgs q)) hs"
    using f(4) by (auto simp: message_def q1_def m'_def)
  have sz1: "mq_sizes q1 hs"
    using I(2) f fit len by (auto simp: mq_sizes_def q1_def m'_def)
  obtain q2 hs' where q2: "mq_link (msg_prio m') f AtHead (mqh_head (q_hdr q1)) q1 = Some q2"
      "mq_lists q2 hs' fs'" "relinked q1 q2" "set hs' = insert f (set hs)"
      "length hs' = Suc (length hs)"
      "map (message (q_msgs q1)) hs' = pq_insert (message (q_msgs q1) f) (map (message (q_msgs q1)) hs)"
    using mq_link_lists [OF I(1) [unfolded fs] f(1) q1(1-5)] by blast
  have hdr2: "q_attr q2 = q_attr q" "mq_frame q2 = mq_frame q"
    using q2(3) by (auto simp: relinked_def q1_def mq_frame_def)
  have sz2: "mq_sizes q2 hs'"
    using sz1 q2(3,4) q1(5,6) len by (intro mq_sizes_relinked [of q1 hs q2 f m']) (auto simp: m'_def)
  have con2: "map (message (q_msgs q2)) hs' = pq_insert (prio, ptr) (map (message (q_msgs q)) hs)"
    using q2(6) relinked_message [OF q2(3)] msg1 by simp
  let ?q' = "set_curmsgs (curmsgs q2 + 1) q2"
  have lists': "mq_lists ?q' hs' fs'"
    using q2(2) by (simp add: mq_lists_def)
  have ok': "mq_ok ?q'"
    unfolding mq_ok_def using I fs q2(5) hdr2(1) lists' sz2 con2
    by (intro exI [of _ hs'] exI [of _ fs']) (simp add: mq_sizes_def pq_sorted_insert)
  have "mq_contents ?q' = pq_insert (prio, ptr) (mq_contents q)"
    using lists' I hdr2(1) q2(5) con2 by (simp add: mq_contents_lists)
  moreover have "mymq_send_put ptr prio q =
      Finish ?q' (if curmsgs q = 0 then [Signal ()] else []) MqSent"
    using f fit q2(1) hdr2(1) q1(2)
    by (simp add: mymq_send_put_def Let_def q1_def [symmetric] m'_def [symmetric])
      (simp add: m'_def)
  ultimately show ?thesis
    using ok' hdr2 by auto
qed

text \<open>What a receive of message \<open>x\<close> gives its caller.\<close>

definition received :: "bool \<Rightarrow> prio \<times> byte list \<Rightarrow> mq_ret" where
  "received want x = MqReceived (snd x) (if want then Some (fst x) else None)"

lemma mymq_receive_take_correct:
  assumes ok: "mq_ok q" and con: "mq_contents q = x # xs"
  shows "\<exists>q'. mymq_receive_take want q =
        Finish q' (if curmsgs q = maxmsg q then [Signal ()] else []) (received want x) \<and>
      mq_ok q' \<and> mq_contents q' = xs \<and> curmsgs q' = curmsgs q - 1 \<and> mq_frame q' = mq_frame q \<and>
      int (length (snd x)) \<le> msgsize q"
proof -
  from ok obtain hs fs where I: "mq_lists q hs fs" "mq_sizes q hs" "curmsgs q = int (length hs)"
    "maxmsg q = int (length hs + length fs)" "0 < maxmsg q" "pq_sorted (map (message (q_msgs q)) hs)"
    by (rule mq_okE)
  have hs0: "map (message (q_msgs q)) hs = x # xs"
    using con mq_contents_lists [OF I(1,3)] by simp
  then obtain h hs' where hs: "hs = h # hs'" by auto
  from I(1) hs obtain m where h: "q_msgs q h = Some m" "h \<noteq> 0" "mqh_head (q_hdr q) = h"
      "chain (nxt q) (msg_next m) hs'" "h \<notin> set hs'" "h \<notin> set fs"
    by (auto simp: mq_lists_def nxt_Some split: option.splits)
  have x: "x = (msg_prio m, take (nat (msg_len m)) (msg_data m))"
      "map (message (q_msgs q)) hs' = xs"
    using hs0 hs h(1) by (auto simp: message_def)
  have sz: "0 \<le> msg_len m" "msg_len m \<le> msgsize q" "msgsize q \<le> int (length (msg_data m))"
      "msgsize q < 2 ^ 63"
    using I(2) h(1) hs unfolding mq_sizes_def by auto
  have usz: "usize (msg_len m) = msg_len m"
    using sz by (simp add: usize_def)
  define q1 where "q1 = q\<lparr>q_msgs := (q_msgs q)(h \<mapsto> m\<lparr>msg_next := mqh_free (q_hdr q)\<rparr>),
    q_hdr := (q_hdr q)\<lparr>mqh_head := msg_next m, mqh_free := h\<rparr>\<rparr>"
  let ?q' = "set_curmsgs (curmsgs q - 1) q1"
  have n1: "nxt q1 = (nxt q)(h \<mapsto> mqh_free (q_hdr q))"
    by (auto simp: q1_def nxt_def fun_eq_iff)
  have "chain (nxt q1) (msg_next m) hs'"
    unfolding n1 using h by (subst chain_frame [where nxt = "nxt q"]) auto
  moreover have "chain (nxt q1) (mqh_free (q_hdr q)) fs"
    unfolding n1 using h I(1) by (subst chain_frame [where nxt = "nxt q"]) (auto simp: mq_lists_def)
  ultimately have lists': "mq_lists ?q' hs' (h # fs)"
    using I(1) hs h by (auto simp: mq_lists_def n1) (auto simp: q1_def split: if_splits)
  have msgs': "map (message (q_msgs ?q')) hs' = xs"
    using x(2) h(5) by (auto simp: q1_def message_def)
  have "mq_ok ?q'"
    unfolding mq_ok_def using I lists' hs msgs' hs0 h(1)
    by (intro exI [of _ hs'] exI [of _ "h # fs"])
      (auto simp: mq_sizes_def q1_def split: if_splits)
  moreover have "mq_contents ?q' = xs"
    using lists' msgs' I(3) hs by (simp add: mq_contents_lists)
  moreover have "mymq_receive_take want q = Finish ?q' (if curmsgs q = maxmsg q then [Signal ()] else [])
      (received want x)"
    using h sz usz x(1) by (simp add: received_def mymq_receive_take_def Let_def q1_def [symmetric])
  moreover have "int (length (snd x)) \<le> msgsize q"
    using x(1) sz by simp
  moreover have "mq_frame ?q' = mq_frame q"
    by (simp only: set_curmsgs_simps) (simp add: q1_def mq_frame_def)
  ultimately show ?thesis by auto
qed

text \<open>The two halves as operations of the abstract interface.\<close>

definition mq_put :: "byte list \<Rightarrow> prio \<Rightarrow> mymq \<Rightarrow> mymq option" where
  "mq_put ptr prio q = (case mymq_send_put ptr prio q of Finish q' ws r \<Rightarrow> Some q' | _ \<Rightarrow> None)"

definition mq_get :: "mymq \<Rightarrow> (mymq \<times> prio \<times> byte list) option" where
  "mq_get q = (case mymq_receive_take True q of
     Finish q' ws (MqReceived bs (Some p)) \<Rightarrow> Some (q', p, bs) | _ \<Rightarrow> None)"

definition mq_fits :: "mymq \<Rightarrow> byte list \<Rightarrow> bool" where
  "mq_fits q ptr \<longleftrightarrow> int (length ptr) \<le> msgsize q"

interpretation mmapq: message_queue mq_ok mq_contents "\<lambda>q. nat (maxmsg q)" mq_fits mq_put mq_get
proof unfold_locales
  fix q m p
  assume a: "mq_ok q" "length (mq_contents q) < nat (maxmsg q)" "mq_fits q m"
  then have "curmsgs q < maxmsg q"
    using mq_ok_bounds [OF a(1)] by simp
  with a obtain q' where q': "mymq_send_put m p q =
        Finish q' (if curmsgs q = 0 then [Signal ()] else []) MqSent"
      "mq_ok q'" "mq_contents q' = pq_insert (p, m) (mq_contents q)" "mq_frame q' = mq_frame q"
    using mymq_send_put_correct [of q m p] by (auto simp: mq_fits_def)
  then show "\<exists>q'. mq_put m p q = Some q' \<and> mq_ok q' \<and> mq_contents q' = pq_insert (p, m) (mq_contents q) \<and>
      nat (maxmsg q') = nat (maxmsg q) \<and> mq_fits q' = mq_fits q"
    by (auto simp: mq_put_def mq_frame_def mq_fits_def fun_eq_iff)
next
  fix q x xs
  assume a: "mq_ok q" "mq_contents q = x # xs"
  then obtain q' where q': "mymq_receive_take True q =
        Finish q' (if curmsgs q = maxmsg q then [Signal ()] else []) (MqReceived (snd x) (Some (fst x)))"
      "mq_ok q'" "mq_contents q' = xs" "mq_frame q' = mq_frame q"
    using mymq_receive_take_correct [of q x xs True] by (auto simp: received_def)
  then show "\<exists>q'. mq_get q = Some (q', x) \<and> mq_ok q' \<and> mq_contents q' = xs \<and>
      nat (maxmsg q') = nat (maxmsg q) \<and> mq_fits q' = mq_fits q"
    by (auto simp: mq_get_def mq_frame_def mq_fits_def fun_eq_iff)
next
  fix q assume "mq_ok q"
  then show "pq_sorted (mq_contents q)" "length (mq_contents q) \<le> nat (maxmsg q)"
    using mq_ok_bounds [of q] by auto
qed

end
