(* ===== verification/Mqueue_Conc.thy ===== *)
theory Mqueue_Conc
  imports Mqueue_Inv
begin

text \<open>
  The message queue as a monitor: any number of threads sending, receiving and registering
  for notification, interleaved at the granularity of the code's critical sections.
\<close>

section \<open>The operations and their clients\<close>

datatype mq_op =
    Send mymq_info "byte list" prio
  | Receive mymq_info nat bool
  | Notify mymq_info "sigevent option" int "int \<Rightarrow> status"

fun mq_enter :: "mq_op \<Rightarrow> status \<Rightarrow> mymq \<Rightarrow> (mymq, unit, mq_ret) seg" where
  "mq_enter (Send mqinfo ptr prio) lock q = mymq_send mqinfo ptr prio lock q"
| "mq_enter (Receive mqinfo maxlen want) lock q = mymq_receive mqinfo maxlen want lock q"
| "mq_enter (Notify mqinfo ev pid kill0) lock q =
     (case mymq_notify mqinfo ev pid kill0 lock q of
        (q', Inl e) \<Rightarrow> Finish q' [] (MqErr e)
      | (q', Inr _) \<Rightarrow> Finish q' [] MqDone)"

fun mq_resume :: "mq_op \<Rightarrow> status \<Rightarrow> mymq \<Rightarrow> (mymq, unit, mq_ret) seg" where
  "mq_resume (Send mqinfo ptr prio) _ q = mymq_send_resume ptr prio q"
| "mq_resume (Receive mqinfo maxlen want) _ q = mymq_receive_resume want q"
| "mq_resume (Notify mqinfo ev pid kill0) _ q = Crash"

text \<open>What a thread knows: the messages it has sent and the messages it has received.\<close>

type_synonym mq_client = "byte list list \<times> byte list list"

fun mq_note :: "mq_client \<Rightarrow> mq_op \<Rightarrow> mq_ret \<Rightarrow> mq_client" where
  "mq_note (sent, got) (Send mqinfo ptr prio) MqSent = (sent @ [ptr], got)"
| "mq_note (sent, got) (Receive mqinfo maxlen want) (MqReceived bs p) = (sent, got @ [bs])"
| "mq_note c _ _ = c"

definition mq_code :: "(mymq, mq_op, unit, mq_ret, mq_client) code" where
  "mq_code = \<lparr>enter = mq_enter, resume = mq_resume, can_cancel = (\<lambda>_. False),
     cleanup = (\<lambda>_ q. q), may_call = (\<lambda>_ _. True), note_ret = mq_note\<rparr>"

lemma mq_code_simps [simp]:
  "enter mq_code = mq_enter" "resume mq_code = mq_resume" "can_cancel mq_code op = False"
  "cleanup mq_code = (\<lambda>_ q. q)" "may_call mq_code c op = True" "note_ret mq_code = mq_note"
  by (simp_all add: mq_code_def)

section \<open>Branches of the operations\<close>

text \<open>A send that finds the queue well formed ends in one of these ways.\<close>

lemma mymq_send_cases:
  assumes "mq_ok q"
  shows "(\<exists>e. mymq_send mqinfo ptr prio lock q = Finish q [] (MqErr e)) \<or>
     (mymq_send mqinfo ptr prio lock q = Sleep q () \<and> curmsgs q = maxmsg q \<and>
        int (length ptr) \<le> msgsize q) \<or>
     (\<exists>q' ws. mymq_send mqinfo ptr prio lock q = Finish q' ws MqSent \<and> mq_ok q' \<and>
        mq_contents q' = pq_insert (prio, ptr) (mq_contents q) \<and> nwait q' = nwait q \<and>
        msgsize q' = msgsize q \<and> maxmsg q' = maxmsg q)"
proof (cases "mqi_magic mqinfo = MQI_MAGIC \<and> lock = None \<and> int (length ptr) \<le> msgsize q")
  case False
  then show ?thesis
    using usize_msgsize [OF assms] by (auto simp: mymq_send_def split: option.splits)
next
  case True
  note b = mq_ok_bounds [OF assms]
  show ?thesis
  proof (cases "curmsgs q < maxmsg q")
    case room: True
    define q0 where "q0 = (if curmsgs q = 0 then mq_notify_arrival q else q)"
    have q0: "mq_ok q0" "q_attr q0 = q_attr q" "mq_contents q0 = mq_contents q" "nwait q0 = nwait q"
      using assms by (auto simp: q0_def)
    have "mymq_send mqinfo ptr prio lock q = mymq_send_put ptr prio q0"
      using True room usize_msgsize [OF assms] by (auto simp: mymq_send_def q0_def)
    with mymq_send_put_correct [OF q0(1), of ptr prio] q0 room True show ?thesis
      by (auto simp: mq_frame_def)
  next
    case False
    with True b show ?thesis
      using usize_msgsize [OF assms] by (auto simp: mymq_send_def)
  qed
qed

lemma mymq_send_resume_cases:
  assumes "mq_ok q" and "int (length ptr) \<le> msgsize q"
  shows "mymq_send_resume ptr prio q = Sleep q () \<or>
     (\<exists>q' ws. mymq_send_resume ptr prio q = Finish q' ws MqSent \<and> mq_ok q' \<and>
        mq_contents q' = pq_insert (prio, ptr) (mq_contents q) \<and> nwait q' = nwait q \<and>
        msgsize q' = msgsize q \<and> maxmsg q' = maxmsg q)"
  using mymq_send_put_correct [OF assms(1) _ assms(2), of prio]
  by (auto simp: mymq_send_resume_def mq_frame_def not_le)

lemma mymq_receive_take_cases:
  assumes "mq_ok q" and "curmsgs q \<noteq> 0"
  shows "\<exists>q' ws x. mymq_receive_take want q =
       Finish q' ws (received want x) \<and> mq_ok q' \<and>
     mq_contents q = x # mq_contents q' \<and> nwait q' = nwait q \<and> msgsize q' = msgsize q \<and>
     maxmsg q' = maxmsg q \<and> int (length (snd x)) \<le> msgsize q"
proof -
  obtain x xs where "mq_contents q = x # xs"
    using mq_ok_bounds [OF assms(1)] assms(2) by (cases "mq_contents q") auto
  with mymq_receive_take_correct [OF assms(1) this, of want] show ?thesis
    by (cases x) (auto simp: mq_frame_def)
qed

lemma mymq_receive_cases:
  assumes "mq_ok q"
  shows "(\<exists>e. mymq_receive mqinfo maxlen want lock q = Finish q [] (MqErr e)) \<or>
     (mymq_receive mqinfo maxlen want lock q = Sleep (set_nwait (nwait q + 1) q) () \<and> curmsgs q = 0) \<or>
     (\<exists>q' ws x. mymq_receive mqinfo maxlen want lock q =
          Finish q' ws (received want x) \<and> mq_ok q' \<and>
        mq_contents q = x # mq_contents q' \<and> nwait q' = nwait q \<and> msgsize q' = msgsize q \<and>
        maxmsg q' = maxmsg q)"
proof (cases "mqi_magic mqinfo = MQI_MAGIC \<and> lock = None \<and> msgsize q \<le> int maxlen \<and> curmsgs q \<noteq> 0")
  case True
  with mymq_receive_take_cases [OF assms, of want] show ?thesis
    using usize_msgsize [OF assms] by (auto simp: mymq_receive_def)
next
  case False
  then show ?thesis
    using usize_msgsize [OF assms] by (auto simp: mymq_receive_def split: option.splits)
qed

lemma mymq_receive_resume_cases:
  assumes "mq_ok q"
  shows "mymq_receive_resume want q = Sleep q () \<or>
     (\<exists>q' ws x. mymq_receive_resume want q =
          Finish q' ws (received want x) \<and> mq_ok q' \<and>
        mq_contents q = x # mq_contents q' \<and> nwait q' = nwait q - 1 \<and> msgsize q' = msgsize q \<and>
        maxmsg q' = maxmsg q)"
  using mymq_receive_take_cases [of "set_nwait (nwait q - 1) q" want] assms
  by (auto simp: mymq_receive_resume_def)

lemma mymq_notify_frame:
  "mymq_notify mqinfo ev pid kill0 lock q = (q', r) \<Longrightarrow>
   q_msgs q' = q_msgs q \<and> mqh_head (q_hdr q') = mqh_head (q_hdr q) \<and>
   mqh_free (q_hdr q') = mqh_free (q_hdr q) \<and> q_attr q' = q_attr q \<and> nwait q' = nwait q \<and>
   q_sigs q' = q_sigs q"
  by (auto simp: mymq_notify_def Let_def split: if_splits option.splits)

section \<open>The invariant of the threads\<close>

fun is_receive :: "mq_op option \<times> mq_client \<Rightarrow> bool" where
  "is_receive (Some (Receive mqinfo maxlen want), c) = True"
| "is_receive _ = False"

text \<open>A blocked sender has a message that fits; a registration never blocks.\<close>

fun pending_ok :: "int \<Rightarrow> mq_op option \<times> mq_client \<Rightarrow> bool" where
  "pending_ok sz (Some (Send mqinfo ptr prio), c) \<longleftrightarrow> int (length ptr) \<le> sz"
| "pending_ok sz (Some (Notify mqinfo ev pid kill0), c) \<longleftrightarrow> False"
| "pending_ok sz _ \<longleftrightarrow> True"

definition sent_by :: "mq_op option \<times> mq_client \<Rightarrow> byte list multiset" where
  "sent_by v = mset (fst (snd v))"

definition got_by :: "mq_op option \<times> mq_client \<Rightarrow> byte list multiset" where
  "got_by v = mset (snd (snd v))"

definition in_queue :: "mymq \<Rightarrow> byte list multiset" where
  "in_queue q = mset (map snd (mq_contents q))"

text \<open>
  \<open>M\<close> is what the queue held at the start: it and everything sent since is either still
  queued or has been received, and \<open>mqh_nwait\<close> counts the receivers that are waiting.
\<close>

definition mq_inv :: "byte list multiset \<Rightarrow> mymq \<Rightarrow> (mq_op option \<times> mq_client) list \<Rightarrow> bool" where
  "mq_inv M q vs \<longleftrightarrow> mq_ok q \<and> nwait q = cnt is_receive vs \<and> list_all (pending_ok (msgsize q)) vs \<and>
     M + sum_list (map sent_by vs) = sum_list (map got_by vs) + in_queue q"

lemma mq_inv_update:
  assumes inv: "mq_inv M q vs" and i: "i < length vs" "vs ! i = v"
    and q': "mq_ok q'" "msgsize q' = msgsize q"
      "nwait q' = nwait q - (if is_receive v then 1 else 0) + (if is_receive v' then 1 else 0)"
    and bal: "in_queue q + sent_by v' + got_by v = in_queue q' + sent_by v + got_by v'"
    and pend: "pending_ok (msgsize q) v'"
  shows "mq_inv M q' (vs[i := v'])"
proof -
  let ?S = "\<lambda>vs. sum_list (map sent_by vs)" and ?G = "\<lambda>vs. sum_list (map got_by vs)"
  have "M + ?S (vs[i := v']) = ?G (vs[i := v']) + in_queue q'"
  proof (rule multiset_eqI)
    fix b
    have "count (?S (vs[i := v'])) b + count (sent_by v) b = count (?S vs) b + count (sent_by v') b"
      "count (?G (vs[i := v'])) b + count (got_by v) b = count (?G vs) b + count (got_by v') b"
      using sum_list_update_cancel [OF i(1), of sent_by v'] sum_list_update_cancel [OF i(1), of got_by v'] i(2)
      by (metis count_union)+
    moreover have "count M b + count (?S vs) b = count (?G vs) b + count (in_queue q) b"
      using inv unfolding mq_inv_def by (metis count_union)
    moreover have "count (in_queue q) b + count (sent_by v') b + count (got_by v) b =
        count (in_queue q') b + count (sent_by v) b + count (got_by v') b"
      using bal by (metis count_union)
    ultimately show "count (M + ?S (vs[i := v'])) b = count (?G (vs[i := v']) + in_queue q') b"
      by simp
  qed
  moreover have "list_all (pending_ok (msgsize q')) (vs[i := v'])"
    using inv pend q'(2) by (auto simp: mq_inv_def list_all_iff dest!: set_update_subset_insert [THEN subsetD])
  moreover have "nwait q' = cnt is_receive (vs[i := v'])"
    using inv q'(3) i by (auto simp: mq_inv_def cnt_update)
  ultimately show ?thesis
    using q'(1) by (simp add: mq_inv_def)
qed

lemma mq_inv_pending: "mq_inv M q vs \<Longrightarrow> i < length vs \<Longrightarrow> pending_ok (msgsize q) (vs ! i)"
  by (simp add: mq_inv_def list_all_length)

lemma mq_inv_frame:
  assumes "mq_inv M q vs" and "mq_ok q'" and "q_attr q' = q_attr q" and "nwait q' = nwait q"
    and "mq_contents q' = mq_contents q"
  shows "mq_inv M q' vs"
  using assms by (simp add: mq_inv_def in_queue_def)

lemmas mq_balance = in_queue_def sent_by_def got_by_def received_def

lemma mq_note_err [simp]: "mq_note c op (MqErr e) = c"
  by (cases "(c, op, MqErr e)" rule: mq_note.cases) auto

lemma mq_inv_error: "mq_inv M q vs \<Longrightarrow> i < length vs \<Longrightarrow> vs ! i = (None, c) \<Longrightarrow> mq_inv M q (vs[i := (None, c)])"
  by (metis list_update_id)

lemma mq_inv_sent:
  assumes "mq_inv M q vs" "i < length vs" "vs ! i = (op, c)" "\<not> is_receive (op, c)"
    and "mq_ok q'" "mq_contents q' = pq_insert (prio, ptr) (mq_contents q)" "nwait q' = nwait q"
    "msgsize q' = msgsize q"
  shows "mq_inv M q' (vs[i := (None, mq_note c (Send mqinfo ptr prio) MqSent)])"
  using assms by (cases c) (auto intro!: mq_inv_update simp: mq_balance)

lemma mq_inv_received:
  assumes "mq_inv M q vs" "i < length vs" "vs ! i = (op, c)"
    and "mq_ok q'" "mq_contents q = x # mq_contents q'" "msgsize q' = msgsize q"
    "nwait q' = nwait q - (if is_receive (op, c) then 1 else 0)"
  shows "mq_inv M q' (vs[i := (None, mq_note c (Receive mqinfo maxlen want) (received want x))])"
  using assms by (cases c) (auto intro!: mq_inv_update simp: mq_balance)

lemma mq_enter_Finish:
  assumes inv: "mq_inv M q vs" and i: "i < length vs" "vs ! i = (None, c)"
    and fin: "mq_enter op st q = Finish q' ws r"
  shows "mq_inv M q' (vs[i := (None, mq_note c op r)])"
proof (cases op)
  case (Send mqinfo ptr prio)
  have ok: "mq_ok q" using inv by (simp add: mq_inv_def)
  from mymq_send_cases [OF ok, of mqinfo ptr prio st] fin Send inv i show ?thesis
    by (auto intro: mq_inv_error mq_inv_sent)
next
  case (Receive mqinfo maxlen want)
  have ok: "mq_ok q" using inv by (simp add: mq_inv_def)
  from mymq_receive_cases [OF ok, of mqinfo maxlen want st] fin Receive inv i show ?thesis
    by (auto intro: mq_inv_error intro!: mq_inv_received)
next
  case (Notify mqinfo ev pid kill0)
  obtain q1 r1 where n: "mymq_notify mqinfo ev pid kill0 st q = (q1, r1)" by fastforce
  note fr = mymq_notify_frame [OF n]
  have "mq_inv M q1 vs"
    using inv fr mq_ok_cong [of q1 q] by (intro mq_inv_frame [OF inv]) (auto simp: mq_inv_def)
  moreover have "q' = q1" "mq_note c op r = c"
    using fin Notify n by (auto split: sum.splits)
  ultimately show ?thesis
    using i by (simp add: mq_inv_error)
qed

lemma mq_enter_Sleep:
  assumes inv: "mq_inv M q vs" and i: "i < length vs" "vs ! i = (None, c)"
    and slp: "mq_enter op st q = Sleep q' cv"
  shows "mq_inv M q' (vs[i := (Some op, c)])"
proof (cases op)
  case (Send mqinfo ptr prio)
  have ok: "mq_ok q" using inv by (simp add: mq_inv_def)
  from mymq_send_cases [OF ok, of mqinfo ptr prio st] slp Send inv i ok show ?thesis
    by (auto intro!: mq_inv_update simp: sent_by_def got_by_def)
next
  case (Receive mqinfo maxlen want)
  have ok: "mq_ok q" using inv by (simp add: mq_inv_def)
  from mymq_receive_cases [OF ok, of mqinfo maxlen want st] slp Receive inv i ok show ?thesis
    by (auto intro!: mq_inv_update simp: mq_balance)
next
  case (Notify mqinfo ev pid kill0)
  with slp show ?thesis by (auto split: prod.splits sum.splits)
qed

lemma mq_resume_Finish:
  assumes inv: "mq_inv M q vs" and i: "i < length vs" "vs ! i = (Some op, c)"
    and fin: "mq_resume op st q = Finish q' ws r"
  shows "mq_inv M q' (vs[i := (None, mq_note c op r)])"
proof (cases op)
  case (Send mqinfo ptr prio)
  have ok: "mq_ok q" using inv by (simp add: mq_inv_def)
  have "int (length ptr) \<le> msgsize q"
    using mq_inv_pending [OF inv i(1)] i(2) Send by simp
  from mymq_send_resume_cases [OF ok this, of prio] fin Send inv i show ?thesis
    by (auto intro!: mq_inv_sent)
next
  case (Receive mqinfo maxlen want)
  have ok: "mq_ok q" using inv by (simp add: mq_inv_def)
  from mymq_receive_resume_cases [OF ok, of want] fin Receive inv i show ?thesis
    by (auto intro!: mq_inv_received)
qed (use fin in simp)

lemma mq_resume_Sleep:
  assumes inv: "mq_inv M q vs" and i: "i < length vs" "vs ! i = (Some op, c)"
    and slp: "mq_resume op st q = Sleep q' cv"
  shows "mq_inv M q' vs"
proof (cases op)
  case (Send mqinfo ptr prio)
  with slp inv show ?thesis
    by (auto simp: mymq_send_resume_def mymq_send_put_def Let_def split: if_splits option.splits)
next
  case (Receive mqinfo maxlen want)
  with slp inv show ?thesis
    by (auto simp: mymq_receive_resume_def mymq_receive_take_def Let_def split: if_splits option.splits)
qed (use slp in simp)

lemma mq_enter_safe:
  assumes "mq_inv M q vs"
  shows "mq_enter op st q \<noteq> Crash"
proof -
  have ok: "mq_ok q" using assms by (simp add: mq_inv_def)
  show ?thesis
  proof (cases op)
    case (Send mqinfo ptr prio)
    with mymq_send_cases [OF ok, of mqinfo ptr prio st] show ?thesis by auto
  next
    case (Receive mqinfo maxlen want)
    with mymq_receive_cases [OF ok, of mqinfo maxlen want st] show ?thesis by auto
  next
    case (Notify mqinfo ev pid kill0)
    then show ?thesis by (auto split: prod.splits sum.splits)
  qed
qed

lemma mq_resume_safe:
  assumes "mq_inv M q vs" and "i < length vs" and "vs ! i = (Some op, c)"
  shows "mq_resume op st q \<noteq> Crash"
proof -
  have ok: "mq_ok q" and pend: "pending_ok (msgsize q) (Some op, c)"
    using assms mq_inv_pending [OF assms(1,2)] by (auto simp: mq_inv_def)
  show ?thesis
  proof (cases op)
    case (Send mqinfo ptr prio)
    with mymq_send_resume_cases [OF ok, of ptr prio] pend show ?thesis by auto
  next
    case (Receive mqinfo maxlen want)
    with mymq_receive_resume_cases [OF ok, of want] show ?thesis by auto
  qed (use pend in simp)
qed

interpretation mqm: monitor_safe mq_code UNIV "mq_inv M" for M
  by unfold_locales
    (auto intro: mq_enter_Finish mq_enter_Sleep mq_resume_Finish mq_resume_Sleep
      dest: mq_enter_safe mq_resume_safe)

end
