(* ===== verification/Files.thy ===== *)
theory Files
  imports Prelude
begin

text \<open>
  What the open functions use of the operating system: a directory, files that several
  processes share, and the resources of the calling process (descriptors, mappings,
  allocated structures).  Before every system call other processes may have changed the
  disk, and every call may fail; both are arguments of the model, indexed by the number of
  calls made so far.
\<close>

section \<open>Disk and process\<close>

record 'c inode =
  i_mode :: cint
  i_size :: int
  i_data :: 'c

record 'c disk =
  d_dir :: "string \<Rightarrow> nat option"
  d_ino :: "nat \<Rightarrow> 'c inode"
  d_next :: nat

text \<open>\<open>w_badclose\<close> counts calls of \<open>close\<close> on a descriptor that is not open.\<close>

record 'c world =
  w_disk :: "'c disk"
  w_fds :: "(int \<times> nat) list"
  w_maps :: "nat list"
  w_allocs :: nat
  w_badclose :: nat
  w_time :: nat

record 'c os =
  os_env :: "nat \<Rightarrow> 'c disk \<Rightarrow> 'c disk"
  os_fault :: "nat \<Rightarrow> status"

text \<open>An undisturbed process; and one whose calls do not fail either.\<close>

definition alone :: "'c os \<Rightarrow> bool" where
  "alone os \<longleftrightarrow> os_env os = (\<lambda>_ d. d)"

definition quiet :: "'c os \<Rightarrow> bool" where
  "quiet os \<longleftrightarrow> alone os \<and> os_fault os = (\<lambda>_. None)"

section \<open>System calls\<close>

definition tick :: "'c os \<Rightarrow> 'c world \<Rightarrow> 'c world" where
  "tick os w = w\<lparr>w_disk := os_env os (w_time w) (w_disk w), w_time := Suc (w_time w)\<rparr>"

definition syscall :: "'c os \<Rightarrow> ('c world \<Rightarrow> 'c world \<times> 'a result) \<Rightarrow> 'c world \<Rightarrow> 'c world \<times> 'a result"
where
  "syscall os f w =
     (case os_fault os (w_time w) of Some e \<Rightarrow> (tick os w, Inl e) | None \<Rightarrow> f (tick os w))"

text \<open>\<open>k\<close> runs after a success and \<open>h\<close> after a failure (the \<open>goto err\<close> of the sources).\<close>

definition on_err ::
  "'w \<times> 'a result \<Rightarrow> (errno \<Rightarrow> 'w \<Rightarrow> 'b) \<Rightarrow> ('a \<Rightarrow> 'w \<Rightarrow> 'b) \<Rightarrow> 'b"
where
  "on_err r h k = (case snd r of Inl e \<Rightarrow> h e (fst r) | Inr a \<Rightarrow> k a (fst r))"

lemma on_err_simps [simp]:
  "on_err (w, Inl e) h k = h e w" "on_err (w, Inr a) h k = k a w"
  by (simp_all add: on_err_def)

definition new_fd :: "'c world \<Rightarrow> int" where
  "new_fd w = int (length (w_fds w)) + 3"

definition add_fd :: "nat \<Rightarrow> 'c world \<Rightarrow> 'c world" where
  "add_fd i w = w\<lparr>w_fds := (new_fd w, i) # w_fds w\<rparr>"

text \<open>\<open>open(path, O_CREAT | O_EXCL | O_RDWR, mode)\<close>; a new file is empty (\<open>blank\<close>).\<close>

definition sys_creat :: "'c os \<Rightarrow> 'c \<Rightarrow> string \<Rightarrow> cint \<Rightarrow> 'c world \<Rightarrow> 'c world \<times> int result" where
  "sys_creat os blank path mode = syscall os (\<lambda>w.
     let d = w_disk w; i = d_next d in
     case d_dir d path of
       Some _ \<Rightarrow> (w, Inl EEXIST)
     | None \<Rightarrow> (add_fd i (w\<lparr>w_disk := d\<lparr>d_dir := (d_dir d)(path \<mapsto> i),
                  d_ino := (d_ino d)(i := \<lparr>i_mode = mode, i_size = 0, i_data = blank\<rparr>),
                  d_next := Suc i\<rparr>\<rparr>), Inr (new_fd w)))"

text \<open>\<open>open(path, O_RDWR)\<close>\<close>

definition sys_open :: "'c os \<Rightarrow> string \<Rightarrow> 'c world \<Rightarrow> 'c world \<times> int result" where
  "sys_open os path = syscall os (\<lambda>w.
     case d_dir (w_disk w) path of
       None \<Rightarrow> (w, Inl ENOENT)
     | Some i \<Rightarrow> (add_fd i w, Inr (new_fd w)))"

definition sys_close :: "int \<Rightarrow> 'c world \<Rightarrow> 'c world" where
  "sys_close fd w =
     (if fd \<in> fst ` set (w_fds w) then w\<lparr>w_fds := filter (\<lambda>p. fst p \<noteq> fd) (w_fds w)\<rparr>
      else w\<lparr>w_badclose := Suc (w_badclose w)\<rparr>)"

definition sys_stat :: "'c os \<Rightarrow> string \<Rightarrow> 'c world \<Rightarrow> 'c world \<times> 'c inode result" where
  "sys_stat os path = syscall os (\<lambda>w.
     case d_dir (w_disk w) path of
       None \<Rightarrow> (w, Inl ENOENT)
     | Some i \<Rightarrow> (w, Inr (d_ino (w_disk w) i)))"

definition sys_unlink :: "'c os \<Rightarrow> string \<Rightarrow> 'c world \<Rightarrow> 'c world \<times> unit result" where
  "sys_unlink os path = syscall os (\<lambda>w.
     case d_dir (w_disk w) path of
       None \<Rightarrow> (w, Inl ENOENT)
     | Some i \<Rightarrow> (w\<lparr>w_disk := (w_disk w)\<lparr>d_dir := (d_dir (w_disk w))(path := None)\<rparr>\<rparr>, Inr ()))"

definition fd_ino :: "int \<Rightarrow> 'c world \<Rightarrow> nat option" where
  "fd_ino fd w = map_of (w_fds w) fd"

definition upd_ino :: "nat \<Rightarrow> ('c inode \<Rightarrow> 'c inode) \<Rightarrow> 'c world \<Rightarrow> 'c world" where
  "upd_ino i f w = w\<lparr>w_disk := (w_disk w)\<lparr>d_ino := (d_ino (w_disk w))(i := f (d_ino (w_disk w) i))\<rparr>\<rparr>"

definition with_fd :: "int \<Rightarrow> (nat \<Rightarrow> 'c world \<Rightarrow> 'c world \<times> 'a result) \<Rightarrow> 'c world \<Rightarrow> 'c world \<times> 'a result"
where
  "with_fd fd f w = (case fd_ino fd w of None \<Rightarrow> (w, Inl EBADF) | Some i \<Rightarrow> f i w)"

text \<open>\<open>write\<close> at an offset that leaves the file \<open>n\<close> bytes long.\<close>

definition sys_write :: "'c os \<Rightarrow> int \<Rightarrow> int \<Rightarrow> 'c world \<Rightarrow> 'c world \<times> unit result" where
  "sys_write os fd n = syscall os (with_fd fd (\<lambda>i w. (upd_ino i (i_size_update (\<lambda>_. n)) w, Inr ())))"

definition sys_fchmod :: "'c os \<Rightarrow> int \<Rightarrow> cint \<Rightarrow> 'c world \<Rightarrow> 'c world \<times> unit result" where
  "sys_fchmod os fd mode =
     syscall os (with_fd fd (\<lambda>i w. (upd_ino i (i_mode_update (\<lambda>_. mode)) w, Inr ())))"

definition sys_mmap :: "'c os \<Rightarrow> int \<Rightarrow> 'c world \<Rightarrow> 'c world \<times> nat result" where
  "sys_mmap os fd = syscall os (with_fd fd (\<lambda>i w. (w\<lparr>w_maps := i # w_maps w\<rparr>, Inr i)))"

definition sys_munmap :: "nat \<Rightarrow> 'c world \<Rightarrow> 'c world" where
  "sys_munmap i w = w\<lparr>w_maps := remove1 i (w_maps w)\<rparr>"

definition sys_malloc :: "'c os \<Rightarrow> 'c world \<Rightarrow> 'c world \<times> unit result" where
  "sys_malloc os = syscall os (\<lambda>w. (w\<lparr>w_allocs := Suc (w_allocs w)\<rparr>, Inr ()))"

definition sys_free :: "'c world \<Rightarrow> 'c world" where
  "sys_free w = w\<lparr>w_allocs := w_allocs w - 1\<rparr>"

text \<open>A call with no effect on this state that may fail (\<open>lseek\<close>, \<open>pthread_mutex_init\<close>, \<dots>).\<close>

definition sys_check :: "'c os \<Rightarrow> 'c world \<Rightarrow> 'c world \<times> unit result" where
  "sys_check os = syscall os (\<lambda>w. (w, Inr ()))"

section \<open>Calls of a process that runs alone\<close>

lemma tick_alone [simp]:
  "w_fds (tick os w) = w_fds w" "w_maps (tick os w) = w_maps w" "w_allocs (tick os w) = w_allocs w"
  "w_badclose (tick os w) = w_badclose w" "w_time (tick os w) = Suc (w_time w)"
  "alone os \<Longrightarrow> w_disk (tick os w) = w_disk w"
  "new_fd (tick os w) = new_fd w"
  by (simp_all add: tick_def alone_def new_fd_def)

lemma quiet_alone [simp]: "quiet os \<Longrightarrow> alone os"
  by (simp add: quiet_def)

lemma syscall_quiet: "quiet os \<Longrightarrow> syscall os f w = f (tick os w)"
  by (simp add: quiet_def syscall_def)

lemma with_fd_quiet:
  "w_fds w = (fd, i) # F \<Longrightarrow> with_fd fd f w = f i w"
  by (simp add: with_fd_def fd_ino_def)

lemma upd_ino_sel [simp]:
  "w_fds (upd_ino i f w) = w_fds w" "w_maps (upd_ino i f w) = w_maps w"
  "w_allocs (upd_ino i f w) = w_allocs w" "w_time (upd_ino i f w) = w_time w"
  "d_dir (w_disk (upd_ino i f w)) = d_dir (w_disk w)"
  "d_next (w_disk (upd_ino i f w)) = d_next (w_disk w)"
  "d_ino (w_disk (upd_ino i f w)) = (d_ino (w_disk w))(i := f (d_ino (w_disk w) i))"
  by (simp_all add: upd_ino_def)

lemma w_disk_upd_ino:
  "w_disk (upd_ino i f w) = (w_disk w)\<lparr>d_ino := (d_ino (w_disk w))(i := f (d_ino (w_disk w) i))\<rparr>"
  by (simp add: upd_ino_def)

lemma add_fd_sel [simp]:
  "w_disk (add_fd i w) = w_disk w" "w_fds (add_fd i w) = (new_fd w, i) # w_fds w"
  "w_maps (add_fd i w) = w_maps w" "w_allocs (add_fd i w) = w_allocs w" "w_time (add_fd i w) = w_time w"
  "w_badclose (add_fd i w) = w_badclose w"
  by (simp_all add: add_fd_def)

lemma sys_close_sel [simp]:
  "w_disk (sys_close fd w) = w_disk w" "w_maps (sys_close fd w) = w_maps w"
  "w_allocs (sys_close fd w) = w_allocs w" "w_time (sys_close fd w) = w_time w"
  by (simp_all add: sys_close_def)

lemmas syscall_defs = sys_creat_def sys_open_def sys_stat_def sys_unlink_def sys_write_def
  sys_fchmod_def sys_mmap_def sys_malloc_def sys_check_def

text \<open>Only creating and unlinking change the directory.\<close>

lemma alone_keeps_dir:
  assumes "alone os"
  shows "sys_check os w = (w', r) \<Longrightarrow> d_dir (w_disk w') = d_dir (w_disk w)"
    and "sys_write os fd n w = (w', r) \<Longrightarrow> d_dir (w_disk w') = d_dir (w_disk w)"
    and "sys_fchmod os fd mode w = (w', r) \<Longrightarrow> d_dir (w_disk w') = d_dir (w_disk w)"
    and "sys_mmap os fd w = (w', r') \<Longrightarrow> d_dir (w_disk w') = d_dir (w_disk w)"
    and "sys_malloc os w = (w', r) \<Longrightarrow> d_dir (w_disk w') = d_dir (w_disk w)"
  using assms by (auto simp: syscall_defs syscall_def with_fd_def split: option.splits)

lemma sys_munmap_free_sel [simp]:
  "w_disk (sys_munmap i w) = w_disk w" "w_time (sys_munmap i w) = w_time w"
  "w_fds (sys_munmap i w) = w_fds w" "w_badclose (sys_munmap i w) = w_badclose w"
  "w_disk (sys_free w) = w_disk w" "w_time (sys_free w) = w_time w"
  "w_fds (sys_free w) = w_fds w" "w_badclose (sys_free w) = w_badclose w"
  by (simp_all add: sys_munmap_def sys_free_def)

section \<open>Descriptors and resources\<close>

text \<open>
  What a process holds: its descriptors, its mappings and its allocations.  Other processes
  cannot change these.
\<close>

definition holds :: "'c world \<Rightarrow> (int \<times> nat) list \<Rightarrow> nat list \<Rightarrow> nat \<Rightarrow> bool" where
  "holds w F M A \<longleftrightarrow> w_fds w = F \<and> w_maps w = M \<and> w_allocs w = A"

definition fds_ok :: "(int \<times> nat) list \<Rightarrow> bool" where
  "fds_ok F \<longleftrightarrow> (\<forall>p \<in> set F. 0 \<le> fst p \<and> fst p < int (length F) + 3)"

lemma on_err_rule:
  assumes "\<And>e w'. r = (w', Inl e) \<Longrightarrow> Q (h e w')" and "\<And>a w'. r = (w', Inr a) \<Longrightarrow> Q (k a w')"
  shows "Q (on_err r h k)"
  using assms by (cases r; cases "snd r") auto

lemma syscall_cases:
  "syscall os f w = (w', r) \<Longrightarrow>
     (w' = tick os w \<and> (\<exists>e. r = Inl e \<and> os_fault os (w_time w) = Some e)) \<or>
     (os_fault os (w_time w) = None \<and> f (tick os w) = (w', r))"
  by (auto simp: syscall_def split: option.splits)

lemma holds_tick [simp]: "holds (tick os w) F M A = holds w F M A"
  by (simp add: holds_def tick_def)

lemma holds_upd_ino [simp]: "holds (upd_ino i f w) F M A = holds w F M A"
  by (simp add: holds_def upd_ino_def)

lemma holds_munmap: "holds w F (i # M) A \<Longrightarrow> holds (sys_munmap i w) F M A"
  by (simp add: holds_def sys_munmap_def)

lemma holds_free: "holds w F M (Suc A) \<Longrightarrow> holds (sys_free w) F M A"
  by (simp add: holds_def sys_free_def)

text \<open>A descriptor just obtained, and closing it again.\<close>

definition new_top :: "(int \<times> nat) list \<Rightarrow> int" where
  "new_top F = int (length F) + 3"

lemma new_fd_top: "holds w F M A \<Longrightarrow> new_fd w = new_top F"
  by (simp add: holds_def new_fd_def new_top_def)

lemma holds_add_fd: "holds w F M A \<Longrightarrow> holds (add_fd i w) ((new_top F, i) # F) M A"
  by (simp add: holds_def add_fd_def new_fd_def new_top_def)

lemma fds_ok_filter: "fds_ok F \<Longrightarrow> filter (\<lambda>p. fst p \<noteq> new_top F) F = F"
  by (rule filter_True) (auto simp: fds_ok_def new_top_def)

lemma holds_close:
  "fds_ok F \<Longrightarrow> holds w ((new_top F, i) # F) M A \<Longrightarrow> holds (sys_close (new_top F) w) F M A"
  by (simp add: holds_def sys_close_def fds_ok_filter)

lemma holds_close_other:
  "fds_ok F \<Longrightarrow> fd = -1 \<or> fd = new_top F \<Longrightarrow> fd \<notin> fst ` set F \<Longrightarrow> holds w F M A \<Longrightarrow>
   holds (sys_close fd w) F M A"
  by (simp add: holds_def sys_close_def)

lemma new_top_fresh: "fds_ok F \<Longrightarrow> new_top F \<notin> fst ` set F"
  by (auto simp: fds_ok_def new_top_def)

lemma holds_fd_ino: "holds w ((fd, i) # F) M A \<Longrightarrow> fd_ino fd w = Some i"
  by (simp add: holds_def fd_ino_def)

lemma sys_creat_holds:
  assumes "sys_creat os blank path mode w = (w', r)" and "holds w F M A"
  shows "(\<exists>e. r = Inl e \<and> holds w' F M A) \<or>
     (\<exists>i. r = Inr (new_top F) \<and> holds w' ((new_top F, i) # F) M A)"
proof -
  have h: "holds (tick os w) F M A" using assms(2) by simp
  note n = new_fd_top [OF h]
  show ?thesis
    using syscall_cases [OF assms(1) [unfolded sys_creat_def]] h
    by (auto simp: Let_def n add_fd_def holds_def new_top_def new_fd_def split: option.splits)
qed

lemma sys_open_holds:
  assumes "sys_open os path w = (w', r)" and "holds w F M A"
  shows "(\<exists>e. r = Inl e \<and> holds w' F M A) \<or>
     (\<exists>i. r = Inr (new_top F) \<and> holds w' ((new_top F, i) # F) M A)"
proof -
  have h: "holds (tick os w) F M A" using assms(2) by simp
  show ?thesis
    using syscall_cases [OF assms(1) [unfolded sys_open_def]] h holds_add_fd [OF h] new_fd_top [OF h]
    by (auto split: option.splits)
qed

lemma sys_stat_holds: "sys_stat os path w = (w', r) \<Longrightarrow> holds w F M A \<Longrightarrow> holds w' F M A"
  unfolding sys_stat_def by (drule syscall_cases) (auto split: option.splits)

lemma sys_check_holds: "sys_check os w = (w', r) \<Longrightarrow> holds w F M A \<Longrightarrow> holds w' F M A"
  unfolding sys_check_def by (drule syscall_cases) auto

lemma sys_unlink_holds: "holds w F M A \<Longrightarrow> holds (fst (sys_unlink os path w)) F M A"
proof -
  assume h: "holds w F M A"
  obtain w' r where u: "sys_unlink os path w = (w', r)" by fastforce
  then show ?thesis
    using syscall_cases [OF u [unfolded sys_unlink_def]] h
    by (auto simp: holds_def tick_def split: option.splits)
qed

lemma with_fd_holds:
  "holds w ((fd, i) # F) M A \<Longrightarrow> with_fd fd f (tick os w) = f i (tick os w)"
  using holds_fd_ino [of "tick os w" fd i F M A] by (simp add: with_fd_def)

lemma sys_write_holds:
  "sys_write os fd n w = (w', r) \<Longrightarrow> holds w ((fd, i) # F) M A \<Longrightarrow> holds w' ((fd, i) # F) M A"
  unfolding sys_write_def by (drule syscall_cases) (auto simp: with_fd_holds)

lemma sys_fchmod_holds:
  "sys_fchmod os fd n w = (w', r) \<Longrightarrow> holds w ((fd, i) # F) M A \<Longrightarrow> holds w' ((fd, i) # F) M A"
  unfolding sys_fchmod_def by (drule syscall_cases) (auto simp: with_fd_holds)

lemma sys_mmap_holds:
  "sys_mmap os fd w = (w', r) \<Longrightarrow> holds w ((fd, i) # F) M A \<Longrightarrow>
   (\<exists>e. r = Inl e \<and> holds w' ((fd, i) # F) M A) \<or> (r = Inr i \<and> holds w' ((fd, i) # F) (i # M) A)"
  unfolding sys_mmap_def by (drule syscall_cases) (auto simp: with_fd_holds, auto simp: holds_def)

lemma sys_malloc_holds:
  "sys_malloc os w = (w', r) \<Longrightarrow> holds w F M A \<Longrightarrow>
   (\<exists>e. r = Inl e \<and> holds w' F M A) \<or> (r = Inr () \<and> holds w' F M (Suc A))"
  unfolding sys_malloc_def by (drule syscall_cases) (auto simp: holds_def)

end
