(* ===== verification/Mq_open.thy ===== *)
theory Mq_open
  imports Mqueue_Inv Files
begin

text \<open>
  mymq_open and mymq_unlink of my_pxmsg_mmap: creating and initialising the mapped file of a
  queue, or waiting for the process that created it to finish doing so, and the cleanup on
  every error path.
\<close>

section \<open>Initialising the file\<close>

definition defattr :: mymq_attr where
  "defattr = \<lparr>mq_flags = 0, mq_maxmsg = 128, mq_msgsize = 1024, mq_curmsgs = 0\<rparr>"

text \<open>The bytes of a new file are zero.\<close>

definition blank_hdr :: mymq_hdr where
  "blank_hdr = \<lparr>mqh_attr = \<lparr>mq_flags = 0, mq_maxmsg = 0, mq_msgsize = 0, mq_curmsgs = 0\<rparr>,
     mqh_head = 0, mqh_free = 0, mqh_nwait = 0, mqh_pid = 0,
     mqh_event = \<lparr>sigev_notify = SIGEV_SIGNAL, sigev_signo = 0, sigev_value = 0\<rparr>\<rparr>"

definition blank_mq :: mymq where
  "blank_mq = \<lparr>q_hdr = blank_hdr, q_msgs = Map.empty, q_sigs = []\<rparr>"

definition blank_slot :: "layout \<Rightarrow> mymq_attr \<Rightarrow> mymsg_hdr" where
  "blank_slot L attr = \<lparr>msg_next = 0, msg_len = 0, msg_prio = 0,
     msg_data = replicate (nat (to_long (MSGSIZE L (mq_msgsize attr)))) 0\<rparr>"

text \<open>
  Lines 93 to 99: all slots on the free list, linked in the order of their offsets. The counter
  \<open>i\<close> is an \<open>int\<close>, the bound a \<open>long\<close>. The result is \<open>None\<close> when \<open>i++\<close> overflows and when a slot is
  not inside the mapped file, where the code has no defined behaviour.
\<close>

definition INT_MAX :: int where "INT_MAX = 2 ^ 31 - 1"

definition in_file :: "layout \<Rightarrow> int \<Rightarrow> int \<Rightarrow> bool" where
  "in_file L filesize index \<longleftrightarrow> 0 \<le> index \<and> index + sizeof_msg_hdr L \<le> filesize"

function mq_init_free ::
  "layout \<Rightarrow> mymq_attr \<Rightarrow> int \<Rightarrow> int \<Rightarrow> int \<Rightarrow> (int \<Rightarrow> mymsg_hdr option) \<Rightarrow> (int \<Rightarrow> mymsg_hdr option) option"
where
  "mq_init_free L attr filesize i index ms =
    (if \<not> in_file L filesize index then None
     else if i < mq_maxmsg attr - 1 then
       if i = INT_MAX then None
       else mq_init_free L attr filesize (i + 1) (index + mq_slotsize L attr)
         (ms(index \<mapsto> (blank_slot L attr)\<lparr>msg_next := index + mq_slotsize L attr\<rparr>))
     else Some (ms(index \<mapsto> (blank_slot L attr)\<lparr>msg_next := 0\<rparr>)))"
  by auto
termination
  by (relation "measure (\<lambda>(L, attr, filesize, i, index, ms). nat (mq_maxmsg attr - i))") auto

declare mq_init_free.simps [simp del]

text \<open>Lines 82 to 99: the header and the free list, in a mapping of \<open>filesize\<close> bytes.\<close>

definition mq_init :: "layout \<Rightarrow> mymq_attr \<Rightarrow> int \<Rightarrow> mymq \<Rightarrow> mymq option" where
  "mq_init L attr filesize q =
    (if filesize < sizeof_mq_hdr L then None
     else map_option (\<lambda>ms.
       q\<lparr>q_hdr := (q_hdr q)\<lparr>
           mqh_attr := \<lparr>mq_flags = 0, mq_maxmsg = mq_maxmsg attr, mq_msgsize = mq_msgsize attr,
             mq_curmsgs = 0\<rparr>,
           mqh_nwait := 0, mqh_pid := 0, mqh_head := 0, mqh_free := sizeof_mq_hdr L\<rparr>,
         q_msgs := ms\<rparr>)
       (mq_init_free L attr filesize 0 (sizeof_mq_hdr L) (q_msgs q)))"

section \<open>mymq_open\<close>

text \<open>A descriptor: which file is mapped, and the malloc'ed mymq_info.\<close>

type_synonym mqd = "nat \<times> mymq_info"

text \<open>
  Lines 168 to 181.  \<open>created\<close>, \<open>mptr\<close> (\<open>None\<close> is \<open>MAP_FAILED\<close>), \<open>mqinfo\<close> (whether it was
  allocated) and \<open>fd\<close> are the local variables at the jump.
\<close>

definition mq_open_err ::
  "mymq os \<Rightarrow> string \<Rightarrow> bool \<Rightarrow> int \<Rightarrow> nat option \<Rightarrow> bool \<Rightarrow> errno \<Rightarrow> mymq world \<Rightarrow> mymq world \<times> mqd result"
where
  "mq_open_err os path created fd mptr mqinfo e w =
     (let w1 = (if created then fst (sys_unlink os path w) else w);
          w2 = (case mptr of None \<Rightarrow> w1 | Some i \<Rightarrow> sys_munmap i w1);
          w3 = (if mqinfo then sys_free w2 else w2)
      in (sys_close fd w3, Inl e))"

text \<open>\<open>lseek\<close> to an absolute offset.\<close>

definition sys_lseek :: "mymq os \<Rightarrow> int \<Rightarrow> mymq world \<Rightarrow> mymq world \<times> unit result" where
  "sys_lseek os offset = syscall os (\<lambda>w. (w, if offset < 0 then Inl EINVAL else Inr ()))"

text \<open>
  Lines 46 to 122: this process created the file and initialises it. \<open>None\<close> is an initialisation
  that has no defined behaviour.
\<close>

definition mq_open_create ::
  "mymq os \<Rightarrow> layout \<Rightarrow> string \<Rightarrow> cint \<Rightarrow> mymq_attr option \<Rightarrow> cint \<Rightarrow> int \<Rightarrow> mymq world \<Rightarrow>
   (mymq world \<times> mqd result) option"
where
  "mq_open_create os L path mode attr_arg nonblock fd w =
     (let err = (\<lambda>mptr mqinfo e w. Some (mq_open_err os path True fd mptr mqinfo e w));
          attr = (case attr_arg of None \<Rightarrow> defattr | Some a \<Rightarrow> a);
          filesize = mq_filesize L attr
      in if attr_arg \<noteq> None \<and> (mq_maxmsg attr \<le> 0 \<or> mq_msgsize attr \<le> 0)
         then err None False EINVAL w
         else
           on_err (sys_lseek os (filesize - 1) w) (err None False) (\<lambda>_ w.
           on_err (sys_write os fd filesize w) (err None False) (\<lambda>_ w.
           on_err (sys_mmap os fd w) (err None False) (\<lambda>mptr w.
           on_err (sys_malloc os w) (err (Some mptr) False) (\<lambda>_ w.
             let mqinfo = \<lparr>mqi_magic = MQI_MAGIC, mqi_flags = nonblock\<rparr> in
             case mq_init L attr filesize (i_data (d_ino (w_disk w) mptr)) of None \<Rightarrow> None | Some q \<Rightarrow>
             let w = upd_ino mptr (i_data_update (\<lambda>_. q)) w in
           on_err (sys_check os w) (err (Some mptr) True) (\<lambda>_ w. \<comment> \<open>pthread_mutexattr_init\<close>
           on_err (sys_check os w) (err (Some mptr) True) (\<lambda>_ w. \<comment> \<open>pthread_mutex_init\<close>
           on_err (sys_check os w) (err (Some mptr) True) (\<lambda>_ w. \<comment> \<open>pthread_condattr_init\<close>
           on_err (sys_check os w) (err (Some mptr) True) (\<lambda>_ w. \<comment> \<open>pthread_cond_init\<close>
           on_err (sys_fchmod os fd mode w) (err (Some mptr) True) (\<lambda>_ w.
             Some (sys_close fd w, Inr (mptr, mqinfo))))))))))))"

definition MAX_TRIES :: nat where "MAX_TRIES = 10"

datatype 'a wait_result = WaitDone 'a | WaitAgain | WaitErr errno

text \<open>
  Lines 134 to 150: wait until the creator has turned off the user-execute bit; at most
  \<open>MAX_TRIES\<close> times, a second apart.
\<close>

fun mq_wait_init ::
  "mymq os \<Rightarrow> string \<Rightarrow> cint \<Rightarrow> nat \<Rightarrow> mymq world \<Rightarrow> mymq world \<times> int wait_result"
where
  "mq_wait_init os path oflag 0 w = (w, WaitErr ETIMEDOUT)"
| "mq_wait_init os path oflag (Suc n) w =
     (case sys_stat os path w of
        (w1, Inl e) \<Rightarrow>
          (w1, if e = ENOENT \<and> has_flag oflag O_CREAT then WaitAgain else WaitErr e)
      | (w1, Inr statbuff) \<Rightarrow>
          if \<not> has_flag (i_mode statbuff) S_IXUSR then (w1, WaitDone (i_size statbuff))
          else mq_wait_init os path oflag n (tick os w1))" \<comment> \<open>sleep(1)\<close>

text \<open>Lines 152 to 166: the file is initialised; map it.\<close>

definition mq_open_map :: "mymq os \<Rightarrow> string \<Rightarrow> cint \<Rightarrow> int \<Rightarrow> mymq world \<Rightarrow> mymq world \<times> mqd result" where
  "mq_open_map os path nonblock fd w =
     on_err (sys_mmap os fd w) (mq_open_err os path False fd None False) (\<lambda>mptr w.
       let w = sys_close fd w in
       on_err (sys_malloc os w) (mq_open_err os path False fd (Some mptr) False) (\<lambda>_ w.
         (w, Inr (mptr, \<lparr>mqi_magic = MQI_MAGIC, mqi_flags = nonblock\<rparr>))))"

text \<open>Lines 123 to 166, the label \<open>exists\<close>; \<open>again\<close> is the jump back to the start.\<close>

definition mq_open_exists ::
  "(mymq world \<Rightarrow> (mymq world \<times> mqd result) option) \<Rightarrow> mymq os \<Rightarrow> string \<Rightarrow> cint \<Rightarrow> cint \<Rightarrow>
   mymq world \<Rightarrow> (mymq world \<times> mqd result) option"
where
  "mq_open_exists again os path oflag nonblock w =
     (case sys_open os path w of
        (w1, Inl e) \<Rightarrow>
          if e = ENOENT \<and> has_flag oflag O_CREAT then again w1
          else Some (mq_open_err os path False (-1) None False e w1)
      | (w1, Inr fd) \<Rightarrow>
          (case mq_wait_init os path oflag MAX_TRIES w1 of
             (w2, WaitAgain) \<Rightarrow> again (sys_close fd w2)
           | (w2, WaitErr e) \<Rightarrow> Some (mq_open_err os path False fd None False e w2)
           | (w2, WaitDone filesize) \<Rightarrow> Some (mq_open_map os path nonblock fd w2)))"

text \<open>
  The whole function from the label \<open>again\<close>.  Each jump back to it spends one unit of fuel;
  \<open>None\<close> is a call that has not returned yet, or whose behaviour is not defined.
\<close>

fun mq_open_again ::
  "nat \<Rightarrow> mymq os \<Rightarrow> layout \<Rightarrow> string \<Rightarrow> cint \<Rightarrow> cint \<Rightarrow> mymq_attr option \<Rightarrow> cint \<Rightarrow> mymq world \<Rightarrow>
   (mymq world \<times> mqd result) option"
where
  "mq_open_again 0 os L path oflag mode attr nonblock w = None"
| "mq_open_again (Suc fuel) os L path oflag mode attr nonblock w =
     (let mode' = mode AND NOT S_IXUSR;
          exists = mq_open_exists (mq_open_again fuel os L path oflag mode attr nonblock)
            os path oflag nonblock
      in if has_flag oflag O_CREAT
         then case sys_creat os blank_mq path (mode' OR S_IXUSR) w of
                (w1, Inl e) \<Rightarrow>
                  if e = EEXIST \<and> \<not> has_flag oflag O_EXCL then exists w1 else Some (w1, Inl e)
              | (w1, Inr fd) \<Rightarrow> mq_open_create os L path mode' attr nonblock fd w1
         else exists w)"

definition mymq_open ::
  "nat \<Rightarrow> mymq os \<Rightarrow> layout \<Rightarrow> string \<Rightarrow> cint \<Rightarrow> cint \<Rightarrow> mymq_attr option \<Rightarrow> mymq world \<Rightarrow>
   (mymq world \<times> mqd result) option"
where
  "mymq_open fuel os L path oflag mode attr w =
     mq_open_again fuel os L path (oflag AND NOT O_NONBLOCK) mode attr (oflag AND O_NONBLOCK) w"

definition Mymq_open ::
  "nat \<Rightarrow> mymq os \<Rightarrow> layout \<Rightarrow> string \<Rightarrow> cint \<Rightarrow> cint \<Rightarrow> mymq_attr option \<Rightarrow> mymq world \<Rightarrow>
   (mymq world \<times> mqd wrapped) option"
where
  "Mymq_open fuel os L path oflag mode attr w =
     map_option (map_prod id (err_sys_on_error (''mymq_open error for '' @ path)))
       (mymq_open fuel os L path oflag mode attr w)"

definition mymq_unlink :: "mymq os \<Rightarrow> string \<Rightarrow> mymq world \<Rightarrow> mymq world \<times> unit result" where
  "mymq_unlink os path w = sys_unlink os path w"

definition Mymq_unlink :: "mymq os \<Rightarrow> string \<Rightarrow> mymq world \<Rightarrow> mymq world \<times> unit wrapped" where
  "Mymq_unlink os path w =
     map_prod id (err_sys_on_error ''mymq_unlink error'') (mymq_unlink os path w)"

end
