(* ===== verification/Mq_open_Correct.thy ===== *)
theory Mq_open_Correct
  imports Mq_open
begin

text \<open>
  mymq_open delivers well-formed queues whose slots lie inside the file without overlap; it
  waits for initialisation; it returns; and it releases what it acquired on every error path.
\<close>

section \<open>The initial queue\<close>

definition layout_ok :: "layout \<Rightarrow> bool" where
  "layout_ok L \<longleftrightarrow> 0 < sizeof_long L \<and> 0 < sizeof_mq_hdr L \<and> 0 < sizeof_msg_hdr L"

text \<open>
  Attributes that mymq_open accepts, whose file size fits in a \<open>long\<close> and whose messages the loop of
  the initialisation can count in an \<open>int\<close>.
\<close>

definition attr_ok :: "layout \<Rightarrow> mymq_attr \<Rightarrow> bool" where
  "attr_ok L attr \<longleftrightarrow> 0 < mq_maxmsg attr \<and> mq_maxmsg attr \<le> 2 ^ 31 \<and> 0 < mq_msgsize attr \<and>
     sizeof_mq_hdr L + mq_maxmsg attr * (sizeof_msg_hdr L + MSGSIZE L (mq_msgsize attr)) < 2 ^ 63"

lemma to_long_id: "- (2 ^ 63) \<le> n \<Longrightarrow> n < 2 ^ 63 \<Longrightarrow> to_long n = n"
  unfolding to_long_def by (simp add: sint_sbintrunc' signed_take_bit_int_eq_self)

lemma MSGSIZE_ge: "0 < sizeof_long L \<Longrightarrow> i \<le> MSGSIZE L i"
proof -
  assume l: "0 < sizeof_long L"
  have "i + sizeof_long L - 1 =
      ((i + sizeof_long L - 1) div sizeof_long L) * sizeof_long L + (i + sizeof_long L - 1) mod sizeof_long L"
    by simp
  moreover have "(i + sizeof_long L - 1) mod sizeof_long L < sizeof_long L"
    using l by simp
  ultimately show ?thesis
    unfolding MSGSIZE_def by linarith
qed

lemma MSGSIZE_dvd: "sizeof_long L dvd MSGSIZE L i"
  by (simp add: MSGSIZE_def)

lemma MSGSIZE_less: "0 < sizeof_long L \<Longrightarrow> MSGSIZE L i < i + sizeof_long L"
proof -
  assume l: "0 < sizeof_long L"
  have "i + sizeof_long L - 1 =
      ((i + sizeof_long L - 1) div sizeof_long L) * sizeof_long L + (i + sizeof_long L - 1) mod sizeof_long L"
    by simp
  moreover have "0 \<le> (i + sizeof_long L - 1) mod sizeof_long L"
    using l by simp
  ultimately show ?thesis
    unfolding MSGSIZE_def by linarith
qed

lemma attr_ok_sizes:
  assumes "layout_ok L" and "attr_ok L attr"
  shows "to_long (MSGSIZE L (mq_msgsize attr)) = MSGSIZE L (mq_msgsize attr)"
    and "mq_slotsize L attr = sizeof_msg_hdr L + MSGSIZE L (mq_msgsize attr)"
    and "mq_filesize L attr = sizeof_mq_hdr L + mq_maxmsg attr * mq_slotsize L attr"
    and "mq_msgsize attr \<le> MSGSIZE L (mq_msgsize attr)" and "0 < mq_slotsize L attr"
    and "mq_msgsize attr < 2 ^ 63"
proof -
  let ?m = "MSGSIZE L (mq_msgsize attr)" and ?s = "sizeof_msg_hdr L + MSGSIZE L (mq_msgsize attr)"
  have m: "mq_msgsize attr \<le> ?m" "0 < mq_msgsize attr" "0 < sizeof_msg_hdr L" "0 < sizeof_mq_hdr L"
    using assms MSGSIZE_ge by (auto simp: layout_ok_def attr_ok_def)
  have "?s * 1 \<le> ?s * mq_maxmsg attr"
    using m assms by (intro mult_left_mono) (auto simp: attr_ok_def)
  with m assms have lt: "?s < 2 ^ 63"
    by (auto simp: attr_ok_def algebra_simps)
  with m show 1: "to_long ?m = ?m"
    by (intro to_long_id) auto
  then show 2: "mq_slotsize L attr = ?s"
    by (simp add: mq_slotsize_def)
  have "0 \<le> mq_maxmsg attr * ?s"
    using m assms by (auto simp: attr_ok_def)
  moreover have "sizeof_mq_hdr L + mq_maxmsg attr * ?s < 2 ^ 63"
    using assms by (simp add: attr_ok_def)
  ultimately show "mq_filesize L attr = sizeof_mq_hdr L + mq_maxmsg attr * mq_slotsize L attr"
    using m unfolding mq_filesize_def 2 by (intro to_long_id) linarith+
  show "mq_msgsize attr \<le> ?m" "0 < mq_slotsize L attr" "mq_msgsize attr < 2 ^ 63"
    using m lt 2 by linarith+
qed

fun slot_offsets :: "int \<Rightarrow> nat \<Rightarrow> int \<Rightarrow> int list" where
  "slot_offsets step 0 index = [index]"
| "slot_offsets step (Suc n) index = index # slot_offsets step n (index + step)"

lemma slot_offsets_length [simp]: "length (slot_offsets step n index) = Suc n"
  by (induction n arbitrary: index) auto

lemma slot_offsets_bounds:
  "0 < step \<Longrightarrow> j \<in> set (slot_offsets step n index) \<Longrightarrow>
   index \<le> j \<and> j + step \<le> index + (int n + 1) * step"
proof (induction n arbitrary: index)
  case 0
  then show ?case by simp
next
  case (Suc n)
  show ?case
  proof (cases "j = index")
    case True
    have "1 * step \<le> (2 + int n) * step"
      using Suc.prems(1) by (intro mult_right_mono) auto
    with True show ?thesis by (simp add: algebra_simps)
  next
    case False
    then show ?thesis
      using Suc.IH [of "index + step"] Suc.prems by (auto simp: algebra_simps)
  qed
qed

lemma slot_offsets_spread:
  "0 < step \<Longrightarrow> sorted_wrt (\<lambda>i j. i + step \<le> j) (slot_offsets step n index)"
proof (induction n arbitrary: index)
  case (Suc n)
  then show ?case
    using slot_offsets_bounds [of step _ n "index + step"] by auto
qed simp

lemma slot_offsets_distinct: "0 < step \<Longrightarrow> distinct (slot_offsets step n index)"
proof (induction n arbitrary: index)
  case (Suc n)
  then show ?case
    using slot_offsets_bounds [of step index n "index + step"] by auto
qed simp

lemma slot_offsets_apart:
  "0 < step \<Longrightarrow> i \<in> set (slot_offsets step n index) \<Longrightarrow> j \<in> set (slot_offsets step n index) \<Longrightarrow>
   i < j \<Longrightarrow> i + step \<le> j"
proof (induction n arbitrary: index)
  case (Suc n)
  then show ?case
    using slot_offsets_bounds [of step _ n "index + step"] by fastforce
qed simp

text \<open>The slots as a function of their number, and the loop that links them.\<close>

fun linked_slots :: "layout \<Rightarrow> mymq_attr \<Rightarrow> nat \<Rightarrow> int \<Rightarrow> (int \<Rightarrow> mymsg_hdr option) \<Rightarrow> (int \<Rightarrow> mymsg_hdr option)" where
  "linked_slots L attr 0 index ms = ms(index \<mapsto> (blank_slot L attr)\<lparr>msg_next := 0\<rparr>)"
| "linked_slots L attr (Suc n) index ms =
     linked_slots L attr n (index + mq_slotsize L attr)
       (ms(index \<mapsto> (blank_slot L attr)\<lparr>msg_next := index + mq_slotsize L attr\<rparr>))"

lemma mq_init_free_linked:
  assumes "0 < mq_slotsize L attr" and "sizeof_msg_hdr L \<le> mq_slotsize L attr" and "mq_maxmsg attr \<le> 2 ^ 31"
  shows "0 \<le> index \<Longrightarrow> i + int n = mq_maxmsg attr - 1 \<Longrightarrow> index + (int n + 1) * mq_slotsize L attr \<le> filesize \<Longrightarrow>
    mq_init_free L attr filesize i index ms = Some (linked_slots L attr n index ms)"
proof (induction n arbitrary: i index ms)
  case 0
  then have "in_file L filesize index" "\<not> i < mq_maxmsg attr - 1" using assms(2) by (simp_all add: in_file_def)
  then show ?case by (subst mq_init_free.simps) simp
next
  case (Suc n)
  have "1 * mq_slotsize L attr \<le> (int (Suc n) + 1) * mq_slotsize L attr" using assms(1) by (intro mult_right_mono) auto
  then have "in_file L filesize index" using Suc.prems assms(2) by (simp add: in_file_def)
  moreover have "i < mq_maxmsg attr - 1" "i \<noteq> INT_MAX" using Suc.prems(2) assms(3) by (simp_all add: INT_MAX_def)
  ultimately show ?case
    using Suc.IH [of "index + mq_slotsize L attr" "i + 1"] Suc.prems assms(1)
    by (subst mq_init_free.simps) (simp add: algebra_simps)
qed

text \<open>With more messages than an \<open>int\<close> can count the loop has no defined result.\<close>

lemma mq_init_free_overflow:
  "i \<le> INT_MAX \<Longrightarrow> 2 ^ 31 < mq_maxmsg attr \<Longrightarrow> mq_init_free L attr filesize i index ms = None"
proof (induction L attr filesize i index ms rule: mq_init_free.induct)
  case (1 L attr filesize i index ms)
  have more: "(i < mq_maxmsg attr - 1) = True" and "i = INT_MAX \<or> i + 1 \<le> INT_MAX" using 1(2,3) by (auto simp: INT_MAX_def)
  then show ?case
    using 1 by (subst mq_init_free.simps) (cases "in_file L filesize index"; cases "i = INT_MAX"; simp only: more if_True if_False simp_thms)
qed

lemma linked_slots_below:
  "0 < mq_slotsize L attr \<Longrightarrow> j < index \<Longrightarrow> linked_slots L attr n index ms j = ms j"
  by (induction n arbitrary: index ms) auto

lemma linked_slots_dom:
  "dom (linked_slots L attr n index ms) = dom ms \<union> set (slot_offsets (mq_slotsize L attr) n index)"
  by (induction n arbitrary: index ms) auto

lemma linked_slots_slot:
  "linked_slots L attr n index ms j = Some m \<Longrightarrow>
   ms j = Some m \<or> (\<exists>k. m = (blank_slot L attr)\<lparr>msg_next := k\<rparr>)"
proof (induction n arbitrary: index ms)
  case 0
  then show ?case by (auto split: if_splits)
next
  case (Suc n)
  then show ?case
    using Suc.IH [of "index + mq_slotsize L attr"] by (fastforce split: if_splits)
qed

lemma linked_slots_chain:
  "0 < mq_slotsize L attr \<Longrightarrow> 0 < index \<Longrightarrow>
   chain (\<lambda>i. map_option msg_next (linked_slots L attr n index ms i)) index
     (slot_offsets (mq_slotsize L attr) n index)"
proof (induction n arbitrary: index ms)
  case 0
  then show ?case by simp
next
  case (Suc n)
  let ?i = "index + mq_slotsize L attr"
  define ms1 where "ms1 = ms(index \<mapsto> (blank_slot L attr)\<lparr>msg_next := ?i\<rparr>)"
  have "linked_slots L attr n ?i ms1 index = Some ((blank_slot L attr)\<lparr>msg_next := ?i\<rparr>)"
    using Suc.prems by (simp add: linked_slots_below ms1_def)
  with Suc.IH [of ?i ms1] Suc.prems show ?case
    by (simp add: ms1_def [symmetric])
qed

text \<open>A new queue.\<close>

definition mq_fresh :: "layout \<Rightarrow> mymq_attr \<Rightarrow> mymq \<Rightarrow> mymq" where
  "mq_fresh L attr q =
     q\<lparr>q_hdr := (q_hdr q)\<lparr>
         mqh_attr := \<lparr>mq_flags = 0, mq_maxmsg = mq_maxmsg attr, mq_msgsize = mq_msgsize attr, mq_curmsgs = 0\<rparr>,
         mqh_nwait := 0, mqh_pid := 0, mqh_head := 0, mqh_free := sizeof_mq_hdr L\<rparr>,
       q_msgs := linked_slots L attr (nat (mq_maxmsg attr - 1)) (sizeof_mq_hdr L) (q_msgs q)\<rparr>"

lemma mq_init_fresh:
  assumes L: "layout_ok L" and a: "attr_ok L attr"
  shows "mq_init L attr (mq_filesize L attr) q = Some (mq_fresh L attr q)"
proof -
  note sz = attr_ok_sizes [OF L a]
  have pos: "0 < mq_maxmsg attr" "mq_maxmsg attr \<le> 2 ^ 31" "0 < sizeof_mq_hdr L" using L a by (simp_all add: layout_ok_def attr_ok_def)
  have fs: "sizeof_mq_hdr L + (int (nat (mq_maxmsg attr - 1)) + 1) * mq_slotsize L attr = mq_filesize L attr"
    using pos(1) by (simp add: sz(3))
  have "0 \<le> mq_maxmsg attr * mq_slotsize L attr" using pos(1) sz(5) by simp
  then have "\<not> mq_filesize L attr < sizeof_mq_hdr L" by (simp add: sz(3))
  moreover have "sizeof_msg_hdr L \<le> mq_slotsize L attr" using sz(2,4) a by (simp add: attr_ok_def)
  ultimately show ?thesis
    using mq_init_free_linked [OF sz(5) _ pos(2), of "sizeof_mq_hdr L" 0 "nat (mq_maxmsg attr - 1)" "mq_filesize L attr" "q_msgs q"] pos fs
    by (simp add: mq_init_def mq_fresh_def)
qed

lemma mq_fresh_ok:
  assumes L: "layout_ok L" and a: "attr_ok L attr" and blank: "q_msgs q = Map.empty"
  shows "mq_ok (mq_fresh L attr q)" and "mq_contents (mq_fresh L attr q) = []"
proof -
  let ?q = "mq_fresh L attr q" and ?n = "nat (mq_maxmsg attr - 1)"
  let ?os = "slot_offsets (mq_slotsize L attr) ?n (sizeof_mq_hdr L)"
  note sz = attr_ok_sizes [OF L a]
  have hdr: "0 < sizeof_mq_hdr L" using L by (simp add: layout_ok_def)
  have "mq_lists ?q [] ?os"
    using linked_slots_chain [OF sz(5) hdr, of ?n "Map.empty"] slot_offsets_distinct [OF sz(5)] blank
    by (simp add: mq_lists_def mq_fresh_def nxt_def [abs_def] linked_slots_dom)
  moreover have "mq_sizes ?q []"
    using a sz blank by (auto simp: mq_sizes_def mq_fresh_def attr_ok_def blank_slot_def
        dest!: linked_slots_slot)
  ultimately show "mq_ok ?q"
    unfolding mq_ok_def using a
    by (intro exI [of _ "[]"] exI [of _ ?os]) (auto simp: mq_fresh_def attr_ok_def)
  show "mq_contents ?q = []"
    by (simp add: mq_contents_def mq_fresh_def)
qed

section \<open>Resources\<close>

text \<open>
  The outcome of an open: on failure the process holds what it held before, on success
  exactly one mapping and one allocated descriptor more.
\<close>

definition open_outcome :: "(int \<times> nat) list \<Rightarrow> nat list \<Rightarrow> nat \<Rightarrow> mymq world \<times> mqd result \<Rightarrow> bool" where
  "open_outcome F M A res \<longleftrightarrow>
     (case snd res of Inl e \<Rightarrow> holds (fst res) F M A
      | Inr (i, info) \<Rightarrow> holds (fst res) F (i # M) (Suc A) \<and> mqi_magic info = MQI_MAGIC)"

lemma mq_open_err_outcome:
  assumes "fds_ok F" and "holds w F' M' A'"
    and "F' = F \<and> (fd = -1 \<or> fd = new_top F) \<and> fd \<notin> fst ` set F \<or> (\<exists>i. F' = (new_top F, i) # F) \<and> fd = new_top F"
    and "M' = (case mptr of None \<Rightarrow> M | Some i \<Rightarrow> i # M)" and "A' = (if mqinfo then Suc A else A)"
  shows "open_outcome F M A (mq_open_err os path created fd mptr mqinfo e w)"
proof -
  define w1 where "w1 = (if created then fst (sys_unlink os path w) else w)"
  have 1: "holds w1 F' M' A'"
    using assms(2) sys_unlink_holds by (auto simp: w1_def)
  define w2 where "w2 = (case mptr of None \<Rightarrow> w1 | Some i \<Rightarrow> sys_munmap i w1)"
  have 2: "holds w2 F' M A'"
    using 1 assms(4) holds_munmap by (auto simp: w2_def split: option.splits)
  define w3 where "w3 = (if mqinfo then sys_free w2 else w2)"
  have 3: "holds w3 F' M A"
    using 2 assms(5) holds_free by (auto simp: w3_def split: if_splits)
  have "holds (sys_close fd w3) F M A"
    using 3 assms(1,3) holds_close holds_close_other by blast
  moreover have "mq_open_err os path created fd mptr mqinfo e w = (sys_close fd w3, Inl e)"
    by (simp only: mq_open_err_def Let_def w1_def w2_def w3_def)
  ultimately show ?thesis
    by (simp add: open_outcome_def)
qed

lemma sys_lseek_holds: "sys_lseek os n w = (w', r) \<Longrightarrow> holds w F M A \<Longrightarrow> holds w' F M A"
  unfolding sys_lseek_def by (drule syscall_cases) auto

lemma mq_open_create_outcome:
  assumes F: "fds_ok F" and w: "holds w ((new_top F, i) # F) M A"
  shows "pred_option (open_outcome F M A) (mq_open_create os L path mode attr nonblock (new_top F) w)"
proof -
  let ?F = "(new_top F, i) # F"
  have err: "pred_option (open_outcome F M A) (Some (mq_open_err os path True (new_top F) mptr mqinfo e w'))"
    if "holds w' ?F (case mptr of None \<Rightarrow> M | Some j \<Rightarrow> j # M) (if mqinfo then Suc A else A)"
    for mptr mqinfo e w'
    unfolding option.pred_inject using F that by (intro mq_open_err_outcome) auto
  have fin: "pred_option (open_outcome F M A) (Some (sys_close (new_top F) w', Inr (i, \<lparr>mqi_magic = MQI_MAGIC, mqi_flags = nonblock\<rparr>)))"
    if "holds w' ?F (i # M) (Suc A)" for w'
    using holds_close [OF F that] by (simp add: open_outcome_def)
  show ?thesis
    unfolding mq_open_create_def Let_def
    apply (rule if_split [THEN iffD2], intro conjI impI)
     apply (rule err, simp add: w)
    apply (rule on_err_rule, rule err, simp, erule sys_lseek_holds, rule w)
    apply (drule sys_lseek_holds, rule w)
    apply (rule on_err_rule, rule err, simp, erule (1) sys_write_holds)
    apply (drule (1) sys_write_holds)
    apply (rule on_err_rule, rule err, drule (1) sys_mmap_holds, simp)
    apply (drule (1) sys_mmap_holds, clarsimp)
    apply (rule on_err_rule, rule err, drule (1) sys_malloc_holds, simp)
    apply (drule (1) sys_malloc_holds, clarsimp)
    apply (rule option.split [THEN iffD2], intro conjI impI allI, simp)
    apply (rule on_err_rule, rule err, simp, erule sys_check_holds, simp)
    apply (drule sys_check_holds, simp)
    apply (rule on_err_rule, rule err, simp, erule (1) sys_check_holds)
    apply (drule (1) sys_check_holds)
    apply (rule on_err_rule, rule err, simp, erule (1) sys_check_holds)
    apply (drule (1) sys_check_holds)
    apply (rule on_err_rule, rule err, simp, erule (1) sys_check_holds)
    apply (drule (1) sys_check_holds)
    apply (rule on_err_rule, rule err, simp, erule (1) sys_fchmod_holds)
    apply (drule (1) sys_fchmod_holds)
    by (rule fin)
qed

lemma mq_open_map_outcome:
  assumes F: "fds_ok F" and w: "holds w ((new_top F, i) # F) M A"
  shows "open_outcome F M A (mq_open_map os path nonblock (new_top F) w)"
  unfolding mq_open_map_def Let_def
proof (rule on_err_rule)
  fix e w' assume "sys_mmap os (new_top F) w = (w', Inl e)"
  with sys_mmap_holds [OF this w] F
  show "open_outcome F M A (mq_open_err os path False (new_top F) None False e w')"
    by (intro mq_open_err_outcome) auto
next
  fix j w1 assume "sys_mmap os (new_top F) w = (w1, Inr j)"
  with sys_mmap_holds [OF this w] have "holds w1 ((new_top F, i) # F) (j # M) A"
    by auto
  from holds_close [OF F this] have c: "holds (sys_close (new_top F) w1) F (j # M) A" .
  show "open_outcome F M A (on_err (sys_malloc os (sys_close (new_top F) w1))
      (mq_open_err os path False (new_top F) (Some j) False)
      (\<lambda>_ w. (w, Inr (j, \<lparr>mqi_magic = MQI_MAGIC, mqi_flags = nonblock\<rparr>))))"
  proof (rule on_err_rule)
    fix e w' assume "sys_malloc os (sys_close (new_top F) w1) = (w', Inl e)"
    with sys_malloc_holds [OF this c] F new_top_fresh [OF F]
    show "open_outcome F M A (mq_open_err os path False (new_top F) (Some j) False e w')"
      by (intro mq_open_err_outcome) auto
  next
    fix u w' assume "sys_malloc os (sys_close (new_top F) w1) = (w', Inr u)"
    with sys_malloc_holds [OF this c]
    show "open_outcome F M A (w', Inr (j, \<lparr>mqi_magic = MQI_MAGIC, mqi_flags = nonblock\<rparr>))"
      by (auto simp: open_outcome_def)
  qed
qed

lemma mq_wait_init_holds:
  "mq_wait_init os path oflag n w = (w', r) \<Longrightarrow> holds w F M A \<Longrightarrow> holds w' F M A"
proof (induction n arbitrary: w)
  case (Suc n)
  obtain w1 s where s: "sys_stat os path w = (w1, s)" by fastforce
  have h: "holds w1 F M A" "holds (tick os w1) F M A"
    using sys_stat_holds [OF s Suc.prems(2)] by auto
  show ?case
    using Suc.prems(1) Suc.IH [OF _ h(2)] h(1) s by (auto split: sum.splits if_splits)
qed simp

lemma mq_open_again_outcome:
  assumes F: "fds_ok F"
  shows "holds w F M A \<Longrightarrow> mq_open_again fuel os L path oflag mode attr nonblock w = Some res \<Longrightarrow>
    open_outcome F M A res"
proof (induction fuel arbitrary: w)
  case (Suc fuel)
  have err: "open_outcome F M A (mq_open_err os path False (- 1) None False e w1)"
    if "holds w1 F M A" for w1 e
    using F that by (intro mq_open_err_outcome) (auto simp: fds_ok_def)
  have exists: "open_outcome F M A res"
    if h: "holds w0 F M A" and r: "mq_open_exists (mq_open_again fuel os L path oflag mode attr nonblock)
      os path oflag nonblock w0 = Some res" for w0
  proof -
    obtain w1 s where s: "sys_open os path w0 = (w1, s)" by fastforce
    show ?thesis
      using sys_open_holds [OF s h]
    proof (elim disjE exE conjE)
      fix e assume "s = Inl e" and "holds w1 F M A"
      then show ?thesis
        using r s Suc.IH err by (auto simp: mq_open_exists_def split: if_splits)
    next
      fix i assume fd: "s = Inr (new_top F)" and h1: "holds w1 ((new_top F, i) # F) M A"
      obtain w2 z where z: "mq_wait_init os path oflag MAX_TRIES w1 = (w2, z)" by fastforce
      note h2 = mq_wait_init_holds [OF z h1]
      show ?thesis
        using r s fd z Suc.IH [OF holds_close [OF F h2]] mq_open_map_outcome [OF F h2]
          mq_open_err_outcome [OF F h2, where fd = "new_top F" and mptr = None and mqinfo = False]
        by (auto simp: mq_open_exists_def split: wait_result.splits)
    qed
  qed
  show ?case
  proof (cases "has_flag oflag O_CREAT")
    case False
    then show ?thesis
      using exists [OF Suc.prems(1)] Suc.prems(2) by (simp add: Let_def)
  next
    case True
    obtain w1 s where s: "sys_creat os blank_mq path (mode AND NOT S_IXUSR OR S_IXUSR) w = (w1, s)"
      by fastforce
    show ?thesis
      using sys_creat_holds [OF s Suc.prems(1)]
    proof (elim disjE exE conjE)
      fix e assume "s = Inl e" and h1: "holds w1 F M A"
      then show ?thesis
        using Suc.prems(2) s True exists [OF h1]
        by (cases "e = EEXIST \<and> \<not> has_flag oflag O_EXCL") (auto simp: Let_def open_outcome_def)
    next
      fix i assume fd: "s = Inr (new_top F)" and h1: "holds w1 ((new_top F, i) # F) M A"
      have "mq_open_create os L path (mode AND NOT S_IXUSR) attr nonblock (new_top F) w1 = Some res"
        using Suc.prems(2) s True fd by (simp add: Let_def)
      then show ?thesis
        using mq_open_create_outcome [OF F h1, of os L path "mode AND NOT S_IXUSR" attr nonblock] by simp
    qed
  qed
qed simp

section \<open>Creating a queue\<close>

lemma open_flags [simp]:
  "has_flag (oflag AND NOT O_NONBLOCK) O_CREAT = has_flag oflag O_CREAT"
  "has_flag (oflag AND NOT O_NONBLOCK) O_EXCL = has_flag oflag O_EXCL"
  by (simp_all add: has_flag_def flag_defs and.assoc)

lemma mode_IXUSR [simp]: "\<not> has_flag (mode AND NOT S_IXUSR) S_IXUSR"
  by (simp add: has_flag_def flag_defs and.assoc)

lemma defattr_bounds [simp]: "0 < mq_maxmsg defattr" "0 < mq_msgsize defattr"
  by (simp_all add: defattr_def)

definition attr_or_default :: "mymq_attr option \<Rightarrow> mymq_attr" where
  "attr_or_default a = (case a of None \<Rightarrow> defattr | Some b \<Rightarrow> b)"

lemma mq_open_create_quiet:
  assumes q: "quiet os" and L: "layout_ok L" and a: "attr_ok L (attr_or_default attr)"
    and fd: "w_fds w = (fd, i) # F"
  shows "\<exists>w'. mq_open_create os L path mode attr nonblock fd w =
      Some (w', Inr (i, \<lparr>mqi_magic = MQI_MAGIC, mqi_flags = nonblock\<rparr>)) \<and>
    w_disk w' = (w_disk w)\<lparr>d_ino := (d_ino (w_disk w))(i :=
      (d_ino (w_disk w) i)\<lparr>i_mode := mode, i_size := mq_filesize L (attr_or_default attr),
       i_data := mq_fresh L (attr_or_default attr) (i_data (d_ino (w_disk w) i))\<rparr>)\<rparr>"
proof -
  have pos: "(mq_maxmsg (attr_or_default attr) \<le> 0) = False" "(mq_msgsize (attr_or_default attr) \<le> 0) = False"
    using a by (auto simp: attr_ok_def)
  have "0 < mq_maxmsg (attr_or_default attr) * mq_slotsize L (attr_or_default attr)"
    using a attr_ok_sizes(5) [OF L a] by (simp add: attr_ok_def)
  then have size: "(mq_filesize L (attr_or_default attr) - 1 < 0) = False"
    using L by (simp add: attr_ok_sizes(3) [OF L a] layout_ok_def)
  show ?thesis
    using q fd
    by (cases "d_ino (w_disk w) i")
      (simp add: mq_open_create_def Let_def attr_or_default_def [symmetric] pos size mq_init_fresh [OF L a] syscall_defs sys_lseek_def
        syscall_quiet with_fd_quiet w_disk_upd_ino del: diff_less_0_iff_less)
qed

text \<open>
  What a process finds that creates a queue undisturbed, from an arbitrary file system in
  which the name is not used.
\<close>

lemma mymq_open_create_disk:
  assumes q: "quiet os" and L: "layout_ok L" and a: "attr_ok L (attr_or_default attr)"
    and c: "has_flag oflag O_CREAT" and new: "d_dir (w_disk w) path = None"
  shows "\<exists>w' i. mymq_open (Suc fuel) os L path oflag mode attr w =
      Some (w', Inr (i, \<lparr>mqi_magic = MQI_MAGIC, mqi_flags = oflag AND O_NONBLOCK\<rparr>)) \<and>
    i = d_next (w_disk w) \<and> d_next (w_disk w') = Suc i \<and>
    d_dir (w_disk w') = (d_dir (w_disk w))(path \<mapsto> i) \<and>
    d_ino (w_disk w') = (d_ino (w_disk w))(i :=
      \<lparr>i_mode = mode AND NOT S_IXUSR, i_size = mq_filesize L (attr_or_default attr),
       i_data = mq_fresh L (attr_or_default attr) blank_mq\<rparr>)"
proof -
  let ?fd = "new_fd w" and ?i = "d_next (w_disk w)"
  obtain w1 where w1: "sys_creat os blank_mq path (mode AND NOT S_IXUSR OR S_IXUSR) w = (w1, Inr ?fd)"
      "w_fds w1 = (?fd, ?i) # w_fds w" "d_dir (w_disk w1) = (d_dir (w_disk w))(path \<mapsto> ?i)"
      "d_ino (w_disk w1) = (d_ino (w_disk w))(?i := \<lparr>i_mode = mode AND NOT S_IXUSR OR S_IXUSR, i_size = 0, i_data = blank_mq\<rparr>)"
      "d_next (w_disk w1) = Suc ?i"
    using q new by (simp add: sys_creat_def syscall_quiet Let_def new_fd_def)
  show ?thesis
    using mq_open_create_quiet [OF q L a w1(2), of path "mode AND NOT S_IXUSR" "oflag AND O_NONBLOCK"] c w1
    by (auto simp: mymq_open_def Let_def)
qed

section \<open>Opening without creating\<close>

lemma mq_wait_init_timeout:
  assumes q: "quiet os" and p: "d_dir (w_disk w) path = Some i"
    and x: "has_flag (i_mode (d_ino (w_disk w) i)) S_IXUSR"
  shows "\<exists>w'. mq_wait_init os path oflag n w = (w', WaitErr ETIMEDOUT) \<and> w_disk w' = w_disk w"
  using p x
proof (induction n arbitrary: w)
  case (Suc n)
  have "sys_stat os path w = (tick os w, Inr (d_ino (w_disk w) i))"
    using q Suc.prems by (simp add: sys_stat_def syscall_quiet)
  with Suc.IH [of "tick os (tick os w)"] Suc.prems q show ?case
    by simp
qed simp

lemma mq_wait_init_ready:
  assumes "quiet os" and "d_dir (w_disk w) path = Some i"
    and "\<not> has_flag (i_mode (d_ino (w_disk w) i)) S_IXUSR"
  shows "mq_wait_init os path oflag (Suc n) w = (tick os w, WaitDone (i_size (d_ino (w_disk w) i)))"
  using assms by (simp add: sys_stat_def syscall_quiet)

lemma mq_open_exists_quiet:
  assumes q: "quiet os" and p: "d_dir (w_disk w) path = Some i"
  shows "\<exists>w'. mq_open_exists again os path oflag nonblock w = Some (w',
      if has_flag (i_mode (d_ino (w_disk w) i)) S_IXUSR then Inl ETIMEDOUT
      else Inr (i, \<lparr>mqi_magic = MQI_MAGIC, mqi_flags = nonblock\<rparr>)) \<and> w_disk w' = w_disk w"
proof -
  let ?w1 = "add_fd i (tick os w)"
  have o: "sys_open os path w = (?w1, Inr (new_fd w))"
    using q p by (simp add: sys_open_def syscall_quiet)
  have d: "w_disk ?w1 = w_disk w" using q by simp
  show ?thesis
  proof (cases "has_flag (i_mode (d_ino (w_disk w) i)) S_IXUSR")
    case True
    then show ?thesis
      using mq_wait_init_timeout [OF q, of ?w1 path i oflag MAX_TRIES] d p o
      by (auto simp: mq_open_exists_def mq_open_err_def Let_def)
  next
    case False
    have "mq_wait_init os path oflag MAX_TRIES ?w1 = (tick os ?w1, WaitDone (i_size (d_ino (w_disk w) i)))"
      using mq_wait_init_ready [OF q, of ?w1 path i oflag 9] d p False by (simp add: MAX_TRIES_def)
    with False o q show ?thesis
      by (simp add: mq_open_exists_def mq_open_map_def Let_def sys_mmap_def sys_malloc_def syscall_quiet
          with_fd_def fd_ino_def)
  qed
qed

section \<open>Error paths and the directory\<close>

lemma mq_open_err_dir:
  assumes a: "alone os" and u: "os_fault os (w_time w) = None" and d: "d_dir (w_disk w) path = Some i"
  shows "d_dir (w_disk (fst (mq_open_err os path True fd mptr mqinfo e w))) = (d_dir (w_disk w))(path := None)"
    and "w_time (fst (mq_open_err os path True fd mptr mqinfo e w)) = Suc (w_time w)"
proof -
  have "sys_unlink os path w = ((tick os w)\<lparr>w_disk := (w_disk w)\<lparr>d_dir := (d_dir (w_disk w))(path := None)\<rparr>\<rparr>, Inr ())"
    using assms by (simp add: sys_unlink_def syscall_def)
  then show "d_dir (w_disk (fst (mq_open_err os path True fd mptr mqinfo e w))) = (d_dir (w_disk w))(path := None)"
    and "w_time (fst (mq_open_err os path True fd mptr mqinfo e w)) = Suc (w_time w)"
    by (auto simp: mq_open_err_def Let_def split: option.splits)
qed

lemma sys_unlink_time: "w_time (fst (sys_unlink os path w)) = Suc (w_time w)"
  by (auto simp: sys_unlink_def syscall_def split: option.splits)

lemma mq_open_err_time:
  "w_time (fst (mq_open_err os path True fd mptr mqinfo e w)) = Suc (w_time w)"
  using sys_unlink_time [of os path w] by (auto simp: mq_open_err_def Let_def split: option.splits)

text \<open>
  After a failure the directory is as before, unless the \<open>unlink\<close> of the clean-up (the last
  system call then) failed itself and left the new name behind.
\<close>

definition dir_restored :: "mymq os \<Rightarrow> (string \<Rightarrow> nat option) \<Rightarrow> string \<Rightarrow> nat \<Rightarrow> mymq world \<times> mqd result \<Rightarrow> bool"
where
  "dir_restored os D path i res \<longleftrightarrow>
     (case snd res of
        Inl e \<Rightarrow> d_dir (w_disk (fst res)) = D \<or>
          (os_fault os (w_time (fst res) - 1) \<noteq> None \<and> d_dir (w_disk (fst res)) = D(path \<mapsto> i))
      | Inr _ \<Rightarrow> True)"

lemma mq_open_err_restored:
  assumes a: "alone os" and D: "D path = None" and d: "d_dir (w_disk w) = D(path \<mapsto> i)"
  shows "dir_restored os D path i (mq_open_err os path True fd mptr mqinfo e w)"
proof (cases "os_fault os (w_time w)")
  case None
  have "D(path := None) = D" using D by auto
  with mq_open_err_dir [OF a None, of path i] d show ?thesis
    by (simp add: dir_restored_def split: sum.splits)
next
  case (Some x)
  then have "sys_unlink os path w = (tick os w, Inl x)"
    by (simp add: sys_unlink_def syscall_def)
  then have "d_dir (w_disk (fst (mq_open_err os path True fd mptr mqinfo e w))) = d_dir (w_disk w)"
    using a by (auto simp: mq_open_err_def Let_def split: option.splits)
  with Some d show ?thesis
    by (simp add: dir_restored_def mq_open_err_time split: sum.splits)
qed

lemma sys_lseek_dir: "alone os \<Longrightarrow> sys_lseek os n w = (w', r) \<Longrightarrow> d_dir (w_disk w') = d_dir (w_disk w)"
  by (auto simp: sys_lseek_def syscall_def split: option.splits)

lemma mq_open_create_restored:
  assumes a: "alone os" and D: "D path = None" and d: "d_dir (w_disk w) = D(path \<mapsto> i)"
  shows "pred_option (dir_restored os D path i) (mq_open_create os L path mode attr nonblock fd w)"
proof -
  have err: "pred_option (dir_restored os D path i) (Some (mq_open_err os path True fd mptr mqinfo e w'))"
    if "d_dir (w_disk w') = D(path \<mapsto> i)" for mptr mqinfo e w'
    using mq_open_err_restored [OF a D that] by simp
  note keep = alone_keeps_dir [OF a] sys_lseek_dir [OF a]
  show ?thesis
    unfolding mq_open_create_def Let_def
    apply (rule if_split [THEN iffD2], intro conjI impI)
     apply (rule err, rule d)
    apply (rule on_err_rule, rule err, drule keep, simp add: d, drule keep)+
    apply (rule option.split [THEN iffD2], intro conjI impI allI, simp)
    apply (rule on_err_rule, rule err, drule keep, simp add: d, drule keep)+
    by (simp add: dir_restored_def)
qed

section \<open>The jumps back to \<open>again\<close> end\<close>

text \<open>From call \<open>T\<close> on, other processes do not remove the name.\<close>

definition name_stays :: "mymq os \<Rightarrow> string \<Rightarrow> nat \<Rightarrow> bool" where
  "name_stays os path T \<longleftrightarrow>
     (\<forall>n d. T \<le> n \<longrightarrow> d_dir d path \<noteq> None \<longrightarrow> d_dir (os_env os n d) path \<noteq> None)"

text \<open>The system reports \<open>EEXIST\<close> and \<open>ENOENT\<close> only of names that exist or do not exist.\<close>

definition honest_errors :: "mymq os \<Rightarrow> bool" where
  "honest_errors os \<longleftrightarrow> (\<forall>n. os_fault os n \<noteq> Some EEXIST \<and> os_fault os n \<noteq> Some ENOENT)"

lemma name_stays_tick:
  "name_stays os path T \<Longrightarrow> T \<le> w_time w \<Longrightarrow> d_dir (w_disk w) path \<noteq> None \<Longrightarrow>
   d_dir (w_disk (tick os w)) path \<noteq> None"
  by (simp add: name_stays_def tick_def)

lemma mq_wait_init_stays:
  assumes "name_stays os path T" and "honest_errors os"
  shows "T \<le> w_time w \<Longrightarrow> d_dir (w_disk w) path \<noteq> None \<Longrightarrow>
    snd (mq_wait_init os path oflag n w) \<noteq> WaitAgain"
proof (induction n arbitrary: w)
  case (Suc n)
  note p = name_stays_tick [OF assms(1) Suc.prems]
  have p2: "d_dir (w_disk (tick os (tick os w))) path \<noteq> None"
    using name_stays_tick [OF assms(1), of "tick os w"] Suc.prems p by simp
  show ?case
    using Suc.IH [of "tick os (tick os w)"] p p2 Suc.prems(1) assms(2)
    by (cases "os_fault os (w_time w)")
      (auto simp: sys_stat_def syscall_def honest_errors_def split: option.splits)
qed simp

lemma mq_wait_init_time: "w_time w \<le> w_time (fst (mq_wait_init os path oflag n w))"
proof (induction n arbitrary: w)
  case (Suc n)
  show ?case
    using Suc.IH [of "tick os (tick os w)"]
    by (auto simp: sys_stat_def syscall_def split: option.splits)
qed simp

lemma mq_open_exists_returns:
  assumes n: "name_stays os path T" and h: "honest_errors os"
    and "T \<le> w_time w" and "d_dir (w_disk w) path \<noteq> None"
  shows "\<exists>res. mq_open_exists again os path oflag nonblock w = Some res"
proof -
  note p = name_stays_tick [OF n assms(3,4)]
  show ?thesis
  proof (cases "os_fault os (w_time w)")
    case None
    then obtain i where i: "sys_open os path w = (add_fd i (tick os w), Inr (new_fd w))"
      using p by (auto simp: sys_open_def syscall_def)
    show ?thesis
      using mq_wait_init_stays [OF n h, of "add_fd i (tick os w)" oflag MAX_TRIES] p assms(3) i
      by (auto simp: mq_open_exists_def split: prod.splits wait_result.splits)
  next
    case (Some e)
    with h have "e \<noteq> ENOENT" by (auto simp: honest_errors_def)
    with Some show ?thesis
      by (simp add: mq_open_exists_def sys_open_def syscall_def)
  qed
qed

text \<open>A round that jumps back has made at least one system call.\<close>

lemma mq_open_exists_again:
  assumes "\<And>w'. w_time w < w_time w' \<Longrightarrow> \<exists>res. again w' = Some res"
  shows "\<exists>res. mq_open_exists again os path oflag nonblock w = Some res"
proof -
  obtain w1 r where o: "sys_open os path w = (w1, r)" by fastforce
  have t1: "w_time w < w_time w1"
    using o by (auto simp: sys_open_def syscall_def split: option.splits)
  obtain w2 z where z: "mq_wait_init os path oflag MAX_TRIES w1 = (w2, z)" by fastforce
  have t2: "w_time w1 \<le> w_time w2"
    using mq_wait_init_time [of w1 os path oflag MAX_TRIES] z by simp
  show ?thesis
    using o z t1 t2 assms [of w1] assms [of "sys_close (projr r) w2"]
    by (auto simp: mq_open_exists_def split: sum.splits wait_result.splits)
qed

lemma mq_wait_init_no_creat:
  "\<not> has_flag oflag O_CREAT \<Longrightarrow> snd (mq_wait_init os path oflag n w) \<noteq> WaitAgain"
  by (induction n arbitrary: w) (auto split: sum.splits prod.splits)

lemma mq_open_exists_no_creat:
  "\<not> has_flag oflag O_CREAT \<Longrightarrow> \<exists>res. mq_open_exists again os path oflag nonblock w = Some res"
  using mq_wait_init_no_creat [of oflag os path MAX_TRIES]
  by (auto simp: mq_open_exists_def split: sum.splits prod.splits wait_result.splits)
    (metis snd_conv)

text \<open>Attributes that are refused, or for which the initialisation is defined.\<close>

definition attr_fits :: "layout \<Rightarrow> mymq_attr option \<Rightarrow> bool" where
  "attr_fits L attr \<longleftrightarrow> mq_maxmsg (attr_or_default attr) \<le> 0 \<or> mq_msgsize (attr_or_default attr) \<le> 0 \<or> attr_ok L (attr_or_default attr)"

lemma mq_open_create_returns:
  assumes L: "layout_ok L" and a: "attr_fits L attr"
  shows "\<exists>res. mq_open_create os L path mode attr nonblock fd w = Some res"
proof (cases "attr \<noteq> None \<and> (mq_maxmsg (attr_or_default attr) \<le> 0 \<or> mq_msgsize (attr_or_default attr) \<le> 0)")
  case True
  then show ?thesis by (simp add: mq_open_create_def Let_def attr_or_default_def [symmetric])
next
  case False
  then have "attr_ok L (attr_or_default attr)" using a by (auto simp: attr_fits_def attr_or_default_def defattr_def)
  note init = mq_init_fresh [OF L this]
  let ?Q = "\<lambda>x :: (mymq world \<times> mqd result) option. \<exists>res. x = Some res"
  show ?thesis
    unfolding mq_open_create_def Let_def attr_or_default_def [symmetric] if_not_P [OF False]
    apply (rule on_err_rule [where Q = ?Q], rule exI, rule refl)+
    apply (simp only: init option.case)
    apply (rule on_err_rule [where Q = ?Q], rule exI, rule refl)+
    by (rule exI, rule refl)
qed

lemma mq_open_again_settled:
  assumes n: "name_stays os path T" and h: "honest_errors os" and L: "layout_ok L" and a: "attr_fits L attr" and t: "T \<le> w_time w"
  shows "\<exists>res. mq_open_again (Suc fuel) os L path oflag mode attr nonblock w = Some res"
proof (cases "has_flag oflag O_CREAT")
  case False
  then show ?thesis
    using mq_open_exists_no_creat by (simp add: Let_def)
next
  case True
  have "\<exists>res. mq_open_exists (mq_open_again fuel os L path oflag mode attr nonblock) os path oflag
      nonblock (tick os w) = Some res" if "d_dir (w_disk (tick os w)) path \<noteq> None"
    using mq_open_exists_returns [OF n h, of "tick os w"] t that by simp
  then show ?thesis
    using True h mq_open_create_returns [OF L a]
    by (auto simp: Let_def sys_creat_def syscall_def honest_errors_def split: option.splits)
qed

lemma mq_open_again_returns:
  assumes n: "name_stays os path T" and h: "honest_errors os" and L: "layout_ok L" and a: "attr_fits L attr"
  shows "T \<le> w_time w + fuel \<Longrightarrow>
    \<exists>res. mq_open_again (Suc fuel) os L path oflag mode attr nonblock w = Some res"
proof (induction fuel arbitrary: w)
  case 0
  then show ?case using mq_open_again_settled [OF n h L a] by simp
next
  case (Suc fuel)
  let ?again = "mq_open_again (Suc fuel) os L path oflag mode attr nonblock"
  obtain w1 r where c: "sys_creat os blank_mq path (mode AND NOT S_IXUSR OR S_IXUSR) w = (w1, r)"
    by fastforce
  have t: "w_time w < w_time w1"
    using c by (auto simp: sys_creat_def syscall_def Let_def split: option.splits)
  have e: "\<exists>res. mq_open_exists ?again os path oflag nonblock w0 = Some res" if "w_time w \<le> w_time w0" for w0
    using Suc that by (intro mq_open_exists_again) auto
  show ?case
    unfolding mq_open_again.simps(2) [of "Suc fuel"] Let_def
    using e [of w] e [of w1] t c mq_open_create_returns [OF L a] by (cases r) auto
qed

text \<open>The same jumps, and the directory.\<close>

lemma sys_open_alone_dir:
  "alone os \<Longrightarrow> sys_open os path w = (w', r) \<Longrightarrow> w_disk w' = w_disk w"
  by (auto simp: sys_open_def syscall_def split: option.splits)

lemma mq_wait_init_alone_dir:
  "alone os \<Longrightarrow> mq_wait_init os path oflag n w = (w', r) \<Longrightarrow> w_disk w' = w_disk w"
proof (induction n arbitrary: w)
  case (Suc n)
  obtain w1 z where s: "sys_stat os path w = (w1, z)" by fastforce
  then have "w_disk w1 = w_disk w"
    using Suc.prems(1) by (auto simp: sys_stat_def syscall_def split: option.splits)
  then show ?case
    using Suc.prems Suc.IH [of "tick os w1"] s by (cases z) (auto split: if_splits)
qed simp

lemma mq_open_err_keeps_dir:
  "w_disk (fst (mq_open_err os path False fd mptr mqinfo e w)) = w_disk w"
  by (auto simp: mq_open_err_def Let_def split: option.splits)

lemma mq_open_map_dir:
  assumes a: "alone os"
  shows "d_dir (w_disk (fst (mq_open_map os path nonblock fd w))) = d_dir (w_disk w)"
proof -
  obtain w1 r where m: "sys_mmap os fd w = (w1, r)" by fastforce
  obtain w2 r2 where l: "sys_malloc os (sys_close fd w1) = (w2, r2)" by fastforce
  show ?thesis
    using m l alone_keeps_dir(4) [OF a m] alone_keeps_dir(5) [OF a l]
    by (cases r; cases r2) (simp_all add: mq_open_map_def Let_def mq_open_err_keeps_dir)
qed

lemma mq_open_exists_dir:
  assumes a: "alone os" and D: "d_dir (w_disk w) = D"
    and again: "\<And>w' res. d_dir (w_disk w') = D \<Longrightarrow> d_next (w_disk w') = d_next (w_disk w) \<Longrightarrow>
      again w' = Some res \<Longrightarrow> dir_restored os D path (d_next (w_disk w)) res"
    and r: "mq_open_exists again os path oflag nonblock w = Some res"
  shows "dir_restored os D path (d_next (w_disk w)) res"
proof -
  obtain w1 x where o: "sys_open os path w = (w1, x)" by fastforce
  obtain w2 z where z: "mq_wait_init os path oflag MAX_TRIES w1 = (w2, z)" by fastforce
  have d: "w_disk w1 = w_disk w" "w_disk w2 = w_disk w"
    using sys_open_alone_dir [OF a o] mq_wait_init_alone_dir [OF a z] by auto
  have same: "d_dir (w_disk (fst res)) = D \<Longrightarrow> dir_restored os D path (d_next (w_disk w)) res" for res
    by (simp add: dir_restored_def split: sum.splits)
  have err: "dir_restored os D path (d_next (w_disk w)) (mq_open_err os path False fd mptr mi e w')"
    if "w_disk w' = w_disk w" for fd mptr mi e w'
    using that D mq_open_err_keeps_dir by (intro same) auto
  show ?thesis
  proof (cases x)
    case (Inl e)
    then show ?thesis
      using r o again [of w1 res] d D err [of w1]
      by (auto simp: mq_open_exists_def split: if_splits)
  next
    case (Inr fd)
    then show ?thesis
      using r o z again [of "sys_close fd w2" res] d D same [of "mq_open_map os path nonblock fd w2"]
        mq_open_map_dir [OF a, of path nonblock fd w2] err [of w2]
      by (auto simp: mq_open_exists_def split: wait_result.splits)
  qed
qed

lemma mq_open_again_dir:
  assumes a: "alone os"
  shows "mq_open_again fuel os L path oflag mode attr nonblock w = Some res \<Longrightarrow>
    dir_restored os (d_dir (w_disk w)) path (d_next (w_disk w)) res"
proof (induction fuel arbitrary: w res)
  case (Suc fuel)
  let ?D = "d_dir (w_disk w)" and ?i = "d_next (w_disk w)"
  have e: "dir_restored os ?D path ?i res"
    if "mq_open_exists (mq_open_again fuel os L path oflag mode attr nonblock) os path oflag nonblock w0 = Some res"
      and "w_disk w0 = w_disk w" for w0
    using mq_open_exists_dir [OF a _ _ that(1), of ?D] Suc.IH that(2) by (metis (no_types, lifting))
  obtain w1 r where c: "sys_creat os blank_mq path (mode AND NOT S_IXUSR OR S_IXUSR) w = (w1, r)"
    by fastforce
  have fail: "w_disk w1 = w_disk w" if "r = Inl x" for x
    using c that a by (auto simp: sys_creat_def syscall_def Let_def split: option.splits)
  have new: "?D path = None \<and> d_dir (w_disk w1) = ?D(path \<mapsto> ?i)" if "r = Inr fd" for fd
    using c that a by (auto simp: sys_creat_def syscall_def Let_def split: option.splits)
  show ?case
  proof (cases r)
    case (Inl x)
    then show ?thesis
      using Suc.prems e [of w] e [of w1] fail [OF Inl] c
      by (auto simp: Let_def dir_restored_def split: if_splits)
  next
    case (Inr fd)
    then show ?thesis
      using Suc.prems e [of w] mq_open_create_restored [OF a, of ?D path w1 ?i L "mode AND NOT S_IXUSR" attr nonblock fd] new [OF Inr] c
      by (auto simp: Let_def split: if_splits)
  qed
qed simp

end
