(* ===== verification/Mq_open_Props.thy ===== *)
theory Mq_open_Props
  imports Mq_open_Correct
begin

text \<open>
  The properties of mymq_open and mymq_unlink, with the concrete file system on which they
  are exercised.
\<close>

section \<open>A concrete system\<close>

definition ex_layout :: layout where
  "ex_layout = \<lparr>sizeof_long = 8, sizeof_mq_hdr = 136, sizeof_msg_hdr = 24\<rparr>"

definition ex_attr :: mymq_attr where
  "ex_attr = \<lparr>mq_flags = 0, mq_maxmsg = 3, mq_msgsize = 10, mq_curmsgs = 0\<rparr>"

definition ex_disk :: "mymq disk" where
  "ex_disk = \<lparr>d_dir = Map.empty, d_ino = (\<lambda>_. \<lparr>i_mode = 0, i_size = 0, i_data = blank_mq\<rparr>), d_next = 0\<rparr>"

definition ex_world :: "mymq world" where
  "ex_world = \<lparr>w_disk = ex_disk, w_fds = [], w_maps = [], w_allocs = 0, w_badclose = 0, w_time = 0\<rparr>"

definition ex_quiet :: "mymq os" where
  "ex_quiet = \<lparr>os_env = (\<lambda>_ d. d), os_fault = (\<lambda>_. None)\<rparr>"

text \<open>A system whose fourth call (\<open>malloc\<close> on both paths of mymq_open) fails.\<close>

definition ex_faulty :: "nat \<Rightarrow> mymq os" where
  "ex_faulty n = \<lparr>os_env = (\<lambda>_ d. d), os_fault = (\<lambda>k. if k = n then Some ENOMEM else None)\<rparr>"

lemma ex_quiet_quiet [simp]: "quiet ex_quiet"
  by (simp add: quiet_def alone_def ex_quiet_def)

lemma ex_faulty_alone [simp]: "alone (ex_faulty n)"
  by (simp add: alone_def ex_faulty_def)

lemma ex_layout_ok [simp]: "layout_ok ex_layout"
  by (simp add: layout_ok_def ex_layout_def)

lemma ex_attr_ok [simp]: "attr_ok ex_layout ex_attr"
  by (simp add: attr_ok_def ex_layout_def ex_attr_def MSGSIZE_def)

lemma ex_defattr_ok [simp]: "attr_ok ex_layout defattr"
  by (simp add: attr_ok_def ex_layout_def defattr_def MSGSIZE_def)

lemma ex_filesize: "mq_filesize ex_layout defattr = 134280"
  using attr_ok_sizes(2,3) [OF ex_layout_ok ex_defattr_ok] by (simp add: ex_layout_def defattr_def MSGSIZE_def)

lemmas ex_open_simps = ex_filesize sys_lseek_def mymq_open_def mq_open_create_def mq_open_exists_def mq_open_map_def mq_open_err_def
  Let_def syscall_defs syscall_def ex_faulty_def ex_quiet_def ex_world_def ex_disk_def tick_def add_fd_def
  new_fd_def sys_close_def sys_munmap_def sys_free_def with_fd_def fd_ino_def upd_ino_def has_flag_def
  flag_defs

section \<open>Properties\<close>

text \<open>
  C5: mymq_open leaks nothing.  Whatever other processes do to the files and whichever of its
  system calls fail, a call that returns an error has released every descriptor, mapping and
  mymq_info it acquired, and a successful call leaves exactly one mapping and one mymq_info
  more, with no descriptor left open.
\<close>

theorem mymq_open_no_leak:
  assumes "fds_ok (w_fds w)"
    and "mymq_open fuel os L path oflag mode attr w = Some (w', r)"
  shows "case r of
      Inl e \<Rightarrow> w_fds w' = w_fds w \<and> w_maps w' = w_maps w \<and> w_allocs w' = w_allocs w
    | Inr (i, info) \<Rightarrow> w_fds w' = w_fds w \<and> w_maps w' = i # w_maps w \<and>
        w_allocs w' = Suc (w_allocs w) \<and> mqi_magic info = MQI_MAGIC"
  using mq_open_again_outcome [OF assms(1), of w "w_maps w" "w_allocs w" fuel os L path]
    assms(2) [unfolded mymq_open_def]
  by (fastforce simp: holds_def open_outcome_def split: sum.splits)

theorem mymq_open_no_leak_witness:
  "\<exists>w'. mymq_open 1 (ex_faulty 3) ex_layout ''/q'' O_CREAT 0 None ex_world = Some (w', Inl ENOMEM) \<and>
     w_fds w' = [] \<and> w_maps w' = [] \<and> w_allocs w' = 0"
proof -
  have "\<exists>w'. mymq_open 1 (ex_faulty 3) ex_layout ''/q'' O_CREAT 0 None ex_world = Some (w', Inl ENOMEM)"
    by (simp add: ex_open_simps)
  then obtain w' where w': "mymq_open 1 (ex_faulty 3) ex_layout ''/q'' O_CREAT 0 None ex_world = Some (w', Inl ENOMEM)" ..
  have "fds_ok (w_fds ex_world)" by (simp add: ex_world_def fds_ok_def)
  from mymq_open_no_leak [OF this w'] w' show ?thesis
    by (simp add: ex_world_def)
qed

text \<open>
  C6: a process that creates a queue undisturbed gets a well-formed, empty queue with the
  requested (or default) attributes under the new name, when the file size fits in a \<open>long\<close> and
  the number of messages is at most \<open>2 ^ 31\<close>; the user-execute bit that marks an
  unfinished file is off, the file has exactly the size the slots need, no other name and no
  other file has changed, and the returned descriptor carries the non-blocking flag asked for.
\<close>

theorem mymq_open_creates:
  assumes "quiet os" and "layout_ok L" and "attr_ok L (attr_or_default attr)"
    and "has_flag oflag O_CREAT" and "d_dir (w_disk w) path = None"
  shows "\<exists>w' i. mymq_open (Suc fuel) os L path oflag mode attr w =
       Some (w', Inr (i, \<lparr>mqi_magic = MQI_MAGIC, mqi_flags = oflag AND O_NONBLOCK\<rparr>)) \<and>
     d_dir (w_disk w') = (d_dir (w_disk w))(path \<mapsto> i) \<and>
     (\<forall>j. j \<noteq> i \<longrightarrow> d_ino (w_disk w') j = d_ino (w_disk w) j) \<and>
     i_mode (d_ino (w_disk w') i) = mode AND NOT S_IXUSR \<and>
     i_size (d_ino (w_disk w') i) = sizeof_mq_hdr L +
       mq_maxmsg (attr_or_default attr) * mq_slotsize L (attr_or_default attr) \<and>
     mq_ok (i_data (d_ino (w_disk w') i)) \<and>
     mq_contents (i_data (d_ino (w_disk w') i)) = [] \<and>
     mqh_attr (q_hdr (i_data (d_ino (w_disk w') i))) =
       (attr_or_default attr)\<lparr>mq_flags := 0, mq_curmsgs := 0\<rparr>"
proof -
  let ?a = "attr_or_default attr"
  have init: "mq_ok (mq_fresh L ?a blank_mq)" "mq_contents (mq_fresh L ?a blank_mq) = []"
    using mq_fresh_ok [OF assms(2,3), of blank_mq] by (simp_all add: blank_mq_def)
  have hdr: "mqh_attr (q_hdr (mq_fresh L ?a blank_mq)) = ?a\<lparr>mq_flags := 0, mq_curmsgs := 0\<rparr>"
    by (simp add: mq_fresh_def)
  from mymq_open_create_disk [OF assms(1,2,3,4,5), of fuel mode] show ?thesis
    by (elim exE) (rule exI, rule exI, use init hdr attr_ok_sizes(3) [OF assms(2,3)] in force)
qed

theorem mymq_open_creates_witness:
  "\<exists>w' i. mymq_open 1 ex_quiet ex_layout ''/q'' (O_CREAT OR O_NONBLOCK) 384 (Some ex_attr) ex_world =
       Some (w', Inr (i, \<lparr>mqi_magic = MQI_MAGIC, mqi_flags = O_NONBLOCK\<rparr>)) \<and>
     i_size (d_ino (w_disk w') i) = 256 \<and> mq_ok (i_data (d_ino (w_disk w') i))"
proof -
  have flags: "has_flag (O_CREAT OR O_NONBLOCK) O_CREAT" "(O_CREAT OR O_NONBLOCK) AND O_NONBLOCK = O_NONBLOCK"
    by (simp_all add: has_flag_def flag_defs)
  have sz: "mq_slotsize ex_layout ex_attr = 40"
    using attr_ok_sizes(2) [OF ex_layout_ok ex_attr_ok] by (simp add: ex_layout_def ex_attr_def MSGSIZE_def)
  have a: "attr_ok ex_layout (attr_or_default (Some ex_attr))" "d_dir (w_disk ex_world) ''/q'' = None"
    by (simp_all add: attr_or_default_def ex_world_def ex_disk_def)
  have "\<exists>w' i. mymq_open (Suc 0) ex_quiet ex_layout ''/q'' (O_CREAT OR O_NONBLOCK) 384 (Some ex_attr) ex_world =
       Some (w', Inr (i, \<lparr>mqi_magic = MQI_MAGIC, mqi_flags = O_NONBLOCK\<rparr>)) \<and>
     i_size (d_ino (w_disk w') i) = sizeof_mq_hdr ex_layout + mq_maxmsg ex_attr * mq_slotsize ex_layout ex_attr \<and>
     mq_ok (i_data (d_ino (w_disk w') i))"
    using mymq_open_creates [OF ex_quiet_quiet ex_layout_ok a(1) flags(1) a(2), of 0 384] flags(2)
    by (simp add: attr_or_default_def) blast
  then show ?thesis
    by (simp add: sz) (simp add: ex_attr_def ex_layout_def)
qed

text \<open>
  opening a name without creating it.  An absent name gives \<open>ENOENT\<close>; with
  \<open>O_CREAT | O_EXCL\<close> an existing name gives \<open>EEXIST\<close>; a file whose creator never finishes
  gives \<open>ETIMEDOUT\<close> after \<open>MAX_TRIES\<close> looks; otherwise the existing file is mapped.  In all
  four cases the file system is unchanged.
\<close>

theorem mymq_open_existing:
  assumes q: "quiet os" and "d_dir (w_disk w) path = None \<longrightarrow> \<not> has_flag oflag O_CREAT"
  shows "\<exists>w'. mymq_open (Suc fuel) os L path oflag mode attr w = Some (w',
      case d_dir (w_disk w) path of
        None \<Rightarrow> Inl ENOENT
      | Some i \<Rightarrow>
          if has_flag oflag O_CREAT \<and> has_flag oflag O_EXCL then Inl EEXIST
          else if has_flag (i_mode (d_ino (w_disk w) i)) S_IXUSR then Inl ETIMEDOUT
          else Inr (i, \<lparr>mqi_magic = MQI_MAGIC, mqi_flags = oflag AND O_NONBLOCK\<rparr>)) \<and>
    w_disk w' = w_disk w"
proof (cases "d_dir (w_disk w) path")
  case None
  with assms have c: "\<not> has_flag oflag O_CREAT" by simp
  have "sys_open os path w = (tick os w, Inl ENOENT)"
    using q None by (simp add: sys_open_def syscall_quiet)
  then show ?thesis
    using None c q by (simp add: mymq_open_def mq_open_exists_def Let_def mq_open_err_def)
next
  case (Some i)
  have c: "sys_creat os blank_mq path (mode AND NOT S_IXUSR OR S_IXUSR) w = (tick os w, Inl EEXIST)"
    using q Some by (simp add: sys_creat_def syscall_quiet)
  have e: "\<exists>w'. mq_open_exists again os path oflag' nonblock w0 = Some (w',
      if has_flag (i_mode (d_ino (w_disk w) i)) S_IXUSR then Inl ETIMEDOUT
      else Inr (i, \<lparr>mqi_magic = MQI_MAGIC, mqi_flags = nonblock\<rparr>)) \<and> w_disk w' = w_disk w"
    if "w_disk w0 = w_disk w" for again oflag' nonblock w0
    using mq_open_exists_quiet [OF q, of w0 path i] that Some by simp
  show ?thesis
    using Some c e [of w] e [of "tick os w"] q by (auto simp: mymq_open_def Let_def)
qed

theorem mymq_open_existing_witness:
  "\<exists>w'. mymq_open 1 ex_quiet ex_layout ''/q'' 0 0 None
      (ex_world\<lparr>w_disk := ex_disk\<lparr>d_dir := [''/q'' \<mapsto> 0], d_ino := (d_ino ex_disk)(0 :=
        \<lparr>i_mode = S_IXUSR, i_size = 0, i_data = blank_mq\<rparr>)\<rparr>\<rparr>) = Some (w', Inl ETIMEDOUT)"
proof -
  let ?w = "ex_world\<lparr>w_disk := ex_disk\<lparr>d_dir := [''/q'' \<mapsto> 0], d_ino := (d_ino ex_disk)(0 :=
        \<lparr>i_mode = S_IXUSR, i_size = 0, i_data = blank_mq\<rparr>)\<rparr>\<rparr>"
  have "d_dir (w_disk ?w) ''/q'' = None \<longrightarrow> \<not> has_flag 0 O_CREAT"
    by (simp add: has_flag_def)
  from mymq_open_existing [OF ex_quiet_quiet this, of 0 ex_layout 0 None] show ?thesis
    by (auto simp: has_flag_def S_IXUSR_def)
qed



text \<open>
  C8: mymq_open returns.  Once other processes stop removing the name, from their call \<open>T\<close>
  on, it is retried at most \<open>T\<close> times more: every jump back to \<open>again\<close> is caused by a removal.
  The attributes are such that it refuses them, or that their file size fits in a \<open>long\<close> and
  there are at most \<open>2 ^ 31\<close> messages; no call fails with an error that it cannot give.
\<close>

theorem mymq_open_returns:
  assumes "name_stays os path T" and "honest_errors os" and "layout_ok L" and "attr_fits L attr" and "T \<le> w_time w + fuel"
  shows "\<exists>res. mymq_open (Suc fuel) os L path oflag mode attr w = Some res"
  unfolding mymq_open_def by (rule mq_open_again_returns [OF assms])

theorem mymq_open_returns_witness:
  "\<exists>res. mymq_open 3 \<lparr>os_env = (\<lambda>n d. if n < 2 then d\<lparr>d_dir := Map.empty\<rparr> else d),
       os_fault = (\<lambda>_. None)\<rparr> ex_layout ''/q'' O_CREAT 0 None ex_world = Some res"
proof -
  let ?os = "\<lparr>os_env = (\<lambda>n d. if n < 2 then d\<lparr>d_dir := Map.empty\<rparr> else d), os_fault = (\<lambda>_. None)\<rparr>"
  have a: "name_stays ?os ''/q'' 2" "honest_errors ?os" "attr_fits ex_layout None" "2 \<le> w_time ex_world + 2"
    by (simp_all add: name_stays_def honest_errors_def ex_world_def attr_fits_def attr_or_default_def)
  from mymq_open_returns [OF a(1,2) ex_layout_ok a(3,4)] show ?thesis
    by (simp add: numeral_3_eq_3 numeral_2_eq_2)
qed

text \<open>
  the slots that mymq_open lays out are as many as \<open>mq_maxmsg\<close>, lie behind the header and
  inside the file, have room for a message of \<open>mq_msgsize\<close> bytes, and do not overlap.
\<close>

theorem mymq_open_slots_in_file:
  assumes L: "layout_ok L" and a: "attr_ok L attr" and b: "q_msgs q = Map.empty"
    and q': "mq_init L attr (mq_filesize L attr) q = Some q'"
  shows "card (dom (q_msgs q')) = nat (mq_maxmsg attr) \<and>
    (\<forall>i \<in> dom (q_msgs q').
      sizeof_mq_hdr L \<le> i \<and> i + sizeof_msg_hdr L + mq_msgsize attr \<le> mq_filesize L attr \<and>
      (\<forall>j \<in> dom (q_msgs q'). i < j \<longrightarrow> i + sizeof_msg_hdr L + mq_msgsize attr \<le> j))"
proof -
  have q': "q' = mq_fresh L attr q" using q' mq_init_fresh [OF L a, of q] by simp
  let ?n = "nat (mq_maxmsg attr - 1)" and ?s = "mq_slotsize L attr" and ?h = "sizeof_mq_hdr L"
  note sz = attr_ok_sizes [OF L a]
  have pos: "0 < mq_maxmsg attr" using a by (simp add: attr_ok_def)
  have dom: "dom (q_msgs q') = set (slot_offsets ?s ?n ?h)"
    using b by (simp add: q' mq_fresh_def linked_slots_dom)
  then have card: "card (dom (q_msgs q')) = nat (mq_maxmsg attr)"
    using distinct_card [OF slot_offsets_distinct [OF sz(5)]] pos by simp
  have room: "sizeof_msg_hdr L + mq_msgsize attr \<le> ?s"
    using sz(2,4) by simp
  have inside: "?h \<le> i \<and> i + ?s \<le> mq_filesize L attr" if "i \<in> set (slot_offsets ?s ?n ?h)" for i
    using slot_offsets_bounds [OF sz(5) that] pos sz(3) by simp
  have apart: "i + ?s \<le> j"
    if "i \<in> set (slot_offsets ?s ?n ?h)" "j \<in> set (slot_offsets ?s ?n ?h)" "i < j" for i j
    using slot_offsets_apart [OF sz(5) that] .
  have "\<forall>i \<in> dom (q_msgs q').
      ?h \<le> i \<and> i + sizeof_msg_hdr L + mq_msgsize attr \<le> mq_filesize L attr \<and>
      (\<forall>j \<in> dom (q_msgs q'). i < j \<longrightarrow> i + sizeof_msg_hdr L + mq_msgsize attr \<le> j)"
    unfolding dom using room inside apart by fastforce
  with card show ?thesis ..
qed

theorem mymq_open_slots_in_file_witness:
  "\<exists>q'. mq_init ex_layout ex_attr (mq_filesize ex_layout ex_attr) blank_mq = Some q' \<and> card (dom (q_msgs q')) = 3"
  using mymq_open_slots_in_file [OF ex_layout_ok ex_attr_ok _ mq_init_fresh [OF ex_layout_ok ex_attr_ok, of blank_mq]]
    mq_init_fresh [OF ex_layout_ok ex_attr_ok, of blank_mq]
  by (simp add: ex_attr_def blank_mq_def)

text \<open>
  Nor does it compare the number of messages with what its \<open>int\<close> counter can hold: with more
  than \<open>2 ^ 31\<close> messages the initialisation has no defined behaviour.
\<close>

theorem mymq_open_counter_overflow:
  assumes "2 ^ 31 < mq_maxmsg attr"
  shows "mq_init L attr filesize q = None"
  using mq_init_free_overflow [OF _ assms] by (simp add: mq_init_def INT_MAX_def)

text \<open>
  mymq_open does not check the product that gives the file size.  There are attributes
  that pass its checks and for which the computed size wraps around: the file ends before
  the first slot that the initialisation then writes to.
\<close>

theorem mymq_open_filesize_wraps:
  "\<exists>attr. 0 < mq_maxmsg attr \<and> 0 < mq_msgsize attr \<and> mq_maxmsg attr < 2 ^ 63 \<and>
     mq_msgsize attr < 2 ^ 63 \<and>
     mq_filesize ex_layout attr < sizeof_mq_hdr ex_layout + mq_slotsize ex_layout attr"
  by (rule exI [of _ "\<lparr>mq_flags = 0, mq_maxmsg = 2 ^ 59, mq_msgsize = 8, mq_curmsgs = 0\<rparr>"])
    (simp add: mq_filesize_def mq_slotsize_def to_long_def MSGSIZE_def ex_layout_def)

text \<open>
  when \<open>malloc\<close> fails after the existing file has been mapped, the error path closes the
  descriptor a second time (it was closed right after \<open>mmap\<close>).
\<close>

theorem mymq_open_double_close:
  assumes "alone os" and "\<not> has_flag oflag O_CREAT" and "fds_ok (w_fds w)"
    and "d_dir (w_disk w) path = Some i" and "\<not> has_flag (i_mode (d_ino (w_disk w) i)) S_IXUSR"
    and "\<forall>k < 3. os_fault os (w_time w + k) = None" and "os_fault os (w_time w + 3) = Some e"
  shows "\<exists>w'. mymq_open (Suc fuel) os L path oflag mode attr w = Some (w', Inl e) \<and>
    w_badclose w' = Suc (w_badclose w)"
proof -
  have f: "os_fault os (w_time w) = None" "os_fault os (Suc (w_time w)) = None"
      "os_fault os (Suc (Suc (w_time w))) = None" "os_fault os (Suc (Suc (Suc (w_time w)))) = Some e"
    using assms(6) [rule_format, of 0] assms(6) [rule_format, of 1] assms(6) [rule_format, of 2] assms(7)
    by (simp_all add: numeral_3_eq_3 numeral_2_eq_2)
  have n: "new_fd w \<notin> fst ` set (w_fds w)"
    using assms(3) by (auto simp: fds_ok_def new_fd_def)
  have o: "sys_open os path w = (add_fd i (tick os w), Inr (new_fd w))"
    using assms(1,4) f by (simp add: sys_open_def syscall_def)
  have "mq_wait_init os path oflag' MAX_TRIES (add_fd i (tick os w)) =
      (tick os (add_fd i (tick os w)), WaitDone (i_size (d_ino (w_disk w) i)))" for oflag'
    using assms(1,4,5) f by (simp add: MAX_TRIES_def numeral_eq_Suc sys_stat_def syscall_def)
  with o show ?thesis
    using assms(1,2) f n
    by (auto simp: mymq_open_def Let_def mq_open_exists_def mq_open_map_def mq_open_err_def sys_mmap_def
        sys_malloc_def syscall_def with_fd_def fd_ino_def sys_close_def)
qed

theorem mymq_open_double_close_witness:
  "\<exists>w'. mymq_open 1 (ex_faulty 3) ex_layout ''/q'' 0 0 None
      (ex_world\<lparr>w_disk := ex_disk\<lparr>d_dir := [''/q'' \<mapsto> 0]\<rparr>\<rparr>) = Some (w', Inl ENOMEM) \<and> w_badclose w' = 1"
proof -
  let ?w = "ex_world\<lparr>w_disk := ex_disk\<lparr>d_dir := [''/q'' \<mapsto> 0]\<rparr>\<rparr>"
  have "\<not> has_flag 0 O_CREAT" "fds_ok (w_fds ?w)" "d_dir (w_disk ?w) ''/q'' = Some 0"
      "\<not> has_flag (i_mode (d_ino (w_disk ?w) 0)) S_IXUSR"
      "\<forall>k < 3. os_fault (ex_faulty 3) (w_time ?w + k) = None" "os_fault (ex_faulty 3) (w_time ?w + 3) = Some ENOMEM"
    by (simp_all add: has_flag_def fds_ok_def ex_world_def ex_disk_def ex_faulty_def)
  from mymq_open_double_close [OF ex_faulty_alone this, of 0 ex_layout 0 None] show ?thesis
    by (simp add: ex_world_def)
qed

end
