(* ===== verification/Mqueue_Props.thy ===== *)
theory Mqueue_Props
  imports Mqueue_Conc Mq_open_Props
begin

text \<open>
  The properties of the message queue operations, called one after the other and by many
  threads at once.
\<close>

section \<open>A concrete queue\<close>

text \<open>The queue that mymq_open creates for the attributes of the previous theory.\<close>

definition ex_q :: mymq where "ex_q = mq_fresh ex_layout ex_attr blank_mq"

definition ex_info :: mymq_info where "ex_info = \<lparr>mqi_magic = MQI_MAGIC, mqi_flags = 0\<rparr>"

lemma ex_q_ok [simp]: "mq_ok ex_q" "mq_contents ex_q = []"
  using mq_fresh_ok [OF ex_layout_ok ex_attr_ok, of blank_mq] by (simp_all add: ex_q_def blank_mq_def)

lemma ex_q_attr [simp]: "maxmsg ex_q = 3" "msgsize ex_q = 10" "curmsgs ex_q = 0" "nwait ex_q = 0"
  by (simp_all add: ex_q_def mq_fresh_def ex_attr_def)

lemma ex_q_pid: "mqh_pid (q_hdr ex_q) = 0"
  by (simp add: ex_q_def mq_fresh_def)

lemma ex_info_sel [simp]: "mqi_magic ex_info = MQI_MAGIC" "mqi_flags ex_info = 0"
  by (simp_all add: ex_info_def)

section \<open>One call at a time\<close>

lemma mymq_send_room:
  assumes "mq_ok q" and "mqi_magic mqinfo = MQI_MAGIC" and "int (length ptr) \<le> msgsize q"
    and "curmsgs q < maxmsg q"
  shows "\<exists>q'. mymq_send mqinfo ptr prio None q = Finish q' (if curmsgs q = 0 then [Signal ()] else []) MqSent \<and>
    mq_ok q' \<and> mq_contents q' = pq_insert (prio, ptr) (mq_contents q) \<and>
    curmsgs q' = curmsgs q + 1 \<and>
    mq_frame q' = mq_frame (if curmsgs q = 0 then mq_notify_arrival q else q)"
proof -
  define q0 where "q0 = (if curmsgs q = 0 then mq_notify_arrival q else q)"
  have q0: "mq_ok q0" "q_attr q0 = q_attr q" "mq_contents q0 = mq_contents q"
    using assms by (auto simp: q0_def)
  have "mymq_send mqinfo ptr prio None q = mymq_send_put ptr prio q0"
    using assms usize_msgsize [OF assms(1)] by (auto simp: mymq_send_def q0_def)
  with mymq_send_put_correct [OF q0(1), of ptr prio] q0 assms show ?thesis
    by (auto simp: q0_def)
qed

lemma mymq_receive_message:
  assumes "mq_ok q" and "mqi_magic mqinfo = MQI_MAGIC" and "msgsize q \<le> int maxlen"
    and "mq_contents q = x # xs"
  shows "\<exists>q'. mymq_receive mqinfo maxlen want None q =
      Finish q' (if curmsgs q = maxmsg q then [Signal ()] else []) (received want x) \<and>
    mq_ok q' \<and> mq_contents q' = xs \<and> curmsgs q' = curmsgs q - 1 \<and> mq_frame q' = mq_frame q \<and>
    int (length (snd x)) \<le> msgsize q"
proof -
  have "mymq_receive mqinfo maxlen want None q = mymq_receive_take want q"
    using assms usize_msgsize [OF assms(1)] mq_ok_bounds [OF assms(1)] by (auto simp: mymq_receive_def)
  with mymq_receive_take_correct [OF assms(1,4), of want] show ?thesis by auto
qed

text \<open>
  C2: mymq_send refines insertion into a priority list, on every branch.  A bad descriptor, a
  failing lock, a message that is too long and a full non-blocking queue return their error
  and leave the queue as it was; a full blocking queue makes the caller wait; otherwise the
  message is inserted behind all messages of at least its priority, the receivers are
  signalled exactly when the queue was empty, and the file stays well formed.
\<close>

theorem mymq_send_refines:
  assumes "mq_ok q"
  shows "if mqi_magic mqinfo \<noteq> MQI_MAGIC then mymq_send mqinfo ptr prio lock q = Finish q [] (MqErr EBADF)
    else case lock of
      Some e \<Rightarrow> mymq_send mqinfo ptr prio lock q = Finish q [] (MqErr e)
    | None \<Rightarrow>
        if msgsize q < int (length ptr) then mymq_send mqinfo ptr prio lock q = Finish q [] (MqErr EMSGSIZE)
        else if length (mq_contents q) = nat (maxmsg q) then
          mymq_send mqinfo ptr prio lock q =
            (if has_flag (mqi_flags mqinfo) O_NONBLOCK then Finish q [] (MqErr EAGAIN) else Sleep q ())
        else \<exists>q'. mymq_send mqinfo ptr prio lock q =
               Finish q' (if mq_contents q = [] then [Signal ()] else []) MqSent \<and>
             mq_ok q' \<and> mq_contents q' = pq_insert (prio, ptr) (mq_contents q) \<and>
             mq_frame q' = mq_frame (if mq_contents q = [] then mq_notify_arrival q else q)"
proof (cases "mqi_magic mqinfo = MQI_MAGIC \<and> lock = None \<and> int (length ptr) \<le> msgsize q \<and> curmsgs q < maxmsg q")
  case True
  have "curmsgs q = 0 \<longleftrightarrow> mq_contents q = []" "length (mq_contents q) \<noteq> nat (maxmsg q)"
    using True mq_ok_bounds [OF assms] by (auto split: if_splits)
  then show ?thesis
    using True mymq_send_room [OF assms, of mqinfo ptr prio] by auto
next
  case False
  then show ?thesis
    using usize_msgsize [OF assms] mq_ok_bounds [OF assms]
    by (auto simp: mymq_send_def split: option.splits)
qed

theorem mymq_send_refines_witness:
  "\<exists>q'. mymq_send ex_info [1, 2] 5 None ex_q = Finish q' [Signal ()] MqSent \<and> mq_contents q' = [(5, [1, 2])]"
  using mymq_send_refines [OF ex_q_ok(1), of ex_info "[1, 2]" 5 None] by auto

text \<open>
  C3: mymq_receive returns and removes the first message of the priority list, on every
  branch: errors leave the queue as it was, an empty blocking queue makes the caller wait
  and counts it in \<open>mqh_nwait\<close>, and senders are signalled exactly when the queue was full.
\<close>

theorem mymq_receive_refines:
  assumes "mq_ok q"
  shows "if mqi_magic mqinfo \<noteq> MQI_MAGIC then mymq_receive mqinfo maxlen want lock q = Finish q [] (MqErr EBADF)
    else case lock of
      Some e \<Rightarrow> mymq_receive mqinfo maxlen want lock q = Finish q [] (MqErr e)
    | None \<Rightarrow>
        if int maxlen < msgsize q then mymq_receive mqinfo maxlen want lock q = Finish q [] (MqErr EMSGSIZE)
        else case mq_contents q of
          [] \<Rightarrow> mymq_receive mqinfo maxlen want lock q =
            (if has_flag (mqi_flags mqinfo) O_NONBLOCK then Finish q [] (MqErr EAGAIN)
             else Sleep (set_nwait (nwait q + 1) q) ())
        | (p, bs) # ms \<Rightarrow> \<exists>q'. mymq_receive mqinfo maxlen want lock q =
               Finish q' (if length (mq_contents q) = nat (maxmsg q) then [Signal ()] else [])
                 (MqReceived bs (if want then Some p else None)) \<and>
             length bs \<le> maxlen \<and> mq_ok q' \<and> mq_contents q' = ms \<and> mq_frame q' = mq_frame q"
proof (cases "mqi_magic mqinfo = MQI_MAGIC \<and> lock = None \<and> msgsize q \<le> int maxlen \<and> curmsgs q \<noteq> 0")
  case True
  then obtain p bs ms where c: "mq_contents q = (p, bs) # ms"
    using mq_ok_bounds [OF assms] by (cases "mq_contents q") auto
  have "curmsgs q = maxmsg q \<longleftrightarrow> length (mq_contents q) = nat (maxmsg q)"
    using mq_ok_bounds [OF assms] by auto
  then show ?thesis
    using True c mymq_receive_message [OF assms _ _ c, of mqinfo maxlen want] by (auto simp: received_def)
next
  case False
  then show ?thesis
    using usize_msgsize [OF assms] mq_ok_bounds [OF assms]
    by (auto simp: mymq_receive_def split: option.splits)
qed

theorem mymq_receive_refines_witness:
  "mymq_receive ex_info 10 True None ex_q = Sleep (set_nwait 1 ex_q) ()"
  using mymq_receive_refines [OF ex_q_ok(1), of ex_info 10 True None]
  by (simp add: has_flag_def)

section \<open>Batches\<close>

text \<open>Successive successful calls through one descriptor, as operations of the interface.\<close>

definition mq_send1 :: "cint \<Rightarrow> byte list \<Rightarrow> prio \<Rightarrow> mymq \<Rightarrow> mymq option" where
  "mq_send1 flags ptr prio q =
     (case mymq_send \<lparr>mqi_magic = MQI_MAGIC, mqi_flags = flags\<rparr> ptr prio None q of
        Finish q' ws MqSent \<Rightarrow> Some q' | _ \<Rightarrow> None)"

definition mq_receive1 :: "cint \<Rightarrow> mymq \<Rightarrow> (mymq \<times> prio \<times> byte list) option" where
  "mq_receive1 flags q =
     (case mymq_receive \<lparr>mqi_magic = MQI_MAGIC, mqi_flags = flags\<rparr> (nat (msgsize q)) True None q of
        Finish q' ws (MqReceived bs (Some p)) \<Rightarrow> Some (q', p, bs) | _ \<Rightarrow> None)"

fun mq_send_batch :: "cint \<Rightarrow> (prio \<times> byte list) list \<Rightarrow> mymq \<Rightarrow> mymq option" where
  "mq_send_batch flags [] q = Some q"
| "mq_send_batch flags (x # xs) q =
     Option.bind (mq_send1 flags (snd x) (fst x) q) (mq_send_batch flags xs)"

fun mq_receive_batch :: "cint \<Rightarrow> nat \<Rightarrow> mymq \<Rightarrow> (mymq \<times> (prio \<times> byte list) list) option" where
  "mq_receive_batch flags 0 q = Some (q, [])"
| "mq_receive_batch flags (Suc n) q =
     (case mq_receive1 flags q of None \<Rightarrow> None
      | Some (q', x) \<Rightarrow> map_option (map_prod id ((#) x)) (mq_receive_batch flags n q'))"

lemma mq_send1_spec:
  assumes "mq_ok q" "curmsgs q < maxmsg q" "int (length ptr) \<le> msgsize q"
  shows "\<exists>q'. mq_send1 flags ptr prio q = Some q' \<and> mq_ok q' \<and>
    mq_contents q' = pq_insert (prio, ptr) (mq_contents q) \<and> maxmsg q' = maxmsg q \<and> msgsize q' = msgsize q"
  using mymq_send_room [OF assms(1) _ assms(3,2), of "\<lparr>mqi_magic = MQI_MAGIC, mqi_flags = flags\<rparr>" prio]
  by (auto simp: mq_send1_def mq_frame_def split: if_splits)

lemma mq_receive1_spec:
  assumes "mq_ok q" "mq_contents q = x # xs"
  shows "\<exists>q'. mq_receive1 flags q = Some (q', x) \<and> mq_ok q' \<and> mq_contents q' = xs \<and>
    maxmsg q' = maxmsg q \<and> msgsize q' = msgsize q"
proof -
  have "msgsize q \<le> int (nat (msgsize q))" by simp
  from mymq_receive_message [OF assms(1) _ this assms(2),
      of "\<lparr>mqi_magic = MQI_MAGIC, mqi_flags = flags\<rparr>" True] show ?thesis
    by (auto simp: mq_receive1_def received_def mq_frame_def)
qed

interpretation mq_calls: message_queue mq_ok mq_contents "\<lambda>q. nat (maxmsg q)" mq_fits "mq_send1 flags" "mq_receive1 flags"
  for flags
proof unfold_locales
  fix q m p
  assume a: "mq_ok q" "length (mq_contents q) < nat (maxmsg q)" "mq_fits q m"
  then have "curmsgs q < maxmsg q"
    using mq_ok_bounds [OF a(1)] by simp
  with mq_send1_spec [OF a(1) this, of m flags p] a(3)
  show "\<exists>q'. mq_send1 flags m p q = Some q' \<and> mq_ok q' \<and> mq_contents q' = pq_insert (p, m) (mq_contents q) \<and>
      nat (maxmsg q') = nat (maxmsg q) \<and> mq_fits q' = mq_fits q"
    by (auto simp: mq_fits_def fun_eq_iff)
next
  fix q x xs
  assume "mq_ok q" "mq_contents q = x # xs"
  from mq_receive1_spec [OF this, of flags]
  show "\<exists>q'. mq_receive1 flags q = Some (q', x) \<and> mq_ok q' \<and> mq_contents q' = xs \<and>
      nat (maxmsg q') = nat (maxmsg q) \<and> mq_fits q' = mq_fits q"
    by (auto simp: mq_fits_def fun_eq_iff)
qed (use mq_ok_bounds in force)+

lemma mq_send_batch_put_all: "mq_send_batch flags ms q = mq_calls.put_all flags ms q"
  by (induction ms arbitrary: q) (auto split: bind_splits)

lemma mq_receive_batch_get_all: "mq_receive_batch flags n q = mq_calls.get_all flags n q"
  by (induction n arbitrary: q) (auto split: option.splits)

text \<open>
  C4: messages are delivered completely and in order.  Sending a batch that fits into an empty
  queue and receiving as many messages returns exactly the batch, the highest priority first
  and messages of equal priority in the order they were sent, and leaves the queue empty.
\<close>

theorem mymq_batch_delivery:
  assumes "mq_ok q" and "mq_contents q = []" and "length ms \<le> nat (maxmsg q)"
    and "\<forall>m \<in> set ms. int (length (snd m)) \<le> msgsize q"
  shows "\<exists>q1 q2 out. mq_send_batch flags ms q = Some q1 \<and>
      mq_receive_batch flags (length ms) q1 = Some (q2, out) \<and>
      mset out = mset ms \<and> sorted_wrt (\<lambda>x y. fst x \<ge> fst y) out \<and>
      (\<forall>p. filter (\<lambda>m. fst m = p) out = filter (\<lambda>m. fst m = p) ms) \<and>
      mq_ok q2 \<and> mq_contents q2 = []"
proof -
  have "\<forall>m \<in> set ms. mq_fits q (snd m)"
    using assms(4) by (simp add: mq_fits_def)
  from mq_calls.put_all_get_all [OF assms(1-3) this, of flags] show ?thesis
    using delivery_order_props [where ms = ms]
    by (auto simp: mq_send_batch_put_all mq_receive_batch_get_all pq_sorted_def)
qed

theorem mymq_batch_delivery_witness:
  "\<exists>q1 q2 out. mq_send_batch 0 [(1, [65]), (7, [66]), (1, [67])] ex_q = Some q1 \<and>
      mq_receive_batch 0 3 q1 = Some (q2, out) \<and> mset out = {#(1, [65]), (7, [66]), (1, [67])#} \<and>
      filter (\<lambda>m. fst m = 1) out = [(1, [65]), (1, [67])]"
proof -
  have "\<forall>m \<in> set [(1, [65]), (7, [66]), (1, [67])]. int (length (snd m)) \<le> msgsize ex_q"
    by simp
  then obtain q1 q2 out where b: "mq_send_batch 0 [(1, [65]), (7, [66]), (1, [67])] ex_q = Some q1"
      "mq_receive_batch 0 3 q1 = Some (q2, out)" "mset out = mset [(1, [65]), (7, [66]), (1, [67])]"
      "\<forall>p. filter (\<lambda>m. fst m = p) out = filter (\<lambda>m. fst m = p) [(1, [65]), (7, [66]), (1, [67])]"
    using mymq_batch_delivery [OF ex_q_ok, of "[(1, [65]), (7, [66]), (1, [67])]" 0]
    by (auto simp: numeral_3_eq_3)
  then have "filter (\<lambda>m. fst m = 1) out = [(1, [65]), (1, [67])]"
    by simp
  with b(1-3) show ?thesis by auto
qed

section \<open>Many threads\<close>

definition mq_start :: "mymq \<Rightarrow> nat \<Rightarrow> (mymq, mq_op, unit, mq_client) mon" where
  "mq_start q n = \<lparr>m_data = q, m_thr = replicate n \<lparr>th_pc = Outside, th_cli = ([], [])\<rparr>\<rparr>"

lemma mq_start_inv: "mq_ok q \<Longrightarrow> nwait q = 0 \<Longrightarrow>
    mq_inv (in_queue q) (m_data (mq_start q n)) (map view (m_thr (mq_start q n)))"
proof -
  assume a: "mq_ok q" "nwait q = 0"
  have "cnt is_receive (replicate n (None, [], [])) = 0" "list_all (pending_ok (msgsize q)) (replicate n (None, [], []))"
    by (auto simp: cnt_zero_iff list_all_length)
  moreover have "sum_list (replicate n {#}) = {#}"
    by (induction n) auto
  ultimately show ?thesis
    using a by (simp add: mq_start_def mq_inv_def map_replicate_const sent_by_def got_by_def)
qed

definition thread_sent :: "(mq_op, unit, mq_client) thread \<Rightarrow> byte list multiset" where
  "thread_sent t = mset (fst (th_cli t))"

definition thread_got :: "(mq_op, unit, mq_client) thread \<Rightarrow> byte list multiset" where
  "thread_got t = mset (snd (th_cli t))"

text \<open>
  C1: no message is lost, duplicated or invented, however the threads interleave and whichever
  locks fail: in every reachable state the file is well formed, what was in the queue at
  the start together with everything the threads have sent is what they have received
  together with what is queued, and \<open>mqh_nwait\<close> is the number of threads inside a receive.
\<close>

theorem mymq_threads_conserve_messages:
  assumes "mq_ok q" and "nwait q = 0" and "mreach mq_code UNIV (mq_start q n) t"
  shows "mq_ok (m_data t) \<and>
    in_queue q + (\<Sum>th \<leftarrow> m_thr t. thread_sent th) = (\<Sum>th \<leftarrow> m_thr t. thread_got th) + in_queue (m_data t) \<and>
    nwait (m_data t) = cnt (is_receive \<circ> view) (m_thr t)"
  using mqm.reach_inv [OF assms(3) mq_start_inv [OF assms(1,2)]]
  by (simp add: mq_inv_def cnt_map sent_by_def [abs_def] got_by_def [abs_def] thread_sent_def [abs_def]
      thread_got_def [abs_def] view_def comp_def)

text \<open>
  the process never crashes and is never stuck: in every reachable state every operation
  that an idle thread may start, and every operation that has been woken, runs its next
  segment to the end without leaving the mapped file.
\<close>

theorem mymq_threads_progress:
  assumes "mq_ok q" and "nwait q = 0" and "mreach mq_code UNIV (mq_start q n) t"
    and "i < length (m_thr t)"
  shows "(th_pc (m_thr t ! i) = Outside \<longrightarrow>
      mq_enter op st (m_data t) \<noteq> Crash \<and> (\<exists>u. mstep mq_code UNIV t u)) \<and>
    (th_pc (m_thr t ! i) = Woken op \<longrightarrow>
      mq_resume op st (m_data t) \<noteq> Crash \<and> (\<exists>u. mstep mq_code UNIV t u))"
  using mqm.reach_call_progress [OF assms(3) mq_start_inv [OF assms(1,2)] assms(4), of op st]
    mqm.reach_resume_progress [OF assms(3) mq_start_inv [OF assms(1,2)] assms(4), of op st]
  by simp

text \<open>
  Two receivers block on the empty queue; a third thread sends twice, and the first receiver
  takes the first message.  Only the first send, to the empty queue, signals the condition
  variable.
\<close>

definition ex_receive :: mq_op where "ex_receive = Receive ex_info 10 True"
definition ex_send :: "byte \<Rightarrow> mq_op" where "ex_send b = Send ex_info [b] 0"

lemma mstep_call_finish:
  "\<lbrakk>i < length ts; th_pc (ts ! i) = Outside; enter mq_code op None d = Finish d' ws r;
    deliver ws (ts[i := \<lparr>th_pc = Outside, th_cli = mq_note (th_cli (ts ! i)) op r\<rparr>]) ts'\<rbrakk> \<Longrightarrow>
   mreach mq_code UNIV s \<lparr>m_data = d, m_thr = ts\<rparr> \<Longrightarrow> mreach mq_code UNIV s \<lparr>m_data = d', m_thr = ts'\<rparr>"
  by (erule reach_step, rule call_finish [of i _ _ op None]) auto

lemma mstep_call_sleep:
  "\<lbrakk>i < length ts; th_pc (ts ! i) = Outside; enter mq_code op None d = Sleep d' cv\<rbrakk> \<Longrightarrow>
   mreach mq_code UNIV s \<lparr>m_data = d, m_thr = ts\<rparr> \<Longrightarrow>
   mreach mq_code UNIV s \<lparr>m_data = d', m_thr = ts[i := (ts ! i)\<lparr>th_pc := Asleep op cv\<rparr>]\<rparr>"
  by (erule reach_step, rule call_sleep [of i _ _ op None]) auto

lemma mstep_resume_finish:
  "\<lbrakk>i < length ts; th_pc (ts ! i) = Woken op; resume mq_code op None d = Finish d' ws r;
    deliver ws (ts[i := \<lparr>th_pc = Outside, th_cli = mq_note (th_cli (ts ! i)) op r\<rparr>]) ts'\<rbrakk> \<Longrightarrow>
   mreach mq_code UNIV s \<lparr>m_data = d, m_thr = ts\<rparr> \<Longrightarrow> mreach mq_code UNIV s \<lparr>m_data = d', m_thr = ts'\<rparr>"
  by (erule reach_step, rule resume_finish [of i _ op None]) auto

lemma ex_two_receivers_asleep:
  "mreach mq_code UNIV (mq_start ex_q 3) \<lparr>m_data = set_nwait 2 (set_nwait 1 ex_q), m_thr =
     [\<lparr>th_pc = Asleep ex_receive (), th_cli = ([], [])\<rparr>, \<lparr>th_pc = Asleep ex_receive (), th_cli = ([], [])\<rparr>,
      \<lparr>th_pc = Outside, th_cli = ([], [])\<rparr>]\<rparr>"
proof -
  let ?o = "\<lparr>th_pc = Outside, th_cli = ([], [])\<rparr>" and ?a = "\<lparr>th_pc = Asleep ex_receive (), th_cli = ([], [])\<rparr>"
  have "usize 10 = 10" by (simp add: usize_def)
  then have e: "enter mq_code ex_receive None ex_q = Sleep (set_nwait 1 ex_q) ()"
      "enter mq_code ex_receive None (set_nwait 1 ex_q) = Sleep (set_nwait 2 (set_nwait 1 ex_q)) ()"
    by (simp_all add: ex_receive_def mymq_receive_def has_flag_def)
  have "mreach mq_code UNIV (mq_start ex_q 3) \<lparr>m_data = ex_q, m_thr = [?o, ?o, ?o]\<rparr>"
    using reach_start [of mq_code UNIV "mq_start ex_q 3"] by (simp add: mq_start_def numeral_3_eq_3)
  from mstep_call_sleep [OF _ _ e(1) this, of 0]
  have "mreach mq_code UNIV (mq_start ex_q 3) \<lparr>m_data = set_nwait 1 ex_q, m_thr = [?a, ?o, ?o]\<rparr>"
    by simp
  from mstep_call_sleep [OF _ _ e(2) this, of 1] show ?thesis by simp
qed

theorem mymq_threads_conserve_messages_witness:
  "in_queue ex_q + sum_list (map thread_sent
     [\<lparr>th_pc = Asleep ex_receive (), th_cli = ([], [])\<rparr>, \<lparr>th_pc = Asleep ex_receive (), th_cli = ([], [])\<rparr>,
      \<lparr>th_pc = Outside, th_cli = ([], [])\<rparr>]) = {#}"
  using mymq_threads_conserve_messages [OF ex_q_ok(1) ex_q_attr(4) ex_two_receivers_asleep]
  by (simp add: in_queue_def thread_sent_def)

theorem mymq_threads_progress_witness:
  "mq_enter (ex_send 1) None (set_nwait 2 (set_nwait 1 ex_q)) \<noteq> Crash"
  using mymq_threads_progress [OF ex_q_ok(1) ex_q_attr(4) ex_two_receivers_asleep, of 2 "ex_send 1" None]
  by simp

text \<open>
  a wake-up can be lost.  Because mymq_send signals only when the queue was empty, a state
  is reachable in which a receiver sleeps in \<open>pthread_cond_wait\<close> although a message is queued
  and no thread has been woken to take it.
\<close>

theorem mymq_lost_wakeup:
  "\<exists>t. mreach mq_code UNIV (mq_start ex_q 3) t \<and> length (mq_contents (m_data t)) = 1 \<and>
     th_pc (m_thr t ! 1) = Asleep ex_receive () \<and> \<not> list_ex is_woken (m_thr t)"
proof -
  let ?a = "\<lparr>th_pc = Asleep ex_receive (), th_cli = ([], [])\<rparr>" and ?w = "\<lparr>th_pc = Woken ex_receive, th_cli = ([], [])\<rparr>"
  let ?c = "\<lambda>sent got. \<lparr>th_pc = Outside, th_cli = (sent, got)\<rparr>"
  define q0 where "q0 = set_nwait 2 (set_nwait 1 ex_q)"
  have q0: "mq_ok q0" "mq_contents q0 = []" "curmsgs q0 = 0" "maxmsg q0 = 3" "msgsize q0 = 10" "nwait q0 = 2"
    by (simp_all add: q0_def)
  obtain q1 where q1: "enter mq_code (ex_send 1) None q0 = Finish q1 [Signal ()] MqSent" "mq_ok q1"
      "mq_contents q1 = [(0, [1])]" "curmsgs q1 = 1" "mq_frame q1 = mq_frame (mq_notify_arrival q0)"
    using mymq_send_room [OF q0(1), of ex_info "[1]" 0] q0 by (auto simp: ex_send_def)
  then have f1: "maxmsg q1 = 3" "msgsize q1 = 10"
    using q0 by (auto simp: mq_frame_def)
  obtain q2 where q2: "enter mq_code (ex_send 2) None q1 = Finish q2 [] MqSent" "mq_ok q2"
      "mq_contents q2 = [(0, [1]), (0, [2])]" "curmsgs q2 = 2" "mq_frame q2 = mq_frame q1"
    using mymq_send_room [OF q1(2), of ex_info "[2]" 0] q1 f1 by (auto simp: ex_send_def)
  then have f2: "maxmsg q2 = 3" "msgsize q2 = 10"
    using f1 by (auto simp: mq_frame_def)
  obtain q3 where q3: "resume mq_code ex_receive None q2 = Finish q3 [] (MqReceived [1] (Some 0))"
      "mq_contents q3 = [(0, [2])]"
    using mymq_receive_take_correct [of "set_nwait (nwait q2 - 1) q2" "(0, [1])" "[(0, [2])]" True] q2 f2
    by (auto simp: ex_receive_def mymq_receive_resume_def received_def)
  have woken: "deliver [Signal ()] [?a, ?a, ?c [[1]] []] [?w, ?a, ?c [[1]] []]"
    using deliver_first [of "()" ?a "[?a, ?c [[1]] []]"] by simp
  have "mreach mq_code UNIV (mq_start ex_q 3) \<lparr>m_data = q1, m_thr = [?w, ?a, ?c [[1]] []]\<rparr>"
    using ex_two_receivers_asleep [folded q0_def]
    by (rule mstep_call_finish [OF _ _ q1(1), of 2, rotated -1])
      (auto simp: ex_send_def woken)
  then have "mreach mq_code UNIV (mq_start ex_q 3) \<lparr>m_data = q2, m_thr = [?w, ?a, ?c [[1], [2]] []]\<rparr>"
    by (rule mstep_call_finish [OF _ _ q2(1), of 2, rotated -1])
      (auto simp: ex_send_def intro: deliver_none)
  then have "mreach mq_code UNIV (mq_start ex_q 3) \<lparr>m_data = q3, m_thr = [?c [] [[1]], ?a, ?c [[1], [2]] []]\<rparr>"
    by (rule mstep_resume_finish [OF _ _ q3(1), of 0, rotated -1])
      (auto simp: ex_receive_def intro: deliver_none)
  then show ?thesis
    by (intro exI conjI) (assumption, simp_all add: q3(2))
qed

section \<open>Notification, attributes, closing\<close>

text \<open>
  notification is one-shot.  A send delivers the registered signal and removes the
  registration exactly when it is accepted by an empty queue, a process is registered and no
  receiver is waiting; in every other case registration and delivered signals are unchanged.
\<close>

theorem mymq_send_notifies_once:
  assumes "mq_ok q" and "mymq_send mqinfo ptr prio lock q = Finish q' ws r"
  shows "if r = MqSent \<and> curmsgs q = 0 \<and> mqh_pid (q_hdr q) \<noteq> 0 \<and> nwait q = 0
    then mqh_pid (q_hdr q') = 0 \<and>
      q_sigs q' = q_sigs q @ (if sigev_notify (mqh_event (q_hdr q)) = SIGEV_SIGNAL
        then [(mqh_pid (q_hdr q), sigev_signo (mqh_event (q_hdr q)), sigev_value (mqh_event (q_hdr q)))] else [])
    else mqh_pid (q_hdr q') = mqh_pid (q_hdr q) \<and> q_sigs q' = q_sigs q"
proof (cases "mqi_magic mqinfo = MQI_MAGIC \<and> lock = None \<and> int (length ptr) \<le> msgsize q \<and> curmsgs q < maxmsg q")
  case True
  then obtain q1 ws1 where "mymq_send mqinfo ptr prio lock q = Finish q1 ws1 MqSent"
      "mq_frame q1 = mq_frame (if curmsgs q = 0 then mq_notify_arrival q else q)"
    using mymq_send_room [OF assms(1), of mqinfo ptr prio] by auto
  with assms(2) show ?thesis
    by (auto simp: mq_frame_def mq_notify_arrival_def Let_def)
next
  case False
  then have "r \<noteq> MqSent \<and> q' = q"
    using assms(2) usize_msgsize [OF assms(1)] mq_ok_bounds [OF assms(1)]
    by (auto simp: mymq_send_def split: option.splits if_splits)
  then show ?thesis by simp
qed

theorem mymq_send_notifies_once_witness:
  "\<exists>q'. mymq_send ex_info [1] 0 None (ex_q\<lparr>q_hdr := (q_hdr ex_q)\<lparr>mqh_pid := 42\<rparr>\<rparr>) = Finish q' [Signal ()] MqSent \<and>
     mqh_pid (q_hdr q') = 0 \<and> length (q_sigs q') = 1"
proof -
  let ?q = "ex_q\<lparr>q_hdr := (q_hdr ex_q)\<lparr>mqh_pid := 42\<rparr>\<rparr>"
  have "mq_ok ?q = mq_ok ex_q"
    by (rule mq_ok_cong) simp_all
  then have ok: "mq_ok ?q" by simp
  then obtain q' where q': "mymq_send ex_info [1] 0 None ?q = Finish q' [Signal ()] MqSent"
    using mymq_send_room [OF ok, of ex_info "[1]" 0] by auto
  from mymq_send_notifies_once [OF ok q'] q' show ?thesis
    by (auto simp: ex_q_def mq_fresh_def blank_mq_def blank_hdr_def)
qed

text \<open>
  one process at a time is registered for notification.  Registering succeeds when nobody
  is registered or the registered process no longer exists, otherwise it fails with \<open>EBUSY\<close>
  and changes nothing; only the registered process can withdraw the registration, and
  neither call touches the messages.
\<close>

theorem mymq_notify_exclusive:
  assumes "mqi_magic mqinfo = MQI_MAGIC"
  shows "case mymq_notify mqinfo notification pid kill None q of (q', r) \<Rightarrow>
    mq_contents q' = mq_contents q \<and> (mq_ok q' \<longleftrightarrow> mq_ok q) \<and>
    (case notification of
       Some ev \<Rightarrow>
         if mqh_pid (q_hdr q) = 0 \<or> kill (mqh_pid (q_hdr q)) = Some ESRCH
         then r = Inr () \<and> mqh_pid (q_hdr q') = pid \<and> mqh_event (q_hdr q') = ev
         else r = Inl EBUSY \<and> q' = q
     | None \<Rightarrow> r = Inr () \<and>
         mqh_pid (q_hdr q') = (if mqh_pid (q_hdr q) = pid then 0 else mqh_pid (q_hdr q)))"
proof -
  obtain q' r where n: "mymq_notify mqinfo notification pid kill None q = (q', r)" by fastforce
  note fr = mymq_notify_frame [OF n]
  have "mq_ok q' = mq_ok q" "mq_contents q' = mq_contents q"
    using fr by (intro mq_ok_cong; simp)+
  then show ?thesis
    using n assms by (auto simp: mymq_notify_def Let_def split: option.splits if_splits)
qed

theorem mymq_notify_exclusive_witness:
  "mqh_pid (q_hdr (fst (mymq_notify ex_info (Some \<lparr>sigev_notify = SIGEV_SIGNAL, sigev_signo = 10, sigev_value = 0\<rparr>)
     42 (\<lambda>_. None) None ex_q))) = 42"
  using mymq_notify_exclusive [OF ex_info_sel(1), where q = ex_q and pid = 42 and kill = "\<lambda>_. None"
      and notification = "Some \<lparr>sigev_notify = SIGEV_SIGNAL, sigev_signo = 10, sigev_value = 0\<rparr>"]
  by (auto simp: ex_q_pid split: prod.splits)

text \<open>
  mymq_setattr and mymq_getattr agree.  The old attributes that mymq_setattr returns are
  what mymq_getattr would have returned before; afterwards mymq_getattr shows the requested
  non-blocking flag, the same sizes and the same number of messages.
\<close>

theorem mymq_setattr_getattr:
  assumes "mymq_setattr mqinfo mqstat True None q = (mqinfo', Inr old)"
  shows "old = Some (mq_status mqinfo q) \<and> mymq_getattr mqinfo None q = Inr (mq_status mqinfo q) \<and>
    mymq_getattr mqinfo' None q = Inr (mq_status mqinfo' q) \<and>
    (has_flag (mqi_flags mqinfo') O_NONBLOCK \<longleftrightarrow> mq_flags mqstat AND scast O_NONBLOCK \<noteq> 0) \<and>
    mqi_flags mqinfo' AND NOT O_NONBLOCK = mqi_flags mqinfo AND NOT O_NONBLOCK \<and>
    mq_maxmsg (mq_status mqinfo' q) = maxmsg q \<and> mq_msgsize (mq_status mqinfo' q) = msgsize q \<and>
    mq_curmsgs (mq_status mqinfo' q) = curmsgs q"
proof -
  have m: "mqi_magic mqinfo = MQI_MAGIC"
    using assms by (auto simp: mymq_setattr_def split: if_splits)
  have bits: "has_flag (f OR O_NONBLOCK) O_NONBLOCK" "\<not> has_flag (f AND NOT O_NONBLOCK) O_NONBLOCK"
      "(f OR O_NONBLOCK) AND NOT O_NONBLOCK = f AND NOT O_NONBLOCK" for f
    by (simp_all add: has_flag_def flag_defs and.assoc bit.conj_disj_distrib2)
  show ?thesis
    using assms m bits
    by (auto simp: mymq_setattr_def mymq_getattr_def mq_status_def split: if_splits)
qed

theorem mymq_setattr_getattr_witness:
  "\<exists>i'. mymq_setattr ex_info \<lparr>mq_flags = 2048, mq_maxmsg = 0, mq_msgsize = 0, mq_curmsgs = 0\<rparr> True None ex_q =
      (i', Inr (Some (mq_status ex_info ex_q))) \<and> has_flag (mqi_flags i') O_NONBLOCK"
proof -
  obtain i' old where e: "mymq_setattr ex_info \<lparr>mq_flags = 2048, mq_maxmsg = 0, mq_msgsize = 0, mq_curmsgs = 0\<rparr>
      True None ex_q = (i', Inr old)"
    by (simp add: mymq_setattr_def)
  have "(2048 :: 64 word) AND scast O_NONBLOCK \<noteq> 0"
    by (simp add: flag_defs)
  with mymq_setattr_getattr [OF e] e show ?thesis by auto
qed

text \<open>
  mymq_close gives the descriptor up only when everything succeeded: then the caller is no
  longer registered for notification, the whole file was unmapped, and the messages stay in
  the queue for other processes; on an error the descriptor is still usable.
\<close>

theorem mymq_close_effect:
  assumes "mymq_close L munmap mqinfo pid kill0 lock q = (q', d, r)"
  shows "mq_contents q' = mq_contents q \<and> (mq_ok q' \<longleftrightarrow> mq_ok q) \<and>
    (case r of
       Inl e \<Rightarrow> d = Some mqinfo
     | Inr _ \<Rightarrow> d = None \<and> munmap (mq_filesize L (q_attr q)) = None \<and> lock = None \<and>
         (pid \<noteq> 0 \<longrightarrow> mqh_pid (q_hdr q') \<noteq> pid))"
proof -
  obtain q1 r1 where n: "mymq_notify mqinfo None pid kill0 lock q = (q1, r1)" by fastforce
  note fr = mymq_notify_frame [OF n]
  have "mq_ok q1 = mq_ok q" "mq_contents q1 = mq_contents q"
    using fr by (intro mq_ok_cong; simp)+
  moreover have "r1 = Inr () \<Longrightarrow> lock = None \<and> (pid \<noteq> 0 \<longrightarrow> mqh_pid (q_hdr q1) \<noteq> pid)"
    using n by (auto simp: mymq_notify_def Let_def split: if_splits option.splits)
  ultimately show ?thesis
    using assms n fr by (auto simp: mymq_close_def split: if_splits sum.splits option.splits)
qed

theorem mymq_close_effect_witness:
  "\<exists>q'. mymq_close ex_layout (\<lambda>_. None) ex_info 42 (\<lambda>_. None) None ex_q = (q', None, Inr ()) \<and>
     mq_contents q' = []"
proof -
  obtain q' where e: "mymq_close ex_layout (\<lambda>_. None) ex_info 42 (\<lambda>_. None) None ex_q = (q', None, Inr ())"
    by (simp add: mymq_close_def mymq_notify_def Let_def)
  from mymq_close_effect [OF e] e show ?thesis by simp
qed

end
