(* ===== verification/Sem_Spec.thy ===== *)
theory Sem_Spec
  imports Prelude
begin

text \<open>
  The contract of a counting semaphore, as the three implementations of the repository (a
  mapped file, a System V semaphore, a FIFO) promise it to a caller, and what follows from
  it for sequences of calls.
\<close>

datatype sem_call = PostCall | WaitCall

fun calls_of :: "sem_call \<Rightarrow> sem_call list \<Rightarrow> nat" where
  "calls_of c cs = length (filter ((=) c) cs)"

text \<open>
  The sequences that can run from value \<open>v\<close> when at most \<open>cap\<close> posts can be pending: no call
  fails or blocks.
\<close>

fun admissible :: "nat \<Rightarrow> nat \<Rightarrow> sem_call list \<Rightarrow> bool" where
  "admissible cap v [] \<longleftrightarrow> True"
| "admissible cap v (PostCall # cs) \<longleftrightarrow> v < cap \<and> admissible cap (Suc v) cs"
| "admissible cap v (WaitCall # cs) \<longleftrightarrow> 0 < v \<and> admissible cap (v - 1) cs"

lemma admissible_prefixes:
  "admissible cap v cs \<Longrightarrow> n \<le> length cs \<Longrightarrow>
   calls_of WaitCall (take n cs) \<le> v + calls_of PostCall (take n cs)"
proof (induction cap v cs arbitrary: n rule: admissible.induct)
  case (2 cap v cs)
  then show ?case by (cases n) auto
next
  case (3 cap v cs)
  show ?case
  proof (cases n)
    case (Suc m)
    then show ?thesis using 3(1) [of m] 3(2,3) by auto
  qed simp
qed simp

locale counting_semaphore =
  fixes ok :: "'s \<Rightarrow> bool"
    and val :: "'s \<Rightarrow> nat"
    and cap :: nat
    and post :: "'s \<Rightarrow> 's option"
    and wait :: "'s \<Rightarrow> 's option"
  assumes post_below: "\<lbrakk>ok s; val s < cap\<rbrakk> \<Longrightarrow> \<exists>s'. post s = Some s' \<and> ok s' \<and> val s' = Suc (val s)"
    and wait_positive: "\<lbrakk>ok s; 0 < val s\<rbrakk> \<Longrightarrow> \<exists>s'. wait s = Some s' \<and> ok s' \<and> val s' = val s - 1"
    and wait_zero: "\<lbrakk>ok s; val s = 0\<rbrakk> \<Longrightarrow> wait s = None"
begin

fun run :: "sem_call list \<Rightarrow> 's \<Rightarrow> 's option" where
  "run [] s = Some s"
| "run (PostCall # cs) s = Option.bind (post s) (run cs)"
| "run (WaitCall # cs) s = Option.bind (wait s) (run cs)"

lemma run_admissible:
  "ok s \<Longrightarrow> admissible cap (val s) cs \<Longrightarrow>
   \<exists>s'. run cs s = Some s' \<and> ok s' \<and> val s' + calls_of WaitCall cs = val s + calls_of PostCall cs"
proof (induction cs arbitrary: s)
  case (Cons c cs)
  show ?case
  proof (cases c)
    case PostCall
    then obtain s1 where "post s = Some s1" "ok s1" "val s1 = Suc (val s)"
      using Cons.prems post_below by auto
    then show ?thesis
      using Cons.IH [of s1] Cons.prems PostCall by auto
  next
    case WaitCall
    then obtain s1 where "wait s = Some s1" "ok s1" "val s1 = val s - 1"
      using Cons.prems wait_positive by auto
    then show ?thesis
      using Cons.IH [of s1] Cons.prems WaitCall by auto
  qed
qed simp

lemma run_waits_bounded:
  assumes "ok s" and "admissible cap (val s) cs"
  shows "calls_of WaitCall cs \<le> val s + calls_of PostCall cs"
  using admissible_prefixes [OF assms(2), of "length cs"] by simp

end

end
