(* ===== verification/Sem_mmap.thy ===== *)
theory Sem_mmap
  imports Monitor Sem_Spec
begin

text \<open>
  my_pxsem_mmap: a semaphore in a mapped file, with a mutex and a condition variable.  Its
  value is an \<open>unsigned int\<close>.
\<close>

section \<open>Data (semaphore.h)\<close>

record mysem =
  sem_count :: "32 word"
  sem_magic :: "32 word"

definition SEM_MAGIC_mmap :: "32 word" where "SEM_MAGIC_mmap = 0x67458923"

datatype sem_ret = SemErr errno | SemOk | SemValue int

section \<open>Operations\<close>

text \<open>The test of the magic number and the lock, common to all operations.\<close>

definition sem_locked ::
  "status \<Rightarrow> mysem \<Rightarrow> (mysem \<Rightarrow> (mysem, unit, sem_ret) seg) \<Rightarrow> (mysem, unit, sem_ret) seg"
where
  "sem_locked lock sem body =
     (if sem_magic sem \<noteq> SEM_MAGIC_mmap then Finish sem [] (SemErr EINVAL)
      else case lock of Some n \<Rightarrow> Finish sem [] (SemErr n) | None \<Rightarrow> body sem)"

text \<open>Lines 19 to 23: the loop around \<open>pthread_cond_wait\<close> and the decrement.\<close>

definition mysem_wait_resume_mmap :: "mysem \<Rightarrow> (mysem, unit, sem_ret) seg" where
  "mysem_wait_resume_mmap sem =
     (if sem_count sem = 0 then Sleep sem ()
      else Finish (sem\<lparr>sem_count := sem_count sem - 1\<rparr>) [] SemOk)"

definition mysem_wait_mmap :: "status \<Rightarrow> mysem \<Rightarrow> (mysem, unit, sem_ret) seg" where
  "mysem_wait_mmap lock sem = sem_locked lock sem mysem_wait_resume_mmap"

definition mysem_trywait_mmap :: "status \<Rightarrow> mysem \<Rightarrow> (mysem, unit, sem_ret) seg" where
  "mysem_trywait_mmap lock sem = sem_locked lock sem (\<lambda>sem.
     if sem_count sem > 0 then Finish (sem\<lparr>sem_count := sem_count sem - 1\<rparr>) [] SemOk
     else Finish sem [] (SemErr EAGAIN))"

definition mysem_post_mmap :: "status \<Rightarrow> mysem \<Rightarrow> (mysem, unit, sem_ret) seg" where
  "mysem_post_mmap lock sem = sem_locked lock sem (\<lambda>sem.
     Finish (sem\<lparr>sem_count := sem_count sem + 1\<rparr>) (if sem_count sem = 0 then [Signal ()] else []) SemOk)"

text \<open>The value is stored through an \<open>int *\<close>.\<close>

definition mysem_getvalue_mmap :: "status \<Rightarrow> mysem \<Rightarrow> (mysem, unit, sem_ret) seg" where
  "mysem_getvalue_mmap lock sem = sem_locked lock sem (\<lambda>sem. Finish sem [] (SemValue (sint (sem_count sem))))"

text \<open>\<open>munmap\<close> is the outcome of the system call.\<close>

definition mysem_close_mmap :: "status \<Rightarrow> mysem \<Rightarrow> unit result" where
  "mysem_close_mmap munmap sem =
     (if sem_magic sem \<noteq> SEM_MAGIC_mmap then Inl EINVAL
      else case munmap of Some e \<Rightarrow> Inl e | None \<Rightarrow> Inr ())"

section \<open>The wrapper functions\<close>

definition exit_on_SemErr :: "string \<Rightarrow> (mysem, unit, sem_ret) seg \<Rightarrow> (mysem, unit, sem_ret wrapped) seg" where
  "exit_on_SemErr msg = map_seg id id (\<lambda>r. case r of SemErr e \<Rightarrow> Exits msg e | _ \<Rightarrow> Returns r)"

definition Mysem_wait_mmap :: "status \<Rightarrow> mysem \<Rightarrow> (mysem, unit, sem_ret wrapped) seg" where
  "Mysem_wait_mmap lock sem = exit_on_SemErr ''mysem_wait error'' (mysem_wait_mmap lock sem)"

definition Mysem_post_mmap :: "status \<Rightarrow> mysem \<Rightarrow> (mysem, unit, sem_ret wrapped) seg" where
  "Mysem_post_mmap lock sem = exit_on_SemErr ''mysem_post error'' (mysem_post_mmap lock sem)"

definition Mysem_getvalue_mmap :: "status \<Rightarrow> mysem \<Rightarrow> (mysem, unit, sem_ret wrapped) seg" where
  "Mysem_getvalue_mmap lock sem = exit_on_SemErr ''mysem_getvalue error'' (mysem_getvalue_mmap lock sem)"

text \<open>\<open>EAGAIN\<close> is returned to the caller.\<close>

definition Mysem_trywait_mmap :: "status \<Rightarrow> mysem \<Rightarrow> (mysem, unit, sem_ret wrapped) seg" where
  "Mysem_trywait_mmap lock sem =
     map_seg id id (\<lambda>r. case r of
         SemErr e \<Rightarrow> if e \<noteq> EAGAIN then Exits ''mysem_trywait error'' e else Returns r
       | _ \<Rightarrow> Returns r) (mysem_trywait_mmap lock sem)"

definition Mysem_close_mmap :: "status \<Rightarrow> mysem \<Rightarrow> unit wrapped" where
  "Mysem_close_mmap munmap sem = err_sys_on_error ''mysem_close error'' (mysem_close_mmap munmap sem)"

section \<open>Threads\<close>

datatype sem_op = SemWait | SemTrywait | SemPost | SemGetvalue

fun sem_enter :: "sem_op \<Rightarrow> status \<Rightarrow> mysem \<Rightarrow> (mysem, unit, sem_ret) seg" where
  "sem_enter SemWait lock sem = mysem_wait_mmap lock sem"
| "sem_enter SemTrywait lock sem = mysem_trywait_mmap lock sem"
| "sem_enter SemPost lock sem = mysem_post_mmap lock sem"
| "sem_enter SemGetvalue lock sem = mysem_getvalue_mmap lock sem"

fun sem_resume :: "sem_op \<Rightarrow> status \<Rightarrow> mysem \<Rightarrow> (mysem, unit, sem_ret) seg" where
  "sem_resume SemWait _ sem = mysem_wait_resume_mmap sem"
| "sem_resume _ _ sem = Crash"

text \<open>How often a thread's posts and its waits have succeeded.\<close>

type_synonym sem_client = "nat \<times> nat"

fun sem_note :: "sem_client \<Rightarrow> sem_op \<Rightarrow> sem_ret \<Rightarrow> sem_client" where
  "sem_note (p, a) SemPost SemOk = (Suc p, a)"
| "sem_note (p, a) SemWait SemOk = (p, Suc a)"
| "sem_note (p, a) SemTrywait SemOk = (p, Suc a)"
| "sem_note c _ _ = c"

definition sem_code :: "(mysem, sem_op, unit, sem_ret, sem_client) code" where
  "sem_code = \<lparr>enter = sem_enter, resume = sem_resume, can_cancel = (\<lambda>_. False),
     cleanup = (\<lambda>_ s. s), may_call = (\<lambda>_ _. True), note_ret = sem_note\<rparr>"

lemma sem_code_simps [simp]:
  "enter sem_code = sem_enter" "resume sem_code = sem_resume" "can_cancel sem_code op = False"
  "cleanup sem_code = (\<lambda>_ s. s)" "may_call sem_code c op = True" "note_ret sem_code = sem_note"
  by (simp_all add: sem_code_def)

section \<open>The invariant\<close>

definition posts_of :: "sem_op option \<times> sem_client \<Rightarrow> nat" where "posts_of v = fst (snd v)"
definition waits_of :: "sem_op option \<times> sem_client \<Rightarrow> nat" where "waits_of v = snd (snd v)"

text \<open>
  As long as no more than \<open>UINT_MAX\<close> units have been put in, the value is what was put in less
  what was taken out; only \<open>mysem_wait\<close> blocks.
\<close>

definition sem_inv :: "nat \<Rightarrow> mysem \<Rightarrow> (sem_op option \<times> sem_client) list \<Rightarrow> bool" where
  "sem_inv v0 sem vs \<longleftrightarrow>
     (v0 + sum_list (map posts_of vs) < 2 ^ 32 \<longrightarrow>
        unat (sem_count sem) + sum_list (map waits_of vs) = v0 + sum_list (map posts_of vs)) \<and>
     list_all (\<lambda>v. fst v = None \<or> fst v = Some SemWait) vs"

lemma sem_inv_update:
  assumes "sem_inv v0 sem vs" and "i < length vs" and "vs ! i = (op, p, a)"
    and "p \<le> p'" and "op' = None \<or> op' = Some SemWait"
    and "unat (sem_count sem) + p' < 2 ^ 32 + p \<Longrightarrow>
      unat (sem_count sem') + a' + p = unat (sem_count sem) + a + p'"
  shows "sem_inv v0 sem' (vs[i := (op', p', a')])"
proof -
  have p: "sum_list (map posts_of (vs[i := (op', p', a')])) + p = sum_list (map posts_of vs) + p'"
    using sum_list_update_cancel [OF assms(2), of posts_of "(op', p', a')"] assms(3) by (simp add: posts_of_def)
  have a: "sum_list (map waits_of (vs[i := (op', p', a')])) + a = sum_list (map waits_of vs) + a'"
    using sum_list_update_cancel [OF assms(2), of waits_of "(op', p', a')"] assms(3) by (simp add: waits_of_def)
  have "list_all (\<lambda>v. fst v = None \<or> fst v = Some SemWait) (vs[i := (op', p', a')])"
    using assms(1,5) by (auto simp: sem_inv_def list_all_iff dest!: set_update_subset_insert [THEN subsetD])
  moreover have "unat (sem_count sem') + sum_list (map waits_of (vs[i := (op', p', a')])) =
      v0 + sum_list (map posts_of (vs[i := (op', p', a')]))"
    if lt: "v0 + sum_list (map posts_of (vs[i := (op', p', a')])) < 2 ^ 32"
  proof -
    have "v0 + sum_list (map posts_of vs) < 2 ^ 32"
      using lt p assms(4) by linarith
    then have eq: "unat (sem_count sem) + sum_list (map waits_of vs) = v0 + sum_list (map posts_of vs)"
      using assms(1) by (simp add: sem_inv_def)
    then have "unat (sem_count sem) + p' < 2 ^ 32 + p"
      using lt p by linarith
    from assms(6) [OF this] eq p a show ?thesis by linarith
  qed
  ultimately show ?thesis by (simp add: sem_inv_def)
qed

lemma unat_minus_one_word: "(w :: 32 word) \<noteq> 0 \<Longrightarrow> unat (w - 1) + 1 = unat w"
  using unat_minus_one [of w] unat_gt_0 [of w] by linarith

lemma unat_plus_one_word: "unat (w :: 32 word) < 2 ^ 32 - 1 \<Longrightarrow> unat (w + 1) = unat w + 1"
  by (simp add: unat_word_ariths)

lemma sem_enter_cases:
  "sem_enter op st sem = seg \<Longrightarrow>
     (\<exists>r. seg = Finish sem [] r \<and> r \<noteq> SemOk) \<or>
     (op = SemPost \<and> (\<exists>ws. seg = Finish (sem\<lparr>sem_count := sem_count sem + 1\<rparr>) ws SemOk)) \<or>
     ((op = SemWait \<or> op = SemTrywait) \<and> sem_count sem \<noteq> 0 \<and>
        seg = Finish (sem\<lparr>sem_count := sem_count sem - 1\<rparr>) [] SemOk) \<or>
     (op = SemWait \<and> seg = Sleep sem ())"
  by (cases op) (auto simp: mysem_wait_mmap_def mysem_trywait_mmap_def mysem_post_mmap_def
      mysem_getvalue_mmap_def mysem_wait_resume_mmap_def sem_locked_def word_gt_0 split: option.splits if_splits)

lemma sem_note_not_ok: "r \<noteq> SemOk \<Longrightarrow> sem_note c op r = c"
  by (cases "(c, op, r)" rule: sem_note.cases) auto

lemma sem_inv_taken:
  assumes "sem_inv v0 sem vs" "i < length vs" "vs ! i = (op', c)" "sem_count sem \<noteq> 0"
    "op = SemWait \<or> op = SemTrywait"
  shows "sem_inv v0 (sem\<lparr>sem_count := sem_count sem - 1\<rparr>) (vs[i := (None, sem_note c op SemOk)])"
  using assms unat_minus_one_word [OF assms(4)]
  by (cases c) (auto intro!: sem_inv_update [OF assms(1,2)])

lemma sem_enter_Finish:
  assumes inv: "sem_inv v0 sem vs" and i: "i < length vs" "vs ! i = (None, c)"
    and fin: "sem_enter op st sem = Finish sem' ws r"
  shows "sem_inv v0 sem' (vs[i := (None, sem_note c op r)])"
  using sem_enter_cases [OF fin]
proof (elim disjE conjE exE)
  fix r' assume "Finish sem' ws r = Finish sem [] r'" "r' \<noteq> SemOk"
  with inv i show ?thesis
    using sem_note_not_ok [of r c op] by (metis list_update_id seg.inject(1))
next
  fix ws' assume "op = SemPost" "Finish sem' ws r = Finish (sem\<lparr>sem_count := sem_count sem + 1\<rparr>) ws' SemOk"
  then show ?thesis
    using i unat_plus_one_word [of "sem_count sem"]
    by (cases c) (auto intro!: sem_inv_update [OF inv i(1)])
qed (use sem_inv_taken [OF inv i] in auto)

interpretation semm: monitor_safe sem_code UNIV "sem_inv v0" for v0
proof unfold_locales
  fix d vs i c op st d' ws r
  assume "sem_inv v0 d vs" "i < length vs" "vs ! i = (None, c)" "enter sem_code op st d = Finish d' ws r"
  then show "sem_inv v0 d' (vs[i := (None, note_ret sem_code c op r)])"
    by (simp add: sem_enter_Finish)
next
  fix d vs i c op st d' cv
  assume a: "sem_inv v0 d vs" "i < length vs" "vs ! i = (None, c)" "enter sem_code op st d = Sleep d' cv"
  then have "op = SemWait \<and> d' = d"
    using sem_enter_cases [of op st d] by auto
  with a show "sem_inv v0 d' (vs[i := (Some op, c)])"
    by (cases c) (auto intro!: sem_inv_update [OF a(1,2)])
next
  fix d vs i op c st d' ws r
  assume a: "sem_inv v0 d vs" "i < length vs" "vs ! i = (Some op, c)" "resume sem_code op st d = Finish d' ws r"
  then show "sem_inv v0 d' (vs[i := (None, note_ret sem_code c op r)])"
    using sem_inv_taken [OF a(1-3), of op]
    by (cases op) (auto simp: mysem_wait_resume_mmap_def split: if_splits)
next
  fix d vs i op c st d' cv
  assume "sem_inv v0 d vs" "i < length vs" "vs ! i = (Some op, c)" "resume sem_code op st d = Sleep d' cv"
  then show "sem_inv v0 d' vs"
    by (cases op) (auto simp: mysem_wait_resume_mmap_def split: if_splits)
next
  fix d vs i c op st
  show "enter sem_code op st d \<noteq> Crash"
    using sem_enter_cases [of op st d] by auto
next
  fix d vs i op c st
  assume "sem_inv v0 d vs" "i < length vs" "vs ! i = (Some op, c)"
  then have "op = SemWait"
    by (auto simp: sem_inv_def list_all_length dest!: spec [of _ i])
  then show "resume sem_code op st d \<noteq> Crash"
    by (simp add: mysem_wait_resume_mmap_def)
qed simp_all

section \<open>The contract of a semaphore\<close>

definition sem_ok_mmap :: "mysem \<Rightarrow> bool" where "sem_ok_mmap sem \<longleftrightarrow> sem_magic sem = SEM_MAGIC_mmap"
definition sem_val_mmap :: "mysem \<Rightarrow> nat" where "sem_val_mmap sem = unat (sem_count sem)"

definition sem_post1_mmap :: "mysem \<Rightarrow> mysem option" where
  "sem_post1_mmap sem = (case mysem_post_mmap None sem of Finish sem' ws SemOk \<Rightarrow> Some sem' | _ \<Rightarrow> None)"

definition sem_wait1_mmap :: "mysem \<Rightarrow> mysem option" where
  "sem_wait1_mmap sem = (case mysem_wait_mmap None sem of Finish sem' ws SemOk \<Rightarrow> Some sem' | _ \<Rightarrow> None)"

interpretation mmap_sem: counting_semaphore sem_ok_mmap sem_val_mmap "2 ^ 32 - 1" sem_post1_mmap sem_wait1_mmap
proof unfold_locales
  fix s assume "sem_ok_mmap s" "sem_val_mmap s < 2 ^ 32 - 1"
  then show "\<exists>s'. sem_post1_mmap s = Some s' \<and> sem_ok_mmap s' \<and> sem_val_mmap s' = Suc (sem_val_mmap s)"
    using unat_plus_one_word [of "sem_count s"]
    by (simp add: sem_ok_mmap_def sem_val_mmap_def sem_post1_mmap_def mysem_post_mmap_def sem_locked_def)
next
  fix s assume "sem_ok_mmap s" "0 < sem_val_mmap s"
  then show "\<exists>s'. sem_wait1_mmap s = Some s' \<and> sem_ok_mmap s' \<and> sem_val_mmap s' = sem_val_mmap s - 1"
    using unat_minus_one_word [of "sem_count s"]
    by (auto simp: sem_ok_mmap_def sem_val_mmap_def sem_wait1_mmap_def mysem_wait_mmap_def sem_locked_def
        mysem_wait_resume_mmap_def)
next
  fix s assume "sem_ok_mmap s" "sem_val_mmap s = 0"
  then show "sem_wait1_mmap s = None"
    by (simp add: sem_ok_mmap_def sem_val_mmap_def sem_wait1_mmap_def mysem_wait_mmap_def sem_locked_def
        mysem_wait_resume_mmap_def unat_eq_zero)
qed

end
