(* ===== verification/Sem_mmap_open.thy ===== *)
theory Sem_mmap_open
  imports Sem_mmap Files
begin

text \<open>
  mysem_open and mysem_unlink of my_pxsem_mmap: the same protocol as for the message queue (a
  new file carries the user-execute bit until it is initialised), except that the file is
  mapped before the wait for its initialisation.
\<close>

section \<open>mysem_open\<close>

definition blank_sem :: mysem where "blank_sem = \<lparr>sem_count = 0, sem_magic = 0\<rparr>"

text \<open>Lines 111 to 122; \<open>sem\<close> is \<open>None\<close> for \<open>MAP_FAILED\<close>.\<close>

definition sem_open_err_mmap ::
  "mysem os \<Rightarrow> string \<Rightarrow> bool \<Rightarrow> int \<Rightarrow> nat option \<Rightarrow> errno \<Rightarrow> mysem world \<Rightarrow> mysem world \<times> nat result"
where
  "sem_open_err_mmap os path created fd sem e w =
     (let w1 = (if created then fst (sys_unlink os path w) else w);
          w2 = (case sem of None \<Rightarrow> w1 | Some i \<Rightarrow> sys_munmap i w1)
      in (sys_close fd w2, Inl e))"

text \<open>
  Lines 37 to 76: this process created the file.  \<open>vmax\<close> is \<open>sysconf(_SC_SEM_VALUE_MAX)\<close>, \<open>sz\<close>
  the size of the structure, and \<open>sem\<close> the value of that variable from an earlier round.
\<close>

definition sem_open_create_mmap ::
  "mysem os \<Rightarrow> int \<Rightarrow> int \<Rightarrow> string \<Rightarrow> cint \<Rightarrow> 32 word \<Rightarrow> int \<Rightarrow> nat option \<Rightarrow> mysem world \<Rightarrow> mysem world \<times> nat result"
where
  "sem_open_create_mmap os sz vmax path mode value fd sem w =
     (let err = sem_open_err_mmap os path True fd in
      on_err (sys_write os fd sz w) (err sem) (\<lambda>_ w.
      on_err (sys_mmap os fd w) (err None) (\<lambda>sem w.
      on_err (sys_check os w) (err (Some sem)) (\<lambda>_ w. \<comment> \<open>pthread_mutexattr_init\<close>
      on_err (sys_check os w) (err (Some sem)) (\<lambda>_ w. \<comment> \<open>pthread_mutex_init\<close>
      on_err (sys_check os w) (err (Some sem)) (\<lambda>_ w. \<comment> \<open>pthread_condattr_init\<close>
      on_err (sys_check os w) (err (Some sem)) (\<lambda>_ w. \<comment> \<open>pthread_cond_init\<close>
        let w = upd_ino sem (i_data_update (sem_count_update (\<lambda>_. value))) w in
        if uint value > vmax then err (Some sem) EINVAL w
        else on_err (sys_fchmod os fd mode w) (err (Some sem)) (\<lambda>_ w.
          (upd_ino sem (i_data_update (sem_magic_update (\<lambda>_. SEM_MAGIC_mmap))) (sys_close fd w), Inr sem)))))))))"

definition MAX_TRIES_mmap :: nat where "MAX_TRIES_mmap = 10"

text \<open>Lines 92 to 109: wait for the initialisation; \<open>again\<close> is the jump to that label.\<close>

fun sem_wait_init_mmap ::
  "(nat option \<Rightarrow> mysem world \<Rightarrow> (mysem world \<times> nat result) option) \<Rightarrow> mysem os \<Rightarrow> string \<Rightarrow> cint \<Rightarrow>
   int \<Rightarrow> nat \<Rightarrow> nat \<Rightarrow> mysem world \<Rightarrow> (mysem world \<times> nat result) option"
where
  "sem_wait_init_mmap again os path oflag fd sem 0 w =
     Some (sem_open_err_mmap os path False fd (Some sem) ETIMEDOUT w)"
| "sem_wait_init_mmap again os path oflag fd sem (Suc n) w =
     (case sys_stat os path w of
        (w1, Inl e) \<Rightarrow>
          if e = ENOENT \<and> has_flag oflag O_CREAT then again (Some sem) (sys_close fd w1)
          else Some (sem_open_err_mmap os path False fd (Some sem) e w1)
      | (w1, Inr statbuff) \<Rightarrow>
          if \<not> has_flag (i_mode statbuff) S_IXUSR
          then Some (upd_ino sem (i_data_update (sem_magic_update (\<lambda>_. SEM_MAGIC_mmap))) (sys_close fd w1), Inr sem)
          else sem_wait_init_mmap again os path oflag fd sem n (tick os w1))" \<comment> \<open>sleep(1)\<close>

text \<open>Lines 80 to 90: the label \<open>exists\<close>.\<close>

definition sem_open_exists_mmap ::
  "(nat option \<Rightarrow> mysem world \<Rightarrow> (mysem world \<times> nat result) option) \<Rightarrow> mysem os \<Rightarrow> string \<Rightarrow> cint \<Rightarrow>
   nat option \<Rightarrow> mysem world \<Rightarrow> (mysem world \<times> nat result) option"
where
  "sem_open_exists_mmap again os path oflag sem w =
     (case sys_open os path w of
        (w1, Inl e) \<Rightarrow>
          if e = ENOENT \<and> has_flag oflag O_CREAT then again sem w1
          else Some (sem_open_err_mmap os path False (-1) sem e w1)
      | (w1, Inr fd) \<Rightarrow>
          (case sys_mmap os fd w1 of
             (w2, Inl e) \<Rightarrow> Some (sem_open_err_mmap os path False fd None e w2)
           | (w2, Inr sem') \<Rightarrow> sem_wait_init_mmap again os path oflag fd sem' MAX_TRIES_mmap w2))"

text \<open>Lines 22 to 37, with fuel for the jumps back to \<open>again\<close>.\<close>

fun sem_open_again_mmap ::
  "nat \<Rightarrow> mysem os \<Rightarrow> int \<Rightarrow> int \<Rightarrow> string \<Rightarrow> cint \<Rightarrow> cint \<Rightarrow> 32 word \<Rightarrow> nat option \<Rightarrow> mysem world \<Rightarrow>
   (mysem world \<times> nat result) option"
where
  "sem_open_again_mmap 0 os sz vmax path oflag mode value sem w = None"
| "sem_open_again_mmap (Suc fuel) os sz vmax path oflag mode value sem w =
     (let mode' = mode AND NOT S_IXUSR;
          exists = sem_open_exists_mmap (sem_open_again_mmap fuel os sz vmax path oflag mode value) os path oflag sem
      in if has_flag oflag O_CREAT
         then case sys_creat os blank_sem path (mode' OR S_IXUSR) w of
                (w1, Inl e) \<Rightarrow>
                  if e = EEXIST \<and> \<not> has_flag oflag O_EXCL then exists w1 else Some (w1, Inl e)
              | (w1, Inr fd) \<Rightarrow> Some (sem_open_create_mmap os sz vmax path mode' value fd sem w1)
         else exists w)"

definition mysem_open_mmap ::
  "nat \<Rightarrow> mysem os \<Rightarrow> int \<Rightarrow> int \<Rightarrow> string \<Rightarrow> cint \<Rightarrow> cint \<Rightarrow> 32 word \<Rightarrow> mysem world \<Rightarrow>
   (mysem world \<times> nat result) option"
where
  "mysem_open_mmap fuel os sz vmax path oflag mode value w =
     sem_open_again_mmap fuel os sz vmax path oflag mode value None w"

definition Mysem_open_mmap ::
  "nat \<Rightarrow> mysem os \<Rightarrow> int \<Rightarrow> int \<Rightarrow> string \<Rightarrow> cint \<Rightarrow> cint \<Rightarrow> 32 word \<Rightarrow> mysem world \<Rightarrow>
   (mysem world \<times> nat wrapped) option"
where
  "Mysem_open_mmap fuel os sz vmax path oflag mode value w =
     map_option (map_prod id (err_sys_on_error (''mysem_open error for '' @ path)))
       (mysem_open_mmap fuel os sz vmax path oflag mode value w)"

definition mysem_unlink_mmap :: "mysem os \<Rightarrow> string \<Rightarrow> mysem world \<Rightarrow> mysem world \<times> unit result" where
  "mysem_unlink_mmap os path w = sys_unlink os path w"

definition Mysem_unlink_mmap :: "mysem os \<Rightarrow> string \<Rightarrow> mysem world \<Rightarrow> mysem world \<times> unit wrapped" where
  "Mysem_unlink_mmap os path w =
     map_prod id (err_sys_on_error ''mysem_unlink error'') (mysem_unlink_mmap os path w)"

section \<open>Descriptors\<close>

text \<open>Only descriptors: see below for the mappings.\<close>

definition fds_restored :: "(int \<times> nat) list \<Rightarrow> mysem world \<times> nat result \<Rightarrow> bool" where
  "fds_restored F res \<longleftrightarrow> w_fds (fst res) = F"

lemma sys_fds:
  assumes w: "w_fds w = F"
  shows "sys_check os w = (w', r) \<Longrightarrow> w_fds w' = F"
    and "sys_write os fd n w = (w', r) \<Longrightarrow> w_fds w' = F"
    and "sys_fchmod os fd mode w = (w', r) \<Longrightarrow> w_fds w' = F"
    and "sys_mmap os fd w = (w', r') \<Longrightarrow> w_fds w' = F"
    and "sys_stat os path w = (w', s) \<Longrightarrow> w_fds w' = F"
    and "sys_unlink os path w = (w', r) \<Longrightarrow> w_fds w' = F"
proof -
  show "sys_check os w = (w', r) \<Longrightarrow> w_fds w' = F"
    unfolding sys_check_def by (drule syscall_cases) (use w in auto)
  show "sys_write os fd n w = (w', r) \<Longrightarrow> w_fds w' = F"
    unfolding sys_write_def by (drule syscall_cases) (use w in \<open>auto simp: with_fd_def split: option.splits\<close>)
  show "sys_fchmod os fd mode w = (w', r) \<Longrightarrow> w_fds w' = F"
    unfolding sys_fchmod_def by (drule syscall_cases) (use w in \<open>auto simp: with_fd_def split: option.splits\<close>)
  show "sys_mmap os fd w = (w', r') \<Longrightarrow> w_fds w' = F"
    unfolding sys_mmap_def by (drule syscall_cases) (use w in \<open>auto simp: with_fd_def split: option.splits\<close>)
  show "sys_stat os path w = (w', s) \<Longrightarrow> w_fds w' = F"
    unfolding sys_stat_def by (drule syscall_cases) (use w in \<open>auto split: option.splits\<close>)
  show "sys_unlink os path w = (w', r) \<Longrightarrow> w_fds w' = F"
    using sys_unlink_holds [of w F "w_maps w" "w_allocs w" os path] w by (simp add: holds_def)
qed

lemma sys_close_fds:
  "fds_ok F \<Longrightarrow> w_fds w = (new_top F, i) # F \<Longrightarrow> w_fds (sys_close (new_top F) w) = F"
  by (simp add: sys_close_def fds_ok_filter)

lemma sem_open_err_fds:
  assumes F: "fds_ok F" and "w_fds w = F \<and> fd = -1 \<or> (\<exists>i. w_fds w = (new_top F, i) # F) \<and> fd = new_top F"
  shows "fds_restored F (sem_open_err_mmap os path created fd sem e w)"
proof -
  define w1 where "w1 = (if created then fst (sys_unlink os path w) else w)"
  define w2 where "w2 = (case sem of None \<Rightarrow> w1 | Some i \<Rightarrow> sys_munmap i w1)"
  have "w_fds w1 = w_fds w"
    using sys_fds(6) [OF refl, of os path w "fst (sys_unlink os path w)" "snd (sys_unlink os path w)"]
    by (simp add: w1_def)
  then have "w_fds w2 = w_fds w"
    by (simp add: w2_def split: option.splits)
  moreover have "-1 \<notin> fst ` set F" using F by (auto simp: fds_ok_def)
  ultimately have "w_fds (sys_close fd w2) = F"
    using assms(2) F by (auto simp: sys_close_def fds_ok_filter)
  moreover have "sem_open_err_mmap os path created fd sem e w = (sys_close fd w2, Inl e)"
    by (simp only: sem_open_err_mmap_def Let_def w1_def w2_def)
  ultimately show ?thesis by (simp add: fds_restored_def)
qed

lemma sem_open_create_fds:
  assumes F: "fds_ok F" and w: "w_fds w = (new_top F, i) # F"
  shows "fds_restored F (sem_open_create_mmap os sz vmax path mode value (new_top F) sem w)"
proof -
  have err: "fds_restored F (sem_open_err_mmap os path True (new_top F) sem e w')"
    if "w_fds w' = (new_top F, i) # F" for sem e w'
    using F that by (intro sem_open_err_fds) auto
  note fd = sys_fds(1-4)
  show ?thesis
    unfolding sem_open_create_mmap_def Let_def
    apply (rule on_err_rule, rule err, erule fd [OF w], drule fd [OF w])
    apply (rule on_err_rule, rule err, erule (1) fd [rotated], drule (1) fd [rotated])
    apply (rule on_err_rule, rule err, erule (1) fd [rotated], drule (1) fd [rotated])+
    apply (rule if_split [THEN iffD2], intro conjI impI)
     apply (rule err, simp)
    apply (rule on_err_rule, rule err, erule fd [rotated], simp, drule fd [rotated], simp)
    using sys_close_fds [OF F] by (simp add: fds_restored_def)
qed

lemma sem_wait_init_fds:
  assumes F: "fds_ok F" and w: "w_fds w = (new_top F, i) # F"
    and again: "\<And>sem w' res. w_fds w' = F \<Longrightarrow> again sem w' = Some res \<Longrightarrow> fds_restored F res"
  shows "sem_wait_init_mmap again os path oflag (new_top F) sem n w = Some res \<Longrightarrow> fds_restored F res"
  using w
proof (induction n arbitrary: w)
  case 0
  then show ?case using sem_open_err_fds [OF F] by auto
next
  case (Suc n)
  obtain w1 s where s: "sys_stat os path w = (w1, s)" by fastforce
  have w1: "w_fds w1 = (new_top F, i) # F" using sys_fds(5) [OF Suc.prems(2) s] .
  show ?case
    using Suc.prems(1) s w1 Suc.IH [of "tick os w1"] again sys_close_fds [OF F w1] sem_open_err_fds [OF F, of w1 "new_top F"]
    by (cases s) (auto simp: fds_restored_def split: if_splits)
qed

lemma sem_open_again_fds:
  assumes F: "fds_ok F"
  shows "w_fds w = F \<Longrightarrow> sem_open_again_mmap fuel os sz vmax path oflag mode value sem w = Some res \<Longrightarrow>
    fds_restored F res"
proof (induction fuel arbitrary: w sem res)
  case (Suc fuel)
  let ?again = "sem_open_again_mmap fuel os sz vmax path oflag mode value"
  have exists: "fds_restored F res"
    if w0: "w_fds w0 = F" and r: "sem_open_exists_mmap ?again os path oflag sem w0 = Some res" for w0
  proof -
    have h: "holds w0 F (w_maps w0) (w_allocs w0)" using w0 by (simp add: holds_def)
    obtain w1 s where s: "sys_open os path w0 = (w1, s)" by fastforce
    show ?thesis
      using sys_open_holds [OF s h]
    proof (elim disjE exE conjE)
      fix e assume "s = Inl e" "holds w1 F (w_maps w0) (w_allocs w0)"
      then show ?thesis
        using r s Suc.IH [of w1] sem_open_err_fds [OF F, of w1 "-1"]
        by (auto simp: sem_open_exists_mmap_def holds_def split: if_splits)
    next
      fix i assume fd: "s = Inr (new_top F)" "holds w1 ((new_top F, i) # F) (w_maps w0) (w_allocs w0)"
      obtain w2 m where m: "sys_mmap os (new_top F) w1 = (w2, m)" by fastforce
      have w2: "w_fds w2 = (new_top F, i) # F"
        using sys_fds(4) [OF _ m] fd(2) by (simp add: holds_def)
      show ?thesis
        using r s fd m w2 sem_open_err_fds [OF F, of w2 "new_top F"] sem_wait_init_fds [OF F w2 Suc.IH]
        by (cases m) (auto simp: sem_open_exists_mmap_def)
    qed
  qed
  show ?case
  proof (cases "has_flag oflag O_CREAT")
    case False
    then show ?thesis using exists Suc.prems by (simp add: Let_def)
  next
    case True
    have h: "holds w F (w_maps w) (w_allocs w)" using Suc.prems(1) by (simp add: holds_def)
    obtain w1 s where s: "sys_creat os blank_sem path (mode AND NOT S_IXUSR OR S_IXUSR) w = (w1, s)"
      by fastforce
    show ?thesis
      using sys_creat_holds [OF s h]
    proof (elim disjE exE conjE)
      fix e assume "s = Inl e" "holds w1 F (w_maps w) (w_allocs w)"
      then show ?thesis
        using Suc.prems(2) s True exists [of w1]
        by (cases "e = EEXIST \<and> \<not> has_flag oflag O_EXCL") (auto simp: Let_def fds_restored_def holds_def)
    next
      fix i assume "s = Inr (new_top F)" "holds w1 ((new_top F, i) # F) (w_maps w) (w_allocs w)"
      then show ?thesis
        using Suc.prems(2) s True sem_open_create_fds [OF F, of w1 i]
        by (auto simp: Let_def holds_def)
    qed
  qed
qed simp

section \<open>Creating and opening undisturbed\<close>

lemma sem_open_create_quiet:
  assumes q: "quiet os" and v: "uint value \<le> vmax" and fd: "w_fds w = (fd, i) # F"
  shows "\<exists>w'. sem_open_create_mmap os sz vmax path mode value fd sem w = (w', Inr i) \<and>
    w_disk w' = (w_disk w)\<lparr>d_ino := (d_ino (w_disk w))(i :=
      (d_ino (w_disk w) i)\<lparr>i_mode := mode, i_size := sz,
        i_data := \<lparr>sem_count = value, sem_magic = SEM_MAGIC_mmap\<rparr>\<rparr>)\<rparr>"
proof -
  have n: "\<not> vmax < uint value" using v by simp
  show ?thesis
    using q fd n
    by (cases "d_ino (w_disk w) i"; cases "i_data (d_ino (w_disk w) i)")
      (simp add: sem_open_create_mmap_def Let_def syscall_defs syscall_quiet with_fd_quiet w_disk_upd_ino)
qed

lemma sem_wait_init_quiet:
  assumes q: "quiet os" and p: "d_dir (w_disk w) path = Some i"
  shows "\<exists>w'. sem_wait_init_mmap again os path oflag fd sem (Suc n) w = Some (w',
      if has_flag (i_mode (d_ino (w_disk w) i)) S_IXUSR then Inl ETIMEDOUT else Inr sem) \<and>
    d_dir (w_disk w') = d_dir (w_disk w) \<and>
    (if has_flag (i_mode (d_ino (w_disk w) i)) S_IXUSR then w_disk w' = w_disk w
     else d_ino (w_disk w') = (d_ino (w_disk w))(sem :=
       i_data_update (sem_magic_update (\<lambda>_. SEM_MAGIC_mmap)) (d_ino (w_disk w) sem)))"
proof (cases "has_flag (i_mode (d_ino (w_disk w) i)) S_IXUSR")
  case True
  have "\<exists>w'. sem_wait_init_mmap again os path oflag fd sem n w = Some (w', Inl ETIMEDOUT) \<and> w_disk w' = w_disk w"
    if "d_dir (w_disk w) path = Some i" "has_flag (i_mode (d_ino (w_disk w) i)) S_IXUSR" for n w
    using that
  proof (induction n arbitrary: w)
    case 0
    then show ?case by (auto simp: sem_open_err_mmap_def Let_def)
  next
    case (Suc n)
    then show ?case
      using Suc.IH [of "tick os (tick os w)"] q by (simp add: sys_stat_def syscall_quiet)
  qed
  from this [OF p True, of "Suc n"] True show ?thesis by auto
next
  case False
  then show ?thesis
    using q p by (simp add: sys_stat_def syscall_quiet w_disk_upd_ino)
qed

lemma mysem_open_create_disk:
  assumes q: "quiet os" and v: "uint value \<le> vmax"
    and c: "has_flag oflag O_CREAT" and new: "d_dir (w_disk w) path = None"
  shows "\<exists>w' i. mysem_open_mmap (Suc fuel) os sz vmax path oflag mode value w = Some (w', Inr i) \<and>
    i = d_next (w_disk w) \<and> d_dir (w_disk w') = (d_dir (w_disk w))(path \<mapsto> i) \<and>
    d_ino (w_disk w') = (d_ino (w_disk w))(i := \<lparr>i_mode = mode AND NOT S_IXUSR, i_size = sz,
       i_data = \<lparr>sem_count = value, sem_magic = SEM_MAGIC_mmap\<rparr>\<rparr>)"
proof -
  let ?fd = "new_fd w" and ?i = "d_next (w_disk w)"
  obtain w1 where w1: "sys_creat os blank_sem path (mode AND NOT S_IXUSR OR S_IXUSR) w = (w1, Inr ?fd)"
      "w_fds w1 = (?fd, ?i) # w_fds w" "d_dir (w_disk w1) = (d_dir (w_disk w))(path \<mapsto> ?i)"
      "d_ino (w_disk w1) = (d_ino (w_disk w))(?i := \<lparr>i_mode = mode AND NOT S_IXUSR OR S_IXUSR, i_size = 0, i_data = blank_sem\<rparr>)"
    using q new by (simp add: sys_creat_def syscall_quiet Let_def new_fd_def)
  show ?thesis
    using sem_open_create_quiet [OF q v w1(2), of sz path "mode AND NOT S_IXUSR" None] c w1
    by (auto simp: mysem_open_mmap_def Let_def)
qed

section \<open>A concrete system\<close>

definition ex_sem_world :: "mysem world" where
  "ex_sem_world = \<lparr>w_disk = \<lparr>d_dir = Map.empty,
      d_ino = (\<lambda>_. \<lparr>i_mode = 0, i_size = 0, i_data = blank_sem\<rparr>), d_next = 0\<rparr>,
     w_fds = [], w_maps = [], w_allocs = 0, w_badclose = 0, w_time = 0\<rparr>"

definition ex_sem_quiet :: "mysem os" where
  "ex_sem_quiet = \<lparr>os_env = (\<lambda>_ d. d), os_fault = (\<lambda>_. None)\<rparr>"

lemma ex_sem_quiet_quiet [simp]: "quiet ex_sem_quiet"
  by (simp add: quiet_def alone_def ex_sem_quiet_def)

section \<open>Properties\<close>

text \<open>
  creating a semaphore undisturbed gives a file under the new name that holds the requested
  value and the magic number and no longer carries the user-execute bit; the process keeps
  exactly one mapping and no descriptor more.
\<close>

theorem mysem_open_mmap_creates:
  assumes "quiet os" and "uint value \<le> vmax" and "has_flag oflag O_CREAT"
    and "d_dir (w_disk w) path = None" and "fds_ok (w_fds w)"
  shows "\<exists>w' i. mysem_open_mmap (Suc fuel) os sz vmax path oflag mode value w = Some (w', Inr i) \<and>
    d_dir (w_disk w') = (d_dir (w_disk w))(path \<mapsto> i) \<and>
    (\<forall>j. j \<noteq> i \<longrightarrow> d_ino (w_disk w') j = d_ino (w_disk w) j) \<and>
    \<not> has_flag (i_mode (d_ino (w_disk w') i)) S_IXUSR \<and>
    sem_ok_mmap (i_data (d_ino (w_disk w') i)) \<and>
    sem_val_mmap (i_data (d_ino (w_disk w') i)) = unat value \<and> w_fds w' = w_fds w"
proof -
  from mysem_open_create_disk [OF assms(1-4), of fuel sz mode] obtain w' i where
    r: "mysem_open_mmap (Suc fuel) os sz vmax path oflag mode value w = Some (w', Inr i)"
    "d_dir (w_disk w') = (d_dir (w_disk w))(path \<mapsto> i)"
    "d_ino (w_disk w') = (d_ino (w_disk w))(i := \<lparr>i_mode = mode AND NOT S_IXUSR, i_size = sz,
       i_data = \<lparr>sem_count = value, sem_magic = SEM_MAGIC_mmap\<rparr>\<rparr>)"
    by blast
  have "w_fds w' = w_fds w"
    using sem_open_again_fds [OF assms(5) refl r(1) [unfolded mysem_open_mmap_def]] by (simp add: fds_restored_def)
  moreover have "\<not> has_flag (mode AND NOT S_IXUSR) S_IXUSR"
    by (simp add: has_flag_def flag_defs and.assoc)
  ultimately show ?thesis
    using r by (intro exI [of _ w'] exI [of _ i]) (simp add: sem_ok_mmap_def sem_val_mmap_def)
qed

theorem mysem_open_mmap_creates_witness:
  "\<exists>w' i. mysem_open_mmap 1 ex_sem_quiet 96 2147483647 ''/s'' O_CREAT 384 3 ex_sem_world = Some (w', Inr i) \<and>
     sem_val_mmap (i_data (d_ino (w_disk w') i)) = 3"
proof -
  have "uint (3 :: 32 word) \<le> 2147483647" "has_flag O_CREAT O_CREAT"
      "d_dir (w_disk ex_sem_world) ''/s'' = None" "fds_ok (w_fds ex_sem_world)"
    by (simp_all add: has_flag_def flag_defs ex_sem_world_def fds_ok_def)
  from mysem_open_mmap_creates [OF ex_sem_quiet_quiet this, of 0 96 384] show ?thesis
    by auto
qed

text \<open>
  mysem_open never leaks a descriptor, whatever other processes do and whichever of its
  system calls fail.
\<close>

theorem mysem_open_mmap_no_fd_leak:
  assumes "fds_ok (w_fds w)" and "mysem_open_mmap fuel os sz vmax path oflag mode value w = Some (w', r)"
  shows "w_fds w' = w_fds w"
  using sem_open_again_fds [OF assms(1) refl assms(2) [unfolded mysem_open_mmap_def]]
  by (simp add: fds_restored_def)

theorem mysem_open_mmap_no_fd_leak_witness:
  "\<exists>w' r. mysem_open_mmap 1 ex_sem_quiet 96 2147483647 ''/s'' 0 0 0 ex_sem_world = Some (w', r) \<and> w_fds w' = []"
proof -
  have f: "fds_ok (w_fds ex_sem_world)" "w_fds ex_sem_world = []"
    by (simp_all add: ex_sem_world_def fds_ok_def)
  have "\<exists>w' r. mysem_open_mmap 1 ex_sem_quiet 96 2147483647 ''/s'' 0 0 0 ex_sem_world = Some (w', r)"
    by (simp add: mysem_open_mmap_def Let_def sem_open_exists_mmap_def sys_open_def syscall_quiet has_flag_def
        ex_sem_world_def split: option.splits)
  with mysem_open_mmap_no_fd_leak [OF f(1)] f(2) show ?thesis by auto
qed

text \<open>
  Another process removes the name after the second call (\<open>open\<close> at the label \<open>exists\<close> has
  succeeded and the file is mapped, but not yet looked at).
\<close>

definition ex_sem_removed :: "mysem os" where
  "ex_sem_removed = \<lparr>os_env = (\<lambda>n d. if n = 3 then d\<lparr>d_dir := Map.empty\<rparr> else d), os_fault = (\<lambda>_. None)\<rparr>"

definition ex_sem_existing :: "mysem world" where
  "ex_sem_existing = ex_sem_world\<lparr>w_disk := (w_disk ex_sem_world)\<lparr>d_dir := [''/s'' \<mapsto> 0], d_next := 1\<rparr>\<rparr>"

lemma sem_wait_init_first:
  "sem_wait_init_mmap again os path oflag fd sem MAX_TRIES_mmap w =
     (case sys_stat os path w of
        (w1, Inl e) \<Rightarrow>
          if e = ENOENT \<and> has_flag oflag O_CREAT then again (Some sem) (sys_close fd w1)
          else Some (sem_open_err_mmap os path False fd (Some sem) e w1)
      | (w1, Inr statbuff) \<Rightarrow>
          if \<not> has_flag (i_mode statbuff) S_IXUSR
          then Some (upd_ino sem (i_data_update (sem_magic_update (\<lambda>_. SEM_MAGIC_mmap))) (sys_close fd w1), Inr sem)
          else sem_wait_init_mmap again os path oflag fd sem 9 (tick os w1))"
  using sem_wait_init_mmap.simps(2) [of again os path oflag fd sem 9 w] by (simp add: MAX_TRIES_mmap_def)

text \<open>
  but it can leak a mapping.  When the name disappears between \<open>mmap\<close> and \<open>stat\<close>, the code
  closes the descriptor and jumps back to \<open>again\<close> without unmapping: the call succeeds with
  two mappings, of which the caller can release only one.
\<close>

theorem mysem_open_mmap_leaks_mapping:
  "\<exists>w' i j. mysem_open_mmap (Suc (Suc 0)) ex_sem_removed 96 2147483647 ''/s'' O_CREAT 384 1 ex_sem_existing = Some (w', Inr i) \<and>
     w_maps ex_sem_existing = [] \<and> w_maps w' = [i, j] \<and> i \<noteq> j"
  by (simp add: ex_sem_removed_def ex_sem_existing_def ex_sem_world_def mysem_open_mmap_def
      sem_open_exists_mmap_def sem_open_create_mmap_def Let_def syscall_defs syscall_def tick_def add_fd_def
      new_fd_def sys_close_def with_fd_def fd_ino_def upd_ino_def has_flag_def flag_defs sem_wait_init_first)

end
