(* ===== verification/Sem_svsem.thy ===== *)
theory Sem_svsem
  imports Sem_Spec
begin

text \<open>
  my_pxsem_svsem: POSIX semaphores on top of System V semaphores.  The kernel's semaphores
  are part of the state; a file supplies the key.  Every system call may fail, and before
  every call other processes may have changed the kernel's state.
\<close>

section \<open>The kernel\<close>

text \<open>One semaphore: its value and whether a \<open>semop\<close> was done on it (\<open>sem_otime\<close> nonzero).\<close>

record svsem =
  sv_val :: int
  sv_otime :: bool

text \<open>Files by name (inode numbers), semaphore sets by key, and the sets.\<close>

record kernel =
  k_dir :: "string \<Rightarrow> nat option"
  k_keys :: "int \<Rightarrow> nat option"
  k_sems :: "nat \<Rightarrow> svsem option"
  k_next :: nat

record svworld =
  v_kernel :: kernel
  v_allocs :: nat
  v_time :: nat

text \<open>\<open>sos_key\<close> is the key that \<open>ftok\<close> derives from a file.\<close>

record svos =
  sos_env :: "nat \<Rightarrow> kernel \<Rightarrow> kernel"
  sos_fault :: "nat \<Rightarrow> status"
  sos_key :: "nat \<Rightarrow> int"

definition sv_quiet :: "svos \<Rightarrow> bool" where
  "sv_quiet os \<longleftrightarrow> sos_env os = (\<lambda>_ k. k) \<and> sos_fault os = (\<lambda>_. None)"

definition IPC_CREAT :: cint where "IPC_CREAT = 512"
definition IPC_EXCL :: cint where "IPC_EXCL = 1024"
definition SVSEM_MODE :: cint where "SVSEM_MODE = 420"
definition SEMVMX :: int where "SEMVMX = 32767"

lemmas ipc_defs = IPC_CREAT_def IPC_EXCL_def SVSEM_MODE_def

definition sv_tick :: "svos \<Rightarrow> svworld \<Rightarrow> svworld" where
  "sv_tick os w = w\<lparr>v_kernel := sos_env os (v_time w) (v_kernel w), v_time := Suc (v_time w)\<rparr>"

definition sv_call :: "svos \<Rightarrow> (kernel \<Rightarrow> kernel \<times> 'a result) \<Rightarrow> svworld \<Rightarrow> svworld \<times> 'a result" where
  "sv_call os f w =
     (let w1 = sv_tick os w in
      case sos_fault os (v_time w) of
        Some e \<Rightarrow> (w1, Inl e)
      | None \<Rightarrow> (case f (v_kernel w1) of (k, r) \<Rightarrow> (w1\<lparr>v_kernel := k\<rparr>, r)))"

text \<open>A call that may block (\<open>None\<close>).\<close>

definition sv_call_block ::
  "svos \<Rightarrow> (kernel \<Rightarrow> (kernel \<times> 'a result) option) \<Rightarrow> svworld \<Rightarrow> (svworld \<times> 'a result) option"
where
  "sv_call_block os f w =
     (let w1 = sv_tick os w in
      case sos_fault os (v_time w) of
        Some e \<Rightarrow> Some (w1, Inl e)
      | None \<Rightarrow> map_option (\<lambda>(k, r). (w1\<lparr>v_kernel := k\<rparr>, r)) (f (v_kernel w1)))"

text \<open>\<open>open(path, oflag, mode)\<close> with \<open>O_CREAT\<close>; the descriptor is closed at once.\<close>

definition k_creat :: "string \<Rightarrow> cint \<Rightarrow> kernel \<Rightarrow> kernel \<times> unit result" where
  "k_creat path oflag k =
     (case k_dir k path of
        Some _ \<Rightarrow> (k, if has_flag oflag O_EXCL then Inl EEXIST else Inr ())
      | None \<Rightarrow> (k\<lparr>k_dir := (k_dir k)(path \<mapsto> k_next k), k_next := Suc (k_next k)\<rparr>, Inr ()))"

definition k_ftok :: "svos \<Rightarrow> string \<Rightarrow> kernel \<Rightarrow> kernel \<times> int result" where
  "k_ftok os path k = (k, case k_dir k path of None \<Rightarrow> Inl ENOENT | Some i \<Rightarrow> Inr (sos_key os i))"

text \<open>\<open>semget\<close>: a set of \<open>n\<close> semaphores is created only with \<open>IPC_CREAT\<close> and \<open>n > 0\<close>.\<close>

definition k_semget :: "int \<Rightarrow> nat \<Rightarrow> cint \<Rightarrow> kernel \<Rightarrow> kernel \<times> nat result" where
  "k_semget key n semflag k =
     (case k_keys k key of
        Some semid \<Rightarrow>
          (k, if has_flag semflag IPC_CREAT \<and> has_flag semflag IPC_EXCL then Inl EEXIST
              else if n > 1 then Inl EINVAL else Inr semid)
      | None \<Rightarrow>
          if \<not> has_flag semflag IPC_CREAT then (k, Inl ENOENT)
          else if n = 0 then (k, Inl EINVAL)
          else (k\<lparr>k_keys := (k_keys k)(key \<mapsto> k_next k),
                  k_sems := (k_sems k)(k_next k \<mapsto> \<lparr>sv_val = 0, sv_otime = False\<rparr>),
                  k_next := Suc (k_next k)\<rparr>, Inr (k_next k)))"

definition k_setval :: "nat \<Rightarrow> int \<Rightarrow> kernel \<Rightarrow> kernel \<times> unit result" where
  "k_setval semid v k =
     (case k_sems k semid of
        None \<Rightarrow> (k, Inl EINVAL)
      | Some s \<Rightarrow> (k\<lparr>k_sems := (k_sems k)(semid \<mapsto> s\<lparr>sv_val := v\<rparr>)\<rparr>, Inr ()))"

definition k_stat :: "nat \<Rightarrow> kernel \<Rightarrow> kernel \<times> svsem result" where
  "k_stat semid k = (k, case k_sems k semid of None \<Rightarrow> Inl EINVAL | Some s \<Rightarrow> Inr s)"

definition k_rmid :: "nat \<Rightarrow> kernel \<Rightarrow> kernel \<times> unit result" where
  "k_rmid semid k =
     (case k_sems k semid of
        None \<Rightarrow> (k, Inl EINVAL)
      | Some s \<Rightarrow> (k\<lparr>k_sems := (k_sems k)(semid := None),
          k_keys := (\<lambda>key. if k_keys k key = Some semid then None else k_keys k key)\<rparr>, Inr ()))"

text \<open>\<open>semop\<close> with one operation; \<open>None\<close> is a call that would block.\<close>

definition k_semop :: "nat \<Rightarrow> int \<Rightarrow> bool \<Rightarrow> kernel \<Rightarrow> (kernel \<times> unit result) option" where
  "k_semop semid sem_op nowait k =
     (case k_sems k semid of
        None \<Rightarrow> Some (k, Inl EINVAL)
      | Some s \<Rightarrow>
          if sem_op > 0 \<and> sv_val s + sem_op > SEMVMX then Some (k, Inl (EOTHER 34)) \<comment> \<open>ERANGE\<close>
          else if sem_op > 0 \<or> (sem_op = 0 \<and> sv_val s = 0) \<or> (sem_op < 0 \<and> sv_val s \<ge> - sem_op)
          then Some (k\<lparr>k_sems := (k_sems k)(semid \<mapsto> \<lparr>sv_val = sv_val s + sem_op, sv_otime = True\<rparr>)\<rparr>, Inr ())
          else if nowait then Some (k, Inl EAGAIN)
          else None)"

section \<open>The semaphore (semaphore.h)\<close>

record mysem_sv =
  sem_semid :: nat
  sem_magic_sv :: "32 word"

definition SEM_MAGIC_svsem :: "32 word" where "SEM_MAGIC_svsem = 0x45678923"

section \<open>mysem_open\<close>

text \<open>Lines 85 to 90; \<open>semid\<close> is \<open>None\<close> for \<open>-1\<close>.\<close>

definition sem_open_err_svsem :: "svos \<Rightarrow> nat option \<Rightarrow> errno \<Rightarrow> svworld \<Rightarrow> svworld \<times> mysem_sv result" where
  "sem_open_err_svsem os semid e w =
     (case semid of None \<Rightarrow> (w, Inl e) | Some i \<Rightarrow> (fst (sv_call os (k_rmid i) w), Inl e))"

text \<open>Lines 92 to 99.\<close>

definition sem_open_finish_svsem :: "svos \<Rightarrow> nat \<Rightarrow> svworld \<Rightarrow> svworld \<times> mysem_sv result" where
  "sem_open_finish_svsem os semid w =
     (case sv_call os (\<lambda>k. (k, Inr ())) w of \<comment> \<open>malloc\<close>
        (w1, Inl e) \<Rightarrow> sem_open_err_svsem os (Some semid) e w1
      | (w1, Inr _) \<Rightarrow>
          (w1\<lparr>v_allocs := Suc (v_allocs w1)\<rparr>, Inr \<lparr>sem_semid = semid, sem_magic_sv = SEM_MAGIC_svsem\<rparr>))"

text \<open>Lines 44 to 58: this process created the semaphore.\<close>

definition sem_open_init_svsem ::
  "svos \<Rightarrow> 32 word \<Rightarrow> nat \<Rightarrow> svworld \<Rightarrow> (svworld \<times> mysem_sv result) option"
where
  "sem_open_init_svsem os value semid w =
     (case sv_call os (k_setval semid 0) w of
        (w1, Inl e) \<Rightarrow> Some (sem_open_err_svsem os (Some semid) e w1)
      | (w1, Inr _) \<Rightarrow>
          if uint value > SEMVMX then Some (sem_open_err_svsem os (Some semid) EINVAL w1)
          else map_option (\<lambda>r. case r of
                  (w2, Inl e) \<Rightarrow> sem_open_err_svsem os (Some semid) e w2
                | (w2, Inr _) \<Rightarrow> sem_open_finish_svsem os semid w2)
              (sv_call_block os (k_semop semid (uint value) False) w1))"

definition MAX_TRIES_svsem :: nat where "MAX_TRIES_svsem = 10"

text \<open>Lines 77 to 84: wait until the creator's \<open>semop\<close> has set \<open>sem_otime\<close>.\<close>

fun sem_wait_init_svsem :: "svos \<Rightarrow> nat \<Rightarrow> nat \<Rightarrow> svworld \<Rightarrow> svworld \<times> mysem_sv result" where
  "sem_wait_init_svsem os semid 0 w = sem_open_err_svsem os (Some semid) ETIMEDOUT w"
| "sem_wait_init_svsem os semid (Suc n) w =
     (case sv_call os (k_stat semid) w of
        (w1, Inl e) \<Rightarrow> sem_open_err_svsem os (Some semid) e w1
      | (w1, Inr s) \<Rightarrow>
          if sv_otime s then sem_open_finish_svsem os semid w1
          else sem_wait_init_svsem os semid n (sv_tick os w1))" \<comment> \<open>sleep(1)\<close>

text \<open>Lines 66 to 84: the semaphore exists already.\<close>

definition sem_open_existing_svsem :: "svos \<Rightarrow> string \<Rightarrow> cint \<Rightarrow> svworld \<Rightarrow> svworld \<times> mysem_sv result" where
  "sem_open_existing_svsem os path semflag w =
     (case sv_call os (k_ftok os path) w of
        (w1, Inl e) \<Rightarrow> sem_open_err_svsem os None e w1
      | (w1, Inr key) \<Rightarrow>
          (case sv_call os (k_semget key 0 semflag) w1 of
             (w2, Inl e) \<Rightarrow> sem_open_err_svsem os None e w2
           | (w2, Inr semid) \<Rightarrow> sem_wait_init_svsem os semid MAX_TRIES_svsem w2))"

text \<open>The whole function; \<open>None\<close> when the initialising \<open>semop\<close> blocks.\<close>

definition mysem_open_svsem ::
  "svos \<Rightarrow> string \<Rightarrow> cint \<Rightarrow> cint \<Rightarrow> 32 word \<Rightarrow> svworld \<Rightarrow> (svworld \<times> mysem_sv result) option"
where
  "mysem_open_svsem os path oflag mode value w =
     (if has_flag oflag O_CREAT then
        case sv_call os (k_creat path oflag) w of
          (w1, Inl e) \<Rightarrow> Some (w1, Inl e)
        | (w1, Inr _) \<Rightarrow>
            (case sv_call os (k_ftok os path) w1 of
               (w2, Inl e) \<Rightarrow> Some (w2, Inl e)
             | (w2, Inr key) \<Rightarrow>
                 let semflag = IPC_CREAT OR (mode AND 0x1FF);
                     semflag = (if has_flag oflag O_EXCL then semflag OR IPC_EXCL else semflag)
                 in case sv_call os (k_semget key 1 (semflag OR IPC_EXCL)) w2 of
                      (w3, Inr semid) \<Rightarrow> sem_open_init_svsem os value semid w3
                    | (w3, Inl e) \<Rightarrow> Some (
                        if e \<noteq> EEXIST \<or> has_flag semflag IPC_EXCL then sem_open_err_svsem os None e w3
                        else sem_open_existing_svsem os path semflag w3))
      else Some (sem_open_existing_svsem os path SVSEM_MODE w))"

definition Mysem_open_svsem ::
  "svos \<Rightarrow> string \<Rightarrow> cint \<Rightarrow> cint \<Rightarrow> 32 word \<Rightarrow> svworld \<Rightarrow> (svworld \<times> mysem_sv wrapped) option"
where
  "Mysem_open_svsem os path oflag mode value w =
     map_option (map_prod id (err_sys_on_error (''mysem_open error for '' @ path)))
       (mysem_open_svsem os path oflag mode value w)"

section \<open>The other operations\<close>

text \<open>They act on the kernel directly; \<open>None\<close> is a call that would block.\<close>

definition sem_valid_svsem :: "mysem_sv \<Rightarrow> kernel \<Rightarrow> (kernel \<times> 'a result) option \<Rightarrow> (kernel \<times> 'a result) option" where
  "sem_valid_svsem sem k r = (if sem_magic_sv sem \<noteq> SEM_MAGIC_svsem then Some (k, Inl EINVAL) else r)"

definition mysem_wait_svsem :: "mysem_sv \<Rightarrow> kernel \<Rightarrow> (kernel \<times> unit result) option" where
  "mysem_wait_svsem sem k = sem_valid_svsem sem k (k_semop (sem_semid sem) (-1) False k)"

definition mysem_trywait_svsem :: "mysem_sv \<Rightarrow> kernel \<Rightarrow> (kernel \<times> unit result) option" where
  "mysem_trywait_svsem sem k = sem_valid_svsem sem k (k_semop (sem_semid sem) (-1) True k)"

definition mysem_post_svsem :: "mysem_sv \<Rightarrow> kernel \<Rightarrow> (kernel \<times> unit result) option" where
  "mysem_post_svsem sem k = sem_valid_svsem sem k (k_semop (sem_semid sem) 1 False k)"

definition mysem_getvalue_svsem :: "mysem_sv \<Rightarrow> kernel \<Rightarrow> (kernel \<times> int result) option" where
  "mysem_getvalue_svsem sem k = sem_valid_svsem sem k
     (Some (k, case k_sems k (sem_semid sem) of None \<Rightarrow> Inl EINVAL | Some s \<Rightarrow> Inr (sv_val s)))"

text \<open>The structure is freed: the result has no descriptor any more.\<close>

definition mysem_close_svsem :: "mysem_sv \<Rightarrow> svworld \<Rightarrow> svworld \<times> mysem_sv option \<times> unit result" where
  "mysem_close_svsem sem w =
     (if sem_magic_sv sem \<noteq> SEM_MAGIC_svsem then (w, Some sem, Inl EINVAL)
      else (w\<lparr>v_allocs := v_allocs w - 1\<rparr>, None, Inr ()))"

definition mysem_unlink_svsem :: "svos \<Rightarrow> string \<Rightarrow> svworld \<Rightarrow> svworld \<times> unit result" where
  "mysem_unlink_svsem os path w =
     (case sv_call os (k_ftok os path) w of
        (w1, Inl e) \<Rightarrow> (w1, Inl e)
      | (w1, Inr key) \<Rightarrow>
          (case sv_call os (\<lambda>k. case k_dir k path of
                  None \<Rightarrow> (k, Inl ENOENT)
                | Some _ \<Rightarrow> (k\<lparr>k_dir := (k_dir k)(path := None)\<rparr>, Inr ())) w1 of
             (w2, Inl e) \<Rightarrow> (w2, Inl e)
           | (w2, Inr _) \<Rightarrow>
               (case sv_call os (k_semget key 1 SVSEM_MODE) w2 of
                  (w3, Inl e) \<Rightarrow> (w3, Inl e)
                | (w3, Inr semid) \<Rightarrow> sv_call os (k_rmid semid) w3)))"

section \<open>The wrapper functions\<close>

definition exit_on_Inl :: "string \<Rightarrow> (kernel \<times> 'a result) option \<Rightarrow> (kernel \<times> 'a wrapped) option" where
  "exit_on_Inl msg = map_option (map_prod id (err_sys_on_error msg))"

definition Mysem_wait_svsem :: "mysem_sv \<Rightarrow> kernel \<Rightarrow> (kernel \<times> unit wrapped) option" where
  "Mysem_wait_svsem sem k = exit_on_Inl ''mysem_wait error'' (mysem_wait_svsem sem k)"

definition Mysem_post_svsem :: "mysem_sv \<Rightarrow> kernel \<Rightarrow> (kernel \<times> unit wrapped) option" where
  "Mysem_post_svsem sem k = exit_on_Inl ''mysem_post error'' (mysem_post_svsem sem k)"

definition Mysem_getvalue_svsem :: "mysem_sv \<Rightarrow> kernel \<Rightarrow> (kernel \<times> int wrapped) option" where
  "Mysem_getvalue_svsem sem k = exit_on_Inl ''mysem_getvalue error'' (mysem_getvalue_svsem sem k)"

text \<open>\<open>EAGAIN\<close> is returned to the caller.\<close>

definition Mysem_trywait_svsem :: "mysem_sv \<Rightarrow> kernel \<Rightarrow> (kernel \<times> unit result wrapped) option" where
  "Mysem_trywait_svsem sem k =
     map_option (map_prod id (\<lambda>r. case r of
         Inl e \<Rightarrow> if e \<noteq> EAGAIN then Exits ''mysem_trywait error'' e else Returns r
       | Inr _ \<Rightarrow> Returns r)) (mysem_trywait_svsem sem k)"

definition Mysem_close_svsem :: "mysem_sv \<Rightarrow> svworld \<Rightarrow> svworld \<times> mysem_sv option \<times> unit wrapped" where
  "Mysem_close_svsem sem w =
     map_prod id (map_prod id (err_sys_on_error ''mysem_close error'')) (mysem_close_svsem sem w)"

definition Mysem_unlink_svsem :: "svos \<Rightarrow> string \<Rightarrow> svworld \<Rightarrow> svworld \<times> unit wrapped" where
  "Mysem_unlink_svsem os path w =
     map_prod id (err_sys_on_error ''mysem_unlink error'') (mysem_unlink_svsem os path w)"

section \<open>Calls of a process that runs alone\<close>

lemma sv_tick_quiet: "sv_quiet os \<Longrightarrow> sv_tick os w = w\<lparr>v_time := Suc (v_time w)\<rparr>"
  by (simp add: sv_tick_def sv_quiet_def)

lemma sv_call_quiet:
  "sv_quiet os \<Longrightarrow> sv_call os f w =
     (w\<lparr>v_kernel := fst (f (v_kernel w)), v_time := Suc (v_time w)\<rparr>, snd (f (v_kernel w)))"
  by (simp add: sv_call_def sv_tick_quiet Let_def split: prod.splits) (simp add: sv_quiet_def)

lemma sv_call_block_quiet:
  "sv_quiet os \<Longrightarrow> f (v_kernel w) = Some (k, r) \<Longrightarrow>
   sv_call_block os f w = Some (w\<lparr>v_kernel := k, v_time := Suc (v_time w)\<rparr>, r)"
  by (simp add: sv_call_block_def sv_tick_quiet Let_def) (simp add: sv_quiet_def)

lemmas sv_quiet_simps = sv_call_quiet sv_call_block_quiet sv_tick_quiet

section \<open>The contract of a semaphore\<close>

definition sem_ok_svsem :: "nat \<Rightarrow> kernel \<Rightarrow> bool" where
  "sem_ok_svsem i k \<longleftrightarrow> (case k_sems k i of None \<Rightarrow> False | Some s \<Rightarrow> 0 \<le> sv_val s \<and> sv_val s \<le> SEMVMX)"

definition sem_val_svsem :: "nat \<Rightarrow> kernel \<Rightarrow> nat" where
  "sem_val_svsem i k = (case k_sems k i of None \<Rightarrow> 0 | Some s \<Rightarrow> nat (sv_val s))"

definition sem_post1_svsem :: "nat \<Rightarrow> kernel \<Rightarrow> kernel option" where
  "sem_post1_svsem i k =
     (case mysem_post_svsem \<lparr>sem_semid = i, sem_magic_sv = SEM_MAGIC_svsem\<rparr> k of
        Some (k', Inr _) \<Rightarrow> Some k' | _ \<Rightarrow> None)"

definition sem_wait1_svsem :: "nat \<Rightarrow> kernel \<Rightarrow> kernel option" where
  "sem_wait1_svsem i k =
     (case mysem_wait_svsem \<lparr>sem_semid = i, sem_magic_sv = SEM_MAGIC_svsem\<rparr> k of
        Some (k', Inr _) \<Rightarrow> Some k' | _ \<Rightarrow> None)"

lemmas svsem_defs = sem_ok_svsem_def sem_val_svsem_def sem_post1_svsem_def sem_wait1_svsem_def
  mysem_post_svsem_def mysem_wait_svsem_def sem_valid_svsem_def k_semop_def SEMVMX_def

interpretation svsem_sem: counting_semaphore "sem_ok_svsem i" "sem_val_svsem i" 32767 "sem_post1_svsem i" "sem_wait1_svsem i"
  for i
proof unfold_locales
  fix k assume "sem_ok_svsem i k" "sem_val_svsem i k < 32767"
  then show "\<exists>k'. sem_post1_svsem i k = Some k' \<and> sem_ok_svsem i k' \<and> sem_val_svsem i k' = Suc (sem_val_svsem i k)"
    by (auto simp: svsem_defs split: option.splits)
next
  fix k assume "sem_ok_svsem i k" "0 < sem_val_svsem i k"
  then show "\<exists>k'. sem_wait1_svsem i k = Some k' \<and> sem_ok_svsem i k' \<and> sem_val_svsem i k' = sem_val_svsem i k - 1"
    by (auto simp: svsem_defs split: option.splits)
next
  fix k assume "sem_ok_svsem i k" "sem_val_svsem i k = 0"
  then show "sem_wait1_svsem i k = None"
    by (auto simp: svsem_defs split: option.splits)
qed

section \<open>Properties\<close>

lemma ipc_flags [simp]:
  "has_flag IPC_CREAT IPC_CREAT" "has_flag IPC_EXCL IPC_EXCL" "\<not> has_flag IPC_CREAT IPC_EXCL"
  "\<not> has_flag IPC_EXCL IPC_CREAT" "\<not> has_flag (mode AND 0x1FF) IPC_EXCL" "\<not> has_flag SVSEM_MODE IPC_CREAT"
  by (simp_all add: has_flag_def ipc_defs and.assoc)

text \<open>The file whose key identifies the semaphore: an existing one or the one created.\<close>

definition sv_inode :: "string \<Rightarrow> kernel \<Rightarrow> nat" where
  "sv_inode path k = (case k_dir k path of Some i \<Rightarrow> i | None \<Rightarrow> k_next k)"

lemma mysem_open_svsem_creates:
  assumes q: "sv_quiet os" and c: "has_flag oflag O_CREAT" and v: "uint value \<le> SEMVMX"
    and x: "k_dir (v_kernel w) path = None \<or> \<not> has_flag oflag O_EXCL"
    and k: "k_keys (v_kernel w) (sos_key os (sv_inode path (v_kernel w))) = None"
  shows "\<exists>w' sid. mysem_open_svsem os path oflag mode value w =
      Some (w', Inr \<lparr>sem_semid = sid, sem_magic_sv = SEM_MAGIC_svsem\<rparr>) \<and>
    k_dir (v_kernel w') path = Some (sv_inode path (v_kernel w)) \<and>
    k_keys (v_kernel w') (sos_key os (sv_inode path (v_kernel w))) = Some sid \<and>
    k_sems (v_kernel w') sid = Some \<lparr>sv_val = uint value, sv_otime = True\<rparr> \<and>
    v_allocs w' = Suc (v_allocs w)"
proof -
  define i where "i = sv_inode path (v_kernel w)"
  define k1 where "k1 = fst (k_creat path oflag (v_kernel w))"
  have k1: "k_creat path oflag (v_kernel w) = (k1, Inr ())" "k_dir k1 path = Some i"
      "k_keys k1 (sos_key os i) = None"
    using x k by (auto simp: k1_def i_def k_creat_def sv_inode_def split: option.splits)
  define sid where "sid = k_next k1"
  define k2 where "k2 = k1\<lparr>k_keys := (k_keys k1)(sos_key os i \<mapsto> sid),
    k_sems := (k_sems k1)(sid \<mapsto> \<lparr>sv_val = 0, sv_otime = False\<rparr>), k_next := Suc sid\<rparr>"
  have get: "k_semget (sos_key os i) 1 semflag k1 = (k2, Inr sid)" if "has_flag semflag IPC_CREAT" for semflag
    using k1(3) that by (simp add: k_semget_def k2_def sid_def)
  have k2: "k_setval sid 0 k2 = (k2, Inr ())" "k_dir k2 path = Some i" "k_keys k2 (sos_key os i) = Some sid"
    using k1(2) by (simp_all add: k_setval_def k2_def)
  define k3 where "k3 = k2\<lparr>k_sems := (k_sems k2)(sid \<mapsto> \<lparr>sv_val = uint value, sv_otime = True\<rparr>)\<rparr>"
  have "uint value = 0 \<or> 0 < uint value"
    using uint_ge_0 [of "value"] by linarith
  then have op: "k_semop sid (uint value) False k2 = Some (k3, Inr ())"
    using v by (auto simp: k_semop_def k2_def k3_def)
  have ft: "k_ftok os path k1 = (k1, Inr (sos_key os i))"
    using k1(2) by (simp add: k_ftok_def)
  have fin: "k_dir k3 path = Some i" "k_keys k3 (sos_key os i) = Some sid"
      "k_sems k3 sid = Some \<lparr>sv_val = uint value, sv_otime = True\<rparr>"
    using k2 by (simp_all add: k3_def)
  have "\<not> SEMVMX < uint value" using v by simp
  then show ?thesis
    using c k1(1) q get k2 op ft fin
    by (simp add: mysem_open_svsem_def sv_quiet_simps Let_def sem_open_init_svsem_def sem_open_finish_svsem_def
        i_def [symmetric])
qed

lemma mysem_open_svsem_existing:
  assumes q: "sv_quiet os" and x: "\<not> (has_flag oflag O_CREAT \<and> has_flag oflag O_EXCL)"
    and d: "k_dir (v_kernel w) path = Some i" and k: "k_keys (v_kernel w) (sos_key os i) = Some sid"
    and s: "k_sems (v_kernel w) sid = Some s" "sv_otime s"
  shows "\<exists>w'. mysem_open_svsem os path oflag mode value w =
      Some (w', Inr \<lparr>sem_semid = sid, sem_magic_sv = SEM_MAGIC_svsem\<rparr>) \<and>
    v_kernel w' = v_kernel w \<and> v_allocs w' = Suc (v_allocs w)"
proof -
  have e: "\<exists>w'. sem_open_existing_svsem os path semflag w0 = (w', Inr \<lparr>sem_semid = sid, sem_magic_sv = SEM_MAGIC_svsem\<rparr>) \<and>
      v_kernel w' = v_kernel w \<and> v_allocs w' = Suc (v_allocs w0)"
    if "v_kernel w0 = v_kernel w" "\<not> has_flag semflag IPC_EXCL" for semflag w0
    using that q d k s
    by (simp add: sem_open_existing_svsem_def sv_quiet_simps k_ftok_def k_semget_def MAX_TRIES_svsem_def
        numeral_eq_Suc k_stat_def sem_open_finish_svsem_def)
  have "\<not> has_flag SVSEM_MODE IPC_EXCL" by (simp add: has_flag_def ipc_defs)
  then show ?thesis
    using e [of w SVSEM_MODE] e [of "w\<lparr>v_time := Suc (Suc (Suc (v_time w)))\<rparr>" "IPC_CREAT OR mode AND 0x1FF"] x d k q
    by (simp add: mysem_open_svsem_def sv_quiet_simps k_creat_def k_ftok_def k_semget_def Let_def)
qed

text \<open>
  a semaphore created under a name is found under it.  Creation leaves the System V
  semaphore at the requested value, and a later open of the same name by any process,
  with or without \<open>O_CREAT\<close>, returns the same semaphore and does not change its value.
\<close>

theorem mysem_svsem_create_then_open:
  assumes "sv_quiet os" and "has_flag oflag O_CREAT" and "uint value \<le> SEMVMX"
    and "k_dir (v_kernel w) path = None \<or> \<not> has_flag oflag O_EXCL"
    and "k_keys (v_kernel w) (sos_key os (sv_inode path (v_kernel w))) = None"
    and "\<not> (has_flag oflag2 O_CREAT \<and> has_flag oflag2 O_EXCL)"
  shows "\<exists>w1 sem w2. mysem_open_svsem os path oflag mode value w = Some (w1, Inr sem) \<and>
    mysem_open_svsem os path oflag2 mode2 value2 w1 = Some (w2, Inr sem) \<and>
    sem_ok_svsem (sem_semid sem) (v_kernel w2) \<and> sem_val_svsem (sem_semid sem) (v_kernel w2) = unat value"
proof -
  from mysem_open_svsem_creates [OF assms(1-5), of mode] obtain w1 sid where
    w1: "mysem_open_svsem os path oflag mode value w = Some (w1, Inr \<lparr>sem_semid = sid, sem_magic_sv = SEM_MAGIC_svsem\<rparr>)"
      "k_dir (v_kernel w1) path = Some (sv_inode path (v_kernel w))"
      "k_keys (v_kernel w1) (sos_key os (sv_inode path (v_kernel w))) = Some sid"
      "k_sems (v_kernel w1) sid = Some \<lparr>sv_val = uint value, sv_otime = True\<rparr>"
    by blast
  from mysem_open_svsem_existing [OF assms(1,6) w1(2-4)] obtain w2 where w2:
    "mysem_open_svsem os path oflag2 mode2 value2 w1 = Some (w2, Inr \<lparr>sem_semid = sid, sem_magic_sv = SEM_MAGIC_svsem\<rparr>)"
    "v_kernel w2 = v_kernel w1"
    by auto
  have "sem_ok_svsem sid (v_kernel w2)" "sem_val_svsem sid (v_kernel w2) = unat value"
    using w1(4) w2(2) assms(3) uint_ge_0 [of "value"]
    by (simp_all add: sem_ok_svsem_def sem_val_svsem_def)
  with w1(1) w2(1) show ?thesis
    by (intro exI [of _ w1] exI [of _ "\<lparr>sem_semid = sid, sem_magic_sv = SEM_MAGIC_svsem\<rparr>"] exI [of _ w2]) simp
qed

definition ex_kernel :: kernel where
  "ex_kernel = \<lparr>k_dir = Map.empty, k_keys = Map.empty, k_sems = Map.empty, k_next = 0\<rparr>"

definition ex_svworld :: svworld where
  "ex_svworld = \<lparr>v_kernel = ex_kernel, v_allocs = 0, v_time = 0\<rparr>"

definition ex_svos :: svos where
  "ex_svos = \<lparr>sos_env = (\<lambda>_ k. k), sos_fault = (\<lambda>_. None), sos_key = int\<rparr>"

theorem mysem_svsem_create_then_open_witness:
  "\<exists>w1 sem w2. mysem_open_svsem ex_svos ''/s'' O_CREAT 384 5 ex_svworld = Some (w1, Inr sem) \<and>
     mysem_open_svsem ex_svos ''/s'' 0 0 0 w1 = Some (w2, Inr sem) \<and>
     sem_val_svsem (sem_semid sem) (v_kernel w2) = 5"
proof -
  have h: "sv_quiet ex_svos" "has_flag O_CREAT O_CREAT" "uint (5 :: 32 word) \<le> SEMVMX"
      "k_dir (v_kernel ex_svworld) ''/s'' = None \<or> \<not> has_flag O_CREAT O_EXCL"
      "k_keys (v_kernel ex_svworld) (sos_key ex_svos (sv_inode ''/s'' (v_kernel ex_svworld))) = None"
      "\<not> (has_flag 0 O_CREAT \<and> has_flag 0 O_EXCL)"
    by (simp_all add: sv_quiet_def ex_svos_def has_flag_def flag_defs SEMVMX_def ex_svworld_def ex_kernel_def)
  show ?thesis
    using mysem_svsem_create_then_open [OF h, of 384 0 0] by auto
qed

text \<open>
  a failing open can destroy a semaphore that other processes use.  When the semaphore
  exists and is initialised and only the final \<open>malloc\<close> fails, the error path removes it
  with \<open>IPC_RMID\<close>, although this process did not create it.
\<close>

theorem mysem_open_svsem_removes_existing:
  assumes "sos_env os = (\<lambda>_ k. k)" and "\<not> has_flag oflag O_CREAT"
    and "k_dir (v_kernel w) path = Some i" and "k_keys (v_kernel w) (sos_key os i) = Some sid"
    and "k_sems (v_kernel w) sid = Some s" and "sv_otime s"
    and "sos_fault os = (\<lambda>n. if n = v_time w + 3 then Some e else None)"
  shows "\<exists>w'. mysem_open_svsem os path oflag mode value w = Some (w', Inl e) \<and>
    k_sems (v_kernel w') sid = None"
  using assms
  by (simp add: mysem_open_svsem_def sem_open_existing_svsem_def sv_call_def sv_tick_def k_ftok_def k_semget_def
      has_flag_def ipc_defs Let_def MAX_TRIES_svsem_def numeral_eq_Suc k_stat_def sem_open_finish_svsem_def
      sem_open_err_svsem_def k_rmid_def)

theorem mysem_open_svsem_removes_existing_witness:
  "\<exists>w'. mysem_open_svsem (ex_svos\<lparr>sos_fault := (\<lambda>n. if n = 3 then Some ENOMEM else None)\<rparr>) ''/s'' 0 0 0
      (ex_svworld\<lparr>v_kernel := \<lparr>k_dir = [''/s'' \<mapsto> 0], k_keys = [0 \<mapsto> 1],
         k_sems = [1 \<mapsto> \<lparr>sv_val = 4, sv_otime = True\<rparr>], k_next = 2\<rparr>\<rparr>) = Some (w', Inl ENOMEM) \<and>
     k_sems (v_kernel w') 1 = None"
proof -
  let ?os = "ex_svos\<lparr>sos_fault := (\<lambda>n. if n = 3 then Some ENOMEM else None)\<rparr>"
  let ?w = "ex_svworld\<lparr>v_kernel := \<lparr>k_dir = [''/s'' \<mapsto> 0], k_keys = [0 \<mapsto> 1],
         k_sems = [1 \<mapsto> \<lparr>sv_val = 4, sv_otime = True\<rparr>], k_next = 2\<rparr>\<rparr>"
  have h: "sos_env ?os = (\<lambda>_ k. k)" "\<not> has_flag 0 O_CREAT" "k_dir (v_kernel ?w) ''/s'' = Some 0"
      "k_keys (v_kernel ?w) (sos_key ?os 0) = Some 1"
      "k_sems (v_kernel ?w) 1 = Some \<lparr>sv_val = 4, sv_otime = True\<rparr>" "sv_otime \<lparr>sv_val = 4, sv_otime = True\<rparr>"
      "sos_fault ?os = (\<lambda>n. if n = v_time ?w + 3 then Some ENOMEM else None)"
    by (simp_all add: ex_svos_def has_flag_def ex_svworld_def)
  show ?thesis
    using mysem_open_svsem_removes_existing [OF h, of 0 0] by simp
qed

end
