(* ===== verification/Sem_fifo.thy ===== *)
theory Sem_fifo
  imports Sem_Spec Files
begin

text \<open>
  my_pxsem_fifo: a semaphore as the number of bytes in a FIFO.  The contents of a FIFO's
  inode is that number; the read end blocks, the write end does not.
\<close>

section \<open>The semaphore (semaphore.h) and FIFOs\<close>

record mysem_fifo =
  sem_fd0 :: int
  sem_fd1 :: int
  sem_magic_fifo :: "32 word"

definition SEM_MAGIC_fifo :: "32 word" where "SEM_MAGIC_fifo = 0x89674523"

definition sys_mkfifo :: "nat os \<Rightarrow> string \<Rightarrow> cint \<Rightarrow> nat world \<Rightarrow> nat world \<times> unit result" where
  "sys_mkfifo os path mode = syscall os (\<lambda>w.
     let d = w_disk w; i = d_next d in
     case d_dir d path of
       Some _ \<Rightarrow> (w, Inl EEXIST)
     | None \<Rightarrow> (w\<lparr>w_disk := d\<lparr>d_dir := (d_dir d)(path \<mapsto> i),
                  d_ino := (d_ino d)(i := \<lparr>i_mode = mode, i_size = 0, i_data = 0\<rparr>),
                  d_next := Suc i\<rparr>\<rparr>, Inr ()))"

text \<open>Writing one byte to the non-blocking end; \<open>cap\<close> is the capacity of a FIFO in bytes.\<close>

definition sys_put_byte :: "nat os \<Rightarrow> nat \<Rightarrow> int \<Rightarrow> nat world \<Rightarrow> nat world \<times> unit result" where
  "sys_put_byte os cap fd = syscall os (with_fd fd (\<lambda>i w.
     if i_data (d_ino (w_disk w) i) < cap then (upd_ino i (i_data_update Suc) w, Inr ()) else (w, Inl EAGAIN)))"

text \<open>Reading one byte from the blocking end; \<open>None\<close> blocks.\<close>

definition sys_get_byte :: "nat os \<Rightarrow> int \<Rightarrow> nat world \<Rightarrow> (nat world \<times> unit result) option" where
  "sys_get_byte os fd w =
     (let w1 = tick os w in
      case os_fault os (w_time w) of
        Some e \<Rightarrow> Some (w1, Inl e)
      | None \<Rightarrow>
          (case fd_ino fd w1 of
             None \<Rightarrow> Some (w1, Inl EBADF)
           | Some i \<Rightarrow>
               if i_data (d_ino (w_disk w1) i) = 0 then None
               else Some (upd_ino i (i_data_update (\<lambda>n. n - 1)) w1, Inr ())))"

section \<open>mysem_open\<close>

text \<open>Lines 58 to 66.  \<open>created\<close>: \<open>O_CREAT\<close> is still set in \<open>oflag\<close>, that is, this call made the FIFO.\<close>

definition sem_open_error_fifo ::
  "nat os \<Rightarrow> string \<Rightarrow> bool \<Rightarrow> int \<Rightarrow> int \<Rightarrow> errno \<Rightarrow> nat world \<Rightarrow> nat world \<times> mysem_fifo result"
where
  "sem_open_error_fifo os path created fd0 fd1 e w =
     (let w1 = (if created then fst (sys_unlink os path w) else w)
      in (sys_free (sys_close fd1 (sys_close fd0 w1)), Inl e))"

text \<open>Lines 50 to 52: one byte for each unit of the initial value.\<close>

fun sem_fill_fifo :: "nat os \<Rightarrow> nat \<Rightarrow> int \<Rightarrow> nat \<Rightarrow> nat world \<Rightarrow> nat world \<times> unit result" where
  "sem_fill_fifo os cap fd 0 w = (w, Inr ())"
| "sem_fill_fifo os cap fd (Suc n) w =
     (case sys_put_byte os cap fd w of
        (w1, Inl e) \<Rightarrow> (w1, Inl e)
      | (w1, Inr _) \<Rightarrow> sem_fill_fifo os cap fd n w1)"

text \<open>Lines 31 to 66: the FIFO exists; open both ends.\<close>

definition sem_open_ends_fifo ::
  "nat os \<Rightarrow> nat \<Rightarrow> string \<Rightarrow> bool \<Rightarrow> 32 word \<Rightarrow> nat world \<Rightarrow> nat world \<times> mysem_fifo result"
where
  "sem_open_ends_fifo os cap path created value w =
     on_err (sys_malloc os w) (\<lambda>e w. (w, Inl e)) (\<lambda>_ w.
     on_err (sys_open os path w) (sem_open_error_fifo os path created (-1) (-1)) (\<lambda>fd0 w.
     on_err (sys_open os path w) (sem_open_error_fifo os path created fd0 (-1)) (\<lambda>fd1 w.
     on_err (sys_check os w) (sem_open_error_fifo os path created fd0 fd1) (\<lambda>_ w. \<comment> \<open>F_GETFL\<close>
     on_err (sys_check os w) (sem_open_error_fifo os path created fd0 fd1) (\<lambda>_ w. \<comment> \<open>F_SETFL\<close>
     on_err (if created then sem_fill_fifo os cap fd1 (unat value) w else (w, Inr ()))
       (sem_open_error_fifo os path created fd0 fd1) (\<lambda>_ w.
       (w, Inr \<lparr>sem_fd0 = fd0, sem_fd1 = fd1, sem_magic_fifo = SEM_MAGIC_fifo\<rparr>)))))))"

definition mysem_open_fifo ::
  "nat os \<Rightarrow> nat \<Rightarrow> string \<Rightarrow> cint \<Rightarrow> cint \<Rightarrow> 32 word \<Rightarrow> nat world \<Rightarrow> nat world \<times> mysem_fifo result"
where
  "mysem_open_fifo os cap path oflag mode value w =
     (if has_flag oflag O_CREAT then
        case sys_mkfifo os path mode w of
          (w1, Inl e) \<Rightarrow>
            if e = EEXIST \<and> \<not> has_flag oflag O_EXCL then sem_open_ends_fifo os cap path False value w1
            else (w1, Inl e)
        | (w1, Inr _) \<Rightarrow> sem_open_ends_fifo os cap path True value w1
      else sem_open_ends_fifo os cap path False value w)"

definition Mysem_open_fifo ::
  "nat os \<Rightarrow> nat \<Rightarrow> string \<Rightarrow> cint \<Rightarrow> cint \<Rightarrow> 32 word \<Rightarrow> nat world \<Rightarrow> nat world \<times> mysem_fifo wrapped"
where
  "Mysem_open_fifo os cap path oflag mode value w =
     map_prod id (err_sys_on_error (''mysem_open error for '' @ path)) (mysem_open_fifo os cap path oflag mode value w)"

section \<open>The other operations\<close>

definition mysem_wait_fifo :: "nat os \<Rightarrow> mysem_fifo \<Rightarrow> nat world \<Rightarrow> (nat world \<times> unit result) option" where
  "mysem_wait_fifo os sem w =
     (if sem_magic_fifo sem \<noteq> SEM_MAGIC_fifo then Some (w, Inl EINVAL) else sys_get_byte os (sem_fd0 sem) w)"

definition mysem_post_fifo :: "nat os \<Rightarrow> nat \<Rightarrow> mysem_fifo \<Rightarrow> nat world \<Rightarrow> nat world \<times> unit result" where
  "mysem_post_fifo os cap sem w =
     (if sem_magic_fifo sem \<noteq> SEM_MAGIC_fifo then (w, Inl EINVAL) else sys_put_byte os cap (sem_fd1 sem) w)"

text \<open>
  \<open>close\<close> of a descriptor that is not open fails; the second end is not closed then.  The
  structure is freed in any case.
\<close>

definition mysem_close_fifo :: "mysem_fifo \<Rightarrow> nat world \<Rightarrow> nat world \<times> unit result" where
  "mysem_close_fifo sem w =
     (if sem_magic_fifo sem \<noteq> SEM_MAGIC_fifo then (w, Inl EINVAL)
      else if fd_ino (sem_fd0 sem) w = None then (sys_free (sys_close (sem_fd0 sem) w), Inl EBADF)
      else let w1 = sys_close (sem_fd0 sem) w in
        if fd_ino (sem_fd1 sem) w1 = None then (sys_free (sys_close (sem_fd1 sem) w1), Inl EBADF)
        else (sys_free (sys_close (sem_fd1 sem) w1), Inr ()))"

definition mysem_unlink_fifo :: "nat os \<Rightarrow> string \<Rightarrow> nat world \<Rightarrow> nat world \<times> unit result" where
  "mysem_unlink_fifo os path w = sys_unlink os path w"

definition Mysem_wait_fifo :: "nat os \<Rightarrow> mysem_fifo \<Rightarrow> nat world \<Rightarrow> (nat world \<times> unit wrapped) option" where
  "Mysem_wait_fifo os sem w =
     map_option (map_prod id (err_sys_on_error ''mysem_wait error'')) (mysem_wait_fifo os sem w)"

definition Mysem_post_fifo :: "nat os \<Rightarrow> nat \<Rightarrow> mysem_fifo \<Rightarrow> nat world \<Rightarrow> nat world \<times> unit wrapped" where
  "Mysem_post_fifo os cap sem w =
     map_prod id (err_sys_on_error ''mysem_post error'') (mysem_post_fifo os cap sem w)"

definition Mysem_close_fifo :: "mysem_fifo \<Rightarrow> nat world \<Rightarrow> nat world \<times> unit wrapped" where
  "Mysem_close_fifo sem w = map_prod id (err_sys_on_error ''mysem_close error'') (mysem_close_fifo sem w)"

definition Mysem_unlink_fifo :: "nat os \<Rightarrow> string \<Rightarrow> nat world \<Rightarrow> nat world \<times> unit wrapped" where
  "Mysem_unlink_fifo os path w =
     map_prod id (err_sys_on_error ''mysem_unlink error'') (mysem_unlink_fifo os path w)"

section \<open>The contract of a semaphore\<close>

text \<open>A descriptor whose two ends are open on the same FIFO.\<close>

definition sem_ok_fifo :: "mysem_fifo \<Rightarrow> nat \<Rightarrow> nat world \<Rightarrow> bool" where
  "sem_ok_fifo sem i w \<longleftrightarrow> sem_magic_fifo sem = SEM_MAGIC_fifo \<and>
     fd_ino (sem_fd0 sem) w = Some i \<and> fd_ino (sem_fd1 sem) w = Some i"

definition sem_val_fifo :: "nat \<Rightarrow> nat world \<Rightarrow> nat" where
  "sem_val_fifo i w = i_data (d_ino (w_disk w) i)"

text \<open>Calls that neither fail in the kernel nor are disturbed.\<close>

definition calm :: "nat os" where "calm = \<lparr>os_env = (\<lambda>_ d. d), os_fault = (\<lambda>_. None)\<rparr>"

lemma calm_quiet [simp]: "quiet calm"
  by (simp add: quiet_def alone_def calm_def)

lemma calm_fault [simp]: "os_fault calm n = None"
  by (simp add: calm_def)

definition sem_post1_fifo :: "nat \<Rightarrow> mysem_fifo \<Rightarrow> nat world \<Rightarrow> nat world option" where
  "sem_post1_fifo cap sem w = (case mysem_post_fifo calm cap sem w of (w', Inr _) \<Rightarrow> Some w' | _ \<Rightarrow> None)"

definition sem_wait1_fifo :: "mysem_fifo \<Rightarrow> nat world \<Rightarrow> nat world option" where
  "sem_wait1_fifo sem w = (case mysem_wait_fifo calm sem w of Some (w', Inr _) \<Rightarrow> Some w' | _ \<Rightarrow> None)"

lemma fd_ino_frame [simp]: "fd_ino fd (upd_ino i f w) = fd_ino fd w" "fd_ino fd (tick os w) = fd_ino fd w"
  by (simp_all add: fd_ino_def)

interpretation fifo_sem: counting_semaphore "sem_ok_fifo sem i" "sem_val_fifo i" cap "sem_post1_fifo cap sem" "sem_wait1_fifo sem"
  for sem i cap
proof unfold_locales
  fix w assume "sem_ok_fifo sem i w" "sem_val_fifo i w < cap"
  then show "\<exists>w'. sem_post1_fifo cap sem w = Some w' \<and> sem_ok_fifo sem i w' \<and> sem_val_fifo i w' = Suc (sem_val_fifo i w)"
    by (simp add: sem_ok_fifo_def sem_val_fifo_def sem_post1_fifo_def mysem_post_fifo_def sys_put_byte_def
        syscall_quiet with_fd_def)
next
  fix w assume "sem_ok_fifo sem i w" "0 < sem_val_fifo i w"
  then show "\<exists>w'. sem_wait1_fifo sem w = Some w' \<and> sem_ok_fifo sem i w' \<and> sem_val_fifo i w' = sem_val_fifo i w - 1"
    by (simp add: sem_ok_fifo_def sem_val_fifo_def sem_wait1_fifo_def mysem_wait_fifo_def sys_get_byte_def Let_def)
next
  fix w assume "sem_ok_fifo sem i w" "sem_val_fifo i w = 0"
  then show "sem_wait1_fifo sem w = None"
    by (simp add: sem_ok_fifo_def sem_val_fifo_def sem_wait1_fifo_def mysem_wait_fifo_def sys_get_byte_def Let_def)
qed

section \<open>Resources\<close>

lemma sem_open_error_fifo_holds:
  assumes F: "fds_ok F" and h: "holds w F' M (Suc A)"
    and "F' = F \<and> fd0 = -1 \<and> fd1 = -1 \<or>
      (\<exists>i. F' = (new_top F, i) # F) \<and> fd0 = new_top F \<and> fd1 = -1 \<or>
      (\<exists>i j. F' = (new_top F + 1, j) # (new_top F, i) # F) \<and> fd0 = new_top F \<and> fd1 = new_top F + 1"
  shows "holds (fst (sem_open_error_fifo os path created fd0 fd1 e w)) F M A"
proof -
  define w1 where "w1 = (if created then fst (sys_unlink os path w) else w)"
  have w1: "holds w1 F' M (Suc A)"
    using h sys_unlink_holds by (auto simp: w1_def)
  have minus: "-1 \<notin> fst ` set F" and top: "new_top F \<notin> fst ` set F" "new_top F + 1 \<notin> fst ` set F" "0 \<le> new_top F"
    using F by (auto simp: fds_ok_def new_top_def)
  have flt: "filter (\<lambda>p. fst p \<noteq> new_top F) F = F" "filter (\<lambda>p. fst p \<noteq> new_top F + 1) F = F"
    using F by (auto simp: fds_ok_def new_top_def intro!: filter_True)
  have "\<exists>G. holds (sys_close fd0 w1) G M (Suc A) \<and>
      (G = F \<and> fd1 = -1 \<or> (\<exists>j. G = (new_top F + 1, j) # F) \<and> fd1 = new_top F + 1)"
    using assms(3) w1 minus flt(1) by (auto simp: holds_def sys_close_def)
  then have "holds (sys_close fd1 (sys_close fd0 w1)) F M (Suc A)"
  proof (elim exE conjE disjE)
    fix G assume "holds (sys_close fd0 w1) G M (Suc A)" "G = F" "fd1 = -1"
    then show ?thesis
      using minus unfolding holds_def by (subst sys_close_def) (auto simp: sys_close_def [of "-1"])
  next
    fix G j assume "holds (sys_close fd0 w1) G M (Suc A)" "G = (new_top F + 1, j) # F" "fd1 = new_top F + 1"
    then show ?thesis
      using flt(2) unfolding holds_def by (auto simp: sys_close_def [of "new_top F + 1"])
  qed
  then show ?thesis
    by (simp add: sem_open_error_fifo_def w1_def holds_free)
qed

lemma sys_put_byte_holds: "sys_put_byte os cap fd w = (w', r) \<Longrightarrow> holds w F M A \<Longrightarrow> holds w' F M A"
  unfolding sys_put_byte_def
  by (drule syscall_cases) (auto simp: with_fd_def split: option.splits if_splits)

lemma sem_fill_fifo_holds: "sem_fill_fifo os cap fd n w = (w', r) \<Longrightarrow> holds w F M A \<Longrightarrow> holds w' F M A"
proof (induction n arbitrary: w)
  case (Suc n)
  obtain w1 s where s: "sys_put_byte os cap fd w = (w1, s)" by fastforce
  note h = sys_put_byte_holds [OF s Suc.prems(2)]
  show ?case
    using Suc.prems(1) Suc.IH [OF _ h] s h by (cases s) auto
qed simp

definition fifo_outcome :: "(int \<times> nat) list \<Rightarrow> nat list \<Rightarrow> nat \<Rightarrow> nat world \<times> mysem_fifo result \<Rightarrow> bool" where
  "fifo_outcome F M A res \<longleftrightarrow>
     (case snd res of
        Inl e \<Rightarrow> holds (fst res) F M A
      | Inr sem \<Rightarrow> \<exists>i j. holds (fst res) ((sem_fd1 sem, j) # (sem_fd0 sem, i) # F) M (Suc A) \<and>
          sem_magic_fifo sem = SEM_MAGIC_fifo)"

lemma sem_open_ends_fifo_outcome:
  assumes F: "fds_ok F" and w: "holds w F M A"
  shows "fifo_outcome F M A (sem_open_ends_fifo os cap path created value w)"
proof -
  have err: "fifo_outcome F M A (sem_open_error_fifo os path created fd0 fd1 e w')"
    if "holds w' F' M (Suc A)" "F' = F \<and> fd0 = -1 \<and> fd1 = -1 \<or>
      (\<exists>i. F' = (new_top F, i) # F) \<and> fd0 = new_top F \<and> fd1 = -1 \<or>
      (\<exists>i j. F' = (new_top F + 1, j) # (new_top F, i) # F) \<and> fd0 = new_top F \<and> fd1 = new_top F + 1"
    for w' F' fd0 fd1 e
    using sem_open_error_fifo_holds [OF F that, of os path created e]
    by (simp add: fifo_outcome_def sem_open_error_fifo_def Let_def)
  have nt: "new_top ((new_top F, i) # F) = new_top F + 1" for i
    by (simp add: new_top_def)
  show ?thesis
    unfolding sem_open_ends_fifo_def
  proof (rule on_err_rule)
    fix e w1 assume "sys_malloc os w = (w1, Inl e)"
    then show "fifo_outcome F M A (w1, Inl e)"
      using sys_malloc_holds [of os w w1 "Inl e"] w by (simp add: fifo_outcome_def)
  next
    fix u w1 assume "sys_malloc os w = (w1, Inr u)"
    then have w1: "holds w1 F M (Suc A)" using sys_malloc_holds w by fastforce
    show "fifo_outcome F M A (on_err (sys_open os path w1) (sem_open_error_fifo os path created (-1) (-1)) (\<lambda>fd0 w.
     on_err (sys_open os path w) (sem_open_error_fifo os path created fd0 (-1)) (\<lambda>fd1 w.
     on_err (sys_check os w) (sem_open_error_fifo os path created fd0 fd1) (\<lambda>_ w.
     on_err (sys_check os w) (sem_open_error_fifo os path created fd0 fd1) (\<lambda>_ w.
     on_err (if created then sem_fill_fifo os cap fd1 (unat value) w else (w, Inr ()))
       (sem_open_error_fifo os path created fd0 fd1) (\<lambda>_ w.
       (w, Inr \<lparr>sem_fd0 = fd0, sem_fd1 = fd1, sem_magic_fifo = SEM_MAGIC_fifo\<rparr>)))))))"
      apply (rule on_err_rule)
       apply (drule sys_open_holds [OF _ w1], rule err, fastforce, simp)
      apply (drule sys_open_holds [OF _ w1], clarsimp)
      apply (rule on_err_rule)
       apply (drule (1) sys_open_holds, rule err, fastforce, simp)
      apply (drule (1) sys_open_holds, clarsimp simp: nt)
      apply (rule on_err_rule, rule err, erule (1) sys_check_holds, simp)
      apply (drule (1) sys_check_holds)
      apply (rule on_err_rule, rule err, erule (1) sys_check_holds, simp)
      apply (drule (1) sys_check_holds)
      apply (rule on_err_rule)
       apply (rule err, auto split: if_splits dest: sem_fill_fifo_holds) []
       apply simp
      apply (auto simp: fifo_outcome_def split: if_splits dest: sem_fill_fifo_holds)
      done
  qed
qed

lemma sys_mkfifo_holds: "sys_mkfifo os path mode w = (w', r) \<Longrightarrow> holds w F M A \<Longrightarrow> holds w' F M A"
  unfolding sys_mkfifo_def
  by (drule syscall_cases) (auto simp: Let_def holds_def split: option.splits)

lemma mysem_open_fifo_outcome:
  assumes "fds_ok F" and "holds w F M A"
  shows "fifo_outcome F M A (mysem_open_fifo os cap path oflag mode value w)"
proof -
  obtain w1 r where m: "sys_mkfifo os path mode w = (w1, r)" by fastforce
  note h = sys_mkfifo_holds [OF m assms(2)]
  have "fifo_outcome F M A (w1, Inl e)" for e
    using h by (simp add: fifo_outcome_def)
  then show ?thesis
    using m sem_open_ends_fifo_outcome [OF assms(1) h] sem_open_ends_fifo_outcome [OF assms]
    by (cases r) (simp_all add: mysem_open_fifo_def)
qed

section \<open>Creating undisturbed\<close>

lemma sem_fill_fifo_calm:
  assumes "quiet os" and "fd_ino fd w = Some i"
  shows "sem_val_fifo i w + n \<le> cap \<Longrightarrow>
    \<exists>w'. sem_fill_fifo os cap fd n w = (w', Inr ()) \<and> sem_val_fifo i w' = sem_val_fifo i w + n \<and>
      w_fds w' = w_fds w"
  using assms(2)
proof (induction n arbitrary: w)
  case (Suc n)
  let ?w1 = "upd_ino i (i_data_update Suc) (tick os w)"
  have "sys_put_byte os cap fd w = (?w1, Inr ())"
    using Suc.prems assms(1) by (simp add: sys_put_byte_def syscall_quiet with_fd_def sem_val_fifo_def)
  moreover have "sem_val_fifo i ?w1 = Suc (sem_val_fifo i w)" "fd_ino fd ?w1 = Some i" "w_fds ?w1 = w_fds w"
    using Suc.prems assms(1) by (simp_all add: sem_val_fifo_def)
  ultimately show ?case
    using Suc.IH [of ?w1] Suc.prems by auto
qed simp

lemma mysem_open_fifo_create:
  assumes q: "quiet os" and c: "has_flag oflag O_CREAT" and new: "d_dir (w_disk w) path = None"
    and v: "unat value \<le> cap"
  shows "\<exists>w' sem i. mysem_open_fifo os cap path oflag mode value w = (w', Inr sem) \<and>
    sem_ok_fifo sem i w' \<and> sem_val_fifo i w' = unat value"
proof -
  let ?i = "d_next (w_disk w)"
  obtain w1 where w1: "sys_mkfifo os path mode w = (w1, Inr ())" "w_fds w1 = w_fds w"
      "d_dir (w_disk w1) path = Some ?i" "sem_val_fifo ?i w1 = 0"
    using q new by (simp add: sys_mkfifo_def syscall_quiet Let_def sem_val_fifo_def)
  define w2 where "w2 = (tick os w1)\<lparr>w_allocs := Suc (w_allocs w1)\<rparr>"
  define w3 where "w3 = add_fd ?i (tick os w2)"
  define w4 where "w4 = tick os (tick os (add_fd ?i (tick os w3)))"
  have o: "sys_malloc os w1 = (w2, Inr ())" "sys_open os path w2 = (w3, Inr (new_fd w2))"
      "sys_open os path w3 = (add_fd ?i (tick os w3), Inr (new_fd w3))"
    using q w1(3) by (simp_all add: sys_malloc_def sys_open_def syscall_quiet w2_def w3_def)
  have f: "w_fds w4 = (new_fd w3, ?i) # (new_fd w2, ?i) # w_fds w" "new_fd w3 \<noteq> new_fd w2"
      "sem_val_fifo ?i w4 = 0"
    using q w1 by (simp_all add: w4_def w3_def w2_def new_fd_def sem_val_fifo_def)
  then have ino: "fd_ino (new_fd w3) w4 = Some ?i" "fd_ino (new_fd w2) w4 = Some ?i"
    by (simp_all add: fd_ino_def)
  obtain w5 where w5: "sem_fill_fifo os cap (new_fd w3) (unat value) w4 = (w5, Inr ())"
      "sem_val_fifo ?i w5 = unat value" "w_fds w5 = w_fds w4"
    using sem_fill_fifo_calm [OF q ino(1), of "unat value" cap] v f(3) by auto
  have "mysem_open_fifo os cap path oflag mode value w =
      (w5, Inr \<lparr>sem_fd0 = new_fd w2, sem_fd1 = new_fd w3, sem_magic_fifo = SEM_MAGIC_fifo\<rparr>)"
    using c w1(1) o w5(1) q
    by (simp add: mysem_open_fifo_def sem_open_ends_fifo_def sys_check_def syscall_quiet w4_def)
  moreover have "sem_ok_fifo \<lparr>sem_fd0 = new_fd w2, sem_fd1 = new_fd w3, sem_magic_fifo = SEM_MAGIC_fifo\<rparr> ?i w5"
    using ino w5(3) by (simp add: sem_ok_fifo_def fd_ino_def)
  ultimately show ?thesis using w5(2) by blast
qed

end
