(* ===== verification/Sem_Props.thy ===== *)
theory Sem_Props
  imports Sem_mmap_open Sem_svsem Sem_fifo
begin

text \<open>
  The properties of the three semaphores: the common contract, and for the mapped semaphore
  what threads that share it can rely on.
\<close>

section \<open>The common contract\<close>

text \<open>
  the mapped semaphore keeps the contract of a counting semaphore.  Every sequence of
  \<open>mysem_post\<close> and \<open>mysem_wait\<close> calls in which no wait exceeds the posts before it runs without
  failing or blocking, as long as the value stays below \<open>UINT_MAX\<close>, and ends with the initial
  value plus the posts minus the waits.
\<close>

theorem mysem_mmap_calls:
  assumes "sem_ok_mmap s" and "admissible (2 ^ 32 - 1) (sem_val_mmap s) cs"
  shows "\<exists>s'. mmap_sem.run cs s = Some s' \<and> sem_ok_mmap s' \<and>
    sem_val_mmap s' + calls_of WaitCall cs = sem_val_mmap s + calls_of PostCall cs"
  using assms by (rule mmap_sem.run_admissible)

theorem mysem_mmap_calls_witness:
  "\<exists>s'. mmap_sem.run [PostCall, WaitCall, WaitCall] \<lparr>sem_count = 1, sem_magic = SEM_MAGIC_mmap\<rparr> = Some s' \<and>
     sem_val_mmap s' = 0"
proof -
  have "sem_ok_mmap \<lparr>sem_count = 1, sem_magic = SEM_MAGIC_mmap\<rparr>"
      "admissible (2 ^ 32 - 1) (sem_val_mmap \<lparr>sem_count = 1, sem_magic = SEM_MAGIC_mmap\<rparr>) [PostCall, WaitCall, WaitCall]"
    by (simp_all add: sem_ok_mmap_def sem_val_mmap_def)
  from mysem_mmap_calls [OF this] show ?thesis
    by (auto simp: sem_val_mmap_def)
qed

text \<open>
  the semaphore built on a System V semaphore keeps the same contract, with the System V
  limit of 32767 in place of \<open>UINT_MAX\<close>.
\<close>

theorem mysem_svsem_calls:
  assumes "sem_ok_svsem i k" and "admissible 32767 (sem_val_svsem i k) cs"
  shows "\<exists>k'. svsem_sem.run i cs k = Some k' \<and> sem_ok_svsem i k' \<and>
    sem_val_svsem i k' + calls_of WaitCall cs = sem_val_svsem i k + calls_of PostCall cs"
  using assms by (rule svsem_sem.run_admissible)

theorem mysem_svsem_calls_witness:
  "\<exists>k'. svsem_sem.run 0 [PostCall, WaitCall] (ex_kernel\<lparr>k_sems := [0 \<mapsto> \<lparr>sv_val = 0, sv_otime = True\<rparr>]\<rparr>) = Some k' \<and>
     sem_val_svsem 0 k' = 0"
proof -
  let ?k = "ex_kernel\<lparr>k_sems := [0 \<mapsto> \<lparr>sv_val = 0, sv_otime = True\<rparr>]\<rparr>"
  have "sem_ok_svsem 0 ?k" "admissible 32767 (sem_val_svsem 0 ?k) [PostCall, WaitCall]"
    by (simp_all add: sem_ok_svsem_def sem_val_svsem_def SEMVMX_def)
  from mysem_svsem_calls [OF this] show ?thesis
    by (auto simp: sem_val_svsem_def)
qed

text \<open>
  the semaphore built on a FIFO keeps the same contract, with the capacity of the FIFO as
  its limit; and creating it with a value that fits stores exactly that many bytes.
\<close>

theorem mysem_fifo_calls:
  assumes "has_flag oflag O_CREAT" and "d_dir (w_disk w) path = None" and "unat value \<le> cap"
    and "admissible cap (unat value) cs"
  shows "\<exists>w1 sem i w2. mysem_open_fifo calm cap path oflag mode value w = (w1, Inr sem) \<and>
    fifo_sem.run cap sem cs w1 = Some w2 \<and> sem_ok_fifo sem i w2 \<and>
    sem_val_fifo i w2 + calls_of WaitCall cs = unat value + calls_of PostCall cs"
proof -
  from mysem_open_fifo_create [OF calm_quiet assms(1-3), of mode] obtain w1 sem i where
    w1: "mysem_open_fifo calm cap path oflag mode value w = (w1, Inr sem)" "sem_ok_fifo sem i w1"
      "sem_val_fifo i w1 = unat value"
    by blast
  with fifo_sem.run_admissible [OF w1(2), of cap cs] assms(4) show ?thesis by auto
qed

definition ex_fifo_world :: "nat world" where
  "ex_fifo_world = \<lparr>w_disk = \<lparr>d_dir = Map.empty, d_ino = (\<lambda>_. \<lparr>i_mode = 0, i_size = 0, i_data = 0\<rparr>), d_next = 0\<rparr>,
     w_fds = [], w_maps = [], w_allocs = 0, w_badclose = 0, w_time = 0\<rparr>"

theorem mysem_fifo_calls_witness:
  "\<exists>w1 sem i w2. mysem_open_fifo calm 65536 ''/f'' O_CREAT 384 2 ex_fifo_world = (w1, Inr sem) \<and>
     fifo_sem.run 65536 sem [WaitCall, PostCall, WaitCall] w1 = Some w2 \<and> sem_ok_fifo sem i w2 \<and> sem_val_fifo i w2 = 1"
proof -
  have "has_flag O_CREAT O_CREAT" "d_dir (w_disk ex_fifo_world) ''/f'' = None" "unat (2 :: 32 word) \<le> 65536"
      "admissible 65536 (unat (2 :: 32 word)) [WaitCall, PostCall, WaitCall]"
    by (simp_all add: has_flag_def flag_defs ex_fifo_world_def)
  from mysem_fifo_calls [OF this, of 384] show ?thesis by simp
qed

section \<open>The FIFO semaphore and its resources\<close>

text \<open>
  mysem_open of the FIFO semaphore leaks nothing.  Whatever other processes do and
  whichever call fails, an error leaves the descriptors and allocations as they were, and
  success leaves the two ends of the FIFO and one structure.
\<close>

theorem mysem_open_fifo_no_leak:
  assumes "fds_ok (w_fds w)" and "mysem_open_fifo os cap path oflag mode value w = (w', r)"
  shows "case r of
      Inl e \<Rightarrow> w_fds w' = w_fds w \<and> w_allocs w' = w_allocs w
    | Inr sem \<Rightarrow> (\<exists>i j. w_fds w' = (sem_fd1 sem, j) # (sem_fd0 sem, i) # w_fds w) \<and>
        w_allocs w' = Suc (w_allocs w) \<and> sem_magic_fifo sem = SEM_MAGIC_fifo"
proof -
  have "holds w (w_fds w) (w_maps w) (w_allocs w)" by (simp add: holds_def)
  from mysem_open_fifo_outcome [OF assms(1) this, of os cap path oflag mode "value"] assms(2) show ?thesis
    by (auto simp: fifo_outcome_def holds_def split: sum.splits)
qed

theorem mysem_open_fifo_no_leak_witness:
  "\<exists>w' r. mysem_open_fifo calm 0 ''/f'' O_CREAT 384 1 ex_fifo_world = (w', r) \<and>
     (case r of Inl e \<Rightarrow> w_fds w' = [] | Inr sem \<Rightarrow> length (w_fds w') = 2)"
proof -
  obtain w' r where e: "mysem_open_fifo calm 0 ''/f'' O_CREAT 384 1 ex_fifo_world = (w', r)" by fastforce
  have f: "fds_ok (w_fds ex_fifo_world)" "w_fds ex_fifo_world = []" by (simp_all add: ex_fifo_world_def fds_ok_def)
  from mysem_open_fifo_no_leak [OF f(1) e] f(2) show ?thesis
    by (intro exI [of _ w'] exI [of _ r]) (auto simp: e split: sum.splits)
qed

text \<open>
  but a FIFO can be left behind.  When \<open>malloc\<close> fails right after \<open>mkfifo\<close>, the function
  returns without unlinking the FIFO it made; the next opener finds an existing semaphore
  with value 0 whatever initial value was asked for.
\<close>

theorem mysem_open_fifo_leaves_fifo:
  assumes "alone os" and "has_flag oflag O_CREAT" and "d_dir (w_disk w) path = None"
    and "os_fault os (w_time w) = None" and "os_fault os (Suc (w_time w)) = Some e"
  shows "\<exists>w' i. mysem_open_fifo os cap path oflag mode value w = (w', Inl e) \<and>
    d_dir (w_disk w') path = Some i \<and> sem_val_fifo i w' = 0"
  using assms
  by (simp add: mysem_open_fifo_def sys_mkfifo_def syscall_def Let_def sem_open_ends_fifo_def sys_malloc_def
      sem_val_fifo_def)

theorem mysem_open_fifo_leaves_fifo_witness:
  "\<exists>w' i. mysem_open_fifo (calm\<lparr>os_fault := (\<lambda>n. if n = 1 then Some ENOMEM else None)\<rparr>) 65536 ''/f'' O_CREAT 384 5
      ex_fifo_world = (w', Inl ENOMEM) \<and> d_dir (w_disk w') ''/f'' = Some i \<and> sem_val_fifo i w' = 0"
proof -
  let ?os = "calm\<lparr>os_fault := (\<lambda>n. if n = 1 then Some ENOMEM else None)\<rparr>"
  have "alone ?os" "has_flag O_CREAT O_CREAT" "d_dir (w_disk ex_fifo_world) ''/f'' = None"
      "os_fault ?os (w_time ex_fifo_world) = None" "os_fault ?os (Suc (w_time ex_fifo_world)) = Some ENOMEM"
    by (simp_all add: alone_def calm_def has_flag_def flag_defs ex_fifo_world_def)
  from mysem_open_fifo_leaves_fifo [OF this] show ?thesis .
qed

section \<open>Threads that share the mapped semaphore\<close>

definition sem_start :: "mysem \<Rightarrow> nat \<Rightarrow> (mysem, sem_op, unit, sem_client) mon" where
  "sem_start s n = \<lparr>m_data = s, m_thr = replicate n \<lparr>th_pc = Outside, th_cli = (0, 0)\<rparr>\<rparr>"

lemma sem_start_inv: "sem_inv (sem_val_mmap s) (m_data (sem_start s n)) (map view (m_thr (sem_start s n)))"
  by (simp add: sem_start_def sem_inv_def sem_val_mmap_def list_all_length posts_of_def waits_of_def sum_list_replicate)

text \<open>
  C9: no unit is lost or invented, however the threads interleave and whichever locks fail: in
  every reachable state, as long as no more than \<open>UINT_MAX\<close> units were put in, the value is
  the initial value plus the successful posts minus the successful waits of all threads; so
  the waits never exceed what was available.
\<close>

theorem mysem_mmap_threads:
  assumes "mreach sem_code UNIV (sem_start s n) t"
    and "sem_val_mmap s + (\<Sum>th \<leftarrow> m_thr t. fst (th_cli th)) < 2 ^ 32"
  shows "sem_val_mmap (m_data t) + (\<Sum>th \<leftarrow> m_thr t. snd (th_cli th)) =
    sem_val_mmap s + (\<Sum>th \<leftarrow> m_thr t. fst (th_cli th))"
  using semm.reach_inv [OF assms(1) sem_start_inv] assms(2)
  by (simp add: sem_inv_def sem_val_mmap_def posts_of_def [abs_def] waits_of_def [abs_def] view_def comp_def)

definition ex_sem :: mysem where "ex_sem = \<lparr>sem_count = 0, sem_magic = SEM_MAGIC_mmap\<rparr>"

lemma ex_two_waiters:
  "mreach sem_code UNIV (sem_start ex_sem 3) \<lparr>m_data = ex_sem, m_thr =
     [\<lparr>th_pc = Asleep SemWait (), th_cli = (0, 0)\<rparr>, \<lparr>th_pc = Asleep SemWait (), th_cli = (0, 0)\<rparr>,
      \<lparr>th_pc = Outside, th_cli = (0, 0)\<rparr>]\<rparr>"
proof -
  let ?o = "\<lparr>th_pc = Outside, th_cli = (0, 0)\<rparr>" and ?a = "\<lparr>th_pc = Asleep SemWait (), th_cli = (0, 0)\<rparr>"
  let ?R = "mreach sem_code UNIV (sem_start ex_sem 3)"
  have e: "enter sem_code SemWait None ex_sem = Sleep ex_sem ()"
    by (simp add: mysem_wait_mmap_def sem_locked_def mysem_wait_resume_mmap_def ex_sem_def)
  have "?R \<lparr>m_data = ex_sem, m_thr = [?o, ?o, ?o]\<rparr>"
    using reach_start [of sem_code UNIV "sem_start ex_sem 3"] by (simp add: sem_start_def numeral_3_eq_3)
  moreover have "mstep sem_code UNIV \<lparr>m_data = ex_sem, m_thr = [?o, ?o, ?o]\<rparr> \<lparr>m_data = ex_sem, m_thr = [?a, ?o, ?o]\<rparr>"
    using call_sleep [of 0 "[?o, ?o, ?o]" sem_code SemWait None UNIV, OF _ _ _ _ e] by simp
  moreover have "mstep sem_code UNIV \<lparr>m_data = ex_sem, m_thr = [?a, ?o, ?o]\<rparr> \<lparr>m_data = ex_sem, m_thr = [?a, ?a, ?o]\<rparr>"
    using call_sleep [of 1 "[?a, ?o, ?o]" sem_code SemWait None UNIV, OF _ _ _ _ e] by simp
  ultimately show ?thesis by (blast intro: reach_step)
qed

theorem mysem_mmap_threads_witness:
  "\<exists>t. mreach sem_code UNIV (sem_start ex_sem 3) t \<and> length (m_thr t) = 3 \<and>
     sem_val_mmap (m_data t) + (\<Sum>th \<leftarrow> m_thr t. snd (th_cli th)) = 0"
  using mysem_mmap_threads [OF ex_two_waiters] ex_two_waiters
  by (intro exI conjI) (assumption, simp_all add: ex_sem_def sem_val_mmap_def)

text \<open>
  a wake-up can be lost.  mysem_post signals only when the value was 0, so after two posts in
  a row one of two waiting threads may stay asleep although the value is positive and no
  thread has been woken.
\<close>

theorem mysem_mmap_lost_wakeup:
  "\<exists>t. mreach sem_code UNIV (sem_start ex_sem 3) t \<and> sem_val_mmap (m_data t) = 1 \<and>
     th_pc (m_thr t ! 1) = Asleep SemWait () \<and> \<not> list_ex is_woken (m_thr t)"
proof -
  let ?a = "\<lparr>th_pc = Asleep SemWait (), th_cli = (0, 0)\<rparr>" and ?w = "\<lparr>th_pc = Woken SemWait, th_cli = (0, 0)\<rparr>"
  let ?c = "\<lambda>p a. \<lparr>th_pc = Outside, th_cli = (p, a)\<rparr>" and ?s = "\<lambda>n. ex_sem\<lparr>sem_count := n\<rparr>"
  let ?st = "mstep sem_code UNIV"
  have p: "enter sem_code SemPost None ex_sem = Finish (?s 1) [Signal ()] SemOk"
      "enter sem_code SemPost None (?s 1) = Finish (?s 2) [] SemOk"
    by (simp_all add: mysem_post_mmap_def sem_locked_def ex_sem_def)
  have r: "resume sem_code SemWait None (?s 2) = Finish (?s 1) [] SemOk"
    by (simp add: mysem_wait_resume_mmap_def)
  have d: "deliver [Signal ()] [?a, ?a, ?c (Suc 0) 0] [?w, ?a, ?c (Suc 0) 0]"
    using deliver_first [of "()" ?a "[?a, ?c (Suc 0) 0]"] by simp
  have "?st \<lparr>m_data = ex_sem, m_thr = [?a, ?a, ?c 0 0]\<rparr> \<lparr>m_data = ?s 1, m_thr = [?w, ?a, ?c (Suc 0) 0]\<rparr>"
    using d by (intro call_finish [of 2 _ _ SemPost None, OF _ _ _ _ p(1)]) simp_all
  moreover have "?st \<lparr>m_data = ?s 1, m_thr = [?w, ?a, ?c (Suc 0) 0]\<rparr> \<lparr>m_data = ?s 2, m_thr = [?w, ?a, ?c (Suc (Suc 0)) 0]\<rparr>"
    using deliver_none [of "[?w, ?a, ?c (Suc (Suc 0)) 0]"] by (intro call_finish [of 2 _ _ SemPost None, OF _ _ _ _ p(2)]) simp_all
  moreover have "?st \<lparr>m_data = ?s 2, m_thr = [?w, ?a, ?c (Suc (Suc 0)) 0]\<rparr> \<lparr>m_data = ?s 1, m_thr = [?c 0 (Suc 0), ?a, ?c (Suc (Suc 0)) 0]\<rparr>"
    using deliver_none [of "[?c 0 (Suc 0), ?a, ?c (Suc (Suc 0)) 0]"] by (intro resume_finish [of 0 _ SemWait None, OF _ _ _ r]) simp_all
  ultimately have "mreach sem_code UNIV (sem_start ex_sem 3) \<lparr>m_data = ?s 1, m_thr = [?c 0 (Suc 0), ?a, ?c (Suc (Suc 0)) 0]\<rparr>"
    using ex_two_waiters by (blast intro: reach_step)
  then show ?thesis
    by (intro exI conjI) (assumption, simp_all add: sem_val_mmap_def)
qed

text \<open>
  mysem_post does not check for overflow.  A post at the largest value succeeds and leaves
  the semaphore at 0, losing all its units.
\<close>

theorem mysem_post_mmap_wraps:
  "mysem_post_mmap None \<lparr>sem_count = - 1, sem_magic = SEM_MAGIC_mmap\<rparr> =
     Finish \<lparr>sem_count = 0, sem_magic = SEM_MAGIC_mmap\<rparr> [] SemOk"
  by (simp add: mysem_post_mmap_def sem_locked_def)

end
