(* ===== verification/Rwlock.thy ===== *)
theory Rwlock
  imports Monitor
begin

text \<open>
  The read-write locks of my_rwlock and my_rwlock_cancel: a mutex, one condition variable
  for readers and one for writers, and a count that is \<open>-1\<close> while a writer holds the lock and
  the number of readers otherwise.  The second version adds cleanup handlers for threads that
  are cancelled while they wait; its functions carry the suffix \<open>_cancel\<close>.
\<close>

section \<open>Data (pthread_rwlock.h)\<close>

record pthread_rwlock =
  rw_magic :: "32 word"
  rw_nwaitreaders :: int
  rw_nwaitwriters :: int
  rw_refcount :: int

datatype rw_cond = CondReaders | CondWriters

definition RW_MAGIC :: "32 word" where "RW_MAGIC = 0x19283746"

definition PTHREAD_RWLOCK_INITIALIZER :: pthread_rwlock where
  "PTHREAD_RWLOCK_INITIALIZER = \<lparr>rw_magic = RW_MAGIC, rw_nwaitreaders = 0, rw_nwaitwriters = 0, rw_refcount = 0\<rparr>"

section \<open>my_rwlock\<close>

text \<open>
  The results of the three initialisations are arguments; on failure nothing stays
  initialised (which of the mutex and the variables exist is the second component).
\<close>

definition pthread_rwlock_init ::
  "status \<Rightarrow> status \<Rightarrow> status \<Rightarrow> bool \<Rightarrow> pthread_rwlock \<Rightarrow> pthread_rwlock \<times> bool \<times> bool \<times> bool \<times> status"
where
  "pthread_rwlock_init mutex condr condw attr rw =
     (if attr then (rw, False, False, False, Some EINVAL)
      else case mutex of Some e \<Rightarrow> (rw, False, False, False, Some e) | None \<Rightarrow>
        (case condr of Some e \<Rightarrow> (rw, False, False, False, Some e) | None \<Rightarrow>
          (case condw of Some e \<Rightarrow> (rw, False, False, False, Some e) | None \<Rightarrow>
             (rw\<lparr>rw_nwaitreaders := 0, rw_nwaitwriters := 0, rw_refcount := 0, rw_magic := RW_MAGIC\<rparr>,
              True, True, True, None))))"

definition pthread_rwlock_destroy :: "pthread_rwlock \<Rightarrow> pthread_rwlock \<times> status" where
  "pthread_rwlock_destroy rw =
     (if rw_magic rw \<noteq> RW_MAGIC then (rw, Some EINVAL)
      else if rw_refcount rw \<noteq> 0 \<or> rw_nwaitreaders rw \<noteq> 0 \<or> rw_nwaitwriters rw \<noteq> 0 then (rw, Some EBUSY)
      else (rw\<lparr>rw_magic := 0\<rparr>, None))"

type_synonym rw_seg = "(pthread_rwlock, rw_cond, status) seg"

text \<open>The test of the magic number and the lock, common to the operations below.\<close>

definition rw_locked :: "status \<Rightarrow> pthread_rwlock \<Rightarrow> (pthread_rwlock \<Rightarrow> rw_seg) \<Rightarrow> rw_seg" where
  "rw_locked lock rw body =
     (if rw_magic rw \<noteq> RW_MAGIC then Finish rw [] (Some EINVAL)
      else case lock of Some e \<Rightarrow> Finish rw [] (Some e) | None \<Rightarrow> body rw)"

text \<open>Lines 17 to 28: the head of the loop and what follows it.\<close>

definition rdlock_loop :: "pthread_rwlock \<Rightarrow> rw_seg" where
  "rdlock_loop rw =
     (if rw_refcount rw < 0 \<or> rw_nwaitwriters rw > 0
      then Sleep (rw\<lparr>rw_nwaitreaders := rw_nwaitreaders rw + 1\<rparr>) CondReaders
      else Finish (rw\<lparr>rw_refcount := rw_refcount rw + 1\<rparr>) [] None)"

definition pthread_rwlock_rdlock :: "status \<Rightarrow> pthread_rwlock \<Rightarrow> rw_seg" where
  "pthread_rwlock_rdlock lock rw = rw_locked lock rw rdlock_loop"

text \<open>After \<open>pthread_cond_wait\<close>, which returned \<open>result\<close>.\<close>

definition rdlock_resume :: "status \<Rightarrow> pthread_rwlock \<Rightarrow> rw_seg" where
  "rdlock_resume result rw =
     (let rw = rw\<lparr>rw_nwaitreaders := rw_nwaitreaders rw - 1\<rparr> in
      if result \<noteq> None then Finish rw [] result else rdlock_loop rw)"

definition wrlock_loop :: "pthread_rwlock \<Rightarrow> rw_seg" where
  "wrlock_loop rw =
     (if rw_refcount rw \<noteq> 0
      then Sleep (rw\<lparr>rw_nwaitwriters := rw_nwaitwriters rw + 1\<rparr>) CondWriters
      else Finish (rw\<lparr>rw_refcount := -1\<rparr>) [] None)"

definition pthread_rwlock_wrlock :: "status \<Rightarrow> pthread_rwlock \<Rightarrow> rw_seg" where
  "pthread_rwlock_wrlock lock rw = rw_locked lock rw wrlock_loop"

definition wrlock_resume :: "status \<Rightarrow> pthread_rwlock \<Rightarrow> rw_seg" where
  "wrlock_resume result rw =
     (let rw = rw\<lparr>rw_nwaitwriters := rw_nwaitwriters rw - 1\<rparr> in
      if result \<noteq> None then Finish rw [] result else wrlock_loop rw)"

definition pthread_rwlock_tryrdlock :: "status \<Rightarrow> pthread_rwlock \<Rightarrow> rw_seg" where
  "pthread_rwlock_tryrdlock lock rw = rw_locked lock rw (\<lambda>rw.
     if rw_refcount rw < 0 \<or> rw_nwaitwriters rw > 0 then Finish rw [] (Some EBUSY)
     else Finish (rw\<lparr>rw_refcount := rw_refcount rw + 1\<rparr>) [] None)"

definition pthread_rwlock_trywrlock :: "status \<Rightarrow> pthread_rwlock \<Rightarrow> rw_seg" where
  "pthread_rwlock_trywrlock lock rw = rw_locked lock rw (\<lambda>rw.
     if rw_refcount rw \<noteq> 0 then Finish rw [] (Some EBUSY)
     else Finish (rw\<lparr>rw_refcount := -1\<rparr>) [] None)"

text \<open>\<open>err_dump\<close> aborts the process.  Signalling a condition variable does not fail.\<close>

definition pthread_rwlock_unlock :: "status \<Rightarrow> pthread_rwlock \<Rightarrow> rw_seg" where
  "pthread_rwlock_unlock lock rw = rw_locked lock rw (\<lambda>rw.
     let continue = (\<lambda>rw. Finish rw
           (if rw_nwaitwriters rw > 0 then (if rw_refcount rw = 0 then [Signal CondWriters] else [])
            else if rw_nwaitreaders rw > 0 then [Broadcast CondReaders] else []) None)
     in if rw_refcount rw > 0 then continue (rw\<lparr>rw_refcount := rw_refcount rw - 1\<rparr>)
        else if rw_refcount rw = -1 then continue (rw\<lparr>rw_refcount := 0\<rparr>)
        else Crash)"

section \<open>my_rwlock_cancel\<close>

text \<open>The handlers that run when a waiting thread is cancelled.\<close>

definition rwlock_cancelrdwait :: "pthread_rwlock \<Rightarrow> pthread_rwlock" where
  "rwlock_cancelrdwait rw = rw\<lparr>rw_nwaitreaders := rw_nwaitreaders rw - 1\<rparr>"

definition rwlock_cancelwrwait :: "pthread_rwlock \<Rightarrow> pthread_rwlock" where
  "rwlock_cancelwrwait rw = rw\<lparr>rw_nwaitwriters := rw_nwaitwriters rw - 1\<rparr>"

definition pthread_rwlock_rdlock_cancel :: "status \<Rightarrow> pthread_rwlock \<Rightarrow> rw_seg" where
  "pthread_rwlock_rdlock_cancel lock rw = rw_locked lock rw rdlock_loop"

text \<open>This version returns 0 in any case once it has the mutex.\<close>

definition rdlock_resume_cancel :: "status \<Rightarrow> pthread_rwlock \<Rightarrow> rw_seg" where
  "rdlock_resume_cancel result rw =
     (let rw = rw\<lparr>rw_nwaitreaders := rw_nwaitreaders rw - 1\<rparr> in
      if result \<noteq> None then Finish rw [] None else rdlock_loop rw)"

text \<open>
  Here the result of \<open>pthread_mutex_lock\<close> is compared with \<open>-1\<close>, which it never returns; after a
  failed lock \<open>result\<close> is still that error when the loop is not entered.
\<close>

definition pthread_rwlock_wrlock_cancel :: "status \<Rightarrow> pthread_rwlock \<Rightarrow> rw_seg" where
  "pthread_rwlock_wrlock_cancel lock rw =
     (if rw_magic rw \<noteq> RW_MAGIC then Finish rw [] (Some EINVAL)
      else if rw_refcount rw \<noteq> 0 then wrlock_loop rw
      else if lock = None then Finish (rw\<lparr>rw_refcount := -1\<rparr>) [] None
      else Finish rw [] None)"

definition wrlock_resume_cancel :: "status \<Rightarrow> pthread_rwlock \<Rightarrow> rw_seg" where
  "wrlock_resume_cancel result rw =
     (let rw = rw\<lparr>rw_nwaitwriters := rw_nwaitwriters rw - 1\<rparr> in
      if result \<noteq> None then Finish rw [] None else wrlock_loop rw)"

definition pthread_rwlock_tryrdlock_cancel :: "status \<Rightarrow> pthread_rwlock \<Rightarrow> rw_seg" where
  "pthread_rwlock_tryrdlock_cancel lock rw = rw_locked lock rw (\<lambda>rw.
     if rw_refcount rw = -1 \<or> rw_nwaitwriters rw > 0 then Finish rw [] (Some EBUSY)
     else Finish (rw\<lparr>rw_refcount := rw_refcount rw + 1\<rparr>) [] None)"

definition pthread_rwlock_trywrlock_cancel :: "status \<Rightarrow> pthread_rwlock \<Rightarrow> rw_seg" where
  "pthread_rwlock_trywrlock_cancel lock rw = rw_locked lock rw (\<lambda>rw.
     if rw_refcount rw \<noteq> 0 then Finish rw [] (Some EBUSY)
     else Finish (rw\<lparr>rw_refcount := -1\<rparr>) [] None)"

definition pthread_rwlock_unlock_cancel :: "status \<Rightarrow> pthread_rwlock \<Rightarrow> rw_seg" where
  "pthread_rwlock_unlock_cancel lock rw = rw_locked lock rw (\<lambda>rw.
     let continue = (\<lambda>rw. Finish rw
           (if rw_nwaitwriters rw > 0 then [Signal CondWriters]
            else if rw_nwaitreaders rw > 0 then [Broadcast CondReaders] else []) None)
     in if rw_refcount rw > 0 then continue (rw\<lparr>rw_refcount := rw_refcount rw - 1\<rparr>)
        else if rw_refcount rw = -1 then continue (rw\<lparr>rw_refcount := 0\<rparr>)
        else Crash)"

text \<open>These two are the same text in both directories.\<close>

definition pthread_rwlock_init_cancel ::
  "status \<Rightarrow> status \<Rightarrow> status \<Rightarrow> bool \<Rightarrow> pthread_rwlock \<Rightarrow> pthread_rwlock \<times> bool \<times> bool \<times> bool \<times> status"
where
  "pthread_rwlock_init_cancel = pthread_rwlock_init"

definition pthread_rwlock_destroy_cancel :: "pthread_rwlock \<Rightarrow> pthread_rwlock \<times> status" where
  "pthread_rwlock_destroy_cancel = pthread_rwlock_destroy"

section \<open>The wrapper functions\<close>

text \<open>The same in both directories, for every operation: an error ends the process.\<close>

definition exit_on_status :: "string \<Rightarrow> rw_seg \<Rightarrow> (pthread_rwlock, rw_cond, unit wrapped) seg" where
  "exit_on_status msg = map_seg id id (err_sys_on_status msg)"

definition Pthread_rwlock_rdlock :: "status \<Rightarrow> pthread_rwlock \<Rightarrow> (pthread_rwlock, rw_cond, unit wrapped) seg" where
  "Pthread_rwlock_rdlock lock rw = exit_on_status ''pthread_rwlock_rdlock error'' (pthread_rwlock_rdlock lock rw)"

definition Pthread_rwlock_wrlock :: "status \<Rightarrow> pthread_rwlock \<Rightarrow> (pthread_rwlock, rw_cond, unit wrapped) seg" where
  "Pthread_rwlock_wrlock lock rw = exit_on_status ''pthread_rwlock_wrlock error'' (pthread_rwlock_wrlock lock rw)"

definition Pthread_rwlock_tryrdlock :: "status \<Rightarrow> pthread_rwlock \<Rightarrow> (pthread_rwlock, rw_cond, unit wrapped) seg" where
  "Pthread_rwlock_tryrdlock lock rw = exit_on_status ''pthread_rwlock_tryrdlock error'' (pthread_rwlock_tryrdlock lock rw)"

definition Pthread_rwlock_trywrlock :: "status \<Rightarrow> pthread_rwlock \<Rightarrow> (pthread_rwlock, rw_cond, unit wrapped) seg" where
  "Pthread_rwlock_trywrlock lock rw = exit_on_status ''pthread_rwlock_trywrlock error'' (pthread_rwlock_trywrlock lock rw)"

definition Pthread_rwlock_unlock :: "status \<Rightarrow> pthread_rwlock \<Rightarrow> (pthread_rwlock, rw_cond, unit wrapped) seg" where
  "Pthread_rwlock_unlock lock rw = exit_on_status ''pthread_rwlock_unlock error'' (pthread_rwlock_unlock lock rw)"

definition Pthread_rwlock_init ::
  "status \<Rightarrow> status \<Rightarrow> status \<Rightarrow> bool \<Rightarrow> pthread_rwlock \<Rightarrow> pthread_rwlock \<times> unit wrapped"
where
  "Pthread_rwlock_init mutex condr condw attr rw =
     (case pthread_rwlock_init mutex condr condw attr rw of (rw', _, _, _, n) \<Rightarrow>
        (rw', err_sys_on_status ''pthread_rwlock_init error'' n))"

definition Pthread_rwlock_destroy :: "pthread_rwlock \<Rightarrow> pthread_rwlock \<times> unit wrapped" where
  "Pthread_rwlock_destroy rw =
     map_prod id (err_sys_on_status ''pthread_rwlock_destroy error'') (pthread_rwlock_destroy rw)"

definition Pthread_rwlock_rdlock_cancel :: "status \<Rightarrow> pthread_rwlock \<Rightarrow> (pthread_rwlock, rw_cond, unit wrapped) seg" where
  "Pthread_rwlock_rdlock_cancel lock rw =
     exit_on_status ''pthread_rwlock_rdlock error'' (pthread_rwlock_rdlock_cancel lock rw)"

definition Pthread_rwlock_wrlock_cancel :: "status \<Rightarrow> pthread_rwlock \<Rightarrow> (pthread_rwlock, rw_cond, unit wrapped) seg" where
  "Pthread_rwlock_wrlock_cancel lock rw =
     exit_on_status ''pthread_rwlock_wrlock error'' (pthread_rwlock_wrlock_cancel lock rw)"

definition Pthread_rwlock_tryrdlock_cancel :: "status \<Rightarrow> pthread_rwlock \<Rightarrow> (pthread_rwlock, rw_cond, unit wrapped) seg" where
  "Pthread_rwlock_tryrdlock_cancel lock rw =
     exit_on_status ''pthread_rwlock_tryrdlock error'' (pthread_rwlock_tryrdlock_cancel lock rw)"

definition Pthread_rwlock_trywrlock_cancel :: "status \<Rightarrow> pthread_rwlock \<Rightarrow> (pthread_rwlock, rw_cond, unit wrapped) seg" where
  "Pthread_rwlock_trywrlock_cancel lock rw =
     exit_on_status ''pthread_rwlock_trywrlock error'' (pthread_rwlock_trywrlock_cancel lock rw)"

definition Pthread_rwlock_unlock_cancel :: "status \<Rightarrow> pthread_rwlock \<Rightarrow> (pthread_rwlock, rw_cond, unit wrapped) seg" where
  "Pthread_rwlock_unlock_cancel lock rw =
     exit_on_status ''pthread_rwlock_unlock error'' (pthread_rwlock_unlock_cancel lock rw)"

definition Pthread_rwlock_init_cancel ::
  "status \<Rightarrow> status \<Rightarrow> status \<Rightarrow> bool \<Rightarrow> pthread_rwlock \<Rightarrow> pthread_rwlock \<times> unit wrapped"
where
  "Pthread_rwlock_init_cancel mutex condr condw attr rw =
     (case pthread_rwlock_init_cancel mutex condr condw attr rw of (rw', _, _, _, n) \<Rightarrow>
        (rw', err_sys_on_status ''pthread_rwlock_init error'' n))"

definition Pthread_rwlock_destroy_cancel :: "pthread_rwlock \<Rightarrow> pthread_rwlock \<times> unit wrapped" where
  "Pthread_rwlock_destroy_cancel rw =
     map_prod id (err_sys_on_status ''pthread_rwlock_destroy error'') (pthread_rwlock_destroy_cancel rw)"

section \<open>Threads\<close>

datatype rw_op = Rdlock | Wrlock | Tryrdlock | Trywrlock | Unlock

datatype held = NoLock | RdLock | WrLock

fun rw_enter :: "rw_op \<Rightarrow> status \<Rightarrow> pthread_rwlock \<Rightarrow> rw_seg" where
  "rw_enter Rdlock lock rw = pthread_rwlock_rdlock lock rw"
| "rw_enter Wrlock lock rw = pthread_rwlock_wrlock lock rw"
| "rw_enter Tryrdlock lock rw = pthread_rwlock_tryrdlock lock rw"
| "rw_enter Trywrlock lock rw = pthread_rwlock_trywrlock lock rw"
| "rw_enter Unlock lock rw = pthread_rwlock_unlock lock rw"

fun rw_resume :: "rw_op \<Rightarrow> status \<Rightarrow> pthread_rwlock \<Rightarrow> rw_seg" where
  "rw_resume Rdlock result rw = rdlock_resume result rw"
| "rw_resume Wrlock result rw = wrlock_resume result rw"
| "rw_resume _ result rw = Crash"

fun rw_enter_cancel :: "rw_op \<Rightarrow> status \<Rightarrow> pthread_rwlock \<Rightarrow> rw_seg" where
  "rw_enter_cancel Rdlock lock rw = pthread_rwlock_rdlock_cancel lock rw"
| "rw_enter_cancel Wrlock lock rw = pthread_rwlock_wrlock_cancel lock rw"
| "rw_enter_cancel Tryrdlock lock rw = pthread_rwlock_tryrdlock_cancel lock rw"
| "rw_enter_cancel Trywrlock lock rw = pthread_rwlock_trywrlock_cancel lock rw"
| "rw_enter_cancel Unlock lock rw = pthread_rwlock_unlock_cancel lock rw"

fun rw_resume_cancel :: "rw_op \<Rightarrow> status \<Rightarrow> pthread_rwlock \<Rightarrow> rw_seg" where
  "rw_resume_cancel Rdlock result rw = rdlock_resume_cancel result rw"
| "rw_resume_cancel Wrlock result rw = wrlock_resume_cancel result rw"
| "rw_resume_cancel _ result rw = Crash"

fun rw_cleanup :: "rw_op \<Rightarrow> pthread_rwlock \<Rightarrow> pthread_rwlock" where
  "rw_cleanup Rdlock rw = rwlock_cancelrdwait rw"
| "rw_cleanup Wrlock rw = rwlock_cancelwrwait rw"
| "rw_cleanup _ rw = rw"

text \<open>A thread unlocks only what it holds, and does not ask for a lock while it holds one.\<close>

fun rw_may_call :: "held \<Rightarrow> rw_op \<Rightarrow> bool" where
  "rw_may_call c Unlock \<longleftrightarrow> c \<noteq> NoLock"
| "rw_may_call c _ \<longleftrightarrow> c = NoLock"

text \<open>A result of 0 tells the thread that it has, or has given up, the lock.\<close>

fun rw_note :: "held \<Rightarrow> rw_op \<Rightarrow> status \<Rightarrow> held" where
  "rw_note c op (Some e) = c"
| "rw_note c Rdlock None = RdLock"
| "rw_note c Tryrdlock None = RdLock"
| "rw_note c Wrlock None = WrLock"
| "rw_note c Trywrlock None = WrLock"
| "rw_note c Unlock None = NoLock"

definition rw_code :: "(pthread_rwlock, rw_op, rw_cond, status, held) code" where
  "rw_code = \<lparr>enter = rw_enter, resume = rw_resume, can_cancel = (\<lambda>_. False),
     cleanup = (\<lambda>_ rw. rw), may_call = rw_may_call, note_ret = rw_note\<rparr>"

definition rw_code_cancel :: "(pthread_rwlock, rw_op, rw_cond, status, held) code" where
  "rw_code_cancel = \<lparr>enter = rw_enter_cancel, resume = rw_resume_cancel, can_cancel = (\<lambda>_. True),
     cleanup = rw_cleanup, may_call = rw_may_call, note_ret = rw_note\<rparr>"

lemma rw_code_simps [simp]:
  "enter rw_code = rw_enter" "resume rw_code = rw_resume" "can_cancel rw_code op = False"
  "may_call rw_code = rw_may_call" "note_ret rw_code = rw_note"
  "enter rw_code_cancel = rw_enter_cancel" "resume rw_code_cancel = rw_resume_cancel"
  "can_cancel rw_code_cancel op = True" "cleanup rw_code_cancel = rw_cleanup"
  "may_call rw_code_cancel = rw_may_call" "note_ret rw_code_cancel = rw_note"
  by (simp_all add: rw_code_def rw_code_cancel_def)

end
