(* ===== verification/Rwlock_Props.thy ===== *)
theory Rwlock_Props
  imports Rwlock
begin

text \<open>
  Mutual exclusion and safety of both read-write locks, for any number of threads, and what
  cancellation can break.
\<close>

section \<open>The invariant\<close>

type_synonym rw_view = "rw_op option \<times> held"

definition holds_rd :: "rw_view \<Rightarrow> bool" where "holds_rd v \<longleftrightarrow> snd v = RdLock"
definition holds_wr :: "rw_view \<Rightarrow> bool" where "holds_wr v \<longleftrightarrow> snd v = WrLock"
definition waits_rd :: "rw_view \<Rightarrow> bool" where "waits_rd v \<longleftrightarrow> fst v = Some Rdlock"
definition waits_wr :: "rw_view \<Rightarrow> bool" where "waits_wr v \<longleftrightarrow> fst v = Some Wrlock"

text \<open>The count against the numbers of readers and writers that hold the lock.\<close>

definition rw_shape :: "int \<Rightarrow> int \<Rightarrow> int \<Rightarrow> bool" where
  "rw_shape refcount r w \<longleftrightarrow> (refcount = -1 \<and> w = 1 \<and> r = 0) \<or> (refcount = r \<and> w = 0)"

definition view_ok :: "rw_view \<Rightarrow> bool" where
  "view_ok v \<longleftrightarrow> fst v = None \<or> snd v = NoLock \<and> (fst v = Some Rdlock \<or> fst v = Some Wrlock)"

definition rw_inv :: "pthread_rwlock \<Rightarrow> rw_view list \<Rightarrow> bool" where
  "rw_inv rw vs \<longleftrightarrow> rw_magic rw = RW_MAGIC \<and>
     rw_nwaitreaders rw = cnt waits_rd vs \<and> rw_nwaitwriters rw = cnt waits_wr vs \<and>
     rw_shape (rw_refcount rw) (cnt holds_rd vs) (cnt holds_wr vs) \<and> list_all view_ok vs"

abbreviation one_if :: "bool \<Rightarrow> int" where "one_if b \<equiv> (if b then 1 else 0)"

lemma rw_inv_update:
  assumes inv: "rw_inv rw vs" and i: "i < length vs" "vs ! i = v"
    and "rw_magic rw' = rw_magic rw"
    and "rw_nwaitreaders rw' = rw_nwaitreaders rw - one_if (waits_rd v) + one_if (waits_rd v')"
    and "rw_nwaitwriters rw' = rw_nwaitwriters rw - one_if (waits_wr v) + one_if (waits_wr v')"
    and shape: "\<And>r w. \<lbrakk>rw_shape (rw_refcount rw) r w; 0 \<le> r; 0 \<le> w; holds_rd v \<longrightarrow> 1 \<le> r; holds_wr v \<longrightarrow> 1 \<le> w\<rbrakk> \<Longrightarrow>
      rw_shape (rw_refcount rw') (r - one_if (holds_rd v) + one_if (holds_rd v'))
        (w - one_if (holds_wr v) + one_if (holds_wr v'))"
    and "view_ok v'"
  shows "rw_inv rw' (vs[i := v'])"
proof -
  have "holds_rd v \<longrightarrow> 1 \<le> cnt holds_rd vs" "holds_wr v \<longrightarrow> 1 \<le> cnt holds_wr vs"
    using i cnt_nth_pos [of i vs] by auto
  then have "rw_shape (rw_refcount rw') (cnt holds_rd (vs[i := v'])) (cnt holds_wr (vs[i := v']))"
    using shape [of "cnt holds_rd vs" "cnt holds_wr vs"] inv i by (simp add: rw_inv_def cnt_update)
  moreover have "list_all view_ok (vs[i := v'])"
    using inv assms(8) by (auto simp: rw_inv_def list_all_iff dest!: set_update_subset_insert [THEN subsetD])
  ultimately show ?thesis
    using inv assms(4-6) i by (simp add: rw_inv_def cnt_update)
qed

lemmas view_defs = holds_rd_def holds_wr_def waits_rd_def waits_wr_def view_ok_def

lemma rw_inv_view: "rw_inv rw vs \<Longrightarrow> i < length vs \<Longrightarrow> view_ok (vs ! i)"
  by (simp add: rw_inv_def list_all_length)

lemma rw_inv_same: "rw_inv rw vs \<Longrightarrow> i < length vs \<Longrightarrow> vs ! i = v \<Longrightarrow> rw_inv rw (vs[i := v])"
  by (metis list_update_id)

section \<open>Steps that change the lock\<close>

lemma rw_inv_got_read:
  assumes "rw_inv rw vs" "i < length vs" "vs ! i = (op, NoLock)" "rw_refcount rw \<noteq> -1"
    "rw_nwaitreaders rw' = rw_nwaitreaders rw - one_if (op = Some Rdlock)"
    "rw_nwaitwriters rw' = rw_nwaitwriters rw - one_if (op = Some Wrlock)"
    "rw_refcount rw' = rw_refcount rw + 1" "rw_magic rw' = rw_magic rw"
  shows "rw_inv rw' (vs[i := (None, RdLock)])"
  using assms by (intro rw_inv_update [OF assms(1-3)]) (auto simp: view_defs rw_shape_def)

lemma rw_inv_got_write:
  assumes "rw_inv rw vs" "i < length vs" "vs ! i = (op, NoLock)" "rw_refcount rw = 0"
    "rw_nwaitreaders rw' = rw_nwaitreaders rw - one_if (op = Some Rdlock)"
    "rw_nwaitwriters rw' = rw_nwaitwriters rw - one_if (op = Some Wrlock)"
    "rw_refcount rw' = -1" "rw_magic rw' = rw_magic rw"
  shows "rw_inv rw' (vs[i := (None, WrLock)])"
  using assms by (intro rw_inv_update [OF assms(1-3)]) (auto simp: view_defs rw_shape_def)

lemma rw_inv_released:
  assumes "rw_inv rw vs" "i < length vs" "vs ! i = (None, c)" "c \<noteq> NoLock"
    "rw_nwaitreaders rw' = rw_nwaitreaders rw" "rw_nwaitwriters rw' = rw_nwaitwriters rw"
    "rw_refcount rw' = (if rw_refcount rw > 0 then rw_refcount rw - 1 else 0)" "rw_magic rw' = rw_magic rw"
  shows "rw_inv rw' (vs[i := (None, NoLock)])"
  using assms by (cases c) (auto intro!: rw_inv_update [OF assms(1-3)] simp: view_defs rw_shape_def)

lemma rw_inv_gave_up:
  assumes "rw_inv rw vs" "i < length vs" "vs ! i = (op, c)"
    "rw_nwaitreaders rw' = rw_nwaitreaders rw - one_if (op = Some Rdlock)"
    "rw_nwaitwriters rw' = rw_nwaitwriters rw - one_if (op = Some Wrlock)"
    "rw_refcount rw' = rw_refcount rw" "rw_magic rw' = rw_magic rw"
  shows "rw_inv rw' (vs[i := (None, c)])"
  using assms by (intro rw_inv_update [OF assms(1-3)]) (auto simp: view_defs rw_shape_def)

lemma rw_inv_waits:
  assumes "rw_inv rw vs" "i < length vs" "vs ! i = (op, NoLock)" "op' = Rdlock \<or> op' = Wrlock"
    "rw_nwaitreaders rw' = rw_nwaitreaders rw - one_if (op = Some Rdlock) + one_if (op' = Rdlock)"
    "rw_nwaitwriters rw' = rw_nwaitwriters rw - one_if (op = Some Wrlock) + one_if (op' = Wrlock)"
    "rw_refcount rw' = rw_refcount rw" "rw_magic rw' = rw_magic rw"
  shows "rw_inv rw' (vs[i := (Some op', NoLock)])"
  using assms by (intro rw_inv_update [OF assms(1-3)]) (auto simp: view_defs rw_shape_def)

text \<open>A thread that holds a lock finds the count at \<open>-1\<close> or above 0.\<close>

lemma rw_inv_held:
  assumes "rw_inv rw vs" "i < length vs" "vs ! i = (op, c)" "c \<noteq> NoLock"
  shows "0 < rw_refcount rw \<or> rw_refcount rw = -1"
proof -
  have "1 \<le> cnt holds_rd vs \<or> 1 \<le> cnt holds_wr vs"
    using cnt_nth_pos [OF assms(2), of holds_rd] cnt_nth_pos [OF assms(2), of holds_wr] assms(3,4)
    by (cases c) (auto simp: view_defs)
  moreover have "rw_shape (rw_refcount rw) (cnt holds_rd vs) (cnt holds_wr vs)"
    using assms(1) by (simp add: rw_inv_def)
  ultimately show ?thesis by (auto simp: rw_shape_def)
qed

lemmas rw_op_defs = rw_locked_def rdlock_loop_def wrlock_loop_def pthread_rwlock_rdlock_def
  pthread_rwlock_wrlock_def pthread_rwlock_tryrdlock_def pthread_rwlock_trywrlock_def
  pthread_rwlock_unlock_def rdlock_resume_def wrlock_resume_def Let_def

lemmas rw_op_cancel_defs = rw_locked_def rdlock_loop_def wrlock_loop_def pthread_rwlock_rdlock_cancel_def
  pthread_rwlock_wrlock_cancel_def pthread_rwlock_tryrdlock_cancel_def pthread_rwlock_trywrlock_cancel_def
  pthread_rwlock_unlock_cancel_def rdlock_resume_cancel_def wrlock_resume_cancel_def
  rwlock_cancelrdwait_def rwlock_cancelwrwait_def Let_def

interpretation rwm: monitor_safe rw_code UNIV rw_inv
proof unfold_locales
  fix rw vs i c op st rw' ws r
  assume a: "rw_inv rw vs" "i < length vs" "vs ! i = (None, c)" "may_call rw_code c op"
    "enter rw_code op st rw = Finish rw' ws r"
  then show "rw_inv rw' (vs[i := (None, note_ret rw_code c op r)])"
    using rw_inv_same [OF a(1-3)]
    by (cases op; cases st) (auto simp: rw_op_defs split: if_splits intro!: rw_inv_got_read [OF a(1,2)] rw_inv_got_write [OF a(1,2)] rw_inv_released [OF a(1,2)])
next
  fix rw vs i c op st rw' cv
  assume a: "rw_inv rw vs" "i < length vs" "vs ! i = (None, c)" "may_call rw_code c op"
    "enter rw_code op st rw = Sleep rw' cv"
  then show "rw_inv rw' (vs[i := (Some op, c)])"
    by (cases op; cases st) (auto simp: rw_op_defs split: if_splits intro!: rw_inv_waits [OF a(1,2)])
next
  fix rw vs i op c st rw' ws r
  assume a: "rw_inv rw vs" "i < length vs" "vs ! i = (Some op, c)" "resume rw_code op st rw = Finish rw' ws r"
  have c: "c = NoLock" using rw_inv_view [OF a(1,2)] a(3) by (simp add: view_ok_def)
  with a have v: "vs ! i = (Some op, NoLock)" by simp
  show "rw_inv rw' (vs[i := (None, note_ret rw_code c op r)])"
    unfolding c using a(4) v
    by (cases op; cases st) (auto simp: rw_op_defs split: if_splits
        intro!: rw_inv_got_read [OF a(1,2) v] rw_inv_got_write [OF a(1,2) v] rw_inv_gave_up [OF a(1,2) v])
next
  fix rw vs i op c st rw' cv
  assume a: "rw_inv rw vs" "i < length vs" "vs ! i = (Some op, c)" "resume rw_code op st rw = Sleep rw' cv"
  then show "rw_inv rw' vs"
    by (cases op; cases st) (auto simp: rw_op_defs rw_inv_def split: if_splits)
next
  fix rw vs i op c
  assume "can_cancel rw_code op"
  then show "rw_inv (cleanup rw_code op rw) (vs[i := (None, c)])" by simp
next
  fix rw vs i c op st
  assume a: "rw_inv rw vs" "i < length vs" "vs ! i = (None, c)" "may_call rw_code c op"
  show "enter rw_code op st rw \<noteq> Crash"
    using a(4) rw_inv_held [OF a(1-3)] by (cases op; cases st) (auto simp: rw_op_defs)
next
  fix rw vs i op c st
  assume a: "rw_inv rw vs" "i < length vs" "vs ! i = (Some op, c)"
  then show "resume rw_code op st rw \<noteq> Crash"
    using rw_inv_view [OF a(1,2)] by (auto simp: rw_op_defs view_ok_def split: if_splits)
qed

interpretation rwc: monitor_safe rw_code_cancel "{None}" rw_inv
proof unfold_locales
  fix rw vs i c op st rw' ws r
  assume a: "rw_inv rw vs" "i < length vs" "vs ! i = (None, c)" "may_call rw_code_cancel c op" "(st :: status) \<in> {None}"
    "enter rw_code_cancel op st rw = Finish rw' ws r"
  then show "rw_inv rw' (vs[i := (None, note_ret rw_code_cancel c op r)])"
    using rw_inv_same [OF a(1-3)]
    by (cases op) (auto simp: rw_op_cancel_defs split: if_splits intro!: rw_inv_got_read [OF a(1,2)] rw_inv_got_write [OF a(1,2)] rw_inv_released [OF a(1,2)])
next
  fix rw vs i c op st rw' cv
  assume a: "rw_inv rw vs" "i < length vs" "vs ! i = (None, c)" "may_call rw_code_cancel c op" "(st :: status) \<in> {None}"
    "enter rw_code_cancel op st rw = Sleep rw' cv"
  then show "rw_inv rw' (vs[i := (Some op, c)])"
    by (cases op) (auto simp: rw_op_cancel_defs split: if_splits intro!: rw_inv_waits [OF a(1,2)])
next
  fix rw vs i op c st rw' ws r
  assume a: "rw_inv rw vs" "i < length vs" "vs ! i = (Some op, c)" "(st :: status) \<in> {None}"
    "resume rw_code_cancel op st rw = Finish rw' ws r"
  have "c = NoLock" using rw_inv_view [OF a(1,2)] a(3) by (simp add: view_ok_def)
  with a show "rw_inv rw' (vs[i := (None, note_ret rw_code_cancel c op r)])"
    by (cases op) (auto simp: rw_op_cancel_defs split: if_splits intro!: rw_inv_got_read [OF a(1,2)] rw_inv_got_write [OF a(1,2)])
next
  fix rw vs i op c st rw' cv
  assume a: "rw_inv rw vs" "i < length vs" "vs ! i = (Some op, c)" "(st :: status) \<in> {None}"
    "resume rw_code_cancel op st rw = Sleep rw' cv"
  then show "rw_inv rw' vs"
    by (cases op) (auto simp: rw_op_cancel_defs rw_inv_def split: if_splits)
next
  fix rw vs i op c
  assume a: "rw_inv rw vs" "i < length vs" "vs ! i = (Some op, c)"
  have "op = Rdlock \<or> op = Wrlock" using rw_inv_view [OF a(1,2)] a(3) by (auto simp: view_ok_def)
  then show "rw_inv (cleanup rw_code_cancel op rw) (vs[i := (None, c)])"
    by (auto simp: rw_op_cancel_defs intro!: rw_inv_gave_up [OF a])
next
  fix rw vs i c op st
  assume a: "rw_inv rw vs" "i < length vs" "vs ! i = (None, c)" "may_call rw_code_cancel c op" "(st :: status) \<in> {None}"
  show "enter rw_code_cancel op st rw \<noteq> Crash"
    using a(4) rw_inv_held [OF a(1-3)] by (cases op; cases st) (auto simp: rw_op_cancel_defs)
next
  fix rw vs i op c st
  assume a: "rw_inv rw vs" "i < length vs" "vs ! i = (Some op, c)" "(st :: status) \<in> {None}"
  then show "resume rw_code_cancel op st rw \<noteq> Crash"
    using rw_inv_view [OF a(1,2)] by (auto simp: rw_op_cancel_defs view_ok_def split: if_splits)
qed

section \<open>Properties\<close>

definition rw_start :: "nat \<Rightarrow> (pthread_rwlock, rw_op, rw_cond, held) mon" where
  "rw_start n = \<lparr>m_data = PTHREAD_RWLOCK_INITIALIZER, m_thr = replicate n \<lparr>th_pc = Outside, th_cli = NoLock\<rparr>\<rparr>"

lemma rw_start_inv: "rw_inv (m_data (rw_start n)) (map view (m_thr (rw_start n)))"
proof -
  have "cnt P (replicate n v) = 0" if "\<not> P v" for P and v :: rw_view
    using that by (auto simp: cnt_zero_iff)
  then show ?thesis
    by (simp add: rw_start_def rw_inv_def PTHREAD_RWLOCK_INITIALIZER_def view_defs rw_shape_def list_all_length)
qed

lemma rw_inv_exclusive:
  assumes "rw_inv rw (map view ts)"
  shows "(\<forall>i j. i < length ts \<longrightarrow> j < length ts \<longrightarrow> i \<noteq> j \<longrightarrow> th_cli (ts ! i) = WrLock \<longrightarrow> th_cli (ts ! j) = NoLock) \<and>
    rw_refcount rw = (if list_ex (\<lambda>t. th_cli t = WrLock) ts then -1 else cnt (\<lambda>t. th_cli t = RdLock) ts) \<and>
    rw_nwaitreaders rw = cnt (\<lambda>t. inside t = Some Rdlock) ts \<and>
    rw_nwaitwriters rw = cnt (\<lambda>t. inside t = Some Wrlock) ts"
proof -
  let ?r = "cnt (\<lambda>t. th_cli t = RdLock) ts" and ?w = "cnt (\<lambda>t. th_cli t = WrLock) ts"
  have cnts: "cnt holds_rd (map view ts) = ?r" "cnt holds_wr (map view ts) = ?w"
      "cnt waits_rd (map view ts) = cnt (\<lambda>t. inside t = Some Rdlock) ts"
      "cnt waits_wr (map view ts) = cnt (\<lambda>t. inside t = Some Wrlock) ts"
    by (simp_all add: cnt_map comp_def view_defs view_def)
  have shape: "rw_shape (rw_refcount rw) ?r ?w"
    using assms by (simp add: rw_inv_def cnts)
  have w: "list_ex (\<lambda>t. th_cli t = WrLock) ts \<longleftrightarrow> 0 < ?w"
    by (simp add: cnt_pos_iff list_ex_iff)
  have "th_cli (ts ! j) = NoLock"
    if ij: "i < length ts" "j < length ts" "i \<noteq> j" and wr: "th_cli (ts ! i) = WrLock" for i j
  proof (cases "th_cli (ts ! j)")
    case RdLock
    then have "1 \<le> ?r" using cnt_nth_pos [of j ts "\<lambda>t. th_cli t = RdLock"] ij by simp
    moreover have "1 \<le> ?w" using cnt_nth_pos [of i ts "\<lambda>t. th_cli t = WrLock"] ij wr by simp
    ultimately show ?thesis using shape by (simp add: rw_shape_def)
  next
    case WrLock
    then have "2 \<le> ?w" using cnt_two [OF ij, of "\<lambda>t. th_cli t = WrLock"] wr by simp
    then show ?thesis using shape by (simp add: rw_shape_def)
  qed simp
  then show ?thesis
    using shape w assms by (auto simp: rw_shape_def rw_inv_def cnts)
qed

text \<open>
  C10: the read-write lock excludes.  In every reachable state, however the threads interleave
  and whichever mutex locks and waits fail, while a thread has the write lock no other
  thread has any lock; the count is \<open>-1\<close> for a writer and the number of readers otherwise, and
  the two waiting counts are the numbers of threads that wait.
\<close>

theorem rwlock_exclusion:
  assumes "mreach rw_code UNIV (rw_start n) t"
  shows "(\<forall>i j. i < length (m_thr t) \<longrightarrow> j < length (m_thr t) \<longrightarrow> i \<noteq> j \<longrightarrow>
      th_cli (m_thr t ! i) = WrLock \<longrightarrow> th_cli (m_thr t ! j) = NoLock) \<and>
    rw_refcount (m_data t) = (if list_ex (\<lambda>t. th_cli t = WrLock) (m_thr t) then -1
      else cnt (\<lambda>t. th_cli t = RdLock) (m_thr t)) \<and>
    rw_nwaitreaders (m_data t) = cnt (\<lambda>t. inside t = Some Rdlock) (m_thr t) \<and>
    rw_nwaitwriters (m_data t) = cnt (\<lambda>t. inside t = Some Wrlock) (m_thr t)"
  by (rule rw_inv_exclusive [OF rwm.reach_inv [OF assms rw_start_inv]])

text \<open>
  threads that unlock only what they hold never run into \<open>err_dump\<close> and are never stuck: in
  every reachable state every call an idle thread may make and every woken wait has a next
  step that does not abort the process.
\<close>

theorem rwlock_safe:
  assumes "mreach rw_code UNIV (rw_start n) t" and "i < length (m_thr t)"
  shows "(th_pc (m_thr t ! i) = Outside \<longrightarrow> rw_may_call (th_cli (m_thr t ! i)) op \<longrightarrow>
      rw_enter op st (m_data t) \<noteq> Crash \<and> (\<exists>u. mstep rw_code UNIV t u)) \<and>
    (th_pc (m_thr t ! i) = Woken op \<longrightarrow>
      rw_resume op st (m_data t) \<noteq> Crash \<and> (\<exists>u. mstep rw_code UNIV t u))"
  using rwm.reach_call_progress [OF assms(1) rw_start_inv assms(2), of op st]
    rwm.reach_resume_progress [OF assms(1) rw_start_inv assms(2), of op st]
  by simp

text \<open>
  C11: the version with cleanup handlers: when \<open>pthread_mutex_lock\<close> and \<open>pthread_cond_wait\<close> do not
  fail, a writer excludes all other threads and the counters agree with the threads, also when
  waiting threads are cancelled at any moment. (When they fail the functions return 0 without
  the lock, below.)
\<close>

theorem rwlock_cancel_exclusion:
  assumes "mreach rw_code_cancel {None} (rw_start n) t"
  shows "(\<forall>i j. i < length (m_thr t) \<longrightarrow> j < length (m_thr t) \<longrightarrow> i \<noteq> j \<longrightarrow>
      th_cli (m_thr t ! i) = WrLock \<longrightarrow> th_cli (m_thr t ! j) = NoLock) \<and>
    rw_refcount (m_data t) = (if list_ex (\<lambda>t. th_cli t = WrLock) (m_thr t) then -1
      else cnt (\<lambda>t. th_cli t = RdLock) (m_thr t)) \<and>
    rw_nwaitreaders (m_data t) = cnt (\<lambda>t. inside t = Some Rdlock) (m_thr t) \<and>
    rw_nwaitwriters (m_data t) = cnt (\<lambda>t. inside t = Some Wrlock) (m_thr t)"
  by (rule rw_inv_exclusive [OF rwc.reach_inv [OF assms rw_start_inv]])

text \<open>
  writers have preference.  While a writer waits, a thread that asks for a read lock does
  not get it: \<open>pthread_rwlock_rdlock\<close> makes it wait and \<open>pthread_rwlock_tryrdlock\<close> gives \<open>EBUSY\<close>;
  and when the lock becomes free, \<open>pthread_rwlock_unlock\<close> wakes a writer and no reader.
\<close>

theorem rwlock_writer_preference:
  assumes "rw_magic rw = RW_MAGIC" and "0 < rw_nwaitwriters rw"
  shows "pthread_rwlock_rdlock None rw = Sleep (rw\<lparr>rw_nwaitreaders := rw_nwaitreaders rw + 1\<rparr>) CondReaders \<and>
    pthread_rwlock_tryrdlock None rw = Finish rw [] (Some EBUSY) \<and>
    (rw_refcount rw = 1 \<or> rw_refcount rw = -1 \<longrightarrow>
      pthread_rwlock_unlock None rw = Finish (rw\<lparr>rw_refcount := 0\<rparr>) [Signal CondWriters] None)"
  using assms by (auto simp: rw_op_defs)

theorem rwlock_writer_preference_witness:
  "pthread_rwlock_tryrdlock None \<lparr>rw_magic = RW_MAGIC, rw_nwaitreaders = 0, rw_nwaitwriters = 1, rw_refcount = 1\<rparr> =
     Finish \<lparr>rw_magic = RW_MAGIC, rw_nwaitreaders = 0, rw_nwaitwriters = 1, rw_refcount = 1\<rparr> [] (Some EBUSY)"
  using rwlock_writer_preference [of "\<lparr>rw_magic = RW_MAGIC, rw_nwaitreaders = 0, rw_nwaitwriters = 1, rw_refcount = 1\<rparr>"]
  by simp

section \<open>What cancellation and failures break\<close>

lemma ex_writer_waits:
  "P = rw_code \<or> P = rw_code_cancel \<Longrightarrow> None \<in> F \<Longrightarrow>
   mreach P F (rw_start 3) \<lparr>m_data = \<lparr>rw_magic = RW_MAGIC, rw_nwaitreaders = 1, rw_nwaitwriters = 1, rw_refcount = -1\<rparr>,
     m_thr = [\<lparr>th_pc = Outside, th_cli = WrLock\<rparr>, \<lparr>th_pc = Asleep Wrlock CondWriters, th_cli = NoLock\<rparr>,
       \<lparr>th_pc = Asleep Rdlock CondReaders, th_cli = NoLock\<rparr>]\<rparr>"
proof -
  assume P: "P = rw_code \<or> P = rw_code_cancel" and F: "None \<in> F"
  let ?o = "\<lparr>th_pc = Outside, th_cli = NoLock\<rparr>" and ?h = "\<lparr>th_pc = Outside, th_cli = WrLock\<rparr>"
  let ?w = "\<lparr>th_pc = Asleep Wrlock CondWriters, th_cli = NoLock\<rparr>" and ?r = "\<lparr>th_pc = Asleep Rdlock CondReaders, th_cli = NoLock\<rparr>"
  let ?s = "\<lambda>nr nw c. \<lparr>rw_magic = RW_MAGIC, rw_nwaitreaders = nr, rw_nwaitwriters = nw, rw_refcount = c\<rparr>"
  have e: "enter P Wrlock None (?s 0 0 0) = Finish (?s 0 0 (-1)) [] None"
      "enter P Wrlock None (?s 0 0 (-1)) = Sleep (?s 0 1 (-1)) CondWriters"
      "enter P Rdlock None (?s 0 1 (-1)) = Sleep (?s 1 1 (-1)) CondReaders"
    using P by (auto simp: rw_op_defs rw_op_cancel_defs)
  have may: "may_call P = rw_may_call" "note_ret P = rw_note"
    using P by auto
  have "mreach P F (rw_start 3) \<lparr>m_data = ?s 0 0 0, m_thr = [?o, ?o, ?o]\<rparr>"
    using reach_start [of P F "rw_start 3"] by (simp add: rw_start_def PTHREAD_RWLOCK_INITIALIZER_def numeral_3_eq_3)
  moreover have "mstep P F \<lparr>m_data = ?s 0 0 0, m_thr = [?o, ?o, ?o]\<rparr> \<lparr>m_data = ?s 0 0 (-1), m_thr = [?h, ?o, ?o]\<rparr>"
    using may F deliver_none [of "[?h, ?o, ?o]"] by (intro call_finish [of 0 _ _ Wrlock None, OF _ _ _ _ e(1)]) simp_all
  moreover have "mstep P F \<lparr>m_data = ?s 0 0 (-1), m_thr = [?h, ?o, ?o]\<rparr> \<lparr>m_data = ?s 0 1 (-1), m_thr = [?h, ?w, ?o]\<rparr>"
    using call_sleep [of 1 "[?h, ?o, ?o]" P Wrlock None F, OF _ _ _ _ e(2)] may F by simp
  moreover have "mstep P F \<lparr>m_data = ?s 0 1 (-1), m_thr = [?h, ?w, ?o]\<rparr> \<lparr>m_data = ?s 1 1 (-1), m_thr = [?h, ?w, ?r]\<rparr>"
    using call_sleep [of 2 "[?h, ?w, ?o]" P Rdlock None F, OF _ _ _ _ e(3)] may F by simp
  ultimately show ?thesis by (blast intro: reach_step)
qed

theorem rwlock_exclusion_witness:
  "\<exists>t. mreach rw_code UNIV (rw_start 3) t \<and> th_cli (m_thr t ! 0) = WrLock \<and> rw_refcount (m_data t) = -1"
  using rwlock_exclusion [OF ex_writer_waits [of rw_code UNIV]] ex_writer_waits [of rw_code UNIV]
  by (intro exI conjI) (blast, simp_all)

theorem rwlock_safe_witness:
  "rw_enter Unlock None \<lparr>rw_magic = RW_MAGIC, rw_nwaitreaders = 1, rw_nwaitwriters = 1, rw_refcount = -1\<rparr> \<noteq> Crash"
  using rwlock_safe [OF ex_writer_waits [of rw_code UNIV], of 0 Unlock None] by simp

text \<open>The waiting writer is cancelled.\<close>

lemma ex_writer_cancelled:
  "mreach rw_code_cancel {None} (rw_start 3) \<lparr>m_data = \<lparr>rw_magic = RW_MAGIC, rw_nwaitreaders = 1, rw_nwaitwriters = 0, rw_refcount = -1\<rparr>,
     m_thr = [\<lparr>th_pc = Outside, th_cli = WrLock\<rparr>, \<lparr>th_pc = Cancelled, th_cli = NoLock\<rparr>,
       \<lparr>th_pc = Asleep Rdlock CondReaders, th_cli = NoLock\<rparr>]\<rparr>"
  (is "mreach _ _ _ ?t")
proof -
  let ?h = "\<lparr>th_pc = Outside, th_cli = WrLock\<rparr>" and ?w = "\<lparr>th_pc = Asleep Wrlock CondWriters, th_cli = NoLock\<rparr>"
  let ?r = "\<lparr>th_pc = Asleep Rdlock CondReaders, th_cli = NoLock\<rparr>"
  have "mstep rw_code_cancel {None}
      \<lparr>m_data = \<lparr>rw_magic = RW_MAGIC, rw_nwaitreaders = 1, rw_nwaitwriters = 1, rw_refcount = -1\<rparr>, m_thr = [?h, ?w, ?r]\<rparr> ?t"
    using cancel [of 1 "[?h, ?w, ?r]" Wrlock CondWriters rw_code_cancel "{None}"
        "\<lparr>rw_magic = RW_MAGIC, rw_nwaitreaders = 1, rw_nwaitwriters = 1, rw_refcount = -1\<rparr>"]
    by (simp add: rwlock_cancelwrwait_def)
  then show ?thesis using ex_writer_waits [of rw_code_cancel "{None}"] by (blast intro: reach_step)
qed

theorem rwlock_cancel_exclusion_witness:
  "\<exists>t. mreach rw_code_cancel {None} (rw_start 3) t \<and> th_cli (m_thr t ! 0) = WrLock \<and> th_pc (m_thr t ! 1) = Cancelled \<and>
     rw_refcount (m_data t) = -1 \<and> rw_nwaitwriters (m_data t) = 0"
  using rwlock_cancel_exclusion [OF ex_writer_cancelled] ex_writer_cancelled
  by (intro exI conjI) (blast, simp_all)

text \<open>
  a cancelled writer can leave readers asleep on a free lock.  The unlocking thread signals
  the waiting writer and not the readers; when that writer is cancelled before it runs, its
  cleanup handler only decrements the count, and nobody is left to wake the readers.
\<close>

theorem rwlock_cancel_strands_readers:
  "\<exists>t. mreach rw_code_cancel {None} (rw_start 3) t \<and> rw_refcount (m_data t) = 0 \<and> rw_nwaitwriters (m_data t) = 0 \<and>
     th_pc (m_thr t ! 2) = Asleep Rdlock CondReaders \<and> \<not> list_ex is_woken (m_thr t)"
proof -
  let ?R = "mreach rw_code_cancel {None} (rw_start 3)" and ?st = "mstep rw_code_cancel {None}"
  let ?o = "\<lparr>th_pc = Outside, th_cli = NoLock\<rparr>" and ?h = "\<lparr>th_pc = Outside, th_cli = WrLock\<rparr>"
  let ?w = "\<lparr>th_pc = Asleep Wrlock CondWriters, th_cli = NoLock\<rparr>" and ?r = "\<lparr>th_pc = Asleep Rdlock CondReaders, th_cli = NoLock\<rparr>"
  let ?k = "\<lparr>th_pc = Woken Wrlock, th_cli = NoLock\<rparr>" and ?x = "\<lparr>th_pc = Cancelled, th_cli = NoLock\<rparr>"
  let ?s = "\<lambda>nr nw c. \<lparr>rw_magic = RW_MAGIC, rw_nwaitreaders = nr, rw_nwaitwriters = nw, rw_refcount = c\<rparr>"
  have e: "enter rw_code_cancel Unlock None (?s 1 1 (-1)) = Finish (?s 1 1 0) [Signal CondWriters] None"
    by (simp add: rw_op_cancel_defs)
  have d: "deliver [Signal CondWriters] [?o, ?w, ?r] [?o, ?k, ?r]"
    using deliver_signal [of 1 "[?o, ?w, ?r]" CondWriters "[]" "[?o, ?k, ?r]"] deliver_none [of "[?o, ?k, ?r]"] by simp
  have "?R \<lparr>m_data = ?s 1 1 (-1), m_thr = [?h, ?w, ?r]\<rparr>"
    using ex_writer_waits [of rw_code_cancel "{None}"] by simp
  moreover have "?st \<lparr>m_data = ?s 1 1 (-1), m_thr = [?h, ?w, ?r]\<rparr> \<lparr>m_data = ?s 1 1 0, m_thr = [?o, ?k, ?r]\<rparr>"
    using d by (intro call_finish [of 0 _ _ Unlock None, OF _ _ _ _ e]) simp_all
  moreover have "?st \<lparr>m_data = ?s 1 1 0, m_thr = [?o, ?k, ?r]\<rparr> \<lparr>m_data = ?s 1 0 0, m_thr = [?o, ?x, ?r]\<rparr>"
    using cancel [of 1 "[?o, ?k, ?r]" Wrlock CondWriters rw_code_cancel "{None}" "?s 1 1 0"]
    by (simp add: rwlock_cancelwrwait_def)
  ultimately have "?R \<lparr>m_data = ?s 1 0 0, m_thr = [?o, ?x, ?r]\<rparr>"
    by (blast intro: reach_step)
  then show ?thesis
    by (intro exI conjI) (assumption, simp_all add: numeral_2_eq_2)
qed

text \<open>
  the version with cleanup handlers reports success without the lock.  Because
  \<open>pthread_rwlock_wrlock\<close> compares the result of \<open>pthread_mutex_lock\<close> with \<open>-1\<close> and ends with
  \<open>return(0)\<close>, a failed lock or a failed wait leaves the count unchanged and still returns 0;
  the same holds for a failed wait in \<open>pthread_rwlock_rdlock\<close>.
\<close>

theorem rwlock_cancel_false_success:
  assumes "rw_magic rw = RW_MAGIC"
  shows "(rw_refcount rw = 0 \<longrightarrow> pthread_rwlock_wrlock_cancel (Some e) rw = Finish rw [] None) \<and>
    wrlock_resume_cancel (Some e) rw = Finish (rw\<lparr>rw_nwaitwriters := rw_nwaitwriters rw - 1\<rparr>) [] None \<and>
    rdlock_resume_cancel (Some e) rw = Finish (rw\<lparr>rw_nwaitreaders := rw_nwaitreaders rw - 1\<rparr>) [] None"
  using assms by (simp add: rw_op_cancel_defs)

theorem rwlock_cancel_false_success_witness:
  "pthread_rwlock_wrlock_cancel (Some EINVAL) PTHREAD_RWLOCK_INITIALIZER = Finish PTHREAD_RWLOCK_INITIALIZER [] None"
  using rwlock_cancel_false_success [of PTHREAD_RWLOCK_INITIALIZER EINVAL]
  by (simp add: PTHREAD_RWLOCK_INITIALIZER_def)

end
