(* ===== verification/Inet.thy ===== *)
theory Inet
  imports Prelude
begin

text \<open>
  Conversion of Internet addresses between network format and text, and the Internet
  checksum: \<open>libfree/inet_pton.c\<close>, \<open>inet_ntop.c\<close>, \<open>inet_aton.c\<close>, \<open>inet_pton_ipv4.c\<close>,
  \<open>inet_ntop_ipv4.c\<close> and \<open>in_cksum.c\<close> of the network library. This theory holds the
  definitions; \<open>Inet_Correct\<close> and \<open>Inet_Props\<close> hold what is proved of them.

  A C string is the list of its characters before the terminating null, so the end of the
  list is where the C code reads the null character. Addresses are lists of octets in memory
  order. A local array is a list; a store through a pointer is an update at an index, and a
  store outside the array is the result \<open>Overruns\<close>, so that the absence of buffer overruns
  is something to prove.
\<close>

type_synonym octet = "8 word"

datatype 'a parse = Accepts 'a | Rejects | Overruns

definition AF_INET :: int where "AF_INET = 2"
definition AF_INET6 :: int where "AF_INET6 = 10"

section \<open>The C library's text functions\<close>

text \<open>\<open>strchr (s, c) - s\<close>: the index of the first occurrence of a character.\<close>

primrec strchr :: "string \<Rightarrow> char \<Rightarrow> nat option" where
  "strchr [] c = None"
| "strchr (x # xs) c = (if x = c then Some 0 else map_option Suc (strchr xs c))"

definition digits :: string where "digits = ''0123456789''"
definition xdigits_l :: string where "xdigits_l = ''0123456789abcdef''"
definition xdigits_u :: string where "xdigits_u = ''0123456789ABCDEF''"

text \<open>The text that \<open>printf\<close> gives for \<open>%u\<close> (base 10) and \<open>%x\<close> (base 16).\<close>

fun print_base :: "nat \<Rightarrow> nat \<Rightarrow> string" where
  "print_base b n =
    (if b < 2 \<or> n < b then [xdigits_l ! n] else print_base b (n div b) @ [xdigits_l ! (n mod b)])"

declare print_base.simps [simp del]

abbreviation fmt_u :: "nat \<Rightarrow> string" where "fmt_u \<equiv> print_base 10"
abbreviation fmt_x :: "nat \<Rightarrow> string" where "fmt_x \<equiv> print_base 16"

section \<open>\<open>inet_pton.c\<close>\<close>

text \<open>
  The loop of \<open>inet_pton4\<close>: the remaining text, the array \<open>tmp\<close>, the position of \<open>tp\<close> in it,
  \<open>saw_digit\<close> and \<open>octets\<close>.
\<close>

fun pton4_loop :: "string \<Rightarrow> octet list \<Rightarrow> nat \<Rightarrow> bool \<Rightarrow> nat \<Rightarrow> octet list parse" where
  "pton4_loop [] tmp tp saw_digit octets = (if octets < 4 then Rejects else Accepts tmp)"
| "pton4_loop (ch # src) tmp tp saw_digit octets =
    (case strchr digits ch of
       Some pch \<Rightarrow>
         if length tmp \<le> tp then Overruns
         else let new = unat (tmp ! tp) * 10 + pch in
           if 255 < new then Rejects
           else if \<not> saw_digit then
             (if 4 < octets + 1 then Rejects
              else pton4_loop src (tmp[tp := of_nat new]) tp True (octets + 1))
           else pton4_loop src (tmp[tp := of_nat new]) tp saw_digit octets
     | None \<Rightarrow>
         if ch = CHR ''.'' \<and> saw_digit then
           (if octets = 4 then Rejects
            else if length tmp \<le> tp + 1 then Overruns
            else pton4_loop src (tmp[tp + 1 := 0]) (tp + 1) False octets)
         else Rejects)"

text \<open>
  The array \<open>tmp\<close> starts with \<open>*tp = 0\<close> and three octets of whatever was on the stack
  (\<open>junk\<close>); the result is the octets copied to \<open>dst\<close> when the function returns 1.
\<close>

definition inet_pton4_on :: "octet list \<Rightarrow> string \<Rightarrow> octet list parse" where
  "inet_pton4_on junk src = pton4_loop src (0 # take 3 (junk @ [0, 0, 0])) 0 False 0"

definition inet_pton4 :: "string \<Rightarrow> octet list parse" where
  "inet_pton4 src = inet_pton4_on [] src"

text \<open>The local variables of \<open>inet_pton6\<close>; pointers into \<open>tmp\<close> are indices.\<close>

record pton6_vars =
  tmp6 :: "octet list"
  tp6 :: nat
  colonp :: "nat option"
  curtok :: string
  saw_xdigit :: bool
  val :: cint

text \<open>Storing the two octets of \<open>val\<close> at \<open>tp\<close>.\<close>

definition put_val :: "pton6_vars \<Rightarrow> pton6_vars" where
  "put_val v = v\<lparr>tmp6 := (tmp6 v)[tp6 v := ucast (drop_bit 8 (val v)),
                                   tp6 v + 1 := ucast (val v)], tp6 := tp6 v + 2\<rparr>"

definition xdigit :: "char \<Rightarrow> nat option" where
  "xdigit ch = (case strchr xdigits_l ch of Some pch \<Rightarrow> Some pch | None \<Rightarrow> strchr xdigits_u ch)"

text \<open>
  The shift of the octets after \<open>::\<close> to the end of the array, one octet at a time from the
  last: \<open>endp[- i] = colonp[n - i]; colonp[n - i] = 0\<close>. Both elements must be inside the array.
\<close>

function shift_loop :: "octet list \<Rightarrow> nat \<Rightarrow> nat \<Rightarrow> nat \<Rightarrow> nat \<Rightarrow> octet list parse" where
  "shift_loop tmp endp cp n i =
    (if n < i then Accepts tmp
     else if endp < i \<or> length tmp \<le> endp - i \<or> length tmp \<le> cp + (n - i) then Overruns
     else shift_loop (tmp[endp - i := tmp ! (cp + (n - i)), cp + (n - i) := 0]) endp cp n (i + 1))"
  by auto

termination
  by (relation "measure (\<lambda>(tmp, endp, cp, n, i). Suc n - i)") auto

declare shift_loop.simps [simp del]

text \<open>
  After the loop: the last group, the shift and the test that the array is full.
\<close>

definition pton6_finish :: "pton6_vars \<Rightarrow> octet list parse" where
  "pton6_finish v =
    (if saw_xdigit v \<and> 16 < tp6 v + 2 then Rejects
     else if saw_xdigit v \<and> length (tmp6 v) < tp6 v + 2 then Overruns
     else let w = (if saw_xdigit v then put_val v else v) in
       case colonp w of
         Some c \<Rightarrow> shift_loop (tmp6 w) 16 c (tp6 w - c) 1
       | None \<Rightarrow> if tp6 w \<noteq> 16 then Rejects else Accepts (tmp6 w))"

text \<open>
  The loop of \<open>inet_pton6\<close>. At a dot, the text from \<open>curtok\<close> is handed to \<open>inet_pton4\<close>,
  which stores its four octets at \<open>tp\<close>.
\<close>

fun pton6_loop :: "string \<Rightarrow> pton6_vars \<Rightarrow> octet list parse" where
  "pton6_loop [] v = pton6_finish v"
| "pton6_loop (ch # src) v =
    (case xdigit ch of
       Some pch \<Rightarrow>
         let new = push_bit 4 (val v) OR of_nat pch in
         if 0xffff < new then Rejects
         else pton6_loop src (v\<lparr>val := new, saw_xdigit := True\<rparr>)
     | None \<Rightarrow>
         if ch = CHR '':'' then
           let w = v\<lparr>curtok := src\<rparr> in
           if \<not> saw_xdigit w then
             (case colonp w of
                Some _ \<Rightarrow> Rejects
              | None \<Rightarrow> pton6_loop src (w\<lparr>colonp := Some (tp6 w)\<rparr>))
           else if 16 < tp6 w + 2 then Rejects
           else if length (tmp6 w) < tp6 w + 2 then Overruns
           else pton6_loop src ((put_val w)\<lparr>saw_xdigit := False, val := 0\<rparr>)
         else if ch = CHR ''.'' \<and> tp6 v + 4 \<le> 16 then
           (case inet_pton4 (curtok v) of
              Accepts q \<Rightarrow>
                if length (tmp6 v) < tp6 v + 4 then Overruns
                else pton6_finish
                  (v\<lparr>tmp6 := take (tp6 v) (tmp6 v) @ q @ drop (tp6 v + 4) (tmp6 v),
                     tp6 := tp6 v + 4, saw_xdigit := False\<rparr>)
            | Rejects \<Rightarrow> Rejects
            | Overruns \<Rightarrow> Overruns)
         else Rejects)"

definition pton6_start :: "string \<Rightarrow> pton6_vars" where
  "pton6_start src = \<lparr>tmp6 = replicate 16 0, tp6 = 0, colonp = None, curtok = src,
                      saw_xdigit = False, val = 0\<rparr>"

text \<open>A leading \<open>:\<close> must be followed by another one; the loop then starts at the second.\<close>

definition inet_pton6 :: "string \<Rightarrow> octet list parse" where
  "inet_pton6 src =
    (if take 1 src = '':'' then
       (if take 1 (tl src) \<noteq> '':'' then Rejects else pton6_loop (tl src) (pton6_start (tl src)))
     else pton6_loop src (pton6_start src))"

text \<open>\<open>Inl\<close> is the return value \<open>-1\<close> with errno set.\<close>

definition inet_pton :: "int \<Rightarrow> string \<Rightarrow> errno + octet list parse" where
  "inet_pton af src =
    (if af = AF_INET then Inr (inet_pton4 src)
     else if af = AF_INET6 then Inr (inet_pton6 src)
     else Inl EAFNOSUPPORT)"

section \<open>\<open>inet_ntop.c\<close>\<close>

text \<open>
  \<open>Inr s\<close>: the function returns \<open>dst\<close>, into which it has stored the characters of \<open>s\<close> and a
  null character, whatever the size of the buffer; \<open>Inl e\<close>: it returns NULL with errno set.
\<close>

definition stored_chars :: "string \<Rightarrow> nat" where
  "stored_chars s = length s + 1"

definition dotted_quad :: "octet list \<Rightarrow> string" where
  "dotted_quad src =
    fmt_u (unat (src ! 0)) @ ''.'' @ fmt_u (unat (src ! 1)) @ ''.'' @
    fmt_u (unat (src ! 2)) @ ''.'' @ fmt_u (unat (src ! 3))"

definition inet_ntop4 :: "octet list \<Rightarrow> nat \<Rightarrow> string result" where
  "inet_ntop4 src sz =
    (let tmp = dotted_quad src in
     if sz < length tmp then Inl ENOSPC else Inr tmp)"

text \<open>\<open>words[i / 2] |= src[i] << ((1 - (i % 2)) << 3)\<close> for the sixteen octets.\<close>

definition ntop6_words :: "octet list \<Rightarrow> cint list" where
  "ntop6_words src =
    fold (\<lambda>i words. words[i div 2 := (words ! (i div 2)) OR
                          push_bit (push_bit 3 (1 - i mod 2)) (ucast (src ! i))])
         [0..<16] (replicate 8 0)"

text \<open>
  A run of zero words, \<open>base\<close> and \<open>len\<close>; \<open>None\<close> is \<open>base == -1\<close>.
\<close>

type_synonym run = "(nat \<times> nat) option"

definition better_run :: "run \<Rightarrow> run \<Rightarrow> run" where
  "better_run best cur =
    (case cur of
       None \<Rightarrow> best
     | Some (cb, cl) \<Rightarrow>
         (case best of
            None \<Rightarrow> cur
          | Some (bb, bl) \<Rightarrow> if bl < cl then cur else best))"

definition best_step :: "cint list \<Rightarrow> nat \<Rightarrow> run \<times> run \<Rightarrow> run \<times> run" where
  "best_step words i bc = (case bc of (best, cur) \<Rightarrow>
    if words ! i = 0 then
      (case cur of
         None \<Rightarrow> (best, Some (i, 1))
       | Some (b, l) \<Rightarrow> (best, Some (b, l + 1)))
    else (better_run best cur, None))"

definition best_run :: "cint list \<Rightarrow> run" where
  "best_run words =
    (case fold (best_step words) [0..<8] (None, None) of
       (best, cur) \<Rightarrow>
         (case better_run best cur of
            Some (b, l) \<Rightarrow> if l < 2 then None else Some (b, l)
          | None \<Rightarrow> None))"

definition run_base :: "run \<Rightarrow> nat option" where
  "run_base best = map_option fst best"

definition in_run :: "run \<Rightarrow> nat \<Rightarrow> bool" where
  "in_run best i = (case best of None \<Rightarrow> False | Some (b, l) \<Rightarrow> b \<le> i \<and> i < b + l)"

definition encapsulated :: "cint list \<Rightarrow> run \<Rightarrow> bool" where
  "encapsulated words best =
    (case best of
       None \<Rightarrow> False
     | Some (b, l) \<Rightarrow> b = 0 \<and> (l = 6 \<or> l = 5 \<and> words ! 5 = 0xffff))"

text \<open>
  The format loop from index \<open>i\<close> on; \<open>tmp\<close> is the text written so far, in an array of
  \<open>sizeof "ffff:ffff:ffff:ffff:ffff:ffff:255.255.255.255"\<close>, 46, characters. The \<open>break\<close>
  after an encapsulated IPv4 address leaves the loop. \<open>Overruns\<close> is a store behind the
  array: each \<open>sprintf\<close> stores its text and a null character.
\<close>

definition tmp6_size :: nat where "tmp6_size = 46"

definition append6 :: "string \<Rightarrow> string \<Rightarrow> string parse" where
  "append6 tmp s = (if tmp6_size < stored_chars (tmp @ s) then Overruns else Accepts (tmp @ s))"

definition bind_parse :: "'a parse \<Rightarrow> ('a \<Rightarrow> 'b parse) \<Rightarrow> 'b parse" where
  "bind_parse p f = (case p of Accepts a \<Rightarrow> f a | Rejects \<Rightarrow> Rejects | Overruns \<Rightarrow> Overruns)"

fun format6 :: "octet list \<Rightarrow> cint list \<Rightarrow> run \<Rightarrow> nat list \<Rightarrow> string \<Rightarrow> string parse" where
  "format6 src words best [] tmp = Accepts tmp"
| "format6 src words best (i # is) tmp =
    (if in_run best i then
       (if run_base best = Some i then bind_parse (append6 tmp '':'') (format6 src words best is)
        else format6 src words best is tmp)
     else bind_parse (if i \<noteq> 0 then append6 tmp '':'' else Accepts tmp) (\<lambda>tmp.
       if i = 6 \<and> encapsulated words best then
         (case inet_ntop4 (drop 12 src) (tmp6_size - length tmp) of
            Inl _ \<Rightarrow> Rejects
          | Inr q \<Rightarrow> append6 tmp q)
       else bind_parse (append6 tmp (fmt_x (unat (words ! i)))) (format6 src words best is)))"

definition ntop6_text :: "octet list \<Rightarrow> string parse" where
  "ntop6_text src =
    (let words = ntop6_words src; best = best_run words in
     bind_parse (format6 src words best [0..<8] []) (\<lambda>tmp.
       case best of
         Some (b, l) \<Rightarrow> if b + l = 8 then append6 tmp '':'' else Accepts tmp
       | None \<Rightarrow> Accepts tmp))"

text \<open>
  When \<open>inet_ntop4\<close> returns NULL, so does \<open>inet_ntop6\<close>, with the errno it has set.
\<close>

definition inet_ntop6 :: "octet list \<Rightarrow> nat \<Rightarrow> string result parse" where
  "inet_ntop6 src sz =
    (case ntop6_text src of
       Overruns \<Rightarrow> Overruns
     | Rejects \<Rightarrow> Accepts (Inl ENOSPC)
     | Accepts tmp \<Rightarrow>
         if sz < stored_chars tmp then Accepts (Inl ENOSPC) else Accepts (Inr tmp))"

definition inet_ntop :: "int \<Rightarrow> octet list \<Rightarrow> nat \<Rightarrow> string result parse" where
  "inet_ntop af src sz =
    (if af = AF_INET then Accepts (inet_ntop4 src sz)
     else if af = AF_INET6 then inet_ntop6 src sz
     else Accepts (Inl EAFNOSUPPORT))"

section \<open>\<open>inet_aton.c\<close>, \<open>inet_pton_ipv4.c\<close> and \<open>inet_ntop_ipv4.c\<close>\<close>

text \<open>
  \<open>inet_aton\<close> accumulates in a \<open>u_long\<close>, 64 bits wide. The end of the text is the case
  \<open>'\0'\<close>, after which the loop ends. The result is \<open>dots\<close> and \<open>addr\<close>, or \<open>None\<close> when the
  function returns 0.
\<close>

type_synonym u_long = "64 word"

fun aton_loop :: "string \<Rightarrow> nat \<Rightarrow> u_long \<Rightarrow> u_long \<Rightarrow> (nat \<times> u_long) option" where
  "aton_loop [] dots acc addr =
    (if 255 < acc then None else Some (dots, push_bit 8 addr OR acc))"
| "aton_loop (cc # cp) dots acc addr =
    (case strchr digits cc of
       Some d \<Rightarrow> aton_loop cp dots (acc * 10 + of_nat d) addr
     | None \<Rightarrow>
         if cc = CHR ''.'' then
           (if 3 < dots + 1 then None
            else if 255 < acc then None
            else aton_loop cp (dots + 1) 0 (push_bit 8 addr OR acc))
         else None)"

text \<open>The four octets in memory of \<open>htonl (addr)\<close>.\<close>

definition htonl_octets :: "u_long \<Rightarrow> octet list" where
  "htonl_octets addr =
    [ucast (drop_bit 24 addr), ucast (drop_bit 16 addr), ucast (drop_bit 8 addr), ucast addr]"

text \<open>
  \<open>None\<close>: returns 0; \<open>Some s\<close>: returns 1 and stores the octets \<open>s\<close> in \<open>*ap\<close> (when \<open>ap\<close> is
  not NULL).
\<close>

definition inet_aton :: "string \<Rightarrow> octet list option" where
  "inet_aton cp =
    (case aton_loop cp 0 0 0 of
       None \<Rightarrow> None
     | Some (dots, addr) \<Rightarrow>
         Some (htonl_octets (if dots < 3 then push_bit (8 * (3 - dots)) addr else addr)))"

definition inet_pton_ipv4 :: "int \<Rightarrow> string \<Rightarrow> errno + octet list option" where
  "inet_pton_ipv4 family strptr =
    (if family = AF_INET then Inr (inet_aton strptr) else Inl EAFNOSUPPORT)"

definition inet_ntop_ipv4 :: "int \<Rightarrow> octet list \<Rightarrow> nat \<Rightarrow> string result" where
  "inet_ntop_ipv4 family p len =
    (if family = AF_INET then
       (let temp = take 15 (dotted_quad p) in
        if len \<le> length temp then Inl ENOSPC else Inr temp)
     else Inl EAFNOSUPPORT)"

section \<open>\<open>in_cksum.c\<close>\<close>

text \<open>
  The 16-bit value of two octets in memory; the byte order of the host is a parameter.
\<close>

definition host16 :: "bool \<Rightarrow> octet \<Rightarrow> octet \<Rightarrow> 16 word" where
  "host16 big_endian a b =
    (if big_endian then push_bit 8 (ucast a) OR ucast b else push_bit 8 (ucast b) OR ucast a)"

fun cksum_loop :: "bool \<Rightarrow> octet list \<Rightarrow> cint \<Rightarrow> cint" where
  "cksum_loop be (a # b # w) csum = cksum_loop be w (csum + ucast (host16 be a b))"
| "cksum_loop be [a] csum = csum + ucast (host16 be a 0)"
| "cksum_loop be [] csum = csum"

definition cksum_fold :: "cint \<Rightarrow> 16 word" where
  "cksum_fold csum =
    (let folded = drop_bit 16 csum + (csum AND 0xffff); carried = folded + drop_bit 16 folded in
     ucast (NOT carried))"

definition in_cksum :: "bool \<Rightarrow> octet list \<Rightarrow> 16 word" where
  "in_cksum be addr = cksum_fold (cksum_loop be addr 0)"

end
