(* ===== verification/Inet_Correct.thy ===== *)
theory Inet_Correct
  imports Inet
begin

text \<open>
  The texts that \<open>inet_pton4\<close> accepts, described without its loop; how the two parsers
  consume a printed number; and the search for the run of zeros in \<open>inet_ntop6\<close>.
\<close>

section \<open>Lists of known length\<close>

lemma list_update_Cons_numeral [simp]:
  "(x # xs)[numeral n := y] = x # xs[pred_numeral n := y]"
  by (simp add: numeral_eq_Suc)

lemma length_3E:
  assumes "length xs = 3"
  obtains a b c where "xs = [a, b, c]"
  using assms by (auto simp: length_Suc_conv numeral_3_eq_3)

lemma length_4E:
  assumes "length xs = 4"
  obtains a b c d where "xs = [a, b, c, d]"
proof (cases xs)
  case (Cons a ys)
  with assms have "length ys = 3" by simp
  then obtain b c d where "ys = [b, c, d]" by (rule length_3E)
  with Cons that show thesis by simp
qed (use assms in simp)

section \<open>Digits\<close>

lemma strchr_Some: "strchr s c = Some i \<Longrightarrow> i < length s \<and> s ! i = c"
proof (induction s arbitrary: i)
  case Nil
  then show ?case by simp
next
  case (Cons x s)
  then show ?case by (cases i) (auto split: if_splits)
qed

lemma strchr_digits_xdigits: "d < 10 \<Longrightarrow> strchr digits (xdigits_l ! d) = Some d"
proof -
  have "\<forall>d \<in> set [0..<10]. strchr digits (xdigits_l ! d) = Some d"
    by code_simp
  then show "d < 10 \<Longrightarrow> strchr digits (xdigits_l ! d) = Some d"
    by simp
qed

lemma xdigit_xdigits: "d < 16 \<Longrightarrow> xdigit (xdigits_l ! d) = Some d"
proof -
  have "\<forall>d \<in> set [0..<16]. xdigit (xdigits_l ! d) = Some d"
    by code_simp
  then show "d < 16 \<Longrightarrow> xdigit (xdigits_l ! d) = Some d"
    by simp
qed

lemma strchr_digits_less: "strchr digits c = Some d \<Longrightarrow> d < 10"
  using strchr_Some [of digits c d] by (simp add: digits_def)

lemma length_xdigits: "length xdigits_l = 16" "length xdigits_u = 16"
  by code_simp+

lemma xdigit_less: "xdigit c = Some d \<Longrightarrow> d < 16"
  using strchr_Some [of xdigits_l c d] strchr_Some [of xdigits_u c d]
  by (auto simp: xdigit_def length_xdigits split: option.splits)

lemma dot_no_digit [simp]:
  "strchr digits CHR ''.'' = None" "xdigit CHR ''.'' = None" "xdigit CHR '':'' = None"
  by code_simp+

section \<open>Decimal texts\<close>

text \<open>The value of a text of decimal digits, continued from a value.\<close>

definition dec_from :: "nat \<Rightarrow> string \<Rightarrow> nat" where
  "dec_from n t = fold (\<lambda>c n. n * 10 + the (strchr digits c)) t n"

definition is_dec :: "string \<Rightarrow> bool" where
  "is_dec t \<longleftrightarrow> list_all (\<lambda>c. strchr digits c \<noteq> None) t"

lemma dec_from_Nil [simp]: "dec_from n [] = n"
  by (simp add: dec_from_def)

lemma dec_from_Cons [simp]: "dec_from n (c # t) = dec_from (n * 10 + the (strchr digits c)) t"
  by (simp add: dec_from_def)

lemma dec_from_append [simp]: "dec_from n (s @ t) = dec_from (dec_from n s) t"
  by (simp add: dec_from_def)

lemma dec_from_ge: "n \<le> dec_from n t"
proof (induction t arbitrary: n)
  case Nil
  then show ?case by simp
next
  case (Cons c t)
  have "n \<le> n * 10 + the (strchr digits c)" by simp
  also have "\<dots> \<le> dec_from (n * 10 + the (strchr digits c)) t" by (rule Cons.IH)
  finally show ?case by simp
qed

lemma is_dec_simps [simp]:
  "is_dec []"
  "is_dec (c # t) \<longleftrightarrow> strchr digits c \<noteq> None \<and> is_dec t"
  "is_dec (s @ t) \<longleftrightarrow> is_dec s \<and> is_dec t"
  by (auto simp: is_dec_def)

text \<open>An octet: at least one digit, any number of leading zeros, a value of at most 255.\<close>

definition octet_text :: "string \<Rightarrow> bool" where
  "octet_text t \<longleftrightarrow> t \<noteq> [] \<and> is_dec t \<and> dec_from 0 t \<le> 255"

definition octet_val :: "string \<Rightarrow> octet" where
  "octet_val t = of_nat (dec_from 0 t)"

definition quad_text :: "string \<Rightarrow> octet list \<Rightarrow> bool" where
  "quad_text s bs \<longleftrightarrow>
    (\<exists>t0 t1 t2 t3. octet_text t0 \<and> octet_text t1 \<and> octet_text t2 \<and> octet_text t3 \<and>
       s = t0 @ ''.'' @ t1 @ ''.'' @ t2 @ ''.'' @ t3 \<and>
       bs = [octet_val t0, octet_val t1, octet_val t2, octet_val t3])"

lemma unat_octet [simp]: "n \<le> 255 \<Longrightarrow> unat (of_nat n :: octet) = n"
  by (simp add: unat_of_nat)

section \<open>\<open>inet_pton4\<close>: every dotted quad is accepted\<close>

lemma pton4_digits:
  assumes "is_dec t" and "tp < length tmp" and "dec_from (unat (tmp ! tp)) t \<le> 255"
  shows "pton4_loop (t @ src) tmp tp True octets =
    pton4_loop src (tmp[tp := of_nat (dec_from (unat (tmp ! tp)) t)]) tp True octets"
  using assms
proof (induction t arbitrary: tmp)
  case Nil
  then show ?case by simp
next
  case (Cons c t)
  define new where "new = unat (tmp ! tp) * 10 + the (strchr digits c)"
  have new: "new \<le> 255"
    using Cons.prems(3) dec_from_ge [of new t] by (simp add: new_def)
  from Cons.prems obtain d where d: "strchr digits c = Some d" by auto
  have "pton4_loop ((c # t) @ src) tmp tp True octets =
    pton4_loop (t @ src) (tmp[tp := of_nat new]) tp True octets"
    using new Cons.prems(2) by (simp add: d new_def)
  also have "\<dots> = pton4_loop src (tmp[tp := of_nat (dec_from (unat (tmp ! tp)) (c # t))]) tp True octets"
  proof -
    have "dec_from (unat (tmp ! tp)) (c # t) = dec_from new t"
      by (simp add: new_def)
    then show ?thesis
      using Cons.IH [of "tmp[tp := of_nat new]"] Cons.prems new by simp
  qed
  finally show ?case .
qed

lemma pton4_octet:
  assumes "octet_text t" and "tp < length tmp" and "tmp ! tp = 0" and "octets < 4"
  shows "pton4_loop (t @ src) tmp tp False octets =
    pton4_loop src (tmp[tp := octet_val t]) tp True (octets + 1)"
proof -
  from assms(1) obtain c t' d where t: "t = c # t'" and d: "strchr digits c = Some d"
    and dec: "is_dec t'" and le: "dec_from d t' \<le> 255"
    by (cases t) (auto simp: octet_text_def)
  have d255: "d \<le> 255"
    using le dec_from_ge [of d t'] by simp
  have "pton4_loop (t @ src) tmp tp False octets =
    pton4_loop (t' @ src) (tmp[tp := of_nat d]) tp True (octets + 1)"
    using assms d255 by (simp add: t d)
  also have "\<dots> = pton4_loop src (tmp[tp := octet_val t]) tp True (octets + 1)"
    using pton4_digits [of t' tp "tmp[tp := of_nat d]"] assms dec le d255
    by (simp add: t d octet_val_def)
  finally show ?thesis .
qed

lemma pton4_accepts_quad:
  assumes "quad_text s bs"
  shows "inet_pton4_on junk s = Accepts bs"
proof -
  from assms obtain t0 t1 t2 t3 where
    t: "octet_text t0" "octet_text t1" "octet_text t2" "octet_text t3"
    and s: "s = t0 @ ''.'' @ t1 @ ''.'' @ t2 @ ''.'' @ t3"
    and bs: "bs = [octet_val t0, octet_val t1, octet_val t2, octet_val t3]"
    by (auto simp: quad_text_def)
  have "length (take 3 (junk @ [0, 0, 0])) = 3"
    by simp
  then obtain j1 j2 j3 where j: "take 3 (junk @ [0, 0, 0]) = [j1, j2, j3]"
    by (rule length_3E)
  show ?thesis
    unfolding inet_pton4_on_def j s bs
    using pton4_octet [OF t(4), where src = "[]"] by (simp add: t pton4_octet)
qed

section \<open>\<open>inet_pton4\<close>: nothing else is accepted, and no store is out of bounds\<close>

text \<open>
  What the loop knows after the prefix \<open>p\<close> of the text: some complete octets \<open>ts\<close>, each
  followed by a dot, and the digits \<open>cur\<close> of the octet under way.
\<close>

definition pton4_inv :: "string \<Rightarrow> octet list \<Rightarrow> nat \<Rightarrow> bool \<Rightarrow> nat \<Rightarrow> bool" where
  "pton4_inv p tmp tp saw octets \<longleftrightarrow>
    (\<exists>ts cur. p = concat (map (\<lambda>t. t @ ''.'') ts) @ cur \<and> list_all octet_text ts \<and>
       is_dec cur \<and> dec_from 0 cur \<le> 255 \<and> length ts = tp \<and> tp < 4 \<and> length tmp = 4 \<and>
       take tp tmp = map octet_val ts \<and> tmp ! tp = octet_val cur \<and>
       saw = (cur \<noteq> []) \<and> octets = tp + (if saw then 1 else 0))"

lemma pton4_inv_bounds: "pton4_inv p tmp tp saw octets \<Longrightarrow> tp < 4 \<and> length tmp = 4"
  by (auto simp: pton4_inv_def)

lemma pton4_inv_digit:
  assumes "pton4_inv p tmp tp saw octets" and "strchr digits c = Some d"
    and "unat (tmp ! tp) * 10 + d \<le> 255"
  shows "pton4_inv (p @ [c]) (tmp[tp := of_nat (unat (tmp ! tp) * 10 + d)]) tp True
          (if saw then octets else octets + 1)"
proof -
  from assms(1) obtain ts cur where *: "p = concat (map (\<lambda>t. t @ ''.'') ts) @ cur"
    "list_all octet_text ts" "is_dec cur" "dec_from 0 cur \<le> 255" "length ts = tp" "tp < 4"
    "length tmp = 4" "take tp tmp = map octet_val ts" "tmp ! tp = octet_val cur"
    "saw = (cur \<noteq> [])" "octets = tp + (if saw then 1 else 0)"
    unfolding pton4_inv_def by blast
  show ?thesis
    unfolding pton4_inv_def
    by (rule exI [of _ ts], rule exI [of _ "cur @ [c]"])
      (use * assms(2,3) in \<open>auto simp: octet_val_def\<close>)
qed

lemma pton4_inv_dot:
  assumes "pton4_inv p tmp tp True octets" and "octets \<noteq> 4"
  shows "tp + 1 < 4 \<and> pton4_inv (p @ ''.'') (tmp[tp + 1 := 0]) (tp + 1) False octets"
proof -
  from assms(1) obtain ts cur where *: "p = concat (map (\<lambda>t. t @ ''.'') ts) @ cur"
    "list_all octet_text ts" "is_dec cur" "dec_from 0 cur \<le> 255" "length ts = tp" "tp < 4"
    "length tmp = 4" "take tp tmp = map octet_val ts" "tmp ! tp = octet_val cur"
    "cur \<noteq> []" "octets = tp + 1"
    unfolding pton4_inv_def by auto
  then have tp: "tp + 1 < 4"
    using assms(2) by simp
  have "pton4_inv (p @ ''.'') (tmp[tp + 1 := 0]) (tp + 1) False octets"
    unfolding pton4_inv_def
    by (rule exI [of _ "ts @ [cur]"], rule exI [of _ "[]"])
      (use * tp in \<open>auto simp: octet_val_def octet_text_def take_Suc_conv_app_nth\<close>)
  with tp show ?thesis by blast
qed

lemma pton4_inv_end:
  assumes "pton4_inv p tmp tp saw octets" and "\<not> octets < 4"
  shows "quad_text p tmp"
proof -
  from assms(1) obtain ts cur where *: "p = concat (map (\<lambda>t. t @ ''.'') ts) @ cur"
    "list_all octet_text ts" "is_dec cur" "dec_from 0 cur \<le> 255" "length ts = tp" "tp < 4"
    "length tmp = 4" "take tp tmp = map octet_val ts" "tmp ! tp = octet_val cur"
    "saw = (cur \<noteq> [])" "octets = tp + (if saw then 1 else 0)"
    unfolding pton4_inv_def by blast
  with assms(2) have tp: "tp = 3" and cur: "octet_text cur"
    by (auto simp: octet_text_def split: if_splits)
  with *(5) have "length ts = 3" by simp
  then obtain t0 t1 t2 where ts: "ts = [t0, t1, t2]" by (rule length_3E)
  obtain b0 b1 b2 b3 where tmp: "tmp = [b0, b1, b2, b3]" by (rule length_4E [OF *(7)])
  show ?thesis
    unfolding quad_text_def
    by (rule exI [of _ t0], rule exI [of _ t1], rule exI [of _ t2], rule exI [of _ cur])
      (use * tp cur in \<open>auto simp: ts tmp numeral_3_eq_3\<close>)
qed

lemma pton4_loop_sound:
  assumes "pton4_inv p tmp tp saw octets"
  shows "pton4_loop s tmp tp saw octets \<noteq> Overruns \<and>
    (\<forall>bs. pton4_loop s tmp tp saw octets = Accepts bs \<longrightarrow> quad_text (p @ s) bs)"
  using assms
proof (induction s arbitrary: p tmp tp saw octets)
  case Nil
  then show ?case using pton4_inv_end [of p tmp tp saw octets] by simp
next
  case (Cons c s)
  show ?case
  proof (cases "strchr digits c")
    case None
    show ?thesis
      using Cons.IH [of "p @ ''.''" "tmp[tp + 1 := 0]" "tp + 1" False octets]
        pton4_inv_dot [of p tmp tp octets] pton4_inv_bounds [OF Cons.prems] Cons.prems
      by (auto simp: None)
  next
    case (Some d)
    show ?thesis
    proof (cases "unat (tmp ! tp) * 10 + d \<le> 255")
      case True
      then show ?thesis
        using Cons.IH [OF pton4_inv_digit [OF Cons.prems Some True]]
          pton4_inv_bounds [OF Cons.prems]
        by (cases saw) (simp_all add: Some Let_def)
    next
      case False
      then show ?thesis
        using pton4_inv_bounds [OF Cons.prems] by (simp add: Some)
    qed
  qed
qed

lemma pton4_inv_start: "pton4_inv [] (0 # take 3 (junk @ [0, 0, 0])) 0 False 0"
  unfolding pton4_inv_def
  by (rule exI [of _ "[]"], rule exI [of _ "[]"]) (simp add: octet_val_def)

lemmas inet_pton4_on_sound = pton4_loop_sound [OF pton4_inv_start, folded inet_pton4_on_def]

lemma inet_pton4_on_iff: "inet_pton4_on junk s = Accepts bs \<longleftrightarrow> quad_text s bs"
proof
  assume "inet_pton4_on junk s = Accepts bs"
  then show "quad_text s bs"
    using inet_pton4_on_sound [of junk s] by simp
qed (rule pton4_accepts_quad)

lemma inet_pton4_on_in_bounds: "inet_pton4_on junk s \<noteq> Overruns"
  using inet_pton4_on_sound [of junk s] by simp

lemma inet_pton4_on_junk: "inet_pton4_on junk s = inet_pton4 s"
  using inet_pton4_on_iff [of junk s] inet_pton4_on_iff [of "[]" s]
    inet_pton4_on_in_bounds [of junk s] inet_pton4_on_in_bounds [of "[]" s]
  by (cases "inet_pton4_on junk s"; cases "inet_pton4_on [] s") (auto simp: inet_pton4_def)

lemma quad_text_length: "quad_text s bs \<Longrightarrow> length bs = 4"
  by (auto simp: quad_text_def)

end
