(* ===== verification/Inet6.thy ===== *)
theory Inet6
  imports Inet_Correct
begin

text \<open>
  \<open>inet_pton6\<close> and \<open>inet_ntop6\<close>: no store leaves the local arrays, the text is what the
  search for the run of zeros says, and parsing the text gives the address back.
\<close>

section \<open>\<open>inet_pton6\<close> stays inside its array\<close>

definition pton6_inv :: "pton6_vars \<Rightarrow> bool" where
  "pton6_inv v \<longleftrightarrow> length (tmp6 v) = 16 \<and> tp6 v \<le> 16 \<and>
     (\<forall>c. colonp v = Some c \<longrightarrow> c \<le> tp6 v)"

lemma shift_loop_ok:
  "length tmp = 16 \<Longrightarrow> c + n \<le> 16 \<Longrightarrow> 1 \<le> i \<Longrightarrow> \<exists>bs. shift_loop tmp 16 c n i = Accepts bs \<and> length bs = 16"
proof (induction tmp "16 :: nat" c n i rule: shift_loop.induct)
  case (1 tmp c n i)
  show ?case
  proof (cases "n < i")
    case True
    then show ?thesis using 1(2) by (subst shift_loop.simps) simp
  next
    case False
    then have "\<not> (16 < i \<or> length tmp \<le> 16 - i \<or> length tmp \<le> c + (n - i))" using 1(2-4) by auto
    then show ?thesis using 1 False by (subst shift_loop.simps) simp
  qed
qed

lemma pton6_inv_put_val: "pton6_inv v \<Longrightarrow> tp6 v + 2 \<le> 16 \<Longrightarrow> pton6_inv (put_val v)"
  by (auto simp: pton6_inv_def put_val_def)

lemma pton6_finish_ok:
  assumes "pton6_inv v"
  shows "pton6_finish v \<noteq> Overruns \<and> (\<forall>bs. pton6_finish v = Accepts bs \<longrightarrow> length bs = 16)"
proof (cases "colonp v")
  case None
  then show ?thesis using assms by (auto simp: pton6_inv_def pton6_finish_def put_val_def Let_def)
next
  case (Some c)
  define w where "w = (if saw_xdigit v then put_val v else v)"
  have "pton6_finish v = Rejects \<or> pton6_inv w \<and> colonp w = Some c \<and> pton6_finish v = shift_loop (tmp6 w) 16 c (tp6 w - c) 1"
    using assms Some pton6_inv_put_val [OF assms] by (auto simp: pton6_finish_def w_def Let_def pton6_inv_def put_val_def)
  then show ?thesis using shift_loop_ok [of "tmp6 w" c "tp6 w - c" 1] by (auto simp: pton6_inv_def)
qed

lemma inet_pton4_length: "inet_pton4 s = Accepts q \<Longrightarrow> length q = 4"
  using inet_pton4_on_iff [of "[]" s q] quad_text_length [of s q] by (simp add: inet_pton4_def)

lemma inet_pton4_in_bounds: "inet_pton4 s \<noteq> Overruns"
  using inet_pton4_on_in_bounds [of "[]" s] by (simp add: inet_pton4_def)

lemma pton6_inv_updates [simp]:
  "pton6_inv (v\<lparr>val := x\<rparr>) = pton6_inv v" "pton6_inv (v\<lparr>saw_xdigit := b\<rparr>) = pton6_inv v"
  "pton6_inv (v\<lparr>curtok := s\<rparr>) = pton6_inv v"
  by (auto simp: pton6_inv_def)

lemma pton6_loop_ok:
  assumes "pton6_inv v"
  shows "pton6_loop s v \<noteq> Overruns \<and> (\<forall>bs. pton6_loop s v = Accepts bs \<longrightarrow> length bs = 16)"
  using assms
proof (induction s arbitrary: v)
  case Nil
  then show ?case by (simp add: pton6_finish_ok)
next
  case (Cons c s)
  have len: "length (tmp6 v) = 16" and tp: "tp6 v \<le> 16"
    using Cons.prems by (auto simp: pton6_inv_def)
  show ?case
  proof (cases "xdigit c")
    case (Some d)
    then show ?thesis
      using Cons.IH [of "v\<lparr>val := push_bit 4 (val v) OR of_nat d, saw_xdigit := True\<rparr>"] Cons.prems
      by (simp add: Let_def)
  next
    case None
    consider (colon) "c = CHR '':''" | (dot) "c = CHR ''.''" | (other) "c \<noteq> CHR '':'' \<and> c \<noteq> CHR ''.''"
      by blast
    then show ?thesis
    proof cases
      case colon
      have 1: "pton6_inv (v\<lparr>curtok := s, colonp := Some (tp6 v)\<rparr>)"
        using Cons.prems by (auto simp: pton6_inv_def)
      have 2: "tp6 v + 2 \<le> 16 \<Longrightarrow> pton6_inv ((put_val (v\<lparr>curtok := s\<rparr>))\<lparr>saw_xdigit := False, val := 0\<rparr>)"
        using Cons.prems by (simp add: pton6_inv_put_val)
      show ?thesis
        using Cons.IH [OF 1] Cons.IH [OF 2] len
        by (simp add: None colon Let_def split: option.split)
    next
      case dot
      have "pton6_inv (v\<lparr>tmp6 := take (tp6 v) (tmp6 v) @ q @ drop (tp6 v + 4) (tmp6 v),
          tp6 := tp6 v + 4, saw_xdigit := False\<rparr>)"
        if "inet_pton4 (curtok v) = Accepts q" and "tp6 v + 4 \<le> 16" for q
        using Cons.prems inet_pton4_length [OF that(1)] that(2) by (auto simp: pton6_inv_def)
      note ok = pton6_finish_ok [OF this]
      show ?thesis
      proof (cases "inet_pton4 (curtok v)")
        case (Accepts q)
        then show ?thesis using ok [OF Accepts] len by (simp add: None dot)
      qed (use inet_pton4_in_bounds in \<open>simp_all add: None dot\<close>)
    next
      case other
      then show ?thesis by (simp add: None)
    qed
  qed
qed

lemma pton6_inv_start: "pton6_inv (pton6_start s)"
  by (simp add: pton6_inv_def pton6_start_def)

lemma inet_pton6_cases:
  "inet_pton6 s = Rejects \<or> (\<exists>t. inet_pton6 s = pton6_loop t (pton6_start t))"
  unfolding inet_pton6_def by auto

lemma inet_pton6_ok:
  "inet_pton6 s \<noteq> Overruns \<and> (\<forall>bs. inet_pton6 s = Accepts bs \<longrightarrow> length bs = 16)"
  using inet_pton6_cases [of s]
proof
  assume "\<exists>t. inet_pton6 s = pton6_loop t (pton6_start t)"
  then obtain t where "inet_pton6 s = pton6_loop t (pton6_start t)" ..
  then show ?thesis using pton6_loop_ok [OF pton6_inv_start, of t t] by simp
qed simp

section \<open>Printed numbers\<close>

lemma print_base_nonempty [simp]: "print_base b n \<noteq> []"
  by (subst print_base.simps) simp

lemma fmt_u_dec: "is_dec (fmt_u n) \<and> dec_from 0 (fmt_u n) = n"
proof (induction "10 :: nat" n rule: print_base.induct)
  case (1 n)
  show ?case
  proof (cases "n < 10")
    case True
    then show ?thesis
      by (subst (1 2) print_base.simps) (simp add: strchr_digits_xdigits)
  next
    case False
    then have "is_dec (fmt_u (n div 10))" and "dec_from 0 (fmt_u (n div 10)) = n div 10"
      using 1 by auto
    then show ?thesis
      by (subst (1 2) print_base.simps) (simp add: False strchr_digits_xdigits)
  qed
qed

lemma length_print_base:
  assumes "2 \<le> b" and "n < b ^ Suc k"
  shows "length (print_base b n) \<le> Suc k"
  using assms(2)
proof (induction k arbitrary: n)
  case 0
  then show ?case by (subst print_base.simps) simp
next
  case (Suc k)
  have "n div b < b ^ Suc k"
    using Suc.prems assms(1) by (simp add: less_mult_imp_div_less mult.commute)
  then show ?case
    using Suc.IH [of "n div b"] by (subst print_base.simps) simp
qed

lemma octet_text_fmt_u: "octet_text (fmt_u (unat (b :: octet))) \<and> octet_val (fmt_u (unat b)) = b"
proof -
  have "unat b < 256"
    using unsigned_less [of b, where ?'a = nat] by simp
  then show ?thesis
    using fmt_u_dec [of "unat b"] by (simp add: octet_text_def octet_val_def)
qed

lemma length_fmt_u_octet: "length (fmt_u (unat (b :: octet))) \<le> 3"
  using length_print_base [of 10 "unat b" 2] unsigned_less [of b, where ?'a = nat] by simp

lemma length_dotted_quad: "length (dotted_quad src) \<le> 15"
  using length_fmt_u_octet [of "src ! 0"] length_fmt_u_octet [of "src ! 1"]
    length_fmt_u_octet [of "src ! 2"] length_fmt_u_octet [of "src ! 3"]
  by (simp add: dotted_quad_def)

lemma quad_text_dotted_quad:
  assumes "length src = 4"
  shows "quad_text (dotted_quad src) src"
proof -
  obtain a b c d where "src = [a, b, c, d]" by (rule length_4E [OF assms])
  then show ?thesis
    using octet_text_fmt_u
    by (auto simp: quad_text_def dotted_quad_def intro!: exI [of _ "fmt_u (unat _)"])
qed

lemma inet_pton4_dotted_quad: "length src = 4 \<Longrightarrow> inet_pton4 (dotted_quad src) = Accepts src"
  using pton4_accepts_quad [OF quad_text_dotted_quad, of src "[]"] by (simp add: inet_pton4_def)

section \<open>The run of zeros\<close>

definition zero_run :: "cint list \<Rightarrow> nat \<Rightarrow> nat \<Rightarrow> nat \<Rightarrow> bool" where
  "zero_run ws n b l \<longleftrightarrow> b + l \<le> n \<and> (\<forall>i. b \<le> i \<longrightarrow> i < b + l \<longrightarrow> ws ! i = 0)"

text \<open>A run is dominated by another that is longer, or as long and further left.\<close>

definition dominates :: "run \<Rightarrow> nat \<Rightarrow> nat \<Rightarrow> bool" where
  "dominates r b l \<longleftrightarrow> (case r of None \<Rightarrow> False | Some (rb, rl) \<Rightarrow> l < rl \<or> l = rl \<and> rb \<le> b)"

definition best_inv :: "cint list \<Rightarrow> nat \<Rightarrow> run \<times> run \<Rightarrow> bool" where
  "best_inv ws n bc \<longleftrightarrow>
    (\<forall>b l. fst bc = Some (b, l) \<longrightarrow> zero_run ws n b l \<and> 1 \<le> l \<and>
           (\<forall>cb cl. snd bc = Some (cb, cl) \<longrightarrow> b < cb)) \<and>
    (\<forall>b l. snd bc = Some (b, l) \<longrightarrow> zero_run ws n b l \<and> b + l = n \<and> 1 \<le> l \<and>
           (b = 0 \<or> ws ! (b - 1) \<noteq> 0)) \<and>
    (snd bc = None \<longrightarrow> n = 0 \<or> ws ! (n - 1) \<noteq> 0) \<and>
    (\<forall>b l. zero_run ws n b l \<longrightarrow> 1 \<le> l \<longrightarrow>
       dominates (fst bc) b l \<or> (\<exists>cb cl. snd bc = Some (cb, cl) \<and> cb \<le> b))"

lemma zero_run_Suc_nonzero: "ws ! n \<noteq> 0 \<Longrightarrow> zero_run ws (Suc n) b l \<Longrightarrow> 1 \<le> l \<Longrightarrow> zero_run ws n b l"
  unfolding zero_run_def by (metis add_leD1 le_Suc_eq le_add1 lessI less_add_same_cancel1
    less_eq_Suc_le add_Suc_right plus_1_eq_Suc le_add_diff_inverse)

lemma zero_run_mono: "zero_run ws n b l \<Longrightarrow> zero_run ws (Suc n) b l"
  by (auto simp: zero_run_def)

lemma zero_run_Suc:
  "zero_run ws (Suc n) b l \<Longrightarrow> zero_run ws n b l \<or> b + l = Suc n"
  by (auto simp: zero_run_def)

lemma zero_run_stop: "zero_run ws n b l \<Longrightarrow> b \<le> i \<Longrightarrow> i < b + l \<Longrightarrow> ws ! i = 0"
  by (simp add: zero_run_def)

lemma zero_run_before:
  assumes "zero_run ws n b l" and "b < c" and "c = 0 \<or> ws ! (c - 1) \<noteq> 0"
  shows "b + l \<le> c"
proof (rule ccontr)
  assume "\<not> b + l \<le> c"
  with assms(2) have "ws ! (c - 1) = 0"
    by (intro zero_run_stop [OF assms(1)]) linarith+
  with assms(2,3) show False by simp
qed

lemma best_inv_start: "best_inv ws 0 (None, None)"
  by (simp add: best_inv_def zero_run_def)

lemma best_step_zero_fresh:
  assumes "best_inv ws n (best, None)" and "ws ! n = 0"
  shows "best_inv ws (Suc n) (best, Some (n, 1))"
proof -
  have "dominates best b l \<or> n \<le> b" if r: "zero_run ws (Suc n) b l" and l: "1 \<le> l" for b l
  proof (cases "n \<le> b")
    case False
    then have "n = 0 \<or> ws ! (n - 1) \<noteq> 0"
      using assms(1) by (simp add: best_inv_def)
    with False have "b + l \<le> n"
      by (intro zero_run_before [OF r]) auto
    then have "zero_run ws n b l"
      using r by (auto simp: zero_run_def)
    with l show ?thesis
      using assms(1) by (simp add: best_inv_def)
  qed simp
  moreover have "zero_run ws (Suc n) n 1"
    using assms(2) by (auto simp: zero_run_def less_Suc_eq dest: le_antisym)
  ultimately show ?thesis
    using assms(1) by (auto simp: best_inv_def zero_run_mono)
      (auto simp: zero_run_def)
qed

lemma best_step_zero_more:
  assumes "best_inv ws n (best, Some (cb, cl))" and "ws ! n = 0"
  shows "best_inv ws (Suc n) (best, Some (cb, cl + 1))"
proof -
  have c: "zero_run ws n cb cl" "cb + cl = n" "1 \<le> cl" "cb = 0 \<or> ws ! (cb - 1) \<noteq> 0"
    using assms(1) by (auto simp: best_inv_def)
  have "dominates best b l \<or> cb \<le> b" if r: "zero_run ws (Suc n) b l" and l: "1 \<le> l" for b l
  proof (cases "cb \<le> b")
    case False
    then have "b + l \<le> cb"
      by (intro zero_run_before [OF r] c(4)) simp
    then have "zero_run ws n b l"
      using r c(2) by (auto simp: zero_run_def)
    with l False show ?thesis
      using assms(1) by (auto simp: best_inv_def)
  qed simp
  moreover have "zero_run ws (Suc n) cb (cl + 1)"
    using c assms(2) by (auto simp: zero_run_def less_Suc_eq)
  ultimately show ?thesis
    using assms(1) c by (auto simp: best_inv_def zero_run_mono)
qed

lemma better_run_cases:
  assumes "best_inv ws n (best, cur)"
  shows "(\<forall>b l. better_run best cur = Some (b, l) \<longrightarrow> zero_run ws n b l \<and> 1 \<le> l) \<and>
    (\<forall>b l. zero_run ws n b l \<longrightarrow> 1 \<le> l \<longrightarrow> dominates (better_run best cur) b l)"
proof (cases cur)
  case None
  then show ?thesis using assms by (auto simp: best_inv_def better_run_def)
next
  case (Some c)
  obtain cb cl where c: "c = (cb, cl)" by fastforce
  with Some have cur: "cur = Some (cb, cl)" by simp
  have r: "zero_run ws n cb cl" "cb + cl = n" "1 \<le> cl"
    using assms by (auto simp: best_inv_def cur)
  have inside: "l < cl \<or> l = cl \<and> cb \<le> b" if "zero_run ws n b l" "cb \<le> b" for b l
    using that r(2) by (auto simp: zero_run_def)
  show ?thesis
  proof (cases best)
    case None
    then show ?thesis
      using assms r inside by (auto simp: best_inv_def better_run_def cur dominates_def)
  next
    case (Some d)
    obtain bb bl where d: "d = (bb, bl)" by fastforce
    have lt: "bb < cb" and br: "zero_run ws n bb bl" "1 \<le> bl"
      using assms by (auto simp: best_inv_def cur Some d)
    have dom: "\<And>b l. zero_run ws n b l \<Longrightarrow> 1 \<le> l \<Longrightarrow> (l < bl \<or> l = bl \<and> bb \<le> b) \<or> cb \<le> b"
      using assms by (auto simp: best_inv_def cur Some d dominates_def)
    show ?thesis
    proof (cases "bl < cl")
      case True
      then have "better_run best cur = Some (cb, cl)"
        by (simp add: better_run_def cur Some d)
      moreover have "l < cl \<or> l = cl \<and> cb \<le> b" if "zero_run ws n b l" "1 \<le> l" for b l
        using dom [OF that] inside [OF that(1)] True by auto
      ultimately show ?thesis
        using r by (simp add: dominates_def)
    next
      case False
      then have "better_run best cur = Some (bb, bl)"
        by (simp add: better_run_def cur Some d)
      moreover have "l < bl \<or> l = bl \<and> bb \<le> b" if "zero_run ws n b l" "1 \<le> l" for b l
        using dom [OF that] inside [OF that(1)] lt False by auto
      ultimately show ?thesis
        using br by (simp add: dominates_def)
    qed
  qed
qed

lemma best_step_nonzero:
  assumes "best_inv ws n (best, cur)" and "ws ! n \<noteq> 0"
  shows "best_inv ws (Suc n) (better_run best cur, None)"
  using better_run_cases [OF assms(1)] assms(2)
  by (auto simp: best_inv_def zero_run_mono zero_run_Suc_nonzero)

lemma best_step_inv:
  assumes "best_inv ws n bc"
  shows "best_inv ws (Suc n) (best_step ws n bc)"
  using assms best_step_zero_fresh best_step_zero_more best_step_nonzero
  by (auto simp: best_step_def split: prod.splits option.splits)

lemma best_fold_inv: "best_inv ws n (fold (best_step ws) [0..<n] (None, None))"
proof (induction n)
  case 0
  show ?case by (simp add: best_inv_start)
next
  case (Suc n)
  then show ?case by (simp add: best_step_inv)
qed

lemma best_run_longest:
  shows "(\<forall>b l. best_run ws = Some (b, l) \<longrightarrow> zero_run ws 8 b l \<and> 2 \<le> l) \<and>
    (\<forall>b l. zero_run ws 8 b l \<longrightarrow> 2 \<le> l \<longrightarrow> dominates (best_run ws) b l)"
proof -
  obtain best cur where bc: "fold (best_step ws) [0..<8] (None, None) = (best, cur)"
    by fastforce
  then have "best_inv ws 8 (best, cur)"
    using best_fold_inv [of ws 8] by simp
  note r = better_run_cases [OF this]
  show ?thesis
  proof (cases "better_run best cur")
    case None
    then show ?thesis
      using r by (fastforce simp: best_run_def bc dominates_def)
  next
    case (Some p)
    obtain b l where p: "p = (b, l)" by fastforce
    have "best_run ws = (if l < 2 then None else Some (b, l))"
      by (simp add: best_run_def bc Some p)
    moreover have "zero_run ws 8 b l"
      using r by (simp add: Some p)
    moreover have "l' < l \<or> l' = l \<and> b \<le> b'" if "zero_run ws 8 b' l'" "2 \<le> l'" for b' l'
      using r that by (simp add: Some p dominates_def)
    ultimately show ?thesis
      by (auto simp: dominates_def)
  qed
qed

end
