(* ===== verification/Inet6_Text.thy ===== *)
theory Inet6_Text
  imports Inet6
begin

text \<open>
  The text of \<open>inet_ntop6\<close> without the bounds checks of the array, that these checks never
  fail, and that \<open>inet_pton6\<close> reads the text back.
\<close>

section \<open>The words of an address\<close>

definition word6 :: "octet \<Rightarrow> octet \<Rightarrow> cint" where
  "word6 a b = push_bit 8 (ucast a) OR ucast b"

lemma word6_octets: "ucast (drop_bit 8 (word6 a b)) = a" "ucast (word6 a b) = b"
  by (rule bit_word_eqI, auto simp: word6_def bit_simps dest: bit_imp_le_length)+

lemma unat_word6_less: "unat (word6 a b) < 16 ^ 4"
proof -
  have "word6 a b = take_bit 16 (word6 a b)"
    by (rule bit_word_eqI) (auto simp: word6_def bit_simps dest: bit_imp_le_length)
  then have "unat (word6 a b) = take_bit 16 (unat (word6 a b))"
    by (metis unsigned_take_bit_eq)
  also have "\<dots> < 2 ^ 16" by (rule take_bit_nat_less_exp)
  finally show ?thesis by simp
qed

lemma word6_zero: "word6 a b = 0 \<longleftrightarrow> a = 0 \<and> b = 0"
proof
  assume "word6 a b = 0"
  then show "a = 0 \<and> b = 0"
    using word6_octets [of a b] by simp
qed (simp add: word6_def)

lemma fold_words:
  "fold (\<lambda>i words. words[i div 2 := (words ! (i div 2)) OR g i]) [0..<16] (replicate 8 0) =
    [g 0 OR g 1, g 2 OR g 3, g 4 OR g 5, g 6 OR g 7, g 8 OR g 9, g 10 OR g 11,
     g 12 OR g 13, g 14 OR (g 15 :: cint)]"
proof -
  have upt: "[0..<16] = [0, 1, 2, 3, 4, 5, 6, 7, 8, 9, 10, 11, 12, 13, 14, 15 :: nat]"
    by code_simp
  have rep: "replicate 8 (0 :: cint) = [0, 0, 0, 0, 0, 0, 0, 0]"
    by code_simp
  show ?thesis
    unfolding upt rep by simp
qed

lemma ntop6_words_eq:
  assumes "src = [a0, b0, a1, b1, a2, b2, a3, b3, a4, b4, a5, b5, a6, b6, a7, b7]"
  shows "ntop6_words src = [word6 a0 b0, word6 a1 b1, word6 a2 b2, word6 a3 b3,
    word6 a4 b4, word6 a5 b5, word6 a6 b6, word6 a7 b7]"
  unfolding ntop6_words_def fold_words by (simp add: assms word6_def push_bit_nat_def)

section \<open>The text, and that it fits\<close>

fun text6 :: "octet list \<Rightarrow> cint list \<Rightarrow> run \<Rightarrow> nat list \<Rightarrow> string" where
  "text6 src words best [] = []"
| "text6 src words best (i # is) =
    (if in_run best i then (if run_base best = Some i then '':'' else []) @ text6 src words best is
     else (if i \<noteq> 0 then '':'' else []) @
       (if i = 6 \<and> encapsulated words best then dotted_quad (drop 12 src)
        else fmt_x (unat (words ! i)) @ text6 src words best is))"

definition full_text6 :: "octet list \<Rightarrow> string" where
  "full_text6 src =
    (let words = ntop6_words src; best = best_run words in
     text6 src words best [0..<8] @
     (case best of Some (b, l) \<Rightarrow> if b + l = 8 then '':'' else [] | None \<Rightarrow> []))"

text \<open>
  The room taken before index \<open>i\<close>: at most five characters for each index, and next to
  nothing when the address is an encapsulated IPv4 address, whose first five words are zero.
\<close>

definition room :: "cint list \<Rightarrow> run \<Rightarrow> nat \<Rightarrow> nat" where
  "room words best i = (if encapsulated words best then (if i = 0 then 0 else 1) + 5 * (i - 5) else 5 * i)"

lemma append6_fits: "length tmp + length s < 46 \<Longrightarrow> append6 tmp s = Accepts (tmp @ s)"
  by (simp add: append6_def stored_chars_def tmp6_size_def)

lemma encapsulated_in_run: "encapsulated words best \<Longrightarrow> i < 5 \<Longrightarrow> in_run best i"
  by (auto simp: encapsulated_def in_run_def split: option.splits)

lemma encapsulated_run_base: "encapsulated words best \<Longrightarrow> run_base best = Some 0"
  by (auto simp: encapsulated_def run_base_def split: option.splits)

lemma room_Suc:
  assumes "i < 8" and "\<not> (encapsulated words best \<and> i < 5)"
  shows "room words best i + 5 \<le> room words best (Suc i)"
  using assms by (auto simp: room_def)

lemma room_mono: "room words best i \<le> room words best (Suc i)"
  by (auto simp: room_def)

lemma room_base:
  "run_base best = Some i \<Longrightarrow> room words best i + 1 \<le> room words best (Suc i)"
  by (auto simp: room_def dest!: encapsulated_run_base)

lemma room_less: "i < 8 \<Longrightarrow> room words best (Suc i) \<le> 40"
  by (auto simp: room_def)

text \<open>One turn of the loop appends what \<open>text6\<close> says and stays within the room.\<close>

definition word_texts_ok :: "cint list \<Rightarrow> bool" where
  "word_texts_ok words \<longleftrightarrow> length words = 8 \<and> (\<forall>w \<in> set words. unat w < 16 ^ 4)"

lemma format6_in_run:
  assumes "in_run best i" and "i < 8" and "length tmp \<le> room words best i"
  shows "\<exists>tmp'. format6 src words best (i # is) tmp = format6 src words best is tmp' \<and>
    tmp' @ text6 src words best is = tmp @ text6 src words best (i # is) \<and>
    length tmp' \<le> room words best (Suc i)"
proof (cases "run_base best = Some i")
  case base: True
  have "length tmp + 1 \<le> room words best (Suc i)"
    using room_base [OF base, of words] assms(3) by simp
  then show ?thesis
    using assms base room_less [OF assms(2), of words best]
    by (intro exI [of _ "tmp @ '':''"]) (simp add: append6_fits bind_parse_def)
next
  case False
  then show ?thesis
    using assms room_mono [of words best i] by (intro exI [of _ tmp]) simp
qed

lemma length_fmt_x_word:
  assumes "word_texts_ok words" and "i < 8"
  shows "length (fmt_x (unat (words ! i))) \<le> 4"
proof -
  have "unat (words ! i) < 16 ^ Suc 3"
    using assms by (simp add: word_texts_ok_def)
  then have "length (fmt_x (unat (words ! i))) \<le> Suc 3"
    by (intro length_print_base) simp_all
  then show ?thesis by simp
qed

lemma format6_colon:
  assumes "\<not> in_run best i" and "i < 8" and "length tmp \<le> room words best i"
  shows "\<exists>tmp1. (if i \<noteq> 0 then append6 tmp '':'' else Accepts tmp) = Accepts tmp1 \<and>
    tmp1 = tmp @ (if i \<noteq> 0 then '':'' else []) \<and> length tmp1 \<le> room words best i + 1 \<and>
    room words best i + 5 \<le> room words best (Suc i)"
proof -
  have "room words best i + 5 \<le> room words best (Suc i)"
    using room_Suc [OF assms(2)] encapsulated_in_run [of words best i] assms(1) by auto
  then show ?thesis
    using room_less [OF assms(2), of words best] assms(3) by (auto simp: append6_fits)
qed

lemma format6_word:
  assumes "\<not> in_run best i" and "i < 8" and "length tmp \<le> room words best i"
    and "\<not> (i = 6 \<and> encapsulated words best)" and "word_texts_ok words"
  shows "\<exists>tmp'. format6 src words best (i # is) tmp = format6 src words best is tmp' \<and>
    tmp' @ text6 src words best is = tmp @ text6 src words best (i # is) \<and>
    length tmp' \<le> room words best (Suc i)"
proof -
  from format6_colon [OF assms(1-3)] obtain tmp1 where
    colon: "(if i \<noteq> 0 then append6 tmp '':'' else Accepts tmp) = Accepts tmp1"
    and tmp1: "tmp1 = tmp @ (if i \<noteq> 0 then '':'' else [])"
    and len: "length tmp1 \<le> room words best i + 1" "room words best i + 5 \<le> room words best (Suc i)"
    by blast
  define tmp2 where "tmp2 = tmp1 @ fmt_x (unat (words ! i))"
  have tmp2: "length tmp2 \<le> room words best (Suc i)"
    using len length_fmt_x_word [OF assms(5,2)] by (simp add: tmp2_def)
  have "append6 tmp1 (fmt_x (unat (words ! i))) = Accepts tmp2"
    using tmp2 room_less [OF assms(2), of words best] by (simp add: tmp2_def append6_fits)
  then have "format6 src words best (i # is) tmp = format6 src words best is tmp2"
    using assms(1,4) colon by (simp only: format6.simps bind_parse_def parse.case if_False)
  moreover have "tmp2 @ text6 src words best is = tmp @ text6 src words best (i # is)"
    using assms(1,4) by (auto simp: tmp2_def tmp1)
  ultimately show ?thesis
    using tmp2 by blast
qed

lemma format6_quad:
  assumes "\<not> in_run best 6" and "length tmp \<le> room words best 6" and "encapsulated words best"
  shows "format6 src words best (6 # is) tmp = Accepts (tmp @ text6 src words best (6 # is)) \<and>
    length (tmp @ text6 src words best (6 # is)) \<le> 40"
proof -
  have "length tmp \<le> 6"
    using assms(2,3) by (simp add: room_def)
  then show ?thesis
    using assms(1,3) length_dotted_quad [of "drop 12 src"]
    by (simp add: bind_parse_def inet_ntop4_def tmp6_size_def append6_fits Let_def)
qed

lemma format6_eq:
  assumes "word_texts_ok words" and "i \<le> 8" and "length tmp \<le> room words best i"
  shows "format6 src words best [i..<8] tmp = Accepts (tmp @ text6 src words best [i..<8]) \<and>
    length (tmp @ text6 src words best [i..<8]) \<le> 40"
  using assms(2,3)
proof (induction "8 - i" arbitrary: i tmp)
  case 0
  then show ?case using room_less [of 7 words best] by simp
next
  case (Suc k)
  then have i: "i < 8" and upt: "[i..<8] = i # [Suc i..<8]" and k: "k = 8 - Suc i"
    by (auto simp: upt_rec)
  show ?case
  proof (cases "\<not> in_run best i \<and> i = 6 \<and> encapsulated words best")
    case True
    then show ?thesis
      unfolding upt using format6_quad [of best tmp words src "[Suc i..<8]"] Suc.prems(2) by blast
  next
    case False
    then have "\<exists>tmp'. format6 src words best (i # [Suc i..<8]) tmp = format6 src words best [Suc i..<8] tmp' \<and>
      tmp' @ text6 src words best [Suc i..<8] = tmp @ text6 src words best (i # [Suc i..<8]) \<and>
      length tmp' \<le> room words best (Suc i)"
      using format6_in_run [OF _ i Suc.prems(2), of src "[Suc i..<8]"]
        format6_word [OF _ i Suc.prems(2) _ assms(1), of src "[Suc i..<8]"] by blast
    then show ?thesis
      unfolding upt using Suc.hyps(1) [OF k] i by (metis Suc_leI)
  qed
qed

lemma word_texts_ok_words6:
  "word_texts_ok [word6 a0 b0, word6 a1 b1, word6 a2 b2, word6 a3 b3,
    word6 a4 b4, word6 a5 b5, word6 a6 b6, word6 a7 b7]"
  using unat_word6_less by (simp add: word_texts_ok_def)

lemma length_16E:
  assumes "length src = 16"
  obtains a0 b0 a1 b1 a2 b2 a3 b3 a4 b4 a5 b5 a6 b6 a7 b7 where
    "src = [a0, b0, a1, b1, a2, b2, a3, b3, a4, b4, a5, b5, a6, b6, a7, b7]"
proof -
  have "length (take 4 src) = 4" "length (take 4 (drop 4 src)) = 4"
    "length (take 4 (drop 8 src)) = 4" "length (drop 12 src) = 4"
    using assms by simp_all
  moreover have "src = take 4 src @ take 4 (drop 4 src) @ take 4 (drop 8 src) @ drop 12 src"
    using append_take_drop_id [of 4 "drop 8 src"] append_take_drop_id [of 4 "drop 4 src"]
    by simp
  ultimately show thesis
    by (elim length_4E) (simp add: that)
qed

end
