(* ===== verification/Inet6_Round.thy ===== *)
theory Inet6_Round
  imports Inet6_Text
begin

text \<open>\<open>inet_pton6\<close> reads back what \<open>inet_ntop6\<close> prints.\<close>

section \<open>Groups of the text\<close>

lemma push_bit_or_digit:
  assumes "n < 4096" and "d < 16"
  shows "push_bit 4 (of_nat n :: cint) OR of_nat d = of_nat (n * 16 + d)"
proof -
  have "push_bit 4 (of_nat n :: cint) OR of_nat d = push_bit 4 (of_nat n) + of_nat d"
  proof (rule disjunctive_add [symmetric])
    fix k
    have "d = take_bit 4 d"
      using assms(2) by (simp add: take_bit_nat_eq_self)
    then have "\<not> bit d k" if "4 \<le> k"
      using that by (metis bit_take_bit_iff not_less)
    then show "\<not> bit (push_bit 4 (of_nat n :: cint)) k \<or> \<not> bit (of_nat d :: cint) k"
      by (cases "4 \<le> k") (auto simp: bit_simps)
  qed
  then show ?thesis
    by (simp add: push_bit_eq_mult)
qed

lemma of_nat_le_ffff: "n < 65536 \<Longrightarrow> \<not> 0xffff < (of_nat n :: cint)"
  by (simp add: word_less_nat_alt unat_of_nat)

lemma pton6_fmt_x:
  assumes "n < 16 ^ 4" and "val v = 0"
  shows "pton6_loop (fmt_x n @ src) v = pton6_loop src (v\<lparr>val := of_nat n, saw_xdigit := True\<rparr>)"
  using assms
proof (induction "16 :: nat" n arbitrary: src rule: print_base.induct)
  case (1 n)
  show ?case
  proof (cases "n < 16")
    case True
    then show ?thesis
      using 1 of_nat_le_ffff [of n]
      by (subst print_base.simps) (simp add: xdigit_xdigits)
  next
    case False
    have div: "n div 16 < 4096"
      using 1(2) by (simp add: less_mult_imp_div_less)
    have "pton6_loop (fmt_x n @ src) v =
      pton6_loop (fmt_x (n div 16) @ (xdigits_l ! (n mod 16)) # src) v"
      by (subst print_base.simps) (simp add: False)
    also have "\<dots> = pton6_loop (xdigits_l ! (n mod 16) # src)
        (v\<lparr>val := of_nat (n div 16), saw_xdigit := True\<rparr>)"
      using False div 1 by simp
    also have "\<dots> = pton6_loop src (v\<lparr>val := of_nat n, saw_xdigit := True\<rparr>)"
      using of_nat_le_ffff [of n] 1(2)
      by (simp add: xdigit_xdigits push_bit_or_digit [OF div] div_mult_mod_eq del: of_nat_add of_nat_mult)
    finally show ?thesis .
  qed
qed

lemma pton6_group:
  "pton6_loop (fmt_x (unat (word6 a b)) @ src)
     \<lparr>tmp6 = t, tp6 = p, colonp = c, curtok = k, saw_xdigit = x, val = 0\<rparr> =
   pton6_loop src
     \<lparr>tmp6 = t, tp6 = p, colonp = c, curtok = k, saw_xdigit = True, val = word6 a b\<rparr>"
  using pton6_fmt_x [OF unat_word6_less [of a b], of _ src] by simp

lemmas pton6_last_group = pton6_group [where src = "[]", simplified append_Nil2]

lemma inet_pton6_group:
  "inet_pton6 (fmt_x n @ src) = pton6_loop (fmt_x n @ src) (pton6_start (fmt_x n @ src))"
proof -
  have "hd (fmt_x n) \<noteq> CHR '':''"
  proof (induction "16 :: nat" n rule: print_base.induct)
    case (1 n)
    show ?case
    proof (cases "n < 16")
      case True
      then have "xdigit (xdigits_l ! n) \<noteq> None" by (simp add: xdigit_xdigits)
      then show ?thesis using True by (subst print_base.simps) auto
    next
      case False
      then show ?thesis using 1 by (subst print_base.simps) simp
    qed
  qed
  then have "take 1 (fmt_x n @ src) \<noteq> '':''"
    by (cases "fmt_x n") auto
  then show ?thesis
    by (simp add: inet_pton6_def)
qed

text \<open>A decimal octet is consumed as hexadecimal digits before the dot is met.\<close>

lemma dec_xdigit:
  assumes "strchr digits c = Some d"
  shows "xdigit c = Some d"
proof -
  have d: "d < 10"
    by (rule strchr_digits_less [OF assms])
  then have "c = xdigits_l ! d"
    using strchr_Some [OF assms] strchr_Some [OF strchr_digits_xdigits [OF d]] by simp
  then show ?thesis
    using d xdigit_xdigits [of d] by simp
qed

lemma pton6_dec:
  assumes "is_dec t" and "unat (val v) < 16 ^ k" and "k + length t \<le> 4" and "saw_xdigit v"
  shows "\<exists>x. pton6_loop (t @ src) v = pton6_loop src (v\<lparr>val := x\<rparr>)"
  using assms
proof (induction t arbitrary: v k)
  case Nil
  have "v = v\<lparr>val := val v\<rparr>" by simp
  then show ?case unfolding append_Nil by metis
next
  case (Cons c t)
  then obtain d where d: "strchr digits c = Some d" by auto
  then have x: "xdigit c = Some d" and d16: "d < 16"
    using dec_xdigit strchr_digits_less [OF d] by auto
  define n where "n = unat (val v) * 16 + d"
  have "16 ^ k \<le> (16 :: nat) ^ 3"
    using Cons.prems(3) by (intro power_increasing) auto
  then have v: "unat (val v) < 4096"
    using Cons.prems(2) by simp
  have n: "n < 16 ^ Suc k"
    using Cons.prems(2) d16 by (simp add: n_def)
  have le: "n < 65536"
    using v d16 by (simp add: n_def)
  have new: "push_bit 4 (val v) OR of_nat d = of_nat n"
    using push_bit_or_digit [OF v d16] by (simp add: n_def)
  have "pton6_loop ((c # t) @ src) v = pton6_loop (t @ src) (v\<lparr>val := of_nat n, saw_xdigit := True\<rparr>)"
    using of_nat_le_ffff [OF le] by (simp add: x new)
  moreover have "v\<lparr>val := of_nat n, saw_xdigit := True\<rparr> = v\<lparr>val := of_nat n\<rparr>"
    using Cons.prems(4) by simp
  moreover have "unat (of_nat n :: cint) = n"
    using le by (simp add: unat_of_nat)
  ultimately show ?case
    using Cons.IH [of "v\<lparr>val := of_nat n\<rparr>" "Suc k"] Cons.prems n by simp
qed

lemma pton6_octet:
  fixes a :: octet
  shows "\<exists>x. pton6_loop (fmt_u (unat a) @ src)
     \<lparr>tmp6 = t, tp6 = p, colonp = c, curtok = k, saw_xdigit = False, val = 0\<rparr> =
   pton6_loop src \<lparr>tmp6 = t, tp6 = p, colonp = c, curtok = k, saw_xdigit = True, val = x\<rparr>"
proof -
  obtain ch ds where f: "fmt_u (unat a) = ch # ds"
    using print_base_nonempty [of 10 "unat a"] by (cases "fmt_u (unat a)") blast+
  have dec: "is_dec (ch # ds)"
    using fmt_u_dec [of "unat a"] f by simp
  then obtain d where d: "strchr digits ch = Some d" by auto
  have len: "length ds \<le> 2"
    using length_fmt_u_octet [of a] f by simp
  have d10: "d < 10" by (rule strchr_digits_less [OF d])
  let ?v = "\<lparr>tmp6 = t, tp6 = p, colonp = c, curtok = k, saw_xdigit = True, val = of_nat d :: cint\<rparr>"
  have "unat (of_nat d :: cint) < 16 ^ 1"
    using d10 by (simp add: unat_of_nat)
  then have "\<exists>x. pton6_loop (ds @ src) ?v = pton6_loop src (?v\<lparr>val := x\<rparr>)"
    using pton6_dec [of ds ?v 1 src] dec len by simp
  moreover have "pton6_loop (fmt_u (unat a) @ src)
     \<lparr>tmp6 = t, tp6 = p, colonp = c, curtok = k, saw_xdigit = False, val = 0\<rparr> =
     pton6_loop (ds @ src) ?v"
    using of_nat_le_ffff [of d] d10 by (simp add: f dec_xdigit [OF d])
  ultimately show ?thesis by simp
qed

lemma pton6_quad:
  assumes "length q = 4" and "p + 4 \<le> 16" and "length t = 16"
  shows "pton6_loop (dotted_quad q)
     \<lparr>tmp6 = t, tp6 = p, colonp = c, curtok = dotted_quad q, saw_xdigit = False, val = 0\<rparr> =
   pton6_finish \<lparr>tmp6 = take p t @ q @ drop (p + 4) t, tp6 = p + 4, colonp = c,
     curtok = dotted_quad q, saw_xdigit = False, val = 0\<rparr>"
proof -
  define rest where "rest = ''.'' @ fmt_u (unat (q ! 1)) @ ''.'' @
    fmt_u (unat (q ! 2)) @ ''.'' @ fmt_u (unat (q ! 3))"
  have q: "dotted_quad q = fmt_u (unat (q ! 0)) @ rest"
    by (simp add: dotted_quad_def rest_def)
  obtain x where "pton6_loop (dotted_quad q)
     \<lparr>tmp6 = t, tp6 = p, colonp = c, curtok = dotted_quad q, saw_xdigit = False, val = 0\<rparr> =
   pton6_loop rest \<lparr>tmp6 = t, tp6 = p, colonp = c, curtok = dotted_quad q, saw_xdigit = True, val = x\<rparr>"
    using pton6_octet unfolding q by blast
  then show ?thesis
    using assms inet_pton4_dotted_quad [OF assms(1)]
    by (cases c) (simp_all add: rest_def pton6_finish_def Let_def)
qed

section \<open>The round trip\<close>

text \<open>The runs that the search may find, by symbolic execution of both functions.\<close>

lemma pton6_colon:
  "pton6_loop (CHR '':'' # src)
     \<lparr>tmp6 = t, tp6 = p, colonp = c, curtok = k, saw_xdigit = False, val = x\<rparr> =
   (case c of Some _ \<Rightarrow> Rejects | None \<Rightarrow>
     pton6_loop src \<lparr>tmp6 = t, tp6 = p, colonp = Some p, curtok = src, saw_xdigit = False, val = x\<rparr>)"
  by (cases c) (simp_all add: Let_def)

lemma pton6_group_colon:
  "p + 2 \<le> 16 \<Longrightarrow> length t = 16 \<Longrightarrow>
   pton6_loop (CHR '':'' # src)
     \<lparr>tmp6 = t, tp6 = p, colonp = c, curtok = k, saw_xdigit = True, val = word6 a b\<rparr> =
   pton6_loop src
     \<lparr>tmp6 = t[p := a, p + 1 := b], tp6 = p + 2, colonp = c, curtok = src, saw_xdigit = False, val = 0\<rparr>"
  by (simp add: Let_def put_val_def word6_octets)

lemma pton6_finish_group:
  "p + 2 \<le> 16 \<Longrightarrow> length t = 16 \<Longrightarrow>
   pton6_finish \<lparr>tmp6 = t, tp6 = p, colonp = c, curtok = k, saw_xdigit = True, val = word6 a b\<rparr> =
   pton6_finish \<lparr>tmp6 = t[p := a, p + 1 := b], tp6 = p + 2, colonp = c, curtok = k,
     saw_xdigit = False, val = 0\<rparr>"
  by (cases c) (simp_all add: pton6_finish_def put_val_def word6_octets Let_def)

lemma pton6_finish_end:
  "pton6_finish \<lparr>tmp6 = t, tp6 = p, colonp = c, curtok = k, saw_xdigit = False, val = x\<rparr> =
   (case c of Some c \<Rightarrow> shift_loop t 16 c (p - c) 1
    | None \<Rightarrow> if p \<noteq> 16 then Rejects else Accepts t)"
  by (cases c) (simp_all add: pton6_finish_def Let_def)

lemmas pton6_exec = inet_pton6_group pton6_group pton6_last_group pton6_colon pton6_group_colon
  pton6_finish_group pton6_finish_end

lemma upt8: "[0..<8] = [0, 1, 2, 3, 4, 5, 6, 7 :: nat]"
  by code_simp

lemma replicate16: "replicate 16 (0 :: octet) = [0, 0, 0, 0, 0, 0, 0, 0, 0, 0, 0, 0, 0, 0, 0, 0]"
  by code_simp

lemmas text6_exec = text6.simps in_run_def run_base_def upt8 pton6_start_def replicate16

lemma round6_no_run:
  assumes "ws = [word6 a0 b0, word6 a1 b1, word6 a2 b2, word6 a3 b3, word6 a4 b4, word6 a5 b5,
    word6 a6 b6, word6 a7 b7]"
  shows "inet_pton6 (text6 src ws None [0..<8]) =
    Accepts [a0, b0, a1, b1, a2, b2, a3, b3, a4, b4, a5, b5, a6, b6, a7, b7]"
  by (simp add: assms text6_exec pton6_exec encapsulated_def del: pton6_loop.simps(2))

text \<open>
  The text for a run \<open>(b, l)\<close>, followed by the colon that closes a run at the end. The
  first group and the dotted quad need the rules above; the rest is computation.
\<close>

definition run_text :: "octet list \<Rightarrow> cint list \<Rightarrow> nat \<Rightarrow> nat \<Rightarrow> string" where
  "run_text src ws b l = text6 src ws (Some (b, l)) [0..<8] @ (if b + l = 8 then '':'' else [])"

lemma inet_pton6_leading:
  "inet_pton6 (CHR '':'' # CHR '':'' # src) = pton6_loop (CHR '':'' # src) (pton6_start (CHR '':'' # src))"
  by (simp add: inet_pton6_def)

lemmas run_exec = run_text_def text6_exec pton6_exec inet_pton6_leading word6_zero shift_loop.simps

lemma run_cases:
  assumes "zero_run ws 8 b l" and "2 \<le> l"
  shows "(b, l) \<in> set [(0, 2), (0, 3), (0, 4), (0, 5), (0, 6), (0, 7), (0, 8), (1, 2), (1, 3),
    (1, 4), (1, 5), (1, 6), (1, 7), (2, 2), (2, 3), (2, 4), (2, 5), (2, 6), (3, 2), (3, 3),
    (3, 4), (3, 5), (4, 2), (4, 3), (4, 4), (5, 2), (5, 3), (6, 2)]"
proof -
  have "(b, l) \<in> set (concat (map (\<lambda>b. map (Pair b) [2..<9 - b]) [0..<7]))"
    using assms by (auto simp: zero_run_def image_iff intro!: bexI [of _ b])
  also have "concat (map (\<lambda>b. map (Pair b) [2..<9 - b]) [0..<7]) =
    [(0, 2), (0, 3), (0, 4), (0, 5), (0, 6), (0, 7), (0, 8), (1, 2), (1, 3),
    (1, 4), (1, 5), (1, 6), (1, 7), (2, 2), (2, 3), (2, 4), (2, 5), (2, 6), (3, 2), (3, 3),
    (3, 4), (3, 5), (4, 2), (4, 3), (4, 4), (5, 2), (5, 3), (6, 2 :: nat)]"
    by code_simp
  finally show ?thesis .
qed

lemma zero_run_nth: "zero_run ws 8 b l \<Longrightarrow> b \<le> i \<and> i < b + l \<longrightarrow> ws ! i = 0"
  by (simp add: zero_run_def)

lemma round6_run:
  assumes ws: "ws = [word6 a0 b0, word6 a1 b1, word6 a2 b2, word6 a3 b3, word6 a4 b4, word6 a5 b5,
      word6 a6 b6, word6 a7 b7]"
    and src: "src = [a0, b0, a1, b1, a2, b2, a3, b3, a4, b4, a5, b5, a6, b6, a7, b7]"
    and run: "zero_run ws 8 b l" "2 \<le> l" and enc: "\<not> encapsulated ws (Some (b, l))"
  shows "inet_pton6 (run_text src ws b l) = Accepts src"
proof -
  note z = zero_run_nth [OF run(1), of 0] zero_run_nth [OF run(1), of 1]
    zero_run_nth [OF run(1), of 2] zero_run_nth [OF run(1), of 3]
    zero_run_nth [OF run(1), of 4] zero_run_nth [OF run(1), of 5]
    zero_run_nth [OF run(1), of 6] zero_run_nth [OF run(1), of 7]
  from run_cases [OF run] show ?thesis
    using z enc unfolding ws src list.set
    by (elim insertE emptyE)
      (simp_all add: run_exec encapsulated_def del: pton6_loop.simps(2))
qed

lemma round6_encapsulated:
  assumes ws: "ws = [word6 a0 b0, word6 a1 b1, word6 a2 b2, word6 a3 b3, word6 a4 b4, word6 a5 b5,
      word6 a6 b6, word6 a7 b7]"
    and src: "src = [a0, b0, a1, b1, a2, b2, a3, b3, a4, b4, a5, b5, a6, b6, a7, b7]"
    and run: "zero_run ws 8 b l" and enc: "encapsulated ws (Some (b, l))"
  shows "inet_pton6 (run_text src ws b l) = Accepts src"
proof -
  note z = zero_run_nth [OF run, of 0] zero_run_nth [OF run, of 1] zero_run_nth [OF run, of 2]
    zero_run_nth [OF run, of 3] zero_run_nth [OF run, of 4] zero_run_nth [OF run, of 5]
  have "b = 0" and "l = 6 \<or> l = 5"
    using enc by (auto simp: encapsulated_def ws)
  then show ?thesis
    using z enc unfolding ws src
    by (elim disjE) (simp_all add: run_exec pton6_quad del: pton6_loop.simps(2))
qed

lemma full_text6_cases:
  "full_text6 src =
    (case best_run (ntop6_words src) of
       None \<Rightarrow> text6 src (ntop6_words src) None [0..<8]
     | Some (b, l) \<Rightarrow> run_text src (ntop6_words src) b l)"
  by (auto simp: full_text6_def run_text_def split: option.split)

lemma inet_pton6_full_text6:
  assumes "length src = 16"
  shows "inet_pton6 (full_text6 src) = Accepts src"
proof -
  obtain a0 b0 a1 b1 a2 b2 a3 b3 a4 b4 a5 b5 a6 b6 a7 b7 where
    src: "src = [a0, b0, a1, b1, a2, b2, a3, b3, a4, b4, a5, b5, a6, b6, a7, b7]"
    by (rule length_16E [OF assms])
  note ws = ntop6_words_eq [OF src]
  show ?thesis
  proof (cases "best_run (ntop6_words src)")
    case None
    then show ?thesis
      using round6_no_run [OF ws] by (simp add: full_text6_cases src)
  next
    case (Some r)
    obtain b l where r: "r = (b, l)" by fastforce
    then have "zero_run (ntop6_words src) 8 b l" and "2 \<le> l"
      using best_run_longest [of "ntop6_words src"] Some by auto
    then show ?thesis
      using round6_run [OF ws src] round6_encapsulated [OF ws src]
      by (auto simp: full_text6_cases Some r)
  qed
qed

text \<open>The text fits the array of \<open>inet_ntop6\<close>, so the function never overruns it.\<close>

lemma ntop6_text_eq:
  assumes "length src = 16"
  shows "ntop6_text src = Accepts (full_text6 src) \<and> length (full_text6 src) < 46"
proof -
  obtain a0 b0 a1 b1 a2 b2 a3 b3 a4 b4 a5 b5 a6 b6 a7 b7 where
    src: "src = [a0, b0, a1, b1, a2, b2, a3, b3, a4, b4, a5, b5, a6, b6, a7, b7]"
    by (rule length_16E [OF assms])
  have "word_texts_ok (ntop6_words src)"
    by (simp add: ntop6_words_eq [OF src] word_texts_ok_words6)
  from format6_eq [OF this, of 0 "[]" "best_run (ntop6_words src)" src]
  show ?thesis
    by (auto simp: ntop6_text_def full_text6_def bind_parse_def Let_def append6_fits split: option.split)
qed

lemma inet_ntop6_eq:
  assumes "length src = 16"
  shows "inet_ntop6 src sz =
    Accepts (if sz < stored_chars (full_text6 src) then Inl ENOSPC else Inr (full_text6 src))"
  using ntop6_text_eq [OF assms] by (simp add: inet_ntop6_def)

end
