(* ===== verification/Inet_Sum.thy ===== *)
theory Inet_Sum
  imports Inet6
begin

text \<open>
  \<open>inet_aton\<close> against \<open>inet_pton4\<close>, and the Internet checksum against one's complement
  arithmetic on natural numbers.
\<close>

section \<open>\<open>inet_aton\<close> on dotted quads\<close>

lemma aton_dec:
  "is_dec t \<Longrightarrow> aton_loop (t @ cp) dots (of_nat n) addr = aton_loop cp dots (of_nat (dec_from n t)) addr"
proof (induction t arbitrary: n)
  case Nil
  then show ?case by simp
next
  case (Cons c t)
  then obtain d where d: "strchr digits c = Some d" by auto
  have acc: "of_nat n * 10 + of_nat d = (of_nat (n * 10 + d) :: u_long)"
    by simp
  have "aton_loop ((c # t) @ cp) dots (of_nat n) addr = aton_loop (t @ cp) dots (of_nat (n * 10 + d)) addr"
    unfolding acc [symmetric] by (simp add: d)
  then show ?case
    using Cons.IH [of "n * 10 + d"] Cons.prems by (simp add: d)
qed

lemma aton_octet:
  assumes "octet_text t"
  shows "aton_loop (t @ cp) dots 0 addr = aton_loop cp dots (ucast (octet_val t)) addr"
proof -
  have n: "dec_from 0 t < 256"
    using assms by (simp add: octet_text_def)
  have "(of_nat (dec_from 0 t) :: u_long) = ucast (octet_val t)"
    using n by (simp add: word_unat_eq_iff octet_val_def unsigned_ucast_eq unat_of_nat take_bit_nat_eq_self)
  then show ?thesis
    using aton_dec [of t cp dots 0 addr] assms by (simp add: octet_text_def)
qed

lemma aton_dot:
  "dots < 3 \<Longrightarrow> aton_loop (CHR ''.'' # cp) dots (ucast (a :: octet)) addr =
    aton_loop cp (dots + 1) 0 (push_bit 8 addr OR ucast a)"
  using unsigned_less [of a, where ?'a = nat]
  by (simp add: word_less_nat_alt unsigned_ucast_eq take_bit_nat_eq_self)

lemma aton_end:
  "aton_loop [] dots (ucast (a :: octet)) addr = Some (dots, push_bit 8 addr OR ucast a)"
  using unsigned_less [of a, where ?'a = nat]
  by (simp add: word_less_nat_alt unsigned_ucast_eq take_bit_nat_eq_self)

lemma octet_high_bits: "8 \<le> n \<Longrightarrow> \<not> bit (a :: octet) n"
  using bit_imp_le_length [of a n] by auto

lemma htonl_octets_quad:
  "htonl_octets (((push_bit 24 (ucast a) OR push_bit 16 (ucast b)) OR push_bit 8 (ucast c)) OR ucast d) =
    [a, b, c, d]"
  by (auto simp: htonl_octets_def bit_simps octet_high_bits intro!: bit_word_eqI)

lemma inet_aton_quad:
  assumes "quad_text s bs"
  shows "inet_aton s = Some bs"
proof -
  from assms obtain t0 t1 t2 t3 where
    t: "octet_text t0" "octet_text t1" "octet_text t2" "octet_text t3"
    and s: "s = t0 @ ''.'' @ t1 @ ''.'' @ t2 @ ''.'' @ t3"
    and bs: "bs = [octet_val t0, octet_val t1, octet_val t2, octet_val t3]"
    by (auto simp: quad_text_def)
  show ?thesis
    using aton_octet [OF t(4), where cp = "[]"]
    by (simp add: inet_aton_def s bs aton_octet t aton_dot aton_end htonl_octets_quad
        del: aton_loop.simps)
qed

section \<open>The sum\<close>

fun nsum :: "bool \<Rightarrow> octet list \<Rightarrow> nat" where
  "nsum be (a # b # w) = unat (host16 be a b) + nsum be w"
| "nsum be [a] = unat (host16 be a 0)"
| "nsum be [] = 0"

lemma unat_16_le: "unat (x :: 16 word) \<le> 65535"
  using unsigned_less [of x, where ?'a = nat] by simp

lemma nsum_le: "nsum be w \<le> 65535 * ((length w + 1) div 2)"
proof (induction be w rule: nsum.induct)
  case (1 be a b w)
  then show ?case using unat_16_le [of "host16 be a b"] by simp
next
  case (2 be a)
  then show ?case using unat_16_le [of "host16 be a 0"] by simp
qed simp

lemma cksum_loop_nsum: "cksum_loop be w s = s + of_nat (nsum be w)"
  by (induction be w s rule: cksum_loop.induct) simp_all

lemma unat_cksum_loop:
  assumes "length w \<le> 131072"
  shows "unat (cksum_loop be w 0) = nsum be w"
proof -
  have "(length w + 1) div 2 \<le> 65536"
    using assms by simp
  then have "65535 * ((length w + 1) div 2) \<le> 65535 * 65536"
    by (rule mult_le_mono2)
  then have "nsum be w < 2 ^ 32"
    using nsum_le [of be w] by simp
  then show ?thesis
    by (simp add: cksum_loop_nsum unat_of_nat)
qed

lemma nsum_append: "even (length v) \<Longrightarrow> nsum be (v @ w) = nsum be v + nsum be w"
  by (induction be v rule: nsum.induct) auto

section \<open>Folding the carries\<close>

text \<open>
  The one's complement sum: the representative of the sum modulo 65535 in which a nonzero
  sum is never 0.
\<close>

definition ones_sum :: "nat \<Rightarrow> nat" where
  "ones_sum s = (if s = 0 then 0 else 1 + (s - 1) mod 65535)"

lemma ones_sum_small: "0 < f \<Longrightarrow> f \<le> 65535 \<Longrightarrow> ones_sum f = f"
  by (simp add: ones_sum_def)

lemma ones_sum_shift:
  assumes "0 < f"
  shows "ones_sum (65535 * k + f) = ones_sum f"
proof -
  have "65535 * k + f - 1 = 65535 * k + (f - 1)"
    using assms by simp
  then have "(65535 * k + f - 1) mod 65535 = (f - 1) mod 65535"
    by (metis mod_mult_self4)
  then show ?thesis
    using assms by (simp add: ones_sum_def)
qed

lemma ones_sum_fold:
  assumes "f = s div 65536 + s mod 65536" and "s < 2 ^ 32"
  shows "ones_sum s = (f + f div 65536) mod 65536"
proof -
  have s: "s = 65535 * (s div 65536) + f"
    using assms(1) div_mult_mod_eq [of s 65536] by linarith
  have "s div 65536 < 65536" and "s mod 65536 < 65536"
    using assms(2) by (simp_all add: less_mult_imp_div_less)
  then have f: "f \<le> 131070"
    using assms(1) by linarith
  consider "f = 0" | "0 < f" "f \<le> 65535" | g where "f = 65535 * 1 + g" "0 < g" "g \<le> 65535"
    using f that(3) [of "f - 65535"] by linarith
  then show ?thesis
  proof cases
    case 1
    then show ?thesis using s assms(1) by (simp add: ones_sum_def)
  next
    case 2
    then have "f div 65536 = 0" by simp
    with 2 show ?thesis
      using ones_sum_shift [OF 2(1), of "s div 65536"] s ones_sum_small [OF 2] by simp
  next
    case 3
    have "f = 65536 * 1 + (g - 1)"
      using 3 by linarith
    then have "f div 65536 = 1"
      using 3 by simp
    then have "f + f div 65536 = 65536 + g"
      using 3 by linarith
    moreover have "ones_sum s = g"
      using ones_sum_shift [of f "s div 65536"] ones_sum_shift [OF 3(2), of 1]
        ones_sum_small [OF 3(2,3)] s 3 by simp
    ultimately show ?thesis
      using 3 by simp
  qed
qed

lemma unat_not_16: "unat (NOT (x :: 16 word)) = 65535 - unat x"
proof -
  have "NOT x = - 1 - x"
    by (simp add: not_eq_complement)
  then have "unat (NOT x) = unat (- 1 :: 16 word) - unat x"
    by (simp add: unat_sub)
  moreover have "unat (- 1 :: 16 word) = 65535"
    by (simp only: unsigned_minus_1_eq_mask mask_eq_exp_minus_1) simp
  ultimately show ?thesis by simp
qed

lemma ucast_not_16: "ucast (NOT (w :: cint)) = (NOT (ucast w) :: 16 word)"
  by (rule bit_word_eqI) (auto simp: bit_simps)

lemma cksum_fold_ones: "unat (cksum_fold s) = 65535 - ones_sum (unat s)"
proof -
  define f where "f = unat s div 65536 + unat s mod 65536"
  have s: "unat s < 2 ^ 32"
    using unsigned_less [of s, where ?'a = nat] by simp
  then have hi: "unat s div 65536 < 65536" and lo: "unat s mod 65536 < 65536"
    by (simp_all add: less_mult_imp_div_less)
  have d: "unat (drop_bit 16 x) = unat x div 65536" for x :: cint
    using unat_drop_bit_eq [of 16 x] by (simp only: drop_bit_eq_div) simp
  have m: "unat (s AND 0xffff) = unat s mod 65536"
  proof -
    have "s AND 0xffff = take_bit 16 s"
      by (simp only: take_bit_eq_mask mask_eq_exp_minus_1) simp
    then have "unat (s AND 0xffff) = take_bit 16 (unat s)"
      by (simp only: unsigned_take_bit_eq)
    then show ?thesis
      by (simp only: take_bit_eq_mod) simp
  qed
  define w where "w = drop_bit 16 s + (s AND 0xffff)"
  have w: "unat w = f"
    using hi lo by (simp add: w_def unat_word_ariths d m f_def)
  have "f + f div 65536 < 2 ^ 32"
    using hi lo by (simp add: f_def)
  then have "unat (w + drop_bit 16 w) = f + f div 65536"
    by (simp add: unat_word_ariths w d)
  then show ?thesis
    unfolding cksum_fold_def Let_def w_def [symmetric]
    using ones_sum_fold [OF f_def s]
    by (simp add: ucast_not_16 unat_not_16 unsigned_ucast_eq take_bit_eq_mod)
qed

lemma ones_sum_complement:
  assumes "ones_sum s = r"
  shows "ones_sum (s + (65535 - r)) = 65535"
proof (cases "s = 0")
  case True
  then show ?thesis using assms by (simp add: ones_sum_def)
next
  case False
  define q where "q = (s - 1) mod 65535"
  define k where "k = (s - 1) div 65535"
  have s: "s = 65535 * k + (1 + q)"
    using False div_mult_mod_eq [of "s - 1" 65535] unfolding q_def k_def by linarith
  have q: "q < 65535" by (simp add: q_def)
  have "r = 1 + q"
    using assms False by (simp add: ones_sum_def q_def)
  then have "s + (65535 - r) = 65535 * k + 65535"
    using s q by linarith
  then show ?thesis
    using ones_sum_shift [of 65535 k] by (simp add: ones_sum_small)
qed

section \<open>Verification of a checksum\<close>

lemma in_cksum_ones:
  "length w \<le> 131072 \<Longrightarrow> unat (in_cksum be w) = 65535 - ones_sum (nsum be w)"
  by (simp add: in_cksum_def cksum_fold_ones unat_cksum_loop)

lemma host16_zero [simp]: "host16 be 0 0 = 0"
  by (simp add: host16_def)

lemma in_cksum_inserted:
  assumes "even (length v)" and "length v + 2 + length w \<le> 131072"
    and "host16 be c d = in_cksum be (v @ [0, 0] @ w)"
  shows "in_cksum be (v @ [c, d] @ w) = 0"
proof -
  define s where "s = nsum be v + nsum be w"
  have "unat (host16 be c d) = 65535 - ones_sum s"
    using assms by (simp add: in_cksum_ones nsum_append s_def)
  then have "nsum be (v @ [c, d] @ w) = s + (65535 - ones_sum s)"
    using assms(1) by (simp add: nsum_append s_def)
  then have "unat (in_cksum be (v @ [c, d] @ w)) = 65535 - 65535"
    using assms(2) ones_sum_complement [OF refl, of s] by (simp add: in_cksum_ones)
  then show ?thesis
    by (simp add: unsigned_eq_0_iff)
qed

end
