(* ===== verification/Inet_Props.thy ===== *)
theory Inet_Props
  imports Inet6_Round Inet_Sum
begin

text \<open>The properties of the address conversions and of the Internet checksum.\<close>

section \<open>Parsing and printing\<close>

text \<open>
  C33: Every address that \<open>inet_ntop\<close> prints is read back by \<open>inet_pton\<close>: for every IPv4
  address and every IPv6 address (with its run of zeros shortened to \<open>::\<close>, or with an
  encapsulated IPv4 address printed as a dotted quad), given a buffer of the documented
  size, \<open>inet_ntop\<close> succeeds and parsing its text gives exactly the octets printed.
\<close>

theorem inet_ntop_pton:
  assumes "af = AF_INET \<and> length src = 4 \<and> 16 \<le> sz \<or> af = AF_INET6 \<and> length src = 16 \<and> 46 \<le> sz"
  shows "\<exists>s. inet_ntop af src sz = Accepts (Inr s) \<and> inet_pton af s = Inr (Accepts src)"
  using assms
proof
  assume "af = AF_INET \<and> length src = 4 \<and> 16 \<le> sz"
  then show ?thesis
    using inet_pton4_dotted_quad [of src] length_dotted_quad [of src]
    by (simp add: inet_ntop_def inet_pton_def inet_ntop4_def)
next
  assume "af = AF_INET6 \<and> length src = 16 \<and> 46 \<le> sz"
  then show ?thesis
    using inet_pton6_full_text6 [of src] inet_ntop6_eq [of src sz] ntop6_text_eq [of src]
    by (simp add: inet_ntop_def inet_pton_def AF_INET_def AF_INET6_def stored_chars_def)
qed

theorem inet_ntop_pton_witness:
  "\<exists>s. inet_ntop 10 [0, 0, 0, 0, 0, 0, 0, 0, 0, 0, 255, 255, 10, 0, 0, 1] 46 = Accepts (Inr s) \<and>
    inet_pton 10 s = Inr (Accepts [0, 0, 0, 0, 0, 0, 0, 0, 0, 0, 255, 255, 10, 0, 0, 1])"
  using inet_ntop_pton [of 10 "[0, 0, 0, 0, 0, 0, 0, 0, 0, 0, 255, 255, 10, 0, 0, 1]" 46]
  by (simp add: AF_INET6_def)

text \<open>
  C34: \<open>inet_pton4\<close> accepts exactly the texts of four groups of decimal digits separated by
  dots, each of value at most 255 and with any number of leading zeros, and stores their
  values; whatever the three octets of its
  local array that it does not initialise hold.
\<close>

theorem inet_pton4_language:
  "(inet_pton4_on junk s = Accepts bs) = quad_text s bs \<and> inet_pton4_on junk s = inet_pton4 s"
  using inet_pton4_on_iff inet_pton4_on_junk by simp

text \<open>
  C35: For every text, neither parser stores outside its local array, the shift of the octets
  after \<open>::\<close> included, and an accepted address has 4 octets (\<open>AF_INET\<close>) or 16 (\<open>AF_INET6\<close>).
\<close>

theorem inet_pton_in_bounds:
  assumes "inet_pton af s = Inr r"
  shows "r = Rejects \<or> (\<exists>bs. r = Accepts bs \<and> length bs = (if af = AF_INET then 4 else 16))"
proof (cases "af = AF_INET")
  case True
  then show ?thesis
    using assms inet_pton4_in_bounds [of s] inet_pton4_length [of s]
    by (cases r) (auto simp: inet_pton_def)
next
  case False
  then show ?thesis
    using assms inet_pton6_ok [of s]
    by (cases r) (auto simp: inet_pton_def split: if_splits)
qed

theorem inet_pton_in_bounds_witness:
  "inet_pton4 ''10.0.0.1'' = Rejects \<or> (\<exists>bs. inet_pton4 ''10.0.0.1'' = Accepts bs \<and> length bs = 4)"
  using inet_pton_in_bounds [of 2 "''10.0.0.1''" "inet_pton4 ''10.0.0.1''"]
  by (simp add: inet_pton_def AF_INET_def)

text \<open>
  For every IPv6 address and every size, \<open>inet_ntop6\<close> stays inside its local array and
  either reports \<open>ENOSPC\<close> or stores a text that fits the caller's buffer with its null
  character; and what it shortens to \<open>::\<close> is the leftmost of the longest runs of at least
  two zero words.
\<close>

theorem inet_ntop6_fits:
  assumes "length src = 16"
  shows "(inet_ntop6 src sz = Accepts (Inl ENOSPC) \<or>
      (\<exists>s. inet_ntop6 src sz = Accepts (Inr s) \<and> stored_chars s \<le> sz)) \<and>
    (\<forall>b l. zero_run (ntop6_words src) 8 b l \<longrightarrow> 2 \<le> l \<longrightarrow> dominates (best_run (ntop6_words src)) b l)"
  using inet_ntop6_eq [OF assms, of sz] best_run_longest [of "ntop6_words src"] by auto

theorem inet_ntop6_fits_witness:
  "inet_ntop6 (replicate 16 1) 7 = Accepts (Inl ENOSPC) \<or>
    (\<exists>s. inet_ntop6 (replicate 16 1) 7 = Accepts (Inr s) \<and> stored_chars s \<le> 7)"
  using inet_ntop6_fits [of "replicate 16 1" 7] by simp

section \<open>Where the converters differ from their documentation\<close>

text \<open>An address written with all eight groups.\<close>

definition eight_groups :: "octet list \<Rightarrow> string" where
  "eight_groups src = text6 src (ntop6_words src) None [0..<8]"

text \<open>
  \<open>::\<close> in a full address is not ignored, as the comment of \<open>inet_pton6\<close> promises: the
  shift by hand then copies every octet onto itself and clears it, so that \<open>::\<close> followed by
  any eight groups is accepted as the unspecified address, although the same eight groups
  without \<open>::\<close> are read correctly.
\<close>

theorem inet_pton6_full_address_cleared:
  assumes "length src = 16"
  shows "inet_pton6 (eight_groups src) = Accepts src \<and>
    inet_pton6 (''::'' @ eight_groups src) = Accepts (replicate 16 0)"
proof -
  obtain a0 b0 a1 b1 a2 b2 a3 b3 a4 b4 a5 b5 a6 b6 a7 b7 where
    src: "src = [a0, b0, a1, b1, a2, b2, a3, b3, a4, b4, a5, b5, a6, b6, a7, b7]"
    by (rule length_16E [OF assms])
  note ws = ntop6_words_eq [OF src]
  have "inet_pton6 (''::'' @ eight_groups src) = Accepts (replicate 16 0)"
    by (simp add: eight_groups_def ws run_exec encapsulated_def del: pton6_loop.simps(2))
  then show ?thesis
    using round6_no_run [OF ws] by (simp add: eight_groups_def src)
qed

theorem inet_pton6_full_address_cleared_witness:
  "inet_pton6 (''::'' @ eight_groups (replicate 16 1)) = Accepts (replicate 16 0)"
  using inet_pton6_full_address_cleared [of "replicate 16 1"] by simp

text \<open>
  \<open>inet_ntop4\<close> accepts a buffer that has no room for the null character: with a size of
  exactly the length of the text it reports success and stores one character more than the
  buffer holds. \<open>inet_ntop_ipv4.c\<close> reports \<open>ENOSPC\<close> in the same situation.
\<close>

theorem inet_ntop4_off_by_one:
  "inet_ntop4 src (length (dotted_quad src)) = Inr (dotted_quad src) \<and>
   length (dotted_quad src) < stored_chars (dotted_quad src) \<and>
   inet_ntop_ipv4 AF_INET src (length (dotted_quad src)) = Inl ENOSPC"
  using length_dotted_quad [of src]
  by (simp add: inet_ntop4_def stored_chars_def inet_ntop_ipv4_def Let_def)

section \<open>\<open>inet_aton\<close> and the checksum\<close>

text \<open>
  Whatever \<open>inet_pton4\<close> accepts, \<open>inet_aton\<close> and the \<open>inet_pton\<close> built on it accept as
  the same address.
\<close>

theorem inet_aton_extends_pton4:
  assumes "inet_pton4 s = Accepts bs"
  shows "inet_aton s = Some bs \<and> inet_pton_ipv4 AF_INET s = Inr (Some bs)"
  using assms inet_aton_quad [of s bs] inet_pton4_on_iff [of "[]" s bs]
  by (simp add: inet_pton4_def inet_pton_ipv4_def)

theorem inet_aton_extends_pton4_witness: "inet_aton ''192.0.2.010'' = Some [192, 0, 2, 10]"
proof -
  have "inet_pton4 ''192.0.2.010'' = Accepts [192, 0, 2, 10]" by code_simp
  then show ?thesis using inet_aton_extends_pton4 [of "''192.0.2.010''"] by simp
qed

text \<open>
  \<open>inet_aton\<close> accepts more: the empty text, empty groups, missing groups (filled with zeros
  on the right), and numbers whose accumulator has wrapped around 64 bits.
\<close>

lemma inet_aton_lenient:
  "inet_aton '''' = Some [0, 0, 0, 0]" "inet_aton ''1..2'' = Some [1, 0, 2, 0]"
  "inet_aton ''18446744073709551617'' = Some [1, 0, 0, 0]"
  by code_simp+

text \<open>
  The checksum of \<open>in_cksum\<close> verifies, on hosts of either byte order: store the
  checksum of a message (its checksum field zero) into that field, at an even offset, and
  the checksum of the result is 0. The bound on the length keeps the 32-bit sum from
  wrapping; it covers every IP datagram.
\<close>

theorem in_cksum_verifies:
  assumes "even (length v)" and "length v + 2 + length w \<le> 131072"
    and "host16 be c d = in_cksum be (v @ [0, 0] @ w)"
  shows "in_cksum be (v @ [c, d] @ w) = 0"
  using assms by (rule in_cksum_inserted)

theorem in_cksum_verifies_witness:
  "in_cksum False ([8, 0] @ [243, 255] @ [1, 0, 3]) = 0"
proof -
  have "host16 False 243 255 = in_cksum False ([8, 0] @ [0, 0] @ [1, 0, 3])"
    by code_simp
  then show ?thesis
    using in_cksum_verifies [of "[8, 0]" "[1, 0, 3]" False 243 255] by simp
qed

end
