(* ===== verification/Stream_IO.thy ===== *)
theory Stream_IO
  imports Prelude
begin

text \<open>
  Reading and writing byte streams: \<open>readn\<close>, \<open>writen\<close> and the family of \<open>readline\<close>
  functions of both libraries (\<open>unpv13e/lib\<close>, \<open>unpv22e/lib\<close>), of the threads chapter, of the
  server chapter and of the socket program.

  The kernel's side of a descriptor is a stream and a schedule. A read takes the next entry
  of the schedule: it delivers at most so many bytes, or fails. When the schedule is
  exhausted it delivers what is asked for, as far as there is data; no byte at all is end of
  file. Every short read, interruption and failure that a caller can observe is one of these
  schedules, and a schedule is finite, so only finitely many calls are interrupted.
\<close>

type_synonym byte = "8 word"

definition newline :: byte where "newline = 10"

section \<open>The kernel's side\<close>

datatype read_ev = Chunk nat | Fails errno

record in_stream =
  pending :: "byte list"
  plan :: "read_ev list"

definition sys_read :: "nat \<Rightarrow> in_stream \<Rightarrow> byte list result \<times> in_stream" where
  "sys_read k s =
    (case plan s of
       [] \<Rightarrow> (Inr (take k (pending s)), s\<lparr>pending := drop k (pending s)\<rparr>)
     | Fails e # p \<Rightarrow> (Inl e, s\<lparr>plan := p\<rparr>)
     | Chunk m # p \<Rightarrow>
         (Inr (take (min k (m + 1)) (pending s)),
          s\<lparr>pending := drop (min k (m + 1)) (pending s), plan := p\<rparr>))"

text \<open>A write may take fewer bytes than it is given, even none, or fail and set errno.\<close>

datatype write_ev = Takes nat | WFails errno

record out_stream =
  written :: "byte list"
  wplan :: "write_ev list"
  werrno :: errno

definition sys_write :: "byte list \<Rightarrow> out_stream \<Rightarrow> int \<times> out_stream" where
  "sys_write bs s =
    (case wplan s of
       [] \<Rightarrow> (int (length bs), s\<lparr>written := written s @ bs\<rparr>)
     | Takes m # p \<Rightarrow>
         (int (min m (length bs)), s\<lparr>written := written s @ take m bs, wplan := p\<rparr>)
     | WFails e # p \<Rightarrow> (- 1, s\<lparr>wplan := p, werrno := e\<rparr>))"

text \<open>What a read can do, in one rule each for success and failure.\<close>

lemma sys_read_Inr:
  assumes "sys_read k s = (Inr bs, s')" and "0 < k"
  shows "pending s = bs @ pending s' \<and> length bs \<le> k \<and> length (plan s') \<le> length (plan s) \<and>
    (bs = [] \<longrightarrow> pending s = [])"
  using assms by (auto simp: sys_read_def min_def split: list.splits read_ev.splits if_splits)

lemma sys_read_Inl:
  assumes "sys_read k s = (Inl e, s')"
  shows "pending s' = pending s \<and> plan s = Fails e # plan s'"
  using assms by (auto simp: sys_read_def split: list.splits read_ev.splits)

lemma sys_read_plan: "set (plan (snd (sys_read k s))) \<subseteq> set (plan s)"
  by (auto simp: sys_read_def split: list.splits read_ev.splits)

lemma sys_read_Inl_less:
  "(Inl e, s') = sys_read k s \<Longrightarrow> length (plan s') < length (plan s)"
  using sys_read_Inl [of k s e s'] by simp

lemma sys_read_Inr_less:
  "(Inr bs, s') = sys_read k s \<Longrightarrow> 0 < k \<Longrightarrow> bs \<noteq> [] \<Longrightarrow>
    k - length bs + length (plan s') < k + length (plan s)"
  using sys_read_Inr [of k s bs s'] by (cases bs) auto

section \<open>\<open>readn.c\<close>\<close>

text \<open>
  The loop of \<open>readn\<close>: \<open>nleft\<close> and the bytes stored so far, \<open>n - nleft\<close> of them.
\<close>

function readn_loop :: "nat \<Rightarrow> byte list \<Rightarrow> in_stream \<Rightarrow> byte list result \<times> in_stream" where
  "readn_loop nleft buf s =
    (if nleft = 0 then (Inr buf, s)
     else case sys_read nleft s of
       (Inl e, s') \<Rightarrow> if e = EINTR then readn_loop nleft buf s' else (Inl e, s')
     | (Inr bs, s') \<Rightarrow>
         if bs = [] then (Inr buf, s') else readn_loop (nleft - length bs) (buf @ bs) s')"
  by auto

termination
  by (relation "measure (\<lambda>(nleft, buf, s). nleft + length (plan s))")
    (auto simp: sys_read_Inl_less sys_read_Inr_less)

declare readn_loop.simps [simp del]

definition readn :: "nat \<Rightarrow> in_stream \<Rightarrow> byte list result \<times> in_stream" where
  "readn n s = readn_loop n [] s"

definition Readn :: "nat \<Rightarrow> in_stream \<Rightarrow> byte list wrapped \<times> in_stream" where
  "Readn n s = (case readn n s of (r, s') \<Rightarrow> (err_sys_on_error ''readn error'' r, s'))"

text \<open>The file of the IPC library differs in the header it includes only.\<close>

definition readn_ipc :: "nat \<Rightarrow> in_stream \<Rightarrow> byte list result \<times> in_stream" where
  "readn_ipc n s = readn_loop n [] s"

definition Readn_ipc :: "nat \<Rightarrow> in_stream \<Rightarrow> byte list wrapped \<times> in_stream" where
  "Readn_ipc n s = (case readn_ipc n s of (r, s') \<Rightarrow> (err_sys_on_error ''readn error'' r, s'))"

lemma sys_write_less:
  "(k, s') = sys_write bs s \<Longrightarrow> k < 0 \<Longrightarrow> length (wplan s') < length (wplan s)"
  "(k, s') = sys_write bs s \<Longrightarrow> k = 0 \<Longrightarrow> bs \<noteq> [] \<Longrightarrow> length (wplan s') < length (wplan s)"
  "(k, s') = sys_write bs s \<Longrightarrow> length (wplan s') \<le> length (wplan s)"
  by (auto simp: sys_write_def split: list.splits write_ev.splits)

lemma sys_write_measure:
  assumes "(k, s') = sys_write bs s" and "bs \<noteq> []"
  shows "k \<le> 0 \<Longrightarrow> length (wplan s') < length (wplan s)"
    and "\<not> k \<le> 0 \<Longrightarrow> length bs - nat k + length (wplan s') < length bs + length (wplan s)"
  using sys_write_less [OF assms(1)] assms(2) by (cases "k = 0"; cases bs; auto)+

section \<open>\<open>writen.c\<close>\<close>

text \<open>
  \<open>writen\<close> of the network library gives up when \<open>write\<close> returns 0 or fails, unless it was
  interrupted. \<open>None\<close> is the return value \<open>-1\<close>; \<open>n\<close> is the original count.
\<close>

function writen_loop :: "nat \<Rightarrow> byte list \<Rightarrow> out_stream \<Rightarrow> nat option \<times> out_stream" where
  "writen_loop n bs s =
    (if bs = [] then (Some n, s)
     else case sys_write bs s of (nwritten, s') \<Rightarrow>
       if nwritten \<le> 0 then
         (if nwritten < 0 \<and> werrno s' = EINTR then writen_loop n bs s' else (None, s'))
       else writen_loop n (drop (nat nwritten) bs) s')"
  by auto

termination
  by (relation "measure (\<lambda>(n, bs, s). length bs + length (wplan s))")
    (auto simp: sys_write_measure)

declare writen_loop.simps [simp del]

definition writen :: "byte list \<Rightarrow> out_stream \<Rightarrow> nat option \<times> out_stream" where
  "writen bs s = writen_loop (length bs) bs s"

definition Writen :: "byte list \<Rightarrow> out_stream \<Rightarrow> unit wrapped \<times> out_stream" where
  "Writen bs s = (case writen bs s of (r, s') \<Rightarrow>
     (if r \<noteq> Some (length bs) then Exits ''writen error'' (werrno s') else Returns (), s'))"

text \<open>
  The IPC library tests errno whenever \<open>write\<close> returns at most 0, so that after a return
  value of 0 the errno of an earlier call decides.
\<close>

function writen_loop_ipc :: "nat \<Rightarrow> byte list \<Rightarrow> out_stream \<Rightarrow> nat option \<times> out_stream" where
  "writen_loop_ipc n bs s =
    (if bs = [] then (Some n, s)
     else case sys_write bs s of (nwritten, s') \<Rightarrow>
       if nwritten \<le> 0 then
         (if werrno s' = EINTR then writen_loop_ipc n bs s' else (None, s'))
       else writen_loop_ipc n (drop (nat nwritten) bs) s')"
  by auto

termination
  by (relation "measure (\<lambda>(n, bs, s). length bs + length (wplan s))")
    (auto simp: sys_write_measure)

declare writen_loop_ipc.simps [simp del]

definition writen_ipc :: "byte list \<Rightarrow> out_stream \<Rightarrow> nat option \<times> out_stream" where
  "writen_ipc bs s = writen_loop_ipc (length bs) bs s"

definition Writen_ipc :: "byte list \<Rightarrow> out_stream \<Rightarrow> unit wrapped \<times> out_stream" where
  "Writen_ipc bs s = (case writen_ipc bs s of (r, s') \<Rightarrow>
     (if r \<noteq> Some (length bs) then Exits ''writen error'' (werrno s') else Returns (), s'))"

section \<open>\<open>sock/writen.c\<close>\<close>

text \<open>
  This version keeps \<open>nwritten\<close> in a \<open>size_t\<close>: the \<open>-1\<close> of a failed write is not at most 0,
  and is subtracted from \<open>nleft\<close> and added to \<open>ptr\<close>. \<open>Outside\<close> is an access outside the
  caller's buffer; the position of \<open>ptr\<close> in the buffer is an integer.
\<close>

datatype 'a access = Inside 'a | Outside

function writen_sock_loop :: "byte list \<Rightarrow> int \<Rightarrow> nat \<Rightarrow> out_stream \<Rightarrow> nat access \<times> out_stream" where
  "writen_sock_loop buf ptr nleft s =
    (if nleft = 0 then (Inside (length buf), s)
     else if ptr < 0 \<or> int (length buf) < ptr + int nleft then (Outside, s)
     else case sys_write (take nleft (drop (nat ptr) buf)) s of (nwritten, s') \<Rightarrow>
       if nwritten = 0 then (Inside 0, s')
       else if nwritten < 0 then writen_sock_loop buf (ptr - 1) (nleft + 1) s'
       else writen_sock_loop buf (ptr + nwritten) (nleft - nat nwritten) s')"
  by auto

termination
proof (relation "measures [\<lambda>(buf, ptr, nleft, s). length (wplan s), \<lambda>(buf, ptr, nleft, s). nleft]", goal_cases)
  case (2 buf ptr nleft s k s')
  then show ?case using sys_write_less(1) [of k s' "take nleft (drop (nat ptr) buf)" s] by simp
next
  case (3 buf ptr nleft s k s')
  then show ?case using sys_write_less(3) [of k s' "take nleft (drop (nat ptr) buf)" s] by auto
qed simp

declare writen_sock_loop.simps [simp del]

definition writen_sock :: "byte list \<Rightarrow> out_stream \<Rightarrow> nat access \<times> out_stream" where
  "writen_sock buf s = writen_sock_loop buf 0 (length buf) s"

section \<open>Buffered reading of single bytes\<close>

text \<open>
  The static variables of \<open>my_read\<close> (\<open>read_cnt\<close>, \<open>read_ptr\<close> as a position in the buffer, and
  \<open>read_buf\<close>), which the reentrant versions keep in an \<open>Rline\<close>.
\<close>

record Rline =
  rl_cnt :: int
  rl_bufptr :: nat
  rl_buf :: "byte list"

definition MAXLINE :: nat where "MAXLINE = 4096"

text \<open>The label \<open>again\<close>: \<open>read\<close> into the buffer until it is not interrupted.\<close>

function fill :: "Rline \<Rightarrow> in_stream \<Rightarrow> byte list result \<times> Rline \<times> in_stream" where
  "fill r s =
    (case sys_read MAXLINE s of
       (Inl e, s') \<Rightarrow>
         (if e = EINTR then fill (r\<lparr>rl_cnt := - 1\<rparr>) s' else (Inl e, r\<lparr>rl_cnt := - 1\<rparr>, s'))
     | (Inr bs, s') \<Rightarrow>
         (Inr bs, r\<lparr>rl_cnt := int (length bs), rl_buf := bs @ drop (length bs) (rl_buf r)\<rparr>, s'))"
  by auto

termination
  by (relation "measure (\<lambda>(r, s). length (plan s))") (auto simp: sys_read_Inl_less)

declare fill.simps [simp del]

text \<open>\<open>Inr (Some c)\<close>: returns 1 with \<open>*ptr = c\<close>; \<open>Inr None\<close>: returns 0; \<open>Inl e\<close>: returns \<open>-1\<close>.\<close>

definition take_char :: "Rline \<Rightarrow> byte \<times> Rline" where
  "take_char r = (rl_buf r ! rl_bufptr r, r\<lparr>rl_cnt := rl_cnt r - 1, rl_bufptr := rl_bufptr r + 1\<rparr>)"

definition my_read :: "Rline \<times> in_stream \<Rightarrow> byte option result \<times> Rline \<times> in_stream" where
  "my_read rs = (case rs of (r, s) \<Rightarrow>
    if rl_cnt r \<le> 0 then
      (case fill r s of
         (Inl e, r', s') \<Rightarrow> (Inl e, r', s')
       | (Inr bs, r', s') \<Rightarrow>
           if bs = [] then (Inr None, r', s')
           else (case take_char (r'\<lparr>rl_bufptr := 0\<rparr>) of (c, r'') \<Rightarrow> (Inr (Some c), r'', s')))
    else (case take_char r of (c, r') \<Rightarrow> (Inr (Some c), r', s)))"

section \<open>\<open>readline\<close>\<close>

text \<open>
  The loop of \<open>readline\<close> over a function that gives the next byte: \<open>n\<close> and the bytes stored
  at \<open>vptr\<close>. On success the result is these bytes, which a null byte follows, and the value
  returned. In the network library, end of file returns the number of bytes stored.
\<close>

type_synonym 's next_byte = "'s \<Rightarrow> byte option result \<times> 's"

function readline_loop :: "'s next_byte \<Rightarrow> nat \<Rightarrow> nat \<Rightarrow> byte list \<Rightarrow> 's \<Rightarrow> (byte list \<times> nat) result \<times> 's" where
  "readline_loop get maxlen n buf s =
    (if n < maxlen then
       (case get s of
          (Inl e, s') \<Rightarrow> (Inl e, s')
        | (Inr None, s') \<Rightarrow> (Inr (buf, n - 1), s')
        | (Inr (Some c), s') \<Rightarrow>
            if c = newline then (Inr (buf @ [c], n), s')
            else readline_loop get maxlen (n + 1) (buf @ [c]) s')
     else (Inr (buf, n), s))"
  by auto

termination
  by (relation "measure (\<lambda>(get, maxlen, n, buf, s). maxlen - n)") auto

declare readline_loop.simps [simp del]

definition readline :: "nat \<Rightarrow> Rline \<times> in_stream \<Rightarrow> (byte list \<times> nat) result \<times> Rline \<times> in_stream" where
  "readline maxlen rs = readline_loop my_read maxlen 1 [] rs"

definition Readline :: "nat \<Rightarrow> Rline \<times> in_stream \<Rightarrow> (byte list \<times> nat) wrapped \<times> Rline \<times> in_stream" where
  "Readline maxlen rs =
    (case readline maxlen rs of (r, rs') \<Rightarrow> (err_sys_on_error ''readline error'' r, rs'))"

text \<open>
  \<open>readlinebuf\<close> tells what is left in the buffer: its size, and where it starts when there is
  anything.
\<close>

definition readlinebuf :: "Rline \<Rightarrow> int \<times> nat option" where
  "readlinebuf r = (rl_cnt r, if rl_cnt r \<noteq> 0 then Some (rl_bufptr r) else None)"

text \<open>
  In the IPC library and in the server chapter end of file returns 0 when nothing was stored
  and otherwise leaves the loop, which returns \<open>n\<close>.
\<close>

function readline_loop_ipc :: "'s next_byte \<Rightarrow> nat \<Rightarrow> nat \<Rightarrow> byte list \<Rightarrow> 's \<Rightarrow> (byte list \<times> nat) result \<times> 's" where
  "readline_loop_ipc get maxlen n buf s =
    (if n < maxlen then
       (case get s of
          (Inl e, s') \<Rightarrow> (Inl e, s')
        | (Inr None, s') \<Rightarrow> if n = 1 then (Inr (buf, 0), s') else (Inr (buf, n), s')
        | (Inr (Some c), s') \<Rightarrow>
            if c = newline then (Inr (buf @ [c], n), s')
            else readline_loop_ipc get maxlen (n + 1) (buf @ [c]) s')
     else (Inr (buf, n), s))"
  by auto

termination
  by (relation "measure (\<lambda>(get, maxlen, n, buf, s). maxlen - n)") auto

declare readline_loop_ipc.simps [simp del]

definition my_read_ipc :: "Rline \<times> in_stream \<Rightarrow> byte option result \<times> Rline \<times> in_stream" where
  "my_read_ipc rs = my_read rs"

definition readline_ipc :: "nat \<Rightarrow> Rline \<times> in_stream \<Rightarrow> (byte list \<times> nat) result \<times> Rline \<times> in_stream" where
  "readline_ipc maxlen rs = readline_loop_ipc my_read_ipc maxlen 1 [] rs"

definition Readline_ipc :: "nat \<Rightarrow> Rline \<times> in_stream \<Rightarrow> (byte list \<times> nat) wrapped \<times> Rline \<times> in_stream" where
  "Readline_ipc maxlen rs =
    (case readline_ipc maxlen rs of (r, rs') \<Rightarrow> (err_sys_on_error ''readline error'' r, rs'))"

text \<open>The version of the server chapter that reads one byte at a time and does not retry.\<close>

definition read_one :: "in_stream \<Rightarrow> byte option result \<times> in_stream" where
  "read_one s = (case sys_read 1 s of
     (Inl e, s') \<Rightarrow> (Inl e, s')
   | (Inr bs, s') \<Rightarrow> (Inr (case bs of [] \<Rightarrow> None | c # _ \<Rightarrow> Some c), s'))"

definition readline_slow :: "nat \<Rightarrow> in_stream \<Rightarrow> (byte list \<times> nat) result \<times> in_stream" where
  "readline_slow maxlen s = readline_loop_ipc read_one maxlen 1 [] s"

definition Readline_slow :: "nat \<Rightarrow> in_stream \<Rightarrow> (byte list \<times> nat) wrapped \<times> in_stream" where
  "Readline_slow maxlen s =
    (case readline_slow maxlen s of (r, s') \<Rightarrow> (err_sys_on_error ''readline error'' r, s'))"

text \<open>The reentrant version: the caller's arguments are kept in the \<open>Rline\<close>.\<close>

record Rline_r = Rline +
  read_fd :: int
  read_maxlen :: nat

definition my_read_r :: "Rline_r \<times> in_stream \<Rightarrow> byte option result \<times> Rline_r \<times> in_stream" where
  "my_read_r rs = (case rs of (r, s) \<Rightarrow>
    (case my_read (Rline.truncate r, s) of (c, r', s') \<Rightarrow> (c, Rline.extend r' (Rline.more r), s')))"

definition readline_rinit :: "int \<Rightarrow> nat \<Rightarrow> Rline_r \<Rightarrow> Rline_r" where
  "readline_rinit fd maxlen r =
    r\<lparr>read_fd := fd, read_maxlen := maxlen, rl_cnt := 0, rl_bufptr := 0\<rparr>"

definition readline_r :: "Rline_r \<times> in_stream \<Rightarrow> (byte list \<times> nat) result \<times> Rline_r \<times> in_stream" where
  "readline_r rs = readline_loop_ipc my_read_r (read_maxlen (fst rs)) 1 [] rs"

definition Readline_r :: "Rline_r \<times> in_stream \<Rightarrow> (byte list \<times> nat) wrapped \<times> Rline_r \<times> in_stream" where
  "Readline_r rs =
    (case readline_r rs of (r, rs') \<Rightarrow> (err_sys_on_error ''readline_r error'' r, rs'))"

text \<open>
  The version for threads: each thread has its own \<open>Rline\<close> under the key \<open>rl_key\<close>, made by
  \<open>Calloc\<close> on the first call.
\<close>

type_synonym tsd = "nat \<Rightarrow> Rline option"

definition calloc_Rline :: Rline where
  "calloc_Rline = \<lparr>rl_cnt = 0, rl_bufptr = 0, rl_buf = replicate MAXLINE 0\<rparr>"

definition my_read_tsd :: "Rline \<times> in_stream \<Rightarrow> byte option result \<times> Rline \<times> in_stream" where
  "my_read_tsd rs = my_read rs"

definition readline_tsd ::
  "nat \<Rightarrow> nat \<Rightarrow> tsd \<times> in_stream \<Rightarrow> (byte list \<times> nat) result \<times> tsd \<times> in_stream" where
  "readline_tsd self maxlen ts = (case ts of (tsd, s) \<Rightarrow>
    (let r = (case tsd self of Some r \<Rightarrow> r | None \<Rightarrow> calloc_Rline) in
     case readline_loop my_read_tsd maxlen 1 [] (r, s) of
       (res, r', s') \<Rightarrow> (res, tsd(self \<mapsto> r'), s')))"

definition Readline_tsd ::
  "nat \<Rightarrow> nat \<Rightarrow> tsd \<times> in_stream \<Rightarrow> (byte list \<times> nat) wrapped \<times> tsd \<times> in_stream" where
  "Readline_tsd self maxlen ts =
    (case readline_tsd self maxlen ts of (r, ts') \<Rightarrow> (err_sys_on_error ''readline error'' r, ts'))"

end
