(* ===== verification/Stream_Spec.thy ===== *)
theory Stream_Spec
  imports Stream_IO
begin

text \<open>
  What the stream functions promise. The functions \<open>readn\<close> and \<open>writen\<close> hide short
  transfers and interruptions. A \<open>byte_source\<close> is the interface between \<open>readline\<close> and the
  function that gives it the next byte; every \<open>my_read\<close> of the sources implements it, and
  what \<open>readline\<close> does is proved once, over the interface.
\<close>

section \<open>\<open>readn\<close> and \<open>writen\<close>\<close>

definition hard_failures :: "in_stream \<Rightarrow> errno set" where
  "hard_failures s = {e. Fails e \<in> set (plan s) \<and> e \<noteq> EINTR}"

lemma hard_failures_mono: "hard_failures (snd (sys_read k s)) \<subseteq> hard_failures s"
  using sys_read_plan [of k s] by (auto simp: hard_failures_def)

lemma readn_loop_spec:
  assumes "readn_loop nleft buf s = (r, s')"
  shows "(r = Inr (buf @ take nleft (pending s)) \<and> pending s' = drop nleft (pending s)) \<or>
    (\<exists>e \<in> hard_failures s. r = Inl e)"
  using assms
proof (induction nleft buf s rule: readn_loop.induct)
  case (1 nleft buf s)
  show ?case
  proof (cases "nleft = 0")
    case True
    then show ?thesis using "1.prems" by (simp add: readn_loop.simps)
  next
    case False
    obtain q s1 where rd: "sys_read nleft s = (q, s1)" by fastforce
    have mono: "hard_failures s1 \<subseteq> hard_failures s"
      using hard_failures_mono [of nleft s] rd by simp
    show ?thesis
    proof (cases q)
      case (Inl e)
      then have e: "pending s1 = pending s" "plan s = Fails e # plan s1"
        using sys_read_Inl rd by auto
      show ?thesis
      proof (cases "e = EINTR")
        case True
        then have "readn_loop nleft buf s1 = (r, s')"
          using "1.prems" False rd Inl by (simp add: readn_loop.simps [of nleft buf s])
        then show ?thesis
          using "1.IH"(1) [OF False rd [symmetric] Inl True] e mono by auto
      next
        case hard: False
        then show ?thesis
          using "1.prems" False rd Inl e by (auto simp: readn_loop.simps hard_failures_def)
      qed
    next
      case (Inr bs)
      then have bs: "pending s = bs @ pending s1" "length bs \<le> nleft" "bs = [] \<longrightarrow> pending s = []"
        using sys_read_Inr [of nleft s bs s1] rd False by auto
      show ?thesis
      proof (cases "bs = []")
        case True
        then show ?thesis
          using "1.prems" False rd Inr bs by (simp add: readn_loop.simps)
      next
        case nonempty: False
        then have "readn_loop (nleft - length bs) (buf @ bs) s1 = (r, s')"
          using "1.prems" False rd Inr by (simp add: readn_loop.simps [of nleft buf s])
        then show ?thesis
          using "1.IH"(2) [OF False rd [symmetric] Inr nonempty] bs mono by auto
      qed
    qed
  qed
qed

lemma sys_write_pos:
  assumes "sys_write bs s = (k, s')"
  shows "k \<le> 0 \<Longrightarrow> bs \<noteq> [] \<Longrightarrow> written s' = written s"
    and "\<not> k \<le> 0 \<Longrightarrow> written s' = written s @ take (nat k) bs \<and> nat k \<le> length bs"
  using assms by (auto simp: sys_write_def min_def split: list.splits write_ev.splits if_splits)

text \<open>
  A schedule of writes without a hard failure: every entry takes at least one byte or is
  interrupted.
\<close>

definition smooth :: "out_stream \<Rightarrow> bool" where
  "smooth s \<longleftrightarrow> (\<forall>ev \<in> set (wplan s). ev = WFails EINTR \<or> (\<exists>m. ev = Takes (Suc m)))"

lemma smooth_step:
  assumes "smooth s" and "sys_write bs s = (k, s')" and "bs \<noteq> []"
  shows "smooth s' \<and> (0 < k \<or> k < 0 \<and> werrno s' = EINTR)"
  using assms by (auto simp: smooth_def sys_write_def split: list.splits write_ev.splits)

lemma writen_loop_spec:
  assumes "writen_loop n bs s = (r, s')"
  shows "(r = Some n \<and> written s' = written s @ bs) \<or>
    (r = None \<and> \<not> smooth s \<and> (\<exists>k. written s' = written s @ take k bs))"
  using assms
proof (induction n bs s rule: writen_loop.induct)
  case (1 n bs s)
  show ?case
  proof (cases "bs = []")
    case True
    then show ?thesis using "1.prems" by (simp add: writen_loop.simps)
  next
    case False
    obtain k s1 where wr: "sys_write bs s = (k, s1)" by fastforce
    have sm: "smooth s \<Longrightarrow> smooth s1 \<and> (0 < k \<or> k < 0 \<and> werrno s1 = EINTR)"
      using smooth_step [OF _ wr False] .
    consider (retry) "k < 0" "werrno s1 = EINTR" | (fail) "k \<le> 0" "\<not> (k < 0 \<and> werrno s1 = EINTR)"
      | (more) "0 < k" by linarith
    then show ?thesis
    proof cases
      case retry
      then have "writen_loop n bs s1 = (r, s')" and "written s1 = written s"
        using "1.prems" False wr sys_write_pos(1) [OF wr]
        by (simp_all add: writen_loop.simps [of n bs s])
      then show ?thesis using "1.IH"(1) [OF False wr [symmetric]] retry sm by auto
    next
      case fail
      then have "r = None" and "s' = s1"
        using "1.prems" False wr by (auto simp: writen_loop.simps [of n bs s])
      then show ?thesis
        using fail sm sys_write_pos(1) [OF wr fail(1) False] by (auto intro: exI [of _ 0])
    next
      case more
      then have "writen_loop n (drop (nat k) bs) s1 = (r, s')"
        using "1.prems" False wr by (simp add: writen_loop.simps [of n bs s])
      then have "(r = Some n \<and> written s' = written s1 @ drop (nat k) bs) \<or>
        (r = None \<and> \<not> smooth s1 \<and> (\<exists>j. written s' = written s1 @ take j (drop (nat k) bs)))"
        using "1.IH"(2) [OF False wr [symmetric]] more by simp
      then show ?thesis
        using sys_write_pos(2) [OF wr] more sm by (auto simp: take_add [symmetric])
    qed
  qed
qed

section \<open>Sources of bytes\<close>

text \<open>
  The interface between \<open>readline\<close> and \<open>my_read\<close>: a source holds bytes still to be given;
  the next byte is the first of them, end of file is reported when there is none, and a
  failure, which is one of a set that never grows, loses nothing.
\<close>

locale byte_source =
  fixes get :: "'s next_byte"
    and content :: "'s \<Rightarrow> byte list"
    and ok :: "'s \<Rightarrow> bool"
    and failures :: "'s \<Rightarrow> errno set"
  assumes get_byte: "\<And>s c s'. ok s \<Longrightarrow> get s = (Inr (Some c), s') \<Longrightarrow> content s = c # content s'"
    and get_eof: "\<And>s s'. ok s \<Longrightarrow> get s = (Inr None, s') \<Longrightarrow> content s = [] \<and> content s' = []"
    and get_fail: "\<And>s e s'. ok s \<Longrightarrow> get s = (Inl e, s') \<Longrightarrow> content s' = content s \<and> e \<in> failures s"
    and get_ok: "\<And>s r s'. ok s \<Longrightarrow> get s = (r, s') \<Longrightarrow> ok s' \<and> failures s' \<subseteq> failures s"

text \<open>The first line of a stream, with its newline if it has one.\<close>

definition first_line :: "byte list \<Rightarrow> byte list" where
  "first_line bs = takeWhile (\<lambda>c. c \<noteq> newline) bs @ (if newline \<in> set bs then [newline] else [])"

lemma first_line_Cons [simp]:
  "first_line (c # bs) = (if c = newline then [c] else c # first_line bs)"
  by (simp add: first_line_def)

lemma first_line_Nil [simp]: "first_line [] = []"
  by (simp add: first_line_def)

lemma first_line_append: "\<exists>rest. bs = first_line bs @ rest"
  by (induction bs) auto

definition ends_line :: "byte list \<Rightarrow> bool" where
  "ends_line b \<longleftrightarrow> b \<noteq> [] \<and> last b = newline"

lemma ends_line_snoc [simp]: "ends_line (b @ [c]) \<longleftrightarrow> c = newline"
  by (simp add: ends_line_def)

lemma ends_line_Nil [simp]: "\<not> ends_line []"
  by (simp add: ends_line_def)

context byte_source
begin

text \<open>
  The loop stores the line as far as there is room and consumes exactly what it stores. The
  value returned is the number of bytes stored, unless the buffer was full before the line
  ended: then it is one more.
\<close>

lemma readline_loop_spec:
  assumes "readline_loop get maxlen n buf s = (r, s')" and "ok s" and "n = length buf + 1"
    and "\<not> ends_line buf"
  shows "ok s' \<and>
    ((\<exists>e \<in> failures s. r = Inl e) \<or>
     (let st = take (maxlen - n) (first_line (content s)); b = buf @ st in
      content s = st @ content s' \<and>
      r = Inr (b, if length b + 1 < maxlen \<or> ends_line b then length b else length b + 1)))"
  using assms
proof (induction "maxlen - n" arbitrary: n buf s)
  case 0
  then show ?case by (auto simp: readline_loop.simps)
next
  case (Suc k)
  then have n: "n < maxlen" and k: "k = maxlen - (n + 1)" by linarith+
  obtain q s1 where g: "get s = (q, s1)" by fastforce
  have ok1: "ok s1" and mono: "failures s1 \<subseteq> failures s"
    using get_ok [OF Suc.prems(2) g] by auto
  show ?case
  proof (cases q)
    case (Inl e)
    then show ?thesis
      using Suc.prems g n ok1 get_fail [OF Suc.prems(2)] by (auto simp: readline_loop.simps)
  next
    case (Inr o1)
    show ?thesis
    proof (cases o1)
      case None
      then show ?thesis
        using Suc.prems g n ok1 Inr get_eof [OF Suc.prems(2), of s1]
        by (auto simp: readline_loop.simps)
    next
      case (Some c)
      have c: "content s = c # content s1"
        using get_byte [OF Suc.prems(2)] g Inr Some by simp
      have st: "take (maxlen - n) (c # x) = c # take (maxlen - (n + 1)) x" for x :: "byte list"
        using n by (simp add: take_Cons')
      show ?thesis
      proof (cases "c = newline")
        case True
        then show ?thesis
          using Suc.prems g n ok1 Inr Some c st by (auto simp: readline_loop.simps)
      next
        case False
        have "readline_loop get maxlen (n + 1) (buf @ [c]) s1 = (r, s')"
          using Suc.prems(1) g n Inr Some False by (simp add: readline_loop.simps [of get maxlen n])
        from Suc.hyps(1) [OF k this ok1] show ?thesis
          using Suc.prems(3) False c st mono by (auto simp: Let_def)
      qed
    qed
  qed
qed

end

text \<open>
  The loop of the IPC library differs in the value returned only: at end of file it returns
  one more than it has stored, unless it has stored nothing.
\<close>

definition ipc_count :: "nat \<Rightarrow> byte list \<Rightarrow> nat" where
  "ipc_count maxlen b = (if ends_line b then length b else if b = [] \<and> 1 < maxlen then 0 else length b + 1)"

lemma readline_loop_ipc_eq:
  assumes "n = length buf + 1" and "\<not> ends_line buf"
  shows "readline_loop_ipc get maxlen n buf s =
    (case readline_loop get maxlen n buf s of
       (Inl e, s') \<Rightarrow> (Inl e, s') | (Inr (b, k), s') \<Rightarrow> (Inr (b, ipc_count maxlen b), s'))"
  using assms
proof (induction get maxlen n buf s rule: readline_loop.induct)
  case (1 get maxlen n buf s)
  obtain q s1 where g: "get s = (q, s1)" by fastforce
  show ?case
  proof (cases "n < maxlen")
    case False
    then show ?thesis
      using "1.prems" by (auto simp: readline_loop.simps readline_loop_ipc.simps ipc_count_def)
  next
    case True
    then show ?thesis
      unfolding readline_loop.simps [of get maxlen n buf s] readline_loop_ipc.simps [of get maxlen n buf s]
      using "1.prems" "1.IH" [OF True g [symmetric]] g
      by (auto simp: ipc_count_def split: sum.split option.split)
  qed
qed

section \<open>The sources of the programs\<close>

text \<open>The bytes of a buffered source: the rest of the buffer, then the stream.\<close>

definition Rline_ok :: "'a Rline_scheme \<Rightarrow> bool" where
  "Rline_ok r \<longleftrightarrow> (0 < rl_cnt r \<longrightarrow> rl_bufptr r + nat (rl_cnt r) \<le> length (rl_buf r))"

definition buffered :: "'a Rline_scheme \<times> in_stream \<Rightarrow> byte list" where
  "buffered rs = take (nat (rl_cnt (fst rs))) (drop (rl_bufptr (fst rs)) (rl_buf (fst rs))) @ pending (snd rs)"

lemma fill_spec:
  assumes "fill r s = (q, r', s')"
  shows "hard_failures s' \<subseteq> hard_failures s \<and>
    (case q of
       Inl e \<Rightarrow> e \<in> hard_failures s \<and> pending s' = pending s \<and> rl_cnt r' = - 1
     | Inr bs \<Rightarrow> pending s = bs @ pending s' \<and> (bs = [] \<longrightarrow> pending s = []) \<and>
         rl_cnt r' = int (length bs) \<and> take (length bs) (rl_buf r') = bs \<and> length bs \<le> length (rl_buf r'))"
  using assms
proof (induction r s rule: fill.induct)
  case (1 r s)
  obtain p s1 where rd: "sys_read MAXLINE s = (p, s1)" by fastforce
  have mono: "hard_failures s1 \<subseteq> hard_failures s"
    using hard_failures_mono [of MAXLINE s] rd by simp
  show ?case
  proof (cases p)
    case (Inl e)
    have e: "pending s1 = pending s" "plan s = Fails e # plan s1"
      using sys_read_Inl rd Inl by auto
    show ?thesis
    proof (cases "e = EINTR")
      case True
      then have "fill (r\<lparr>rl_cnt := - 1\<rparr>) s1 = (q, r', s')"
        using "1.prems" rd Inl by (simp add: fill.simps [of r s])
      then show ?thesis
        using "1.IH" [OF rd [symmetric] Inl True] mono e by (auto split: sum.splits)
    next
      case False
      then show ?thesis
        using "1.prems" rd Inl mono e by (auto simp: fill.simps [of r s] hard_failures_def)
    qed
  next
    case (Inr bs)
    then show ?thesis
      using "1.prems" rd mono sys_read_Inr [of MAXLINE s bs s1]
      by (auto simp: fill.simps [of r s] MAXLINE_def)
  qed
qed

lemma buffered_take:
  assumes "0 < rl_cnt r" and "Rline_ok r" and "take_char r = (c, r')"
  shows "buffered (r, s) = c # buffered (r', s) \<and> Rline_ok r'"
proof -
  define k where "k = nat (rl_cnt r) - 1"
  have cnt: "rl_cnt r = int (Suc k)"
    using assms(1) by (simp add: k_def)
  then have len: "rl_bufptr r + Suc k \<le> length (rl_buf r)"
    using assms(2) by (simp add: Rline_ok_def)
  then have "drop (rl_bufptr r) (rl_buf r) = rl_buf r ! rl_bufptr r # drop (Suc (rl_bufptr r)) (rl_buf r)"
    by (simp add: Cons_nth_drop_Suc)
  then show ?thesis
    using assms(3) cnt len by (auto simp: take_char_def buffered_def Rline_ok_def nat_add_distrib)
qed

lemma my_read_spec:
  assumes "my_read (r, s) = (q, r', s')" and "Rline_ok r"
  shows "Rline_ok r' \<and> hard_failures s' \<subseteq> hard_failures s \<and>
    (case q of
       Inl e \<Rightarrow> buffered (r', s') = buffered (r, s) \<and> e \<in> hard_failures s
     | Inr None \<Rightarrow> buffered (r, s) = [] \<and> buffered (r', s') = []
     | Inr (Some c) \<Rightarrow> buffered (r, s) = c # buffered (r', s'))"
proof (cases "rl_cnt r \<le> 0")
  case False
  then show ?thesis
    using assms buffered_take [of r "fst (take_char r)" "snd (take_char r)" s]
    by (auto simp: my_read_def split: prod.splits)
next
  case True
  obtain p r1 s1 where f: "fill r s = (p, r1, s1)" by (metis surj_pair)
  note fs = fill_spec [OF f]
  have empty: "buffered (r, s) = pending s"
    using True by (simp add: buffered_def)
  show ?thesis
  proof (cases p)
    case (Inl e)
    then show ?thesis
      using assms(1) True f fs empty by (auto simp: my_read_def buffered_def Rline_ok_def)
  next
    case (Inr bs)
    show ?thesis
    proof (cases "bs = []")
      case nil: True
      then show ?thesis
        using assms(1) True f fs empty Inr by (auto simp: my_read_def buffered_def Rline_ok_def)
    next
      case False
      define r2 where "r2 = r1\<lparr>rl_bufptr := 0\<rparr>"
      have "0 < rl_cnt r2" "Rline_ok r2" "buffered (r2, s1) = pending s"
        using fs Inr False by (auto simp: r2_def Rline_ok_def buffered_def)
      then show ?thesis
        using assms(1) True f fs empty Inr False buffered_take [of r2 "fst (take_char r2)" "snd (take_char r2)" s1]
        by (auto simp: my_read_def r2_def [symmetric] split: prod.splits)
    qed
  qed
qed

interpretation buffered_source: byte_source my_read buffered "\<lambda>rs. Rline_ok (fst rs)" "\<lambda>rs. hard_failures (snd rs)"
proof (unfold_locales, goal_cases)
  case (1 s c s')
  then show ?case using my_read_spec [of "fst s" "snd s" "Inr (Some c)" "fst s'" "snd s'"] by simp
next
  case (2 s s')
  then show ?case using my_read_spec [of "fst s" "snd s" "Inr None" "fst s'" "snd s'"] by simp
next
  case (3 s e s')
  then show ?case using my_read_spec [of "fst s" "snd s" "Inl e" "fst s'" "snd s'"] by simp
next
  case (4 s r s')
  then show ?case using my_read_spec [of "fst s" "snd s" r "fst s'" "snd s'"] by simp
qed

text \<open>The reentrant version carries its arguments along.\<close>

lemma my_read_r_eq:
  assumes "my_read_r (r, s) = (q, r', s')"
  shows "my_read (Rline.truncate r, s) = (q, Rline.truncate r', s')"
  using assms by (auto simp: my_read_r_def Rline.defs split: prod.splits)

lemma truncate_source [simp]:
  "Rline_ok (Rline.truncate r) = Rline_ok r" "buffered (Rline.truncate r, s) = buffered (r, s)"
  by (simp_all add: Rline.defs Rline_ok_def buffered_def)

interpretation reentrant_source: byte_source my_read_r buffered "\<lambda>rs. Rline_ok (fst rs)" "\<lambda>rs. hard_failures (snd rs)"
proof (unfold_locales, goal_cases)
  case (1 s c s')
  then show ?case
    using my_read_spec [OF my_read_r_eq [of "fst s" "snd s" "Inr (Some c)" "fst s'" "snd s'"]] by simp
next
  case (2 s s')
  then show ?case
    using my_read_spec [OF my_read_r_eq [of "fst s" "snd s" "Inr None" "fst s'" "snd s'"]] by simp
next
  case (3 s e s')
  then show ?case
    using my_read_spec [OF my_read_r_eq [of "fst s" "snd s" "Inl e" "fst s'" "snd s'"]] by simp
next
  case (4 s r s')
  then show ?case
    using my_read_spec [OF my_read_r_eq [of "fst s" "snd s" r "fst s'" "snd s'"]] by simp
qed

text \<open>The unbuffered version reports interruptions as failures.\<close>

interpretation unbuffered_source: byte_source read_one pending "\<lambda>s. True" "\<lambda>s. {e. Fails e \<in> set (plan s)}"
proof (unfold_locales, goal_cases)
  case (1 s c s')
  then obtain bs where "sys_read 1 s = (Inr bs, s')" "c = hd bs" "bs \<noteq> []"
    by (auto simp: read_one_def split: prod.splits sum.splits list.splits)
  then show ?case using sys_read_Inr [of 1 s bs s'] by (cases bs) auto
next
  case (2 s s')
  then have "sys_read 1 s = (Inr [], s')"
    by (auto simp: read_one_def split: prod.splits sum.splits list.splits)
  then show ?case using sys_read_Inr [of 1 s "[]" s'] by auto
next
  case (3 s e s')
  then have "sys_read 1 s = (Inl e, s')"
    by (auto simp: read_one_def split: prod.splits sum.splits)
  then show ?case using sys_read_Inl [of 1 s e s'] by simp
next
  case (4 s r s')
  then have "s' = snd (sys_read 1 s)"
    by (auto simp: read_one_def split: prod.splits sum.splits)
  then show ?case using sys_read_plan [of 1 s] by auto
qed

end
