(* ===== verification/Stream_Props.thy ===== *)
theory Stream_Props
  imports Stream_Spec
begin

text \<open>The properties of the stream functions.\<close>

section \<open>\<open>readn\<close> and \<open>writen\<close>\<close>

text \<open>
  C36: However the kernel cuts the transfers into pieces and however often it interrupts
  them, bytes sent with \<open>writen\<close> arrive in \<open>readn\<close> complete and in order: when no write
  fails, \<open>writen\<close> appends exactly its buffer; when no read fails, \<open>readn\<close> stores the first
  \<open>n\<close> bytes of the stream (fewer only at end of file) and leaves the rest.
\<close>

theorem writen_then_readn:
  assumes "smooth out" and "hard_failures inp = {}" and "written out = []"
    and "pending inp = written (snd (writen bs out))"
  shows "fst (writen bs out) = Some (length bs) \<and>
    fst (readn n inp) = Inr (take n bs) \<and> pending (snd (readn n inp)) = drop n bs"
proof -
  have w: "fst (writen bs out) = Some (length bs) \<and> written (snd (writen bs out)) = bs"
    using writen_loop_spec [of "length bs" bs out "fst (writen bs out)" "snd (writen bs out)"] assms
    by (auto simp: writen_def)
  show ?thesis
    using readn_loop_spec [of n "[]" inp "fst (readn n inp)" "snd (readn n inp)"] assms w
    by (auto simp: readn_def)
qed

theorem writen_then_readn_witness:
  "fst (readn 3 \<lparr>pending = written (snd (writen [1, 2, 3, 4] \<lparr>written = [], wplan = [Takes 1, WFails EINTR, Takes 2], werrno = EBADF\<rparr>)),
      plan = [Chunk 0, Fails EINTR, Chunk 5]\<rparr>) = Inr [1, 2, 3]"
  using writen_then_readn [of "\<lparr>written = [], wplan = [Takes 1, WFails EINTR, Takes 2], werrno = EBADF\<rparr>"
    "\<lparr>pending = written (snd (writen [1, 2, 3, 4] \<lparr>written = [], wplan = [Takes 1, WFails EINTR, Takes 2], werrno = EBADF\<rparr>)),
      plan = [Chunk 0, Fails EINTR, Chunk 5]\<rparr>" "[1, 2, 3, 4]" 3]
  by (simp add: smooth_def hard_failures_def Let_def)

text \<open>
  \<open>writen\<close> and \<open>readn\<close> report every failure: when \<open>writen\<close> does not return its count, a
  write has failed or taken nothing, and what was sent is a prefix of the buffer; when
  \<open>readn\<close> returns \<open>-1\<close>, a read has failed with that error.
\<close>

theorem stream_failures_reported:
  "(fst (writen bs out) = Some (length bs) \<and> written (snd (writen bs out)) = written out @ bs \<or>
    fst (writen bs out) = None \<and> \<not> smooth out \<and> (\<exists>k. written (snd (writen bs out)) = written out @ take k bs)) \<and>
   (fst (readn n inp) = Inr (take n (pending inp)) \<and> pending (snd (readn n inp)) = drop n (pending inp) \<or>
    (\<exists>e. e \<in> hard_failures inp \<and> fst (readn n inp) = Inl e))"
  using writen_loop_spec [of "length bs" bs out "fst (writen bs out)" "snd (writen bs out)"]
    readn_loop_spec [of n "[]" inp "fst (readn n inp)" "snd (readn n inp)"]
  by (simp add: writen_def readn_def Bex_def)

text \<open>
  The version of the socket program has the \<open>-1\<close> of a failed write in an unsigned
  variable: it goes back one byte and writes one more, from in front of the buffer when the
  first write fails, and twice the same byte otherwise.
\<close>

lemma writen_sock_runs_backwards:
  "bs \<noteq> [] \<Longrightarrow> fst (writen_sock bs \<lparr>written = [], wplan = [WFails e], werrno = e0\<rparr>) = Outside"
  "writen_sock [7, 8] \<lparr>written = [], wplan = [Takes 1, WFails EINTR], werrno = e0\<rparr> =
    (Inside 2, \<lparr>written = [7, 7, 8], wplan = [], werrno = EINTR\<rparr>)"
  by (simp_all add: writen_sock_def writen_sock_loop.simps sys_write_def)

section \<open>\<open>readline\<close>\<close>

text \<open>
  C37: \<open>readline\<close> refines reading lines from an abstract stream, the bytes left in its static
  buffer followed by those of the descriptor: it stores the next line, newline included, as
  far as it fits into \<open>maxlen - 1\<close> bytes, and consumes exactly what it stores. The value
  returned is the number of bytes stored, except when the buffer was full before the line
  ended: then the function returns one more than it has stored.
\<close>

theorem readline_refines:
  assumes "readline maxlen (r, s) = (Inr (b, k), r', s')" and "Rline_ok r"
  shows "Rline_ok r' \<and> b = take (maxlen - 1) (first_line (buffered (r, s))) \<and>
    buffered (r, s) = b @ buffered (r', s') \<and>
    k = (if length b + 1 < maxlen \<or> ends_line b then length b else length b + 1)"
  using buffered_source.readline_loop_spec [of maxlen 1 "[]" "(r, s)" "Inr (b, k)" "(r', s')"] assms
  by (simp add: readline_def Let_def)

theorem readline_refines_witness:
  "\<exists>b k r' s'. readline 10 (calloc_Rline, \<lparr>pending = [65, 66, 10, 67], plan = [Chunk 0, Fails EINTR]\<rparr>) = (Inr (b, k), r', s') \<and>
    b = [65, 66, 10] \<and> k = 3"
proof -
  define rs where "rs = (calloc_Rline, \<lparr>pending = [65, 66, 10, 67], plan = [Chunk 0, Fails EINTR]\<rparr>)"
  have ok: "Rline_ok calloc_Rline" by (simp add: Rline_ok_def calloc_Rline_def)
  obtain q r' s' where rd: "readline 10 rs = (q, r', s')" by (metis surj_pair)
  have "\<exists>b k. q = Inr (b, k)"
    using buffered_source.readline_loop_spec [of 10 1 "[]" rs q "(r', s')"] rd ok
    by (auto simp: readline_def rs_def hard_failures_def Let_def)
  then obtain b k where q: "q = Inr (b, k)" by blast
  have "buffered rs = [65, 66, 10, 67]"
    by (simp add: rs_def buffered_def calloc_Rline_def)
  then have "b = [65, 66, 10] \<and> k = 3"
    using readline_refines [of 10 calloc_Rline "snd rs" b k r' s'] rd q ok
    by (simp add: rs_def newline_def ends_line_def)
  then show ?thesis using rd q by (auto simp: rs_def)
qed

text \<open>
  The versions of the IPC library and of the server chapter (\<open>lib/readline.c\<close> of
  unpv22e, \<open>readline_r\<close>) read the same lines, but at end of file after an unfinished line
  they return one more than the number of bytes stored.
\<close>

theorem readline_ipc_miscounts:
  "readline_ipc maxlen rs =
    (case readline maxlen rs of
       (Inl e, rs') \<Rightarrow> (Inl e, rs')
     | (Inr (b, k), rs') \<Rightarrow>
         (Inr (b, if ends_line b then length b else if b = [] \<and> 1 < maxlen then 0 else length b + 1), rs'))"
  using readline_loop_ipc_eq [of 1 "[]" my_read_ipc maxlen rs]
  unfolding readline_ipc_def readline_def ipc_count_def my_read_ipc_def [abs_def] by simp

text \<open>
  In the version for threads the threads do not disturb each other's buffers: a call by
  one thread leaves the buffer of every other thread alone, and the thread itself sees what
  the single-threaded function would do with its own buffer, made empty at the first call.
\<close>

theorem readline_tsd_isolated:
  assumes "readline_tsd self maxlen (tsd, s) = (res, tsd', s')"
  shows "readline maxlen (case tsd self of Some r \<Rightarrow> r | None \<Rightarrow> calloc_Rline, s) =
      (res, the (tsd' self), s') \<and> (\<forall>t. t \<noteq> self \<longrightarrow> tsd' t = tsd t)"
  using assms
  by (auto simp: readline_tsd_def readline_def my_read_tsd_def [abs_def] Let_def split: prod.splits)

theorem readline_tsd_isolated_witness:
  "\<exists>res tsd' s'. readline_tsd 1 0 (\<lambda>t. None, \<lparr>pending = [], plan = []\<rparr>) = (res, tsd', s') \<and> tsd' 2 = None"
proof -
  obtain res tsd' s' where "readline_tsd 1 0 (\<lambda>t. None, \<lparr>pending = [], plan = []\<rparr>) = (res, tsd', s')"
    by (metis surj_pair)
  with readline_tsd_isolated [OF this] show ?thesis by auto
qed

text \<open>
  The reentrant version, and the one that reads byte by byte, meet the same contract.
\<close>

lemma readline_r_refines:
  assumes "readline_r (r, s) = (Inr (b, k), r', s')" and "Rline_ok r"
  shows "b = take (read_maxlen r - 1) (first_line (buffered (r, s))) \<and>
    buffered (r, s) = b @ buffered (r', s') \<and> k = ipc_count (read_maxlen r) b"
  using reentrant_source.readline_loop_spec [of "read_maxlen r" 1 "[]" "(r, s)" _ "(r', s')"] assms
    readline_loop_ipc_eq [of 1 "[]" my_read_r "read_maxlen r" "(r, s)"]
  by (auto simp: readline_r_def Let_def split: prod.splits sum.splits)

lemma readline_slow_refines:
  assumes "readline_slow maxlen s = (Inr (b, k), s')"
  shows "b = take (maxlen - 1) (first_line (pending s)) \<and> pending s = b @ pending s' \<and>
    k = ipc_count maxlen b"
  using unbuffered_source.readline_loop_spec [of maxlen 1 "[]" s _ s'] assms
    readline_loop_ipc_eq [of 1 "[]" read_one maxlen s]
  by (auto simp: readline_slow_def Let_def split: prod.splits sum.splits)

end
