(* ===== verification/Sockaddr.thy ===== *)
theory Sockaddr
  imports Inet6_Round
begin

text \<open>
  Socket addresses and the protocol-independent functions on them: \<open>sock_ntop\<close>,
  \<open>sock_ntop_host\<close>, \<open>sock_cmp_addr\<close>, \<open>sock_cmp_port\<close>, \<open>sock_get_port\<close>, \<open>sock_set_addr\<close>,
  \<open>sock_set_port\<close>, \<open>sock_set_wild\<close>, \<open>sock_bind_wild\<close>, \<open>family_to_level\<close> and
  \<open>sockfd_to_family\<close> of the network library, as \<open>config.h\<close> configures them (IPv4, IPv6 and
  Unix domain; no data-link addresses).

  A socket address is the structure that its family selects; ports are kept in network byte
  order, as in the structures, and the byte order of the host is a parameter. The text in
  \<open>sun_path\<close> is the string in front of its first null character.
\<close>

type_synonym port = "16 word"

datatype sockaddr =
    Sockaddr_in port "octet list"
  | Sockaddr_in6 port "octet list"
  | Sockaddr_un string
  | Sockaddr_other int

definition AF_UNSPEC :: int where "AF_UNSPEC = 0"
definition AF_UNIX :: int where "AF_UNIX = 1"
abbreviation AF_LOCAL :: int where "AF_LOCAL \<equiv> AF_UNIX"

lemmas AF_defs = AF_INET_def AF_INET6_def AF_UNSPEC_def AF_UNIX_def

primrec sa_family :: "sockaddr \<Rightarrow> int" where
  "sa_family (Sockaddr_in p a) = AF_INET"
| "sa_family (Sockaddr_in6 p a) = AF_INET6"
| "sa_family (Sockaddr_un s) = AF_UNIX"
| "sa_family (Sockaddr_other f) = f"

text \<open>
  Well-formed addresses: the sizes of the arrays, and a family of its own for the rest.
\<close>

primrec sockaddr_ok :: "sockaddr \<Rightarrow> bool" where
  "sockaddr_ok (Sockaddr_in p a) \<longleftrightarrow> length a = 4"
| "sockaddr_ok (Sockaddr_in6 p a) \<longleftrightarrow> length a = 16"
| "sockaddr_ok (Sockaddr_un s) \<longleftrightarrow> length s \<le> 108"
| "sockaddr_ok (Sockaddr_other f) \<longleftrightarrow> f \<notin> {AF_INET, AF_INET6, AF_UNIX}"

definition swap16 :: "16 word \<Rightarrow> 16 word" where
  "swap16 p = push_bit 8 p OR drop_bit 8 p"

definition ntohs :: "bool \<Rightarrow> 16 word \<Rightarrow> nat" where
  "ntohs be p = unat (if be then p else swap16 p)"

definition htons :: "bool \<Rightarrow> int \<Rightarrow> 16 word" where
  "htons be n = (if be then of_int n else swap16 (of_int n))"

lemma swap16_swap16 [simp]: "swap16 (swap16 p) = p"
proof (rule bit_word_eqI)
  fix n
  assume "n < LENGTH(16)"
  then show "bit (swap16 (swap16 p)) n = bit p n"
    using bit_imp_le_length [of p "8 + n"] bit_imp_le_length [of p "16 + n"]
    by (cases "n < 8") (auto simp: swap16_def bit_simps)
qed

lemma swap16_eq [simp]: "swap16 p = swap16 q \<longleftrightarrow> p = q"
proof
  assume "swap16 p = swap16 q"
  then have "swap16 (swap16 p) = swap16 (swap16 q)" by (simp only:)
  then show "p = q" by simp
qed simp

lemma ntohs_inj: "ntohs be p = ntohs be q \<longleftrightarrow> p = q"
  by (simp add: ntohs_def unsigned_word_eqI word_unat_eq_iff [symmetric])

lemma ntohs_htons: "0 \<le> n \<Longrightarrow> n < 65536 \<Longrightarrow> ntohs be (htons be n) = nat n"
  by (simp add: ntohs_def htons_def unsigned_of_int take_bit_int_eq_self)

section \<open>Text\<close>

text \<open>
  The buffer \<open>str\<close> has 128 characters; \<open>snprintf\<close> stores at most 127 of them and the null
  character. \<open>fmt_d\<close> is \<open>%d\<close>.
\<close>

definition fmt_d :: "int \<Rightarrow> string" where
  "fmt_d n = (if n < 0 then CHR ''-'' # fmt_u (nat (- n)) else fmt_u (nat n))"

definition snprintf :: "nat \<Rightarrow> string \<Rightarrow> string" where
  "snprintf sz s = take (sz - 1) s"

text \<open>\<open>Accepts\<close> is a normal return, as for \<open>inet_ntop\<close>; \<open>Inl\<close> is NULL with errno set.\<close>

definition map_text :: "(string \<Rightarrow> string) \<Rightarrow> string result parse \<Rightarrow> string result parse" where
  "map_text f r = bind_parse r (\<lambda>r. Accepts (case r of Inl e \<Rightarrow> Inl e | Inr s \<Rightarrow> Inr (f s)))"

primrec sock_ntop :: "bool \<Rightarrow> sockaddr \<Rightarrow> nat \<Rightarrow> string result parse" where
  "sock_ntop be (Sockaddr_in p a) salen =
    map_text (\<lambda>str. if ntohs be p \<noteq> 0 then str @ snprintf 8 ('':'' @ fmt_u (ntohs be p)) else str)
      (inet_ntop AF_INET a 128)"
| "sock_ntop be (Sockaddr_in6 p a) salen =
    map_text (\<lambda>str. if ntohs be p \<noteq> 0 then ''['' @ str @ snprintf 8 ('']:'' @ fmt_u (ntohs be p)) else str)
      (inet_ntop AF_INET6 a 127)"
| "sock_ntop be (Sockaddr_un path) salen =
    Accepts (Inr (if path = [] then ''(no pathname bound)'' else snprintf 128 path))"
| "sock_ntop be (Sockaddr_other f) salen =
    Accepts (Inr (snprintf 128 (''sock_ntop: unknown AF_xxx: '' @ fmt_d f @ '', len '' @ fmt_u salen)))"

text \<open>NULL makes the wrapper call \<open>err_sys\<close>.\<close>

definition Sock_ntop :: "bool \<Rightarrow> sockaddr \<Rightarrow> nat \<Rightarrow> string wrapped parse" where
  "Sock_ntop be sa salen =
    bind_parse (sock_ntop be sa salen) (\<lambda>r. Accepts (err_sys_on_error ''sock_ntop error'' r))"

primrec sock_ntop_host :: "sockaddr \<Rightarrow> nat \<Rightarrow> string result parse" where
  "sock_ntop_host (Sockaddr_in p a) salen = inet_ntop AF_INET a 128"
| "sock_ntop_host (Sockaddr_in6 p a) salen = inet_ntop AF_INET6 a 128"
| "sock_ntop_host (Sockaddr_un path) salen =
    Accepts (Inr (if path = [] then ''(no pathname bound)'' else snprintf 128 path))"
| "sock_ntop_host (Sockaddr_other f) salen =
    Accepts (Inr (snprintf 128 (''sock_ntop_host: unknown AF_xxx: '' @ fmt_d f @ '', len '' @ fmt_u salen)))"

definition Sock_ntop_host :: "sockaddr \<Rightarrow> nat \<Rightarrow> string wrapped parse" where
  "Sock_ntop_host sa salen =
    bind_parse (sock_ntop_host sa salen) (\<lambda>r. Accepts (err_sys_on_error ''sock_ntop_host error'' r))"

section \<open>Comparing\<close>

text \<open>
  \<open>memcmp\<close> and \<open>strcmp\<close> compare as unsigned bytes; of their result the C library promises the
  sign.
\<close>

fun memcmp :: "octet list \<Rightarrow> octet list \<Rightarrow> int" where
  "memcmp (a # as) (b # bs) = (if a = b then memcmp as bs else if a < b then - 1 else 1)"
| "memcmp _ _ = 0"

fun strcmp :: "string \<Rightarrow> string \<Rightarrow> int" where
  "strcmp [] [] = 0"
| "strcmp [] (b # bs) = - 1"
| "strcmp (a # as) [] = 1"
| "strcmp (a # as) (b # bs) =
    (if a = b then strcmp as bs else if (of_char a :: nat) < of_char b then - 1 else 1)"

fun sock_cmp_addr :: "sockaddr \<Rightarrow> sockaddr \<Rightarrow> int" where
  "sock_cmp_addr (Sockaddr_in p a) (Sockaddr_in q b) = memcmp a b"
| "sock_cmp_addr (Sockaddr_in6 p a) (Sockaddr_in6 q b) = memcmp a b"
| "sock_cmp_addr (Sockaddr_un s) (Sockaddr_un t) = strcmp s t"
| "sock_cmp_addr _ _ = - 1"

fun sock_cmp_port :: "sockaddr \<Rightarrow> sockaddr \<Rightarrow> int" where
  "sock_cmp_port (Sockaddr_in p a) (Sockaddr_in q b) = (if p = q then 1 else 0)"
| "sock_cmp_port (Sockaddr_in6 p a) (Sockaddr_in6 q b) = (if p = q then 1 else 0)"
| "sock_cmp_port _ _ = - 1"

section \<open>Ports and addresses\<close>

text \<open>The value of \<open>sin_port\<close> as an \<open>int\<close>, still in network byte order; \<open>-1\<close> for other families.\<close>

primrec sock_get_port :: "sockaddr \<Rightarrow> int" where
  "sock_get_port (Sockaddr_in p a) = uint p"
| "sock_get_port (Sockaddr_in6 p a) = uint p"
| "sock_get_port (Sockaddr_un s) = - 1"
| "sock_get_port (Sockaddr_other f) = - 1"

text \<open>The assignment truncates the \<open>int\<close> to 16 bits.\<close>

primrec sock_set_port :: "sockaddr \<Rightarrow> int \<Rightarrow> sockaddr" where
  "sock_set_port (Sockaddr_in p a) n = Sockaddr_in (of_int n) a"
| "sock_set_port (Sockaddr_in6 p a) n = Sockaddr_in6 (of_int n) a"
| "sock_set_port (Sockaddr_un s) n = Sockaddr_un s"
| "sock_set_port (Sockaddr_other f) n = Sockaddr_other f"

text \<open>The octets at \<open>addr\<close>, of which the family takes 4 or 16.\<close>

primrec sock_set_addr :: "sockaddr \<Rightarrow> octet list \<Rightarrow> sockaddr" where
  "sock_set_addr (Sockaddr_in p a) addr = Sockaddr_in p (take 4 addr)"
| "sock_set_addr (Sockaddr_in6 p a) addr = Sockaddr_in6 p (take 16 addr)"
| "sock_set_addr (Sockaddr_un s) addr = Sockaddr_un s"
| "sock_set_addr (Sockaddr_other f) addr = Sockaddr_other f"

definition INADDR_ANY :: "octet list" where "INADDR_ANY = [0, 0, 0, 0]"
definition in6addr_any :: "octet list" where "in6addr_any = replicate 16 0"

definition sock_set_wild :: "sockaddr \<Rightarrow> sockaddr" where
  "sock_set_wild sa =
    (if sa_family sa = AF_INET then sock_set_addr sa INADDR_ANY
     else if sa_family sa = AF_INET6 then sock_set_addr sa in6addr_any
     else sa)"

text \<open>
  The kernel's part of \<open>sock_bind_wild\<close> is a parameter: whether \<open>bind\<close> of an address succeeds,
  and the address that \<open>getsockname\<close> then reports.
\<close>

definition sock_bind_wild ::
  "(sockaddr \<Rightarrow> unit result) \<Rightarrow> sockaddr result \<Rightarrow> int \<Rightarrow> int" where
  "sock_bind_wild bind getsockname family =
    (if family = AF_INET \<or> family = AF_INET6 then
       (case bind (if family = AF_INET then Sockaddr_in 0 INADDR_ANY else Sockaddr_in6 0 in6addr_any) of
          Inl e \<Rightarrow> - 1
        | Inr _ \<Rightarrow> (case getsockname of Inl e \<Rightarrow> - 1 | Inr sa \<Rightarrow> sock_get_port sa))
     else - 1)"

definition IPPROTO_IP :: int where "IPPROTO_IP = 0"
definition IPPROTO_IPV6 :: int where "IPPROTO_IPV6 = 41"

definition family_to_level :: "int \<Rightarrow> int" where
  "family_to_level family =
    (if family = AF_INET then IPPROTO_IP else if family = AF_INET6 then IPPROTO_IPV6 else - 1)"

definition sockfd_to_family :: "sockaddr result \<Rightarrow> int" where
  "sockfd_to_family getsockname = (case getsockname of Inl e \<Rightarrow> - 1 | Inr sa \<Rightarrow> sa_family sa)"

end
