(* ===== verification/Sockaddr_Props.thy ===== *)
theory Sockaddr_Props
  imports Sockaddr
begin

text \<open>The properties of the functions on socket addresses.\<close>

section \<open>The characters of an address\<close>

lemma set_print_base: "1 < b \<Longrightarrow> b \<le> 16 \<Longrightarrow> set (print_base b n) \<subseteq> set xdigits_l"
proof (induction b n rule: print_base.induct)
  case (1 b n)
  have nth: "m < b \<Longrightarrow> xdigits_l ! m \<in> set xdigits_l" for m
    using 1(3) length_xdigits by simp
  show ?case
  proof (cases "n < b")
    case True
    then show ?thesis by (subst print_base.simps) (simp add: nth)
  next
    case False
    then show ?thesis using 1 nth [of "n mod b"] by (subst print_base.simps) simp
  qed
qed

definition addr_chars :: "char set" where
  "addr_chars = set xdigits_l \<union> {CHR ''.'', CHR '':''}"

lemma bracket_not_addr [simp]: "CHR ''['' \<notin> addr_chars" "CHR '']'' \<notin> addr_chars"
  by (simp_all add: addr_chars_def xdigits_l_def)

lemma set_dotted_quad: "set (dotted_quad a) \<subseteq> set xdigits_l \<union> {CHR ''.''}"
  using set_print_base [of 10] by (auto simp: dotted_quad_def)

lemma colon_not_dotted: "CHR '':'' \<notin> set (dotted_quad a)"
  using set_dotted_quad [of a] by (auto simp: xdigits_l_def)

lemma set_text6: "set (text6 src words best is) \<subseteq> addr_chars"
proof (induction "is")
  case (Cons i "is")
  then show ?case
    using set_print_base [of 16] set_dotted_quad [of "drop 12 src"]
    by (auto simp: addr_chars_def)
qed simp

lemma set_full_text6: "set (full_text6 src) \<subseteq> addr_chars"
  using set_text6 [of src] by (auto simp: full_text6_def addr_chars_def Let_def split: option.splits if_splits)

section \<open>The text of a socket address\<close>

definition port_suffix :: "string \<Rightarrow> nat \<Rightarrow> string" where
  "port_suffix sep n = (if n \<noteq> 0 then sep @ fmt_u n else [])"

lemma ntohs_less: "ntohs be p < 65536"
  using unsigned_less [of "if be then p else swap16 p", where ?'a = nat] by (simp add: ntohs_def)

lemma length_fmt_u_port: "length (fmt_u (ntohs be p)) \<le> 5"
  using length_print_base [of 10 "ntohs be p" 4] ntohs_less [of be p] by simp

lemma sock_ntop_in:
  assumes "length a = 4"
  shows "sock_ntop be (Sockaddr_in p a) n = Accepts (Inr (dotted_quad a @ port_suffix '':'' (ntohs be p)))"
  using length_dotted_quad [of a] length_fmt_u_port [of be p]
  by (simp add: map_text_def bind_parse_def inet_ntop_def inet_ntop4_def snprintf_def port_suffix_def)

lemma sock_ntop_in6:
  assumes "length a = 16"
  shows "sock_ntop be (Sockaddr_in6 p a) n =
    Accepts (Inr (if ntohs be p \<noteq> 0 then ''['' @ full_text6 a @ port_suffix '']:'' (ntohs be p) else full_text6 a))"
  using ntop6_text_eq [OF assms] length_fmt_u_port [of be p]
  by (simp add: map_text_def bind_parse_def inet_ntop_def inet_ntop6_eq [OF assms] AF_defs
      stored_chars_def snprintf_def port_suffix_def)

lemma fmt_u_inj: "fmt_u m = fmt_u n \<longleftrightarrow> m = n"
  using fmt_u_dec [of m] fmt_u_dec [of n] by metis

lemma port_suffix_inj:
  assumes "sep \<noteq> []"
  shows "port_suffix sep m = port_suffix sep n \<longleftrightarrow> m = n"
  using assms by (auto simp: port_suffix_def fmt_u_inj)

lemma append_delimited:
  assumes "s @ port_suffix (c # sep) m = t @ port_suffix (c # sep) n" and "c \<notin> set s" and "c \<notin> set t"
  shows "s = t \<and> port_suffix (c # sep) m = port_suffix (c # sep) n"
proof -
  have tw: "takeWhile (\<lambda>x. x \<noteq> c) (u @ port_suffix (c # sep) k) = u" if "c \<notin> set u" for u k
  proof -
    have u: "\<forall>x \<in> set u. x \<noteq> c" using that by blast
    then show ?thesis by (simp add: takeWhile_append2 port_suffix_def)
  qed
  have "s = t" using tw [OF assms(2), of m] tw [OF assms(3), of n] assms(1) by simp
  with assms(1) show ?thesis by simp
qed

lemma dotted_quad_inj: "length a = 4 \<Longrightarrow> length b = 4 \<Longrightarrow> dotted_quad a = dotted_quad b \<Longrightarrow> a = b"
  using inet_pton4_dotted_quad by (metis parse.inject)

lemma full_text6_inj: "length a = 16 \<Longrightarrow> length b = 16 \<Longrightarrow> full_text6 a = full_text6 b \<Longrightarrow> a = b"
  using inet_pton6_full_text6 by (metis parse.inject)

section \<open>IPv4 and IPv6 texts differ\<close>

lemma quad_text_no_colon: "quad_text s bs \<Longrightarrow> CHR '':'' \<notin> set s"
proof -
  have dec: "is_dec t \<Longrightarrow> CHR '':'' \<notin> set t" for t
  proof (induction t)
    case (Cons c t)
    moreover have "strchr digits CHR '':'' = None" by code_simp
    ultimately show ?case by auto
  qed simp
  then show "quad_text s bs \<Longrightarrow> CHR '':'' \<notin> set s"
    by (auto simp: quad_text_def octet_text_def)
qed

lemma inet_pton4_colon: "CHR '':'' \<in> set s \<Longrightarrow> inet_pton4 s = Rejects"
  using quad_text_no_colon [of s] inet_pton4_on_iff [of "[]" s] inet_pton4_in_bounds [of s]
  by (cases "inet_pton4 s") (auto simp: inet_pton4_def)

lemma take1_dotted_quad: "take 1 (dotted_quad a @ t) \<noteq> '':''"
proof -
  have "dotted_quad a \<noteq> []" by (simp add: dotted_quad_def)
  then obtain c cs where "dotted_quad a = c # cs" by (cases "dotted_quad a") auto
  then show ?thesis using colon_not_dotted [of a] by auto
qed

lemma inet_pton6_dotted_quad:
  assumes "length a = 4" and "t = [] \<or> CHR '':'' \<in> set t"
  shows "inet_pton6 (dotted_quad a @ t) = Rejects"
proof -
  define s where "s = dotted_quad a @ t"
  define rest where "rest = fmt_u (unat (a ! 1)) @ ''.'' @ fmt_u (unat (a ! 2)) @ ''.'' @ fmt_u (unat (a ! 3)) @ t"
  have s: "s = fmt_u (unat (a ! 0)) @ (CHR ''.'' # rest)"
    by (simp add: s_def rest_def dotted_quad_def)
  obtain x where "pton6_loop s (pton6_start s) = pton6_loop (CHR ''.'' # rest)
      \<lparr>tmp6 = replicate 16 0, tp6 = 0, colonp = None, curtok = s, saw_xdigit = True, val = x\<rparr>"
    using pton6_octet [of "a ! 0" "CHR ''.'' # rest" "replicate 16 0" 0 None s]
    unfolding s [symmetric] pton6_start_def by blast
  moreover have "inet_pton4 s = (if t = [] then Accepts a else Rejects)"
    using assms inet_pton4_dotted_quad [OF assms(1)] inet_pton4_colon [of s] by (auto simp: s_def)
  ultimately have "pton6_loop s (pton6_start s) = Rejects"
    using assms(1) by (simp add: pton6_finish_end)
  then show ?thesis
    using take1_dotted_quad [of a t] by (simp add: inet_pton6_def s_def)
qed

lemma dotted_quad_not_text6:
  assumes "length a = 4" and "length b = 16"
  shows "dotted_quad a @ port_suffix '':'' n \<noteq> full_text6 b"
proof
  assume eq: "dotted_quad a @ port_suffix '':'' n = full_text6 b"
  have "inet_pton6 (dotted_quad a @ port_suffix '':'' n) = Rejects"
    by (rule inet_pton6_dotted_quad [OF assms(1)]) (simp add: port_suffix_def)
  then show False
    using eq inet_pton6_full_text6 [OF assms(2)] by simp
qed

section \<open>Telling endpoints apart\<close>

lemma sock_ntop_in_inj:
  assumes "sock_ntop be (Sockaddr_in p a) m = sock_ntop be (Sockaddr_in q b) n"
    and l: "length a = 4" "length b = 4"
  shows "p = q \<and> a = b"
proof -
  have "dotted_quad a @ port_suffix '':'' (ntohs be p) = dotted_quad b @ port_suffix '':'' (ntohs be q)"
    using assms by (simp only: sock_ntop_in parse.inject sum.inject)
  from append_delimited [OF this] have "dotted_quad a = dotted_quad b"
    and "port_suffix '':'' (ntohs be p) = port_suffix '':'' (ntohs be q)"
    using colon_not_dotted by auto
  then show ?thesis
    using dotted_quad_inj [OF l] port_suffix_inj [of "'':''"] ntohs_inj by simp
qed

lemma sock_ntop_in6_inj:
  assumes "sock_ntop be (Sockaddr_in6 p a) m = sock_ntop be (Sockaddr_in6 q b) n"
    and l: "length a = 16" "length b = 16"
  shows "p = q \<and> a = b"
proof -
  have chars: "CHR ''['' \<notin> set (full_text6 x)" "CHR '']'' \<notin> set (full_text6 x)" for x
    using set_full_text6 [of x] bracket_not_addr by blast+
  have eq: "(if ntohs be p \<noteq> 0 then ''['' @ full_text6 a @ port_suffix '']:'' (ntohs be p) else full_text6 a) =
    (if ntohs be q \<noteq> 0 then ''['' @ full_text6 b @ port_suffix '']:'' (ntohs be q) else full_text6 b)"
    using assms by (simp only: sock_ntop_in6 parse.inject sum.inject)
  have "ntohs be p = 0 \<longleftrightarrow> ntohs be q = 0"
    using arg_cong [OF eq, of set] chars [of a] chars [of b] by (auto split: if_splits)
  then show ?thesis
  proof (cases "ntohs be p = 0")
    case True
    then show ?thesis
      using eq \<open>ntohs be p = 0 \<longleftrightarrow> ntohs be q = 0\<close> full_text6_inj [OF l] ntohs_inj [of be p q] by simp
  next
    case False
    then have "full_text6 a @ port_suffix '']:'' (ntohs be p) = full_text6 b @ port_suffix '']:'' (ntohs be q)"
      using eq \<open>ntohs be p = 0 \<longleftrightarrow> ntohs be q = 0\<close> by simp
    from append_delimited [OF this chars(2) chars(2)] show ?thesis
      using full_text6_inj [OF l] port_suffix_inj [of "'']:''"] ntohs_inj by simp
  qed
qed

lemma sock_ntop_in_not_in6:
  assumes l: "length a = 4" "length b = 16"
  shows "sock_ntop be (Sockaddr_in p a) m \<noteq> sock_ntop be (Sockaddr_in6 q b) n"
proof
  assume "sock_ntop be (Sockaddr_in p a) m = sock_ntop be (Sockaddr_in6 q b) n"
  then have eq: "dotted_quad a @ port_suffix '':'' (ntohs be p) =
    (if ntohs be q \<noteq> 0 then ''['' @ full_text6 b @ port_suffix '']:'' (ntohs be q) else full_text6 b)"
    using l by (simp only: sock_ntop_in sock_ntop_in6 parse.inject sum.inject)
  have "CHR ''['' \<notin> set (dotted_quad a @ port_suffix '':'' (ntohs be p))"
    using set_dotted_quad [of a] set_print_base [of 10 "ntohs be p"] bracket_not_addr(1)
    by (auto simp: port_suffix_def addr_chars_def)
  then have "ntohs be q = 0"
    unfolding eq by (simp split: if_splits)
  then show False
    using eq dotted_quad_not_text6 [OF l] by simp
qed

section \<open>Properties\<close>

text \<open>
  \<open>sock_ntop\<close> gives different texts for different IPv4 and IPv6 endpoints: from its
  text the family, the address and the port can be told, on hosts of either byte order.
\<close>

theorem sock_ntop_injective:
  assumes "sockaddr_ok sa" and "sockaddr_ok sb"
    and "sa_family sa \<in> {AF_INET, AF_INET6}" and "sa_family sb \<in> {AF_INET, AF_INET6}"
    and "sock_ntop be sa m = sock_ntop be sb n"
  shows "sa = sb"
proof -
  note cases = sock_ntop_in_inj sock_ntop_in6_inj sock_ntop_in_not_in6 sock_ntop_in_not_in6 [THEN not_sym]
  show ?thesis
    using assms cases
    by (cases sa; cases sb) (auto simp: AF_defs simp del: sock_ntop.simps)
qed

theorem sock_ntop_injective_witness:
  "sock_ntop False (Sockaddr_in 1 [127, 0, 0, 1]) 16 \<noteq> sock_ntop False (Sockaddr_in6 1 (replicate 16 0)) 28"
  using sock_ntop_injective [of "Sockaddr_in 1 [127, 0, 0, 1]" "Sockaddr_in6 1 (replicate 16 0)" False 16 28]
  by (auto simp: AF_defs simp del: sock_ntop.simps)

text \<open>What \<open>sock_ntop_host\<close> prints is read back by \<open>inet_pton\<close>.\<close>

lemma host_text_in:
  assumes "length a = 4"
  shows "\<exists>s. sock_ntop_host (Sockaddr_in p a) n = Accepts (Inr s) \<and> inet_pton AF_INET s = Inr (Accepts a)"
  using inet_pton4_dotted_quad [OF assms] length_dotted_quad [of a]
  by (simp add: inet_ntop_def inet_pton_def inet_ntop4_def)

lemma host_text_in6:
  assumes "length a = 16"
  shows "\<exists>s. sock_ntop_host (Sockaddr_in6 p a) n = Accepts (Inr s) \<and> inet_pton AF_INET6 s = Inr (Accepts a)"
  using inet_pton6_full_text6 [OF assms] inet_ntop6_eq [OF assms, of 128] ntop6_text_eq [OF assms]
  by (simp add: inet_ntop_def inet_pton_def AF_INET_def AF_INET6_def stored_chars_def)

text \<open>
  C38: The operations that change an IPv4 or IPv6 socket address keep it well formed and change
  only their part. After \<open>sock_set_addr\<close> the text of \<open>sock_ntop_host\<close> is one that \<open>inet_pton\<close> reads as the
  octets that were set, after \<open>sock_set_wild\<close> as the unspecified address, and both keep the port;
  \<open>sock_get_port\<close> reads back what \<open>sock_set_port\<close> has stored, modulo \<open>2 ^ 16\<close>, and the address stays.
\<close>

theorem sock_set_well_formed:
  assumes "sockaddr_ok sa" and "length addr = 16" and "sa_family sa \<in> {AF_INET, AF_INET6}"
  shows "sockaddr_ok (sock_set_port sa n) \<and> sockaddr_ok (sock_set_addr sa addr) \<and> sockaddr_ok (sock_set_wild sa) \<and>
    sa_family (sock_set_port sa n) = sa_family sa \<and> sa_family (sock_set_addr sa addr) = sa_family sa \<and>
    sa_family (sock_set_wild sa) = sa_family sa \<and>
    (\<exists>s. sock_ntop_host (sock_set_addr sa addr) len = Accepts (Inr s) \<and>
      inet_pton (sa_family sa) s = Inr (Accepts (take (if sa_family sa = AF_INET then 4 else 16) addr))) \<and>
    (\<exists>s. sock_ntop_host (sock_set_wild sa) len = Accepts (Inr s) \<and>
      inet_pton (sa_family sa) s = Inr (Accepts (replicate (if sa_family sa = AF_INET then 4 else 16) 0))) \<and>
    sock_get_port (sock_set_port sa n) = n mod 2 ^ 16 \<and> sock_ntop_host (sock_set_port sa n) len = sock_ntop_host sa len \<and>
    sock_get_port (sock_set_addr sa addr) = sock_get_port sa \<and>
    sock_get_port (sock_set_wild sa) = sock_get_port sa"
proof -
  have zeros: "[0, 0, 0, 0] = replicate 4 (0 :: octet)" by (simp add: numeral_eq_Suc)
  note port = uint_word_of_int_eq take_bit_eq_mod
  show ?thesis
  proof (cases sa)
    case (Sockaddr_in p a)
    have "sock_set_wild sa = Sockaddr_in p (replicate 4 0)"
      by (simp add: Sockaddr_in sock_set_wild_def INADDR_ANY_def zeros)
    then show ?thesis
      using assms host_text_in [of "take 4 addr" p len] host_text_in [of "replicate 4 0" p len]
      by (simp add: Sockaddr_in port)
  next
    case (Sockaddr_in6 p a)
    have "sock_set_wild sa = Sockaddr_in6 p (replicate 16 0)"
      by (simp add: Sockaddr_in6 sock_set_wild_def in6addr_any_def AF_defs)
    then show ?thesis
      using assms host_text_in6 [of "take 16 addr" p len] host_text_in6 [of "replicate 16 0" p len]
      by (simp add: Sockaddr_in6 port AF_INET_def AF_INET6_def)
  qed (use assms in \<open>auto simp: AF_defs\<close>)
qed

theorem sock_set_well_formed_witness:
  "sock_get_port (sock_set_port (Sockaddr_in 7 [127, 0, 0, 1]) 65543) = 7 \<and>
   (\<exists>s. sock_ntop_host (sock_set_addr (Sockaddr_in 7 [127, 0, 0, 1]) (replicate 16 9)) 16 = Accepts (Inr s) \<and>
     inet_pton AF_INET s = Inr (Accepts (take 4 (replicate 16 9))))"
  using sock_set_well_formed [of "Sockaddr_in 7 [127, 0, 0, 1]" "replicate 16 9" 65543 16]
  by (simp del: sock_ntop_host.simps sock_set_addr.simps take_replicate)

text \<open>
  \<open>sock_cmp_addr\<close> is 0 exactly for equal addresses of one family. \<open>sock_cmp_port\<close> answers the
  other way round: 1 for equal ports and 0 for different ones.
\<close>

lemma memcmp_zero: "length a = length b \<Longrightarrow> memcmp a b = 0 \<longleftrightarrow> a = b"
  by (induction a b rule: memcmp.induct) auto

lemma strcmp_zero: "strcmp s t = 0 \<longleftrightarrow> s = t"
  by (induction s t rule: strcmp.induct) auto

lemma sock_cmp_addr_zero:
  assumes "sockaddr_ok sa" and "sockaddr_ok sb"
  shows "sock_cmp_addr sa sb = 0 \<longleftrightarrow>
    (\<exists>p q a. sa = Sockaddr_in p a \<and> sb = Sockaddr_in q a) \<or>
    (\<exists>p q a. sa = Sockaddr_in6 p a \<and> sb = Sockaddr_in6 q a) \<or> (\<exists>s. sa = Sockaddr_un s \<and> sb = Sockaddr_un s)"
  using assms by (cases sa; cases sb) (auto simp: memcmp_zero strcmp_zero)

lemma sock_cmp_port_inverted:
  "sock_cmp_port (Sockaddr_in p a) (Sockaddr_in p b) = 1"
  "p \<noteq> q \<Longrightarrow> sock_cmp_port (Sockaddr_in p a) (Sockaddr_in q b) = 0"
  by simp_all

end
