(* ===== verification/Rtt.thy ===== *)
theory Rtt
  imports Complex_Main Prelude
begin

text \<open>
  Round-trip times and retransmission over UDP: \<open>lib/rtt.c\<close>, \<open>lib/unprtt.h\<close>, \<open>lib/tv_sub.c\<close>
  and \<open>rtt/dg_send_recv.c\<close> of the network programs.

  The fields that are \<open>float\<close> in C hold rational numbers. Every store into such a field
  rounds, by the parameter \<open>fl\<close>; the \<open>double\<close> expressions in between are taken as exact,
  and so is the difference of two \<open>float\<close> fields in \<open>rtt_stop\<close>, which C allows to be evaluated in
  a wider format before it is stored in a \<open>double\<close>.
  What is used of \<open>fl\<close> is stated where it is used: that it is monotone and exact on the
  numbers concerned.
\<close>

section \<open>Times\<close>

record timeval =
  tv_sec :: int
  tv_usec :: int

definition tv_sub :: "timeval \<Rightarrow> timeval \<Rightarrow> timeval" where
  "tv_sub out inp =
    (let usec = tv_usec out - tv_usec inp;
         out1 = (if usec < 0 then out\<lparr>tv_sec := tv_sec out - 1, tv_usec := usec + 1000000\<rparr>
                 else out\<lparr>tv_usec := usec\<rparr>)
     in out1\<lparr>tv_sec := tv_sec out1 - tv_sec inp\<rparr>)"

text \<open>The file of the IPC library differs in the header it includes only; so do the copies of
  ping and traceroute.\<close>

definition tv_sub_ipc :: "timeval \<Rightarrow> timeval \<Rightarrow> timeval" where
  "tv_sub_ipc out inp = tv_sub out inp"

definition microseconds :: "timeval \<Rightarrow> int" where
  "microseconds tv = tv_sec tv * 1000000 + tv_usec tv"

section \<open>\<open>rtt.c\<close>\<close>

record rtt_info =
  rtt_rtt :: rat
  rtt_srtt :: rat
  rtt_rttvar :: rat
  rtt_rto :: rat
  rtt_nrexmt :: int
  rtt_base :: cint

definition RTT_RXTMIN :: rat where "RTT_RXTMIN = 2"
definition RTT_RXTMAX :: rat where "RTT_RXTMAX = 60"
definition RTT_MAXNREXMT :: int where "RTT_MAXNREXMT = 3"

definition RTT_RTOCALC :: "rtt_info \<Rightarrow> rat" where
  "RTT_RTOCALC r = rtt_srtt r + 4 * rtt_rttvar r"

definition rtt_minmax :: "rat \<Rightarrow> rat" where
  "rtt_minmax rto = (if rto < RTT_RXTMIN then RTT_RXTMIN else if rto > RTT_RXTMAX then RTT_RXTMAX else rto)"

text \<open>The time of day at the call is an argument; \<open>rtt_nrexmt\<close> is not initialised here.\<close>

definition rtt_init :: "(rat \<Rightarrow> rat) \<Rightarrow> timeval \<Rightarrow> rtt_info \<Rightarrow> rtt_info" where
  "rtt_init fl tv r =
    (let r1 = r\<lparr>rtt_base := of_int (tv_sec tv), rtt_rtt := 0, rtt_srtt := 0, rtt_rttvar := fl (3 / 4)\<rparr>
     in r1\<lparr>rtt_rto := rtt_minmax (fl (RTT_RTOCALC r1))\<rparr>)"

definition rtt_ts :: "timeval \<Rightarrow> rtt_info \<Rightarrow> cint" where
  "rtt_ts tv r = of_int ((tv_sec tv - uint (rtt_base r)) * 1000 + tv_usec tv div 1000)"

definition rtt_newpack :: "rtt_info \<Rightarrow> rtt_info" where
  "rtt_newpack r = r\<lparr>rtt_nrexmt := 0\<rparr>"

text \<open>The conversion to \<open>int\<close> of a positive number cuts off the fraction.\<close>

definition rtt_start :: "rtt_info \<Rightarrow> int" where
  "rtt_start r = \<lfloor>rtt_rto r + 1 / 2\<rfloor>"

text \<open>\<open>ms / 1000.0\<close>\<close>

definition ms_seconds :: "cint \<Rightarrow> rat" where
  "ms_seconds ms = of_int (uint ms) / 1000"

definition rtt_stop :: "(rat \<Rightarrow> rat) \<Rightarrow> cint \<Rightarrow> rtt_info \<Rightarrow> rtt_info" where
  "rtt_stop fl ms r =
    (let r1 = r\<lparr>rtt_rtt := fl (ms_seconds ms)\<rparr>;
         delta = rtt_rtt r1 - rtt_srtt r1;
         r2 = r1\<lparr>rtt_srtt := fl (rtt_srtt r1 + delta / 8)\<rparr>;
         delta1 = (if delta < 0 then - delta else delta);
         r3 = r2\<lparr>rtt_rttvar := fl (rtt_rttvar r2 + (delta1 - rtt_rttvar r2) / 4)\<rparr>
     in r3\<lparr>rtt_rto := rtt_minmax (fl (RTT_RTOCALC r3))\<rparr>)"

text \<open>\<open>None\<close>: returns \<open>-1\<close>, time to give up; \<open>Some ()\<close>: returns 0.\<close>

definition rtt_timeout :: "(rat \<Rightarrow> rat) \<Rightarrow> rtt_info \<Rightarrow> unit option \<times> rtt_info" where
  "rtt_timeout fl r =
    (let r1 = r\<lparr>rtt_rto := fl (rtt_rto r * 2), rtt_nrexmt := rtt_nrexmt r + 1\<rparr>
     in (if RTT_MAXNREXMT < rtt_nrexmt r1 then None else Some (), r1))"

section \<open>\<open>dg_send_recv.c\<close>\<close>

text \<open>
  The static variables, and the datagrams sent: sequence number, time stamp and data.
\<close>

record dg_state =
  rttinfo :: rtt_info
  rttinit :: bool
  sendhdr_seq :: cint
  sendhdr_ts :: cint
  sent :: "(cint \<times> cint \<times> string) list"

text \<open>
  What the network and the alarm do, in order, each with the time of day at which the
  process notices it: a datagram arrives, with its length, its header and its data; the
  alarm set for the last transmission goes off; a system call fails.
\<close>

datatype net_ev =
    Datagram timeval nat cint cint string
  | Alarm timeval
  | Recv_error errno
  | Send_error errno

datatype outcome =
    Returned nat string
  | Gave_up errno
  | Exited string errno
  | Waiting

definition hdr_size :: nat where "hdr_size = 8"

text \<open>The label \<open>sendagain\<close>: stamp and send.\<close>

definition sendagain :: "string \<Rightarrow> timeval \<Rightarrow> dg_state \<Rightarrow> dg_state" where
  "sendagain outbuff tv st =
    (let ts = rtt_ts tv (rttinfo st)
     in st\<lparr>sendhdr_ts := ts, sent := sent st @ [(sendhdr_seq st, ts, outbuff)]\<rparr>)"

text \<open>Whether \<open>sendmsg\<close> fails, in which case the wrapper exits.\<close>

definition send_fails :: "net_ev list \<Rightarrow> errno option" where
  "send_fails evs = (case evs of Send_error e # _ \<Rightarrow> Some e | _ \<Rightarrow> None)"

text \<open>
  Waiting for the answer: \<open>sigsetjmp\<close> returns again when the alarm goes off; a datagram that
  is too short or has another sequence number is ignored.
\<close>

fun dg_wait :: "(rat \<Rightarrow> rat) \<Rightarrow> string \<Rightarrow> net_ev list \<Rightarrow> dg_state \<Rightarrow> outcome \<times> dg_state" where
  "dg_wait fl outbuff [] st = (Waiting, st)"
| "dg_wait fl outbuff (Alarm tv # evs) st =
    (case rtt_timeout fl (rttinfo st) of
       (None, r) \<Rightarrow> (Gave_up ETIMEDOUT, st\<lparr>rttinfo := r, rttinit := False\<rparr>)
     | (Some _, r) \<Rightarrow>
         (case send_fails evs of
            Some e \<Rightarrow> (Exited ''sendmsg error'' e, st\<lparr>rttinfo := r\<rparr>)
          | None \<Rightarrow> dg_wait fl outbuff evs (sendagain outbuff tv (st\<lparr>rttinfo := r\<rparr>))))"
| "dg_wait fl outbuff (Datagram tv n seq ts inbuff # evs) st =
    (if n < hdr_size \<or> seq \<noteq> sendhdr_seq st then dg_wait fl outbuff evs st
     else (Returned (n - hdr_size) inbuff,
           st\<lparr>rttinfo := rtt_stop fl (rtt_ts tv (rttinfo st) - ts) (rttinfo st)\<rparr>))"
| "dg_wait fl outbuff (Recv_error e # evs) st = (Exited ''recvmsg error'' e, st)"
| "dg_wait fl outbuff (Send_error e # evs) st = dg_wait fl outbuff evs st"

definition dg_send_recv :: "(rat \<Rightarrow> rat) \<Rightarrow> string \<Rightarrow> timeval \<Rightarrow> net_ev list \<Rightarrow> dg_state \<Rightarrow> outcome \<times> dg_state" where
  "dg_send_recv fl outbuff tv evs st =
    (let st1 = (if \<not> rttinit st then st\<lparr>rttinfo := rtt_init fl tv (rttinfo st), rttinit := True\<rparr> else st);
         st2 = st1\<lparr>sendhdr_seq := sendhdr_seq st1 + 1\<rparr>;
         st3 = st2\<lparr>rttinfo := rtt_newpack (rttinfo st2)\<rparr>
     in case send_fails evs of
          Some e \<Rightarrow> (Exited ''sendmsg error'' e, st3)
        | None \<Rightarrow> dg_wait fl outbuff evs (sendagain outbuff tv st3))"

text \<open>The wrapper exits when the function returns \<open>-1\<close>.\<close>

definition Dg_send_recv :: "(rat \<Rightarrow> rat) \<Rightarrow> string \<Rightarrow> timeval \<Rightarrow> net_ev list \<Rightarrow> dg_state \<Rightarrow> outcome \<times> dg_state" where
  "Dg_send_recv fl outbuff tv evs st =
    (case dg_send_recv fl outbuff tv evs st of
       (Gave_up e, st') \<Rightarrow> (Exited ''dg_send_recv error'' e, st')
     | (r, st') \<Rightarrow> (r, st'))"

end
