(* ===== verification/Rtt_Props.thy ===== *)
theory Rtt_Props
  imports Rtt
begin

text \<open>The properties of the round-trip estimator and of the retransmission protocol.\<close>

section \<open>Differences of times\<close>

text \<open>
  \<open>tv_sub\<close> subtracts times: the difference in microseconds is exact, and the result is
  normalised when both arguments are.
\<close>

theorem tv_sub_exact:
  "microseconds (tv_sub out inp) = microseconds out - microseconds inp \<and>
   (0 \<le> tv_usec out \<and> tv_usec out < 1000000 \<and> 0 \<le> tv_usec inp \<and> tv_usec inp < 1000000 \<longrightarrow>
    0 \<le> tv_usec (tv_sub out inp) \<and> tv_usec (tv_sub out inp) < 1000000)"
  by (auto simp: microseconds_def tv_sub_def Let_def)

theorem tv_sub_exact_witness:
  "microseconds (tv_sub \<lparr>tv_sec = 5, tv_usec = 100\<rparr> \<lparr>tv_sec = 3, tv_usec = 999999\<rparr>) = 1000101"
  using tv_sub_exact [of "\<lparr>tv_sec = 5, tv_usec = 100\<rparr>" "\<lparr>tv_sec = 3, tv_usec = 999999\<rparr>"]
  by (simp add: microseconds_def)

section \<open>The estimator\<close>

text \<open>What is needed of rounding: it keeps the order and is exact on the two limits and on 0.\<close>

definition rounding :: "(rat \<Rightarrow> rat) \<Rightarrow> bool" where
  "rounding fl \<longleftrightarrow> mono fl \<and> fl 0 = 0 \<and> fl 2 = 2 \<and> fl 60 = 60"

definition rtt_ok :: "rtt_info \<Rightarrow> bool" where
  "rtt_ok r \<longleftrightarrow> 0 \<le> rtt_srtt r \<and> 0 \<le> rtt_rttvar r \<and> RTT_RXTMIN \<le> rtt_rto r"

definition ex_rtt :: rtt_info where
  "ex_rtt = \<lparr>rtt_rtt = 0, rtt_srtt = 0, rtt_rttvar = 0, rtt_rto = 0, rtt_nrexmt = 0, rtt_base = 0\<rparr>"

lemma rounding_nonneg: "rounding fl \<Longrightarrow> 0 \<le> x \<Longrightarrow> 0 \<le> fl x"
  by (metis monoD rounding_def)

lemma rounding_min: "rounding fl \<Longrightarrow> 2 \<le> x \<Longrightarrow> 2 \<le> fl x"
  by (metis monoD rounding_def)

lemma rtt_minmax_bounds: "RTT_RXTMIN \<le> rtt_minmax x \<and> rtt_minmax x \<le> RTT_RXTMAX"
  by (simp add: rtt_minmax_def RTT_RXTMIN_def RTT_RXTMAX_def)

lemma ms_seconds_nonneg: "0 \<le> ms_seconds ms"
  unfolding ms_seconds_def using uint_ge_0 [of ms] by (simp only: zero_le_divide_iff of_int_0_le_iff) simp

lemma rtt_stop_ok:
  assumes "rounding fl" and "rtt_ok r"
  shows "rtt_ok (rtt_stop fl ms r) \<and> rtt_rto (rtt_stop fl ms r) \<le> RTT_RXTMAX"
proof -
  have rtt: "0 \<le> fl (ms_seconds ms)"
    by (rule rounding_nonneg [OF assms(1) ms_seconds_nonneg])
  have srtt: "0 \<le> rtt_srtt r + (x - rtt_srtt r) / 8" if "0 \<le> x" for x
    using assms(2) that by (simp add: rtt_ok_def field_simps)
  have rttvar: "0 \<le> rtt_rttvar r + (y - rtt_rttvar r) / 4" if "0 \<le> y" for y
    using assms(2) that by (simp add: rtt_ok_def field_simps)
  show ?thesis
    unfolding rtt_stop_def Let_def rtt_ok_def
    using rtt_minmax_bounds rounding_nonneg [OF assms(1) srtt [OF rtt]] rounding_nonneg [OF assms(1) rttvar]
    by simp
qed

fun measured :: "(rat \<Rightarrow> rat) \<Rightarrow> rtt_info \<Rightarrow> cint list \<Rightarrow> rtt_info" where
  "measured fl r [] = r"
| "measured fl r (ms # mss) = measured fl (rtt_stop fl ms r) mss"

lemma measured_ok:
  assumes "rounding fl" and "rtt_ok r" and "rtt_rto r \<le> RTT_RXTMAX"
  shows "rtt_ok (measured fl r mss) \<and> rtt_rto (measured fl r mss) \<le> RTT_RXTMAX"
  using assms(2,3)
proof (induction mss arbitrary: r)
  case (Cons ms mss)
  then show ?case using rtt_stop_ok [OF assms(1), of r ms] by simp
qed simp

lemma rtt_init_ok:
  assumes "rounding fl"
  shows "rtt_ok (rtt_init fl tv r) \<and> rtt_rto (rtt_init fl tv r) \<le> RTT_RXTMAX"
  using rtt_minmax_bounds rounding_nonneg [OF assms, of "3 / 4"]
  by (simp add: rtt_init_def rtt_ok_def Let_def)

lemma rtt_start_bounds:
  assumes "RTT_RXTMIN \<le> rtt_rto r" and "rtt_rto r \<le> RTT_RXTMAX"
  shows "2 \<le> rtt_start r \<and> rtt_start r \<le> 60"
  using assms by (simp add: rtt_start_def RTT_RXTMIN_def RTT_RXTMAX_def le_floor_iff floor_le_iff)

text \<open>
  C39: Once initialised, the estimator stays sane whatever is measured: the smoothed time and
  the deviation are never negative, and after every measurement the timeout lies between
  \<open>RTT_RXTMIN\<close> and \<open>RTT_RXTMAX\<close>, so that the alarm is set to between 2 and 60 seconds,
  however floating-point stores round.
\<close>

theorem rtt_estimator_bounded:
  assumes "rounding fl"
  shows "rtt_ok (measured fl (rtt_init fl tv r) mss) \<and>
    rtt_rto (measured fl (rtt_init fl tv r) mss) \<le> RTT_RXTMAX \<and>
    2 \<le> rtt_start (measured fl (rtt_init fl tv r) mss) \<and>
    rtt_start (measured fl (rtt_init fl tv r) mss) \<le> 60"
  using measured_ok [OF assms, of "rtt_init fl tv r" mss] rtt_init_ok [OF assms, of tv r]
    rtt_start_bounds [of "measured fl (rtt_init fl tv r) mss"]
  by (simp add: rtt_ok_def)

theorem rtt_estimator_bounded_witness:
  "rtt_start (measured id (rtt_init id \<lparr>tv_sec = 0, tv_usec = 0\<rparr> ex_rtt) [5000, 100]) \<le> 60"
proof -
  have "rounding id" by (simp add: rounding_def mono_def)
  then show ?thesis using rtt_estimator_bounded [of id _ ex_rtt "[5000, 100]"] by blast
qed

text \<open>
  The smoothed estimator converges: with exact arithmetic, when every measurement is the
  same, the distance of the smoothed time to it shrinks by the factor 7/8 each time.
\<close>

theorem rtt_srtt_converges:
  "rtt_srtt (measured id r (replicate n ms)) - ms_seconds ms = (7 / 8) ^ n * (rtt_srtt r - ms_seconds ms)"
proof (induction n arbitrary: r)
  case 0
  show ?case by simp
next
  case (Suc n)
  have "rtt_srtt (rtt_stop id ms r) - ms_seconds ms = 7 / 8 * (rtt_srtt r - ms_seconds ms)"
    by (simp add: rtt_stop_def Let_def field_simps)
  then show ?case
    using Suc.IH [of "rtt_stop id ms r"] by (simp only: measured.simps replicate_Suc power_Suc mult.assoc mult.left_commute)
qed

text \<open>
  A timeout doubles the retransmission timer without applying the upper limit: after a
  single timeout the alarm can be set to 120 seconds.
\<close>

lemma rtt_timeout_unbounded:
  "rtt_rto r = RTT_RXTMAX \<Longrightarrow> rtt_start (snd (rtt_timeout id r)) = 120"
  by (simp add: rtt_timeout_def rtt_start_def RTT_RXTMAX_def Let_def floor_eq_iff)

section \<open>The protocol\<close>

definition is_alarm :: "net_ev \<Rightarrow> bool" where
  "is_alarm ev = (case ev of Alarm _ \<Rightarrow> True | _ \<Rightarrow> False)"

lemma sendagain_simps [simp]:
  "rttinfo (sendagain ob tv st) = rttinfo st" "rttinit (sendagain ob tv st) = rttinit st"
  "sendhdr_seq (sendagain ob tv st) = sendhdr_seq st"
  "\<exists>ts. sent (sendagain ob tv st) = sent st @ [(sendhdr_seq st, ts, ob)]"
  by (simp_all add: sendagain_def Let_def)

lemma dg_wait_returned:
  "dg_wait fl ob evs st = (Returned k d, st') \<Longrightarrow>
    \<exists>t n ts. Datagram t n (sendhdr_seq st) ts d \<in> set evs \<and> hdr_size \<le> n \<and> k = n - hdr_size"
proof (induction fl ob evs st rule: dg_wait.induct)
  case (2 fl ob tv evs st)
  then show ?case
    by (auto simp: rtt_timeout_def Let_def split: if_splits option.splits)
next
  case (3 fl ob tv n seq ts d evs st)
  then show ?case by (fastforce simp: not_less split: if_splits)
qed auto

lemma dg_wait_sent:
  assumes "rtt_nrexmt (rttinfo st) \<le> 3"
  shows "\<exists>xs. sent (snd (dg_wait fl ob evs st)) = sent st @ xs \<and>
    int (length xs) \<le> 3 - rtt_nrexmt (rttinfo st) \<and>
    list_all (\<lambda>(seq, ts, d). seq = sendhdr_seq st \<and> d = ob) xs"
  using assms
proof (induction fl ob evs st rule: dg_wait.induct)
  case (2 fl ob tv evs st)
  define r where "r = snd (rtt_timeout fl (rttinfo st))"
  have n: "rtt_nrexmt r = rtt_nrexmt (rttinfo st) + 1"
    by (simp add: r_def rtt_timeout_def Let_def)
  show ?case
  proof (cases "3 < rtt_nrexmt r \<or> send_fails evs \<noteq> None")
    case True
    then have "sent (snd (dg_wait fl ob (Alarm tv # evs) st)) = sent st"
      by (auto simp: rtt_timeout_def r_def RTT_MAXNREXMT_def Let_def)
    then show ?thesis using 2 by (intro exI [of _ "[]"]) simp
  next
    case False
    then have t: "rtt_timeout fl (rttinfo st) = (Some (), r)" and f: "send_fails evs = None"
      by (auto simp: rtt_timeout_def r_def RTT_MAXNREXMT_def Let_def)
    define st1 where "st1 = sendagain ob tv (st\<lparr>rttinfo := r\<rparr>)"
    have step: "dg_wait fl ob (Alarm tv # evs) st = dg_wait fl ob evs st1"
      by (simp add: t f st1_def)
    obtain ts where s1: "sent st1 = sent st @ [(sendhdr_seq st, ts, ob)]"
      using sendagain_simps(4) [of ob tv "st\<lparr>rttinfo := r\<rparr>"] by (auto simp: st1_def)
    have "\<exists>xs. sent (snd (dg_wait fl ob evs st1)) = sent st1 @ xs \<and>
      int (length xs) \<le> 3 - rtt_nrexmt r \<and> list_all (\<lambda>(seq, ts, d). seq = sendhdr_seq st \<and> d = ob) xs"
      using 2(1) [OF t [symmetric] refl f] False by (simp add: st1_def not_less)
    then show ?thesis
      unfolding step s1 using n by force
  qed
qed auto

lemma dg_wait_ends:
  assumes "rtt_nrexmt (rttinfo st) \<le> 3" and "3 - rtt_nrexmt (rttinfo st) < int (length (filter is_alarm evs))"
  shows "fst (dg_wait fl ob evs st) \<noteq> Waiting"
  using assms
proof (induction fl ob evs st rule: dg_wait.induct)
  case (2 fl ob tv evs st)
  then show ?case
    by (auto simp: rtt_timeout_def RTT_MAXNREXMT_def is_alarm_def Let_def split: option.split)
qed (auto simp: is_alarm_def RTT_MAXNREXMT_def)

lemma dg_wait_gave_up:
  assumes "dg_wait fl ob evs st = (Gave_up e, st')"
  shows "e = ETIMEDOUT \<and> \<not> rttinit st' \<and> 3 - rtt_nrexmt (rttinfo st) < int (length (filter is_alarm evs))"
  using assms
proof (induction fl ob evs st rule: dg_wait.induct)
  case (2 fl ob tv evs st)
  then show ?case
    by (auto simp: rtt_timeout_def RTT_MAXNREXMT_def is_alarm_def Let_def split: option.splits if_splits)
qed (auto simp: is_alarm_def split: if_splits)

text \<open>The state in which the first transmission happens.\<close>

definition dg_prepared :: "(rat \<Rightarrow> rat) \<Rightarrow> timeval \<Rightarrow> dg_state \<Rightarrow> dg_state" where
  "dg_prepared fl tv st =
    (let st1 = (if \<not> rttinit st then st\<lparr>rttinfo := rtt_init fl tv (rttinfo st), rttinit := True\<rparr> else st)
     in st1\<lparr>sendhdr_seq := sendhdr_seq st1 + 1, rttinfo := rtt_newpack (rttinfo st1)\<rparr>)"

lemma dg_prepared_simps [simp]:
  "sendhdr_seq (dg_prepared fl tv st) = sendhdr_seq st + 1" "sent (dg_prepared fl tv st) = sent st"
  "rtt_nrexmt (rttinfo (dg_prepared fl tv st)) = 0"
  by (simp_all add: dg_prepared_def Let_def rtt_newpack_def)

lemma dg_send_recv_unfold:
  "dg_send_recv fl ob tv evs st =
    (case send_fails evs of
       Some e \<Rightarrow> (Exited ''sendmsg error'' e, dg_prepared fl tv st)
     | None \<Rightarrow> dg_wait fl ob evs (sendagain ob tv (dg_prepared fl tv st)))"
  by (cases "send_fails evs") (simp_all add: dg_send_recv_def dg_prepared_def Let_def)

text \<open>
  C40: One call of \<open>dg_send_recv\<close>, whatever the network does: it returns only the data of a
  datagram that carries the sequence number of this very call (late answers to earlier
  requests are skipped); it sends the request, with that number, at most four times; and it
  gives up, with \<open>ETIMEDOUT\<close> and the estimator marked for reinitialisation, only after four
  alarms.
\<close>

theorem dg_send_recv_protocol:
  assumes "dg_send_recv fl ob tv evs st = (res, st')"
  shows "(\<forall>k d. res = Returned k d \<longrightarrow>
        (\<exists>t n ts. Datagram t n (sendhdr_seq st + 1) ts d \<in> set evs \<and> hdr_size \<le> n \<and> k = n - hdr_size)) \<and>
    (\<exists>xs. sent st' = sent st @ xs \<and> length xs \<le> 4 \<and>
        list_all (\<lambda>(seq, ts, d). seq = sendhdr_seq st + 1 \<and> d = ob) xs) \<and>
    (\<forall>e. res = Gave_up e \<longrightarrow> e = ETIMEDOUT \<and> \<not> rttinit st' \<and> 4 \<le> length (filter is_alarm evs))"
proof (cases "send_fails evs")
  case (Some e)
  then show ?thesis using assms by (auto simp: dg_send_recv_unfold)
next
  case None
  define st1 where "st1 = sendagain ob tv (dg_prepared fl tv st)"
  have run: "dg_wait fl ob evs st1 = (res, st')"
    using assms None by (simp add: dg_send_recv_unfold st1_def)
  obtain ts where s1: "sent st1 = sent st @ [(sendhdr_seq st + 1, ts, ob)]"
    using sendagain_simps(4) [of ob tv "dg_prepared fl tv st"] by (auto simp: st1_def)
  obtain xs where xs: "sent st' = sent st1 @ xs" "int (length xs) \<le> 3"
    "list_all (\<lambda>(seq, ts, d). seq = sendhdr_seq st + 1 \<and> d = ob) xs"
    using dg_wait_sent [of st1 fl ob evs] run by (auto simp: st1_def)
  have "\<exists>xs. sent st' = sent st @ xs \<and> length xs \<le> 4 \<and>
        list_all (\<lambda>(seq, ts, d). seq = sendhdr_seq st + 1 \<and> d = ob) xs"
    using xs s1 by (intro exI [of _ "(sendhdr_seq st + 1, ts, ob) # xs"]) simp
  moreover have "res = Returned k d \<Longrightarrow>
      \<exists>t n ts. Datagram t n (sendhdr_seq st + 1) ts d \<in> set evs \<and> hdr_size \<le> n \<and> k = n - hdr_size" for k d
    using dg_wait_returned [of fl ob evs st1 k d st'] run by (simp add: st1_def)
  moreover have "res = Gave_up e \<Longrightarrow> e = ETIMEDOUT \<and> \<not> rttinit st' \<and> 4 \<le> length (filter is_alarm evs)" for e
    using dg_wait_gave_up [of fl ob evs st1 e st'] run by (simp add: st1_def)
  ultimately show ?thesis by blast
qed

definition dg_idle :: dg_state where
  "dg_idle = \<lparr>rttinfo = \<lparr>rtt_rtt = 0, rtt_srtt = 0, rtt_rttvar = 0, rtt_rto = 0, rtt_nrexmt = 0, rtt_base = 0\<rparr>,
    rttinit = False, sendhdr_seq = 0, sendhdr_ts = 0, sent = []\<rparr>"

theorem dg_send_recv_protocol_witness:
  "length (sent (snd (dg_send_recv id ''q'' \<lparr>tv_sec = 1, tv_usec = 0\<rparr>
      [Alarm \<lparr>tv_sec = 4, tv_usec = 0\<rparr>, Datagram \<lparr>tv_sec = 5, tv_usec = 0\<rparr> 9 1 0 ''a''] dg_idle))) \<le> 4"
  using dg_send_recv_protocol [OF surjective_pairing, of id "''q''" "\<lparr>tv_sec = 1, tv_usec = 0\<rparr>"
      "[Alarm \<lparr>tv_sec = 4, tv_usec = 0\<rparr>, Datagram \<lparr>tv_sec = 5, tv_usec = 0\<rparr> 9 1 0 ''a'']" dg_idle]
  by (auto simp: dg_idle_def)

text \<open>
  A call does not wait for ever: once the alarm has gone off four times, whatever else
  happened in between, \<open>dg_send_recv\<close> has returned or exited.
\<close>

theorem dg_send_recv_returns:
  assumes "4 \<le> length (filter is_alarm evs)"
  shows "fst (dg_send_recv fl ob tv evs st) \<noteq> Waiting"
  using dg_wait_ends [of "sendagain ob tv (dg_prepared fl tv st)" evs fl ob] assms
  by (simp add: dg_send_recv_unfold split: option.split)

theorem dg_send_recv_returns_witness:
  "fst (dg_send_recv id ''q'' \<lparr>tv_sec = 1, tv_usec = 0\<rparr> (replicate 4 (Alarm \<lparr>tv_sec = 9, tv_usec = 0\<rparr>)) dg_idle) \<noteq> Waiting"
  using dg_send_recv_returns [of "replicate 4 (Alarm \<lparr>tv_sec = 9, tv_usec = 0\<rparr>)"]
  by (simp add: is_alarm_def)

end
