(* ===== verification/Gai.thy ===== *)
theory Gai
  imports Sockaddr
begin

text \<open>
  Name and service lookup: \<open>getaddrinfo\<close>, its helpers, \<open>freeaddrinfo\<close>, \<open>getnameinfo\<close> and
  \<open>gai_strerror\<close> (directory \<open>libgai\<close>), as \<open>config.h\<close> configures them.

  The linked list of \<open>addrinfo\<close> structures is a list; appending at \<open>aipnext\<close> is appending at
  its end, and cloning an entry inserts behind it. The allocator is explicit: a schedule
  says which of the next allocations fail, and \<open>live\<close> counts the blocks that are allocated
  and not freed, so that leaks can be stated. The resolver and the services database are
  parameters.
\<close>

section \<open>The allocator\<close>

record gheap =
  alloc_fails :: "bool list"
  live :: nat
  unlinked :: "string list"

text \<open>\<open>calloc\<close>, \<open>malloc\<close> and \<open>strdup\<close>: \<open>False\<close> is NULL.\<close>

definition galloc :: "gheap \<Rightarrow> bool \<times> gheap" where
  "galloc h = (case alloc_fails h of
      [] \<Rightarrow> (True, h\<lparr>live := live h + 1\<rparr>)
    | f # fs \<Rightarrow> if f then (False, h\<lparr>alloc_fails := fs\<rparr>)
               else (True, h\<lparr>alloc_fails := fs, live := live h + 1\<rparr>))"

section \<open>\<open>addrinfo.h\<close>, \<open>gai_hdr.h\<close>\<close>

record addrinfo =
  ai_flags :: cint
  ai_family :: int
  ai_socktype :: int
  ai_protocol :: int
  ai_addrlen :: nat
  ai_canonname :: "string option"
  ai_addr :: "sockaddr option"

definition AI_PASSIVE :: cint where "AI_PASSIVE = 1"
definition AI_CANONNAME :: cint where "AI_CANONNAME = 2"
definition AI_CLONE :: cint where "AI_CLONE = 4"

datatype eai =
    EAI_ADDRFAMILY | EAI_AGAIN | EAI_BADFLAGS | EAI_FAIL | EAI_FAMILY | EAI_MEMORY
  | EAI_NODATA | EAI_NONAME | EAI_SERVICE | EAI_SOCKTYPE | EAI_SYSTEM

definition SOCK_STREAM :: int where "SOCK_STREAM = 1"
definition SOCK_DGRAM :: int where "SOCK_DGRAM = 2"
definition SOCK_RAW :: int where "SOCK_RAW = 3"

lemmas SOCK_defs = SOCK_STREAM_def SOCK_DGRAM_def SOCK_RAW_def

text \<open>The sizes of the three socket address structures.\<close>

definition sizeof_sockaddr_in :: nat where "sizeof_sockaddr_in = 16"
definition sizeof_sockaddr_in6 :: nat where "sizeof_sockaddr_in6 = 28"
definition sizeof_sockaddr_un :: nat where "sizeof_sockaddr_un = 110"
definition sizeof_sun_path :: nat where "sizeof_sun_path = 108"

primrec gai_strerror :: "eai \<Rightarrow> string" where
  "gai_strerror EAI_ADDRFAMILY = ''address family for host not supported''"
| "gai_strerror EAI_AGAIN = ''temporary failure in name resolution''"
| "gai_strerror EAI_BADFLAGS = ''invalid flags value''"
| "gai_strerror EAI_FAIL = ''non-recoverable failure in name resolution''"
| "gai_strerror EAI_FAMILY = ''address family not supported''"
| "gai_strerror EAI_MEMORY = ''memory allocation failure''"
| "gai_strerror EAI_NODATA = ''no address associated with host''"
| "gai_strerror EAI_NONAME = ''host nor service provided, or not known''"
| "gai_strerror EAI_SERVICE = ''service not supported for socket type''"
| "gai_strerror EAI_SOCKTYPE = ''socket type not supported''"
| "gai_strerror EAI_SYSTEM = ''system error''"

section \<open>\<open>freeaddrinfo\<close>\<close>

definition ai_blocks :: "addrinfo \<Rightarrow> nat" where
  "ai_blocks ai = (if ai_addr ai \<noteq> None then 1 else 0) + (if ai_canonname ai \<noteq> None then 1 else 0) + 1"

primrec freeaddrinfo :: "addrinfo list \<Rightarrow> gheap \<Rightarrow> gheap" where
  "freeaddrinfo [] h = h"
| "freeaddrinfo (ai # ais) h = freeaddrinfo ais (h\<lparr>live := live h - ai_blocks ai\<rparr>)"

section \<open>\<open>ga_echeck\<close>\<close>

text \<open>A null pointer is \<open>None\<close>.\<close>

definition no_text :: "string option \<Rightarrow> bool" where
  "no_text s = (case s of None \<Rightarrow> True | Some t \<Rightarrow> t = [])"

definition ga_echeck :: "string option \<Rightarrow> string option \<Rightarrow> cint \<Rightarrow> int \<Rightarrow> int \<Rightarrow> int \<Rightarrow> eai option" where
  "ga_echeck hostname servname flags family socktype protocol =
    (if flags AND NOT (AI_PASSIVE OR AI_CANONNAME) \<noteq> 0 then Some EAI_BADFLAGS
     else if no_text hostname \<and> no_text servname then Some EAI_NONAME
     else if family = AF_UNSPEC then None
     else if family = AF_INET \<or> family = AF_INET6 then
       (if socktype \<noteq> 0 \<and> socktype \<noteq> SOCK_STREAM \<and> socktype \<noteq> SOCK_DGRAM \<and> socktype \<noteq> SOCK_RAW
        then Some EAI_SOCKTYPE else None)
     else if family = AF_LOCAL then
       (if socktype \<noteq> 0 \<and> socktype \<noteq> SOCK_STREAM \<and> socktype \<noteq> SOCK_DGRAM
        then Some EAI_SOCKTYPE else None)
     else Some EAI_FAMILY)"

section \<open>\<open>ga_nsearch\<close>\<close>

text \<open>The array \<open>search\<close>: names and address families to look up, one or two of them.\<close>

type_synonym search = "string \<times> int"

definition by_family :: "int \<Rightarrow> search \<Rightarrow> search \<Rightarrow> search list" where
  "by_family family s6 s4 =
    (if family = AF_INET then [s4]
     else if family = AF_INET6 then [s6]
     else if family = AF_UNSPEC then [s6, s4]
     else [])"

text \<open>\<open>None\<close>: the function calls \<open>err_quit\<close>, because it has not found one or two entries.\<close>

definition ga_nsearch :: "string option \<Rightarrow> addrinfo \<Rightarrow> search list option" where
  "ga_nsearch hostname hints =
    (let search =
       (if no_text hostname then
          (if ai_flags hints AND AI_PASSIVE \<noteq> 0 then
             by_family (ai_family hints) (''0::0'', AF_INET6) (''0.0.0.0'', AF_INET)
           else by_family (ai_family hints) (''0::1'', AF_INET6) (''localhost'', AF_INET))
        else by_family (ai_family hints) (the hostname, AF_INET6) (the hostname, AF_INET))
     in if length search < 1 \<or> 2 < length search then None else Some search)"

section \<open>\<open>ga_aistruct\<close>\<close>

text \<open>The address at \<open>addr\<close>: octets, or a pathname.\<close>

datatype raw_addr = Octets "octet list" | Path string

definition raw_octets :: "raw_addr \<Rightarrow> octet list" where
  "raw_octets a = (case a of Octets os \<Rightarrow> os | Path s \<Rightarrow> [])"

definition raw_path :: "raw_addr \<Rightarrow> string" where
  "raw_path a = (case a of Octets os \<Rightarrow> [] | Path s \<Rightarrow> s)"

definition blank_ai :: "addrinfo \<Rightarrow> int \<Rightarrow> addrinfo" where
  "blank_ai hints family =
    \<lparr>ai_flags = (if ai_socktype hints = 0 then AI_CLONE else 0), ai_family = family,
     ai_socktype = ai_socktype hints, ai_protocol = ai_protocol hints, ai_addrlen = 0,
     ai_canonname = None, ai_addr = None\<rparr>"

definition ga_aistruct :: "addrinfo list \<Rightarrow> addrinfo \<Rightarrow> raw_addr \<Rightarrow> int \<Rightarrow> gheap \<Rightarrow> eai option \<times> addrinfo list \<times> gheap" where
  "ga_aistruct ais hints addr family h =
    (case galloc h of
       (False, h1) \<Rightarrow> (Some EAI_MEMORY, ais, h1)
     | (True, h1) \<Rightarrow>
         let ai = blank_ai hints family in
         if family = AF_INET then
           (case galloc h1 of
              (False, h2) \<Rightarrow> (Some EAI_MEMORY, ais @ [ai], h2)
            | (True, h2) \<Rightarrow>
                (None, ais @ [ai\<lparr>ai_addr := Some (Sockaddr_in 0 (take 4 (raw_octets addr))),
                               ai_addrlen := sizeof_sockaddr_in\<rparr>], h2))
         else if family = AF_INET6 then
           (case galloc h1 of
              (False, h2) \<Rightarrow> (Some EAI_MEMORY, ais @ [ai], h2)
            | (True, h2) \<Rightarrow>
                (None, ais @ [ai\<lparr>ai_addr := Some (Sockaddr_in6 0 (take 16 (raw_octets addr))),
                               ai_addrlen := sizeof_sockaddr_in6\<rparr>], h2))
         else if family = AF_LOCAL then
           (if sizeof_sun_path \<le> length (raw_path addr) then (Some EAI_SERVICE, ais @ [ai], h1)
            else case galloc h1 of
              (False, h2) \<Rightarrow> (Some EAI_MEMORY, ais @ [ai], h2)
            | (True, h2) \<Rightarrow>
                (None, ais @ [ai\<lparr>ai_addr := Some (Sockaddr_un (raw_path addr)),
                               ai_addrlen := sizeof_sockaddr_un\<rparr>],
                 if ai_flags hints AND AI_PASSIVE \<noteq> 0
                 then h2\<lparr>unlinked := unlinked h2 @ [raw_path addr]\<rparr> else h2))
         else (None, ais @ [ai], h1))"

section \<open>\<open>ga_clone\<close> and \<open>ga_port\<close>\<close>

text \<open>
  The result says whether the function returns the new entry or NULL; the entry is already
  linked behind its original when the second allocation fails.
\<close>

definition ga_clone :: "addrinfo \<Rightarrow> gheap \<Rightarrow> bool \<times> addrinfo list \<times> gheap" where
  "ga_clone ai h =
    (case galloc h of
       (False, h1) \<Rightarrow> (False, [], h1)
     | (True, h1) \<Rightarrow>
         let new = ai\<lparr>ai_flags := 0, ai_canonname := None, ai_addr := None\<rparr> in
         (case galloc h1 of
            (False, h2) \<Rightarrow> (False, [new], h2)
          | (True, h2) \<Rightarrow> (True, [new\<lparr>ai_addr := ai_addr ai\<rparr>], h2)))"

text \<open>Filling in the socket type and the port; whether the entry counts.\<close>

definition set_port :: "port \<Rightarrow> int \<Rightarrow> addrinfo \<Rightarrow> addrinfo" where
  "set_port port socktype ai =
    (let ai1 = ai\<lparr>ai_socktype := socktype\<rparr> in
     if ai_family ai1 = AF_INET \<or> ai_family ai1 = AF_INET6
     then ai1\<lparr>ai_addr := map_option (\<lambda>sa. sock_set_port sa (uint port)) (ai_addr ai1)\<rparr>
     else ai1)"

definition port_counts :: "addrinfo \<Rightarrow> nat" where
  "port_counts ai = (if ai_family ai = AF_INET \<or> ai_family ai = AF_INET6 then 1 else 0)"

text \<open>
  The loop of \<open>ga_port\<close>: the entries behind the current one follow; \<open>None\<close> is the return
  value \<open>-1\<close>. After cloning, the loop goes on behind the new entry.
\<close>

fun ga_port :: "addrinfo list \<Rightarrow> port \<Rightarrow> int \<Rightarrow> gheap \<Rightarrow> nat option \<times> addrinfo list \<times> gheap" where
  "ga_port [] port socktype h = (Some 0, [], h)"
| "ga_port (ai # ais) port socktype h =
    (if ai_flags ai AND AI_CLONE \<noteq> 0 \<and> ai_socktype ai \<noteq> 0 then
       (case ga_clone ai h of
          (False, new, h1) \<Rightarrow> (None, ai # new @ ais, h1)
        | (True, new, h1) \<Rightarrow>
            (case ga_port ais port socktype h1 of
               (n, ais', h2) \<Rightarrow>
                 (map_option (\<lambda>n. n + port_counts ai) n, ai # map (set_port port socktype) new @ ais', h2)))
     else if ai_flags ai AND AI_CLONE = 0 \<and> ai_socktype ai \<noteq> socktype then
       (case ga_port ais port socktype h of (n, ais', h1) \<Rightarrow> (n, ai # ais', h1))
     else
       (case ga_port ais port socktype h of
          (n, ais', h1) \<Rightarrow> (map_option (\<lambda>n. n + port_counts ai) n, set_port port socktype ai # ais', h1)))"

section \<open>\<open>ga_serv\<close>\<close>

text \<open>
  \<open>isdigit\<close> of the first character (the null character of an empty text is none) and \<open>atoi\<close>
  of a text that starts with a digit.
\<close>

definition isdigit0 :: "string \<Rightarrow> bool" where
  "isdigit0 s = (case s of [] \<Rightarrow> False | c # _ \<Rightarrow> strchr digits c \<noteq> None)"

definition atoi :: "string \<Rightarrow> nat" where
  "atoi s = fold (\<lambda>c n. n * 10 + the (strchr digits c)) (takeWhile (\<lambda>c. strchr digits c \<noteq> None) s) 0"

text \<open>
  A round of \<open>ga_port\<close> added to the count; \<open>Inl\<close> leaves the function with \<open>EAI_MEMORY\<close>. The
  services database is the parameter \<open>getservbyname\<close>, with ports in network byte order.
\<close>

type_synonym services = "string \<Rightarrow> string \<Rightarrow> port option"

definition port_round :: "port \<Rightarrow> int \<Rightarrow> nat option \<times> addrinfo list \<times> gheap \<Rightarrow> nat option \<times> addrinfo list \<times> gheap" where
  "port_round port socktype st =
    (case st of
       (None, ais, h) \<Rightarrow> (None, ais, h)
     | (Some nfound, ais, h) \<Rightarrow>
         (case ga_port ais port socktype h of (rc, ais', h') \<Rightarrow> (map_option (\<lambda>rc. nfound + rc) rc, ais', h')))"

definition ga_serv ::
  "bool \<Rightarrow> services \<Rightarrow> addrinfo list \<Rightarrow> addrinfo \<Rightarrow> string \<Rightarrow> gheap \<Rightarrow> eai option \<times> addrinfo list \<times> gheap" where
  "ga_serv be getservbyname ais hints serv h =
    (let st0 = (Some 0, ais, h);
         st = (if isdigit0 serv then
                 let port = htons be (int (atoi serv)) in
                 if ai_socktype hints \<noteq> 0 then port_round port (ai_socktype hints) st0
                 else port_round port SOCK_DGRAM (port_round port SOCK_STREAM st0)
               else
                 let st1 = (if ai_socktype hints = 0 \<or> ai_socktype hints = SOCK_STREAM then
                              (case getservbyname serv ''tcp'' of
                                 None \<Rightarrow> st0 | Some p \<Rightarrow> port_round p SOCK_STREAM st0)
                            else st0)
                 in if ai_socktype hints = 0 \<or> ai_socktype hints = SOCK_DGRAM then
                      (case getservbyname serv ''udp'' of
                         None \<Rightarrow> st1 | Some p \<Rightarrow> port_round p SOCK_DGRAM st1)
                    else st1)
     in case st of
          (None, ais', h') \<Rightarrow> (Some EAI_MEMORY, ais', h')
        | (Some nfound, ais', h') \<Rightarrow>
            (if nfound = 0 then Some (if ai_socktype hints = 0 then EAI_NONAME else EAI_SERVICE) else None,
             ais', h'))"

section \<open>\<open>ga_unix\<close>\<close>

text \<open>
  \<open>Inr ais\<close>: returns 0 with \<open>*result\<close> set; \<open>Inl e\<close>: returns the error. The nodename that
  \<open>uname\<close> reports is a parameter.
\<close>

definition ga_unix ::
  "string result \<Rightarrow> string \<Rightarrow> addrinfo \<Rightarrow> gheap \<Rightarrow> (eai + addrinfo list) \<times> gheap" where
  "ga_unix uname path hints h =
    (if ai_family hints \<noteq> AF_UNSPEC \<and> ai_family hints \<noteq> AF_LOCAL then (Inl EAI_ADDRFAMILY, h)
     else
       let first = (if ai_socktype hints = 0
                    then ga_aistruct [] (hints\<lparr>ai_socktype := SOCK_STREAM\<rparr>) (Path path) AF_LOCAL h
                    else (None, [], h));
           hints1 = (if ai_socktype hints = 0 then hints\<lparr>ai_socktype := SOCK_DGRAM\<rparr> else hints)
       in case first of
            (Some e, ais, h1) \<Rightarrow> (Inl e, h1)
          | (None, ais, h1) \<Rightarrow>
              (case ga_aistruct ais hints1 (Path path) AF_LOCAL h1 of
                 (Some e, ais2, h2) \<Rightarrow> (Inl e, h2)
               | (None, ais2, h2) \<Rightarrow>
                   if ai_flags hints AND AI_CANONNAME \<noteq> 0 then
                     (case uname of
                        Inl _ \<Rightarrow> (Inl EAI_SYSTEM, h2)
                      | Inr nodename \<Rightarrow>
                          (case galloc h2 of
                             (False, h3) \<Rightarrow> (Inl EAI_MEMORY, h3)
                           | (True, h3) \<Rightarrow>
                               (Inr (case ais2 of [] \<Rightarrow> [] | ai # r \<Rightarrow> ai\<lparr>ai_canonname := Some nodename\<rparr> # r), h3)))
                   else (Inr ais2, h2)))"

section \<open>\<open>getaddrinfo\<close>\<close>

text \<open>
  The resolver: \<open>gethostbyname2\<close> with a family, and \<open>gethostbyname\<close>, whose result depends on
  the option \<open>RES_USE_INET6\<close> that the code sets before.
\<close>

datatype h_errno = HOST_NOT_FOUND | TRY_AGAIN | NO_RECOVERY | NO_DATA | H_OTHER

record hostent =
  h_name :: string
  h_addrtype :: int
  h_addr_list :: "octet list list"

record resolver =
  gethostbyname2 :: "string \<Rightarrow> int \<Rightarrow> h_errno + hostent"
  gethostbyname :: "bool \<Rightarrow> string \<Rightarrow> h_errno + hostent"
  getservbyname :: services
  getnodename :: "string result"

primrec h_errno_eai :: "h_errno \<Rightarrow> eai" where
  "h_errno_eai HOST_NOT_FOUND = EAI_NONAME"
| "h_errno_eai TRY_AGAIN = EAI_AGAIN"
| "h_errno_eai NO_RECOVERY = EAI_FAIL"
| "h_errno_eai NO_DATA = EAI_NODATA"
| "h_errno_eai H_OTHER = EAI_NONAME"

text \<open>Whether a name is a literal address, and which.\<close>

definition isxdigit0 :: "string \<Rightarrow> bool" where
  "isxdigit0 s = (case s of [] \<Rightarrow> False | c # _ \<Rightarrow> xdigit c \<noteq> None)"

definition accepted :: "errno + octet list parse \<Rightarrow> octet list option" where
  "accepted r = (case r of Inr (Accepts os) \<Rightarrow> Some os | _ \<Rightarrow> None)"

definition literal4 :: "string \<Rightarrow> octet list option" where
  "literal4 host = (if isdigit0 host then accepted (inet_pton AF_INET host) else None)"

definition literal6 :: "string \<Rightarrow> octet list option" where
  "literal6 host =
    (if (isxdigit0 host \<or> take 1 host = '':'') \<and> strchr host CHR '':'' \<noteq> None
     then accepted (inet_pton AF_INET6 host) else None)"

text \<open>
  The variables of the search loop: the list, \<open>canon\<close> and the heap. \<open>Some e\<close> in front is a
  jump to \<open>bad\<close>.
\<close>

type_synonym ga_vars = "addrinfo list \<times> string option \<times> gheap"

definition add_literal ::
  "addrinfo \<Rightarrow> int \<Rightarrow> octet list \<Rightarrow> int \<Rightarrow> ga_vars \<Rightarrow> eai option \<times> ga_vars" where
  "add_literal hints af os family vars = (case vars of (ais, canon, h) \<Rightarrow>
    if ai_family hints \<noteq> AF_UNSPEC \<and> ai_family hints \<noteq> af then (Some EAI_ADDRFAMILY, vars)
    else if family \<noteq> af then (None, vars)
    else (case ga_aistruct ais hints (Octets os) af h of (rc, ais', h') \<Rightarrow> (rc, ais', canon, h')))"

primrec add_addrs ::
  "addrinfo \<Rightarrow> int \<Rightarrow> octet list list \<Rightarrow> ga_vars \<Rightarrow> eai option \<times> ga_vars" where
  "add_addrs hints af [] vars = (None, vars)"
| "add_addrs hints af (os # oss) vars = (case vars of (ais, canon, h) \<Rightarrow>
    (case ga_aistruct ais hints (Octets os) af h of
       (Some rc, ais', h') \<Rightarrow> (Some rc, ais', canon, h')
     | (None, ais', h') \<Rightarrow> add_addrs hints af oss (ais', canon, h')))"

definition host_lookup :: "resolver \<Rightarrow> nat \<Rightarrow> string \<Rightarrow> int \<Rightarrow> h_errno + hostent" where
  "host_lookup rs nsearch host family =
    (if nsearch = 2 then gethostbyname2 rs host family
     else gethostbyname rs (family = AF_INET6) host)"

text \<open>\<open>canon\<close> is saved the first time, when a name was given and is asked for.\<close>

definition wants_canon :: "string option \<Rightarrow> addrinfo \<Rightarrow> bool" where
  "wants_canon hostname hints \<longleftrightarrow> \<not> no_text hostname \<and> ai_flags hints AND AI_CANONNAME \<noteq> 0"

definition add_host ::
  "string option \<Rightarrow> addrinfo \<Rightarrow> hostent \<Rightarrow> ga_vars \<Rightarrow> eai option \<times> ga_vars" where
  "add_host hostname hints hp vars = (case vars of (ais, canon, h) \<Rightarrow>
    if ai_family hints \<noteq> AF_UNSPEC \<and> ai_family hints \<noteq> h_addrtype hp then (Some EAI_ADDRFAMILY, vars)
    else if wants_canon hostname hints \<and> canon = None then
      (case galloc h of
         (False, h1) \<Rightarrow> (Some EAI_MEMORY, ais, canon, h1)
       | (True, h1) \<Rightarrow> add_addrs hints (h_addrtype hp) (h_addr_list hp) (ais, Some (h_name hp), h1))
    else add_addrs hints (h_addrtype hp) (h_addr_list hp) vars)"

definition search_one ::
  "resolver \<Rightarrow> string option \<Rightarrow> addrinfo \<Rightarrow> nat \<Rightarrow> search \<Rightarrow> ga_vars \<Rightarrow> eai option \<times> ga_vars" where
  "search_one rs hostname hints nsearch s vars = (case s of (host, family) \<Rightarrow>
    (case literal4 host of
       Some os \<Rightarrow> add_literal hints AF_INET os family vars
     | None \<Rightarrow>
         (case literal6 host of
            Some os \<Rightarrow> add_literal hints AF_INET6 os family vars
          | None \<Rightarrow>
              (case host_lookup rs nsearch host family of
                 Inl he \<Rightarrow> if nsearch = 2 then (None, vars) else (Some (h_errno_eai he), vars)
               | Inr hp \<Rightarrow> add_host hostname hints hp vars))))"

primrec search_all ::
  "resolver \<Rightarrow> string option \<Rightarrow> addrinfo \<Rightarrow> nat \<Rightarrow> search list \<Rightarrow> ga_vars \<Rightarrow> eai option \<times> ga_vars" where
  "search_all rs hostname hints nsearch [] vars = (None, vars)"
| "search_all rs hostname hints nsearch (s # ss) vars =
    (case search_one rs hostname hints nsearch s vars of
       (Some e, vars') \<Rightarrow> (Some e, vars')
     | (None, vars') \<Rightarrow> search_all rs hostname hints nsearch ss vars')"

text \<open>
  After the loop: the canonical name, which is attached to the first entry (\<open>search[0].host\<close>
  is copied when none was saved), and the service.
\<close>

definition attach_canon :: "string \<Rightarrow> addrinfo list \<Rightarrow> addrinfo list" where
  "attach_canon name ais = (case ais of [] \<Rightarrow> [] | ai # r \<Rightarrow> ai\<lparr>ai_canonname := Some name\<rparr> # r)"

definition return_canon ::
  "string option \<Rightarrow> addrinfo \<Rightarrow> string \<Rightarrow> ga_vars \<Rightarrow> eai option \<times> addrinfo list \<times> gheap" where
  "return_canon hostname hints host0 vars = (case vars of (ais, canon, h) \<Rightarrow>
    if wants_canon hostname hints then
      (case canon of
         Some name \<Rightarrow> (None, attach_canon name ais, h)
       | None \<Rightarrow>
           (case galloc h of
              (False, h1) \<Rightarrow> (Some EAI_MEMORY, ais, h1)
            | (True, h1) \<Rightarrow> (None, attach_canon host0 ais, h1)))
    else (None, ais, h))"

text \<open>The outcomes: success with the list, an error, and the exit in \<open>ga_nsearch\<close>.\<close>

datatype gai_result = Gai_list "addrinfo list" | Gai_error eai | Gai_exit string

definition blank_hints :: addrinfo where
  "blank_hints = \<lparr>ai_flags = 0, ai_family = AF_UNSPEC, ai_socktype = 0, ai_protocol = 0,
     ai_addrlen = 0, ai_canonname = None, ai_addr = None\<rparr>"

definition ga_finish ::
  "bool \<Rightarrow> resolver \<Rightarrow> string option \<Rightarrow> string option \<Rightarrow> addrinfo \<Rightarrow> string \<Rightarrow> ga_vars \<Rightarrow> gai_result \<times> gheap" where
  "ga_finish be rs hostname servname hints host0 vars = (case vars of (ais, canon, h) \<Rightarrow>
    if ais = [] then (Gai_error EAI_NONAME, freeaddrinfo ais h)
    else (case return_canon hostname hints host0 vars of
       (Some e, ais1, h1) \<Rightarrow> (Gai_error e, freeaddrinfo ais1 h1)
     | (None, ais1, h1) \<Rightarrow>
         if \<not> no_text servname then
           (case ga_serv be (getservbyname rs) ais1 hints (the servname) h1 of
              (Some e, ais2, h2) \<Rightarrow> (Gai_error e, freeaddrinfo ais2 h2)
            | (None, ais2, h2) \<Rightarrow> (Gai_list ais2, h2))
         else (Gai_list ais1, h1)))"

definition is_unix_name :: "string option \<Rightarrow> string option \<Rightarrow> bool" where
  "is_unix_name hostname servname \<longleftrightarrow>
    (hostname = Some ''/local'' \<or> hostname = Some ''/unix'') \<and>
    (case servname of None \<Rightarrow> False | Some t \<Rightarrow> take 1 t = ''/'')"

definition getaddrinfo ::
  "bool \<Rightarrow> resolver \<Rightarrow> string option \<Rightarrow> string option \<Rightarrow> addrinfo option \<Rightarrow> gheap \<Rightarrow> gai_result \<times> gheap" where
  "getaddrinfo be rs hostname servname hintsp h =
    (let hints = (case hintsp of None \<Rightarrow> blank_hints | Some hi \<Rightarrow> hi) in
     case ga_echeck hostname servname (ai_flags hints) (ai_family hints) (ai_socktype hints) (ai_protocol hints) of
       Some e \<Rightarrow> (Gai_error e, freeaddrinfo [] h)
     | None \<Rightarrow>
         if is_unix_name hostname servname then
           (case ga_unix (getnodename rs) (the servname) hints h of
              (Inl e, h1) \<Rightarrow> (Gai_error e, h1)
            | (Inr ais, h1) \<Rightarrow> (Gai_list ais, h1))
         else
           (case ga_nsearch hostname hints of
              None \<Rightarrow> (Gai_exit ''nsearch'', h)
            | Some search \<Rightarrow>
                (case search_all rs hostname hints (length search) search ([], None, h) of
                   (Some e, ais, canon, h1) \<Rightarrow> (Gai_error e, freeaddrinfo ais h1)
                 | (None, vars) \<Rightarrow> ga_finish be rs hostname servname hints (fst (hd search)) vars)))"

section \<open>\<open>getnameinfo\<close>\<close>

definition NI_NOFQDN :: cint where "NI_NOFQDN = 1"
definition NI_NUMERICHOST :: cint where "NI_NUMERICHOST = 2"
definition NI_NAMEREQD :: cint where "NI_NAMEREQD = 4"
definition NI_NUMERICSERV :: cint where "NI_NUMERICSERV = 8"
definition NI_DGRAM :: cint where "NI_DGRAM = 16"

text \<open>
  The database lookups are parameters. \<open>Some (host, serv)\<close>: returns 0 with the texts stored,
  each \<open>None\<close> when its length is 0; \<open>None\<close>: returns 1.
\<close>

record nameserver =
  gethostbyaddr :: "octet list \<Rightarrow> int \<Rightarrow> string option"
  getservbyport :: "port \<Rightarrow> bool \<Rightarrow> string option"

definition numeric_host :: "int \<Rightarrow> octet list \<Rightarrow> nat \<Rightarrow> string option" where
  "numeric_host family a hostlen =
    (case inet_ntop family a hostlen of Accepts (Inr s) \<Rightarrow> Some s | _ \<Rightarrow> None)"

definition gn_host ::
  "nameserver \<Rightarrow> nat \<Rightarrow> octet list \<Rightarrow> int \<Rightarrow> cint \<Rightarrow> string option" where
  "gn_host ns hostlen a family flags =
    (if flags AND NI_NUMERICHOST \<noteq> 0 then numeric_host family a hostlen
     else (case gethostbyaddr ns a family of
             Some name \<Rightarrow>
               Some (snprintf hostlen (if flags AND NI_NOFQDN \<noteq> 0 then takeWhile (\<lambda>c. c \<noteq> CHR ''.'') name else name))
           | None \<Rightarrow> if flags AND NI_NAMEREQD \<noteq> 0 then None else numeric_host family a hostlen))"

definition gn_serv :: "bool \<Rightarrow> nameserver \<Rightarrow> nat \<Rightarrow> port \<Rightarrow> cint \<Rightarrow> string" where
  "gn_serv be ns servlen p flags =
    snprintf servlen
      (if flags AND NI_NUMERICSERV \<noteq> 0 then fmt_u (ntohs be p)
       else (case getservbyport ns p (flags AND NI_DGRAM \<noteq> 0) of
               Some name \<Rightarrow> name
             | None \<Rightarrow> fmt_u (ntohs be p)))"

definition gn_ipv46 ::
  "bool \<Rightarrow> nameserver \<Rightarrow> nat \<Rightarrow> nat \<Rightarrow> octet list \<Rightarrow> int \<Rightarrow> port \<Rightarrow> cint \<Rightarrow> (string option \<times> string option) option" where
  "gn_ipv46 be ns hostlen servlen a family p flags =
    (let serv = (if 0 < servlen then Some (gn_serv be ns servlen p flags) else None) in
     if 0 < hostlen then
       (case gn_host ns hostlen a family flags of None \<Rightarrow> None | Some host \<Rightarrow> Some (Some host, serv))
     else Some (None, serv))"

primrec getnameinfo ::
  "bool \<Rightarrow> nameserver \<Rightarrow> nat \<Rightarrow> nat \<Rightarrow> cint \<Rightarrow> sockaddr \<Rightarrow> (string option \<times> string option) option" where
  "getnameinfo be ns hostlen servlen flags (Sockaddr_in p a) = gn_ipv46 be ns hostlen servlen a AF_INET p flags"
| "getnameinfo be ns hostlen servlen flags (Sockaddr_in6 p a) = gn_ipv46 be ns hostlen servlen a AF_INET6 p flags"
| "getnameinfo be ns hostlen servlen flags (Sockaddr_un path) =
    Some (if 0 < hostlen then Some (snprintf hostlen ''/local'') else None,
          if 0 < servlen then Some (snprintf servlen path) else None)"
| "getnameinfo be ns hostlen servlen flags (Sockaddr_other f) = None"

end
