(* ===== verification/Gai_Correct.thy ===== *)
theory Gai_Correct
  imports Gai
begin

text \<open>
  \<open>getaddrinfo\<close> accounts for every block it allocates and builds well-formed entries: the
  lemmas about each helper, and what they need of the resolver.
\<close>

section \<open>Blocks\<close>

definition blocks :: "addrinfo list \<Rightarrow> nat" where
  "blocks ais = sum_list (map ai_blocks ais)"

lemma blocks_simps [simp]:
  "blocks [] = 0" "blocks (ai # ais) = ai_blocks ai + blocks ais" "blocks (xs @ ys) = blocks xs + blocks ys"
  by (simp_all add: blocks_def)

lemma galloc_live:
  "galloc h = (True, h') \<Longrightarrow> live h' = live h + 1" "galloc h = (False, h') \<Longrightarrow> live h' = live h"
  by (auto simp: galloc_def split: list.splits if_splits)

lemma freeaddrinfo_live: "live (freeaddrinfo ais h) = live h - blocks ais"
  by (induction ais arbitrary: h) auto

lemma ai_blocks_blank [simp]: "ai_blocks (blank_ai hints af) = 1"
  by (simp add: ai_blocks_def blank_ai_def)

lemma ai_blocks_addr [simp]:
  "ai_blocks (blank_ai hints af\<lparr>ai_addr := Some sa, ai_addrlen := n\<rparr>) = 2"
  by (simp add: ai_blocks_def blank_ai_def)

text \<open>A helper is balanced when the blocks it allocates are the blocks of the list it returns.\<close>

lemma ga_aistruct_live:
  "ga_aistruct ais hints a af h = (rc, ais', h') \<Longrightarrow> live h' + blocks ais = live h + blocks ais'"
  unfolding ga_aistruct_def
  by (auto simp: Let_def dest!: galloc_live split: prod.splits bool.splits if_splits)

definition canon_blocks :: "string option \<Rightarrow> nat" where
  "canon_blocks canon = (if canon = None then 0 else 1)"

definition held :: "ga_vars \<Rightarrow> nat" where
  "held vars = (case vars of (ais, canon, h) \<Rightarrow> blocks ais + canon_blocks canon)"

definition vars_live :: "ga_vars \<Rightarrow> nat" where
  "vars_live vars = (case vars of (ais, canon, h) \<Rightarrow> live h)"

lemma held_simps [simp]:
  "held (ais, canon, h) = blocks ais + canon_blocks canon" "vars_live (ais, canon, h) = live h"
  by (simp_all add: held_def vars_live_def)

definition balanced :: "ga_vars \<Rightarrow> ga_vars \<Rightarrow> bool" where
  "balanced v v' \<longleftrightarrow> vars_live v' + held v = vars_live v + held v'"

lemma balanced_refl [simp]: "balanced v v"
  by (simp add: balanced_def)

lemma balanced_trans: "balanced u v \<Longrightarrow> balanced v w \<Longrightarrow> balanced u w"
  by (simp add: balanced_def)

lemma add_literal_balanced:
  "add_literal hints af os family v = (rc, v') \<Longrightarrow> balanced v v'"
  by (auto simp: add_literal_def balanced_def dest!: ga_aistruct_live split: prod.splits if_splits)

lemma add_addrs_balanced:
  "add_addrs hints af oss v = (rc, v') \<Longrightarrow> balanced v v'"
proof (induction oss arbitrary: v)
  case Nil
  then show ?case by simp
next
  case (Cons os oss)
  obtain ais canon h where v: "v = (ais, canon, h)" by (cases v)
  obtain e ais1 h1 where a: "ga_aistruct ais hints (Octets os) af h = (e, ais1, h1)"
    by (cases "ga_aistruct ais hints (Octets os) af h")
  have b: "balanced v (ais1, canon, h1)"
    using ga_aistruct_live [OF a] by (simp add: v balanced_def)
  show ?case
  proof (cases e)
    case None
    then have "add_addrs hints af oss (ais1, canon, h1) = (rc, v')"
      using Cons.prems by (simp add: v a)
    then show ?thesis using Cons.IH b balanced_trans by blast
  next
    case (Some x)
    then show ?thesis using Cons.prems b by (simp add: v a)
  qed
qed

lemma add_host_balanced:
  assumes "add_host hostname hints hp v = (rc, v')"
  shows "balanced v v'"
proof -
  obtain ais canon h where v: "v = (ais, canon, h)" by (cases v)
  show ?thesis
  proof (cases "wants_canon hostname hints \<and> canon = None")
    case True
    obtain ok h1 where g: "galloc h = (ok, h1)" by fastforce
    show ?thesis
    proof (cases "ok \<and> \<not> (ai_family hints \<noteq> AF_UNSPEC \<and> ai_family hints \<noteq> h_addrtype hp)")
      case go: True
      then have "balanced v (ais, Some (h_name hp), h1)"
        using True g galloc_live(1) [of h h1] by (simp add: v balanced_def canon_blocks_def)
      moreover have "add_addrs hints (h_addrtype hp) (h_addr_list hp) (ais, Some (h_name hp), h1) = (rc, v')"
        using assms True go g by (auto simp: add_host_def v)
      ultimately show ?thesis using add_addrs_balanced balanced_trans by blast
    next
      case False
      then show ?thesis
        using assms True g galloc_live(2) [of h h1]
        by (auto simp: add_host_def v balanced_def split: if_splits bool.splits)
    qed
  next
    case False
    then have "rc = Some EAI_ADDRFAMILY \<and> v' = v \<or>
        add_addrs hints (h_addrtype hp) (h_addr_list hp) v = (rc, v')"
      using assms by (auto simp: add_host_def v split: if_splits)
    then show ?thesis by (metis add_addrs_balanced balanced_refl)
  qed
qed

lemma search_one_balanced:
  "search_one rs hostname hints n s v = (rc, v') \<Longrightarrow> balanced v v'"
  unfolding search_one_def
  using add_literal_balanced add_host_balanced
  by (auto split: prod.splits option.splits sum.splits if_splits)

lemma search_all_balanced:
  "search_all rs hostname hints n ss v = (rc, v') \<Longrightarrow> balanced v v'"
proof (induction ss arbitrary: v)
  case (Cons s ss)
  obtain e v1 where o1: "search_one rs hostname hints n s v = (e, v1)"
    by (cases "search_one rs hostname hints n s v")
  have b: "balanced v v1" by (rule search_one_balanced [OF o1])
  show ?case
  proof (cases e)
    case None
    then show ?thesis using Cons o1 b balanced_trans by (auto split: prod.splits)
  next
    case (Some x)
    then show ?thesis using Cons.prems o1 b by simp
  qed
qed simp

section \<open>Well-formed entries\<close>

text \<open>
  What is used of the resolver: it reports IPv4 or IPv6 addresses, of the right length.
\<close>

definition hostent_ok :: "hostent \<Rightarrow> bool" where
  "hostent_ok hp \<longleftrightarrow>
    (h_addrtype hp = AF_INET \<and> list_all (\<lambda>os. length os = 4) (h_addr_list hp) \<or>
     h_addrtype hp = AF_INET6 \<and> list_all (\<lambda>os. length os = 16) (h_addr_list hp))"

definition resolver_ok :: "resolver \<Rightarrow> bool" where
  "resolver_ok rs \<longleftrightarrow>
    (\<forall>host af hp. gethostbyname2 rs host af = Inr hp \<longrightarrow> hostent_ok hp) \<and>
    (\<forall>b host hp. gethostbyname rs b host = Inr hp \<longrightarrow> hostent_ok hp)"

text \<open>
  An entry of the result: an address structure of the entry's family, in agreement with the
  family and the socket type that the caller asked for.
\<close>

definition entry_ok :: "addrinfo \<Rightarrow> addrinfo \<Rightarrow> bool" where
  "entry_ok hints ai \<longleftrightarrow>
    (\<exists>sa. ai_addr ai = Some sa \<and> sockaddr_ok sa \<and> sa_family sa = ai_family ai) \<and>
    (ai_family ai = AF_INET \<or> ai_family ai = AF_INET6) \<and>
    (ai_family hints = AF_UNSPEC \<or> ai_family hints = ai_family ai) \<and>
    (ai_socktype hints = 0 \<or> ai_socktype ai = ai_socktype hints) \<and>
    (ai_socktype ai \<noteq> 0 \<or> ai_flags ai AND AI_CLONE \<noteq> 0)"

abbreviation entries_ok :: "addrinfo \<Rightarrow> addrinfo list \<Rightarrow> bool" where
  "entries_ok hints \<equiv> list_all (entry_ok hints)"

lemma ga_aistruct_ok:
  assumes "ga_aistruct ais hints (Octets os) af h = (None, ais', h')" and "entries_ok hints ais"
    and "af = AF_INET \<and> length os = 4 \<or> af = AF_INET6 \<and> length os = 16"
    and "ai_family hints = AF_UNSPEC \<or> ai_family hints = af"
  shows "entries_ok hints ais' \<and> ais' \<noteq> []"
  using assms
  by (auto simp: ga_aistruct_def entry_ok_def blank_ai_def raw_octets_def AF_defs AI_CLONE_def Let_def
      split: prod.splits bool.splits if_splits)

lemma add_literal_ok:
  assumes "add_literal hints af os family (ais, canon, h) = (None, ais', canon', h')" and "entries_ok hints ais"
    and "af = AF_INET \<and> length os = 4 \<or> af = AF_INET6 \<and> length os = 16"
  shows "entries_ok hints ais'"
  using assms ga_aistruct_ok [of ais hints os af h ais' h']
  by (auto simp: add_literal_def split: prod.splits if_splits)

lemma add_addrs_ok:
  assumes "add_addrs hints af oss (ais, canon, h) = (None, ais', canon', h')" and "entries_ok hints ais"
    and "af = AF_INET \<and> list_all (\<lambda>os. length os = 4) oss \<or> af = AF_INET6 \<and> list_all (\<lambda>os. length os = 16) oss"
    and "ai_family hints = AF_UNSPEC \<or> ai_family hints = af"
  shows "entries_ok hints ais'"
  using assms
proof (induction oss arbitrary: ais canon h)
  case (Cons os oss)
  obtain e ais1 h1 where a: "ga_aistruct ais hints (Octets os) af h = (e, ais1, h1)"
    by (cases "ga_aistruct ais hints (Octets os) af h")
  then show ?case
    using Cons ga_aistruct_ok [of ais hints os af h ais1 h1] by (cases e) auto
qed simp

lemma add_host_ok:
  assumes "add_host hostname hints hp (ais, canon, h) = (None, ais', canon', h')" and "entries_ok hints ais"
    and "hostent_ok hp"
  shows "entries_ok hints ais'"
proof -
  have fam: "ai_family hints = AF_UNSPEC \<or> ai_family hints = h_addrtype hp"
    using assms(1) by (auto simp: add_host_def split: if_splits)
  obtain canon1 h1 where
    "add_addrs hints (h_addrtype hp) (h_addr_list hp) (ais, canon1, h1) = (None, ais', canon', h')"
    using assms(1) by (auto simp: add_host_def split: if_splits prod.splits bool.splits)
  then show ?thesis
    using add_addrs_ok [OF _ assms(2) _ fam] assms(3) by (auto simp: hostent_ok_def)
qed

lemma literal4_length: "literal4 host = Some os \<Longrightarrow> length os = 4"
  by (auto simp: literal4_def accepted_def inet_pton_def inet_pton4_length split: if_splits sum.splits parse.splits)

lemma literal6_length: "literal6 host = Some os \<Longrightarrow> length os = 16"
  using inet_pton6_ok [of host]
  by (auto simp: literal6_def accepted_def inet_pton_def AF_defs split: if_splits sum.splits parse.splits)

lemma search_one_ok:
  assumes "search_one rs hostname hints n s (ais, canon, h) = (None, ais', canon', h')"
    and "entries_ok hints ais" and "resolver_ok rs"
  shows "entries_ok hints ais'"
proof -
  obtain host family where s: "s = (host, family)" by fastforce
  have hp: "host_lookup rs n host family = Inr hp \<Longrightarrow> hostent_ok hp" for hp
    using assms(3) by (auto simp: host_lookup_def resolver_ok_def split: if_splits)
  consider os where "literal4 host = Some os" | os where "literal4 host = None" "literal6 host = Some os"
    | "literal4 host = None" "literal6 host = None" by fastforce
  then show ?thesis
  proof cases
    case 1
    then show ?thesis
      using assms(1,2) add_literal_ok literal4_length by (auto simp: search_one_def s)
  next
    case 2
    then show ?thesis
      using assms(1,2) add_literal_ok literal6_length by (auto simp: search_one_def s)
  next
    case 3
    then show ?thesis
      using assms(1,2) add_host_ok hp
      by (auto simp: search_one_def s split: sum.splits if_splits)
  qed
qed

lemma search_all_ok:
  assumes "search_all rs hostname hints n ss (ais, canon, h) = (None, ais', canon', h')"
    and "entries_ok hints ais" and "resolver_ok rs"
  shows "entries_ok hints ais'"
  using assms(1,2)
proof (induction ss arbitrary: ais canon h)
  case (Cons s ss)
  obtain e ais1 canon1 h1 where "search_one rs hostname hints n s (ais, canon, h) = (e, ais1, canon1, h1)"
    by (cases "search_one rs hostname hints n s (ais, canon, h)") auto
  then show ?case
    using Cons search_one_ok [OF _ Cons.prems(2) assms(3)] by (cases e) auto
qed simp

section \<open>Services\<close>

lemma ga_clone_cases:
  assumes "ga_clone ai h = (b, new, h')" and "ai_addr ai \<noteq> None"
  shows "live h' = live h + blocks new \<and> (b \<longrightarrow> new = [ai\<lparr>ai_flags := 0, ai_canonname := None\<rparr>])"
  using assms
  by (auto simp: ga_clone_def ai_blocks_def Let_def dest!: galloc_live split: prod.splits bool.splits)

lemma set_port_simps [simp]:
  "ai_blocks (set_port p t ai) = ai_blocks ai" "ai_socktype (set_port p t ai) = t"
  "ai_family (set_port p t ai) = ai_family ai"
  by (simp_all add: set_port_def ai_blocks_def Let_def)

lemma sock_set_port_ok [simp]:
  "sockaddr_ok (sock_set_port sa n) = sockaddr_ok sa" "sa_family (sock_set_port sa n) = sa_family sa"
  by (cases sa; simp)+

lemma entry_ok_set_port:
  assumes "entry_ok hints ai" and "ai_socktype hints = 0 \<or> ai_socktype hints = t" and "t \<noteq> 0"
  shows "entry_ok hints (set_port p t ai)"
  using assms by (auto simp: entry_ok_def set_port_def Let_def)

lemma entry_ok_clone:
  assumes "entry_ok hints ai" and "ai_socktype ai \<noteq> 0"
  shows "entry_ok hints (ai\<lparr>ai_flags := 0, ai_canonname := None\<rparr>)"
  using assms by (simp add: entry_ok_def)

definition typed :: "addrinfo \<Rightarrow> bool" where
  "typed ai \<longleftrightarrow> ai_socktype ai \<noteq> 0"

lemma ga_port_ok:
  assumes "ga_port ais p t h = (n, ais', h')" and "entries_ok hints ais"
    and "ai_socktype hints = 0 \<or> ai_socktype hints = t" and "t \<noteq> 0"
  shows "live h' + blocks ais = live h + blocks ais' \<and>
    (n \<noteq> None \<longrightarrow> entries_ok hints ais' \<and> list_all typed ais' \<and> (ais \<noteq> [] \<longrightarrow> ais' \<noteq> []))"
  using assms(1,2)
proof (induction ais arbitrary: n ais' h h')
  case Nil
  then show ?case by simp
next
  case (Cons ai ais)
  have ai: "entry_ok hints ai" and ais: "entries_ok hints ais"
    using Cons.prems(2) by auto
  then have addr: "ai_addr ai \<noteq> None"
    by (auto simp: entry_ok_def)
  consider (clone) "ai_flags ai AND AI_CLONE \<noteq> 0" "ai_socktype ai \<noteq> 0"
    | (skip) "ai_flags ai AND AI_CLONE = 0" "ai_socktype ai \<noteq> t"
    | (set) "\<not> (ai_flags ai AND AI_CLONE \<noteq> 0 \<and> ai_socktype ai \<noteq> 0)"
        "\<not> (ai_flags ai AND AI_CLONE = 0 \<and> ai_socktype ai \<noteq> t)" by blast
  then show ?case
  proof cases
    case clone
    obtain b new h1 where c: "ga_clone ai h = (b, new, h1)" by (cases "ga_clone ai h")
    obtain m ais2 h2 where g: "ga_port ais p t h1 = (m, ais2, h2)" by (cases "ga_port ais p t h1")
    note cc = ga_clone_cases [OF c addr]
    note IH = Cons.IH [OF g ais]
    show ?thesis
    proof (cases b)
      case True
      define cl where "cl = ai\<lparr>ai_flags := 0, ai_canonname := None\<rparr>"
      have "entry_ok hints (set_port p t cl)"
        using entry_ok_set_port [OF entry_ok_clone [OF ai clone(2)] assms(3,4)] by (simp add: cl_def)
      then show ?thesis
        using Cons.prems(1) clone c g True cc IH ai assms(4) by (auto simp: typed_def cl_def)
    next
      case False
      then show ?thesis using Cons.prems(1) clone c cc by auto
    qed
  next
    case skip
    obtain m ais2 h2 where g: "ga_port ais p t h = (m, ais2, h2)" by (cases "ga_port ais p t h")
    have "ai_socktype ai \<noteq> 0"
      using ai skip by (auto simp: entry_ok_def)
    then show ?thesis
      using Cons.prems(1) Cons.IH [OF g ais] ai skip g by (auto simp: typed_def)
  next
    case set
    obtain m ais2 h2 where g: "ga_port ais p t h = (m, ais2, h2)" by (cases "ga_port ais p t h")
    have "n = map_option (\<lambda>n. n + port_counts ai) m \<and> ais' = set_port p t ai # ais2 \<and> h' = h2"
      using Cons.prems(1) set g by (auto split: if_splits)
    then show ?thesis
      using Cons.IH [OF g ais] entry_ok_set_port [OF ai assms(3,4)] assms(4) by (auto simp: typed_def)
  qed
qed

text \<open>The state between two rounds over the list.\<close>

definition round_ok :: "addrinfo \<Rightarrow> nat option \<times> addrinfo list \<times> gheap \<Rightarrow> bool" where
  "round_ok hints st = (case st of (n, ais, h) \<Rightarrow>
     n \<noteq> None \<longrightarrow> entries_ok hints ais \<and> ais \<noteq> [] \<and> (n \<noteq> Some 0 \<longrightarrow> list_all typed ais))"

definition round_live :: "nat option \<times> addrinfo list \<times> gheap \<Rightarrow> int" where
  "round_live st = (case st of (n, ais, h) \<Rightarrow> int (live h) - int (blocks ais))"

lemma port_round_ok:
  assumes "round_ok hints st" and "ai_socktype hints = 0 \<or> ai_socktype hints = t" and "t \<noteq> 0"
  shows "round_ok hints (port_round p t st) \<and> round_live (port_round p t st) = round_live st"
proof -
  obtain n ais h where st: "st = (n, ais, h)" by (cases st)
  show ?thesis
  proof (cases n)
    case None
    then show ?thesis using assms(1) by (simp add: port_round_def st round_ok_def)
  next
    case (Some k)
    obtain m ais' h' where g: "ga_port ais p t h = (m, ais', h')" by (cases "ga_port ais p t h")
    show ?thesis
      using ga_port_ok [OF g _ assms(2,3)] assms(1)
      by (auto simp: port_round_def st Some g round_ok_def round_live_def)
  qed
qed

lemma ga_serv_ok:
  assumes "ga_serv be gs ais hints serv h = (rc, ais', h')" and "entries_ok hints ais" and "ais \<noteq> []"
  shows "live h' + blocks ais = live h + blocks ais' \<and>
    (rc = None \<longrightarrow> entries_ok hints ais' \<and> list_all typed ais' \<and> ais' \<noteq> [])"
proof -
  define st0 where "st0 = (Some (0 :: nat), ais, h)"
  have ok0: "round_ok hints st0"
    using assms(2,3) by (simp add: st0_def round_ok_def)
  note step = port_round_ok [of hints]
  define st where "st =
    (if isdigit0 serv then
       let port = htons be (int (atoi serv)) in
       if ai_socktype hints \<noteq> 0 then port_round port (ai_socktype hints) st0
       else port_round port SOCK_DGRAM (port_round port SOCK_STREAM st0)
     else
       let st1 = (if ai_socktype hints = 0 \<or> ai_socktype hints = SOCK_STREAM then
                    (case gs serv ''tcp'' of None \<Rightarrow> st0 | Some p \<Rightarrow> port_round p SOCK_STREAM st0)
                  else st0)
       in if ai_socktype hints = 0 \<or> ai_socktype hints = SOCK_DGRAM then
            (case gs serv ''udp'' of None \<Rightarrow> st1 | Some p \<Rightarrow> port_round p SOCK_DGRAM st1)
          else st1)"
  have st: "round_ok hints st \<and> round_live st = round_live st0"
    using ok0 step unfolding st_def Let_def by (auto simp: SOCK_defs split: option.split)
  obtain n ais1 h1 where st1: "st = (n, ais1, h1)" by (cases st)
  have "ga_serv be gs ais hints serv h =
    (case n of None \<Rightarrow> Some EAI_MEMORY
     | Some k \<Rightarrow> if k = 0 then Some (if ai_socktype hints = 0 then EAI_NONAME else EAI_SERVICE) else None, ais1, h1)"
    unfolding ga_serv_def Let_def st0_def [symmetric]
    using st1 unfolding st_def Let_def by (cases n) simp_all
  then show ?thesis
    using assms(1) st by (auto simp: st1 st0_def round_ok_def round_live_def split: option.splits if_splits)
qed

end
