(* ===== verification/Gai_Props.thy ===== *)
theory Gai_Props
  imports Gai_Correct Sockaddr_Props
begin

text \<open>The properties of \<open>getaddrinfo\<close>, \<open>ga_serv\<close> and \<open>getnameinfo\<close>.\<close>

section \<open>Memory and well-formedness of the result\<close>

lemma attach_canon_blocks:
  assumes "ais \<noteq> []" and "entries_ok hints ais" and "ai_canonname (hd ais) = None"
  shows "blocks (attach_canon name ais) = blocks ais + 1 \<and> entries_ok hints (attach_canon name ais) \<and>
    attach_canon name ais \<noteq> []"
  using assms by (cases ais) (auto simp: attach_canon_def ai_blocks_def entry_ok_def)

text \<open>Before the canonical name is attached, no entry has one.\<close>

abbreviation no_canons :: "addrinfo list \<Rightarrow> bool" where
  "no_canons \<equiv> list_all (\<lambda>ai. ai_canonname ai = None)"

lemma ga_aistruct_canon:
  "ga_aistruct ais hints a af h = (rc, ais', h') \<Longrightarrow> no_canons ais \<Longrightarrow> no_canons ais'"
  by (auto simp: ga_aistruct_def blank_ai_def Let_def split: prod.splits bool.splits if_splits)

lemma add_addrs_canon:
  "add_addrs hints af oss (ais, canon, h) = (rc, ais', canon', h') \<Longrightarrow> no_canons ais \<Longrightarrow>
    no_canons ais' \<and> canon' = canon"
proof (induction oss arbitrary: ais canon h)
  case (Cons os oss)
  obtain e ais1 h1 where a: "ga_aistruct ais hints (Octets os) af h = (e, ais1, h1)"
    by (cases "ga_aistruct ais hints (Octets os) af h")
  then show ?case using Cons ga_aistruct_canon [OF a] by (cases e) auto
qed simp

lemma search_one_canon:
  assumes "search_one rs hostname hints n s (ais, canon, h) = (rc, ais', canon', h')" and "no_canons ais"
    and "canon \<noteq> None \<longrightarrow> wants_canon hostname hints"
  shows "no_canons ais' \<and> (canon' \<noteq> None \<longrightarrow> wants_canon hostname hints)"
proof -
  have lit: "no_canons ais' \<and> (canon' \<noteq> None \<longrightarrow> wants_canon hostname hints)"
    if "add_literal hints af os family (ais, canon, h) = (rc, ais', canon', h')" for af os family
    using that assms(2,3) by (auto simp: add_literal_def dest!: ga_aistruct_canon split: prod.splits if_splits)
  have hst: "no_canons ais' \<and> (canon' \<noteq> None \<longrightarrow> wants_canon hostname hints)"
    if "add_host hostname hints hp (ais, canon, h) = (rc, ais', canon', h')" for hp
    using that assms(2,3)
    by (auto simp: add_host_def dest!: add_addrs_canon split: prod.splits if_splits bool.splits)
  show ?thesis
    using assms lit hst by (auto simp: search_one_def split: prod.splits option.splits sum.splits if_splits)
qed

lemma search_all_canon:
  assumes "search_all rs hostname hints n ss (ais, canon, h) = (rc, ais', canon', h')" and "no_canons ais"
    and "canon \<noteq> None \<longrightarrow> wants_canon hostname hints"
  shows "no_canons ais' \<and> (canon' \<noteq> None \<longrightarrow> wants_canon hostname hints)"
  using assms
proof (induction ss arbitrary: ais canon h)
  case (Cons s ss)
  obtain e ais1 canon1 h1 where o1: "search_one rs hostname hints n s (ais, canon, h) = (e, ais1, canon1, h1)"
    by (cases "search_one rs hostname hints n s (ais, canon, h)") auto
  then show ?case using Cons search_one_canon [OF o1 Cons.prems(2,3)] by (cases e) auto
qed simp

text \<open>What holds of the result and of the heap after a call.\<close>

definition gai_post :: "string option \<Rightarrow> string option \<Rightarrow> addrinfo \<Rightarrow> gheap \<Rightarrow> gai_result \<times> gheap \<Rightarrow> bool" where
  "gai_post hostname servname hints h out = (case out of
     (Gai_list ais, h') \<Rightarrow> ais \<noteq> [] \<and> entries_ok hints ais \<and> live h' = live h + blocks ais \<and>
       (\<not> no_text servname \<longrightarrow> list_all typed ais)
   | (Gai_error e, h') \<Rightarrow> live h' = live h \<or> wants_canon hostname hints \<and> live h' = live h + 1
   | (Gai_exit s, h') \<Rightarrow> False)"

lemma return_canon_ok:
  assumes "return_canon hostname hints host0 (ais, canon, h) = (rc, ais', h')"
    and "ais \<noteq> []" "entries_ok hints ais" "no_canons ais" "canon \<noteq> None \<longrightarrow> wants_canon hostname hints"
  shows "(rc = None \<longrightarrow> entries_ok hints ais' \<and> ais' \<noteq> [] \<and>
      live h' + blocks ais + canon_blocks canon = live h + blocks ais') \<and>
    (rc \<noteq> None \<longrightarrow> ais' = ais \<and> live h' = live h \<and> canon = None)"
proof -
  have "ai_canonname (hd ais) = None"
    using assms(2,4) by (cases ais) auto
  note at = attach_canon_blocks [OF assms(2,3) this]
  show ?thesis
    using assms(1,5) at assms(2,3)
    by (auto simp: return_canon_def canon_blocks_def dest!: galloc_live split: option.splits if_splits prod.splits bool.splits)
qed

lemma ga_finish_post:
  assumes "entries_ok hints ais" and "no_canons ais" and "canon \<noteq> None \<longrightarrow> wants_canon hostname hints"
    and live: "live h1 = live h + blocks ais + canon_blocks canon"
  shows "gai_post hostname servname hints h (ga_finish be rs hostname servname hints host0 (ais, canon, h1))"
proof (cases "ais = []")
  case True
  then show ?thesis
    using assms by (auto simp: ga_finish_def gai_post_def canon_blocks_def)
next
  case False
  obtain rc ais1 h2 where r: "return_canon hostname hints host0 (ais, canon, h1) = (rc, ais1, h2)"
    by (cases "return_canon hostname hints host0 (ais, canon, h1)")
  note ro = return_canon_ok [OF r False assms(1-3)]
  obtain e ais2 h3 where sv: "ga_serv be (getservbyname rs) ais1 hints (the servname) h2 = (e, ais2, h3)"
    by (cases "ga_serv be (getservbyname rs) ais1 hints (the servname) h2")
  show ?thesis
  proof (cases rc)
    case (Some x)
    then show ?thesis
      using False r ro live by (simp add: ga_finish_def gai_post_def freeaddrinfo_live canon_blocks_def)
  next
    case None
    then have ok1: "entries_ok hints ais1" "ais1 \<noteq> []" "live h2 = live h + blocks ais1"
      using ro live by auto
    then show ?thesis
      using False r None ga_serv_ok [OF sv ok1(1,2)] sv
      by (cases e) (auto simp: ga_finish_def gai_post_def freeaddrinfo_live)
  qed
qed

lemma length_by_family:
  "family = AF_UNSPEC \<or> family = AF_INET \<or> family = AF_INET6 \<Longrightarrow>
    0 < length (by_family family a b) \<and> length (by_family family a b) \<le> 2"
  by (auto simp: by_family_def AF_defs)

lemma ga_nsearch_some:
  "ai_family hints = AF_UNSPEC \<or> ai_family hints = AF_INET \<or> ai_family hints = AF_INET6 \<Longrightarrow>
    \<exists>search. ga_nsearch hostname hints = Some search"
  using length_by_family [of "ai_family hints"]
  by (auto simp: ga_nsearch_def Let_def Suc_le_eq not_less simp del: length_greater_0_conv)

lemma getaddrinfo_post:
  assumes "resolver_ok rs" and "\<not> is_unix_name hostname servname"
    and "ai_family hints \<noteq> AF_LOCAL"
  shows "gai_post hostname servname hints h (getaddrinfo be rs hostname servname (Some hints) h)"
proof (cases "ga_echeck hostname servname (ai_flags hints) (ai_family hints) (ai_socktype hints) (ai_protocol hints)")
  case (Some e)
  then show ?thesis by (simp add: getaddrinfo_def gai_post_def)
next
  case None
  then have "ai_family hints = AF_UNSPEC \<or> ai_family hints = AF_INET \<or> ai_family hints = AF_INET6"
    using assms(3) by (auto simp: ga_echeck_def split: if_splits)
  then obtain search where ns: "ga_nsearch hostname hints = Some search"
    using ga_nsearch_some by blast
  obtain rc ais canon h1 where sa: "search_all rs hostname hints (length search) search ([], None, h) = (rc, ais, canon, h1)"
    by (cases "search_all rs hostname hints (length search) search ([], None, h)") auto
  have bal: "live h1 = live h + blocks ais + canon_blocks canon"
    using search_all_balanced [OF sa] by (simp add: balanced_def canon_blocks_def)
  have canon: "no_canons ais \<and> (canon \<noteq> None \<longrightarrow> wants_canon hostname hints)"
    using search_all_canon [OF sa] by simp
  show ?thesis
  proof (cases rc)
    case (Some e)
    then show ?thesis
      using None ns sa bal canon assms(2)
      by (auto simp: getaddrinfo_def gai_post_def freeaddrinfo_live canon_blocks_def)
  next
    case ok: None
    then have "entries_ok hints ais"
      using search_all_ok [OF _ _ assms(1)] sa by auto
    then have "gai_post hostname servname hints h (ga_finish be rs hostname servname hints (fst (hd search)) (ais, canon, h1))"
      using canon bal by (intro ga_finish_post) auto
    then show ?thesis
      using None ns sa ok assms(2) by (simp add: getaddrinfo_def)
  qed
qed

text \<open>
  C31: \<open>getaddrinfo\<close> for a name that is not one of the Unix domain and hints that do not ask
  for \<open>AF_LOCAL\<close> (\<open>getaddrinfo_leaks\<close> and \<open>getaddrinfo_local_exits\<close> show what happens there), with a
  resolver that reports IPv4 or IPv6 addresses, whichever allocations fail: a successful call returns at least one entry, every entry has an address
  structure of its own family, agrees with the family and socket type asked for and has a
  socket type when a service was given, and exactly the blocks of the list are allocated; a
  failing call has freed everything it allocated, except that the copy of the canonical
  name may be left over when one was asked for.
\<close>

theorem getaddrinfo_correct:
  assumes "resolver_ok rs" and "\<not> is_unix_name hostname servname"
    and "ai_family hints \<noteq> AF_LOCAL"
  shows "gai_post hostname servname hints h (getaddrinfo be rs hostname servname (Some hints) h)"
  using assms by (rule getaddrinfo_post)

definition no_resolver :: resolver where
  "no_resolver = \<lparr>gethostbyname2 = \<lambda>host af. Inl HOST_NOT_FOUND, gethostbyname = \<lambda>b host. Inl HOST_NOT_FOUND,
     getservbyname = \<lambda>serv proto. None, getnodename = Inr ''localhost''\<rparr>"

theorem getaddrinfo_correct_witness:
  "gai_post (Some ''10.0.0.1'') (Some ''80'') blank_hints \<lparr>alloc_fails = [], live = 0, unlinked = []\<rparr>
    (getaddrinfo False no_resolver (Some ''10.0.0.1'') (Some ''80'') (Some blank_hints)
      \<lparr>alloc_fails = [], live = 0, unlinked = []\<rparr>)"
proof -
  have "resolver_ok no_resolver"
    by (simp add: resolver_ok_def no_resolver_def)
  then show ?thesis
    using getaddrinfo_correct [of no_resolver "Some ''10.0.0.1''" "Some ''80''" blank_hints]
    by (simp add: is_unix_name_def blank_hints_def AF_defs)
qed

section \<open>Cloning for the socket types\<close>

definition ip_entry :: "addrinfo \<Rightarrow> bool" where
  "ip_entry ai \<longleftrightarrow> ai_flags ai AND AI_CLONE \<noteq> 0 \<and> (ai_family ai = AF_INET \<or> ai_family ai = AF_INET6)"

lemma ga_port_fresh:
  assumes "list_all (\<lambda>ai. ip_entry ai \<and> ai_socktype ai = 0) ais"
  shows "ga_port ais p t h = (Some (length ais), map (set_port p t) ais, h)"
  using assms by (induction ais) (auto simp: ip_entry_def port_counts_def)

definition clone_of :: "addrinfo \<Rightarrow> addrinfo" where
  "clone_of ai = ai\<lparr>ai_flags := 0, ai_canonname := None\<rparr>"

lemma ga_port_clones:
  assumes "list_all (\<lambda>ai. ip_entry ai \<and> ai_socktype ai \<noteq> 0) ais" and "alloc_fails h = []"
  shows "\<exists>h'. ga_port ais p t h =
    (Some (length ais), concat (map (\<lambda>ai. [ai, set_port p t (clone_of ai)]) ais), h')"
  using assms
proof (induction ais arbitrary: h)
  case (Cons ai ais)
  define h1 where "h1 = h\<lparr>live := live h + 2\<rparr>"
  have "ga_clone ai h = (True, [clone_of ai], h1)"
    using Cons.prems(2) by (simp add: ga_clone_def galloc_def clone_of_def h1_def)
  moreover have "alloc_fails h1 = []"
    using Cons.prems(2) by (simp add: h1_def)
  ultimately show ?case
    using Cons.IH [of h1] Cons.prems(1) by (auto simp: ip_entry_def port_counts_def)
qed simp

lemma set_port_flags [simp]: "ai_flags (set_port p t ai) = ai_flags ai"
  by (simp add: set_port_def Let_def)

text \<open>
  What the comment in \<open>ga_port.c\<close> promises for a multihomed host: with a numeric service
  and no socket type given, every entry found for the host becomes two, the stream entry in
  its place and directly behind it a datagram entry with the same address, both with the
  port given.
\<close>

theorem ga_serv_both_types:
  assumes "list_all (\<lambda>ai. ip_entry ai \<and> ai_socktype ai = 0) ais" and "ais \<noteq> []"
    and "alloc_fails h = []" and "ai_socktype hints = 0" and "isdigit0 serv"
  shows "\<exists>h'. ga_serv be gs ais hints serv h =
    (None, concat (map (\<lambda>ai.
       let stream = set_port (htons be (int (atoi serv))) SOCK_STREAM ai in
       [stream, set_port (htons be (int (atoi serv))) SOCK_DGRAM (clone_of stream)]) ais), h')"
proof -
  define p where "p = htons be (int (atoi serv))"
  have "list_all (\<lambda>ai. ip_entry ai \<and> ai_socktype ai \<noteq> 0) (map (set_port p SOCK_STREAM) ais)"
    using assms(1) by (auto simp: list_all_iff ip_entry_def SOCK_defs)
  from ga_port_clones [OF this assms(3), of p SOCK_DGRAM] obtain h' where
    "ga_port (map (set_port p SOCK_STREAM) ais) p SOCK_DGRAM h =
      (Some (length ais), concat (map (\<lambda>ai. [ai, set_port p SOCK_DGRAM (clone_of ai)]) (map (set_port p SOCK_STREAM) ais)), h')"
    by auto
  then show ?thesis
    using assms ga_port_fresh [OF assms(1), of p SOCK_STREAM h]
    by (simp add: ga_serv_def port_round_def p_def [symmetric] Let_def comp_def)
qed

definition entry_at :: "octet list \<Rightarrow> addrinfo" where
  "entry_at os = blank_ai blank_hints AF_INET\<lparr>ai_addr := Some (Sockaddr_in 0 os), ai_addrlen := 16\<rparr>"

theorem ga_serv_both_types_witness:
  "\<exists>ais h'. ga_serv True (\<lambda>s t. None) [entry_at [10, 0, 0, 1], entry_at [10, 0, 0, 2]] blank_hints ''13''
      \<lparr>alloc_fails = [], live = 4, unlinked = []\<rparr> = (None, ais, h') \<and>
    map ai_socktype ais = [1, 2, 1, 2] \<and>
    map ai_addr ais = [Some (Sockaddr_in 13 [10, 0, 0, 1]), Some (Sockaddr_in 13 [10, 0, 0, 1]),
      Some (Sockaddr_in 13 [10, 0, 0, 2]), Some (Sockaddr_in 13 [10, 0, 0, 2])]"
proof -
  have e: "ip_entry (entry_at os) \<and> ai_socktype (entry_at os) = 0" for os
    by (simp add: ip_entry_def entry_at_def blank_ai_def blank_hints_def AI_CLONE_def)
  have "isdigit0 ''13''" and atoi: "atoi ''13'' = 13" by code_simp+
  then show ?thesis
    using ga_serv_both_types [of "[entry_at [10, 0, 0, 1], entry_at [10, 0, 0, 2]]"
      "\<lparr>alloc_fails = [], live = 4, unlinked = []\<rparr>" blank_hints "''13''" True "\<lambda>s t. None"] e
    by (auto simp: blank_hints_def htons_def Let_def set_port_def clone_of_def entry_at_def blank_ai_def
        SOCK_defs AF_defs)
qed

section \<open>Where the library fails its callers\<close>

text \<open>
  With \<open>AF_LOCAL\<close> in the hints and a host that is not the special name of the Unix
  domain, \<open>getaddrinfo\<close> does not report an error: \<open>ga_echeck\<close> lets the family pass,
  \<open>ga_nsearch\<close> finds nothing to search for and ends the process.
\<close>

theorem getaddrinfo_local_exits:
  assumes "ai_family hints = AF_LOCAL" and "ai_flags hints = 0" and "ai_socktype hints = 0"
    and "\<not> no_text hostname" and "\<not> is_unix_name hostname servname"
  shows "getaddrinfo be rs hostname servname (Some hints) h = (Gai_exit ''nsearch'', h)"
  using assms by (simp add: getaddrinfo_def ga_echeck_def ga_nsearch_def by_family_def AF_defs)

theorem getaddrinfo_local_exits_witness:
  "fst (getaddrinfo False no_resolver (Some ''localhost'') None (Some (blank_hints\<lparr>ai_family := AF_LOCAL\<rparr>)) h) =
    Gai_exit ''nsearch''"
  using getaddrinfo_local_exits [of "blank_hints\<lparr>ai_family := AF_LOCAL\<rparr>" "Some ''localhost''" None]
  by (simp add: blank_hints_def no_text_def is_unix_name_def)

text \<open>
  The leak that \<open>getaddrinfo_correct\<close> allows for does happen: when the canonical name was
  copied and an allocation then fails, \<open>bad\<close> frees the list, but not the copy. And
  \<open>ga_unix\<close> returns its errors without freeing anything.
\<close>

definition one_host :: resolver where
  "one_host = no_resolver\<lparr>gethostbyname := \<lambda>b host. Inr \<lparr>h_name = ''h.example'', h_addrtype = AF_INET,
     h_addr_list = [[10, 0, 0, 1]]\<rparr>\<rparr>"

lemma getaddrinfo_leaks:
  "(let out = getaddrinfo False one_host (Some ''h'') None
      (Some (blank_hints\<lparr>ai_family := AF_INET, ai_flags := AI_CANONNAME\<rparr>)) \<lparr>alloc_fails = [False, False, True], live = 0, unlinked = []\<rparr>
    in fst out = Gai_error EAI_MEMORY \<and> live (snd out) = 1)"
  "(let out = getaddrinfo False no_resolver (Some ''/local'') (Some ''/tmp/s'') (Some blank_hints)
      \<lparr>alloc_fails = [False, False, False, True], live = 0, unlinked = []\<rparr>
    in fst out = Gai_error EAI_MEMORY \<and> live (snd out) = 3)"
  by code_simp+

section \<open>Numeric names\<close>

lemma takeWhile_dec: "is_dec t \<Longrightarrow> takeWhile (\<lambda>c. strchr digits c \<noteq> None) t = t"
  by (simp add: is_dec_def list_all_iff)

lemma isdigit0_fmt_u: "isdigit0 (fmt_u n @ r)"
proof -
  obtain c cs where f: "fmt_u n = c # cs"
    using print_base_nonempty [of 10 n] by (cases "fmt_u n") auto
  then show ?thesis using fmt_u_dec [of n] by (simp add: isdigit0_def)
qed

lemma atoi_fmt_u: "atoi (fmt_u n) = n"
proof -
  have "is_dec (fmt_u n)" and "dec_from 0 (fmt_u n) = n"
    using fmt_u_dec by auto
  then show ?thesis
    unfolding atoi_def by (simp only: takeWhile_dec dec_from_def)
qed

lemma htons_ntohs: "htons be (int (ntohs be p)) = p"
  by (simp add: htons_def ntohs_def)

lemma literal4_dotted_quad: "length a = 4 \<Longrightarrow> literal4 (dotted_quad a) = Some a"
proof -
  have "isdigit0 (dotted_quad a)"
    by (simp add: dotted_quad_def isdigit0_fmt_u)
  then show "length a = 4 \<Longrightarrow> literal4 (dotted_quad a) = Some a"
    by (simp add: literal4_def accepted_def inet_pton_def inet_pton4_dotted_quad)
qed

lemma full_text6_head:
  "(isxdigit0 (full_text6 a) \<or> take 1 (full_text6 a) = '':'') \<and> CHR '':'' \<in> set (full_text6 a)"
proof -
  define ws where "ws = ntop6_words a"
  define best where "best = best_run ws"
  obtain js where r: "[0..<8] = 0 # 1 # js" by (simp add: upt8)
  obtain t where f: "full_text6 a = text6 a ws best (0 # 1 # js) @ t"
    by (simp add: full_text6_def ws_def [symmetric] best_def [symmetric] Let_def r)
  have at_base: "in_run best i \<Longrightarrow> i = 0 \<or> \<not> in_run best (i - 1) \<Longrightarrow> run_base best = Some i" for i
    by (cases best) (auto simp: in_run_def run_base_def)
  show ?thesis
  proof (cases "in_run best 0")
    case True
    then show ?thesis using at_base [of 0] by (simp add: f)
  next
    case False
    obtain c cs where x: "fmt_x (unat (ws ! 0)) = c # cs"
      using print_base_nonempty [of 16 "unat (ws ! 0)"] by (cases "fmt_x (unat (ws ! 0))") auto
    have "c \<in> set xdigits_l"
      using set_print_base [of 16 "unat (ws ! 0)"] x by auto
    then obtain d where "d < 16" "c = xdigits_l ! d"
      by (auto simp: in_set_conv_nth length_xdigits)
    then have "xdigit c \<noteq> None"
      by (simp add: xdigit_xdigits)
    moreover have "CHR '':'' \<in> set (text6 a ws best (1 # js))"
      using at_base [of 1] False by simp
    ultimately show ?thesis
      using False x by (simp add: f isxdigit0_def)
  qed
qed

lemma strchr_mem: "c \<in> set s \<Longrightarrow> strchr s c \<noteq> None"
  by (induction s) auto

lemma literal_full_text6:
  assumes "length a = 16"
  shows "literal4 (full_text6 a) = None \<and> literal6 (full_text6 a) = Some a"
  using full_text6_head [of a] inet_pton4_colon [of "full_text6 a"] inet_pton6_full_text6 [OF assms]
    strchr_mem [of "CHR '':''" "full_text6 a"]
  by (auto simp: literal4_def literal6_def accepted_def inet_pton_def AF_defs)

text \<open>A literal host is found without the resolver, exactly once.\<close>

definition stream_hints :: addrinfo where
  "stream_hints = blank_hints\<lparr>ai_socktype := SOCK_STREAM\<rparr>"

lemma not_unix_chars: "set host \<subseteq> addr_chars \<Longrightarrow> \<not> is_unix_name (Some host) servname"
  by (auto simp: is_unix_name_def addr_chars_def xdigits_l_def)

definition found :: "sockaddr \<Rightarrow> addrinfo" where
  "found sa = (blank_ai stream_hints (sa_family sa))\<lparr>ai_addr := Some sa,
     ai_addrlen := (if sa_family sa = AF_INET then sizeof_sockaddr_in else sizeof_sockaddr_in6)\<rparr>"

lemma ga_serv_found:
  assumes "sa_family sa = AF_INET \<or> sa_family sa = AF_INET6"
  shows "ga_serv be gs [found sa] stream_hints (fmt_u n) h =
    (None, [found sa\<lparr>ai_addr := Some (sock_set_port sa (uint (htons be (int n))))\<rparr>], h)"
  using assms atoi_fmt_u [of n] isdigit0_fmt_u [of n "[]"]
  by (auto simp: ga_serv_def port_round_def found_def blank_ai_def stream_hints_def blank_hints_def SOCK_defs
      set_port_def port_counts_def Let_def)

lemma search_literal:
  assumes "alloc_fails h = []"
    and "literal4 host = Some os \<and> length os = 4 \<and> sa = Sockaddr_in 0 os \<or>
      literal4 host = None \<and> literal6 host = Some os \<and> length os = 16 \<and> sa = Sockaddr_in6 0 os"
  shows "search_all rs hn stream_hints 2 [(host, AF_INET6), (host, AF_INET)] ([], None, h) =
    (None, [found sa], None, h\<lparr>live := live h + 2\<rparr>)"
  using assms
  by (auto simp: search_one_def add_literal_def ga_aistruct_def galloc_def raw_octets_def found_def
      stream_hints_def blank_hints_def AF_defs)

lemma getaddrinfo_literal:
  assumes "alloc_fails h = []" and "set host \<subseteq> addr_chars" and "host \<noteq> []"
    and "literal4 host = Some os \<and> length os = 4 \<and> sa = Sockaddr_in 0 os \<or>
      literal4 host = None \<and> literal6 host = Some os \<and> length os = 16 \<and> sa = Sockaddr_in6 0 os"
  shows "getaddrinfo be rs (Some host) (Some (fmt_u n)) (Some stream_hints) h =
    (Gai_list [found sa\<lparr>ai_addr := Some (sock_set_port sa (uint (htons be (int n))))\<rparr>], h\<lparr>live := live h + 2\<rparr>)"
proof -
  have e: "ga_echeck (Some host) (Some (fmt_u n)) (ai_flags stream_hints) (ai_family stream_hints)
      (ai_socktype stream_hints) (ai_protocol stream_hints) = None"
    using assms(3) by (simp add: ga_echeck_def stream_hints_def blank_hints_def no_text_def)
  have ns: "ga_nsearch (Some host) stream_hints = Some [(host, AF_INET6), (host, AF_INET)]"
    using assms(3) by (simp add: ga_nsearch_def no_text_def stream_hints_def blank_hints_def by_family_def AF_defs)
  have fam: "sa_family sa = AF_INET \<or> sa_family sa = AF_INET6"
    using assms(4) by auto
  have two: "length [(host, AF_INET6), (host, AF_INET)] = 2" by simp
  have "wants_canon (Some host) stream_hints = False"
    by (simp add: wants_canon_def stream_hints_def blank_hints_def)
  then show ?thesis
    using search_literal [OF assms(1,4)] not_unix_chars [OF assms(2), of "Some (fmt_u n)"]
      ga_serv_found [OF fam, of be "getservbyname rs" n]
    by (simp add: getaddrinfo_def e ns ga_finish_def return_canon_def no_text_def two del: search_all.simps list.size)
qed

text \<open>
  C32: The numeric texts of an endpoint lead back to it: what \<open>getnameinfo\<close> stores with
  \<open>NI_NUMERICHOST\<close> and \<open>NI_NUMERICSERV\<close> in buffers of the advertised sizes,
  \<open>getaddrinfo\<close> turns into a list of exactly one entry, with the same family, address and
  port, for IPv4 and IPv6, without asking the resolver.
\<close>

theorem getnameinfo_getaddrinfo:
  assumes "sockaddr_ok sa" and "sa_family sa = AF_INET \<or> sa_family sa = AF_INET6" and "alloc_fails h = []"
  shows "\<exists>host serv ai h'.
    getnameinfo be ns 1025 32 (NI_NUMERICHOST OR NI_NUMERICSERV) sa = Some (Some host, Some serv) \<and>
    getaddrinfo be rs (Some host) (Some serv) (Some stream_hints) h = (Gai_list [ai], h') \<and>
    ai_addr ai = Some sa \<and> ai_family ai = sa_family sa \<and> ai_socktype ai = SOCK_STREAM"
proof -
  have fits: "snprintf 32 (fmt_u (ntohs be p)) = fmt_u (ntohs be p)" for p
    using length_fmt_u_port [of be p] by (simp add: snprintf_def)
  consider p a where "sa = Sockaddr_in p a" "length a = 4" | p a where "sa = Sockaddr_in6 p a" "length a = 16"
    using assms(1,2) by (cases sa) (auto simp: AF_defs)
  then show ?thesis
  proof cases
    case 1
    have "getnameinfo be ns 1025 32 (NI_NUMERICHOST OR NI_NUMERICSERV) sa =
        Some (Some (dotted_quad a), Some (fmt_u (ntohs be p)))"
      using length_dotted_quad [of a]
      by (simp add: 1 gn_ipv46_def gn_host_def gn_serv_def numeric_host_def inet_ntop_def inet_ntop4_def
          NI_NUMERICHOST_def NI_NUMERICSERV_def fits)
    moreover have "set (dotted_quad a) \<subseteq> addr_chars"
      using set_dotted_quad [of a] by (auto simp: addr_chars_def)
    moreover have "dotted_quad a \<noteq> []" by (simp add: dotted_quad_def)
    ultimately show ?thesis
      using getaddrinfo_literal [OF assms(3), of "dotted_quad a" a "Sockaddr_in 0 a" be rs "ntohs be p"]
        literal4_dotted_quad 1
      by (simp add: found_def blank_ai_def stream_hints_def htons_ntohs)
  next
    case 2
    have "getnameinfo be ns 1025 32 (NI_NUMERICHOST OR NI_NUMERICSERV) sa =
        Some (Some (full_text6 a), Some (fmt_u (ntohs be p)))"
      using ntop6_text_eq [OF 2(2)]
      by (simp add: 2 gn_ipv46_def gn_host_def gn_serv_def numeric_host_def inet_ntop_def inet_ntop6_eq
          stored_chars_def NI_NUMERICHOST_def NI_NUMERICSERV_def AF_defs fits)
    moreover have "full_text6 a \<noteq> []" using full_text6_head [of a] by auto
    ultimately show ?thesis
      using getaddrinfo_literal [OF assms(3), of "full_text6 a" a "Sockaddr_in6 0 a" be rs "ntohs be p"]
        literal_full_text6 set_full_text6 2
      by (simp add: found_def blank_ai_def stream_hints_def htons_ntohs)
  qed
qed

theorem getnameinfo_getaddrinfo_witness:
  "\<exists>host serv ai h'.
    getnameinfo False \<lparr>gethostbyaddr = \<lambda>a f. None, getservbyport = \<lambda>p u. None\<rparr> 1025 32
      (NI_NUMERICHOST OR NI_NUMERICSERV) (Sockaddr_in 80 [127, 0, 0, 1]) = Some (Some host, Some serv) \<and>
    getaddrinfo False no_resolver (Some host) (Some serv) (Some stream_hints) \<lparr>alloc_fails = [], live = 0, unlinked = []\<rparr> =
      (Gai_list [ai], h') \<and> ai_addr ai = Some (Sockaddr_in 80 [127, 0, 0, 1])"
  using getnameinfo_getaddrinfo [of "Sockaddr_in 80 [127, 0, 0, 1]" "\<lparr>alloc_fails = [], live = 0, unlinked = []\<rparr>"
      False "\<lparr>gethostbyaddr = \<lambda>a f. None, getservbyport = \<lambda>p u. None\<rparr>" no_resolver]
  by (auto simp del: getnameinfo.simps)

end
