(* ===== verification/Prodcons.thy ===== *)
theory Prodcons
  imports Prelude
begin

text \<open>
  The producer-consumer programs over Posix semaphores (\<open>pxsem/prodcons1.c\<close> to
  \<open>prodcons4.c\<close>): several threads, a circular buffer of ten integers and three semaphores.

  Every statement is one atomic step, named by its line in the source, so that all
  interleavings of the statements are runs of the model. The semaphores behave as Posix
  documents: a wait blocks while the value is 0, a post fails at \<open>vmax\<close>, the value of
  \<open>SEM_VALUE_MAX\<close>, and the wrapper \<open>Sem_post\<close> then ends the process.
\<close>

section \<open>Threads and semaphores\<close>

datatype psem = Mutex | Nempty | Nstored

text \<open>A statement: the operation and the place after it.\<close>

datatype ('v, 'l) instr =
    Sem_wait psem 'l
  | Sem_post psem 'l
  | Exec "'v \<Rightarrow> 'v \<times> 'l"
  | Return

record 'v machine =
  vars :: 'v
  sems :: "psem \<Rightarrow> nat"
  aborted :: bool

record ('v, 'p, 'c) system = "'v machine" +
  producers :: "'p list"
  consumers :: "'c list"

text \<open>\<open>None\<close>: the thread is blocked, or has returned.\<close>

fun exec_instr :: "nat \<Rightarrow> ('v, 'l) instr \<Rightarrow> ('v, 'a) machine_scheme \<Rightarrow> (('v, 'a) machine_scheme \<times> 'l) option" where
  "exec_instr vmax (Sem_wait x l) s =
    (if sems s x = 0 then None else Some (s\<lparr>sems := (sems s)(x := sems s x - 1)\<rparr>, l))"
| "exec_instr vmax (Sem_post x l) s =
    (if vmax \<le> sems s x then Some (s\<lparr>aborted := True\<rparr>, l)
     else Some (s\<lparr>sems := (sems s)(x := sems s x + 1)\<rparr>, l))"
| "exec_instr vmax (Exec f) s = (case f (vars s) of (v, l) \<Rightarrow> Some (s\<lparr>vars := v\<rparr>, l))"
| "exec_instr vmax Return s = None"

inductive pstep ::
  "nat \<Rightarrow> ('p \<Rightarrow> ('v, 'p) instr) \<Rightarrow> ('c \<Rightarrow> ('v, 'c) instr) \<Rightarrow> ('v, 'p, 'c) system \<Rightarrow> ('v, 'p, 'c) system \<Rightarrow> bool"
  for vmax produce consume where
  producer: "\<lbrakk>\<not> aborted s; i < length (producers s); exec_instr vmax (produce (producers s ! i)) s = Some (s', l)\<rbrakk> \<Longrightarrow>
    pstep vmax produce consume s (s'\<lparr>producers := (producers s)[i := l]\<rparr>)"
| consumer: "\<lbrakk>\<not> aborted s; i < length (consumers s); exec_instr vmax (consume (consumers s ! i)) s = Some (s', l)\<rbrakk> \<Longrightarrow>
    pstep vmax produce consume s (s'\<lparr>consumers := (consumers s)[i := l]\<rparr>)"

definition NBUFF :: int where "NBUFF = 10"
definition MAXNTHREADS :: int where "MAXNTHREADS = 100"

definition sem_initial :: "psem \<Rightarrow> nat" where
  "sem_initial x = (case x of Mutex \<Rightarrow> 1 | Nempty \<Rightarrow> nat NBUFF | Nstored \<Rightarrow> 0)"

text \<open>
  \<open>atoi\<close>: blanks, a sign and the digits that follow.
\<close>

definition digit :: "char \<Rightarrow> int option" where
  "digit c = (let k = int (of_char c) - 48 in if 0 \<le> k \<and> k \<le> 9 then Some k else None)"

definition digits_value :: "string \<Rightarrow> int" where
  "digits_value s = fold (\<lambda>c n. n * 10 + the (digit c)) (takeWhile (\<lambda>c. digit c \<noteq> None) s) 0"

definition c_atoi :: "string \<Rightarrow> int" where
  "c_atoi s =
    (case dropWhile (\<lambda>c. c \<in> set [CHR '' '', CHR 0x09, CHR 0x0A, CHR 0x0B, CHR 0x0C, CHR 0x0D]) s of
       [] \<Rightarrow> 0
     | c # r \<Rightarrow> if c = CHR ''-'' then - digits_value r
               else if c = CHR ''+'' then digits_value r
               else digits_value (c # r))"

section \<open>\<open>prodcons1.c\<close>, \<open>prodcons2.c\<close>: one producer, one consumer\<close>

text \<open>
  The programs differ in where the semaphores are kept, and so do the three copies of
  \<open>prodcons1.c\<close> beside the implementations of semaphores. The place of a thread is the
  statement it is about to execute, with the value of its variable \<open>i\<close>.
\<close>

record shared1 =
  buff :: "int list"
  printed :: "(int \<times> int) list"

datatype pline1 = P1_for int | P1_nempty int | P1_mutex int | P1_store int | P1_unlock int | P1_nstored int | P1_end

fun produce1 :: "int \<Rightarrow> pline1 \<Rightarrow> (shared1, pline1) instr" where
  "produce1 nitems (P1_for i) = Exec (\<lambda>v. (v, if i < nitems then P1_nempty i else P1_end))"
| "produce1 nitems (P1_nempty i) = Sem_wait Nempty (P1_mutex i)"
| "produce1 nitems (P1_mutex i) = Sem_wait Mutex (P1_store i)"
| "produce1 nitems (P1_store i) = Exec (\<lambda>v. (v\<lparr>buff := (buff v)[nat (i mod NBUFF) := i]\<rparr>, P1_unlock i))"
| "produce1 nitems (P1_unlock i) = Sem_post Mutex (P1_nstored i)"
| "produce1 nitems (P1_nstored i) = Sem_post Nstored (P1_for (i + 1))"
| "produce1 nitems P1_end = Return"

datatype cline1 = C1_for int | C1_nstored int | C1_mutex int | C1_check int | C1_unlock int | C1_nempty int | C1_end

fun consume1 :: "int \<Rightarrow> cline1 \<Rightarrow> (shared1, cline1) instr" where
  "consume1 nitems (C1_for i) = Exec (\<lambda>v. (v, if i < nitems then C1_nstored i else C1_end))"
| "consume1 nitems (C1_nstored i) = Sem_wait Nstored (C1_mutex i)"
| "consume1 nitems (C1_mutex i) = Sem_wait Mutex (C1_check i)"
| "consume1 nitems (C1_check i) = Exec (\<lambda>v.
    (if buff v ! nat (i mod NBUFF) \<noteq> i then v\<lparr>printed := printed v @ [(i, buff v ! nat (i mod NBUFF))]\<rparr> else v,
     C1_unlock i))"
| "consume1 nitems (C1_unlock i) = Sem_post Mutex (C1_nempty i)"
| "consume1 nitems (C1_nempty i) = Sem_post Nempty (C1_for (i + 1))"
| "consume1 nitems C1_end = Return"

text \<open>
  \<open>main\<close> up to the creation of the threads; \<open>buff\<close> is in static storage. \<open>Inl\<close> is the exit
  with the usage message. The arguments are those after the name of the program.
\<close>

definition shared1_start :: shared1 where
  "shared1_start = \<lparr>buff = replicate 10 0, printed = []\<rparr>"

definition main1 :: "string list \<Rightarrow> string + (shared1, pline1, cline1) system \<times> int" where
  "main1 args = (case args of
     [n] \<Rightarrow> Inr (\<lparr>vars = shared1_start, sems = sem_initial, aborted = False,
                producers = [P1_for 0], consumers = [C1_for 0]\<rparr>, c_atoi n)
   | _ \<Rightarrow> Inl ''usage: prodcons1 <#items>'')"

text \<open>\<open>prodcons2.c\<close> keeps the semaphores in the shared structure.\<close>

definition produce2 :: "int \<Rightarrow> pline1 \<Rightarrow> (shared1, pline1) instr" where
  "produce2 = produce1"

definition consume2 :: "int \<Rightarrow> cline1 \<Rightarrow> (shared1, cline1) instr" where
  "consume2 = consume1"

definition main2 :: "string list \<Rightarrow> string + (shared1, pline1, cline1) system \<times> int" where
  "main2 args = (case main1 args of Inl e \<Rightarrow> Inl ''usage: prodcons2 <#items>'' | Inr r \<Rightarrow> Inr r)"

section \<open>\<open>prodcons3.c\<close>: several producers, one consumer\<close>

record shared3 = shared1 +
  nput :: int
  nputval :: int

text \<open>The places of a producer, with the value of its counter \<open>count[i]\<close>.\<close>

datatype pline3 = P3_nempty | P3_mutex | P3_test | P3_store | P3_nput | P3_nputval | P3_unlock | P3_nstored
  | P3_count | P3_done_nempty | P3_done_unlock | P3_end

fun produce3 :: "int \<Rightarrow> pline3 \<times> int \<Rightarrow> (shared3, pline3 \<times> int) instr" where
  "produce3 nitems (P3_nempty, c) = Sem_wait Nempty (P3_mutex, c)"
| "produce3 nitems (P3_mutex, c) = Sem_wait Mutex (P3_test, c)"
| "produce3 nitems (P3_test, c) = Exec (\<lambda>v. (v, if nitems \<le> nput v then P3_done_nempty else P3_store, c))"
| "produce3 nitems (P3_done_nempty, c) = Sem_post Nempty (P3_done_unlock, c)"
| "produce3 nitems (P3_done_unlock, c) = Sem_post Mutex (P3_end, c)"
| "produce3 nitems (P3_store, c) =
    Exec (\<lambda>v. (v\<lparr>buff := (buff v)[nat (nput v mod NBUFF) := nputval v]\<rparr>, P3_nput, c))"
| "produce3 nitems (P3_nput, c) = Exec (\<lambda>v. (v\<lparr>nput := nput v + 1\<rparr>, P3_nputval, c))"
| "produce3 nitems (P3_nputval, c) = Exec (\<lambda>v. (v\<lparr>nputval := nputval v + 1\<rparr>, P3_unlock, c))"
| "produce3 nitems (P3_unlock, c) = Sem_post Mutex (P3_nstored, c)"
| "produce3 nitems (P3_nstored, c) = Sem_post Nstored (P3_count, c)"
| "produce3 nitems (P3_count, c) = Exec (\<lambda>v. (v, P3_nempty, c + 1))"
| "produce3 nitems (P3_end, c) = Return"

fun consume3 :: "int \<Rightarrow> cline1 \<Rightarrow> (shared3, cline1) instr" where
  "consume3 nitems (C1_for i) = Exec (\<lambda>v. (v, if i < nitems then C1_nstored i else C1_end))"
| "consume3 nitems (C1_nstored i) = Sem_wait Nstored (C1_mutex i)"
| "consume3 nitems (C1_mutex i) = Sem_wait Mutex (C1_check i)"
| "consume3 nitems (C1_check i) = Exec (\<lambda>v.
    (if buff v ! nat (i mod NBUFF) \<noteq> i then v\<lparr>printed := printed v @ [(i, buff v ! nat (i mod NBUFF))]\<rparr> else v,
     C1_unlock i))"
| "consume3 nitems (C1_unlock i) = Sem_post Mutex (C1_nempty i)"
| "consume3 nitems (C1_nempty i) = Sem_post Nempty (C1_for (i + 1))"
| "consume3 nitems C1_end = Return"

definition shared3_start :: shared3 where
  "shared3_start = \<lparr>buff = replicate 10 0, printed = [], nput = 0, nputval = 0\<rparr>"

definition nthreads :: "string \<Rightarrow> nat" where
  "nthreads n = nat (min (c_atoi n) MAXNTHREADS)"

definition main3 :: "string list \<Rightarrow> string + (shared3, pline3 \<times> int, cline1) system \<times> int" where
  "main3 args = (case args of
     [n, np] \<Rightarrow> Inr (\<lparr>vars = shared3_start, sems = sem_initial, aborted = False,
       producers = replicate (nthreads np) (P3_nempty, 0), consumers = [C1_for 0]\<rparr>, c_atoi n)
   | _ \<Rightarrow> Inl ''usage: prodcons3 <#items> <#producers>'')"

section \<open>\<open>prodcons4.c\<close>: several producers, several consumers\<close>

record shared4 = shared3 +
  nget :: int
  ngetval :: int

datatype pline4 = P4_nempty | P4_mutex | P4_test | P4_store | P4_nput | P4_nputval | P4_unlock | P4_nstored
  | P4_count | P4_done_nstored | P4_done_nempty | P4_done_unlock | P4_end

fun produce4 :: "int \<Rightarrow> pline4 \<times> int \<Rightarrow> (shared4, pline4 \<times> int) instr" where
  "produce4 nitems (P4_nempty, c) = Sem_wait Nempty (P4_mutex, c)"
| "produce4 nitems (P4_mutex, c) = Sem_wait Mutex (P4_test, c)"
| "produce4 nitems (P4_test, c) = Exec (\<lambda>v. (v, if nitems \<le> nput v then P4_done_nstored else P4_store, c))"
| "produce4 nitems (P4_done_nstored, c) = Sem_post Nstored (P4_done_nempty, c)"
| "produce4 nitems (P4_done_nempty, c) = Sem_post Nempty (P4_done_unlock, c)"
| "produce4 nitems (P4_done_unlock, c) = Sem_post Mutex (P4_end, c)"
| "produce4 nitems (P4_store, c) =
    Exec (\<lambda>v. (v\<lparr>buff := (buff v)[nat (nput v mod NBUFF) := nputval v]\<rparr>, P4_nput, c))"
| "produce4 nitems (P4_nput, c) = Exec (\<lambda>v. (v\<lparr>nput := nput v + 1\<rparr>, P4_nputval, c))"
| "produce4 nitems (P4_nputval, c) = Exec (\<lambda>v. (v\<lparr>nputval := nputval v + 1\<rparr>, P4_unlock, c))"
| "produce4 nitems (P4_unlock, c) = Sem_post Mutex (P4_nstored, c)"
| "produce4 nitems (P4_nstored, c) = Sem_post Nstored (P4_count, c)"
| "produce4 nitems (P4_count, c) = Exec (\<lambda>v. (v, P4_nempty, c + 1))"
| "produce4 nitems (P4_end, c) = Return"

text \<open>The local variable \<open>i\<close> of a consumer is an argument of the place where it is used.\<close>

datatype cline4 = C4_nstored | C4_mutex | C4_test | C4_index | C4_check int | C4_nget | C4_ngetval | C4_unlock
  | C4_nempty | C4_count | C4_done_nstored | C4_done_unlock | C4_end

fun consume4 :: "int \<Rightarrow> cline4 \<times> int \<Rightarrow> (shared4, cline4 \<times> int) instr" where
  "consume4 nitems (C4_nstored, c) = Sem_wait Nstored (C4_mutex, c)"
| "consume4 nitems (C4_mutex, c) = Sem_wait Mutex (C4_test, c)"
| "consume4 nitems (C4_test, c) = Exec (\<lambda>v. (v, if nitems \<le> nget v then C4_done_nstored else C4_index, c))"
| "consume4 nitems (C4_done_nstored, c) = Sem_post Nstored (C4_done_unlock, c)"
| "consume4 nitems (C4_done_unlock, c) = Sem_post Mutex (C4_end, c)"
| "consume4 nitems (C4_index, c) = Exec (\<lambda>v. (v, C4_check (nget v mod NBUFF), c))"
| "consume4 nitems (C4_check i, c) = Exec (\<lambda>v.
    (if buff v ! nat i \<noteq> ngetval v then v\<lparr>printed := printed v @ [(i, buff v ! nat i)]\<rparr> else v, C4_nget, c))"
| "consume4 nitems (C4_nget, c) = Exec (\<lambda>v. (v\<lparr>nget := nget v + 1\<rparr>, C4_ngetval, c))"
| "consume4 nitems (C4_ngetval, c) = Exec (\<lambda>v. (v\<lparr>ngetval := ngetval v + 1\<rparr>, C4_unlock, c))"
| "consume4 nitems (C4_unlock, c) = Sem_post Mutex (C4_nempty, c)"
| "consume4 nitems (C4_nempty, c) = Sem_post Nempty (C4_count, c)"
| "consume4 nitems (C4_count, c) = Exec (\<lambda>v. (v, C4_nstored, c + 1))"
| "consume4 nitems (C4_end, c) = Return"

definition shared4_start :: shared4 where
  "shared4_start = \<lparr>buff = replicate 10 0, printed = [], nput = 0, nputval = 0, nget = 0, ngetval = 0\<rparr>"

definition main4 :: "string list \<Rightarrow> string + (shared4, pline4 \<times> int, cline4 \<times> int) system \<times> int" where
  "main4 args = (case args of
     [n, np, nc] \<Rightarrow> Inr (\<lparr>vars = shared4_start, sems = sem_initial, aborted = False,
       producers = replicate (nthreads np) (P4_nempty, 0), consumers = replicate (nthreads nc) (C4_nstored, 0)\<rparr>, c_atoi n)
   | _ \<Rightarrow> Inl ''usage: prodcons4 <#items> <#producers> <#consumers>'')"

end
