(* ===== verification/Prodcons_Inv.thy ===== *)
theory Prodcons_Inv
  imports Prodcons
begin

text \<open>
  What the proofs of the producer-consumer programs share (the circular buffer as a queue) and
  the invariant of \<open>prodcons4.c\<close>, which every statement keeps.
\<close>

section \<open>Frames of a statement\<close>

lemma exec_instr_shape:
  assumes "exec_instr vmax ins s = Some (s', l)" and "\<not> aborted s'"
  shows "s' = s\<lparr>sems := sems s', vars := vars s'\<rparr>"
  using assms by (cases ins) (auto split: if_splits prod.splits)

lemma exec_instr_lists:
  fixes s :: "('v, 'p, 'c) system"
  shows "exec_instr vmax ins s = Some (s', l) \<Longrightarrow> producers s' = producers s \<and> consumers s' = consumers s"
  by (cases ins) (auto split: if_splits prod.splits)

section \<open>The circular buffer\<close>

text \<open>
  The items numbered from \<open>lo\<close> to \<open>hi - 1\<close> are in the buffer, each holding its number.
\<close>

definition ring_ok :: "int list \<Rightarrow> int \<Rightarrow> int \<Rightarrow> bool" where
  "ring_ok b lo hi \<longleftrightarrow> length b = 10 \<and> 0 \<le> lo \<and> lo \<le> hi \<and>
    (\<forall>k. lo \<le> k \<and> k < hi \<longrightarrow> b ! nat (k mod NBUFF) = k)"

lemma NBUFF_nat: "nat (k mod NBUFF) < 10"
  by (simp add: NBUFF_def nat_less_iff)

lemma ring_okD: "ring_ok b lo hi \<Longrightarrow> length b = 10 \<and> 0 \<le> lo \<and> lo \<le> hi"
  by (simp add: ring_ok_def)

lemma ring_ok_start: "ring_ok (replicate 10 0) 0 0"
  by (simp add: ring_ok_def)

text \<open>Two numbers less than ten apart have different places.\<close>

lemma ring_places:
  assumes "lo \<le> k" and "k < hi" and "hi - lo < 10"
  shows "nat (k mod NBUFF) \<noteq> nat (hi mod NBUFF)"
proof
  assume "nat (k mod NBUFF) = nat (hi mod NBUFF)"
  then have "hi mod 10 = k mod 10" by (simp add: NBUFF_def nat_eq_iff)
  then have "10 dvd hi - k" by (simp only: mod_eq_dvd_iff)
  then show False using assms zdvd_not_zless [of "hi - k" 10] by auto
qed

lemma ring_ok_stored: "ring_ok b lo hi \<Longrightarrow> b ! nat (hi mod NBUFF) = hi \<Longrightarrow> ring_ok b lo (hi + 1)"
  by (auto simp: ring_ok_def) (metis order_le_less)

lemma ring_ok_store:
  assumes "ring_ok b lo hi" and "hi - lo < 10"
  shows "ring_ok (b[nat (hi mod NBUFF) := x]) lo hi \<and> b[nat (hi mod NBUFF) := x] ! nat (hi mod NBUFF) = x"
proof -
  have "b[nat (hi mod NBUFF) := x] ! nat (k mod NBUFF) = k" if "lo \<le> k" "k < hi" for k
    using ring_places [OF that assms(2)] assms(1) that by (simp add: ring_ok_def)
  then show ?thesis
    using assms(1) NBUFF_nat [of hi] by (auto simp: ring_ok_def)
qed

lemma ring_ok_fetch: "ring_ok b lo hi \<Longrightarrow> lo < hi \<Longrightarrow> b ! nat (lo mod NBUFF) = lo \<and> ring_ok b (lo + 1) hi"
  by (auto simp: ring_ok_def)

section \<open>Where the threads are\<close>

text \<open>
  For a producer of \<open>prodcons4.c\<close>: inside the critical region; holding an empty slot; with an
  item stored but not yet announced, or counted; past the announcement of the end.
\<close>

definition p_crit :: "pline4 \<times> int \<Rightarrow> bool" where
  "p_crit p \<longleftrightarrow> fst p \<in> {P4_test, P4_store, P4_nput, P4_nputval, P4_unlock, P4_done_nstored, P4_done_nempty, P4_done_unlock}"
definition p_slot :: "pline4 \<times> int \<Rightarrow> bool" where
  "p_slot p \<longleftrightarrow> fst p \<in> {P4_mutex, P4_test, P4_store, P4_nput, P4_done_nstored, P4_done_nempty}"
definition p_fresh :: "pline4 \<times> int \<Rightarrow> bool" where
  "p_fresh p \<longleftrightarrow> fst p \<in> {P4_nputval, P4_unlock, P4_nstored}"
definition p_uncounted :: "pline4 \<times> int \<Rightarrow> bool" where
  "p_uncounted p \<longleftrightarrow> fst p \<in> {P4_nputval, P4_unlock, P4_nstored, P4_count}"
definition p_told :: "pline4 \<times> int \<Rightarrow> bool" where
  "p_told p \<longleftrightarrow> fst p \<in> {P4_done_nempty, P4_done_unlock, P4_end}"
definition p_bump :: "pline4 \<times> int \<Rightarrow> bool" where
  "p_bump p \<longleftrightarrow> fst p = P4_nputval"

definition c_crit :: "cline4 \<times> int \<Rightarrow> bool" where
  "c_crit p \<longleftrightarrow> fst p \<in> {C4_test, C4_index, C4_nget, C4_ngetval, C4_unlock, C4_done_nstored, C4_done_unlock} \<or> (\<exists>i. fst p = C4_check i)"
definition c_item :: "cline4 \<times> int \<Rightarrow> bool" where
  "c_item p \<longleftrightarrow> fst p \<in> {C4_mutex, C4_test, C4_index, C4_nget, C4_done_nstored} \<or> (\<exists>i. fst p = C4_check i)"
definition c_free :: "cline4 \<times> int \<Rightarrow> bool" where
  "c_free p \<longleftrightarrow> fst p \<in> {C4_ngetval, C4_unlock, C4_nempty}"
definition c_uncounted :: "cline4 \<times> int \<Rightarrow> bool" where
  "c_uncounted p \<longleftrightarrow> fst p \<in> {C4_ngetval, C4_unlock, C4_nempty, C4_count}"
definition c_bump :: "cline4 \<times> int \<Rightarrow> bool" where
  "c_bump p \<longleftrightarrow> fst p = C4_ngetval"

lemmas place_defs = p_crit_def p_slot_def p_fresh_def p_uncounted_def p_told_def p_bump_def
  c_crit_def c_item_def c_free_def c_uncounted_def c_bump_def

text \<open>What a thread knows at its place about the shared variables.\<close>

fun p_knows :: "int \<Rightarrow> 'a shared3_scheme \<Rightarrow> pline4 \<times> int \<Rightarrow> bool" where
  "p_knows nitems v (l, c) \<longleftrightarrow>
    (l \<in> {P4_store, P4_nput} \<longrightarrow> nput v < nitems) \<and>
    (l = P4_nput \<longrightarrow> buff v ! nat (nput v mod NBUFF) = nput v) \<and>
    (l \<in> {P4_done_nstored, P4_done_nempty, P4_done_unlock, P4_end} \<longrightarrow> nitems \<le> nput v)"

fun c_knows :: "int \<Rightarrow> shared4 \<Rightarrow> cline4 \<times> int \<Rightarrow> bool" where
  "c_knows nitems v (l, c) \<longleftrightarrow>
    (l \<in> {C4_index, C4_nget} \<or> (\<exists>i. l = C4_check i) \<longrightarrow> nget v < nitems) \<and>
    (\<forall>i. l = C4_check i \<longrightarrow> i = nget v mod NBUFF) \<and>
    (l \<in> {C4_done_nstored, C4_done_unlock, C4_end} \<longrightarrow> nitems \<le> nget v)"

definition all_know :: "int \<Rightarrow> shared4 \<Rightarrow> (pline4 \<times> int) list \<Rightarrow> (cline4 \<times> int) list \<Rightarrow> bool" where
  "all_know nitems v ps cs \<longleftrightarrow> (\<forall>p \<in> set ps. p_knows nitems v p) \<and> (\<forall>c \<in> set cs. c_knows nitems v c)"

type_synonym system4 = "(shared4, pline4 \<times> int, cline4 \<times> int) system"

definition inv4 :: "int \<Rightarrow> system4 \<Rightarrow> bool" where
  "inv4 nitems s \<longleftrightarrow> (let v = vars s; ps = producers s; cs = consumers s in
     \<not> aborted s \<and> printed v = [] \<and>
     ring_ok (buff v) (nget v) (nput v) \<and> nput v \<le> max 0 nitems \<and>
     int (sems s Mutex) + cnt p_crit ps + cnt c_crit cs = 1 \<and>
     int (sems s Nempty) + cnt p_slot ps + (nput v - nget v) + cnt c_free cs = NBUFF \<and>
     int (sems s Nstored) + cnt c_item cs + cnt p_fresh ps = (nput v - nget v) + cnt p_told ps \<and>
     nputval v + cnt p_bump ps = nput v \<and> ngetval v + cnt c_bump cs = nget v \<and>
     sum_list (map snd ps) + cnt p_uncounted ps = nput v \<and>
     sum_list (map snd cs) + cnt c_uncounted cs = nget v \<and>
     all_know nitems v ps cs)"

text \<open>
  A thread changes the shared variables only inside the critical region, where it is alone;
  what the others know outside of it stays true.
\<close>

lemma alone_in_region:
  assumes "inv4 nitems s"
  shows "\<lbrakk>i < length (producers s); p_crit (producers s ! i); j < length (producers s); j \<noteq> i\<rbrakk> \<Longrightarrow> \<not> p_crit (producers s ! j)"
    and "\<lbrakk>i < length (producers s); p_crit (producers s ! i); c \<in> set (consumers s)\<rbrakk> \<Longrightarrow> \<not> c_crit c"
    and "\<lbrakk>i < length (consumers s); c_crit (consumers s ! i); j < length (consumers s); j \<noteq> i\<rbrakk> \<Longrightarrow> \<not> c_crit (consumers s ! j)"
    and "\<lbrakk>i < length (consumers s); c_crit (consumers s ! i); p \<in> set (producers s)\<rbrakk> \<Longrightarrow> \<not> p_crit p"
proof -
  have 1: "cnt p_crit (producers s) + cnt c_crit (consumers s) \<le> 1"
    using assms by (simp add: inv4_def Let_def)
  note nn = cnt_nonneg [of p_crit "producers s"] cnt_nonneg [of c_crit "consumers s"]
  show "\<lbrakk>i < length (producers s); p_crit (producers s ! i); j < length (producers s); j \<noteq> i\<rbrakk> \<Longrightarrow> \<not> p_crit (producers s ! j)"
    using cnt_two [of i "producers s" j p_crit] 1 nn by auto
  show "\<lbrakk>i < length (consumers s); c_crit (consumers s ! i); j < length (consumers s); j \<noteq> i\<rbrakk> \<Longrightarrow> \<not> c_crit (consumers s ! j)"
    using cnt_two [of i "consumers s" j c_crit] 1 nn by auto
  show "\<lbrakk>i < length (producers s); p_crit (producers s ! i); c \<in> set (consumers s)\<rbrakk> \<Longrightarrow> \<not> c_crit c"
    using cnt_nth_pos [of i "producers s" p_crit] cnt_pos_iff [of c_crit "consumers s"] 1 by force
  show "\<lbrakk>i < length (consumers s); c_crit (consumers s ! i); p \<in> set (producers s)\<rbrakk> \<Longrightarrow> \<not> p_crit p"
    using cnt_nth_pos [of i "consumers s" c_crit] cnt_pos_iff [of p_crit "producers s"] 1 by force
qed

lemma p_knows_outside: "p_knows nitems v p \<Longrightarrow> \<not> p_crit p \<Longrightarrow> nput v \<le> nput v' \<Longrightarrow> p_knows nitems v' p"
  by (cases p) (auto simp: p_crit_def)

lemma c_knows_outside: "c_knows nitems v c \<Longrightarrow> \<not> c_crit c \<Longrightarrow> nget v \<le> nget v' \<Longrightarrow> c_knows nitems v' c"
  by (cases c) (auto simp: c_crit_def)

lemma set_update_nth: "i < length xs \<Longrightarrow> y \<in> set (xs[i := x]) \<Longrightarrow> y = x \<or> (\<exists>j < length xs. j \<noteq> i \<and> y = xs ! j)"
  by (auto simp: in_set_conv_nth nth_list_update split: if_splits)

lemma inv4_know: "inv4 nitems s \<Longrightarrow> all_know nitems (vars s) (producers s) (consumers s)"
  by (simp add: inv4_def Let_def)

lemma producer_knows:
  assumes "inv4 nitems s" and "i < length (producers s)" and "p_knows nitems v' p'"
    and "v' = vars s \<or> p_crit (producers s ! i)" and "nput (vars s) \<le> nput v'" and "nget v' = nget (vars s)"
  shows "all_know nitems v' ((producers s)[i := p']) (consumers s)"
proof -
  have "p_knows nitems v' q" if "j < length (producers s)" "j \<noteq> i" "q = producers s ! j" for q j
    using alone_in_region(1) [OF assms(1,2) _ that(1,2)] inv4_know [OF assms(1)] assms(4,5) that
      p_knows_outside [of nitems "vars s" q v'] by (auto simp: all_know_def)
  moreover have "c_knows nitems v' c" if "c \<in> set (consumers s)" for c
    using alone_in_region(2) [OF assms(1,2) _ that] inv4_know [OF assms(1)] assms(4,6) that
      c_knows_outside [of nitems "vars s" c v'] by (auto simp: all_know_def)
  ultimately show ?thesis
    using assms(2,3) set_update_nth [of i "producers s" _ p'] unfolding all_know_def by blast
qed

lemma consumer_knows:
  assumes "inv4 nitems s" and "i < length (consumers s)" and "c_knows nitems v' c'"
    and "v' = vars s \<or> c_crit (consumers s ! i)" and "nget (vars s) \<le> nget v'" and "nput v' = nput (vars s)"
  shows "all_know nitems v' (producers s) ((consumers s)[i := c'])"
proof -
  have "c_knows nitems v' q" if "j < length (consumers s)" "j \<noteq> i" "q = consumers s ! j" for q j
    using alone_in_region(3) [OF assms(1,2) _ that(1,2)] inv4_know [OF assms(1)] assms(4,5) that
      c_knows_outside [of nitems "vars s" q v'] by (auto simp: all_know_def)
  moreover have "p_knows nitems v' p" if "p \<in> set (producers s)" for p
    using alone_in_region(4) [OF assms(1,2) _ that] inv4_know [OF assms(1)] assms(4,6) that
      p_knows_outside [of nitems "vars s" p v'] by (auto simp: all_know_def)
  ultimately show ?thesis
    using assms(2,3) set_update_nth [of i "consumers s" _ c'] unfolding all_know_def by blast
qed

section \<open>Every statement keeps the invariant\<close>

lemma cnt_at: "i < length xs \<Longrightarrow> of_bool (P (xs ! i)) \<le> cnt P xs"
  using cnt_nth_pos [of i xs P] by simp

lemma cnt_replace:
  "i < length xs \<Longrightarrow> cnt P (xs[i := x]) = cnt P xs - of_bool (P (xs ! i)) + of_bool (P x)"
  by (simp add: cnt_update)

lemma sum_snd_update:
  fixes xs :: "('a \<times> int) list"
  shows "i < length xs \<Longrightarrow> sum_list (map snd (xs[i := x])) = sum_list (map snd xs) + snd x - snd (xs ! i)"
  using sum_list_update_cancel [of i xs snd x] by simp

text \<open>
  A move of one thread keeps the invariant when it keeps each balance: what it adds to the
  semaphores and variables it takes from its own contribution.
\<close>

lemma inv4_producer_move:
  assumes inv: "inv4 nitems s" and i: "i < length (producers s)" and at: "producers s ! i = p"
    and vars: "nget v' = nget (vars s)" "ngetval v' = ngetval (vars s)" "printed v' = []"
      "ring_ok (buff v') (nget v') (nput v')" "nput (vars s) \<le> nput v'" "nput v' \<le> max 0 nitems"
    and sems: "int (f Mutex) + of_bool (p_crit p') = int (sems s Mutex) + of_bool (p_crit p)"
      "int (f Nempty) + of_bool (p_slot p') + nput v' = int (sems s Nempty) + of_bool (p_slot p) + nput (vars s)"
      "int (f Nstored) + of_bool (p_fresh p') - nput v' - of_bool (p_told p') =
       int (sems s Nstored) + of_bool (p_fresh p) - nput (vars s) - of_bool (p_told p)"
    and vals: "nputval v' + of_bool (p_bump p') - nput v' = nputval (vars s) + of_bool (p_bump p) - nput (vars s)"
      "snd p' + of_bool (p_uncounted p') - nput v' = snd p + of_bool (p_uncounted p) - nput (vars s)"
    and know: "p_knows nitems v' p'" "v' = vars s \<or> p_crit p"
  shows "inv4 nitems (s\<lparr>sems := f, vars := v', producers := (producers s)[i := p']\<rparr>)"
proof -
  have "all_know nitems v' ((producers s)[i := p']) (consumers s)"
    using producer_knows [OF inv i know(1)] know(2) vars(1,5) at by simp
  with inv vars sems vals show ?thesis
    unfolding inv4_def Let_def by (simp add: cnt_replace [OF i] sum_snd_update [OF i] at)
qed

lemma inv4_consumer_move:
  assumes inv: "inv4 nitems s" and i: "i < length (consumers s)" and at: "consumers s ! i = c"
    and vars: "nput v' = nput (vars s)" "nputval v' = nputval (vars s)" "printed v' = []"
      "ring_ok (buff v') (nget v') (nput v')" "nget (vars s) \<le> nget v'"
    and sems: "int (f Mutex) + of_bool (c_crit c') = int (sems s Mutex) + of_bool (c_crit c)"
      "int (f Nempty) + of_bool (c_free c') - nget v' = int (sems s Nempty) + of_bool (c_free c) - nget (vars s)"
      "int (f Nstored) + of_bool (c_item c') + nget v' = int (sems s Nstored) + of_bool (c_item c) + nget (vars s)"
    and vals: "ngetval v' + of_bool (c_bump c') - nget v' = ngetval (vars s) + of_bool (c_bump c) - nget (vars s)"
      "snd c' + of_bool (c_uncounted c') - nget v' = snd c + of_bool (c_uncounted c) - nget (vars s)"
    and know: "c_knows nitems v' c'" "v' = vars s \<or> c_crit c"
  shows "inv4 nitems (s\<lparr>sems := f, vars := v', consumers := (consumers s)[i := c']\<rparr>)"
proof -
  have "all_know nitems v' (producers s) ((consumers s)[i := c'])"
    using consumer_knows [OF inv i know(1)] know(2) vars(1,5) at by simp
  with inv vars sems vals show ?thesis
    unfolding inv4_def Let_def by (simp add: cnt_replace [OF i] sum_snd_update [OF i] at)
qed

text \<open>The room in the semaphores, so that no post fails, and in the buffer.\<close>

lemma inv4_balances:
  assumes "inv4 nitems s"
  shows "int (sems s Mutex) + cnt p_crit (producers s) + cnt c_crit (consumers s) = 1"
    and "int (sems s Nempty) + cnt p_slot (producers s) + (nput (vars s) - nget (vars s)) + cnt c_free (consumers s) = 10"
    and "int (sems s Nstored) + cnt c_item (consumers s) + cnt p_fresh (producers s) =
      (nput (vars s) - nget (vars s)) + cnt p_told (producers s)"
    and "nget (vars s) \<le> nput (vars s)"
  using assms ring_okD [of "buff (vars s)" "nget (vars s)" "nput (vars s)"]
  by (simp_all add: inv4_def Let_def NBUFF_def)

lemma inv4_room_producer:
  assumes inv: "inv4 nitems s" and i: "i < length (producers s)"
  shows "p_crit (producers s ! i) \<Longrightarrow> sems s Mutex = 0"
    and "p_slot (producers s ! i) \<Longrightarrow> sems s Nempty < 10 \<and> nput (vars s) - nget (vars s) < 10"
    and "\<not> p_told (producers s ! i) \<Longrightarrow> sems s Nstored < 10 + length (producers s)"
proof -
  note nn = inv4_balances [OF inv] cnt_nonneg [of c_crit "consumers s"] cnt_nonneg [of c_free "consumers s"]
    cnt_nonneg [of c_item "consumers s"] cnt_nonneg [of p_slot "producers s"] cnt_nonneg [of p_fresh "producers s"]
  show "p_crit (producers s ! i) \<Longrightarrow> sems s Mutex = 0"
    using cnt_nth_pos [OF i, of p_crit] nn by linarith
  show "p_slot (producers s ! i) \<Longrightarrow> sems s Nempty < 10 \<and> nput (vars s) - nget (vars s) < 10"
    using cnt_nth_pos [OF i, of p_slot] nn by linarith
  assume "\<not> p_told (producers s ! i)"
  then have "cnt p_told (producers s) < int (length (producers s))"
    using cnt_le_length [of p_told "(producers s)[i := (P4_end, 0)]"] i by (simp add: cnt_replace p_told_def)
  then show "sems s Nstored < 10 + length (producers s)"
    using nn by linarith
qed

lemma inv4_room_consumer:
  assumes inv: "inv4 nitems s" and i: "i < length (consumers s)"
  shows "c_crit (consumers s ! i) \<Longrightarrow> sems s Mutex = 0"
    and "c_free (consumers s ! i) \<Longrightarrow> sems s Nempty < 10"
    and "c_item (consumers s ! i) \<Longrightarrow> sems s Nstored < 10 + length (producers s)"
    and "c_item (consumers s ! i) \<Longrightarrow> nget (vars s) < nitems \<Longrightarrow> nget (vars s) < nput (vars s)"
proof -
  note nn = inv4_balances [OF inv] cnt_nonneg [of p_crit "producers s"] cnt_nonneg [of p_slot "producers s"]
    cnt_nonneg [of p_fresh "producers s"] cnt_nonneg [of c_free "consumers s"] cnt_le_length [of p_told "producers s"]
  show "c_crit (consumers s ! i) \<Longrightarrow> sems s Mutex = 0"
    using cnt_nth_pos [OF i, of c_crit] nn by linarith
  show "c_free (consumers s ! i) \<Longrightarrow> sems s Nempty < 10"
    using cnt_nth_pos [OF i, of c_free] nn by linarith
  assume "c_item (consumers s ! i)"
  then have it: "1 \<le> cnt c_item (consumers s)" by (rule cnt_nth_pos [OF i])
  then show "sems s Nstored < 10 + length (producers s)"
    using nn by linarith
  assume todo: "nget (vars s) < nitems"
  show "nget (vars s) < nput (vars s)"
  proof (cases "\<exists>p \<in> set (producers s). p_told p")
    case True
    then obtain p where p: "p \<in> set (producers s)" "p_told p" by blast
    then have "p_knows nitems (vars s) p" using inv4_know [OF inv] by (simp add: all_know_def)
    then have "nitems \<le> nput (vars s)" using p(2) by (cases p) (auto simp: p_told_def)
    then show ?thesis using todo by simp
  next
    case False
    then have "cnt p_told (producers s) = 0" by (simp add: cnt_zero_iff)
    then show ?thesis using it nn by linarith
  qed
qed

lemma producer_not_aborted:
  assumes inv: "inv4 nitems s" and vmax: "10 + length (producers s) \<le> vmax" and i: "i < length (producers s)"
    and step: "exec_instr vmax (produce4 nitems (producers s ! i)) s = Some (s', l)"
  shows "\<not> aborted s'"
proof -
  obtain pl c where at: "producers s ! i = (pl, c)" by fastforce
  have "\<not> aborted s" using inv by (simp add: inv4_def Let_def)
  then show ?thesis
    using step vmax inv4_room_producer [OF inv i] at by (cases pl) (auto simp: place_defs split: if_splits)
qed

lemma consumer_not_aborted:
  assumes inv: "inv4 nitems s" and vmax: "10 + length (producers s) \<le> vmax" and i: "i < length (consumers s)"
    and step: "exec_instr vmax (consume4 nitems (consumers s ! i)) s = Some (s', l)"
  shows "\<not> aborted s'"
proof -
  obtain pl c where at: "consumers s ! i = (pl, c)" by fastforce
  have "\<not> aborted s" using inv by (simp add: inv4_def Let_def)
  then show ?thesis
    using step vmax inv4_room_consumer(1-3) [OF inv i] at by (cases pl) (auto simp: place_defs split: if_splits)
qed

lemma inv4_vars:
  assumes "inv4 nitems s"
  shows "printed (vars s) = []" and "ring_ok (buff (vars s)) (nget (vars s)) (nput (vars s))"
    and "nput (vars s) \<le> max 0 nitems"
    and "nputval (vars s) + cnt p_bump (producers s) = nput (vars s)"
    and "ngetval (vars s) + cnt c_bump (consumers s) = nget (vars s)"
  using assms by (simp_all add: inv4_def Let_def)

lemma bump_crit: "p_bump p \<Longrightarrow> p_crit p" "c_bump c \<Longrightarrow> c_crit c"
  by (simp_all add: place_defs)

text \<open>Inside the region and outside of the increments the two copies of the number agree.\<close>

lemma nputval_agrees:
  assumes inv: "inv4 nitems s" and i: "i < length (producers s)"
    and "p_crit (producers s ! i)" and "\<not> p_bump (producers s ! i)"
  shows "nputval (vars s) = nput (vars s)"
proof -
  have "\<not> p_bump (producers s ! j)" if "j < length (producers s)" for j
    using alone_in_region(1) [OF inv i assms(3) that] assms(4) bump_crit(1) by metis
  then have "cnt p_bump (producers s) = 0"
    unfolding cnt_zero_iff by (metis in_set_conv_nth)
  then show ?thesis using inv4_vars(4) [OF inv] by simp
qed

lemma ngetval_agrees:
  assumes inv: "inv4 nitems s" and i: "i < length (consumers s)"
    and "c_crit (consumers s ! i)" and "\<not> c_bump (consumers s ! i)"
  shows "ngetval (vars s) = nget (vars s)"
proof -
  have "\<not> c_bump (consumers s ! j)" if "j < length (consumers s)" for j
    using alone_in_region(3) [OF inv i assms(3) that] assms(4) bump_crit(2) by metis
  then have "cnt c_bump (consumers s) = 0"
    unfolding cnt_zero_iff by (metis in_set_conv_nth)
  then show ?thesis using inv4_vars(5) [OF inv] by simp
qed

lemma producer_balances:
  assumes step: "exec_instr vmax (produce4 nitems (pl, c)) s = Some (s', l)" and ok: "\<not> aborted s'"
  shows "int (sems s' Mutex) + of_bool (p_crit l) = int (sems s Mutex) + of_bool (p_crit (pl, c))"
    and "int (sems s' Nempty) + of_bool (p_slot l) + nput (vars s') = int (sems s Nempty) + of_bool (p_slot (pl, c)) + nput (vars s)"
    and "int (sems s' Nstored) + of_bool (p_fresh l) - nput (vars s') - of_bool (p_told l) =
       int (sems s Nstored) + of_bool (p_fresh (pl, c)) - nput (vars s) - of_bool (p_told (pl, c))"
    and "nputval (vars s') + of_bool (p_bump l) - nput (vars s') = nputval (vars s) + of_bool (p_bump (pl, c)) - nput (vars s)"
    and "snd l + of_bool (p_uncounted l) - nput (vars s') = snd (pl, c) + of_bool (p_uncounted (pl, c)) - nput (vars s)"
    and "vars s' = vars s \<or> p_crit (pl, c)"
    and "nput (vars s) \<le> nput (vars s')" and "nget (vars s') = nget (vars s)" and "ngetval (vars s') = ngetval (vars s)"
    and "printed (vars s') = printed (vars s)"
  using assms by - (cases pl; clarsimp split: if_splits; simp add: place_defs)+

lemma consumer_balances:
  assumes step: "exec_instr vmax (consume4 nitems (cl, c)) s = Some (s', l)" and ok: "\<not> aborted s'"
  shows "int (sems s' Mutex) + of_bool (c_crit l) = int (sems s Mutex) + of_bool (c_crit (cl, c))"
    and "int (sems s' Nempty) + of_bool (c_free l) - nget (vars s') = int (sems s Nempty) + of_bool (c_free (cl, c)) - nget (vars s)"
    and "int (sems s' Nstored) + of_bool (c_item l) + nget (vars s') = int (sems s Nstored) + of_bool (c_item (cl, c)) + nget (vars s)"
    and "ngetval (vars s') + of_bool (c_bump l) - nget (vars s') = ngetval (vars s) + of_bool (c_bump (cl, c)) - nget (vars s)"
    and "snd l + of_bool (c_uncounted l) - nget (vars s') = snd (cl, c) + of_bool (c_uncounted (cl, c)) - nget (vars s)"
    and "vars s' = vars s \<or> c_crit (cl, c)"
    and "nget (vars s) \<le> nget (vars s')" and "nput (vars s') = nput (vars s)" and "nputval (vars s') = nputval (vars s)"
    and "buff (vars s') = buff (vars s)"
  using assms by - (cases cl; clarsimp split: if_splits; simp add: place_defs)+

lemma inv4_producer:
  assumes inv: "inv4 nitems s" and vmax: "10 + length (producers s) \<le> vmax" and i: "i < length (producers s)"
    and step: "exec_instr vmax (produce4 nitems (producers s ! i)) s = Some (s', l)"
  shows "inv4 nitems (s'\<lparr>producers := (producers s)[i := l]\<rparr>)"
proof -
  obtain pl c where at: "producers s ! i = (pl, c)" by fastforce
  note ok = producer_not_aborted [OF inv vmax i step]
  have knows: "p_knows nitems (vars s) (pl, c)"
    using inv4_know [OF inv] nth_mem [OF i] unfolding all_know_def by (metis at)
  note room = inv4_room_producer(2) [OF inv i]
  note stores = ring_ok_store [OF inv4_vars(2) [OF inv], where x = "nput (vars s)"] nputval_agrees [OF inv i]
  note facts = step [unfolded at] ok knows inv4_vars [OF inv]
  have "inv4 nitems (s\<lparr>sems := sems s', vars := vars s', producers := (producers s)[i := l]\<rparr>)"
  proof (rule inv4_producer_move [OF inv i at])
    show "ring_ok (buff (vars s')) (nget (vars s')) (nput (vars s'))"
      using facts room stores ring_ok_stored [OF inv4_vars(2) [OF inv]]
      by (cases pl) (auto simp: place_defs at split: if_splits)
    show "p_knows nitems (vars s') l"
      using facts room stores by (cases pl) (auto simp: place_defs at split: if_splits)
    show "nput (vars s') \<le> max 0 nitems"
      using facts by (cases pl) (auto split: if_splits)
  qed (use producer_balances [OF step [unfolded at] ok] inv4_vars(1) [OF inv] in simp_all)
  then show ?thesis
    using exec_instr_shape [OF step ok] by simp
qed

lemma inv4_consumer:
  assumes inv: "inv4 nitems s" and vmax: "10 + length (producers s) \<le> vmax" and i: "i < length (consumers s)"
    and step: "exec_instr vmax (consume4 nitems (consumers s ! i)) s = Some (s', l)"
  shows "inv4 nitems (s'\<lparr>consumers := (consumers s)[i := l]\<rparr>)"
proof -
  obtain cl c where at: "consumers s ! i = (cl, c)" by fastforce
  note ok = consumer_not_aborted [OF inv vmax i step]
  have knows: "c_knows nitems (vars s) (cl, c)"
    using inv4_know [OF inv] nth_mem [OF i] unfolding all_know_def by (metis at)
  note room = inv4_room_consumer(4) [OF inv i]
  note fetches = ring_ok_fetch [OF inv4_vars(2) [OF inv]] ngetval_agrees [OF inv i]
  note facts = step [unfolded at] ok knows
  have "inv4 nitems (s\<lparr>sems := sems s', vars := vars s', consumers := (consumers s)[i := l]\<rparr>)"
  proof (rule inv4_consumer_move [OF inv i at])
    show "ring_ok (buff (vars s')) (nget (vars s')) (nput (vars s'))"
      using facts room fetches inv4_vars(2) [OF inv] by (cases cl) (auto simp: place_defs at split: if_splits)
    show "c_knows nitems (vars s') l"
      using facts by (cases cl) (auto split: if_splits)
    show "printed (vars s') = []"
      using facts room fetches inv4_vars(1) [OF inv] by (cases cl) (auto simp: place_defs at split: if_splits)
  qed (use consumer_balances [OF step [unfolded at] ok] in simp_all)
  then show ?thesis
    using exec_instr_shape [OF step ok] by simp
qed

end
