(* ===== verification/Prodcons_One.thy ===== *)
theory Prodcons_One
  imports Prodcons_Inv
begin

text \<open>
  \<open>prodcons1.c\<close> and \<open>prodcons2.c\<close>, with one producer and one consumer: the invariant, and
  that every run ends with all items consumed.
\<close>

section \<open>The invariant\<close>

text \<open>
  How many items a thread has stored, or fetched, at its place; at the end all of them.
\<close>

fun put_no :: "int \<Rightarrow> pline1 \<Rightarrow> int" where
  "put_no n (P1_for i) = i" | "put_no n (P1_nempty i) = i" | "put_no n (P1_mutex i) = i" | "put_no n (P1_store i) = i"
| "put_no n (P1_unlock i) = i + 1" | "put_no n (P1_nstored i) = i + 1" | "put_no n P1_end = max 0 n"

fun get_no :: "int \<Rightarrow> cline1 \<Rightarrow> int" where
  "get_no n (C1_for i) = i" | "get_no n (C1_nstored i) = i" | "get_no n (C1_mutex i) = i" | "get_no n (C1_check i) = i"
| "get_no n (C1_unlock i) = i + 1" | "get_no n (C1_nempty i) = i + 1" | "get_no n C1_end = max 0 n"

text \<open>Inside the region; holding an empty slot; with an item that is not announced.\<close>

fun p1_crit :: "pline1 \<Rightarrow> bool" where
  "p1_crit (P1_store i) = True" | "p1_crit (P1_unlock i) = True" | "p1_crit l = False"
fun p1_slot :: "pline1 \<Rightarrow> bool" where
  "p1_slot (P1_mutex i) = True" | "p1_slot (P1_store i) = True" | "p1_slot l = False"
fun p1_fresh :: "pline1 \<Rightarrow> bool" where
  "p1_fresh (P1_unlock i) = True" | "p1_fresh (P1_nstored i) = True" | "p1_fresh l = False"

fun c1_crit :: "cline1 \<Rightarrow> bool" where
  "c1_crit (C1_check i) = True" | "c1_crit (C1_unlock i) = True" | "c1_crit l = False"
fun c1_item :: "cline1 \<Rightarrow> bool" where
  "c1_item (C1_mutex i) = True" | "c1_item (C1_check i) = True" | "c1_item l = False"
fun c1_free :: "cline1 \<Rightarrow> bool" where
  "c1_free (C1_unlock i) = True" | "c1_free (C1_nempty i) = True" | "c1_free l = False"

fun p1_range :: "int \<Rightarrow> pline1 \<Rightarrow> bool" where
  "p1_range n (P1_for i) \<longleftrightarrow> i \<le> max 0 n" | "p1_range n (P1_nempty i) \<longleftrightarrow> i < n" | "p1_range n (P1_mutex i) \<longleftrightarrow> i < n"
| "p1_range n (P1_store i) \<longleftrightarrow> i < n" | "p1_range n (P1_unlock i) \<longleftrightarrow> i < n" | "p1_range n (P1_nstored i) \<longleftrightarrow> i < n"
| "p1_range n P1_end \<longleftrightarrow> True"

fun c1_range :: "int \<Rightarrow> cline1 \<Rightarrow> bool" where
  "c1_range n (C1_for i) \<longleftrightarrow> i \<le> max 0 n" | "c1_range n (C1_nstored i) \<longleftrightarrow> i < n" | "c1_range n (C1_mutex i) \<longleftrightarrow> i < n"
| "c1_range n (C1_check i) \<longleftrightarrow> i < n" | "c1_range n (C1_unlock i) \<longleftrightarrow> i < n" | "c1_range n (C1_nempty i) \<longleftrightarrow> i < n"
| "c1_range n C1_end \<longleftrightarrow> True"

type_synonym system1 = "(shared1, pline1, cline1) system"

definition inv1 :: "int \<Rightarrow> system1 \<Rightarrow> pline1 \<Rightarrow> cline1 \<Rightarrow> bool" where
  "inv1 n s p c \<longleftrightarrow> producers s = [p] \<and> consumers s = [c] \<and> \<not> aborted s \<and> printed (vars s) = [] \<and>
    ring_ok (buff (vars s)) (get_no n c) (put_no n p) \<and> p1_range n p \<and> c1_range n c \<and>
    int (sems s Mutex) + of_bool (p1_crit p) + of_bool (c1_crit c) = 1 \<and>
    int (sems s Nempty) + of_bool (p1_slot p) + (put_no n p - get_no n c) + of_bool (c1_free c) = 10 \<and>
    int (sems s Nstored) + of_bool (c1_item c) + of_bool (p1_fresh p) = put_no n p - get_no n c"

lemma inv1D:
  assumes "inv1 n s p c"
  shows "producers s = [p]" "consumers s = [c]" "\<not> aborted s" "printed (vars s) = []"
    "ring_ok (buff (vars s)) (get_no n c) (put_no n p)" "p1_range n p" "c1_range n c"
    "int (sems s Mutex) + of_bool (p1_crit p) + of_bool (c1_crit c) = 1"
    "int (sems s Nempty) + of_bool (p1_slot p) + (put_no n p - get_no n c) + of_bool (c1_free c) = 10"
    "int (sems s Nstored) + of_bool (c1_item c) + of_bool (p1_fresh p) = put_no n p - get_no n c"
  using assms by (simp_all add: inv1_def)

lemma inv1_bounds:
  assumes "inv1 n s p c"
  shows "p1_crit p \<Longrightarrow> sems s Mutex = 0" and "c1_crit c \<Longrightarrow> sems s Mutex = 0"
    and "sems s Nempty \<le> 10" and "sems s Nstored \<le> 10"
    and "p1_slot p \<Longrightarrow> put_no n p - get_no n c < 10" and "c1_item c \<Longrightarrow> get_no n c < put_no n p"
proof -
  have nn: "0 \<le> (of_bool b :: int)" for b by simp
  have "get_no n c \<le> put_no n p" using inv1D(5) [OF assms] ring_okD by blast
  note facts = inv1D(8,9,10) [OF assms] nn [of "p1_crit p"] nn [of "c1_crit c"] nn [of "p1_slot p"] nn [of "c1_free c"]
    nn [of "c1_item c"] nn [of "p1_fresh p"] this
  show "sems s Nempty \<le> 10" and "sems s Nstored \<le> 10" using facts by linarith+
  show "p1_crit p \<Longrightarrow> sems s Mutex = 0" and "c1_crit c \<Longrightarrow> sems s Mutex = 0"
    using facts(1) by (auto simp: of_bool_def split: if_splits)
  show "p1_slot p \<Longrightarrow> put_no n p - get_no n c < 10"
  proof -
    assume "p1_slot p"
    then have "of_bool (p1_slot p) = (1 :: int)" by simp
    then show ?thesis using facts by linarith
  qed
  show "c1_item c \<Longrightarrow> get_no n c < put_no n p"
  proof -
    assume "c1_item c"
    then have "of_bool (c1_item c) = (1 :: int)" by simp
    then show ?thesis using facts by linarith
  qed
qed

lemma inv1_producer:
  assumes inv: "inv1 n s p c" and vmax: "10 < vmax" and step: "exec_instr vmax (produce1 n p) s = Some (s', p')"
  shows "inv1 n (s'\<lparr>producers := [p']\<rparr>) p' c"
proof -
  note D = inv1D [OF inv] and B = inv1_bounds [OF inv]
  show ?thesis
  proof (cases p)
    case (P1_store i)
    then have "ring_ok ((buff (vars s))[nat (i mod NBUFF) := i]) (get_no n c) (i + 1)"
      using ring_ok_store [OF D(5), of i] B(5) ring_ok_stored by simp
    then show ?thesis using step D P1_store by (auto simp: inv1_def split del: split_of_bool)
  next
    case (P1_for i)
    have "0 \<le> put_no n p" using ring_okD [OF D(5)] by linarith
    then have "i = max 0 n" if "\<not> i < n"
      using D(6) P1_for that by auto
    moreover have "s' = s" "p' = (if i < n then P1_nempty i else P1_end)"
      using step P1_for by auto
    ultimately show ?thesis using D P1_for by (cases "i < n") (simp_all add: inv1_def split del: split_of_bool)
  qed (use step D B vmax in \<open>auto simp: inv1_def split: if_splits split del: split_of_bool\<close>)
qed

lemma inv1_consumer:
  assumes inv: "inv1 n s p c" and vmax: "10 < vmax" and step: "exec_instr vmax (consume1 n c) s = Some (s', c')"
  shows "inv1 n (s'\<lparr>consumers := [c']\<rparr>) p c'"
proof -
  note D = inv1D [OF inv] and B = inv1_bounds [OF inv]
  show ?thesis
  proof (cases c)
    case (C1_check i)
    then have "buff (vars s) ! nat (i mod NBUFF) = i \<and> ring_ok (buff (vars s)) (i + 1) (put_no n p)"
      using ring_ok_fetch [OF D(5)] B(6) by simp
    then show ?thesis using step D C1_check by (auto simp: inv1_def split del: split_of_bool)
  next
    case (C1_for i)
    have "i = max 0 n" if "\<not> i < n"
      using D(7) ring_okD [OF D(5)] C1_for that by auto
    moreover have "s' = s" "c' = (if i < n then C1_nstored i else C1_end)"
      using step C1_for by auto
    ultimately show ?thesis using D C1_for by (cases "i < n") (simp_all add: inv1_def split del: split_of_bool)
  qed (use step D B vmax in \<open>auto simp: inv1_def split: if_splits split del: split_of_bool\<close>)
qed

section \<open>Every run ends\<close>

fun p1_left :: "int \<Rightarrow> pline1 \<Rightarrow> int" where
  "p1_left n (P1_for i) = 6 * (max 0 n - i) + 1" | "p1_left n (P1_nempty i) = 6 * (max 0 n - i)"
| "p1_left n (P1_mutex i) = 6 * (max 0 n - i) - 1" | "p1_left n (P1_store i) = 6 * (max 0 n - i) - 2"
| "p1_left n (P1_unlock i) = 6 * (max 0 n - i) - 3" | "p1_left n (P1_nstored i) = 6 * (max 0 n - i) - 4" | "p1_left n P1_end = 0"

fun c1_left :: "int \<Rightarrow> cline1 \<Rightarrow> int" where
  "c1_left n (C1_for i) = 6 * (max 0 n - i) + 1" | "c1_left n (C1_nstored i) = 6 * (max 0 n - i)"
| "c1_left n (C1_mutex i) = 6 * (max 0 n - i) - 1" | "c1_left n (C1_check i) = 6 * (max 0 n - i) - 2"
| "c1_left n (C1_unlock i) = 6 * (max 0 n - i) - 3" | "c1_left n (C1_nempty i) = 6 * (max 0 n - i) - 4" | "c1_left n C1_end = 0"

lemma p1_left_nonneg: "p1_range n p \<Longrightarrow> 0 \<le> p1_left n p"
  by (cases p) auto

lemma c1_left_nonneg: "c1_range n c \<Longrightarrow> 0 \<le> c1_left n c"
  by (cases c) auto

lemma produce1_spends: "exec_instr vmax (produce1 n p) s = Some (s', p') \<Longrightarrow> p1_range n p \<Longrightarrow> p1_left n p' < p1_left n p"
  by (cases p) (auto split: if_splits)

lemma consume1_spends: "exec_instr vmax (consume1 n c) s = Some (s', c') \<Longrightarrow> c1_range n c \<Longrightarrow> c1_left n c' < c1_left n c"
  by (cases c) (auto split: if_splits)

definition good1 :: "int \<Rightarrow> nat \<Rightarrow> system1 \<Rightarrow> bool" where
  "good1 n vmax s \<longleftrightarrow> 10 < vmax \<and> inv1 n s (hd (producers s)) (hd (consumers s))"

definition left1 :: "int \<Rightarrow> system1 \<Rightarrow> int" where
  "left1 n s = p1_left n (hd (producers s)) + c1_left n (hd (consumers s))"

definition final1 :: "system1 \<Rightarrow> bool" where
  "final1 s \<longleftrightarrow> producers s = [P1_end] \<and> consumers s = [C1_end]"

abbreviation step1 :: "int \<Rightarrow> nat \<Rightarrow> system1 \<Rightarrow> system1 \<Rightarrow> bool" where
  "step1 n vmax \<equiv> pstep vmax (produce1 n) (consume1 n)"

lemma step1_cases:
  assumes "step1 n vmax s s'" and "inv1 n s p c"
  shows "(\<exists>t p'. exec_instr vmax (produce1 n p) s = Some (t, p') \<and> s' = t\<lparr>producers := [p']\<rparr> \<and> consumers t = [c]) \<or>
    (\<exists>t c'. exec_instr vmax (consume1 n c) s = Some (t, c') \<and> s' = t\<lparr>consumers := [c']\<rparr> \<and> producers t = [p])"
  using assms(1)
proof cases
  case (producer i t l)
  then show ?thesis using exec_instr_lists [OF producer(4)] inv1D(1,2) [OF assms(2)] by auto
next
  case (consumer i t l)
  then show ?thesis using exec_instr_lists [OF consumer(4)] inv1D(1,2) [OF assms(2)] by auto
qed

lemma step1_keeps_spends:
  assumes "step1 n vmax s s'" and "good1 n vmax s"
  shows "good1 n vmax s' \<and> left1 n s' < left1 n s"
proof -
  obtain p c where inv: "inv1 n s p c" and pc: "producers s = [p]" "consumers s = [c]" and vmax: "10 < vmax"
    using assms(2) by (auto simp: good1_def inv1_def)
  then have range: "p1_range n p" "c1_range n c" by (auto simp: inv1_def)
  from step1_cases [OF assms(1) inv] show ?thesis
    using inv1_producer [OF inv vmax] inv1_consumer [OF inv vmax] produce1_spends [OF _ range(1)] consume1_spends [OF _ range(2)] vmax pc
    by (fastforce simp: good1_def left1_def)
qed

lemma good1_moves:
  assumes good: "good1 n vmax s" and "\<not> final1 s"
  shows "\<exists>s'. step1 n vmax s s'"
proof -
  obtain p c where inv: "inv1 n s p c" and pc: "producers s = [p]" "consumers s = [c]" and ok: "\<not> aborted s"
    using good by (auto simp: good1_def inv1_def)
  have "exec_instr vmax (produce1 n p) s \<noteq> None \<or> exec_instr vmax (consume1 n c) s \<noteq> None"
    using inv assms(2) pc by (cases p; cases c) (auto simp: inv1_def final1_def)
  then show ?thesis
    using pstep.producer [of s 0 vmax "produce1 n"] pstep.consumer [of s 0 vmax "consume1 n"] ok pc by fastforce
qed

interpretation prog1: ending_program "step1 n vmax" "good1 n vmax" "left1 n" final1 for n vmax
proof unfold_locales
  fix s
  assume "good1 n vmax s"
  then show "0 \<le> left1 n s"
    using p1_left_nonneg c1_left_nonneg by (simp add: good1_def inv1_def left1_def)
qed (use step1_keeps_spends good1_moves in blast)+

lemma main1_good:
  assumes "main1 args = Inr (s0, n)" and "10 < vmax"
  shows "good1 n vmax s0 \<and> left1 n s0 = 12 * max 0 n + 2"
  using assms ring_ok_start
  by (auto simp: main1_def good1_def inv1_def left1_def shared1_start_def sem_initial_def NBUFF_def split: list.splits)

lemma one_completes:
  assumes "main1 args = Inr (s0, nitems)" and "10 < vmax" and "(step1 nitems vmax ^^ n) s0 s"
  shows "\<not> aborted s \<and> printed (vars s) = [] \<and> int n \<le> 12 * max 0 nitems + 2 \<and>
    ((\<exists>s'. step1 nitems vmax s s') \<or> producers s = [P1_end] \<and> consumers s = [C1_end])"
proof -
  note good = main1_good [OF assms(1,2)]
  have "good1 nitems vmax s" using prog1.run_good [OF assms(3)] good by blast
  then show ?thesis
    using prog1.run_short [OF assms(3)] prog1.run_stuck [OF assms(3)] good
    by (auto simp: good1_def inv1_def final1_def)
qed

text \<open>
  \<open>prodcons1.c\<close> completes: whatever the scheduler does, no post fails and
  the consumer finds every number in its place, so that nothing is printed; no schedule
  deadlocks, none is longer than twelve statements for each item, and at the end both threads
  have returned.
\<close>

theorem prodcons1_completes:
  assumes "main1 args = Inr (s0, nitems)" and "10 < vmax" and "(step1 nitems vmax ^^ n) s0 s"
  shows "\<not> aborted s \<and> printed (vars s) = [] \<and> int n \<le> 12 * max 0 nitems + 2 \<and>
    ((\<exists>s'. step1 nitems vmax s s') \<or> producers s = [P1_end] \<and> consumers s = [C1_end])"
  by (rule one_completes [OF assms])

lemma prodcons2_completes:
  assumes "main2 args = Inr (s0, nitems)" and "10 < vmax" and "(pstep vmax (produce2 nitems) (consume2 nitems) ^^ n) s0 s"
  shows "\<not> aborted s \<and> printed (vars s) = [] \<and> int n \<le> 12 * max 0 nitems + 2 \<and>
    ((\<exists>s'. pstep vmax (produce2 nitems) (consume2 nitems) s s') \<or> producers s = [P1_end] \<and> consumers s = [C1_end])"
  using one_completes [of args s0 nitems vmax n s] assms
  by (auto simp: main2_def produce2_def consume2_def split: sum.splits)

definition ex1 :: system1 where
  "ex1 = \<lparr>vars = shared1_start, sems = sem_initial, aborted = False, producers = [P1_for 0], consumers = [C1_for 0]\<rparr>"

lemma ex1_main: "main1 [''3''] = Inr (ex1, 3)"
proof -
  have "c_atoi ''3'' = 3" by code_simp
  then show ?thesis by (simp add: main1_def ex1_def)
qed

lemma ex1_step: "(step1 3 32767 ^^ 1) ex1 (ex1\<lparr>producers := [P1_nempty 0]\<rparr>)"
proof -
  have "exec_instr 32767 (produce1 3 (producers ex1 ! 0)) ex1 = Some (ex1, P1_nempty 0)"
    by (simp add: ex1_def)
  from pstep.producer [where produce = "produce1 3", OF _ _ this] show ?thesis
    by (simp add: ex1_def eq_OO)
qed

theorem prodcons1_completes_witness:
  "printed (vars ex1) = [] \<and> (\<exists>s'. step1 3 32767 (ex1\<lparr>producers := [P1_nempty 0]\<rparr>) s')"
  using prodcons1_completes [OF ex1_main _ ex1_step] by (simp add: ex1_def)

end
