(* ===== verification/Prodcons_Props.thy ===== *)
theory Prodcons_Props
  imports Prodcons_Inv
begin

text \<open>
  The producer-consumer programs end, whatever the scheduler does, with every item produced
  and consumed once and nothing printed.
\<close>

section \<open>\<open>prodcons4.c\<close>\<close>

text \<open>The statements a thread still executes before it has to store or fetch an item again.\<close>

definition p_left :: "pline4 \<Rightarrow> int" where
  "p_left l = (case l of P4_nempty \<Rightarrow> 6 | P4_mutex \<Rightarrow> 5 | P4_test \<Rightarrow> 4 | P4_store \<Rightarrow> 3 | P4_nput \<Rightarrow> 2
     | P4_nputval \<Rightarrow> 10 | P4_unlock \<Rightarrow> 9 | P4_nstored \<Rightarrow> 8 | P4_count \<Rightarrow> 7
     | P4_done_nstored \<Rightarrow> 3 | P4_done_nempty \<Rightarrow> 2 | P4_done_unlock \<Rightarrow> 1 | P4_end \<Rightarrow> 0)"

definition c_left :: "cline4 \<Rightarrow> int" where
  "c_left l = (case l of C4_nstored \<Rightarrow> 7 | C4_mutex \<Rightarrow> 6 | C4_test \<Rightarrow> 5 | C4_index \<Rightarrow> 4 | C4_check i \<Rightarrow> 3 | C4_nget \<Rightarrow> 2
     | C4_ngetval \<Rightarrow> 11 | C4_unlock \<Rightarrow> 10 | C4_nempty \<Rightarrow> 9 | C4_count \<Rightarrow> 8
     | C4_done_nstored \<Rightarrow> 3 | C4_done_unlock \<Rightarrow> 2 | C4_end \<Rightarrow> 0)"

definition left4 :: "int \<Rightarrow> system4 \<Rightarrow> int" where
  "left4 nitems s = sum_list (map (p_left \<circ> fst) (producers s)) + sum_list (map (c_left \<circ> fst) (consumers s)) +
    9 * (max 0 nitems - nput (vars s)) + 10 * (max 0 nitems - nget (vars s))"

lemma produce4_spends:
  assumes "exec_instr vmax (produce4 nitems (pl, c)) s = Some (s', l)"
  shows "p_left (fst l) - 9 * nput (vars s') < p_left pl - 9 * nput (vars s) \<and> nget (vars s') = nget (vars s)"
  using assms by (cases pl) (auto simp: p_left_def split: if_splits)

lemma consume4_spends:
  assumes "exec_instr vmax (consume4 nitems (cl, c)) s = Some (s', l)"
  shows "c_left (fst l) - 10 * nget (vars s') < c_left cl - 10 * nget (vars s) \<and> nput (vars s') = nput (vars s)"
  using assms by (cases cl) (auto simp: c_left_def split: if_splits)

definition good4 :: "int \<Rightarrow> nat \<Rightarrow> system4 \<Rightarrow> bool" where
  "good4 nitems vmax s \<longleftrightarrow> inv4 nitems s \<and> 10 + length (producers s) \<le> vmax \<and> producers s \<noteq> [] \<and> consumers s \<noteq> []"

definition final4 :: "int \<Rightarrow> system4 \<Rightarrow> bool" where
  "final4 nitems s \<longleftrightarrow> (\<forall>p \<in> set (producers s). fst p = P4_end) \<and> (\<forall>c \<in> set (consumers s). fst c = C4_end) \<and>
    sum_list (map snd (producers s)) = max 0 nitems \<and> sum_list (map snd (consumers s)) = max 0 nitems"

abbreviation step4 :: "int \<Rightarrow> nat \<Rightarrow> system4 \<Rightarrow> system4 \<Rightarrow> bool" where
  "step4 nitems vmax \<equiv> pstep vmax (produce4 nitems) (consume4 nitems)"

lemma step4_keeps: "good4 nitems vmax s \<Longrightarrow> step4 nitems vmax s s' \<Longrightarrow> good4 nitems vmax s'"
proof (erule pstep.cases, goal_cases)
  case (1 t i t' l)
  then show ?case using inv4_producer [of nitems t vmax i t' l] exec_instr_lists [of vmax _ t t' l] by (simp add: good4_def)
next
  case (2 t i t' l)
  then show ?case using inv4_consumer [of nitems t vmax i t' l] exec_instr_lists [of vmax _ t t' l] by (simp add: good4_def)
qed

lemma step4_spends: "step4 nitems vmax s s' \<Longrightarrow> left4 nitems s' < left4 nitems s"
proof (erule pstep.cases, goal_cases)
  case (1 t i t' l)
  then show ?case
    using produce4_spends [of vmax nitems "fst (producers t ! i)" "snd (producers t ! i)" t t' l] exec_instr_lists [of vmax _ t t' l]
    by (simp add: left4_def sum_left_update)
next
  case (2 t i t' l)
  then show ?case
    using consume4_spends [of vmax nitems "fst (consumers t ! i)" "snd (consumers t ! i)" t t' l] exec_instr_lists [of vmax _ t t' l]
    by (simp add: left4_def sum_left_update)
qed

lemma p_left_nonneg: "0 \<le> p_left l" by (simp add: p_left_def split: pline4.split)
lemma c_left_nonneg: "0 \<le> c_left l" by (simp add: c_left_def split: cline4.split)

lemma good4_some_left: "good4 nitems vmax s \<Longrightarrow> 0 \<le> left4 nitems s"
  using inv4_vars(3) [of nitems s] inv4_balances(4) [of nitems s] p_left_nonneg c_left_nonneg
  unfolding good4_def left4_def
  by (intro add_nonneg_nonneg sum_list_nonneg) auto

text \<open>When no thread can go on, none is inside the region, and the balances leave only the end.\<close>

lemma blocked_producer:
  "exec_instr vmax (produce4 nitems p) s = None \<Longrightarrow>
    fst p = P4_end \<or> fst p = P4_nempty \<and> sems s Nempty = 0 \<or> fst p = P4_mutex \<and> sems s Mutex = 0"
  by (cases "(nitems, p)" rule: produce4.cases) (auto split: if_splits)

lemma blocked_consumer:
  "exec_instr vmax (consume4 nitems c) s = None \<Longrightarrow>
    fst c = C4_end \<or> fst c = C4_nstored \<and> sems s Nstored = 0 \<or> fst c = C4_mutex \<and> sems s Mutex = 0"
  by (cases "(nitems, c)" rule: consume4.cases) (auto split: if_splits)

lemma stuck_places:
  assumes good: "good4 nitems vmax s" and stuck: "\<nexists>s'. step4 nitems vmax s s'"
  shows "\<forall>p \<in> set (producers s). fst p = P4_end \<or> fst p = P4_nempty \<and> sems s Nempty = 0"
    and "\<forall>c \<in> set (consumers s). fst c = C4_end \<or> fst c = C4_nstored \<and> sems s Nstored = 0"
proof -
  have inv: "inv4 nitems s" and "\<not> aborted s"
    using good by (auto simp: good4_def inv4_def Let_def)
  have "exec_instr vmax (produce4 nitems p) s = None" if "p \<in> set (producers s)" for p
    using pstep.producer [OF \<open>\<not> aborted s\<close>, of _ vmax "produce4 nitems"] that stuck unfolding in_set_conv_nth by (metis not_None_eq surj_pair)
  then have p: "fst p = P4_end \<or> fst p = P4_nempty \<and> sems s Nempty = 0 \<or> fst p = P4_mutex \<and> sems s Mutex = 0"
    if "p \<in> set (producers s)" for p
    using blocked_producer that by blast
  have "exec_instr vmax (consume4 nitems c) s = None" if "c \<in> set (consumers s)" for c
    using pstep.consumer [OF \<open>\<not> aborted s\<close>, of _ vmax "consume4 nitems"] that stuck unfolding in_set_conv_nth by (metis not_None_eq surj_pair)
  then have c: "fst c = C4_end \<or> fst c = C4_nstored \<and> sems s Nstored = 0 \<or> fst c = C4_mutex \<and> sems s Mutex = 0"
    if "c \<in> set (consumers s)" for c
    using blocked_consumer that by blast
  have "cnt p_crit (producers s) = 0" and "cnt c_crit (consumers s) = 0"
    unfolding cnt_zero_iff place_defs using p c by fastforce+
  then have "sems s Mutex = 1"
    using inv4_balances(1) [OF inv] by simp
  then show "\<forall>p \<in> set (producers s). fst p = P4_end \<or> fst p = P4_nempty \<and> sems s Nempty = 0"
    and "\<forall>c \<in> set (consumers s). fst c = C4_end \<or> fst c = C4_nstored \<and> sems s Nstored = 0"
    using p c by auto
qed

lemma step4_moves:
  assumes good: "good4 nitems vmax s" and stuck: "\<nexists>s'. step4 nitems vmax s s'"
  shows "final4 nitems s"
proof -
  note p = stuck_places(1) [OF assms] and c = stuck_places(2) [OF assms]
  have inv: "inv4 nitems s" and ne: "producers s \<noteq> []" "consumers s \<noteq> []"
    using good by (auto simp: good4_def)
  have zero: "cnt p_slot (producers s) = 0" "cnt p_fresh (producers s) = 0" "cnt p_uncounted (producers s) = 0"
    "cnt c_free (consumers s) = 0" "cnt c_item (consumers s) = 0" "cnt c_uncounted (consumers s) = 0"
    unfolding cnt_zero_iff place_defs using p c by fastforce+
  note bal = inv4_balances(2,3,4) [OF inv, unfolded zero]
  have range: "0 \<le> nget (vars s)" "nput (vars s) \<le> max 0 nitems"
    using inv4_vars(2,3) [OF inv] ring_okD by blast+
  have ended: "nitems \<le> nget (vars s)" if "x \<in> set (consumers s)" "fst x = C4_end" for x
  proof -
    have "c_knows nitems (vars s) x" using inv4_know [OF inv] that(1) by (simp add: all_know_def)
    then show ?thesis using that(2) by (cases x) auto
  qed
  have stored: "0 < sems s Nstored"
  proof (cases "\<exists>p \<in> set (producers s). fst p = P4_nempty")
    case True
    then have "sems s Nempty = 0" using p by auto
    then show ?thesis using bal cnt_nonneg [of p_told "producers s"] by linarith
  next
    case False
    then have "p_told (hd (producers s))" using p ne(1) by (simp add: p_told_def)
    then have "0 < cnt p_told (producers s)" using ne(1) by (auto simp: cnt_pos_iff intro: bexI [of _ "hd (producers s)"])
    then show ?thesis using bal by linarith
  qed
  then have ce: "\<forall>x \<in> set (consumers s). fst x = C4_end" using c by auto
  then have "nitems \<le> nget (vars s)" using ended [of "hd (consumers s)"] ne(2) by simp
  then have eq: "nget (vars s) = max 0 nitems" "nput (vars s) = max 0 nitems"
    using range bal(3) by auto
  then have "sems s Nempty \<noteq> 0" using bal(1) by auto
  then have "\<forall>x \<in> set (producers s). fst x = P4_end" using p by auto
  then show ?thesis
    using ce inv eq zero by (simp add: final4_def inv4_def Let_def)
qed

interpretation prog4: ending_program "step4 nitems vmax" "good4 nitems vmax" "left4 nitems" "final4 nitems"
  for nitems vmax
  by unfold_locales (blast intro: step4_keeps step4_spends good4_some_left step4_moves)+

lemma nthreads_le: "nthreads n \<le> 100"
  by (simp add: nthreads_def MAXNTHREADS_def nat_le_iff)

lemma cnt_replicate: "cnt P (replicate n x) = (if P x then int n else 0)"
  by (simp add: cnt_def)

lemma main4_good:
  assumes "main4 args = Inr (s0, nitems)" and "110 \<le> vmax" and "producers s0 \<noteq> []" and "consumers s0 \<noteq> []"
  shows "good4 nitems vmax s0"
    and "left4 nitems s0 = 6 * int (length (producers s0)) + 7 * int (length (consumers s0)) + 19 * max 0 nitems"
proof -
  obtain n np nc where args: "args = [n, np, nc]"
    using assms(1) by (auto simp: main4_def split: list.splits)
  have s0: "vars s0 = shared4_start" "sems s0 = sem_initial" "\<not> aborted s0" "producers s0 = replicate (nthreads np) (P4_nempty, 0)"
    "consumers s0 = replicate (nthreads nc) (C4_nstored, 0)"
    using assms(1) by (auto simp: main4_def args)
  have "all_know nitems shared4_start (producers s0) (consumers s0)"
    by (auto simp: all_know_def s0)
  then have "inv4 nitems s0"
    unfolding inv4_def Let_def
    by (simp add: s0 shared4_start_def ring_ok_start sem_initial_def cnt_replicate place_defs NBUFF_def sum_list_replicate)
  then show "good4 nitems vmax s0"
    using assms(2,3,4) nthreads_le [of np] by (simp add: good4_def s0)
  show "left4 nitems s0 = 6 * int (length (producers s0)) + 7 * int (length (consumers s0)) + 19 * max 0 nitems"
    by (simp add: left4_def s0 shared4_start_def p_left_def c_left_def sum_list_replicate algebra_simps)
qed

text \<open>
  C13: \<open>prodcons4.c\<close> excludes and keeps its buffer: whatever the scheduler does, at most one
  thread is inside the region guarded by \<open>mutex\<close>, the buffer holds between none and ten
  items, every number between \<open>nget\<close> and \<open>nput\<close> is in its place, no post exceeds the largest
  semaphore value, and no consumer prints an error.
\<close>

theorem prodcons4_exclusive:
  assumes "main4 args = Inr (s0, nitems)" and "110 \<le> vmax" and "producers s0 \<noteq> []" and "consumers s0 \<noteq> []"
    and "(step4 nitems vmax ^^ n) s0 s"
  shows "cnt p_crit (producers s) + cnt c_crit (consumers s) \<le> 1 \<and>
    nget (vars s) \<le> nput (vars s) \<and> nput (vars s) \<le> nget (vars s) + NBUFF \<and>
    (\<forall>k. nget (vars s) \<le> k \<and> k < nput (vars s) \<longrightarrow> buff (vars s) ! nat (k mod NBUFF) = k) \<and>
    \<not> aborted s \<and> printed (vars s) = []"
proof -
  have inv: "inv4 nitems s"
    using prog4.run_good [OF assms(5) main4_good(1) [OF assms(1-4)]] by (simp add: good4_def)
  have "cnt p_crit (producers s) + cnt c_crit (consumers s) \<le> 1" "nput (vars s) \<le> nget (vars s) + NBUFF"
    using inv4_balances(1,2) [OF inv] cnt_nonneg [of p_slot "producers s"] cnt_nonneg [of c_free "consumers s"]
    unfolding NBUFF_def by linarith+
  then show ?thesis
    using inv by (simp add: inv4_def Let_def ring_ok_def)
qed

text \<open>
  C12: \<open>prodcons4.c\<close> completes: with at least one producer and one consumer no schedule runs
  for ever (there is a bound on the number of statements), no schedule deadlocks, and when no
  thread can go on, all have returned, and the counts of the producers and those of the
  consumers both add up to the number of items.
\<close>

theorem prodcons4_completes:
  assumes "main4 args = Inr (s0, nitems)" and "110 \<le> vmax" and "producers s0 \<noteq> []" and "consumers s0 \<noteq> []"
    and "(step4 nitems vmax ^^ n) s0 s"
  shows "int n \<le> 6 * int (length (producers s0)) + 7 * int (length (consumers s0)) + 19 * max 0 nitems \<and>
    ((\<exists>s'. step4 nitems vmax s s') \<or>
     (\<forall>p \<in> set (producers s). fst p = P4_end) \<and> (\<forall>c \<in> set (consumers s). fst c = C4_end) \<and>
     sum_list (map snd (producers s)) = max 0 nitems \<and> sum_list (map snd (consumers s)) = max 0 nitems)"
  using prog4.run_short [OF assms(5) main4_good(1) [OF assms(1-4)]]
    prog4.run_stuck [OF assms(5) main4_good(1) [OF assms(1-4)]] main4_good(2) [OF assms(1-4)]
  by (auto simp: final4_def)

text \<open>A first step of two items, one producer and two consumers.\<close>

definition ex4 :: system4 where
  "ex4 = \<lparr>vars = shared4_start, sems = sem_initial, aborted = False, producers = [(P4_nempty, 0)],
     consumers = [(C4_nstored, 0), (C4_nstored, 0)]\<rparr>"

definition ex4_next :: system4 where
  "ex4_next = ex4\<lparr>sems := sem_initial(Nempty := 9), producers := [(P4_mutex, 0)]\<rparr>"

lemma ex4_main: "main4 [''2'', ''1'', ''2''] = Inr (ex4, 2)"
proof -
  have "c_atoi ''1'' = 1" "c_atoi ''2'' = 2" by code_simp+
  then show ?thesis by (simp add: main4_def ex4_def nthreads_def MAXNTHREADS_def numeral_2_eq_2)
qed

lemma ex4_step: "(step4 2 32767 ^^ 1) ex4 ex4_next"
proof -
  have "exec_instr 32767 (produce4 2 (producers ex4 ! 0)) ex4 = Some (ex4\<lparr>sems := sem_initial(Nempty := 9)\<rparr>, (P4_mutex, 0))"
    by (simp add: ex4_def sem_initial_def NBUFF_def)
  from pstep.producer [where produce = "produce4 2", OF _ _ this] show ?thesis
    by (simp add: ex4_def ex4_next_def eq_OO)
qed

theorem prodcons4_exclusive_witness:
  "cnt p_crit (producers ex4_next) + cnt c_crit (consumers ex4_next) \<le> 1 \<and> \<not> aborted ex4_next"
  using prodcons4_exclusive [OF ex4_main _ _ _ ex4_step] by (simp add: ex4_def)

theorem prodcons4_completes_witness:
  "\<exists>s'. step4 2 32767 ex4_next s'"
  using prodcons4_completes [OF ex4_main _ _ _ ex4_step] by (simp add: ex4_def ex4_next_def)

end
