(* ===== verification/Prodcons_Three.thy ===== *)
theory Prodcons_Three
  imports Prodcons_One Prodcons_Props
begin

text \<open>
  \<open>prodcons3.c\<close>, with several producers and one consumer: the producers are those of
  \<open>prodcons4.c\<close> without the announcement at the end, the consumer is the one of
  \<open>prodcons2.c\<close>, and so are the parts of the invariant.
\<close>

section \<open>The invariant\<close>

primrec line4 :: "pline3 \<Rightarrow> pline4" where
  "line4 P3_nempty = P4_nempty" | "line4 P3_mutex = P4_mutex" | "line4 P3_test = P4_test" | "line4 P3_store = P4_store"
| "line4 P3_nput = P4_nput" | "line4 P3_nputval = P4_nputval" | "line4 P3_unlock = P4_unlock" | "line4 P3_nstored = P4_nstored"
| "line4 P3_count = P4_count" | "line4 P3_done_nempty = P4_done_nempty" | "line4 P3_done_unlock = P4_done_unlock" | "line4 P3_end = P4_end"

definition as4 :: "pline3 \<times> int \<Rightarrow> pline4 \<times> int" where
  "as4 p = (line4 (fst p), snd p)"

type_synonym system3 = "(shared3, pline3 \<times> int, cline1) system"

definition ps4 :: "system3 \<Rightarrow> (pline4 \<times> int) list" where
  "ps4 s = map as4 (producers s)"

lemma ps4_simps [simp]:
  "ps4 (s\<lparr>producers := (producers s)[i := q]\<rparr>) = (ps4 s)[i := as4 q]"
  "ps4 (s\<lparr>sems := f\<rparr>) = ps4 s" "ps4 (s\<lparr>vars := v\<rparr>) = ps4 s" "ps4 (s\<lparr>consumers := cs\<rparr>) = ps4 s"
  "length (ps4 s) = length (producers s)" "i < length (producers s) \<Longrightarrow> ps4 s ! i = as4 (producers s ! i)"
  by (simp_all add: ps4_def map_update)

lemma ps4_moved: "ps4 (s\<lparr>sems := f, vars := v, producers := (producers s)[i := q]\<rparr>) = (ps4 s)[i := as4 q]"
  by (simp add: ps4_def map_update)

definition inv3 :: "int \<Rightarrow> system3 \<Rightarrow> cline1 \<Rightarrow> bool" where
  "inv3 n s c \<longleftrightarrow> consumers s = [c] \<and> \<not> aborted s \<and> printed (vars s) = [] \<and>
    ring_ok (buff (vars s)) (get_no n c) (nput (vars s)) \<and> nput (vars s) \<le> max 0 n \<and> c1_range n c \<and>
    int (sems s Mutex) + cnt p_crit (ps4 s) + of_bool (c1_crit c) = 1 \<and>
    int (sems s Nempty) + cnt p_slot (ps4 s) + (nput (vars s) - get_no n c) + of_bool (c1_free c) = 10 \<and>
    int (sems s Nstored) + of_bool (c1_item c) + cnt p_fresh (ps4 s) = nput (vars s) - get_no n c \<and>
    nputval (vars s) + cnt p_bump (ps4 s) = nput (vars s) \<and>
    sum_list (map snd (ps4 s)) + cnt p_uncounted (ps4 s) = nput (vars s) \<and>
    (\<forall>p \<in> set (ps4 s). p_knows n (vars s) p)"

lemma inv3D:
  assumes "inv3 n s c"
  shows "consumers s = [c]" "\<not> aborted s" "printed (vars s) = []"
    "ring_ok (buff (vars s)) (get_no n c) (nput (vars s))" "nput (vars s) \<le> max 0 n" "c1_range n c"
    "int (sems s Mutex) + cnt p_crit (ps4 s) + of_bool (c1_crit c) = 1"
    "int (sems s Nempty) + cnt p_slot (ps4 s) + (nput (vars s) - get_no n c) + of_bool (c1_free c) = 10"
    "int (sems s Nstored) + of_bool (c1_item c) + cnt p_fresh (ps4 s) = nput (vars s) - get_no n c"
    "nputval (vars s) + cnt p_bump (ps4 s) = nput (vars s)"
    "\<And>p. p \<in> set (ps4 s) \<Longrightarrow> p_knows n (vars s) p"
  using assms by (simp_all add: inv3_def split del: split_of_bool)

lemma of_bool_ge_0: "0 \<le> (of_bool b :: int)" by simp

text \<open>Only the thread inside the region changes the shared variables.\<close>

lemma others_know3:
  assumes inv: "inv3 n s c" and i: "i < length (ps4 s)" and crit: "p_crit (ps4 s ! i) \<or> v' = vars s"
    and "nput (vars s) \<le> nput v'" and "p_knows n v' p'"
  shows "\<forall>p \<in> set ((ps4 s)[i := p']). p_knows n v' p"
proof
  fix p
  assume "p \<in> set ((ps4 s)[i := p'])"
  then consider "p = p'" | j where "j < length (ps4 s)" "j \<noteq> i" "p = ps4 s ! j"
    using set_update_nth [OF i] by blast
  then show "p_knows n v' p"
  proof cases
    case 2
    have "cnt p_crit (ps4 s) \<le> 1"
      using inv3D(7) [OF inv] of_bool_ge_0 [of "c1_crit c"] by linarith
    then have "v' = vars s \<or> \<not> p_crit p"
      using cnt_two [OF i 2(1), of p_crit] 2(2,3) crit by force
    then show ?thesis
      using inv3D(11) [OF inv, of p] nth_mem [OF 2(1)] p_knows_outside [OF _ _ assms(4)] 2(3) by metis
  qed (use assms(5) in simp)
qed

lemma inv3_producer_move:
  assumes inv: "inv3 n s c" and i: "i < length (producers s)" and at: "as4 (producers s ! i) = p"
    and vars: "printed v' = []" "ring_ok (buff v') (get_no n c) (nput v')" "nput (vars s) \<le> nput v'" "nput v' \<le> max 0 n"
    and sems: "int (f Mutex) + of_bool (p_crit (as4 q)) = int (sems s Mutex) + of_bool (p_crit p)"
      "int (f Nempty) + of_bool (p_slot (as4 q)) + nput v' = int (sems s Nempty) + of_bool (p_slot p) + nput (vars s)"
      "int (f Nstored) + of_bool (p_fresh (as4 q)) - nput v' = int (sems s Nstored) + of_bool (p_fresh p) - nput (vars s)"
    and vals: "nputval v' + of_bool (p_bump (as4 q)) - nput v' = nputval (vars s) + of_bool (p_bump p) - nput (vars s)"
      "snd (as4 q) + of_bool (p_uncounted (as4 q)) - nput v' = snd p + of_bool (p_uncounted p) - nput (vars s)"
    and know: "p_knows n v' (as4 q)" "v' = vars s \<or> p_crit p"
  shows "inv3 n (s\<lparr>sems := f, vars := v', producers := (producers s)[i := q]\<rparr>) c"
proof -
  have i': "i < length (ps4 s)" using i by simp
  have p: "ps4 s ! i = p" using i at by simp
  have "\<forall>p \<in> set ((ps4 s)[i := as4 q]). p_knows n v' p"
    using others_know3 [OF inv i' _ vars(3) know(1)] know(2) p by blast
  with inv vars sems vals show ?thesis
    unfolding inv3_def by (simp add: ps4_moved cnt_replace [OF i'] sum_snd_update [OF i'] p split del: split_of_bool)
qed

section \<open>Every statement keeps the invariant\<close>

lemma inv3_room:
  assumes inv: "inv3 n s c"
  shows "i < length (producers s) \<Longrightarrow> p_crit (as4 (producers s ! i)) \<Longrightarrow> sems s Mutex = 0"
    and "i < length (producers s) \<Longrightarrow> p_slot (as4 (producers s ! i)) \<Longrightarrow> nput (vars s) - get_no n c < 10"
    and "i < length (producers s) \<Longrightarrow> p_crit (as4 (producers s ! i)) \<Longrightarrow> \<not> p_bump (as4 (producers s ! i)) \<Longrightarrow> nputval (vars s) = nput (vars s)"
    and "c1_crit c \<Longrightarrow> sems s Mutex = 0" and "sems s Nempty \<le> 10" and "sems s Nstored \<le> 10"
    and "c1_item c \<Longrightarrow> get_no n c < nput (vars s)"
proof -
  have le: "get_no n c \<le> nput (vars s)" using inv3D(4) [OF inv] ring_okD by blast
  note facts = inv3D(7,8,9) [OF inv] le of_bool_ge_0 [of "c1_crit c"] of_bool_ge_0 [of "c1_free c"] of_bool_ge_0 [of "c1_item c"]
    cnt_nonneg [of p_crit "ps4 s"] cnt_nonneg [of p_slot "ps4 s"] cnt_nonneg [of p_fresh "ps4 s"]
  show "sems s Nempty \<le> 10" and "sems s Nstored \<le> 10" using facts by linarith+
  have 1: "b \<Longrightarrow> (of_bool b :: int) = 1" for b by simp
  show "c1_crit c \<Longrightarrow> sems s Mutex = 0" and "c1_item c \<Longrightarrow> get_no n c < nput (vars s)"
    using facts 1 [of "c1_crit c"] 1 [of "c1_item c"] by linarith+
  assume i: "i < length (producers s)"
  then have i': "i < length (ps4 s)" and at: "ps4 s ! i = as4 (producers s ! i)" by simp_all
  note pos = cnt_nth_pos [OF i', of p_crit, unfolded at] cnt_nth_pos [OF i', of p_slot, unfolded at]
  show "p_crit (as4 (producers s ! i)) \<Longrightarrow> sems s Mutex = 0" and "p_slot (as4 (producers s ! i)) \<Longrightarrow> nput (vars s) - get_no n c < 10"
    using facts pos by linarith+
  assume crit: "p_crit (as4 (producers s ! i))" and "\<not> p_bump (as4 (producers s ! i))"
  have "cnt p_crit (ps4 s) \<le> 1" using facts by linarith
  then have "\<not> p_bump (ps4 s ! j)" if "j < length (ps4 s)" for j
    using cnt_two [OF i' that, of p_crit] bump_crit(1) [of "ps4 s ! j"] crit at \<open>\<not> p_bump (as4 (producers s ! i))\<close>
    by (cases "j = i") auto
  then have "cnt p_bump (ps4 s) = 0"
    unfolding cnt_zero_iff by (metis in_set_conv_nth)
  then show "nputval (vars s) = nput (vars s)" using inv3D(10) [OF inv] by simp
qed

lemma producer_balances3:
  assumes step: "exec_instr vmax (produce3 n (pl, x)) s = Some (s', l)" and ok: "\<not> aborted s'"
  shows "int (sems s' Mutex) + of_bool (p_crit (as4 l)) = int (sems s Mutex) + of_bool (p_crit (as4 (pl, x)))"
    and "int (sems s' Nempty) + of_bool (p_slot (as4 l)) + nput (vars s') = int (sems s Nempty) + of_bool (p_slot (as4 (pl, x))) + nput (vars s)"
    and "int (sems s' Nstored) + of_bool (p_fresh (as4 l)) - nput (vars s') = int (sems s Nstored) + of_bool (p_fresh (as4 (pl, x))) - nput (vars s)"
    and "nputval (vars s') + of_bool (p_bump (as4 l)) - nput (vars s') = nputval (vars s) + of_bool (p_bump (as4 (pl, x))) - nput (vars s)"
    and "snd (as4 l) + of_bool (p_uncounted (as4 l)) - nput (vars s') = snd (as4 (pl, x)) + of_bool (p_uncounted (as4 (pl, x))) - nput (vars s)"
    and "vars s' = vars s \<or> p_crit (as4 (pl, x))"
    and "nput (vars s) \<le> nput (vars s')" and "printed (vars s') = printed (vars s)"
  using assms by - (cases pl; clarsimp split: if_splits; simp add: place_defs as4_def)+

lemma producer3_not_aborted:
  assumes inv: "inv3 n s c" and vmax: "10 < vmax" and i: "i < length (producers s)"
    and step: "exec_instr vmax (produce3 n (producers s ! i)) s = Some (s', l)"
  shows "\<not> aborted s'"
proof -
  obtain pl x where at: "producers s ! i = (pl, x)" by fastforce
  show ?thesis
    using step vmax inv3_room(1) [OF inv i] inv3_room(5,6) [OF inv] inv3D(2) [OF inv] at
    by (cases pl) (auto simp: place_defs as4_def split: if_splits)
qed

lemma inv3_producer:
  assumes inv: "inv3 n s c" and vmax: "10 < vmax" and i: "i < length (producers s)"
    and step: "exec_instr vmax (produce3 n (producers s ! i)) s = Some (s', l)"
  shows "inv3 n (s'\<lparr>producers := (producers s)[i := l]\<rparr>) c"
proof -
  obtain pl x where at: "producers s ! i = (pl, x)" by fastforce
  note ok = producer3_not_aborted [OF inv vmax i step]
  have knows: "p_knows n (vars s) (line4 pl, x)"
    using inv3D(11) [OF inv, of "ps4 s ! i"] nth_mem [of i "ps4 s"] i at by (simp add: as4_def)
  note room = inv3_room(2,3) [OF inv i] and ring = inv3D(4) [OF inv]
  note stores = ring_ok_store [OF ring, where x = "nput (vars s)"] ring_ok_stored [OF ring]
  note facts = step [unfolded at] ok knows inv3D(5) [OF inv]
  have "inv3 n (s\<lparr>sems := sems s', vars := vars s', producers := (producers s)[i := l]\<rparr>) c"
  proof (rule inv3_producer_move [OF inv i refl])
    show "ring_ok (buff (vars s')) (get_no n c) (nput (vars s'))"
      using facts room stores ring by (cases pl) (auto simp: place_defs as4_def at split: if_splits)
    show "p_knows n (vars s') (as4 l)"
      using facts room stores by (cases pl) (auto simp: place_defs as4_def at split: if_splits)
    show "nput (vars s') \<le> max 0 n"
      using facts by (cases pl) (auto split: if_splits)
  qed (use producer_balances3 [OF step [unfolded at] ok] inv3D(3) [OF inv] at in simp_all)
  then show ?thesis
    using exec_instr_shape [OF step ok] by simp
qed

lemma inv3_consumer:
  assumes inv: "inv3 n s c" and vmax: "10 < vmax" and step: "exec_instr vmax (consume3 n c) s = Some (s', c')"
  shows "inv3 n (s'\<lparr>consumers := [c']\<rparr>) c'"
proof -
  note B = inv3_room(4-7) [OF inv] and D = inv3D(4,6) [OF inv]
  show ?thesis
  proof (cases c)
    case (C1_check i)
    then have "buff (vars s) ! nat (i mod NBUFF) = i \<and> ring_ok (buff (vars s)) (i + 1) (nput (vars s))"
      using ring_ok_fetch [OF D(1)] B(4) by simp
    then show ?thesis using step inv C1_check by (auto simp: inv3_def simp del: p_knows.simps split del: split_of_bool)
  next
    case (C1_for i)
    have "i = max 0 n" if "\<not> i < n"
      using D(2) ring_okD [OF D(1)] C1_for that by auto
    moreover have "s' = s" "c' = (if i < n then C1_nstored i else C1_end)"
      using step C1_for by auto
    ultimately show ?thesis using inv C1_for by (cases "i < n") (simp_all add: inv3_def split del: split_of_bool)
  qed (use step inv B vmax in \<open>auto simp: inv3_def simp del: p_knows.simps split: if_splits split del: split_of_bool\<close>)
qed

section \<open>Every run ends\<close>

definition good3 :: "int \<Rightarrow> nat \<Rightarrow> system3 \<Rightarrow> bool" where
  "good3 n vmax s \<longleftrightarrow> 10 < vmax \<and> producers s \<noteq> [] \<and> inv3 n s (hd (consumers s))"

definition left3 :: "int \<Rightarrow> system3 \<Rightarrow> int" where
  "left3 n s = sum_list (map (p_left \<circ> fst \<circ> as4) (producers s)) + 9 * (max 0 n - nput (vars s)) + c1_left n (hd (consumers s))"

definition final3 :: "int \<Rightarrow> system3 \<Rightarrow> bool" where
  "final3 n s \<longleftrightarrow> (\<forall>p \<in> set (producers s). fst p = P3_end) \<and> consumers s = [C1_end] \<and>
    sum_list (map snd (producers s)) = max 0 n"

abbreviation step3 :: "int \<Rightarrow> nat \<Rightarrow> system3 \<Rightarrow> system3 \<Rightarrow> bool" where
  "step3 n vmax \<equiv> pstep vmax (produce3 n) (consume3 n)"

lemma produce3_spends:
  assumes "exec_instr vmax (produce3 n (pl, x)) s = Some (s', l)"
  shows "p_left (fst (as4 l)) - 9 * nput (vars s') < p_left (fst (as4 (pl, x))) - 9 * nput (vars s)"
  using assms by (cases pl) (auto simp: p_left_def as4_def split: if_splits)

lemma consume3_spends:
  assumes "exec_instr vmax (consume3 n c) s = Some (s', c')" and "c1_range n c"
  shows "c1_left n c' < c1_left n c \<and> nput (vars s') = nput (vars s)"
  using assms by (cases c) (auto split: if_splits)

lemma step3_keeps_spends:
  assumes "step3 n vmax s s'" and good: "good3 n vmax s"
  shows "good3 n vmax s' \<and> left3 n s' < left3 n s"
  using assms(1)
proof cases
  case (producer i t l)
  obtain c where inv: "inv3 n s c" and c: "consumers s = [c]" and vmax: "10 < vmax" and ne: "producers s \<noteq> []"
    using good by (auto simp: good3_def inv3_def)
  show ?thesis
    using inv3_producer [OF inv vmax producer(3,4)] exec_instr_lists [OF producer(4)] vmax ne c producer(3)
      produce3_spends [of vmax n "fst (producers s ! i)" "snd (producers s ! i)" s t l] producer(4)
    by (simp add: producer(1) good3_def left3_def sum_left_update)
next
  case (consumer i t l)
  obtain c where inv: "inv3 n s c" and c: "consumers s = [c]" and vmax: "10 < vmax" and ne: "producers s \<noteq> []"
    using good by (auto simp: good3_def inv3_def)
  have step: "exec_instr vmax (consume3 n c) s = Some (t, l)" and "i = 0"
    using consumer(3,4) c by auto
  then show ?thesis
    using inv3_consumer [OF inv vmax step] exec_instr_lists [OF step] vmax ne c consume3_spends [OF step inv3D(6) [OF inv]]
    by (simp add: consumer(1) good3_def left3_def)
qed

lemma blocked_producer3:
  "exec_instr vmax (produce3 n p) s = None \<Longrightarrow>
    fst p = P3_end \<or> fst p = P3_nempty \<and> sems s Nempty = 0 \<or> fst p = P3_mutex \<and> sems s Mutex = 0"
  by (cases "(n, p)" rule: produce3.cases) (auto split: if_splits)

lemma blocked_consumer3:
  "exec_instr vmax (consume3 n c) s = None \<Longrightarrow>
    c = C1_end \<or> (\<exists>i. c = C1_nstored i) \<and> sems s Nstored = 0 \<or> (\<exists>i. c = C1_mutex i) \<and> sems s Mutex = 0"
  by (cases c) (auto split: if_splits)

lemma stuck_places3:
  assumes inv: "inv3 n s c" and stuck: "\<nexists>s'. step3 n vmax s s'"
  shows "\<forall>p \<in> set (producers s). fst p = P3_end \<or> fst p = P3_nempty \<and> sems s Nempty = 0"
    and "c = C1_end \<or> (\<exists>i. c = C1_nstored i) \<and> sems s Nstored = 0"
proof -
  note ok = inv3D(2) [OF inv]
  have "exec_instr vmax (produce3 n p) s = None" if "p \<in> set (producers s)" for p
    using pstep.producer [OF ok, of _ vmax "produce3 n"] that stuck unfolding in_set_conv_nth by (metis not_None_eq surj_pair)
  then have p: "fst p = P3_end \<or> fst p = P3_nempty \<and> sems s Nempty = 0 \<or> fst p = P3_mutex \<and> sems s Mutex = 0"
    if "p \<in> set (producers s)" for p
    using blocked_producer3 that by blast
  have "exec_instr vmax (consume3 n c) s = None"
    using pstep.consumer [OF ok, of 0 vmax "consume3 n"] inv3D(1) [OF inv] stuck by (auto simp: not_Some_eq [symmetric])
  note c = blocked_consumer3 [OF this]
  have "cnt p_crit (ps4 s) = 0"
    unfolding cnt_zero_iff ps4_def place_defs as4_def using p by fastforce
  moreover have "\<not> c1_crit c" using c by auto
  ultimately have "sems s Mutex = 1"
    using inv3D(7) [OF inv] by simp
  then show "\<forall>p \<in> set (producers s). fst p = P3_end \<or> fst p = P3_nempty \<and> sems s Nempty = 0"
    and "c = C1_end \<or> (\<exists>i. c = C1_nstored i) \<and> sems s Nstored = 0"
    using p c by auto
qed

lemma good3_moves:
  assumes good: "good3 n vmax s" and stuck: "\<nexists>s'. step3 n vmax s s'"
  shows "final3 n s"
proof -
  obtain c where inv: "inv3 n s c" and c: "consumers s = [c]" and ne: "producers s \<noteq> []"
    using good by (auto simp: good3_def inv3_def)
  note pp = stuck_places3(1) [OF inv stuck] and cp = stuck_places3(2) [OF inv stuck]
  have zero: "cnt p_slot (ps4 s) = 0" "cnt p_fresh (ps4 s) = 0" "cnt p_uncounted (ps4 s) = 0"
    unfolding cnt_zero_iff ps4_def place_defs as4_def using pp by fastforce+
  have "\<not> c1_free c" "\<not> c1_item c" using cp by auto
  then have bal: "int (sems s Nempty) + (nput (vars s) - get_no n c) = 10" "int (sems s Nstored) = nput (vars s) - get_no n c"
    using inv3D(8,9) [OF inv] zero by auto
  have "as4 (hd (producers s)) \<in> set (ps4 s)" using ne by (simp add: ps4_def)
  then have ended: "n \<le> nput (vars s)" if "fst (hd (producers s)) = P3_end"
    using inv3D(11) [OF inv, of "as4 (hd (producers s))"] that by (simp add: as4_def)
  have "c = C1_end"
  proof (rule ccontr)
    assume "c \<noteq> C1_end"
    then obtain i where i: "c = C1_nstored i" and "sems s Nstored = 0" using cp by blast
    then have "sems s Nempty = 10" and "nput (vars s) = i" using bal by auto
    then have "n \<le> i" using pp ended ne by auto
    then show False using inv3D(6) [OF inv] i by simp
  qed
  then have "nput (vars s) = max 0 n" "sems s Nempty = 10"
    using bal inv3D(5) [OF inv] by auto
  moreover have "sum_list (map snd (ps4 s)) = sum_list (map snd (producers s))"
    by (simp add: ps4_def as4_def comp_def)
  ultimately show ?thesis
    using pp c \<open>c = C1_end\<close> inv zero by (simp add: final3_def inv3_def)
qed

interpretation prog3: ending_program "step3 n vmax" "good3 n vmax" "left3 n" "final3 n" for n vmax
proof unfold_locales
  fix s
  assume good: "good3 n vmax s"
  then have inv: "inv3 n s (hd (consumers s))" by (simp add: good3_def)
  have "0 \<le> sum_list (map (p_left \<circ> fst \<circ> as4) (producers s))"
    by (rule sum_list_nonneg) (auto simp: p_left_nonneg)
  then show "0 \<le> left3 n s"
    using c1_left_nonneg [OF inv3D(6) [OF inv]] inv3D(5) [OF inv] by (simp add: left3_def)
qed (use step3_keeps_spends good3_moves in blast)+

lemma main3_good:
  assumes "main3 args = Inr (s0, n)" and "10 < vmax" and "producers s0 \<noteq> []"
  shows "good3 n vmax s0 \<and> left3 n s0 = 6 * int (length (producers s0)) + 15 * max 0 n + 1"
proof -
  obtain m np where args: "args = [m, np]"
    using assms(1) by (auto simp: main3_def split: list.splits)
  have s0: "vars s0 = shared3_start" "sems s0 = sem_initial" "\<not> aborted s0"
    "producers s0 = replicate (nthreads np) (P3_nempty, 0)" "consumers s0 = [C1_for 0]"
    using assms(1) by (auto simp: main3_def args)
  have ps: "ps4 s0 = replicate (nthreads np) (P4_nempty, 0)"
    by (simp add: ps4_def s0 as4_def)
  have "inv3 n s0 (C1_for 0)"
    unfolding inv3_def ps
    by (simp add: s0 shared3_start_def ring_ok_start sem_initial_def cnt_replicate place_defs NBUFF_def sum_list_replicate)
  then show ?thesis
    using assms(2,3) by (simp add: good3_def s0 left3_def shared3_start_def as4_def p_left_def sum_list_replicate algebra_simps)
qed

text \<open>
  \<open>prodcons3.c\<close> completes: with at least one producer, whatever the scheduler does, no post
  fails, the consumer finds every number in its place and prints nothing, no schedule runs for
  ever or deadlocks, and when no thread can go on all have returned and the counts of the
  producers add up to the number of items.
\<close>

theorem prodcons3_completes:
  assumes "main3 args = Inr (s0, nitems)" and "10 < vmax" and "producers s0 \<noteq> []" and "(step3 nitems vmax ^^ n) s0 s"
  shows "\<not> aborted s \<and> printed (vars s) = [] \<and> int n \<le> 6 * int (length (producers s0)) + 15 * max 0 nitems + 1 \<and>
    ((\<exists>s'. step3 nitems vmax s s') \<or>
     (\<forall>p \<in> set (producers s). fst p = P3_end) \<and> consumers s = [C1_end] \<and> sum_list (map snd (producers s)) = max 0 nitems)"
proof -
  note good = main3_good [OF assms(1-3)]
  have "good3 nitems vmax s" using prog3.run_good [OF assms(4)] good by blast
  then show ?thesis
    using prog3.run_short [OF assms(4)] prog3.run_stuck [OF assms(4)] good
    by (auto simp: good3_def inv3_def final3_def simp del: p_knows.simps)
qed

definition ex3 :: system3 where
  "ex3 = \<lparr>vars = shared3_start, sems = sem_initial, aborted = False, producers = [(P3_nempty, 0), (P3_nempty, 0)],
     consumers = [C1_for 0]\<rparr>"

lemma ex3_main: "main3 [''3'', ''2''] = Inr (ex3, 3)"
proof -
  have "c_atoi ''3'' = 3" "c_atoi ''2'' = 2" by code_simp+
  then show ?thesis by (simp add: main3_def ex3_def nthreads_def MAXNTHREADS_def numeral_2_eq_2)
qed

lemma ex3_step: "(step3 3 32767 ^^ 1) ex3 (ex3\<lparr>consumers := [C1_nstored 0]\<rparr>)"
proof -
  have "exec_instr 32767 (consume3 3 (consumers ex3 ! 0)) ex3 = Some (ex3, C1_nstored 0)"
    by (simp add: ex3_def)
  from pstep.consumer [where consume = "consume3 3", OF _ _ this] show ?thesis
    by (simp add: ex3_def eq_OO)
qed

theorem prodcons3_completes_witness:
  "printed (vars ex3) = [] \<and> (\<exists>s'. step3 3 32767 (ex3\<lparr>consumers := [C1_nstored 0]\<rparr>) s')"
  using prodcons3_completes [OF ex3_main _ _ ex3_step] by (simp add: ex3_def)

end
