(* ===== verification/Mesg.thy ===== *)
theory Mesg
  imports Stream_Spec
begin

text \<open>
  The messages of the client-server examples (\<open>pipemesg\<close>, \<open>svmsgcliserv\<close>): a header with
  length and type, framed over a byte stream in the first directory and carried by System V
  message queues in the second, and the file server and its client on top of them.
\<close>

section \<open>The structure\<close>

text \<open>
  The limits of a 64-bit Linux: \<open>PIPE_BUF\<close> is 4096 and a \<open>long\<close> has 8 octets; the structure
  has no padding. The array always has \<open>MAXMESGDATA\<close> elements.
\<close>

definition MAXMESGDATA :: nat where "MAXMESGDATA = 4080"
definition MESGHDRSIZE :: nat where "MESGHDRSIZE = 16"

record mymesg =
  mesg_len :: "64 word"
  mesg_type :: "64 word"
  mesg_data :: "byte list"

definition mesg_ok :: "mymesg \<Rightarrow> bool" where
  "mesg_ok m \<longleftrightarrow> length (mesg_data m) = MAXMESGDATA \<and> unat (mesg_len m) \<le> MAXMESGDATA"

definition mesg_text :: "mymesg \<Rightarrow> byte list" where
  "mesg_text m = take (unat (mesg_len m)) (mesg_data m)"

definition store_at :: "nat \<Rightarrow> byte list \<Rightarrow> byte list \<Rightarrow> byte list" where
  "store_at off bs a = take off a @ bs @ drop (off + length bs) a"

lemma length_store_at [simp]: "off + length bs \<le> length a \<Longrightarrow> length (store_at off bs a) = length a"
  by (simp add: store_at_def)

text \<open>The octets of a \<open>long\<close> in memory, in the byte order of the host.\<close>

definition long_octets :: "bool \<Rightarrow> 64 word \<Rightarrow> byte list" where
  "long_octets be w = (if be then rev else id) (le_octets 8 (uint w))"

definition octets_long :: "bool \<Rightarrow> byte list \<Rightarrow> 64 word" where
  "octets_long be bs = word_of_int (le_value ((if be then rev else id) bs))"

lemma length_long_octets [simp]: "length (long_octets be w) = 8"
  by (simp add: long_octets_def)

lemma octets_long_octets [simp]: "octets_long be (long_octets be w) = w"
proof -
  have "uint w mod 256 ^ 8 = uint w"
    using uint_lt2p [of w] by simp
  then show ?thesis
    by (simp add: octets_long_def long_octets_def le_value_octets)
qed

section \<open>\<open>pipemesg/mesg_send.c\<close>, \<open>mesg_recv.c\<close>\<close>

text \<open>
  The end of a call: it returns; it calls \<open>err_quit\<close> or \<open>err_sys\<close>; it has touched memory
  outside the structure; it waits for a message for ever.
\<close>

datatype 'a call = Done 'a | Quit string | Fault | Hangs

definition mesg_bytes :: "bool \<Rightarrow> mymesg \<Rightarrow> byte list" where
  "mesg_bytes be m = long_octets be (mesg_len m) @ long_octets be (mesg_type m) @ mesg_data m"

text \<open>The count is computed in \<open>size_t\<close>.\<close>

definition mesg_send :: "bool \<Rightarrow> mymesg \<Rightarrow> out_stream \<Rightarrow> int call \<times> out_stream" where
  "mesg_send be m s =
    (let n = unat (of_nat MESGHDRSIZE + mesg_len m) in
     if MESGHDRSIZE + MAXMESGDATA < n then (Fault, s)
     else case sys_write (take n (mesg_bytes be m)) s of (r, s') \<Rightarrow> (Done r, s'))"

definition Mesg_send :: "bool \<Rightarrow> mymesg \<Rightarrow> out_stream \<Rightarrow> unit call \<times> out_stream" where
  "Mesg_send be m s =
    (case mesg_send be m s of
       (Done n, s') \<Rightarrow> (if n \<noteq> sint (mesg_len m) then Quit ''mesg_send error'' else Done (), s')
     | (Quit e, s') \<Rightarrow> (Quit e, s') | (Fault, s') \<Rightarrow> (Fault, s') | (Hangs, s') \<Rightarrow> (Hangs, s'))"

text \<open>
  The result is \<open>len\<close>. The length comes from the stream; a second read that delivers more
  than \<open>MAXMESGDATA\<close> bytes has written outside of the structure.
\<close>

definition mesg_recv :: "bool \<Rightarrow> mymesg \<Rightarrow> in_stream \<Rightarrow> int call \<times> mymesg \<times> in_stream" where
  "mesg_recv be m s =
    (case sys_read MESGHDRSIZE s of
       (Inl e, s1) \<Rightarrow> (Quit ''read error'', m, s1)
     | (Inr h, s1) \<Rightarrow>
         if h = [] then (Done 0, m, s1)
         else if length h \<noteq> MESGHDRSIZE then (Quit ''message header'', m, s1)
         else
           let m1 = m\<lparr>mesg_len := octets_long be (take 8 h), mesg_type := octets_long be (drop 8 h)\<rparr>;
               len = unat (mesg_len m1)
           in if len = 0 then (Done 0, m1, s1)
              else (case sys_read len s1 of
                      (Inl e, s2) \<Rightarrow> (Quit ''read error'', m1, s2)
                    | (Inr bs, s2) \<Rightarrow>
                        if MAXMESGDATA < length bs then (Fault, m1, s2)
                        else if length bs \<noteq> len then (Quit ''message data'', m1, s2)
                        else (Done (sint (mesg_len m1)), m1\<lparr>mesg_data := store_at 0 bs (mesg_data m1)\<rparr>, s2)))"

definition Mesg_recv :: "bool \<Rightarrow> mymesg \<Rightarrow> in_stream \<Rightarrow> int call \<times> mymesg \<times> in_stream" where
  "Mesg_recv be m s = mesg_recv be m s"

section \<open>\<open>svmsgcliserv/mesg_send.c\<close>, \<open>mesg_recv.c\<close>\<close>

text \<open>
  A System V message queue holds messages of positive type. \<open>msgsnd\<close> and \<open>msgrcv\<close> may fail,
  as the schedule of the queue says; \<open>msgrcv\<close> takes the first message of the type, or of any
  type when it is 0, and fails with \<open>E2BIG\<close> when the text is longer than the buffer. The
  queue has room for every message that is sent.
\<close>

record msgq =
  msgs :: "(64 word \<times> byte list) list"
  qplan :: "errno option list"

definition q_tick :: "msgq \<Rightarrow> errno option \<times> msgq" where
  "q_tick q = (case qplan q of [] \<Rightarrow> (None, q) | e # p \<Rightarrow> (e, q\<lparr>qplan := p\<rparr>))"

definition msgsnd :: "64 word \<Rightarrow> byte list \<Rightarrow> msgq \<Rightarrow> unit result \<times> msgq" where
  "msgsnd type text q = (case q_tick q of
     (Some e, q1) \<Rightarrow> (Inl e, q1)
   | (None, q1) \<Rightarrow> if sint type < 1 then (Inl EINVAL, q1) else (Inr (), q1\<lparr>msgs := msgs q1 @ [(type, text)]\<rparr>))"

fun take_type :: "64 word \<Rightarrow> (64 word \<times> byte list) list \<Rightarrow> ((64 word \<times> byte list) \<times> (64 word \<times> byte list) list) option" where
  "take_type t [] = None"
| "take_type t (m # ms) =
    (if t = 0 \<or> fst m = t then Some (m, ms)
     else map_option (\<lambda>(x, r). (x, m # r)) (take_type t ms))"

text \<open>\<open>None\<close>: blocks. A negative type asks for the lowest type and is not used by the sources.\<close>

definition msgrcv :: "nat \<Rightarrow> 64 word \<Rightarrow> msgq \<Rightarrow> ((64 word \<times> byte list) result \<times> msgq) option" where
  "msgrcv room type q = (case q_tick q of
     (Some e, q1) \<Rightarrow> Some (Inl e, q1)
   | (None, q1) \<Rightarrow>
       (case take_type type (msgs q1) of
          None \<Rightarrow> None
        | Some (m, r) \<Rightarrow>
            if room < length (snd m) then Some (Inl (EOTHER 7), q1) else Some (Inr m, q1\<lparr>msgs := r\<rparr>)))"

definition mesg_send_sv :: "mymesg \<Rightarrow> msgq \<Rightarrow> unit result \<times> msgq" where
  "mesg_send_sv m q = msgsnd (mesg_type m) (mesg_text m) q"

definition Mesg_send_sv :: "mymesg \<Rightarrow> msgq \<Rightarrow> unit call \<times> msgq" where
  "Mesg_send_sv m q = (case mesg_send_sv m q of
     (Inl e, q1) \<Rightarrow> (Quit ''mesg_send error'', q1) | (Inr u, q1) \<Rightarrow> (Done (), q1))"

text \<open>The value stored in \<open>mesg_len\<close> is the return value, \<open>-1\<close> after a failure.\<close>

definition mesg_recv_sv :: "mymesg \<Rightarrow> msgq \<Rightarrow> int call \<times> mymesg \<times> msgq" where
  "mesg_recv_sv m q = (case msgrcv MAXMESGDATA (mesg_type m) q of
     None \<Rightarrow> (Hangs, m, q)
   | Some (Inl e, q1) \<Rightarrow> (Done (- 1), m\<lparr>mesg_len := - 1\<rparr>, q1)
   | Some (Inr (t, text), q1) \<Rightarrow>
       (Done (int (length text)),
        m\<lparr>mesg_len := of_nat (length text), mesg_type := t, mesg_data := store_at 0 text (mesg_data m)\<rparr>, q1))"

definition Mesg_recv_sv :: "mymesg \<Rightarrow> msgq \<Rightarrow> int call \<times> mymesg \<times> msgq" where
  "Mesg_recv_sv m q = (case mesg_recv_sv m q of
     (Done n, r) \<Rightarrow> (if n = - 1 then Quit ''mesg_recv error'' else Done n, r)
   | (Quit e, r) \<Rightarrow> (Quit e, r) | (Fault, r) \<Rightarrow> (Fault, r) | (Hangs, r) \<Rightarrow> (Hangs, r))"

section \<open>\<open>client.c\<close>, \<open>server.c\<close>\<close>

text \<open>
  The two programs are the same in both directories, over the functions of the directory:
  they are defined over the functions. \<open>fgets\<close> stores at most one character less than the
  size it is given, up to and including a newline, and a null character; it returns NULL when
  nothing is left.
\<close>

definition fgets :: "nat \<Rightarrow> byte list \<Rightarrow> byte list option \<times> byte list" where
  "fgets n stream = (let l = first_line (take (n - 1) stream) in
     (if l = [] then None else Some l, drop (length l) stream))"

definition c_strlen :: "byte list \<Rightarrow> nat" where
  "c_strlen a = length (takeWhile (\<lambda>b. b \<noteq> 0) a)"

text \<open>
  The structure is not initialised: \<open>m0\<close> is what it contains. \<open>Fault\<close>: \<open>strlen\<close> runs out of
  the array, or the character at index \<open>len - 1\<close> is looked up for \<open>len = 0\<close>.
\<close>

definition client_request ::
  "(mymesg \<Rightarrow> 'q \<Rightarrow> unit call \<times> 'q) \<Rightarrow> byte list \<Rightarrow> mymesg \<Rightarrow> 'q \<Rightarrow> unit call \<times> mymesg \<times> 'q" where
  "client_request send stdin m0 q =
    (let data = (case fst (fgets MAXMESGDATA stdin) of
                   None \<Rightarrow> mesg_data m0 | Some l \<Rightarrow> store_at 0 (l @ [0]) (mesg_data m0));
         len = c_strlen data
     in if 0 \<notin> set data \<or> len = 0 then (Fault, m0, q)
        else
          let m = m0\<lparr>mesg_data := data, mesg_type := 1,
                mesg_len := of_nat (if data ! (len - 1) = newline then len - 1 else len)\<rparr>
          in case send m q of (r, q') \<Rightarrow> (r, m, q'))"

text \<open>The loop of the client; the last argument is what it has written to standard output.\<close>

partial_function (option) client_loop ::
  "(mymesg \<Rightarrow> 'q \<Rightarrow> int call \<times> mymesg \<times> 'q) \<Rightarrow> mymesg \<Rightarrow> 'q \<Rightarrow> byte list \<Rightarrow> (byte list call \<times> 'q) option" where
  [code]: "client_loop recv m q out =
    (case recv m q of
       (Done n, m', q') \<Rightarrow>
         if 0 < n then client_loop recv m' q' (out @ take (nat n) (mesg_data m')) else Some (Done out, q')
     | (Quit e, m', q') \<Rightarrow> Some (Quit e, q')
     | (Fault, m', q') \<Rightarrow> Some (Fault, q')
     | (Hangs, m', q') \<Rightarrow> Some (Hangs, q'))"

lemma fgets_shorter: "fgets n stream = (Some l, rest) \<Longrightarrow> length rest < length stream"
proof -
  assume "fgets n stream = (Some l, rest)"
  then have "l = first_line (take (n - 1) stream)" and "l \<noteq> []" and "rest = drop (length l) stream"
    by (auto simp: fgets_def Let_def split: if_splits)
  moreover from this have "stream \<noteq> []" by (auto simp: first_line_def)
  ultimately show ?thesis by (cases l; cases stream) auto
qed

text \<open>The copying loop of the server.\<close>

function server_copy ::
  "(mymesg \<Rightarrow> 'q \<Rightarrow> unit call \<times> 'q) \<Rightarrow> byte list \<Rightarrow> mymesg \<Rightarrow> 'q \<Rightarrow> unit call \<times> mymesg \<times> 'q" where
  "server_copy send file m q =
    (case fgets MAXMESGDATA file of
       (None, rest) \<Rightarrow> (Done (), m, q)
     | (Some l, rest) \<Rightarrow>
         let data = store_at 0 (l @ [0]) (mesg_data m);
             m' = m\<lparr>mesg_data := data, mesg_len := of_nat (c_strlen data)\<rparr>
         in case send m' q of
              (Done u, q') \<Rightarrow> server_copy send rest m' q'
            | (r, q') \<Rightarrow> (r, m', q'))"
  by auto

termination
  by (relation "measure (\<lambda>(send, file, m, q). length file)") (auto simp: fgets_shorter dest: sym)

declare server_copy.simps [simp del]

text \<open>
  The file system is a function from pathnames to the contents or the error of \<open>fopen\<close>;
  \<open>strerror\<close> is a parameter.
\<close>

definition cant_open :: "byte list" where
  "cant_open = map (\<lambda>c. of_nat (of_char c)) '': can't open, ''"

definition server_reply ::
  "(mymesg \<Rightarrow> 'q \<Rightarrow> unit call \<times> 'q) \<Rightarrow> (byte list \<Rightarrow> byte list result) \<Rightarrow> (errno \<Rightarrow> byte list) \<Rightarrow>
   nat \<Rightarrow> mymesg \<Rightarrow> 'q \<Rightarrow> unit call \<times> mymesg \<times> 'q" where
  "server_reply send fopen strerror n m q =
    (case fopen (takeWhile (\<lambda>b. b \<noteq> 0) (mesg_data m)) of
       Inl e \<Rightarrow>
         let text = take (MAXMESGDATA - n - 1) (cant_open @ strerror e @ [newline]);
             data = store_at n (text @ [0]) (mesg_data m);
             m' = m\<lparr>mesg_data := data, mesg_len := of_nat (c_strlen data)\<rparr>
         in (case send m' q of (r, q') \<Rightarrow> (r, m', q'))
     | Inr file \<Rightarrow> server_copy send file m q)"

definition server_on ::
  "(mymesg \<Rightarrow> 'q \<Rightarrow> unit call \<times> 'q) \<Rightarrow> (mymesg \<Rightarrow> 'p \<Rightarrow> int call \<times> mymesg \<times> 'p) \<Rightarrow>
   (byte list \<Rightarrow> byte list result) \<Rightarrow> (errno \<Rightarrow> byte list) \<Rightarrow> mymesg \<Rightarrow> 'p \<Rightarrow> 'q \<Rightarrow> unit call \<times> 'p \<times> 'q" where
  "server_on send recv fopen strerror m0 p q =
    (case recv (m0\<lparr>mesg_type := 1\<rparr>) p of
       (Done n, m, p') \<Rightarrow>
         if n = 0 then (Quit ''pathname missing'', p', q)
         else if n < 0 \<or> int MAXMESGDATA \<le> n then (Fault, p', q)
         else
           (case server_reply send fopen strerror (nat n) (m\<lparr>mesg_data := store_at (nat n) [0] (mesg_data m)\<rparr>) q of
              (Done u, m', q') \<Rightarrow> (case send (m'\<lparr>mesg_len := 0\<rparr>) q' of (r, q'') \<Rightarrow> (r, p', q''))
            | (r, m', q') \<Rightarrow> (r, p', q'))
     | (Quit e, m, p') \<Rightarrow> (Quit e, p', q)
     | (Fault, m, p') \<Rightarrow> (Fault, p', q)
     | (Hangs, m, p') \<Rightarrow> (Hangs, p', q))"

text \<open>The programs of the two directories.\<close>

definition client_request_pipe :: "bool \<Rightarrow> byte list \<Rightarrow> mymesg \<Rightarrow> out_stream \<Rightarrow> unit call \<times> mymesg \<times> out_stream" where
  "client_request_pipe be = client_request (Mesg_send be)"

definition client_loop_pipe :: "bool \<Rightarrow> mymesg \<Rightarrow> in_stream \<Rightarrow> byte list \<Rightarrow> (byte list call \<times> in_stream) option" where
  "client_loop_pipe be = client_loop (Mesg_recv be)"

definition server_pipe ::
  "bool \<Rightarrow> (byte list \<Rightarrow> byte list result) \<Rightarrow> (errno \<Rightarrow> byte list) \<Rightarrow> mymesg \<Rightarrow> in_stream \<Rightarrow> out_stream \<Rightarrow>
   unit call \<times> in_stream \<times> out_stream" where
  "server_pipe be = server_on (Mesg_send be) (Mesg_recv be)"

definition client_request_sv :: "byte list \<Rightarrow> mymesg \<Rightarrow> msgq \<Rightarrow> unit call \<times> mymesg \<times> msgq" where
  "client_request_sv = client_request Mesg_send_sv"

definition client_loop_sv :: "mymesg \<Rightarrow> msgq \<Rightarrow> byte list \<Rightarrow> (byte list call \<times> msgq) option" where
  "client_loop_sv = client_loop Mesg_recv_sv"

definition server_sv ::
  "(byte list \<Rightarrow> byte list result) \<Rightarrow> (errno \<Rightarrow> byte list) \<Rightarrow> mymesg \<Rightarrow> msgq \<Rightarrow> msgq \<Rightarrow> unit call \<times> msgq \<times> msgq" where
  "server_sv = server_on Mesg_send_sv Mesg_recv_sv"

end
