(* ===== verification/Mesg_Props.thy ===== *)
theory Mesg_Props
  imports Mesg
begin

text \<open>
  The properties of the messages and of the file server on top of them.
\<close>

section \<open>What the file server needs of a channel\<close>

text \<open>The pieces in which \<open>fgets\<close> delivers a file.\<close>

function pieces :: "byte list \<Rightarrow> byte list list" where
  "pieces fl = (case fgets MAXMESGDATA fl of (None, rest) \<Rightarrow> [] | (Some l, rest) \<Rightarrow> l # pieces rest)"
  by auto

termination
  by (relation "measure length") (auto simp: fgets_shorter dest: sym)

declare pieces.simps [simp del]

lemma first_line_prefix: "\<exists>r. bs = first_line bs @ r"
  by (induction bs) auto

lemma fgets_cases:
  assumes "fgets MAXMESGDATA fl = (l, rest)"
  shows "case l of None \<Rightarrow> fl = [] | Some t \<Rightarrow> fl = t @ rest \<and> t \<noteq> [] \<and> length t < MAXMESGDATA"
proof -
  define t where "t = first_line (take (MAXMESGDATA - 1) fl)"
  obtain r where r: "take (MAXMESGDATA - 1) fl = t @ r"
    using first_line_prefix unfolding t_def by blast
  then have "length t \<le> length (take (MAXMESGDATA - 1) fl)" by simp
  then have len: "length t \<le> MAXMESGDATA - 1" by simp
  have fl: "fl = t @ drop (length t) fl"
    by (metis append_eq_conv_conj append_take_drop_id r take_add append.assoc)
  have "t = [] \<Longrightarrow> fl = []"
    by (cases fl) (auto simp: t_def MAXMESGDATA_def split: if_splits)
  moreover have "fgets MAXMESGDATA fl = (if t = [] then None else Some t, drop (length t) fl)"
    by (simp add: fgets_def t_def Let_def)
  moreover have "length t < MAXMESGDATA" using len by (simp add: MAXMESGDATA_def)
  ultimately show ?thesis
    using assms fl by (auto split: if_splits)
qed

lemma pieces_props: "concat (pieces fl) = fl \<and> (\<forall>t \<in> set (pieces fl). t \<noteq> [] \<and> length t < MAXMESGDATA)"
proof (induction fl rule: pieces.induct)
  case (1 fl)
  obtain l rest where f: "fgets MAXMESGDATA fl = (l, rest)" by fastforce
  show ?case
  proof (cases l)
    case None
    then have "pieces fl = []" using f by (subst pieces.simps) simp
    then show ?thesis using fgets_cases [OF f] None by simp
  next
    case (Some t)
    then have "pieces fl = t # pieces rest" using f by (subst pieces.simps) simp
    then show ?thesis using fgets_cases [OF f] f 1 [of l rest t] Some by simp
  qed
qed

lemma takeWhile_stored: "0 \<notin> set t \<Longrightarrow> takeWhile (\<lambda>b. b \<noteq> 0) (t @ (0 :: byte) # r) = t"
  by (induction t) auto

lemma c_strlen_stored:
  "0 \<notin> set t \<Longrightarrow> length t < length a \<Longrightarrow> c_strlen (store_at 0 (t @ [0]) a) = length t"
  by (simp add: c_strlen_def store_at_def takeWhile_stored)

lemma unat_len: "n \<le> MAXMESGDATA \<Longrightarrow> unat (of_nat n :: 64 word) = n"
  by (simp add: unat_of_nat MAXMESGDATA_def take_bit_nat_eq_self)

text \<open>What a request is answered with.\<close>

definition reply :: "(byte list \<Rightarrow> byte list result) \<Rightarrow> (errno \<Rightarrow> byte list) \<Rightarrow> byte list \<Rightarrow> byte list" where
  "reply fopen strerror path = (case fopen path of
     Inr fl \<Rightarrow> fl
   | Inl e \<Rightarrow> path @ take (MAXMESGDATA - length path - 1) (cant_open @ strerror e @ [newline]))"

locale mesg_channel =
  fixes send :: "mymesg \<Rightarrow> 'q \<Rightarrow> unit call \<times> 'q"
    and recv :: "mymesg \<Rightarrow> 'q \<Rightarrow> int call \<times> mymesg \<times> 'q"
    and ok :: "'q \<Rightarrow> bool"
    and texts :: "'q \<Rightarrow> byte list list"
  assumes sends: "\<lbrakk>ok q; mesg_ok m; mesg_type m = 1\<rbrakk> \<Longrightarrow>
      \<exists>q'. send m q = (Done (), q') \<and> ok q' \<and> texts q' = texts q @ [mesg_text m]"
    and receives: "\<lbrakk>ok q; texts q = t # ts; length (mesg_data m) = MAXMESGDATA; mesg_type m = 1; length t \<le> MAXMESGDATA\<rbrakk> \<Longrightarrow>
      \<exists>q'. recv m q = (Done (int (length t)), m\<lparr>mesg_len := of_nat (length t), mesg_data := store_at 0 t (mesg_data m)\<rparr>, q') \<and>
        ok q' \<and> texts q' = ts"
begin

definition ready :: "mymesg \<Rightarrow> bool" where
  "ready m \<longleftrightarrow> length (mesg_data m) = MAXMESGDATA \<and> mesg_type m = 1"

lemma send_stored:
  assumes "ok q" and "ready m" and "0 \<notin> set t" and "length t < MAXMESGDATA"
  defines "m' \<equiv> m\<lparr>mesg_data := store_at 0 (t @ [0]) (mesg_data m), mesg_len := of_nat (c_strlen (store_at 0 (t @ [0]) (mesg_data m)))\<rparr>"
  shows "ready m' \<and> (\<exists>q'. send m' q = (Done (), q') \<and> ok q' \<and> texts q' = texts q @ [t])"
proof -
  have len: "c_strlen (store_at 0 (t @ [0]) (mesg_data m)) = length t"
    using assms(2-4) c_strlen_stored by (simp add: ready_def)
  have "mesg_ok m' \<and> mesg_text m' = t"
    using assms(2,4) by (simp add: m'_def mesg_ok_def mesg_text_def len unat_len ready_def) (simp add: store_at_def)
  then show ?thesis
    using sends [OF assms(1), of m'] assms(2,4) by (simp add: m'_def ready_def)
qed

lemma server_copy_sends:
  "\<lbrakk>ok q; ready m; 0 \<notin> set fl\<rbrakk> \<Longrightarrow>
   \<exists>m' q'. server_copy send fl m q = (Done (), m', q') \<and> ready m' \<and> ok q' \<and> texts q' = texts q @ pieces fl"
proof (induction fl arbitrary: m q rule: pieces.induct)
  case (1 fl)
  obtain l rest where f: "fgets MAXMESGDATA fl = (l, rest)" by fastforce
  show ?case
  proof (cases l)
    case None
    then show ?thesis using f 1(2,3) by (simp add: server_copy.simps [of _ fl] pieces.simps [of fl])
  next
    case (Some t)
    then have t: "fl = t @ rest" "length t < MAXMESGDATA" using fgets_cases [OF f] by simp_all
    then have "0 \<notin> set t" "0 \<notin> set rest" using 1(4) by auto
    let ?m = "m\<lparr>mesg_data := store_at 0 (t @ [0]) (mesg_data m), mesg_len := of_nat (c_strlen (store_at 0 (t @ [0]) (mesg_data m)))\<rparr>"
    obtain q1 where q1: "ready ?m" "send ?m q = (Done (), q1)" "ok q1" "texts q1 = texts q @ [t]"
      using send_stored [OF 1(2,3) \<open>0 \<notin> set t\<close> t(2)] by blast
    obtain m' q' where "server_copy send rest ?m q1 = (Done (), m', q')" "ready m'" "ok q'" "texts q' = texts q1 @ pieces rest"
      using 1(1) [OF f [symmetric] Some q1(3,1) \<open>0 \<notin> set rest\<close>] by blast
    then show ?thesis using f Some q1 by (simp add: server_copy.simps [of _ fl] pieces.simps [of fl] Let_def)
  qed
qed

lemma client_loop_prints:
  "\<lbrakk>ok q; length (mesg_data m) = MAXMESGDATA; mesg_type m = 1; texts q = ts @ [] # r; \<forall>t \<in> set ts. t \<noteq> [] \<and> length t \<le> MAXMESGDATA\<rbrakk> \<Longrightarrow>
   \<exists>q'. client_loop recv m q out = Some (Done (out @ concat ts), q') \<and> ok q' \<and> texts q' = r"
proof (induction ts arbitrary: m q out)
  case Nil
  then obtain m' q' where "recv m q = (Done 0, m', q')" "ok q'" "texts q' = r"
    using receives [of q "[]" r m] by auto
  then show ?case by (simp add: client_loop.simps [of recv m])
next
  case (Cons t ts)
  then obtain q1 where q1: "recv m q = (Done (int (length t)), m\<lparr>mesg_len := of_nat (length t), mesg_data := store_at 0 t (mesg_data m)\<rparr>, q1)"
      "ok q1" "texts q1 = ts @ [] # r"
    using receives [of q t "ts @ [] # r" m] by auto
  moreover have "take (length t) (store_at 0 t (mesg_data m)) = t" by (simp add: store_at_def)
  ultimately show ?case
    using Cons.IH [of q1 "m\<lparr>mesg_len := of_nat (length t), mesg_data := store_at 0 t (mesg_data m)\<rparr>" "out @ t"] Cons.prems
    by (simp add: client_loop.simps [of recv m])
qed

lemma server_replies:
  assumes "ok p" and "texts p = path # ps" and "ok q" and "texts q = []" and "length (mesg_data m0) = MAXMESGDATA"
    and path: "path \<noteq> []" "0 \<notin> set path" "length path < MAXMESGDATA"
    and "0 \<notin> set (reply fopen strerror path)"
  shows "\<exists>p' q' ts. server_on send recv fopen strerror m0 p q = (Done (), p', q') \<and> ok p' \<and> texts p' = ps \<and>
    ok q' \<and> texts q' = ts @ [[]] \<and> concat ts = reply fopen strerror path \<and> (\<forall>t \<in> set ts. t \<noteq> [] \<and> length t \<le> MAXMESGDATA)"
proof -
  define m where "m = m0\<lparr>mesg_type := 1, mesg_len := of_nat (length path), mesg_data := store_at (length path) [0] (store_at 0 path (mesg_data m0))\<rparr>"
  obtain p' where p': "recv (m0\<lparr>mesg_type := 1\<rparr>) p =
      (Done (int (length path)), m0\<lparr>mesg_type := 1, mesg_len := of_nat (length path), mesg_data := store_at 0 path (mesg_data m0)\<rparr>, p')"
      "ok p'" "texts p' = ps"
    using receives [OF assms(1,2), of "m0\<lparr>mesg_type := 1\<rparr>"] assms(5) path(3) by auto
  have data: "mesg_data m = path @ 0 # drop (Suc (length path)) (mesg_data m0)"
    using assms(5) path(3) by (simp add: m_def store_at_def)
  then have ready: "ready m" and tw: "takeWhile (\<lambda>b. b \<noteq> 0) (mesg_data m) = path"
    using assms(5) path(2,3) takeWhile_stored by (auto simp: ready_def m_def)
  have "\<exists>m' q1 ts. server_reply send fopen strerror (length path) m q = (Done (), m', q1) \<and> ready m' \<and> ok q1 \<and> texts q1 = ts \<and>
      concat ts = reply fopen strerror path \<and> (\<forall>t \<in> set ts. t \<noteq> [] \<and> length t \<le> MAXMESGDATA)"
  proof (cases "fopen path")
    case (Inr fl)
    then show ?thesis
      using server_copy_sends [OF assms(3) ready, of fl] assms(4,9) pieces_props [of fl]
      by (auto simp: server_reply_def tw reply_def) (metis less_imp_le)
  next
    case (Inl e)
    define x where "x = take (MAXMESGDATA - length path - 1) (cant_open @ strerror e @ [newline])"
    have x: "reply fopen strerror path = path @ x" using Inl by (simp add: reply_def x_def)
    have lx: "length path + length x < MAXMESGDATA" using path(3) by (simp add: x_def)
    have "store_at (length path) (x @ [0]) (mesg_data m) = store_at 0 ((path @ x) @ [0]) (mesg_data m)"
      by (simp add: store_at_def data)
    moreover have "server_reply send fopen strerror (length path) m q =
      (let data = store_at (length path) (x @ [0]) (mesg_data m); m' = m\<lparr>mesg_data := data, mesg_len := of_nat (c_strlen data)\<rparr>
       in case send m' q of (r, q') \<Rightarrow> (r, m', q'))"
      by (simp only: server_reply_def tw Inl x_def sum.case Let_def)
    ultimately show ?thesis
      using send_stored [OF assms(3) ready, of "path @ x"] assms(4,9) x lx path(1)
      by (auto simp: Let_def)
  qed
  then obtain m' q1 ts where r: "server_reply send fopen strerror (length path) m q = (Done (), m', q1)" "ready m'" "ok q1" "texts q1 = ts"
      "concat ts = reply fopen strerror path" "\<forall>t \<in> set ts. t \<noteq> [] \<and> length t \<le> MAXMESGDATA"
    by blast
  obtain q' where q': "send (m'\<lparr>mesg_len := 0\<rparr>) q1 = (Done (), q')" "ok q'" "texts q' = texts q1 @ [[]]"
    using sends [OF r(3), of "m'\<lparr>mesg_len := 0\<rparr>"] r(2) by (auto simp: mesg_ok_def ready_def mesg_text_def)
  have "server_on send recv fopen strerror m0 p q = (Done (), p', q')"
    using p'(1) r(1) q'(1) path(1,3) unfolding m_def by (simp add: server_on_def)
  then show ?thesis using p' r q' by blast
qed

end

section \<open>System V message queues\<close>

definition sv_ok :: "msgq \<Rightarrow> bool" where
  "sv_ok q \<longleftrightarrow> qplan q = [] \<and> (\<forall>m \<in> set (msgs q). fst m = 1)"

definition sv_texts :: "msgq \<Rightarrow> byte list list" where
  "sv_texts q = map snd (msgs q)"

interpretation sv: mesg_channel Mesg_send_sv Mesg_recv_sv sv_ok sv_texts
proof unfold_locales
  fix q and m :: mymesg
  assume "sv_ok q" and "mesg_type m = 1"
  then show "\<exists>q'. Mesg_send_sv m q = (Done (), q') \<and> sv_ok q' \<and> sv_texts q' = sv_texts q @ [mesg_text m]"
    by (auto simp: Mesg_send_sv_def mesg_send_sv_def msgsnd_def q_tick_def sv_ok_def sv_texts_def)
next
  fix q t ts and m :: mymesg
  assume q: "sv_ok q" "sv_texts q = t # ts" and m: "mesg_type m = 1" "length t \<le> MAXMESGDATA"
  then obtain ms where "msgs q = (1, t) # ms" "map snd ms = ts"
    by (cases "msgs q") (auto simp: sv_ok_def sv_texts_def)
  then show "\<exists>q'. Mesg_recv_sv m q =
      (Done (int (length t)), m\<lparr>mesg_len := of_nat (length t), mesg_data := store_at 0 t (mesg_data m)\<rparr>, q') \<and>
      sv_ok q' \<and> sv_texts q' = ts"
    using q m by (auto simp: Mesg_recv_sv_def mesg_recv_sv_def msgrcv_def q_tick_def sv_ok_def sv_texts_def)
qed

abbreviation no_msgs :: msgq where "no_msgs \<equiv> \<lparr>msgs = [], qplan = []\<rparr>"

lemma sv_empty: "sv_ok q \<Longrightarrow> sv_texts q = [] \<Longrightarrow> q = no_msgs"
  by (cases q) (simp add: sv_ok_def sv_texts_def)

lemma client_request_path:
  assumes "length (mesg_data m0) = MAXMESGDATA" and "path \<noteq> []" and "0 \<notin> set path" and "newline \<notin> set path"
    and "length path + 1 < MAXMESGDATA"
  shows "\<exists>m q. client_request_sv (path @ newline # rest) m0 no_msgs = (Done (), m, q) \<and>
    length (mesg_data m) = MAXMESGDATA \<and> mesg_type m = 1 \<and> sv_ok q \<and> sv_texts q = [path]"
proof -
  let ?l = "path @ [newline]"
  have "first_line (take (MAXMESGDATA - 1) (path @ newline # rest)) = ?l"
  proof -
    have "take (MAXMESGDATA - 1) (path @ newline # rest) = ?l @ take (MAXMESGDATA - 2 - length path) rest"
      using assms(5) by (simp add: take_Cons' numeral_2_eq_2)
    moreover have "first_line (path @ newline # r) = ?l" for r
      using assms(4) by (induction path) auto
    ultimately show ?thesis by simp
  qed
  then have f: "fst (fgets MAXMESGDATA (path @ newline # rest)) = Some ?l"
    by (simp add: fgets_def Let_def)
  define data where "data = store_at 0 (?l @ [0]) (mesg_data m0)"
  have de: "store_at 0 (path @ [newline, 0]) (mesg_data m0) = data" by (simp add: data_def)
  have nz: "0 \<notin> set ?l" using assms(3) by (simp add: newline_def)
  have len: "c_strlen data = Suc (length path)" and ld: "length data = MAXMESGDATA"
    using c_strlen_stored [OF nz, of "mesg_data m0"] assms(1,5) by (simp_all add: data_def)
  have dn: "data ! length path = newline" and d0: "0 \<in> set data" and dt: "take (length path) data = path"
    by (simp_all add: data_def store_at_def nth_append)
  define m where "m = m0\<lparr>mesg_data := data, mesg_type := 1, mesg_len := of_nat (length path)\<rparr>"
  have "client_request_sv (path @ newline # rest) m0 no_msgs = (case Mesg_send_sv m no_msgs of (r, q') \<Rightarrow> (r, m, q'))"
    using f len dn d0 by (simp add: client_request_sv_def client_request_def de m_def Let_def)
  moreover have "mesg_ok m" "mesg_text m = path" "mesg_type m = 1"
    using assms(5) ld dt by (simp_all add: m_def mesg_ok_def mesg_text_def unat_len)
  then obtain q where "Mesg_send_sv m no_msgs = (Done (), q)" "sv_ok q" "sv_texts q = [path]"
    using sv.sends [of no_msgs m] by (auto simp: sv_ok_def sv_texts_def)
  ultimately show ?thesis using ld by (auto simp: m_def)
qed

text \<open>
  C17: The file server over System V message queues answers its client: when the client reads
  a pathname of a reasonable length from standard input and asks for it, the server takes the
  request, and the client prints exactly the contents of the file, provided that it has no null
  bytes (see \<open>svmsg_server_null_byte\<close>), in whatever pieces
  \<open>fgets\<close> delivered it, or, when it cannot be opened, the pathname with the error message
  (cut to what fits the buffer), and stops at the empty message; both queues are empty again.
\<close>

theorem svmsg_file_server:
  assumes "length (mesg_data m0) = MAXMESGDATA" and "length (mesg_data m1) = MAXMESGDATA"
    and "path \<noteq> []" and "0 \<notin> set path" and "newline \<notin> set path" and "length path + 1 < MAXMESGDATA"
    and "0 \<notin> set (reply fopen strerror path)"
  shows "\<exists>m q1 q2. client_request_sv (path @ newline # rest) m0 no_msgs = (Done (), m, q1) \<and>
    server_sv fopen strerror m1 q1 no_msgs = (Done (), no_msgs, q2) \<and>
    client_loop_sv m q2 [] = Some (Done (reply fopen strerror path), no_msgs)"
proof -
  obtain m q1 where c: "client_request_sv (path @ newline # rest) m0 no_msgs = (Done (), m, q1)"
      "length (mesg_data m) = MAXMESGDATA" "mesg_type m = 1" "sv_ok q1" "sv_texts q1 = [path]"
    using client_request_path [OF assms(1,3-6)] by blast
  have "sv_ok no_msgs" "sv_texts no_msgs = []" by (simp_all add: sv_ok_def sv_texts_def)
  then obtain p' q2 ts where s: "server_sv fopen strerror m1 q1 no_msgs = (Done (), p', q2)" "sv_ok p'" "sv_texts p' = []"
      "sv_ok q2" "sv_texts q2 = ts @ [[]]" "concat ts = reply fopen strerror path" "\<forall>t \<in> set ts. t \<noteq> [] \<and> length t \<le> MAXMESGDATA"
    using sv.server_replies [OF c(4,5), of no_msgs m1 fopen strerror] assms unfolding server_sv_def by auto
  obtain q3 where "client_loop_sv m q2 [] = Some (Done (reply fopen strerror path), q3)" "sv_ok q3" "sv_texts q3 = []"
    using sv.client_loop_prints [OF s(4) c(2,3) s(5,7), of "[]"] s(6) unfolding client_loop_sv_def by auto
  then show ?thesis using c(1) s(1-3) sv_empty by metis
qed

definition ex_mesg :: "byte \<Rightarrow> mymesg" where
  "ex_mesg b = \<lparr>mesg_len = 0, mesg_type = 0, mesg_data = replicate MAXMESGDATA b\<rparr>"

lemma length_ex_mesg: "length (mesg_data (ex_mesg b)) = MAXMESGDATA"
  by (simp add: ex_mesg_def)

theorem svmsg_file_server_witness:
  "\<exists>m q1 q2. client_request_sv [97, newline] (ex_mesg 7) no_msgs = (Done (), m, q1) \<and>
    server_sv (\<lambda>p. Inr [1, 10, 2]) (\<lambda>e. []) (ex_mesg 9) q1 no_msgs = (Done (), no_msgs, q2) \<and>
    client_loop_sv m q2 [] = Some (Done [1, 10, 2], no_msgs)"
proof -
  have "length [97 :: byte] + 1 < MAXMESGDATA" by (simp add: MAXMESGDATA_def)
  moreover have "newline \<notin> set [97 :: byte]" by (simp add: newline_def)
  moreover have "reply (\<lambda>p. Inr [1, 10, 2]) (\<lambda>e. []) [97] = [1, 10, 2]" by (simp add: reply_def)
  ultimately show ?thesis
    using svmsg_file_server [where path = "[97]" and rest = "[]" and fopen = "\<lambda>p. Inr [1, 10, 2]" and strerror = "\<lambda>e. []",
        OF length_ex_mesg length_ex_mesg, of 7 9] by simp
qed

text \<open>
  A null byte ends the text that the server sends of a line, because it takes the length with
  \<open>strlen\<close>: for a line that begins with one it sends an empty message, at which the client stops.
\<close>

theorem svmsg_server_null_byte:
  assumes "sv_ok q" and "mesg_type m = 1" and "length (mesg_data m) = MAXMESGDATA"
  shows "\<exists>m' q'. server_copy Mesg_send_sv [0, b] m q = (Done (), m', q') \<and> sv_texts q' = sv_texts q @ [[]]"
proof -
  have f: "fgets MAXMESGDATA [0, b] = (Some [0, b], [])" "fgets MAXMESGDATA [] = (None, [])"
    by (simp_all add: fgets_def MAXMESGDATA_def newline_def)
  define m1 where "m1 = m\<lparr>mesg_data := store_at 0 ([0, b] @ [0]) (mesg_data m), mesg_len := 0\<rparr>"
  have "c_strlen (store_at 0 ([0, b] @ [0]) (mesg_data m)) = 0" by (simp add: store_at_def c_strlen_def)
  moreover obtain q1 where "Mesg_send_sv m1 q = (Done (), q1)" "sv_texts q1 = sv_texts q @ [mesg_text m1]"
    using sv.sends [OF assms(1), of m1] assms(2,3) by (auto simp: m1_def mesg_ok_def store_at_def MAXMESGDATA_def)
  moreover have "mesg_text m1 = []" by (simp add: m1_def mesg_text_def)
  ultimately show ?thesis
    using f by (simp add: server_copy.simps [of _ "[0, b]"] server_copy.simps [of _ "[]"] m1_def Let_def)
qed

section \<open>Messages on a pipe\<close>

definition frame :: "bool \<Rightarrow> mymesg \<Rightarrow> byte list" where
  "frame be m = long_octets be (mesg_len m) @ long_octets be (mesg_type m) @ mesg_text m"

lemma len_sum: "mesg_ok m \<Longrightarrow> unat (of_nat MESGHDRSIZE + mesg_len m) = MESGHDRSIZE + unat (mesg_len m)"
  by (subst unat_add_lem [THEN iffD1]) (simp_all add: mesg_ok_def MESGHDRSIZE_def MAXMESGDATA_def)

lemma sint_len: "mesg_ok m \<Longrightarrow> sint (mesg_len m) = int (unat (mesg_len m))"
proof -
  assume "mesg_ok m"
  then have "unat (mesg_len m) \<le> 4080"
    by (simp add: mesg_ok_def MAXMESGDATA_def)
  then have "int (unat (mesg_len m)) \<le> int 4080" by (simp only: of_nat_le_iff)
  then have "uint (mesg_len m) \<le> 4080" by simp
  moreover have "- 9223372036854775808 \<le> uint (mesg_len m)"
    by (rule order_trans [OF _ uint_ge_0]) simp
  ultimately show ?thesis
    by (simp add: sint_uint signed_take_bit_int_eq_self_iff)
qed

lemma mesg_send_quiet:
  assumes "mesg_ok m" and "wplan s = []"
  shows "mesg_send be m s = (Done (int (MESGHDRSIZE + unat (mesg_len m))), s\<lparr>written := written s @ frame be m\<rparr>)"
  using assms
  by (simp add: mesg_send_def len_sum Let_def sys_write_def mesg_bytes_def frame_def mesg_text_def)
    (simp add: mesg_ok_def MESGHDRSIZE_def)

lemma take8_frame: "take 16 (frame be m @ r) = long_octets be (mesg_len m) @ long_octets be (mesg_type m)"
  by (simp add: frame_def)

lemma mesg_recv_frame:
  assumes ok: "mesg_ok m" and "length (mesg_data m0) = MAXMESGDATA"
    and s: "pending s = frame be m @ r" "plan s = []"
  shows "\<exists>m'. mesg_recv be m0 s = (Done (int (unat (mesg_len m))), m', s\<lparr>pending := r\<rparr>) \<and>
    length (mesg_data m') = MAXMESGDATA \<and> mesg_type m' = mesg_type m \<and> mesg_len m' = mesg_len m \<and> mesg_text m' = mesg_text m"
proof -
  let ?h = "long_octets be (mesg_len m) @ long_octets be (mesg_type m)"
  have lt: "length (mesg_text m) = unat (mesg_len m)" and le: "unat (mesg_len m) \<le> MAXMESGDATA"
    using ok by (simp_all add: mesg_ok_def mesg_text_def)
  have 1: "sys_read MESGHDRSIZE s = (Inr ?h, s\<lparr>pending := mesg_text m @ r\<rparr>)"
    by (simp add: sys_read_def s MESGHDRSIZE_def frame_def)
  have 2: "sys_read (unat (mesg_len m)) (s\<lparr>pending := mesg_text m @ r\<rparr>) = (Inr (mesg_text m), s\<lparr>pending := r\<rparr>)"
    by (simp add: sys_read_def s lt)
  have ne: "?h \<noteq> []" "length ?h = MESGHDRSIZE" "take 8 ?h = long_octets be (mesg_len m)" "drop 8 ?h = long_octets be (mesg_type m)"
    using length_long_octets [of be "mesg_len m"] length_long_octets [of be "mesg_type m"]
    by (auto simp: MESGHDRSIZE_def simp del: length_long_octets)
  define m1 where "m1 = m0\<lparr>mesg_len := mesg_len m, mesg_type := mesg_type m\<rparr>"
  show ?thesis
  proof (cases "unat (mesg_len m) = 0")
    case True
    then have "mesg_recv be m0 s = (Done 0, m1, s\<lparr>pending := r\<rparr>)"
      using ne lt by (simp add: mesg_recv_def 1 Let_def m1_def del: append_is_Nil_conv length_append take_append drop_append)
    then show ?thesis using True assms(2) by (simp add: m1_def mesg_text_def)
  next
    case False
    then have "mesg_recv be m0 s = (Done (int (unat (mesg_len m))), m1\<lparr>mesg_data := store_at 0 (mesg_text m) (mesg_data m1)\<rparr>, s\<lparr>pending := r\<rparr>)"
      using ne lt le sint_len [OF ok]
      by (simp add: mesg_recv_def 1 2 Let_def m1_def del: append_is_Nil_conv length_append take_append drop_append)
    moreover have "mesg_text (m1\<lparr>mesg_data := store_at 0 (mesg_text m) (mesg_data m1)\<rparr>) = mesg_text m"
      unfolding mesg_text_def [of "m1\<lparr>mesg_data := store_at 0 (mesg_text m) (mesg_data m1)\<rparr>"]
      using lt by (simp add: m1_def store_at_def)
    ultimately show ?thesis
      using assms(2) lt le by (simp add: m1_def)
  qed
qed

text \<open>Sending a sequence of messages, and receiving so many.\<close>

definition send_all :: "bool \<Rightarrow> mymesg list \<Rightarrow> out_stream \<Rightarrow> out_stream" where
  "send_all be ms s = fold (\<lambda>m s. snd (mesg_send be m s)) ms s"

fun recv_all :: "bool \<Rightarrow> nat \<Rightarrow> mymesg \<Rightarrow> in_stream \<Rightarrow> (64 word \<times> byte list) list \<times> in_stream" where
  "recv_all be 0 m s = ([], s)"
| "recv_all be (Suc n) m s = (case mesg_recv be m s of
     (Done k, m', s') \<Rightarrow> (case recv_all be n m' s' of (ts, s'') \<Rightarrow> ((mesg_type m', take (nat k) (mesg_data m')) # ts, s''))
   | (_, m', s') \<Rightarrow> ([], s'))"

lemma send_all_written:
  "\<forall>m \<in> set ms. mesg_ok m \<Longrightarrow> wplan s = [] \<Longrightarrow> written (send_all be ms s) = written s @ concat (map (frame be) ms)"
  unfolding send_all_def by (induction ms arbitrary: s) (simp_all add: mesg_send_quiet)

lemma recv_all_frames:
  "\<lbrakk>\<forall>m \<in> set ms. mesg_ok m; length (mesg_data m0) = MAXMESGDATA; pending s = concat (map (frame be) ms) @ r; plan s = []\<rbrakk> \<Longrightarrow>
   recv_all be (length ms) m0 s = (map (\<lambda>m. (mesg_type m, mesg_text m)) ms, s\<lparr>pending := r\<rparr>)"
proof (induction ms arbitrary: m0 s)
  case (Cons m ms)
  obtain m' where "mesg_recv be m0 s = (Done (int (unat (mesg_len m))), m', s\<lparr>pending := concat (map (frame be) ms) @ r\<rparr>)"
      "length (mesg_data m') = MAXMESGDATA" "mesg_type m' = mesg_type m" "mesg_len m' = mesg_len m" "mesg_text m' = mesg_text m"
    using mesg_recv_frame [of m m0 s be "concat (map (frame be) ms) @ r"] Cons.prems by auto
  then show ?case
    using Cons.IH [of m' "s\<lparr>pending := concat (map (frame be) ms) @ r\<rparr>"] Cons.prems by (simp add: mesg_text_def)
qed simp

text \<open>
  Messages survive a pipe: whatever well-formed messages are sent one after the other with
  \<open>mesg_send\<close>, as many calls of \<open>mesg_recv\<close> at the other end return their types and texts in
  order, on hosts of either byte order, and leave what follows in the pipe untouched.
\<close>

theorem mesg_pipe_roundtrip:
  assumes "\<forall>m \<in> set ms. mesg_ok m" and "length (mesg_data m0) = MAXMESGDATA"
  shows "recv_all be (length ms) m0
      \<lparr>pending = written (send_all be ms \<lparr>written = [], wplan = [], werrno = e\<rparr>) @ rest, plan = []\<rparr> =
    (map (\<lambda>m. (mesg_type m, mesg_text m)) ms, \<lparr>pending = rest, plan = []\<rparr>)"
  using send_all_written [OF assms(1), of "\<lparr>written = [], wplan = [], werrno = e\<rparr>" be] recv_all_frames [OF assms] by simp

theorem mesg_pipe_roundtrip_witness:
  "fst (recv_all True 1 (ex_mesg 0)
      \<lparr>pending = written (send_all True [ex_mesg 5\<lparr>mesg_len := 3, mesg_type := 2\<rparr>] \<lparr>written = [], wplan = [], werrno = EINTR\<rparr>) @ [1], plan = []\<rparr>) =
   [(2, [5, 5, 5])]"
proof -
  have "take 3 (replicate MAXMESGDATA (5 :: byte)) = [5, 5, 5]"
    by (simp add: take_replicate MAXMESGDATA_def numeral_3_eq_3)
  then show ?thesis
    using mesg_pipe_roundtrip [of "[ex_mesg 5\<lparr>mesg_len := 3, mesg_type := 2\<rparr>]" "ex_mesg 0" True EINTR "[1]"]
    by (simp add: mesg_ok_def length_ex_mesg mesg_text_def) (simp add: ex_mesg_def MAXMESGDATA_def)
qed

text \<open>
  \<open>Mesg_send\<close> compares the count that \<open>write\<close> returns, header included, with the length of the
  text: it ends the process after every write that succeeds, so that the client over a pipe or
  FIFO never gets to its loop.
\<close>

theorem Mesg_send_quits:
  assumes "mesg_ok m" and "wplan s = []"
  shows "fst (Mesg_send be m s) = Quit ''mesg_send error'' \<and> written (snd (Mesg_send be m s)) = written s @ frame be m"
  using assms by (simp add: Mesg_send_def mesg_send_quiet sint_len MESGHDRSIZE_def)

text \<open>
  \<open>mesg_recv\<close> trusts the length in the header: a header that announces one byte more than
  \<open>MAXMESGDATA\<close>, followed by that many bytes, makes it write outside the structure.
\<close>

theorem mesg_recv_overrun:
  assumes "length bs = MAXMESGDATA + 1"
  shows "fst (mesg_recv be m0 \<lparr>pending = long_octets be 4081 @ long_octets be 1 @ bs, plan = []\<rparr>) = Fault"
proof -
  have "long_octets be 4081 \<noteq> []"
    using length_long_octets [of be 4081] by (auto simp del: length_long_octets)
  then show ?thesis
    using assms by (simp add: mesg_recv_def sys_read_def MESGHDRSIZE_def MAXMESGDATA_def Let_def)
qed

end
