(* ===== verification/Nonblock.thy ===== *)
theory Nonblock
  imports Stream_IO
begin

text \<open>
  The clients that copy standard input to a socket and the socket to standard output at the
  same time: \<open>nonblock/strclinonb.c\<close> with non-blocking descriptors and two buffers, and
  \<open>select/strcliselect02.c\<close> with blocking ones.

  The kernel's side of the descriptors are the streams of \<open>Stream_IO\<close>; on a non-blocking
  descriptor a failure with \<open>EAGAIN\<close> (\<open>EWOULDBLOCK\<close>) is an entry of its schedule. The answers
  of \<open>select\<close> are a list: the sets of descriptors that are ready for reading and for writing,
  or a failure. When the list is used up the client is blocked in \<open>select\<close>.
\<close>

section \<open>Descriptors and control flow\<close>

definition STDIN_FILENO :: int where "STDIN_FILENO = 0"
definition STDOUT_FILENO :: int where "STDOUT_FILENO = 1"

datatype select_ev = Ready "int set" "int set" | SelectFails errno

text \<open>A statement goes on, returns from the function or exits the process with a message.\<close>

datatype 's flow = Next 's | Leave 's | Exit string 's

fun andthen :: "'s flow \<Rightarrow> ('s \<Rightarrow> 's flow) \<Rightarrow> 's flow" where
  "andthen (Next s) f = f s"
| "andthen (Leave s) f = Leave s"
| "andthen (Exit m s) f = Exit m s"

fun flow_state :: "'s flow \<Rightarrow> 's" where
  "flow_state (Next s) = s"
| "flow_state (Leave s) = s"
| "flow_state (Exit m s) = s"

text \<open>What the client has in memory and what has happened on its descriptors.\<close>

record tbuf =
  buf_data :: "byte list"
  iptr :: nat
  optr :: nat

record conn =
  stdin :: in_stream
  sockin :: in_stream
  stdout :: out_stream
  sockout :: out_stream
  fins :: nat
  shut_status :: status
  stdineof :: bool
  rset :: "int set"
  wset :: "int set"

definition Shutdown :: "('a conn_scheme) \<Rightarrow> ('a conn_scheme) flow" where
  "Shutdown s = (case shut_status s of
     None \<Rightarrow> Next (s\<lparr>fins := fins s + 1\<rparr>)
   | Some e \<Rightarrow> Exit ''shutdown error'' s)"

definition Select :: "int \<Rightarrow> select_ev \<Rightarrow> ('a conn_scheme) \<Rightarrow> ('a conn_scheme) flow" where
  "Select maxfdp1 e s = (case e of
     SelectFails err \<Rightarrow> Exit ''select error'' s
   | Ready r w \<Rightarrow> Next (s\<lparr>rset := {fd \<in> rset s \<inter> r. fd < maxfdp1}, wset := {fd \<in> wset s \<inter> w. fd < maxfdp1}\<rparr>))"

section \<open>\<open>strclinonb.c\<close>\<close>

record nonb = conn +
  tobuf :: tbuf
  frbuf :: tbuf
  fd_flags :: "int \<Rightarrow> cint"

text \<open>The bytes between the two pointers, and the bytes that a read stores at \<open>iptr\<close>.\<close>

definition content :: "tbuf \<Rightarrow> byte list" where
  "content b = take (iptr b - optr b) (drop (optr b) (buf_data b))"

definition store :: "byte list \<Rightarrow> tbuf \<Rightarrow> tbuf" where
  "store bs b = b\<lparr>buf_data := take (iptr b) (buf_data b) @ bs @ drop (iptr b + length bs) (buf_data b),
                  iptr := iptr b + length bs\<rparr>"

text \<open>Lines 42 to 62: standard input is readable.\<close>

definition nonb_stdin :: "int \<Rightarrow> nonb \<Rightarrow> nonb flow" where
  "nonb_stdin sockfd s =
    (if STDIN_FILENO \<in> rset s then
       (case sys_read (MAXLINE - iptr (tobuf s)) (stdin s) of
          (Inl e, i) \<Rightarrow>
            if e \<noteq> EAGAIN then Exit ''read error on stdin'' (s\<lparr>stdin := i\<rparr>) else Next (s\<lparr>stdin := i\<rparr>)
        | (Inr bs, i) \<Rightarrow>
            if bs = [] then
              (let s' = s\<lparr>stdin := i, stdineof := True\<rparr>
               in if optr (tobuf s) = iptr (tobuf s) then Shutdown s' else Next s')
            else Next (s\<lparr>stdin := i, tobuf := store bs (tobuf s), wset := insert sockfd (wset s)\<rparr>))
     else Next s)"

text \<open>Lines 64 to 86: the socket is readable.\<close>

definition nonb_sock :: "int \<Rightarrow> nonb \<Rightarrow> nonb flow" where
  "nonb_sock sockfd s =
    (if sockfd \<in> rset s then
       (case sys_read (MAXLINE - iptr (frbuf s)) (sockin s) of
          (Inl e, i) \<Rightarrow>
            if e \<noteq> EAGAIN then Exit ''read error on socket'' (s\<lparr>sockin := i\<rparr>) else Next (s\<lparr>sockin := i\<rparr>)
        | (Inr bs, i) \<Rightarrow>
            if bs = [] then
              (if stdineof s then Leave (s\<lparr>sockin := i\<rparr>)
               else Exit ''str_cli: server terminated prematurely'' (s\<lparr>sockin := i\<rparr>))
            else Next (s\<lparr>sockin := i, frbuf := store bs (frbuf s), wset := insert STDOUT_FILENO (wset s)\<rparr>))
     else Next s)"

text \<open>Advancing \<open>optr\<close> by what was written, back to the beginning when the buffer is empty.\<close>

definition advance :: "nat \<Rightarrow> tbuf \<Rightarrow> tbuf" where
  "advance n b =
    (if optr b + n = iptr b then b\<lparr>optr := 0, iptr := 0\<rparr> else b\<lparr>optr := optr b + n\<rparr>)"

text \<open>Lines 89 to 103: standard output is writable.\<close>

definition nonb_stdout :: "nonb \<Rightarrow> nonb flow" where
  "nonb_stdout s =
    (if STDOUT_FILENO \<in> wset s \<and> optr (frbuf s) < iptr (frbuf s) then
       (case sys_write (content (frbuf s)) (stdout s) of (nwritten, out) \<Rightarrow>
          if nwritten < 0 then
            (if werrno out \<noteq> EAGAIN then Exit ''write error to stdout'' (s\<lparr>stdout := out\<rparr>)
             else Next (s\<lparr>stdout := out\<rparr>))
          else Next (s\<lparr>stdout := out, frbuf := advance (nat nwritten) (frbuf s)\<rparr>))
     else Next s)"

text \<open>Lines 105 to 122: the socket is writable.\<close>

definition nonb_sockout :: "int \<Rightarrow> nonb \<Rightarrow> nonb flow" where
  "nonb_sockout sockfd s =
    (if sockfd \<in> wset s \<and> optr (tobuf s) < iptr (tobuf s) then
       (case sys_write (content (tobuf s)) (sockout s) of (nwritten, out) \<Rightarrow>
          if nwritten < 0 then
            (if werrno out \<noteq> EAGAIN then Exit ''write error to socket'' (s\<lparr>sockout := out\<rparr>)
             else Next (s\<lparr>sockout := out\<rparr>))
          else
            (let s' = s\<lparr>sockout := out, tobuf := advance (nat nwritten) (tobuf s)\<rparr>
             in if optr (tobuf s) + nat nwritten = iptr (tobuf s) \<and> stdineof s then Shutdown s' else Next s'))
     else Next s)"

text \<open>Lines 28 to 37: what the client waits for.\<close>

definition nonb_sets :: "int \<Rightarrow> nonb \<Rightarrow> nonb" where
  "nonb_sets sockfd s = s\<lparr>
     rset := (if \<not> stdineof s \<and> iptr (tobuf s) < MAXLINE then {STDIN_FILENO} else {}) \<union>
             (if iptr (frbuf s) < MAXLINE then {sockfd} else {}),
     wset := (if optr (tobuf s) \<noteq> iptr (tobuf s) then {sockfd} else {}) \<union>
             (if optr (frbuf s) \<noteq> iptr (frbuf s) then {STDOUT_FILENO} else {})\<rparr>"

definition nonb_round :: "int \<Rightarrow> select_ev \<Rightarrow> nonb \<Rightarrow> nonb flow" where
  "nonb_round sockfd e s =
    (let maxfdp1 = max (max STDIN_FILENO STDOUT_FILENO) sockfd + 1
     in andthen (andthen (andthen (andthen (Select maxfdp1 e (nonb_sets sockfd s))
          (nonb_stdin sockfd)) (nonb_sock sockfd)) nonb_stdout) (nonb_sockout sockfd))"

fun nonb_loop :: "int \<Rightarrow> select_ev list \<Rightarrow> nonb \<Rightarrow> nonb flow" where
  "nonb_loop sockfd [] s = Next s"
| "nonb_loop sockfd (e # es) s = andthen (nonb_round sockfd e s) (nonb_loop sockfd es)"

text \<open>
  The function up to the given answers of \<open>select\<close>: \<open>Next\<close> is the client blocked in the next
  call. Lines 13 to 20 make the three descriptors non-blocking.
\<close>

definition str_cli_nonb :: "int \<Rightarrow> select_ev list \<Rightarrow> nonb \<Rightarrow> nonb flow" where
  "str_cli_nonb sockfd es s =
    nonb_loop sockfd es (s\<lparr>
      fd_flags := (fd_flags s)
        (sockfd := fd_flags s sockfd OR O_NONBLOCK,
         STDIN_FILENO := fd_flags s STDIN_FILENO OR O_NONBLOCK,
         STDOUT_FILENO := fd_flags s STDOUT_FILENO OR O_NONBLOCK),
      tobuf := (tobuf s)\<lparr>iptr := 0, optr := 0\<rparr>, frbuf := (frbuf s)\<lparr>iptr := 0, optr := 0\<rparr>,
      stdineof := False\<rparr>)"

section \<open>\<open>strcliselect02.c\<close>\<close>

text \<open>
  \<open>fileno(fp)\<close> is standard input in the programs that call the function. \<open>rset\<close> keeps its
  value from one round to the next.
\<close>

definition Read :: "nat \<Rightarrow> in_stream \<Rightarrow> byte list wrapped \<times> in_stream" where
  "Read k i = (case sys_read k i of (r, i') \<Rightarrow> (err_sys_on_error ''read error'' r, i'))"

definition Write :: "byte list \<Rightarrow> out_stream \<Rightarrow> unit wrapped \<times> out_stream" where
  "Write bs out = (case sys_write bs out of (n, out') \<Rightarrow>
     (if n \<noteq> int (length bs) then Exits ''write error'' (werrno out') else Returns (), out'))"

text \<open>Lines 20 to 29.\<close>

definition sel_sock :: "int \<Rightarrow> conn \<Rightarrow> conn flow" where
  "sel_sock sockfd s =
    (if sockfd \<in> rset s then
       (case Read MAXLINE (sockin s) of
          (Exits m e, i) \<Rightarrow> Exit m (s\<lparr>sockin := i\<rparr>)
        | (Returns bs, i) \<Rightarrow>
            if bs = [] then
              (if stdineof s then Leave (s\<lparr>sockin := i\<rparr>)
               else Exit ''str_cli: server terminated prematurely'' (s\<lparr>sockin := i\<rparr>))
            else (case Write bs (stdout s) of
                (Exits m e, out) \<Rightarrow> Exit m (s\<lparr>sockin := i, stdout := out\<rparr>)
              | (Returns u, out) \<Rightarrow> Next (s\<lparr>sockin := i, stdout := out\<rparr>)))
     else Next s)"

text \<open>Lines 31 to 40.\<close>

definition sel_stdin :: "int \<Rightarrow> conn \<Rightarrow> conn flow" where
  "sel_stdin sockfd s =
    (if STDIN_FILENO \<in> rset s then
       (case Read MAXLINE (stdin s) of
          (Exits m e, i) \<Rightarrow> Exit m (s\<lparr>stdin := i\<rparr>)
        | (Returns bs, i) \<Rightarrow>
            if bs = [] then
              andthen (Shutdown (s\<lparr>stdin := i, stdineof := True\<rparr>))
                (\<lambda>s. Next (s\<lparr>rset := rset s - {STDIN_FILENO}\<rparr>))
            else (case Writen bs (sockout s) of
                (Exits m e, out) \<Rightarrow> Exit m (s\<lparr>stdin := i, sockout := out\<rparr>)
              | (Returns u, out) \<Rightarrow> Next (s\<lparr>stdin := i, sockout := out\<rparr>)))
     else Next s)"

definition sel_round :: "int \<Rightarrow> select_ev \<Rightarrow> conn \<Rightarrow> conn flow" where
  "sel_round sockfd e s =
    (let s1 = s\<lparr>rset := insert sockfd (if stdineof s then rset s else insert STDIN_FILENO (rset s))\<rparr>;
         maxfdp1 = max STDIN_FILENO sockfd + 1
     in andthen (andthen (Select maxfdp1 e s1) (sel_sock sockfd)) (sel_stdin sockfd))"

fun sel_loop :: "int \<Rightarrow> select_ev list \<Rightarrow> conn \<Rightarrow> conn flow" where
  "sel_loop sockfd [] s = Next s"
| "sel_loop sockfd (e # es) s = andthen (sel_round sockfd e s) (sel_loop sockfd es)"

definition str_cli_select :: "int \<Rightarrow> select_ev list \<Rightarrow> conn \<Rightarrow> conn flow" where
  "str_cli_select sockfd es s = sel_loop sockfd es (s\<lparr>stdineof := False, rset := {}\<rparr>)"

end
