(* ===== verification/Nonblock_Props.thy ===== *)
theory Nonblock_Props
  imports Nonblock Stream_Spec
begin

text \<open>
  The two copying clients neither lose, duplicate nor reorder a byte on the way, send their
  FIN once and after the last byte, and never wait for nothing. On the end of the server's
  data the non-blocking client returns with output still in its buffer.
\<close>

section \<open>The buffers\<close>

definition buf_ok :: "tbuf \<Rightarrow> bool" where
  "buf_ok b \<longleftrightarrow> length (buf_data b) = MAXLINE \<and> optr b \<le> iptr b \<and> iptr b \<le> MAXLINE \<and>
     (optr b = iptr b \<longrightarrow> iptr b = 0)"

lemma content_Nil_iff: "buf_ok b \<Longrightarrow> content b = [] \<longleftrightarrow> optr b = iptr b"
  by (auto simp: buf_ok_def content_def)

lemma length_content: "buf_ok b \<Longrightarrow> length (content b) = iptr b - optr b"
  by (auto simp: buf_ok_def content_def)

lemma buf_ok_store: "buf_ok b \<Longrightarrow> bs \<noteq> [] \<Longrightarrow> length bs \<le> MAXLINE - iptr b \<Longrightarrow> buf_ok (store bs b)"
  by (auto simp: buf_ok_def store_def)

lemma content_store:
  "buf_ok b \<Longrightarrow> length bs \<le> MAXLINE - iptr b \<Longrightarrow> content (store bs b) = content b @ bs"
proof -
  assume ok: "buf_ok b" and bs: "length bs \<le> MAXLINE - iptr b"
  let ?d = "buf_data b"
  have "drop (optr b) (take (iptr b) ?d) = content b"
    by (simp add: content_def drop_take)
  moreover have "length (content b) = iptr b - optr b"
    using ok by (rule length_content)
  ultimately show "content (store bs b) = content b @ bs"
    using ok bs unfolding content_def [of "store bs b"] by (simp add: store_def buf_ok_def)
qed

lemma buf_ok_advance: "buf_ok b \<Longrightarrow> optr b < iptr b \<Longrightarrow> n \<le> iptr b - optr b \<Longrightarrow> buf_ok (advance n b)"
  by (auto simp: buf_ok_def advance_def)

lemma content_advance: "buf_ok b \<Longrightarrow> n \<le> iptr b - optr b \<Longrightarrow> content (advance n b) = drop n (content b)"
  by (auto simp: buf_ok_def advance_def content_def drop_take add.commute)

lemma sys_write_result:
  assumes "sys_write bs s = (n, s')"
  shows "n < 0 \<Longrightarrow> written s' = written s"
    and "\<not> n < 0 \<Longrightarrow> nat n \<le> length bs \<and> written s' = written s @ take (nat n) bs"
  using assms by (auto simp: sys_write_def min_def split: list.splits write_ev.splits)

section \<open>Invariants through the statements of a round\<close>

fun flow_ok :: "('s \<Rightarrow> bool) \<Rightarrow> ('s \<Rightarrow> bool) \<Rightarrow> 's flow \<Rightarrow> bool" where
  "flow_ok P Q (Next s) = P s"
| "flow_ok P Q (Leave s) = Q s"
| "flow_ok P Q (Exit m s) = Q s"

lemma flow_ok_andthen:
  "flow_ok P Q f \<Longrightarrow> (\<And>s. P s \<Longrightarrow> flow_ok P' Q (g s)) \<Longrightarrow> flow_ok P' Q (andthen f g)"
  by (cases f) auto

lemma flow_ok_weaken: "flow_ok P Q f \<Longrightarrow> (\<And>s. P s \<Longrightarrow> P' s) \<Longrightarrow> (\<And>s. Q s \<Longrightarrow> Q' s) \<Longrightarrow> flow_ok P' Q' f"
  by (cases f) auto

lemma flow_ok_state: "flow_ok P P f \<Longrightarrow> P (flow_state f)"
  by (cases f) auto

text \<open>
  \<open>in_order si ki\<close>: of the input \<open>si\<close> and the server's data \<open>ki\<close>, a first part has been written,
  the next part is in the buffer and the rest has not been read.
\<close>

definition in_order :: "byte list \<Rightarrow> byte list \<Rightarrow> nonb \<Rightarrow> bool" where
  "in_order si ki s \<longleftrightarrow> buf_ok (tobuf s) \<and> buf_ok (frbuf s) \<and>
     si = written (sockout s) @ content (tobuf s) @ pending (stdin s) \<and>
     ki = written (stdout s) @ content (frbuf s) @ pending (sockin s) \<and>
     (stdineof s \<longrightarrow> pending (stdin s) = [])"

text \<open>The FIN has been sent, or is to be sent next, exactly when all input is written.\<close>

definition copied :: "byte list \<Rightarrow> byte list \<Rightarrow> nonb \<Rightarrow> bool" where
  "copied si ki s \<longleftrightarrow> in_order si ki s \<and> fins s \<le> (if stdineof s \<and> content (tobuf s) = [] then 1 else 0)"

definition running :: "byte list \<Rightarrow> byte list \<Rightarrow> nonb \<Rightarrow> bool" where
  "running si ki s \<longleftrightarrow> in_order si ki s \<and> fins s = (if stdineof s \<and> content (tobuf s) = [] then 1 else 0)"

lemmas running_defs = copied_def running_def in_order_def

lemma nonb_stdin_running:
  assumes "running si ki s" and "STDIN_FILENO \<in> rset s \<Longrightarrow> iptr (tobuf s) < MAXLINE \<and> \<not> stdineof s"
  shows "flow_ok (\<lambda>t. running si ki t \<and> rset t = rset s \<and> frbuf t = frbuf s) (copied si ki) (nonb_stdin sockfd s)"
proof (cases "STDIN_FILENO \<in> rset s")
  case True
  then have room: "0 < MAXLINE - iptr (tobuf s)" and open_: "\<not> stdineof s"
    using assms(2) by auto
  obtain r i where rd: "sys_read (MAXLINE - iptr (tobuf s)) (stdin s) = (r, i)" by fastforce
  show ?thesis
  proof (cases r)
    case (Inl e)
    then show ?thesis
      using rd sys_read_Inl [of "MAXLINE - iptr (tobuf s)" "stdin s" e i] assms(1) True by (simp add: nonb_stdin_def running_defs)
  next
    case (Inr bs)
    note facts = sys_read_Inr [OF rd [unfolded Inr] room]
    show ?thesis
    proof (cases "bs = []")
      case True
      then show ?thesis
        using facts assms(1) open_ rd Inr \<open>STDIN_FILENO \<in> rset s\<close> content_Nil_iff [of "tobuf s"]
        by (auto simp: nonb_stdin_def running_defs Shutdown_def Let_def split: option.split)
    next
      case False
      then show ?thesis
        using facts assms(1) open_ rd Inr \<open>STDIN_FILENO \<in> rset s\<close>
        by (simp add: nonb_stdin_def running_defs buf_ok_store content_store)
    qed
  qed
qed (use assms in \<open>simp add: nonb_stdin_def\<close>)

lemma nonb_sock_running:
  assumes "running si ki s" and "sockfd \<in> rset s \<Longrightarrow> iptr (frbuf s) < MAXLINE"
  shows "flow_ok (running si ki) (copied si ki) (nonb_sock sockfd s)"
proof (cases "sockfd \<in> rset s")
  case True
  then have room: "0 < MAXLINE - iptr (frbuf s)"
    using assms(2) by auto
  obtain r i where rd: "sys_read (MAXLINE - iptr (frbuf s)) (sockin s) = (r, i)" by fastforce
  show ?thesis
  proof (cases r)
    case (Inl e)
    then show ?thesis
      using rd sys_read_Inl [of "MAXLINE - iptr (frbuf s)" "sockin s" e i] assms(1) True by (simp add: nonb_sock_def running_defs)
  next
    case (Inr bs)
    note facts = sys_read_Inr [OF rd [unfolded Inr] room]
    then show ?thesis
      using assms(1) rd Inr True
      by (cases "bs = []") (simp_all add: nonb_sock_def running_defs buf_ok_store content_store)
  qed
qed (use assms in \<open>simp add: nonb_sock_def\<close>)

lemma nonb_stdout_running:
  assumes "running si ki s"
  shows "flow_ok (running si ki) (copied si ki) (nonb_stdout s)"
proof -
  obtain n out where wr: "sys_write (content (frbuf s)) (stdout s) = (n, out)" by fastforce
  note facts = sys_write_result [OF wr]
  show ?thesis
    using assms wr facts length_content [of "frbuf s"]
    by (auto simp: nonb_stdout_def running_defs buf_ok_advance content_advance)
qed

lemma nonb_sockout_running:
  assumes "running si ki s"
  shows "flow_ok (running si ki) (copied si ki) (nonb_sockout sockfd s)"
proof -
  obtain n out where wr: "sys_write (content (tobuf s)) (sockout s) = (n, out)" by fastforce
  note facts = sys_write_result [OF wr]
  have ok: "buf_ok (tobuf s)" and len: "length (content (tobuf s)) = iptr (tobuf s) - optr (tobuf s)"
    using assms length_content by (auto simp: running_def in_order_def)
  show ?thesis
  proof (cases "sockfd \<in> wset s \<and> optr (tobuf s) < iptr (tobuf s)")
    case True
    then have data: "content (tobuf s) \<noteq> []" and nofin: "fins s = 0"
      using assms len by (auto simp: running_def in_order_def)
    show ?thesis
    proof (cases "n < 0")
      case True
      then show ?thesis
        using assms wr facts \<open>sockfd \<in> wset s \<and> _\<close> by (simp add: nonb_sockout_def running_defs)
    next
      case False
      have "nat n \<le> iptr (tobuf s) - optr (tobuf s)" using facts False len by simp
      then show ?thesis
        using assms wr facts False \<open>sockfd \<in> wset s \<and> _\<close> data nofin ok len
        by (auto simp: nonb_sockout_def running_defs buf_ok_advance content_advance Let_def Shutdown_def split: option.split)
    qed
  qed (use assms in \<open>auto simp: nonb_sockout_def\<close>)
qed

lemma nonb_round_running:
  assumes "running si ki s" and "sockfd \<noteq> STDIN_FILENO"
  shows "flow_ok (running si ki) (copied si ki) (nonb_round sockfd e s)"
proof -
  let ?fr = "\<lambda>t. sockfd \<in> rset t \<longrightarrow> iptr (frbuf t) < MAXLINE"
  have 1: "flow_ok (\<lambda>t. running si ki t \<and> (STDIN_FILENO \<in> rset t \<longrightarrow> iptr (tobuf t) < MAXLINE \<and> \<not> stdineof t) \<and> ?fr t)
      (copied si ki) (Select n e (nonb_sets sockfd s))" for n
    using assms by (auto simp: Select_def nonb_sets_def running_defs split: select_ev.split if_splits)
  have 2: "flow_ok (\<lambda>t. running si ki t \<and> ?fr t) (copied si ki) (nonb_stdin sockfd t)"
    if "running si ki t" "STDIN_FILENO \<in> rset t \<longrightarrow> iptr (tobuf t) < MAXLINE \<and> \<not> stdineof t" "?fr t" for t
    using that by (auto intro!: flow_ok_weaken [OF nonb_stdin_running])
  show ?thesis
    unfolding nonb_round_def Let_def
    by (rule flow_ok_andthen [OF flow_ok_andthen [OF flow_ok_andthen [OF flow_ok_andthen [OF 1 2]
      nonb_sock_running] nonb_stdout_running] nonb_sockout_running]) auto
qed

lemma nonb_loop_running:
  "running si ki s \<Longrightarrow> sockfd \<noteq> STDIN_FILENO \<Longrightarrow> flow_ok (running si ki) (copied si ki) (nonb_loop sockfd es s)"
  by (induction es arbitrary: s) (auto intro: flow_ok_andthen [OF nonb_round_running])

text \<open>The arrays of the client have their size, nothing has been written yet.\<close>

definition nonb_start :: "nonb \<Rightarrow> bool" where
  "nonb_start s \<longleftrightarrow> length (buf_data (tobuf s)) = MAXLINE \<and> length (buf_data (frbuf s)) = MAXLINE \<and>
     written (sockout s) = [] \<and> written (stdout s) = [] \<and> fins s = 0"

lemma str_cli_nonb_running:
  "nonb_start s \<Longrightarrow> sockfd \<noteq> STDIN_FILENO \<Longrightarrow>
    flow_ok (running (pending (stdin s)) (pending (sockin s))) (copied (pending (stdin s)) (pending (sockin s)))
      (str_cli_nonb sockfd es s)"
  unfolding str_cli_nonb_def
  by (rule nonb_loop_running) (auto simp: nonb_start_def running_defs buf_ok_def content_def)

text \<open>
  C18: Whatever the descriptors do and in whatever order they get ready, at every moment the
  bytes written to the socket are the first bytes of the input and the bytes written to
  standard output the first bytes of the server's data; what is between is in the buffers,
  whose pointers stay inside them. A FIN is sent at most once and after all input.
\<close>

theorem str_cli_nonb_copies:
  assumes "nonb_start s" and "sockfd \<noteq> STDIN_FILENO"
    and "t = flow_state (str_cli_nonb sockfd es s)"
  shows "pending (stdin s) = written (sockout t) @ content (tobuf t) @ pending (stdin t) \<and>
    pending (sockin s) = written (stdout t) @ content (frbuf t) @ pending (sockin t) \<and>
    optr (tobuf t) \<le> iptr (tobuf t) \<and> iptr (tobuf t) \<le> MAXLINE \<and>
    optr (frbuf t) \<le> iptr (frbuf t) \<and> iptr (frbuf t) \<le> MAXLINE \<and>
    (fins t = 0 \<or> fins t = 1 \<and> written (sockout t) = pending (stdin s))"
proof -
  have "flow_ok (copied (pending (stdin s)) (pending (sockin s))) (copied (pending (stdin s)) (pending (sockin s)))
      (str_cli_nonb sockfd es s)"
    by (rule flow_ok_weaken [OF str_cli_nonb_running [OF assms(1,2)]]) (auto simp: running_def copied_def)
  then have "copied (pending (stdin s)) (pending (sockin s)) t"
    unfolding assms(3) by (rule flow_ok_state)
  then show ?thesis
    by (auto simp: running_defs buf_ok_def split: if_splits)
qed

definition nonb_example :: nonb where
  "nonb_example = \<lparr>stdin = \<lparr>pending = [104, 105], plan = [Chunk 0]\<rparr>, sockin = \<lparr>pending = [111], plan = []\<rparr>,
     stdout = \<lparr>written = [], wplan = [WFails EAGAIN], werrno = EAGAIN\<rparr>, sockout = \<lparr>written = [], wplan = [], werrno = EAGAIN\<rparr>,
     fins = 0, shut_status = None, stdineof = False, rset = {}, wset = {},
     tobuf = \<lparr>buf_data = replicate MAXLINE 0, iptr = 0, optr = 0\<rparr>,
     frbuf = \<lparr>buf_data = replicate MAXLINE 0, iptr = 0, optr = 0\<rparr>, fd_flags = \<lambda>_. 2\<rparr>"

theorem str_cli_nonb_copies_witness:
  "written (sockout (flow_state (str_cli_nonb 3 [Ready {0, 3} {1, 3}] nonb_example))) = [104] \<and>
   content (frbuf (flow_state (str_cli_nonb 3 [Ready {0, 3} {1, 3}] nonb_example))) = [111] \<and>
   [104, 105] = written (sockout (flow_state (str_cli_nonb 3 [Ready {0, 3} {1, 3}] nonb_example))) @
     content (tobuf (flow_state (str_cli_nonb 3 [Ready {0, 3} {1, 3}] nonb_example))) @
     pending (stdin (flow_state (str_cli_nonb 3 [Ready {0, 3} {1, 3}] nonb_example)))"
proof -
  have "nonb_start nonb_example" "3 \<noteq> STDIN_FILENO"
    by (simp_all add: nonb_start_def nonb_example_def STDIN_FILENO_def)
  then have "pending (stdin nonb_example) =
     written (sockout (flow_state (str_cli_nonb 3 [Ready {0, 3} {1, 3}] nonb_example))) @
     content (tobuf (flow_state (str_cli_nonb 3 [Ready {0, 3} {1, 3}] nonb_example))) @
     pending (stdin (flow_state (str_cli_nonb 3 [Ready {0, 3} {1, 3}] nonb_example)))"
    using str_cli_nonb_copies [of nonb_example 3 _ "[Ready {0, 3} {1, 3}]"] by blast
  then show ?thesis
    by (simp add: nonb_example_def str_cli_nonb_def nonb_round_def nonb_sets_def Select_def nonb_stdin_def nonb_sock_def
      nonb_stdout_def nonb_sockout_def sys_read_def sys_write_def advance_def
      STDIN_FILENO_def STDOUT_FILENO_def store_def content_def Let_def MAXLINE_def)
qed

text \<open>
  The client never sleeps without waiting for what it still has to do: on the way from the
  server it waits for data or for standard output, and on the way to the server for input or
  for the socket until all input is written and the FIN is sent.
\<close>

theorem str_cli_nonb_waits:
  assumes "nonb_start s" and "sockfd \<noteq> STDIN_FILENO" and "str_cli_nonb sockfd es s = Next t"
  shows "(sockfd \<in> rset (nonb_sets sockfd t) \<or> STDOUT_FILENO \<in> wset (nonb_sets sockfd t)) \<and>
    (STDIN_FILENO \<in> rset (nonb_sets sockfd t) \<or> sockfd \<in> wset (nonb_sets sockfd t) \<or>
      written (sockout t) = pending (stdin s) \<and> fins t = 1)"
proof -
  have "running (pending (stdin s)) (pending (sockin s)) t"
    using str_cli_nonb_running [OF assms(1,2), of es] assms(3) by simp
  then show ?thesis
    using content_Nil_iff [of "tobuf t"] by (auto simp: nonb_sets_def running_defs buf_ok_def MAXLINE_def)
qed

theorem str_cli_nonb_waits_witness:
  "\<exists>t. str_cli_nonb 3 [] nonb_example = Next t \<and>
    (3 \<in> rset (nonb_sets 3 t) \<or> STDOUT_FILENO \<in> wset (nonb_sets 3 t))"
proof -
  have start: "nonb_start nonb_example" "3 \<noteq> STDIN_FILENO"
    by (simp_all add: nonb_start_def nonb_example_def STDIN_FILENO_def)
  obtain t where t: "str_cli_nonb 3 [] nonb_example = Next t"
    by (simp add: str_cli_nonb_def)
  then show ?thesis
    using str_cli_nonb_waits [OF start t] by blast
qed

text \<open>
  The output that is lost: the server's data arrives while standard output would block, and
  the end of its data is read in the next round. The function returns as after a complete
  transfer, with the data in its buffer.
\<close>

lemma str_cli_nonb_loses_output:
  assumes "nonb_start s" and "pending (stdin s) = []" and "plan (stdin s) = []" and "shut_status s = None"
    and "plan (sockin s) = []" and "pending (sockin s) \<noteq> []" and "length (pending (sockin s)) < MAXLINE"
    and "wplan (stdout s) = WFails EAGAIN # w" and "1 < sockfd"
  shows "\<exists>t. str_cli_nonb sockfd [Ready {STDIN_FILENO, sockfd} {}, Ready {sockfd} {}] s = Leave t \<and>
    written (stdout t) = [] \<and> content (frbuf t) = pending (sockin s)"
  using assms
  by (simp add: str_cli_nonb_def nonb_round_def nonb_sets_def Select_def nonb_stdin_def nonb_sock_def
      nonb_stdout_def nonb_sockout_def sys_read_def sys_write_def Shutdown_def nonb_start_def
      STDIN_FILENO_def STDOUT_FILENO_def store_def content_def Let_def MAXLINE_def)

section \<open>The blocking client\<close>

text \<open>Without buffers of its own everything that has been read has been written.\<close>

definition sel_copied :: "byte list \<Rightarrow> byte list \<Rightarrow> conn \<Rightarrow> bool" where
  "sel_copied si ki s \<longleftrightarrow> si = written (sockout s) @ pending (stdin s) \<and> ki = written (stdout s) @ pending (sockin s) \<and>
     (stdineof s \<longrightarrow> pending (stdin s) = [] \<and> STDIN_FILENO \<notin> rset s) \<and> fins s = (if stdineof s then 1 else 0)"

text \<open>A round that goes on, and a round that returns.\<close>

fun went_well :: "('s \<Rightarrow> bool) \<Rightarrow> ('s \<Rightarrow> bool) \<Rightarrow> 's flow \<Rightarrow> bool" where
  "went_well P R (Next s) = P s"
| "went_well P R (Leave s) = R s"
| "went_well P R (Exit m s) = True"

lemma went_well_andthen:
  "went_well P R f \<Longrightarrow> (\<And>s. P s \<Longrightarrow> went_well P' R (g s)) \<Longrightarrow> went_well P' R (andthen f g)"
  by (cases f) auto

lemma Read_Returns:
  assumes "Read MAXLINE i = (Returns bs, i')"
  shows "pending i = bs @ pending i'" and "bs = [] \<Longrightarrow> pending i = []"
  using assms sys_read_Inr [of MAXLINE i bs i']
  by (auto simp: Read_def err_sys_on_error_def MAXLINE_def split: prod.splits sum.splits)

lemma Write_Returns: "Write bs out = (Returns u, out') \<Longrightarrow> written out' = written out @ bs"
  using sys_write_result(2) [of bs out "fst (sys_write bs out)" out']
  by (auto simp: Write_def split: prod.splits if_splits)

lemma Writen_Returns: "Writen bs out = (Returns u, out') \<Longrightarrow> written out' = written out @ bs"
  using writen_loop_spec [of "length bs" bs out "fst (writen bs out)" out']
  by (auto simp: Writen_def writen_def split: prod.splits if_splits)

definition all_copied :: "byte list \<Rightarrow> byte list \<Rightarrow> conn \<Rightarrow> bool" where
  "all_copied si ki s \<longleftrightarrow> written (sockout s) = si \<and> written (stdout s) = ki \<and> fins s = 1"

lemma sel_sock_copied:
  "sel_copied si ki s \<Longrightarrow> went_well (sel_copied si ki) (all_copied si ki) (sel_sock sockfd s)"
  using Read_Returns [of "sockin s"] Write_Returns [of _ "stdout s"]
  by (fastforce simp: sel_sock_def sel_copied_def all_copied_def split: prod.splits wrapped.splits if_splits)

lemma sel_stdin_copied:
  "sel_copied si ki s \<Longrightarrow> went_well (sel_copied si ki) (all_copied si ki) (sel_stdin sockfd s)"
  using Read_Returns [of "stdin s"] Writen_Returns [of _ "sockout s"]
  by (fastforce simp: sel_stdin_def sel_copied_def Shutdown_def split: prod.splits wrapped.splits if_splits option.splits)

lemma sel_round_copied:
  assumes "sel_copied si ki s" and "sockfd \<noteq> STDIN_FILENO"
  shows "went_well (sel_copied si ki) (all_copied si ki) (sel_round sockfd e s)"
proof -
  let ?s = "s\<lparr>rset := insert sockfd (if stdineof s then rset s else insert STDIN_FILENO (rset s))\<rparr>"
  have 1: "went_well (sel_copied si ki) (all_copied si ki) (Select n e ?s)" for n
    using assms by (auto simp: Select_def sel_copied_def split: select_ev.split)
  show ?thesis
    unfolding sel_round_def Let_def
    by (rule went_well_andthen [OF went_well_andthen [OF 1 sel_sock_copied] sel_stdin_copied])
qed

lemma sel_loop_copied:
  "sel_copied si ki s \<Longrightarrow> sockfd \<noteq> STDIN_FILENO \<Longrightarrow>
    went_well (sel_copied si ki) (all_copied si ki) (sel_loop sockfd es s)"
  by (induction es arbitrary: s) (auto intro: went_well_andthen [OF sel_round_copied])

text \<open>
  The client of \<open>strcliselect02.c\<close>: when it returns, all input has been sent, followed by one
  FIN, and everything the server sent has been printed.
\<close>

theorem str_cli_select_returns:
  assumes "str_cli_select sockfd es s = Leave t" and "sockfd \<noteq> STDIN_FILENO"
    and "written (sockout s) = []" and "written (stdout s) = []" and "fins s = 0"
  shows "written (sockout t) = pending (stdin s) \<and> written (stdout t) = pending (sockin s) \<and> fins t = 1"
proof -
  have "went_well (sel_copied (pending (stdin s)) (pending (sockin s))) (all_copied (pending (stdin s)) (pending (sockin s)))
      (str_cli_select sockfd es s)"
    unfolding str_cli_select_def using assms by (intro sel_loop_copied) (auto simp: sel_copied_def)
  then show ?thesis
    using assms(1) by (simp add: all_copied_def)
qed

definition sel_example :: conn where
  "sel_example = \<lparr>stdin = \<lparr>pending = [104, 105], plan = [Chunk 0]\<rparr>, sockin = \<lparr>pending = [111], plan = []\<rparr>,
     stdout = \<lparr>written = [], wplan = [], werrno = EAGAIN\<rparr>, sockout = \<lparr>written = [], wplan = [Takes 1], werrno = EAGAIN\<rparr>,
     fins = 0, shut_status = None, stdineof = False, rset = {}, wset = {}\<rparr>"

theorem str_cli_select_returns_witness:
  "\<exists>t. str_cli_select 3 [Ready {0, 3} {}, Ready {0} {}, Ready {0} {}, Ready {3} {}] sel_example = Leave t \<and>
    written (sockout t) = [104, 105] \<and> written (stdout t) = [111] \<and> fins t = 1"
proof -
  have "\<exists>t. str_cli_select 3 [Ready {0, 3} {}, Ready {0} {}, Ready {0} {}, Ready {3} {}] sel_example = Leave t"
    by (simp add: sel_example_def str_cli_select_def sel_round_def Select_def sel_sock_def sel_stdin_def Read_def Write_def
        Writen_def writen_def writen_loop.simps sys_read_def sys_write_def err_sys_on_error_def Shutdown_def Let_def
        STDIN_FILENO_def MAXLINE_def)
  then obtain t where "str_cli_select 3 [Ready {0, 3} {}, Ready {0} {}, Ready {0} {}, Ready {3} {}] sel_example = Leave t" ..
  then show ?thesis
    using str_cli_select_returns [of 3 _ sel_example t] by (auto simp: sel_example_def STDIN_FILENO_def)
qed

end
