(* ===== verification/Fdserver.thy ===== *)
theory Fdserver
  imports Stream_IO
begin

text \<open>
  Servers that one process multiplexes over many connections: \<open>tcpcliserv/tcpservselect01.c\<close>
  with \<open>select\<close>, \<open>tcpcliserv/tcpservpoll01.c\<close> with \<open>poll\<close>, and \<open>server/serv05.c\<close>, which passes
  connections to a pool of child processes.

  Each server is a loop around one call that waits; a round is the code from this call to the
  next one. What the call reports, and what \<open>accept\<close> returns, are the argument of the round.
\<close>

section \<open>Rounds and scans\<close>

text \<open>
  A round goes on, ends the process with a message, or accesses memory outside an object.
\<close>

datatype 's outcome = Go 's | Quit string 's | Fault

fun bind :: "'s outcome \<Rightarrow> ('s \<Rightarrow> 's outcome) \<Rightarrow> 's outcome" where
  "bind (Go s) f = f s"
| "bind (Quit m s) f = Quit m s"
| "bind Fault f = Fault"

text \<open>
  The loop all three servers have: look at the entries in turn, act on those that are ready
  and leave the loop when as many have been found as the call announced.
\<close>

fun scan :: "(int \<Rightarrow> bool) \<Rightarrow> (nat \<Rightarrow> 's \<Rightarrow> bool) \<Rightarrow> (nat \<Rightarrow> 's \<Rightarrow> 's outcome) \<Rightarrow> nat list \<Rightarrow> int \<Rightarrow> 's \<Rightarrow> 's outcome" where
  "scan stop ready act [] n s = Go s"
| "scan stop ready act (i # is) n s =
    (if ready i s then bind (act i s) (\<lambda>s. if stop (n - 1) then Go s else scan stop ready act is (n - 1) s)
     else scan stop ready act is n s)"

text \<open>The same without counting.\<close>

fun scan_all :: "(nat \<Rightarrow> 's \<Rightarrow> bool) \<Rightarrow> (nat \<Rightarrow> 's \<Rightarrow> 's outcome) \<Rightarrow> nat list \<Rightarrow> 's \<Rightarrow> 's outcome" where
  "scan_all ready act [] s = Go s"
| "scan_all ready act (i # is) s =
    (if ready i s then bind (act i s) (scan_all ready act is) else scan_all ready act is s)"

text \<open>The first entry for which a test holds: the search for a free place.\<close>

fun first_such :: "('a \<Rightarrow> bool) \<Rightarrow> 'a list \<Rightarrow> nat option" where
  "first_such p [] = None"
| "first_such p (x # xs) = (if p x then Some 0 else map_option Suc (first_such p xs))"

section \<open>Connections\<close>

record chan =
  cin :: in_stream
  cout :: out_stream

text \<open>The descriptors of the process that are open, and what is behind them.\<close>

record kernel =
  open_fds :: "int set"
  chans :: "int \<Rightarrow> chan"

definition Close :: "int \<Rightarrow> 'a kernel_scheme \<Rightarrow> 'a kernel_scheme" where
  "Close fd k = k\<lparr>open_fds := open_fds k - {fd}\<rparr>"

definition Writen_fd :: "int \<Rightarrow> byte list \<Rightarrow> 'a kernel_scheme \<Rightarrow> 'a kernel_scheme outcome" where
  "Writen_fd fd bs k = (case Writen bs (cout (chans k fd)) of (r, out) \<Rightarrow>
     let k' = k\<lparr>chans := (chans k)(fd := (chans k fd)\<lparr>cout := out\<rparr>)\<rparr>
     in case r of Returns u \<Rightarrow> Go k' | Exits m e \<Rightarrow> Quit m k')"

definition kread :: "int \<Rightarrow> nat \<Rightarrow> 'a kernel_scheme \<Rightarrow> byte list result \<times> 'a kernel_scheme" where
  "kread fd n k = (case sys_read n (cin (chans k fd)) of (r, i) \<Rightarrow>
     (r, k\<lparr>chans := (chans k)(fd := (chans k fd)\<lparr>cin := i\<rparr>)\<rparr>))"

text \<open>A new connection: a descriptor that was not open.\<close>

definition accepted :: "int \<Rightarrow> chan \<Rightarrow> 'a kernel_scheme \<Rightarrow> 'a kernel_scheme" where
  "accepted fd c k = k\<lparr>open_fds := insert fd (open_fds k), chans := (chans k)(fd := c)\<rparr>"

section \<open>\<open>tcpservselect01.c\<close>\<close>

definition FD_SETSIZE :: nat where "FD_SETSIZE = 1024"

record sserver = kernel +
  client :: "int list"
  maxi :: int
  maxfd :: int
  allset :: "int set"
  rset :: "int set"
  listenfd :: int

text \<open>Lines 26 to 31.\<close>

definition sserver_start :: "int \<Rightarrow> kernel \<Rightarrow> sserver" where
  "sserver_start lfd k = \<lparr>open_fds = open_fds k, chans = chans k, client = replicate FD_SETSIZE (- 1), maxi = - 1,
     maxfd = lfd, allset = {lfd}, rset = {}, listenfd = lfd\<rparr>"

text \<open>\<open>FD_SET\<close> of a descriptor that has no bit in the set is an access outside it.\<close>

definition FD_SET_ok :: "int \<Rightarrow> bool" where
  "FD_SET_ok fd \<longleftrightarrow> 0 \<le> fd \<and> fd < int FD_SETSIZE"

text \<open>Lines 48 to 60, after \<open>Accept\<close> has returned \<open>connfd\<close>.\<close>

definition sserver_add :: "int \<Rightarrow> sserver \<Rightarrow> sserver outcome" where
  "sserver_add connfd s =
    (case first_such (\<lambda>fd. fd < 0) (client s) of
       None \<Rightarrow> Quit ''too many clients'' s
     | Some i \<Rightarrow>
         if \<not> FD_SET_ok connfd then Fault
         else Go (s\<lparr>client := (client s)[i := connfd], allset := insert connfd (allset s),
                   maxfd := max (maxfd s) connfd, maxi := max (maxi s) (int i)\<rparr>))"

text \<open>Lines 66 to 77: the entry of a client, and what is done when it is readable.\<close>

definition sserver_ready :: "nat \<Rightarrow> sserver \<Rightarrow> bool" where
  "sserver_ready i s \<longleftrightarrow> 0 \<le> client s ! i \<and> client s ! i \<in> rset s"

definition sserver_serve :: "nat \<Rightarrow> sserver \<Rightarrow> sserver outcome" where
  "sserver_serve i s =
    (let sockfd = client s ! i
     in case kread sockfd MAXLINE s of
          (Inl e, s') \<Rightarrow> Quit ''read error'' s'
        | (Inr bs, s') \<Rightarrow>
            if bs = [] then
              (let s'' = Close sockfd s'
               in Go (s''\<lparr>allset := allset s'' - {sockfd}, client := (client s'')[i := - 1]\<rparr>))
            else Writen_fd sockfd bs s')"

text \<open>
  The loop body. \<open>ready\<close> is what \<open>select\<close> finds ready, \<open>acc\<close> the result of \<open>Accept\<close>, with what is
  behind the new descriptor.
\<close>

definition sserver_round :: "int set result \<Rightarrow> (int \<times> chan) result \<Rightarrow> sserver \<Rightarrow> sserver outcome" where
  "sserver_round ready acc s =
    (case ready of
       Inl e \<Rightarrow> Quit ''select error'' s
     | Inr r \<Rightarrow>
        (let s1 = s\<lparr>rset := {fd \<in> allset s \<inter> r. fd < maxfd s + 1}\<rparr>;
             nready = int (card (rset s1));
             clients = (\<lambda>n s. scan (\<lambda>n. n \<le> 0) sserver_ready sserver_serve [0..<nat (maxi s + 1)] n s)
         in if listenfd s \<in> rset s1 then
              (case acc of
                 Inl e \<Rightarrow> Quit ''accept error'' s1
               | Inr (connfd, c) \<Rightarrow>
                   bind (sserver_add connfd (accepted connfd c s1))
                     (\<lambda>s2. if nready - 1 \<le> 0 then Go s2 else clients (nready - 1) s2))
            else clients nready s1))"

section \<open>\<open>tcpservpoll01.c\<close>\<close>

definition POLLRDNORM :: cint where "POLLRDNORM = 64"
definition POLLERR :: cint where "POLLERR = 8"
definition POLLHUP :: cint where "POLLHUP = 16"
definition POLLNVAL :: cint where "POLLNVAL = 32"
definition ECONNRESET :: errno where "ECONNRESET = EOTHER 104"

record pollfd =
  pfd :: int
  pevents :: cint
  prevents :: cint

record pserver = kernel +
  pclient :: "pollfd list"
  pmaxi :: nat

text \<open>
  Lines 27 to 31. \<open>mem\<close> is what the array holds before: only some fields are initialised.
\<close>

definition pserver_start :: "int \<Rightarrow> pollfd list \<Rightarrow> kernel \<Rightarrow> pserver" where
  "pserver_start lfd mem k = \<lparr>open_fds = open_fds k, chans = chans k,
     pclient = (case mem of [] \<Rightarrow> [] | c # cs \<Rightarrow>
       c\<lparr>pfd := lfd, pevents := POLLRDNORM\<rparr> # map (\<lambda>c. c\<lparr>pfd := - 1\<rparr>) cs), pmaxi = 0\<rparr>"

text \<open>
  \<open>Poll\<close> stores the events of the first \<open>n\<close> entries, none for a negative descriptor, and returns
  the number of entries with events.
\<close>

definition poll_entry :: "(int \<Rightarrow> cint) \<Rightarrow> pollfd \<Rightarrow> pollfd" where
  "poll_entry evs c = c\<lparr>prevents := (if pfd c < 0 then 0 else evs (pfd c) AND (pevents c OR POLLERR OR POLLHUP OR POLLNVAL))\<rparr>"

definition Poll :: "(int \<Rightarrow> cint) \<Rightarrow> nat \<Rightarrow> pollfd list \<Rightarrow> int \<times> pollfd list" where
  "Poll evs n cs = (let cs' = map (poll_entry evs) (take n cs) @ drop n cs
     in (cnt (\<lambda>c. prevents c \<noteq> 0) (take n cs'), cs'))"

text \<open>Lines 45 to 55.\<close>

definition pserver_add :: "int \<Rightarrow> pserver \<Rightarrow> pserver outcome" where
  "pserver_add connfd s =
    (case first_such (\<lambda>c. pfd c < 0) (tl (pclient s)) of
       None \<Rightarrow> Quit ''too many clients'' s
     | Some j \<Rightarrow>
         (let i = Suc j
          in Go (s\<lparr>pclient := (pclient s)[i := (pclient s ! i)\<lparr>pfd := connfd, pevents := POLLRDNORM\<rparr>],
                   pmaxi := max (pmaxi s) i\<rparr>)))"

text \<open>Lines 61 to 83.\<close>

definition pserver_ready :: "nat \<Rightarrow> pserver \<Rightarrow> bool" where
  "pserver_ready i s \<longleftrightarrow> 0 \<le> pfd (pclient s ! i) \<and> has_flag (prevents (pclient s ! i)) (POLLRDNORM OR POLLERR)"

definition pserver_drop :: "nat \<Rightarrow> pserver \<Rightarrow> pserver" where
  "pserver_drop i s =
    (let s' = Close (pfd (pclient s ! i)) s in s'\<lparr>pclient := (pclient s')[i := (pclient s' ! i)\<lparr>pfd := - 1\<rparr>]\<rparr>)"

definition pserver_serve :: "nat \<Rightarrow> pserver \<Rightarrow> pserver outcome" where
  "pserver_serve i s =
    (let sockfd = pfd (pclient s ! i)
     in case kread sockfd MAXLINE s of
          (Inl e, s') \<Rightarrow> if e = ECONNRESET then Go (pserver_drop i s') else Quit ''read error'' s'
        | (Inr bs, s') \<Rightarrow> if bs = [] then Go (pserver_drop i s') else Writen_fd sockfd bs s')"

definition pserver_round :: "(int \<Rightarrow> cint) result \<Rightarrow> (int \<times> chan) result \<Rightarrow> pserver \<Rightarrow> pserver outcome" where
  "pserver_round evs acc s =
    (case evs of
       Inl e \<Rightarrow> Quit ''poll error'' s
     | Inr ev \<Rightarrow>
        (let (nready, cs) = Poll ev (pmaxi s + 1) (pclient s);
             s1 = s\<lparr>pclient := cs\<rparr>;
             clients = (\<lambda>n s. scan (\<lambda>n. n \<le> 0) pserver_ready pserver_serve [1..<pmaxi s + 1] n s)
         in if has_flag (prevents (cs ! 0)) POLLRDNORM then
              (case acc of
                 Inl e \<Rightarrow> Quit ''accept error'' s1
               | Inr (connfd, c) \<Rightarrow>
                   bind (pserver_add connfd (accepted connfd c s1))
                     (\<lambda>s2. if nready - 1 \<le> 0 then Go s2 else clients (nready - 1) s2))
            else clients nready s1))"

end
