(* ===== verification/Pool.thy ===== *)
theory Pool
  imports Fdserver
begin

text \<open>
  The pool of processes of \<open>server/serv05.c\<close> and \<open>server/child05.c\<close>: the parent accepts
  connections and passes each to a free child over a stream pipe; a child that has finished
  its connection writes one byte to the parent. The parent's loop body is one step; the
  children run in between, each of their loops in two steps.
\<close>

section \<open>The parent's table and the children\<close>

record child =
  child_pid :: int
  child_pipefd :: int
  child_status :: int
  child_count :: int

text \<open>
  A child process with the two directions of its pipe: descriptors on the way to it, and the
  number of bytes on the way back.
\<close>

record cproc =
  to_child :: "int list"
  serving :: "int option"
  from_child :: nat
  alive :: bool

text \<open>
  \<open>taken\<close>, \<open>handled\<close> and \<open>lost\<close> record the connections accepted, those that a child has served and
  closed, and those that were with a child, or on their way to it, when it died.
\<close>

record pool =
  cptr :: "child list"
  navail :: int
  masterset :: "int set"
  poolmax :: int
  poolset :: "int set"
  poolfd :: int
  procs :: "cproc list"
  taken :: "int list"
  handled :: "int list"
  lost :: "int list"

text \<open>
  Lines 25 to 39 of \<open>serv05.c\<close> with \<open>child_make\<close> of \<open>child05.c\<close>: one pair of process number and
  pipe descriptor for each child. A descriptor that has no bit in the set makes \<open>FD_SET\<close> write
  outside it.
\<close>

definition child_make :: "int \<times> int \<Rightarrow> child" where
  "child_make p = \<lparr>child_pid = fst p, child_pipefd = snd p, child_status = 0, child_count = 0\<rparr>"

definition pool_start :: "int \<Rightarrow> (int \<times> int) list \<Rightarrow> pool outcome" where
  "pool_start lfd kids = (if \<not> list_all FD_SET_ok (lfd # map snd kids) then Fault else Go \<lparr>cptr = map child_make kids, navail = int (length kids),
     masterset = insert lfd (snd ` set kids), poolmax = fold max (map snd kids) lfd, poolset = {}, poolfd = lfd,
     procs = replicate (length kids) \<lparr>to_child = [], serving = None, from_child = 0, alive = True\<rparr>,
     taken = [], handled = [], lost = []\<rparr>)"

section \<open>The parent\<close>

text \<open>
  Lines 50 to 65: a new connection goes to the first free child. The write to the pipe of a
  child that has terminated fails.
\<close>

definition pool_pass :: "int \<Rightarrow> pool \<Rightarrow> pool outcome" where
  "pool_pass connfd s =
    (let s = s\<lparr>taken := taken s @ [connfd]\<rparr>
     in case first_such (\<lambda>c. child_status c = 0) (cptr s) of
       None \<Rightarrow> Quit ''no available children'' s
     | Some i \<Rightarrow>
         if \<not> alive (procs s ! i) then Quit ''write_fd error'' s
         else Go (s\<lparr>cptr := (cptr s)[i := (cptr s ! i)\<lparr>child_status := 1, child_count := child_count (cptr s ! i) + 1\<rparr>],
               navail := navail s - 1,
               procs := (procs s)[i := (procs s ! i)\<lparr>to_child := to_child (procs s ! i) @ [connfd]\<rparr>]\<rparr>))"

text \<open>Lines 71 to 79: a child has written its byte, or has terminated.\<close>

definition pool_ready :: "nat \<Rightarrow> pool \<Rightarrow> bool" where
  "pool_ready i s \<longleftrightarrow> child_pipefd (cptr s ! i) \<in> poolset s"

definition pool_back :: "nat \<Rightarrow> pool \<Rightarrow> pool outcome" where
  "pool_back i s =
    (if from_child (procs s ! i) = 0 then Quit ''child terminated unexpectedly'' s
     else Go (s\<lparr>procs := (procs s)[i := (procs s ! i)\<lparr>from_child := from_child (procs s ! i) - 1\<rparr>],
                cptr := (cptr s)[i := (cptr s ! i)\<lparr>child_status := 0\<rparr>], navail := navail s + 1\<rparr>))"

definition pool_round :: "int set result \<Rightarrow> int result \<Rightarrow> pool \<Rightarrow> pool outcome" where
  "pool_round ready acc s =
    (case ready of
       Inl e \<Rightarrow> Quit ''select error'' s
     | Inr r \<Rightarrow>
        (let asked = (if navail s \<le> 0 then masterset s - {poolfd s} else masterset s);
             s1 = s\<lparr>poolset := {fd \<in> asked \<inter> r. fd < poolmax s + 1}\<rparr>;
             nsel = int (card (poolset s1));
             children = (\<lambda>n s. scan (\<lambda>n. n = 0) pool_ready pool_back [0..<length (cptr s)] n s)
         in if poolfd s \<in> poolset s1 then
              (case acc of
                 Inl e \<Rightarrow> Quit ''accept error'' s1
               | Inr connfd \<Rightarrow>
                   bind (pool_pass connfd s1) (\<lambda>s2. if nsel - 1 = 0 then Go s2 else children (nsel - 1) s2))
            else children nsel s1))"

section \<open>The children\<close>

text \<open>\<open>child_main\<close>: \<open>Read_fd\<close> takes the next descriptor from the pipe.\<close>

definition child_takes :: "cproc \<Rightarrow> cproc option" where
  "child_takes p = (case (alive p, serving p, to_child p) of
     (True, None, fd # rest) \<Rightarrow> Some (p\<lparr>to_child := rest, serving := Some fd\<rparr>)
   | _ \<Rightarrow> None)"

text \<open>The request is processed, the connection closed and the byte written.\<close>

definition child_done :: "cproc \<Rightarrow> (int \<times> cproc) option" where
  "child_done p = (case (alive p, serving p) of
     (True, Some fd) \<Rightarrow> Some (fd, p\<lparr>serving := None, from_child := from_child p + 1\<rparr>)
   | _ \<Rightarrow> None)"

text \<open>A child that dies takes with it what it has not finished; bytes in the pipe can still be read.\<close>

definition child_holds :: "cproc \<Rightarrow> int list" where
  "child_holds p = to_child p @ (case serving p of None \<Rightarrow> [] | Some fd \<Rightarrow> [fd])"

definition child_dies :: "cproc \<Rightarrow> cproc" where
  "child_dies p = p\<lparr>to_child := [], serving := None, alive := False\<rparr>"

text \<open>\<open>select\<close> finds a pipe readable when there is a byte in it or the child has gone.\<close>

definition pool_legal :: "int set \<Rightarrow> pool \<Rightarrow> bool" where
  "pool_legal r s \<longleftrightarrow> (\<forall>i < length (cptr s). child_pipefd (cptr s ! i) \<in> r \<longrightarrow>
     0 < from_child (procs s ! i) \<or> \<not> alive (procs s ! i))"

inductive pool_step :: "pool \<Rightarrow> pool \<Rightarrow> bool" where
  parent: "pool_legal r s \<Longrightarrow> pool_round (Inr r) acc s = Go s' \<Longrightarrow> pool_step s s'"
| takes: "i < length (procs s) \<Longrightarrow> child_takes (procs s ! i) = Some p \<Longrightarrow> pool_step s (s\<lparr>procs := (procs s)[i := p]\<rparr>)"
| finishes: "i < length (procs s) \<Longrightarrow> child_done (procs s ! i) = Some (fd, p) \<Longrightarrow>
    pool_step s (s\<lparr>procs := (procs s)[i := p], handled := handled s @ [fd]\<rparr>)"
| dies: "i < length (procs s) \<Longrightarrow> alive (procs s ! i) \<Longrightarrow>
    pool_step s (s\<lparr>procs := (procs s)[i := child_dies (procs s ! i)], lost := lost s @ child_holds (procs s ! i)\<rparr>)"

end
