(* ===== verification/Fdserver_Props.thy ===== *)
theory Fdserver_Props
  imports Fdserver Stream_Spec
begin

text \<open>
  The servers of \<open>Fdserver\<close>: their tables and sets agree, every ready connection is served in
  the round that finds it ready and gets back what it sent, and the table of clients cannot
  overflow before the set of descriptors does.
\<close>

section \<open>Counting does not cut a scan short\<close>

text \<open>
  What the scans rely on: acting on one entry leaves the others as ready as they were, and
  the test at the end of the body is true when nothing is left to find.
\<close>

locale counted_scan =
  fixes stop :: "int \<Rightarrow> bool"
    and ready :: "nat \<Rightarrow> 's \<Rightarrow> bool"
    and act :: "nat \<Rightarrow> 's \<Rightarrow> 's outcome"
  assumes stop_zero: "\<And>n. 0 \<le> n \<Longrightarrow> stop n \<longleftrightarrow> n = 0"
    and act_others: "\<And>i j s s'. act i s = Go s' \<Longrightarrow> i \<noteq> j \<Longrightarrow> ready j s' \<longleftrightarrow> ready j s"
begin

lemma scan_all_none: "\<forall>i \<in> set is. \<not> ready i s \<Longrightarrow> scan_all ready act is s = Go s"
  by (induction "is") auto

lemma scan_eq:
  "distinct is \<Longrightarrow> cnt (\<lambda>i. ready i s) is \<le> n \<Longrightarrow> scan stop ready act is n s = scan_all ready act is s"
proof (induction "is" arbitrary: n s)
  case (Cons i "is")
  show ?case
  proof (cases "ready i s")
    case True
    show ?thesis
    proof (cases "act i s")
      case (Go s')
      have same: "ready j s' \<longleftrightarrow> ready j s" if "j \<in> set is" for j
        using act_others [OF Go, of j] that Cons.prems(1) by auto
      then have "cnt (\<lambda>i. ready i s') is = cnt (\<lambda>i. ready i s) is"
        by (rule cnt_cong)
      then have n: "cnt (\<lambda>i. ready i s') is \<le> n - 1"
        using Cons.prems(2) True by simp
      show ?thesis
      proof (cases "stop (n - 1)")
        case stops: True
        then have "cnt (\<lambda>i. ready i s') is = 0"
          using stop_zero [of "n - 1"] n cnt_nonneg [of "\<lambda>i. ready i s'" "is"] by linarith
        then have "\<forall>j \<in> set is. \<not> ready j s'"
          by (simp add: cnt_zero_iff)
        then show ?thesis using True Go stops by (simp add: scan_all_none)
      next
        case False
        then show ?thesis using True Go Cons.IH [OF _ n] Cons.prems(1) by simp
      qed
    qed (use True in simp_all)
  qed (use Cons in simp)
qed simp

end

section \<open>The server over \<open>select\<close>\<close>

lemma first_such_Some: "first_such p xs = Some i \<Longrightarrow> i < length xs \<and> p (xs ! i)"
  by (induction p xs arbitrary: i rule: first_such.induct) (auto split: if_splits)

lemma first_such_None: "first_such p xs = None \<longleftrightarrow> (\<forall>x \<in> set xs. \<not> p x)"
  by (induction p xs rule: first_such.induct) auto

lemma kread_effect:
  assumes "kread fd MAXLINE k = (r, k')"
  shows "\<exists>i. k' = k\<lparr>chans := (chans k)(fd := (chans k fd)\<lparr>cin := i\<rparr>)\<rparr> \<and>
    sys_read MAXLINE (cin (chans k fd)) = (r, i)"
  using assms by (auto simp: kread_def split: prod.splits)

lemma Writen_fd_Go:
  assumes "Writen_fd fd bs k = Go k'"
  shows "\<exists>out. k' = k\<lparr>chans := (chans k)(fd := (chans k fd)\<lparr>cout := out\<rparr>)\<rparr> \<and>
    written out = written (cout (chans k fd)) @ bs"
  using assms writen_loop_spec [of "length bs" bs "cout (chans k fd)"]
  by (fastforce simp: Writen_fd_def Writen_def writen_def Let_def split: prod.splits wrapped.splits if_splits)

text \<open>
  The table of clients, the set of descriptors and the two maxima agree.
\<close>

definition srv_ok :: "sserver \<Rightarrow> bool" where
  "srv_ok s \<longleftrightarrow> length (client s) = FD_SETSIZE \<and> - 1 \<le> maxi s \<and> maxi s < int FD_SETSIZE \<and>
     (\<forall>i < FD_SETSIZE. 0 \<le> client s ! i \<longrightarrow> int i \<le> maxi s \<and> client s ! i \<noteq> listenfd s) \<and>
     (\<forall>i < FD_SETSIZE. \<forall>j < FD_SETSIZE. 0 \<le> client s ! i \<and> client s ! i = client s ! j \<longrightarrow> i = j) \<and>
     allset s = insert (listenfd s) {fd \<in> set (client s). 0 \<le> fd} \<and>
     allset s \<subseteq> open_fds s \<and> 0 \<le> listenfd s \<and> (\<forall>fd \<in> allset s. FD_SET_ok fd \<and> fd \<le> maxfd s)"

text \<open>What a connection sees of a round: nothing, or its data sent back, or the end of it.\<close>

definition echoed :: "int \<Rightarrow> byte list \<Rightarrow> sserver \<Rightarrow> sserver \<Rightarrow> bool" where
  "echoed fd bs s s' \<longleftrightarrow> pending (cin (chans s fd)) = bs @ pending (cin (chans s' fd)) \<and>
     written (cout (chans s' fd)) = written (cout (chans s fd)) @ bs \<and>
     (if bs = [] then pending (cin (chans s fd)) = [] \<and> fd \<notin> allset s' \<and> fd \<notin> open_fds s' else fd \<in> allset s')"

definition untouched :: "int \<Rightarrow> sserver \<Rightarrow> sserver \<Rightarrow> bool" where
  "untouched fd s s' \<longleftrightarrow> chans s' fd = chans s fd \<and> (fd \<in> allset s' \<longleftrightarrow> fd \<in> allset s) \<and> (fd \<in> open_fds s' \<longleftrightarrow> fd \<in> open_fds s)"

definition kept :: "sserver \<Rightarrow> sserver \<Rightarrow> bool" where
  "kept s s' \<longleftrightarrow> rset s' = rset s \<and> listenfd s' = listenfd s \<and> maxi s' = maxi s \<and> maxfd s' = maxfd s"

lemma srv_ok_chans [simp]: "srv_ok (s\<lparr>chans := f\<rparr>) = srv_ok s"
  by (simp add: srv_ok_def)

lemma client_fd: "srv_ok s \<Longrightarrow> i < FD_SETSIZE \<Longrightarrow> 0 \<le> client s ! i \<Longrightarrow> client s ! i \<in> allset s - {listenfd s}"
  by (auto simp: srv_ok_def)

lemma serve_effect:
  assumes "srv_ok s" and "i < FD_SETSIZE" and "0 \<le> client s ! i" and "sserver_serve i s = Go s'"
  shows "srv_ok s' \<and> kept s s' \<and> (\<exists>bs. echoed (client s ! i) bs s s' \<and>
      client s' = (if bs = [] then (client s)[i := - 1] else client s)) \<and> (\<forall>fd. fd \<noteq> client s ! i \<longrightarrow> untouched fd s s')"
proof -
  let ?fd = "client s ! i"
  obtain r s1 where rd: "kread ?fd MAXLINE s = (r, s1)" by fastforce
  then obtain ci where s1: "s1 = s\<lparr>chans := (chans s)(?fd := (chans s ?fd)\<lparr>cin := ci\<rparr>)\<rparr>"
    and sys: "sys_read MAXLINE (cin (chans s ?fd)) = (r, ci)"
    using kread_effect by blast
  obtain bs where r: "r = Inr bs"
    using assms(4) rd by (cases r) (auto simp: sserver_serve_def)
  have got: "pending (cin (chans s ?fd)) = bs @ pending ci" "bs = [] \<longrightarrow> pending (cin (chans s ?fd)) = []"
    using sys_read_Inr [OF sys [unfolded r]] by (auto simp: MAXLINE_def)
  show ?thesis
  proof (cases "bs = []")
    case True
    then have s': "s' = s1\<lparr>open_fds := open_fds s1 - {?fd}, allset := allset s1 - {?fd}, client := (client s1)[i := - 1]\<rparr>"
      using assms(4) rd r by (simp add: sserver_serve_def Close_def Let_def)
    have "{fd \<in> set ((client s)[i := - 1]). 0 \<le> fd} = {fd \<in> set (client s). 0 \<le> fd} - {?fd}"
    proof -
      have "0 \<le> fd \<and> (\<exists>j < FD_SETSIZE. (client s)[i := - 1] ! j = fd) \<longleftrightarrow>
        0 \<le> fd \<and> (\<exists>j < FD_SETSIZE. client s ! j = fd) \<and> fd \<noteq> ?fd" for fd
        using assms(1,2) by (auto simp: srv_ok_def nth_list_update)
      then show ?thesis
        using assms(1) by (auto simp: in_set_conv_nth srv_ok_def)
    qed
    then have "srv_ok s'"
      using assms(1,2,3) unfolding s' s1 by (auto simp: srv_ok_def nth_list_update)
    then show ?thesis
      using got True unfolding s' s1 by (auto simp: kept_def untouched_def echoed_def)
  next
    case False
    then have "Writen_fd ?fd bs s1 = Go s'"
      using assms(4) rd r by (simp add: sserver_serve_def)
    then obtain out where s': "s' = s1\<lparr>chans := (chans s1)(?fd := (chans s1 ?fd)\<lparr>cout := out\<rparr>)\<rparr>"
      and out: "written out = written (cout (chans s1 ?fd)) @ bs"
      using Writen_fd_Go by blast
    have "srv_ok s'"
      using assms(1) unfolding s' s1 by simp
    then show ?thesis
      using got False out client_fd [OF assms(1-3)] unfolding s' s1 by (auto simp: kept_def untouched_def echoed_def)
  qed
qed

lemma serve_frame:
  assumes "sserver_serve i s = Go s'" and "i \<noteq> j"
  shows "client s' ! j = client s ! j" and "rset s' = rset s"
  using assms
  by (auto simp: sserver_serve_def kread_def Close_def Let_def dest!: Writen_fd_Go split: prod.splits sum.splits if_splits)

interpretation srv: counted_scan "\<lambda>n. n \<le> 0" sserver_ready sserver_serve
  by unfold_locales (auto simp: sserver_ready_def serve_frame)

lemma untouched_trans: "untouched fd s t \<Longrightarrow> untouched fd t u \<Longrightarrow> untouched fd s u"
  by (simp add: untouched_def)

lemma echoed_untouched: "echoed fd bs s t \<Longrightarrow> untouched fd t u \<Longrightarrow> echoed fd bs s u"
  by (auto simp: echoed_def untouched_def)

lemma untouched_echoed: "untouched fd s t \<Longrightarrow> echoed fd bs t u \<Longrightarrow> echoed fd bs s u"
  by (auto simp: echoed_def untouched_def)

text \<open>A scan of all clients: those that are ready are served, the others are left alone.\<close>

lemma scan_effect:
  assumes "scan_all sserver_ready sserver_serve is s = Go s'" and "srv_ok s" and "distinct is"
    and "set is \<subseteq> {..<FD_SETSIZE}"
  shows "srv_ok s' \<and> kept s s' \<and>
    (\<forall>fd. if \<exists>i \<in> set is. client s ! i = fd \<and> sserver_ready i s then \<exists>bs. echoed fd bs s s' else untouched fd s s')"
  using assms
proof (induction "is" arbitrary: s)
  case Nil
  then show ?case by (simp add: kept_def untouched_def)
next
  case (Cons i "is")
  then have i: "i < FD_SETSIZE" and rest: "distinct is" "set is \<subseteq> {..<FD_SETSIZE}" "i \<notin> set is" by auto
  show ?case
  proof (cases "sserver_ready i s")
    case False
    then show ?thesis using Cons by (auto split: if_splits)
  next
    case True
    then obtain t where t: "sserver_serve i s = Go t" and u: "scan_all sserver_ready sserver_serve is t = Go s'"
      using Cons.prems(1) by (cases "sserver_serve i s") auto
    have pos: "0 \<le> client s ! i" using True by (simp add: sserver_ready_def)
    note eff = serve_effect [OF \<open>srv_ok s\<close> i pos t]
    then obtain bs where bs: "echoed (client s ! i) bs s t" "client t = (if bs = [] then (client s)[i := - 1] else client s)"
      by blast
    have later: "client t ! j = client s ! j \<and> (sserver_ready j t \<longleftrightarrow> sserver_ready j s)" if "j \<in> set is" for j
    proof -
      have "i \<noteq> j" using that rest(3) by auto
      then show ?thesis
        using serve_frame(1) [OF t, of j] serve_frame(2) [OF t, of j] unfolding sserver_ready_def by metis
    qed
    have apart: "client s ! j \<noteq> client s ! i" if "j \<in> set is" for j
      using \<open>srv_ok s\<close> that pos i rest by (metis srv_ok_def lessThan_iff subsetD)
    have IH: "srv_ok s' \<and> kept t s' \<and>
      (\<forall>fd. if \<exists>j \<in> set is. client s ! j = fd \<and> sserver_ready j s then \<exists>bs. echoed fd bs t s' else untouched fd t s')"
      using Cons.IH [OF u _ rest(1,2)] eff later by (simp cong: bex_cong)
    have "if \<exists>j \<in> set (i # is). client s ! j = fd \<and> sserver_ready j s then \<exists>bs. echoed fd bs s s' else untouched fd s s'" for fd
    proof (cases "fd = client s ! i")
      case here: True
      then have "untouched fd t s'" using IH apart by metis
      then show ?thesis using here True bs(1) by (auto intro: echoed_untouched)
    next
      case False
      then have un: "untouched fd s t" using eff by blast
      show ?thesis
      proof (cases "\<exists>j \<in> set is. client s ! j = fd \<and> sserver_ready j s")
        case True
        then obtain bs where "echoed fd bs t s'" using IH by metis
        then show ?thesis using True untouched_echoed [OF un] by auto
      next
        case none: False
        then have "untouched fd t s'" using IH by metis
        then show ?thesis using none False untouched_trans [OF un] by auto
      qed
    qed
    then show ?thesis using IH eff by (auto simp: kept_def)
  qed
qed

text \<open>\<open>select\<close> counts what the scan will find, besides the listening descriptor.\<close>

lemma ready_count:
  assumes "srv_ok s" and "rset s \<subseteq> allset s"
  shows "cnt (\<lambda>i. sserver_ready i s) [0..<nat (maxi s + 1)] = int (card (rset s - {listenfd s}))"
proof -
  let ?I = "{i. i < nat (maxi s + 1) \<and> sserver_ready i s}"
  have range: "i < FD_SETSIZE" if "i < nat (maxi s + 1)" for i
    using assms(1) that by (auto simp: srv_ok_def)
  have "bij_betw (\<lambda>i. client s ! i) ?I (rset s - {listenfd s})"
  proof (rule bij_betw_imageI)
    show "inj_on (\<lambda>i. client s ! i) ?I"
      using assms(1) range by (auto simp: inj_on_def srv_ok_def sserver_ready_def)
    show "(\<lambda>i. client s ! i) ` ?I = rset s - {listenfd s}"
    proof (intro equalityI subsetI)
      fix fd assume "fd \<in> rset s - {listenfd s}"
      then have "fd \<in> set (client s)" "0 \<le> fd" "fd \<in> rset s"
        using assms by (auto simp: srv_ok_def)
      then obtain i where i: "i < FD_SETSIZE" "client s ! i = fd"
        using assms(1) by (auto simp: in_set_conv_nth srv_ok_def)
      then have "int i \<le> maxi s"
        using assms(1) \<open>0 \<le> fd\<close> unfolding srv_ok_def by blast
      then show "fd \<in> (\<lambda>i. client s ! i) ` ?I"
        using i \<open>0 \<le> fd\<close> \<open>fd \<in> rset s\<close> by (auto simp: sserver_ready_def)
    qed (use assms(1) range in \<open>auto simp: srv_ok_def sserver_ready_def\<close>)
  qed
  then have "card ?I = card (rset s - {listenfd s})"
    by (rule bij_betw_same_card)
  moreover have "set (filter (\<lambda>i. sserver_ready i s) [0..<nat (maxi s + 1)]) = ?I" by auto
  ultimately show ?thesis
    unfolding cnt_def by (metis distinct_card distinct_filter distinct_upt)
qed

definition fresh :: "(int \<times> chan) result \<Rightarrow> 'a kernel_scheme \<Rightarrow> bool" where
  "fresh acc s \<longleftrightarrow> (case acc of Inl e \<Rightarrow> True | Inr (fd, c) \<Rightarrow> 0 \<le> fd \<and> fd \<notin> open_fds s)"

lemma add_effect:
  assumes "srv_ok s" and "0 \<le> connfd" and "connfd \<notin> open_fds s"
    and "sserver_add connfd (accepted connfd c s) = Go s'"
  shows "srv_ok s' \<and> rset s' = rset s \<and> listenfd s' = listenfd s \<and> connfd \<in> allset s' \<and> chans s' connfd = c \<and>
    (\<forall>fd. fd \<noteq> connfd \<longrightarrow> untouched fd s s')"
proof -
  obtain i where i: "first_such (\<lambda>fd. fd < 0) (client s) = Some i" and bit: "FD_SET_ok connfd"
    and s': "s' = s\<lparr>open_fds := insert connfd (open_fds s), chans := (chans s)(connfd := c), client := (client s)[i := connfd],
      allset := insert connfd (allset s), maxfd := max (maxfd s) connfd, maxi := max (maxi s) (int i)\<rparr>"
    using assms(4) by (auto simp: sserver_add_def accepted_def split: option.splits if_splits)
  have free: "client s ! i < 0" "i < FD_SETSIZE"
    using first_such_Some [OF i] assms(1) by (auto simp: srv_ok_def)
  have new: "connfd \<notin> allset s" using assms(1,3) by (auto simp: srv_ok_def)
  have upd: "(client s)[i := connfd] ! j = (if j = i then connfd else client s ! j)" if "j < FD_SETSIZE" for j
    using assms(1) free(2) that by (simp add: srv_ok_def nth_list_update)
  have other: "client s ! j \<noteq> connfd" if "j < FD_SETSIZE" for j
    using client_fd [OF assms(1) that] new assms(2) by (metis Diff_iff)
  have "0 \<le> fd \<and> (\<exists>j < FD_SETSIZE. (client s)[i := connfd] ! j = fd) \<longleftrightarrow>
      fd = connfd \<or> 0 \<le> fd \<and> (\<exists>j < FD_SETSIZE. client s ! j = fd)" for fd
    using free assms(2) upd by (metis linorder_not_less)
  then have set: "{fd \<in> set ((client s)[i := connfd]). 0 \<le> fd} = insert connfd {fd \<in> set (client s). 0 \<le> fd}"
    using assms(1) by (auto simp: in_set_conv_nth srv_ok_def)
  have inj: "\<forall>j < FD_SETSIZE. \<forall>k < FD_SETSIZE. 0 \<le> (client s)[i := connfd] ! j \<and>
      (client s)[i := connfd] ! j = (client s)[i := connfd] ! k \<longrightarrow> j = k"
    using assms(1) other upd unfolding srv_ok_def by metis
  have idx: "\<forall>j < FD_SETSIZE. 0 \<le> (client s)[i := connfd] ! j \<longrightarrow>
      int j \<le> max (maxi s) (int i) \<and> (client s)[i := connfd] ! j \<noteq> listenfd s"
    using assms(1) upd new unfolding srv_ok_def by (metis insertI1 max.cobounded1 max.cobounded2 order_trans)
  have "allset s \<subseteq> open_fds s" "\<forall>fd \<in> allset s. FD_SET_ok fd \<and> fd \<le> maxfd s" "0 \<le> listenfd s"
    "allset s = insert (listenfd s) {fd \<in> set (client s). 0 \<le> fd}" "length (client s) = FD_SETSIZE" "- 1 \<le> maxi s" "maxi s < int FD_SETSIZE"
    using assms(1) unfolding srv_ok_def by blast+
  then have "srv_ok s'"
    using free(2) bit unfolding s' srv_ok_def by (simp add: set inj idx) auto
  then show ?thesis
    unfolding s' by (auto simp: untouched_def)
qed

lemma clients_effect:
  assumes "srv_ok s" and "rset s \<subseteq> allset s" and "n = int (card (rset s - {listenfd s}))"
    and "scan (\<lambda>n. n \<le> 0) sserver_ready sserver_serve [0..<nat (maxi s + 1)] n s = Go s'"
  shows "srv_ok s' \<and> (\<forall>fd. if fd \<in> rset s - {listenfd s} then \<exists>bs. echoed fd bs s s' else untouched fd s s')"
proof -
  have range: "set [0..<nat (maxi s + 1)] \<subseteq> {..<FD_SETSIZE}"
    using assms(1) by (auto simp: srv_ok_def)
  have "scan_all sserver_ready sserver_serve [0..<nat (maxi s + 1)] s = Go s'"
    using srv.scan_eq [of "[0..<nat (maxi s + 1)]" s n] assms(3,4) ready_count [OF assms(1,2)] by simp
  note eff = scan_effect [OF this assms(1) distinct_upt range]
  have "(\<exists>i \<in> set [0..<nat (maxi s + 1)]. client s ! i = fd \<and> sserver_ready i s) \<longleftrightarrow> fd \<in> rset s - {listenfd s}" for fd
  proof
    assume "fd \<in> rset s - {listenfd s}"
    then have fd: "fd \<in> set (client s)" "0 \<le> fd" "fd \<in> rset s"
      using assms by (auto simp: srv_ok_def)
    then obtain i where i: "i < FD_SETSIZE" "client s ! i = fd"
      using assms(1) by (auto simp: in_set_conv_nth srv_ok_def)
    then have "int i \<le> maxi s"
      using assms(1) fd(2) unfolding srv_ok_def by blast
    then show "\<exists>i \<in> set [0..<nat (maxi s + 1)]. client s ! i = fd \<and> sserver_ready i s"
      using i fd by (auto simp: sserver_ready_def intro!: bexI [of _ i])
  qed (use assms(1) range in \<open>auto simp: srv_ok_def sserver_ready_def\<close>)
  then show ?thesis using eff by simp
qed


lemma rset_select: "srv_ok s \<Longrightarrow> {fd \<in> allset s \<inter> r. fd < maxfd s + 1} = allset s \<inter> r"
  by (auto simp: srv_ok_def)

lemma srv_ok_rset [simp]: "srv_ok (s\<lparr>rset := r\<rparr>) = srv_ok s"
  by (simp add: srv_ok_def)

lemma finite_allset: "srv_ok s \<Longrightarrow> finite (allset s)"
  by (simp add: srv_ok_def)

text \<open>What a connection sees of a round, from a state with the given ready set.\<close>

definition round_effect :: "int set \<Rightarrow> sserver \<Rightarrow> sserver \<Rightarrow> bool" where
  "round_effect r s s' \<longleftrightarrow> srv_ok s' \<and>
     (\<forall>fd \<in> allset s - {listenfd s}. if fd \<in> r then \<exists>bs. echoed fd bs s s' else untouched fd s s')"

abbreviation all_clients :: "int \<Rightarrow> sserver \<Rightarrow> sserver outcome" where
  "all_clients n s \<equiv> scan (\<lambda>n. n \<le> 0) sserver_ready sserver_serve [0..<nat (maxi s + 1)] n s"

lemma sserver_round_eq:
  assumes "srv_ok s" and "s1 = s\<lparr>rset := allset s \<inter> r\<rparr>"
  shows "sserver_round (Inr r) acc s =
    (if listenfd s \<in> r then (case acc of Inl e \<Rightarrow> Quit ''accept error'' s1
       | Inr (connfd, c) \<Rightarrow> bind (sserver_add connfd (accepted connfd c s1))
           (\<lambda>s2. if int (card (rset s1)) - 1 \<le> 0 then Go s2 else all_clients (int (card (rset s1)) - 1) s2))
     else all_clients (int (card (rset s1))) s1)"
proof -
  have "listenfd s \<in> allset s"
    using assms by (auto simp: srv_ok_def)
  then show ?thesis
    unfolding sserver_round_def rset_select [OF assms(1)] Let_def assms(2) by simp
qed

lemma accepting_round:
  assumes "srv_ok s1" and "rset s1 \<subseteq> allset s1" and "listenfd s1 \<in> rset s1" and "0 \<le> connfd" and "connfd \<notin> open_fds s1"
    and "bind (sserver_add connfd (accepted connfd c s1))
      (\<lambda>s2. if int (card (rset s1)) - 1 \<le> 0 then Go s2 else all_clients (int (card (rset s1)) - 1) s2) = Go s'"
  shows "round_effect (rset s1) s1 s' \<and> connfd \<in> allset s' \<and> chans s' connfd = c"
proof -
  obtain s2 where s2: "sserver_add connfd (accepted connfd c s1) = Go s2"
    using assms(6) by (cases "sserver_add connfd (accepted connfd c s1)") auto
  note add = add_effect [OF assms(1,4,5) s2]
  have new: "connfd \<notin> allset s1"
    using assms(1,5) by (auto simp: srv_ok_def)
  have fin: "finite (rset s1)"
    using finite_subset [OF assms(2) finite_allset [OF assms(1)]] .
  have n: "int (card (rset s1)) - 1 = int (card (rset s2 - {listenfd s2}))"
    using add card_Suc_Diff1 [OF fin assms(3), symmetric] by simp
  have un: "untouched fd s1 s2" if "fd \<in> allset s1" for fd
    using add new that by metis
  have sub2: "rset s2 \<subseteq> allset s2"
    using add un assms(2) by (auto simp: untouched_def)
  have all: "srv_ok s' \<and> (\<forall>fd. if fd \<in> rset s2 - {listenfd s2} then \<exists>bs. echoed fd bs s2 s' else untouched fd s2 s')"
  proof (cases "int (card (rset s1)) - 1 \<le> 0")
    case True
    then have "rset s2 - {listenfd s2} = {}"
      using n fin add by (simp add: card_eq_0_iff)
    moreover have "s' = s2"
      using assms(6) s2 True by simp
    ultimately show ?thesis
      using add by (auto simp: untouched_def)
  next
    case False
    then have "all_clients (int (card (rset s1)) - 1) s2 = Go s'"
      using assms(6) s2 by simp
    then show ?thesis
      using clients_effect [OF _ sub2 n] add by blast
  qed
  have "if fd \<in> rset s1 then \<exists>bs. echoed fd bs s1 s' else untouched fd s1 s'" if "fd \<in> allset s1 - {listenfd s1}" for fd
  proof -
    have "fd \<in> rset s2 - {listenfd s2} \<longleftrightarrow> fd \<in> rset s1"
      using add that by auto
    then show ?thesis
      using all un [of fd] that untouched_echoed untouched_trans by (metis DiffD1)
  qed
  then have "round_effect (rset s1) s1 s'"
    using all unfolding round_effect_def by blast
  moreover have "untouched connfd s2 s'"
    using all add new assms(2) by (metis DiffD1 subsetD)
  then have "connfd \<in> allset s' \<and> chans s' connfd = c"
    using add by (simp add: untouched_def)
  ultimately show ?thesis ..
qed

lemma sserver_round_effect:
  assumes "srv_ok s" and "fresh acc s" and "sserver_round (Inr r) acc s = Go s'"
  shows "round_effect r s s' \<and>
    (listenfd s \<in> r \<longrightarrow> (\<exists>fd c. acc = Inr (fd, c) \<and> fd \<in> allset s' \<and> chans s' fd = c))"
proof -
  define s1 where "s1 = s\<lparr>rset := allset s \<inter> r\<rparr>"
  note eq = sserver_round_eq [OF assms(1) s1_def, of acc]
  have ok1: "srv_ok s1" and sub1: "rset s1 \<subseteq> allset s1" and l1: "listenfd s1 \<in> rset s1 \<longleftrightarrow> listenfd s \<in> r"
    using assms(1) by (auto simp: s1_def srv_ok_def)
  have seen: "round_effect (rset s1) s1 s' \<longleftrightarrow> round_effect r s s'"
    by (auto simp: s1_def round_effect_def echoed_def untouched_def)
  show ?thesis
  proof (cases "listenfd s \<in> r")
    case False
    then have "rset s1 - {listenfd s1} = rset s1" and "all_clients (int (card (rset s1))) s1 = Go s'"
      using assms(3) eq l1 by auto
    then have "round_effect (rset s1) s1 s'"
      using clients_effect [OF ok1 sub1, of "int (card (rset s1))" s'] by (simp add: round_effect_def)
    then show ?thesis
      using False seen by simp
  next
    case True
    then obtain connfd c where acc: "acc = Inr (connfd, c)"
      using assms(3) eq by (cases acc) auto
    then have "0 \<le> connfd" "connfd \<notin> open_fds s1"
      using assms(2) by (auto simp: fresh_def s1_def)
    then show ?thesis
      using accepting_round [OF ok1 sub1, of connfd c s'] assms(3) eq True acc l1 seen by simp
  qed
qed


text \<open>
  The table has as many places as a set has bits, and the listening descriptor takes one
  bit: there is always a free place. A descriptor that has no bit in the set is the only
  thing that goes wrong, and the code does not test for it.
\<close>

lemma free_place: "srv_ok s \<Longrightarrow> \<exists>i. first_such (\<lambda>fd. fd < 0) (client s) = Some i"
proof (rule ccontr)
  assume ok: "srv_ok s" and "\<nexists>i. first_such (\<lambda>fd. fd < 0) (client s) = Some i"
  then have pos: "\<forall>fd \<in> set (client s). 0 \<le> fd"
    using first_such_None [of "\<lambda>fd. fd < 0" "client s"] by fastforce
  have "distinct (client s)"
    using ok pos by (auto simp: srv_ok_def distinct_conv_nth)
  then have "card (set (client s)) = FD_SETSIZE"
    using ok by (simp add: distinct_card srv_ok_def)
  moreover have "set (client s) \<subseteq> {0..<int FD_SETSIZE} - {listenfd s}"
  proof
    fix fd assume fd: "fd \<in> set (client s)"
    then obtain i where "i < FD_SETSIZE" "client s ! i = fd"
      using ok by (auto simp: in_set_conv_nth srv_ok_def)
    then have "fd \<in> allset s - {listenfd s}"
      using client_fd [OF ok, of i] fd pos by simp
    moreover have "\<forall>fd \<in> allset s. FD_SET_ok fd"
      using ok unfolding srv_ok_def by blast
    ultimately show "fd \<in> {0..<int FD_SETSIZE} - {listenfd s}"
      by (simp add: FD_SET_ok_def)
  qed
  then have "card (set (client s)) \<le> card ({0..<int FD_SETSIZE} - {listenfd s})"
    by (intro card_mono) auto
  moreover have "FD_SET_ok (listenfd s)"
    using ok unfolding srv_ok_def by blast
  then have "card ({0..<int FD_SETSIZE} - {listenfd s}) = FD_SETSIZE - 1"
    by (simp add: FD_SET_ok_def)
  ultimately show False by (simp add: FD_SETSIZE_def)
qed

lemma bind_eq_Fault: "bind f g = Fault \<longleftrightarrow> f = Fault \<or> (\<exists>s. f = Go s \<and> g s = Fault)"
  by (cases f) auto

lemma serve_no_Fault: "sserver_serve i s \<noteq> Fault"
  by (auto simp: sserver_serve_def Writen_fd_def Let_def split: prod.splits sum.splits wrapped.splits)

lemma scan_no_Fault: "scan stop sserver_ready sserver_serve is n s \<noteq> Fault"
  by (induction "is" arbitrary: n s) (auto simp: bind_eq_Fault serve_no_Fault)

lemma sserver_add_outcome:
  "srv_ok s \<Longrightarrow> if FD_SET_ok connfd then \<exists>s'. sserver_add connfd (accepted connfd c s) = Go s'
    else sserver_add connfd (accepted connfd c s) = Fault"
  using free_place [of s] by (auto simp: sserver_add_def accepted_def)

lemma quits_with:
  assumes "scan stop sserver_ready sserver_serve is n s = Quit m s'"
  shows "m = ''read error'' \<or> m = ''writen error''"
proof -
  have serve: "sserver_serve i s = Quit m s' \<Longrightarrow> m = ''read error'' \<or> m = ''writen error''" for i s
    by (auto simp: sserver_serve_def Writen_fd_def Writen_def Let_def split: prod.splits sum.splits wrapped.splits if_splits)
  show ?thesis
    using assms
  proof (induction "is" arbitrary: n s)
    case (Cons i "is")
    then show ?case
      using serve [of i s] by (cases "sserver_serve i s") (auto split: if_splits)
  qed simp
qed

text \<open>Rounds one after the other, with new descriptors that are not open.\<close>

inductive sserver_runs :: "sserver \<Rightarrow> sserver \<Rightarrow> bool" where
  no_round: "sserver_runs s s"
| one_round: "sserver_runs s t \<Longrightarrow> fresh acc t \<Longrightarrow> sserver_round (Inr r) acc t = Go u \<Longrightarrow> sserver_runs s u"

lemma sserver_runs_ok: "sserver_runs s t \<Longrightarrow> srv_ok s \<Longrightarrow> srv_ok t"
  by (induction rule: sserver_runs.induct) (use sserver_round_effect in \<open>auto simp: round_effect_def\<close>)

lemma sserver_start_ok:
  assumes "FD_SET_ok lfd" and "lfd \<in> open_fds k"
  shows "srv_ok (sserver_start lfd k)"
proof -
  have "{fd \<in> set (replicate FD_SETSIZE (- 1 :: int)). 0 \<le> fd} = {}" by auto
  then show ?thesis
    using assms by (auto simp: srv_ok_def sserver_start_def FD_SET_ok_def)
qed

text \<open>
  C19: In every round that a running server completes, every client that was ready has got back
  exactly the bytes that were read from it, or has been closed because it had sent
  everything; no other client has been touched; and a new connection has been taken up.
\<close>

theorem sserver_serves_ready:
  assumes "FD_SET_ok lfd" and "lfd \<in> open_fds k" and "sserver_runs (sserver_start lfd k) s"
    and "fresh acc s" and "sserver_round (Inr r) acc s = Go s'"
  shows "(\<forall>fd \<in> allset s - {listenfd s}. if fd \<in> r then \<exists>bs. echoed fd bs s s' else untouched fd s s') \<and>
    (listenfd s \<in> r \<longrightarrow> (\<exists>fd c. acc = Inr (fd, c) \<and> fd \<in> allset s' \<and> chans s' fd = c))"
  using sserver_round_effect [OF sserver_runs_ok [OF assms(3) sserver_start_ok [OF assms(1,2)]] assms(4,5)]
  by (simp add: round_effect_def)

text \<open>
  A running server never finds its table full. It writes outside the set exactly when
  \<open>accept\<close> returns a descriptor that the set has no bit for.
\<close>

theorem sserver_never_full:
  assumes "FD_SET_ok lfd" and "lfd \<in> open_fds k" and "sserver_runs (sserver_start lfd k) s" and "fresh acc s"
  shows "sserver_round (Inr r) acc s \<noteq> Quit ''too many clients'' s' \<and>
    (sserver_round (Inr r) acc s = Fault \<longleftrightarrow>
      listenfd s \<in> r \<and> (\<exists>fd c. acc = Inr (fd, c) \<and> int FD_SETSIZE \<le> fd))"
proof -
  have ok: "srv_ok s"
    using sserver_runs_ok [OF assms(3) sserver_start_ok [OF assms(1,2)]] .
  define s1 where "s1 = s\<lparr>rset := allset s \<inter> r\<rparr>"
  note eq = sserver_round_eq [OF ok s1_def, of acc]
  have ok1: "srv_ok s1" using ok by (simp add: s1_def)
  have msg: "scan stop sserver_ready sserver_serve is n t \<noteq> Quit ''too many clients'' s'" for stop "is" n t
    using quits_with [of stop "is" n t "''too many clients''" s'] by auto
  show ?thesis
  proof (cases "listenfd s \<in> r \<and> (\<exists>p. acc = Inr p)")
    case True
    then obtain fd c where acc: "acc = Inr (fd, c)" by auto
    then have "FD_SET_ok fd \<longleftrightarrow> \<not> int FD_SETSIZE \<le> fd"
      using assms(4) by (auto simp: fresh_def FD_SET_ok_def)
    then show ?thesis
      using sserver_add_outcome [OF ok1, of fd c] True acc eq by (auto simp: scan_no_Fault msg split: if_splits)
  next
    case False
    then show ?thesis
      using eq by (cases acc) (auto simp: scan_no_Fault msg split: if_splits)
  qed
qed


lemma first_such_replicate [simp]: "0 < n \<Longrightarrow> p x \<Longrightarrow> first_such p (replicate n x) = Some 0"
  by (cases n) auto

lemma replicate_first: "0 < n \<Longrightarrow> (replicate n x)[0 := y] = y # replicate (n - 1) x"
  by (cases n) auto

definition example_kernel :: kernel where
  "example_kernel = \<lparr>open_fds = {0, 1, 2, 3}, chans = \<lambda>_. \<lparr>cin = \<lparr>pending = [], plan = []\<rparr>,
     cout = \<lparr>written = [], wplan = [], werrno = EAGAIN\<rparr>\<rparr>\<rparr>"

definition example_chan :: chan where
  "example_chan = \<lparr>cin = \<lparr>pending = [104, 105], plan = [Chunk 0]\<rparr>, cout = \<lparr>written = [], wplan = [], werrno = EAGAIN\<rparr>\<rparr>"

lemmas server_defs = sserver_round_def sserver_start_def sserver_add_def sserver_serve_def sserver_ready_def accepted_def
  kread_def Writen_fd_def Writen_def writen_def writen_loop.simps sys_read_def sys_write_def
  FD_SET_ok_def FD_SETSIZE_def MAXLINE_def Let_def

definition example_accepted :: sserver where
  "example_accepted = \<lparr>open_fds = {0, 1, 2, 3, 4}, chans = (chans example_kernel)(4 := example_chan),
     client = 4 # replicate (FD_SETSIZE - 1) (- 1), maxi = 0, maxfd = 4, allset = {3, 4}, rset = {3}, listenfd = 3\<rparr>"

lemma example_runs: "sserver_runs (sserver_start 3 example_kernel) example_accepted"
proof (rule sserver_runs.one_round [OF sserver_runs.no_round])
  show "fresh (Inr (4, example_chan)) (sserver_start 3 example_kernel)"
    by (simp add: fresh_def sserver_start_def example_kernel_def)
  have sets: "{fd. fd = 3 \<and> fd \<in> {3} \<and> fd < 3 + 1} = {3 :: int}" by auto
  have table: "(replicate FD_SETSIZE (- 1))[0 := 4 :: int] = 4 # replicate (FD_SETSIZE - 1) (- 1)"
    by (rule replicate_first) (simp add: FD_SETSIZE_def)
  show "sserver_round (Inr {3}) (Inr (4, example_chan)) (sserver_start 3 example_kernel) = Go example_accepted"
    using table by (simp add: sserver_round_def sserver_start_def sserver_add_def accepted_def FD_SET_ok_def Let_def
      example_accepted_def example_kernel_def sets FD_SETSIZE_def insert_commute cong: conj_cong)
qed

theorem sserver_serves_ready_witness:
  "\<exists>s'. sserver_round (Inr {4}) (Inl EINTR) example_accepted = Go s' \<and> (\<exists>bs. echoed 4 bs example_accepted s')"
proof -
  have "FD_SET_ok 3" "3 \<in> open_fds example_kernel" "fresh (Inl EINTR) example_accepted"
    by (simp_all add: FD_SET_ok_def FD_SETSIZE_def example_kernel_def fresh_def)
  have "{fd. (fd = 3 \<or> fd = 4) \<and> fd = 4} = {4 :: int}" by auto
  then have "\<exists>s'. sserver_round (Inr {4}) (Inl EINTR) example_accepted = Go s'"
    by (simp add: server_defs example_accepted_def example_kernel_def example_chan_def cong: conj_cong)
  then obtain s' where s': "sserver_round (Inr {4}) (Inl EINTR) example_accepted = Go s'" ..
  have "4 \<in> allset example_accepted - {listenfd example_accepted}"
    by (simp add: example_accepted_def)
  then show ?thesis
    using sserver_serves_ready [OF \<open>FD_SET_ok 3\<close> \<open>3 \<in> open_fds _\<close> example_runs \<open>fresh _ _\<close> s'] s' by fastforce
qed

theorem sserver_never_full_witness:
  "sserver_round (Inr {3}) (Inr (1024, example_chan)) (sserver_start 3 example_kernel) = Fault"
proof -
  have "FD_SET_ok 3" "3 \<in> open_fds example_kernel" "fresh (Inr (1024, example_chan)) (sserver_start 3 example_kernel)"
    by (simp_all add: FD_SET_ok_def FD_SETSIZE_def example_kernel_def fresh_def sserver_start_def)
  then show ?thesis
    using sserver_never_full [OF _ _ sserver_runs.no_round, of 3 example_kernel "Inr (1024, example_chan)" "{3}"]
    by (auto simp: sserver_start_def FD_SETSIZE_def)
qed


section \<open>The server over \<open>poll\<close>\<close>

lemma pserver_frame:
  assumes "pserver_serve i s = Go s'" and "i \<noteq> j"
  shows "pclient s' ! j = pclient s ! j"
  using assms
  by (auto simp: pserver_serve_def pserver_drop_def kread_def Close_def Let_def dest!: Writen_fd_Go
      split: prod.splits sum.splits if_splits)

interpretation psrv: counted_scan "\<lambda>n. n \<le> 0" pserver_ready pserver_serve
  by unfold_locales (auto simp: pserver_ready_def pserver_frame)

lemma cnt_mono: "(\<And>x. x \<in> set xs \<Longrightarrow> P x \<Longrightarrow> Q x) \<Longrightarrow> cnt P xs \<le> cnt Q xs"
  by (induction xs) (auto intro: add_mono)

lemma has_flag_zero [simp]: "\<not> has_flag 0 f"
  by (simp add: has_flag_def)

text \<open>\<open>poll\<close> announces at least the clients that the scan acts on, and the listening entry.\<close>

lemma poll_count:
  assumes "Poll ev (m + 1) cs = (n, cs')" and "m < length cs" and "pclient s = cs'"
  shows "cnt (\<lambda>i. pserver_ready i s) [1..<m + 1] + (if prevents (cs' ! 0) \<noteq> 0 then 1 else 0) \<le> n"
proof -
  have len: "length cs' = length cs" and n: "n = cnt (\<lambda>c. prevents c \<noteq> 0) (take (m + 1) cs')"
    using assms(1,2) by (auto simp: Poll_def Let_def)
  have "take (m + 1) cs' = map ((!) cs') [0..<m + 1]"
    using len assms(2) by (intro nth_equalityI) (auto simp del: upt_Suc)
  then have "n = cnt (\<lambda>i. prevents (cs' ! i) \<noteq> 0) (0 # [1..<m + 1])"
    unfolding n by (simp add: cnt_map comp_def upt_conv_Cons del: upt_Suc)
  moreover have "cnt (\<lambda>i. pserver_ready i s) [1..<m + 1] \<le> cnt (\<lambda>i. prevents (cs' ! i) \<noteq> 0) [1..<m + 1]"
    by (rule cnt_mono) (use assms(3) in \<open>auto simp: pserver_ready_def\<close>)
  ultimately show ?thesis by simp
qed

text \<open>
  A round of the server over \<open>poll\<close> is the round without the count: no ready client is left
  out, also when \<open>poll\<close> reports events that the server does not look at. The entry of a new
  client has to be clean; \<open>poll\<close> has cleared it, unless it is used for the first time, when it
  holds what was in memory.
\<close>

definition clean_above :: "pserver \<Rightarrow> bool" where
  "clean_above s \<longleftrightarrow> (\<forall>i. pmaxi s < i \<longrightarrow> i < length (pclient s) \<longrightarrow> \<not> has_flag (prevents (pclient s ! i)) (POLLRDNORM OR POLLERR))"

lemma pserver_round_quiet:
  assumes "pmaxi s < length (pclient s)" and "Poll ev (pmaxi s + 1) (pclient s) = (n, cs)"
    and "\<not> has_flag (prevents (cs ! 0)) POLLRDNORM"
  shows "pserver_round (Inr ev) acc s = scan_all pserver_ready pserver_serve [1..<pmaxi s + 1] (s\<lparr>pclient := cs\<rparr>)"
proof -
  have "cnt (\<lambda>i. pserver_ready i (s\<lparr>pclient := cs\<rparr>)) [1..<pmaxi s + 1] \<le> n"
    using poll_count [OF assms(2,1), of "s\<lparr>pclient := cs\<rparr>"] by (simp split: if_splits)
  from psrv.scan_eq [OF distinct_upt this] show ?thesis
    using assms by (simp add: pserver_round_def del: upt_Suc)
qed


lemma cnt_append: "cnt P (xs @ ys) = cnt P xs + cnt P ys"
  by (induction xs) auto

text \<open>A client that has just been added is not ready in the same round.\<close>

lemma pserver_add_count:
  assumes "Poll ev (pmaxi s + 1) (pclient s) = (n, cs)" and "pmaxi s < length (pclient s)" and "clean_above s"
    and "s1 = s\<lparr>pclient := cs\<rparr>" and "pserver_add connfd (accepted connfd c s1) = Go s2"
  shows "cnt (\<lambda>i. pserver_ready i s2) [1..<pmaxi s2 + 1] \<le> cnt (\<lambda>i. pserver_ready i s1) [1..<pmaxi s + 1]"
proof -
  obtain j where j: "first_such (\<lambda>c. pfd c < 0) (tl cs) = Some j"
    and s2: "pclient s2 = cs[Suc j := (cs ! Suc j)\<lparr>pfd := connfd, pevents := POLLRDNORM\<rparr>]" "pmaxi s2 = max (pmaxi s) (Suc j)"
    using assms(4,5) by (auto simp: pserver_add_def accepted_def Let_def split: option.splits)
  have cs: "cs = map (poll_entry ev) (take (pmaxi s + 1) (pclient s)) @ drop (pmaxi s + 1) (pclient s)"
    using assms(1) by (auto simp: Poll_def Let_def)
  have free: "Suc j < length cs" "pfd (cs ! Suc j) < 0"
    using first_such_Some [OF j] by (auto simp: nth_tl)
  have low: "pserver_ready i s2 \<longrightarrow> pserver_ready i s1" if "i \<le> pmaxi s" for i
  proof -
    have "prevents (cs ! i) = 0" if "pfd (cs ! i) < 0"
      using that \<open>i \<le> pmaxi s\<close> assms(2) unfolding cs by (simp add: nth_append poll_entry_def split: if_splits)
    then show ?thesis
      using s2 free assms(4) by (auto simp: pserver_ready_def nth_list_update)
  qed
  have high: "\<not> pserver_ready i s2" if "pmaxi s < i" "i < pmaxi s2 + 1" for i
  proof -
    have "i < length cs" using that s2 free by (auto simp: max_def split: if_splits)
    then have "\<not> has_flag (prevents (cs ! i)) (POLLRDNORM OR POLLERR)"
      using that assms(2,3) unfolding cs clean_above_def by (auto simp: nth_append)
    then show ?thesis
      using s2 free by (auto simp: pserver_ready_def nth_list_update)
  qed
  have "[1..<pmaxi s2 + 1] = [1..<pmaxi s + 1] @ [pmaxi s + 1..<pmaxi s2 + 1]"
    using s2 upt_add_eq_append [of 1 "pmaxi s + 1" "pmaxi s2 - pmaxi s"] by (simp del: upt_Suc)
  moreover have "cnt (\<lambda>i. pserver_ready i s2) [pmaxi s + 1..<pmaxi s2 + 1] = 0"
    using high by (auto simp: cnt_zero_iff)
  moreover have "cnt (\<lambda>i. pserver_ready i s2) [1..<pmaxi s + 1] \<le> cnt (\<lambda>i. pserver_ready i s1) [1..<pmaxi s + 1]"
    using low by (intro cnt_mono) auto
  ultimately show ?thesis by (simp add: cnt_append)
qed

text \<open>
  C20: A round of the server over \<open>poll\<close> is the round without counting: the number of entries with
  events, at which the scan of the clients stops, leaves no client out. The entries that have
  not been used yet are taken to hold no events.
\<close>

theorem pserver_round_complete:
  assumes "pmaxi s < length (pclient s)" and "clean_above s" and "Poll ev (pmaxi s + 1) (pclient s) = (n, cs)"
  shows "pserver_round (Inr ev) acc s =
    (if has_flag (prevents (cs ! 0)) POLLRDNORM then
       (case acc of Inl e \<Rightarrow> Quit ''accept error'' (s\<lparr>pclient := cs\<rparr>)
        | Inr (connfd, c) \<Rightarrow> bind (pserver_add connfd (accepted connfd c (s\<lparr>pclient := cs\<rparr>)))
            (\<lambda>s2. scan_all pserver_ready pserver_serve [1..<pmaxi s2 + 1] s2))
     else scan_all pserver_ready pserver_serve [1..<pmaxi s + 1] (s\<lparr>pclient := cs\<rparr>))"
proof (cases "has_flag (prevents (cs ! 0)) POLLRDNORM")
  case True
  have "(if n - 1 \<le> 0 then Go s2 else scan (\<lambda>n. n \<le> 0) pserver_ready pserver_serve [1..<pmaxi s2 + 1] (n - 1) s2) =
      scan_all pserver_ready pserver_serve [1..<pmaxi s2 + 1] s2"
    if "pserver_add connfd (accepted connfd c (s\<lparr>pclient := cs\<rparr>)) = Go s2" for connfd c s2
  proof -
    have "prevents (cs ! 0) \<noteq> 0" using True by (auto simp: has_flag_def)
    then have cnt: "cnt (\<lambda>i. pserver_ready i s2) [1..<pmaxi s2 + 1] \<le> n - 1"
      using pserver_add_count [OF assms(3,1,2) refl that] poll_count [OF assms(3,1), of "s\<lparr>pclient := cs\<rparr>"] by simp
    show ?thesis
    proof (cases "n - 1 \<le> 0")
      case True
      then have "cnt (\<lambda>i. pserver_ready i s2) [1..<pmaxi s2 + 1] = 0"
        using cnt cnt_nonneg [of "\<lambda>i. pserver_ready i s2" "[1..<pmaxi s2 + 1]"] by linarith
      then show ?thesis
        using True psrv.scan_all_none [of "[1..<pmaxi s2 + 1]" s2] by (simp add: cnt_zero_iff del: upt_Suc)
    qed (use psrv.scan_eq [OF distinct_upt cnt] in \<open>simp del: upt_Suc\<close>)
  qed
  then have eq: "bind (pserver_add connfd (accepted connfd c (s\<lparr>pclient := cs\<rparr>)))
      (\<lambda>s2. if n - 1 \<le> 0 then Go s2 else scan (\<lambda>n. n \<le> 0) pserver_ready pserver_serve [1..<pmaxi s2 + 1] (n - 1) s2) =
      bind (pserver_add connfd (accepted connfd c (s\<lparr>pclient := cs\<rparr>)))
      (\<lambda>s2. scan_all pserver_ready pserver_serve [1..<pmaxi s2 + 1] s2)" for connfd c
    by (cases "pserver_add connfd (accepted connfd c (s\<lparr>pclient := cs\<rparr>))") (simp_all del: upt_Suc)
  show ?thesis
    unfolding pserver_round_def assms(3) Let_def sum.case prod.case eq using True by (simp del: upt_Suc)
qed (use pserver_round_quiet [OF assms(1,3)] in simp)

text \<open>
  What the memory of the table holds decides otherwise: a client that hangs up without being
  readable is announced but not served, the scan goes on to the new entry, and the server
  reads from a connection that is not ready, which blocks it.
\<close>

definition stale_server :: pserver where
  "stale_server = \<lparr>open_fds = {0, 1, 2, 3, 4}, chans = chans example_kernel,
     pclient = [\<lparr>pfd = 3, pevents = POLLRDNORM, prevents = 0\<rparr>, \<lparr>pfd = 4, pevents = POLLRDNORM, prevents = 0\<rparr>,
                \<lparr>pfd = - 1, pevents = 0, prevents = POLLRDNORM\<rparr>], pmaxi = 1\<rparr>"

lemma pserver_reads_unready:
  "let evs = (\<lambda>fd. if fd = 3 then POLLRDNORM else if fd = 4 then POLLHUP else 0)
   in \<exists>s'. pserver_round (Inr evs) (Inr (5, example_chan)) stale_server = Go s' \<and> chans s' 5 \<noteq> example_chan"
  by (simp add: pserver_round_def stale_server_def Poll_def poll_entry_def POLLRDNORM_def POLLERR_def POLLHUP_def POLLNVAL_def
      has_flag_def accepted_def pserver_add_def pserver_ready_def pserver_serve_def kread_def sys_read_def Writen_fd_def Writen_def
      writen_def writen_loop.simps sys_write_def example_chan_def example_kernel_def MAXLINE_def upt_rec Let_def)

theorem pserver_round_complete_witness:
  "\<exists>s'. pserver_round (Inr (\<lambda>fd. POLLRDNORM)) (Inl EINTR)
      (stale_server\<lparr>pclient := [\<lparr>pfd = 3, pevents = 0, prevents = 0\<rparr>, \<lparr>pfd = 4, pevents = POLLRDNORM, prevents = 0\<rparr>]\<rparr>) = Go s' \<and>
    4 \<notin> open_fds s'"
proof -
  let ?s = "stale_server\<lparr>pclient := [\<lparr>pfd = 3, pevents = 0, prevents = 0\<rparr>, \<lparr>pfd = 4, pevents = POLLRDNORM, prevents = 0\<rparr>]\<rparr>"
  have poll: "Poll (\<lambda>fd. POLLRDNORM) (pmaxi ?s + 1) (pclient ?s) =
      (1, [\<lparr>pfd = 3, pevents = 0, prevents = 0\<rparr>, \<lparr>pfd = 4, pevents = POLLRDNORM, prevents = POLLRDNORM\<rparr>])"
    by (simp add: stale_server_def Poll_def poll_entry_def POLLRDNORM_def POLLERR_def POLLHUP_def POLLNVAL_def)
  have "pmaxi ?s < length (pclient ?s)" "clean_above ?s"
    by (simp_all add: stale_server_def clean_above_def)
  from pserver_round_complete [OF this poll, of "Inl EINTR"] show ?thesis
    by (simp add: stale_server_def POLLRDNORM_def POLLERR_def has_flag_def pserver_ready_def pserver_serve_def kread_def
        sys_read_def pserver_drop_def Close_def example_kernel_def MAXLINE_def upt_rec Let_def)
qed

end
