(* ===== verification/Pool_Props.thy ===== *)
theory Pool_Props
  imports Pool Fdserver_Props
begin

text \<open>
  The pool of processes: the parent always finds a free child for a connection it has
  accepted, no child has two connections, and every connection accepted is handled by one
  child, or lost with it.
\<close>

section \<open>The invariant\<close>

text \<open>
  What a child owes: descriptors on the way, the one it serves, and bytes on the way back. A
  child that the table shows as free owes nothing, one that it shows as busy one thing, unless
  it has died.
\<close>

definition owes :: "cproc \<Rightarrow> nat" where
  "owes p = length (to_child p) + (if serving p = None then 0 else 1) + from_child p"

definition child_ok :: "child \<Rightarrow> cproc \<Rightarrow> bool" where
  "child_ok c p \<longleftrightarrow> (child_status c = 0 \<and> owes p = 0 \<or> child_status c = 1 \<and> owes p = 1 \<or> child_status c = 1 \<and> \<not> alive p \<and> owes p = 0) \<and>
     (alive p \<or> to_child p = [] \<and> serving p = None)"

definition on_hand :: "cproc \<Rightarrow> int multiset" where
  "on_hand p = mset (child_holds p)"

definition pool_ok :: "pool \<Rightarrow> bool" where
  "pool_ok s \<longleftrightarrow> length (procs s) = length (cptr s) \<and>
     list_all2 child_ok (cptr s) (procs s) \<and>
     navail s = cnt (\<lambda>c. child_status c = 0) (cptr s) \<and>
     distinct (map child_pipefd (cptr s)) \<and> poolfd s \<notin> set (map child_pipefd (cptr s)) \<and>
     masterset s = insert (poolfd s) (set (map child_pipefd (cptr s))) \<and>
     (\<forall>fd \<in> masterset s. fd \<le> poolmax s) \<and>
     mset (taken s) = mset (handled s) + mset (lost s) + sum_list (map on_hand (procs s)) \<and>
     int (length (lost s)) \<le> cnt (\<lambda>p. \<not> alive p) (procs s) \<and>
     sum_list (map child_count (cptr s)) = int (length (taken s))"

lemma pool_back_frame: "pool_back i s = Go s' \<Longrightarrow> i \<noteq> j \<Longrightarrow> pool_ready j s' \<longleftrightarrow> pool_ready j s"
  by (auto simp: pool_back_def pool_ready_def split: if_splits)

interpretation pool: counted_scan "\<lambda>n. n = 0" pool_ready pool_back
  by unfold_locales (auto simp: pool_back_frame)

lemma pool_ok_child: "pool_ok s \<Longrightarrow> i < length (cptr s) \<Longrightarrow> child_ok (cptr s ! i) (procs s ! i)"
  unfolding pool_ok_def by (blast intro: list_all2_nthD)

lemma pipe_fd:
  assumes "pool_ok s" and "i < length (cptr s)"
  shows "child_pipefd (cptr s ! i) \<noteq> poolfd s" and "child_pipefd (cptr s ! i) \<in> masterset s"
proof -
  have "child_pipefd (cptr s ! i) \<in> set (map child_pipefd (cptr s))"
    using assms(2) by simp
  then show "child_pipefd (cptr s ! i) \<noteq> poolfd s" and "child_pipefd (cptr s ! i) \<in> masterset s"
    using assms(1) unfolding pool_ok_def by (metis, blast)
qed

lemma pool_pass_ok:
  assumes "pool_ok s" and "pool_pass connfd s = Go s'"
  shows "pool_ok s' \<and> poolset s' = poolset s \<and> length (cptr s') = length (cptr s) \<and>
    map child_pipefd (cptr s') = map child_pipefd (cptr s) \<and> poolfd s' = poolfd s \<and>
    (\<forall>j < length (cptr s). from_child (procs s' ! j) = from_child (procs s ! j) \<and> alive (procs s' ! j) = alive (procs s ! j))"
proof -
  obtain i where i: "first_such (\<lambda>c. child_status c = 0) (cptr s) = Some i"
    and s': "s' = s\<lparr>taken := taken s @ [connfd],
      cptr := (cptr s)[i := (cptr s ! i)\<lparr>child_status := 1, child_count := child_count (cptr s ! i) + 1\<rparr>],
      navail := navail s - 1,
      procs := (procs s)[i := (procs s ! i)\<lparr>to_child := to_child (procs s ! i) @ [connfd]\<rparr>]\<rparr>"
    and up: "alive (procs s ! i)"
    using assms(2) by (auto simp: pool_pass_def Let_def split: option.splits if_splits)
  have i': "i < length (cptr s)" "child_status (cptr s ! i) = 0" "i < length (procs s)"
    using first_such_Some [OF i] assms(1) by (auto simp: pool_ok_def)
  then have free: "to_child (procs s ! i) = []" "serving (procs s ! i) = None" "from_child (procs s ! i) = 0"
    using pool_ok_child [OF assms(1), of i] by (auto simp: child_ok_def owes_def split: if_splits)
  have pipes: "map child_pipefd (cptr s') = map child_pipefd (cptr s)"
    unfolding s' by (simp add: map_update_same)
  have "list_all2 child_ok (cptr s') (procs s')"
    using assms(1) free up unfolding s' pool_ok_def
    by (auto intro!: list_all2_update_cong simp: child_ok_def owes_def)
  moreover have "cnt (\<lambda>p. \<not> alive p) (procs s') = cnt (\<lambda>p. \<not> alive p) (procs s)"
    using i'(3) up unfolding s' by (simp add: cnt_update)
  moreover have "navail s' = cnt (\<lambda>c. child_status c = 0) (cptr s')"
    using assms(1) i' unfolding s' pool_ok_def by (simp add: cnt_update)
  moreover have "mset (taken s') = mset (handled s') + mset (lost s') + sum_list (map on_hand (procs s'))"
  proof -
    have "sum_list (map on_hand (procs s')) = sum_list (map on_hand (procs s)) + {#connfd#}"
      using sum_list_update_cancel [OF i'(3), of on_hand "(procs s ! i)\<lparr>to_child := [connfd]\<rparr>"] free
      unfolding s' by (simp add: on_hand_def child_holds_def)
    then show ?thesis using assms(1) unfolding s' pool_ok_def by simp
  qed
  moreover have "sum_list (map child_count (cptr s')) = int (length (taken s'))"
    using assms(1) i' unfolding s' pool_ok_def by (simp add: sum_left_update)
  ultimately have "pool_ok s'"
    using assms(1) pipes unfolding pool_ok_def by (simp add: s')
  moreover have "from_child (procs s' ! j) = from_child (procs s ! j) \<and> alive (procs s' ! j) = alive (procs s ! j)" for j
    using i'(3) unfolding s' by (cases "j = i") (auto simp: nth_list_update)
  ultimately show ?thesis
    using pipes unfolding s' by simp
qed

lemma pool_back_ok:
  assumes "pool_ok s" and "i < length (cptr s)" and "pool_back i s = Go s'"
  shows "pool_ok s' \<and> poolset s' = poolset s \<and> length (cptr s') = length (cptr s) \<and>
    map child_pipefd (cptr s') = map child_pipefd (cptr s) \<and> child_status (cptr s' ! i) = 0 \<and>
    (\<forall>j. j \<noteq> i \<longrightarrow> cptr s' ! j = cptr s ! j \<and> procs s' ! j = procs s ! j)"
proof -
  have s': "s' = s\<lparr>procs := (procs s)[i := (procs s ! i)\<lparr>from_child := from_child (procs s ! i) - 1\<rparr>],
      cptr := (cptr s)[i := (cptr s ! i)\<lparr>child_status := 0\<rparr>], navail := navail s + 1\<rparr>"
    and byte: "0 < from_child (procs s ! i)"
    using assms(3) by (auto simp: pool_back_def split: if_splits)
  have i': "i < length (procs s)"
    using assms(1,2) by (simp add: pool_ok_def)
  have busy: "child_status (cptr s ! i) = 1" "owes (procs s ! i) = 1" "from_child (procs s ! i) = 1"
    using pool_ok_child [OF assms(1,2)] byte by (auto simp: child_ok_def owes_def split: if_splits)
  have pipes: "map child_pipefd (cptr s') = map child_pipefd (cptr s)"
    unfolding s' by (simp add: map_update_same)
  have counts: "map child_count (cptr s') = map child_count (cptr s)" "map on_hand (procs s') = map on_hand (procs s)"
    unfolding s' by (simp_all add: map_update_same on_hand_def child_holds_def)
  have dead: "cnt (\<lambda>p. \<not> alive p) (procs s') = cnt (\<lambda>p. \<not> alive p) (procs s)"
    using i' unfolding s' by (simp add: cnt_update)
  have keep: "alive (procs s ! i) \<or> to_child (procs s ! i) = [] \<and> serving (procs s ! i) = None"
    using pool_ok_child [OF assms(1,2)] by (simp add: child_ok_def)
  have "list_all2 child_ok (cptr s') (procs s')"
    using assms(1) busy keep unfolding s' pool_ok_def
    by (auto intro!: list_all2_update_cong simp: child_ok_def owes_def split: if_splits)
  moreover have "navail s' = cnt (\<lambda>c. child_status c = 0) (cptr s')"
    using assms(1,2) busy unfolding s' pool_ok_def by (simp add: cnt_update)
  ultimately have "pool_ok s'"
    using assms(1) pipes counts dead unfolding pool_ok_def by (simp add: s')
  then show ?thesis
    using pipes assms(2) unfolding s' by simp
qed

section \<open>Rounds\<close>

text \<open>A scan of the children: all that are ready are free afterwards.\<close>

lemma pool_scan_ok:
  assumes "scan_all pool_ready pool_back is s = Go s'" and "pool_ok s" and "distinct is" and "set is \<subseteq> {..<length (cptr s)}"
  shows "pool_ok s' \<and> poolset s' = poolset s \<and> map child_pipefd (cptr s') = map child_pipefd (cptr s) \<and>
    (\<forall>i \<in> set is. pool_ready i s \<longrightarrow> child_status (cptr s' ! i) = 0) \<and>
    (\<forall>i. i \<notin> set is \<longrightarrow> cptr s' ! i = cptr s ! i)"
  using assms
proof (induction "is" arbitrary: s)
  case (Cons i "is")
  show ?case
  proof (cases "pool_ready i s")
    case True
    then obtain t where t: "pool_back i s = Go t" and u: "scan_all pool_ready pool_back is t = Go s'"
      using Cons.prems(1) by (cases "pool_back i s") auto
    note freed = pool_back_ok [OF Cons.prems(2) _ t]
    have "pool_ok s' \<and> poolset s' = poolset t \<and> map child_pipefd (cptr s') = map child_pipefd (cptr t) \<and>
      (\<forall>i \<in> set is. pool_ready i t \<longrightarrow> child_status (cptr s' ! i) = 0) \<and> (\<forall>i. i \<notin> set is \<longrightarrow> cptr s' ! i = cptr t ! i)"
      using Cons.IH [OF u] freed Cons.prems(3,4) by simp
    moreover have "pool_ready j t \<longleftrightarrow> pool_ready j s" if "j \<in> set is" for j
      using pool_back_frame [OF t, of j] Cons.prems(3) that by auto
    ultimately show ?thesis
      using freed Cons.prems(3,4) by auto
  qed (use Cons in auto)
qed simp

lemma pool_ready_count:
  assumes "pool_ok s" and "poolset s \<subseteq> masterset s"
  shows "cnt (\<lambda>i. pool_ready i s) [0..<length (cptr s)] = int (card (poolset s - {poolfd s}))"
proof -
  let ?pipe = "\<lambda>i. child_pipefd (cptr s ! i)"
  let ?I = "{i. i < length (cptr s) \<and> pool_ready i s}"
  have "inj_on ?pipe ?I"
    using assms(1) by (auto simp: inj_on_def pool_ok_def distinct_conv_nth)
  moreover have "?pipe ` ?I = poolset s - {poolfd s}"
  proof (intro equalityI subsetI)
    fix fd assume fd: "fd \<in> poolset s - {poolfd s}"
    then have "fd \<in> set (map child_pipefd (cptr s))"
      using assms unfolding pool_ok_def by blast
    then obtain i where "i < length (cptr s)" "?pipe i = fd"
      by (auto simp: in_set_conv_nth)
    then show "fd \<in> ?pipe ` ?I"
      using fd by (auto simp: pool_ready_def)
  next
    fix fd assume "fd \<in> ?pipe ` ?I"
    then obtain i where "i < length (cptr s)" "?pipe i = fd" "fd \<in> poolset s"
      by (auto simp: pool_ready_def)
    then show "fd \<in> poolset s - {poolfd s}"
      using pipe_fd(1) [OF assms(1)] by auto
  qed
  ultimately have "card ?I = card (poolset s - {poolfd s})"
    using card_image by fastforce
  moreover have "set (filter (\<lambda>i. pool_ready i s) [0..<length (cptr s)]) = ?I" by auto
  ultimately show ?thesis
    unfolding cnt_def by (metis distinct_card distinct_filter distinct_upt)
qed


lemma pool_children_ok:
  assumes "pool_ok s" and "poolset s \<subseteq> masterset s" and "n = int (card (poolset s - {poolfd s}))"
    and "scan (\<lambda>n. n = 0) pool_ready pool_back [0..<length (cptr s)] n s = Go s'"
  shows "pool_ok s' \<and> map child_pipefd (cptr s') = map child_pipefd (cptr s) \<and>
    (\<forall>i < length (cptr s). child_pipefd (cptr s ! i) \<in> poolset s \<longrightarrow> child_status (cptr s' ! i) = 0)"
proof -
  have "scan_all pool_ready pool_back [0..<length (cptr s)] s = Go s'"
    using pool.scan_eq [of "[0..<length (cptr s)]" s n] assms(3,4) pool_ready_count [OF assms(1,2)] by simp
  moreover have "set [0..<length (cptr s)] \<subseteq> {..<length (cptr s)}" by auto
  ultimately show ?thesis
    using pool_scan_ok [OF _ assms(1) distinct_upt] by (simp add: pool_ready_def)
qed

lemma pool_ok_poolset [simp]: "pool_ok (s\<lparr>poolset := r\<rparr>) = pool_ok s"
  by (simp add: pool_ok_def)

lemma pool_masterset: "pool_ok s \<Longrightarrow> masterset s = insert (poolfd s) (set (map child_pipefd (cptr s)))"
  by (simp add: pool_ok_def)

text \<open>The set the parent waits for, cut down to what is ready.\<close>

definition selected :: "int set \<Rightarrow> pool \<Rightarrow> int set" where
  "selected r s = (if navail s \<le> 0 then masterset s - {poolfd s} else masterset s) \<inter> r"

lemma selected_eq:
  "pool_ok s \<Longrightarrow> {fd \<in> (if navail s \<le> 0 then masterset s - {poolfd s} else masterset s) \<inter> r. fd < poolmax s + 1} = selected r s"
  unfolding selected_def pool_ok_def by auto

lemma pool_round_eq:
  assumes "pool_ok s" and "s1 = s\<lparr>poolset := selected r s\<rparr>"
  shows "pool_round (Inr r) acc s =
    (if poolfd s \<in> selected r s then (case acc of Inl e \<Rightarrow> Quit ''accept error'' s1
       | Inr connfd \<Rightarrow> bind (pool_pass connfd s1)
           (\<lambda>s2. if int (card (poolset s1)) - 1 = 0 then Go s2
             else scan (\<lambda>n. n = 0) pool_ready pool_back [0..<length (cptr s2)] (int (card (poolset s1)) - 1) s2))
     else scan (\<lambda>n. n = 0) pool_ready pool_back [0..<length (cptr s1)] (int (card (poolset s1))) s1)"
  unfolding pool_round_def sum.case Let_def selected_eq [OF assms(1)] assms(2) by simp

lemma pool_round_ok:
  assumes "pool_ok s" and "pool_round (Inr r) acc s = Go s'"
  shows "pool_ok s' \<and> map child_pipefd (cptr s') = map child_pipefd (cptr s) \<and>
    (\<forall>i < length (cptr s). child_pipefd (cptr s ! i) \<in> r \<longrightarrow> child_status (cptr s' ! i) = 0)"
proof -
  define s1 where "s1 = s\<lparr>poolset := selected r s\<rparr>"
  note eq = pool_round_eq [OF assms(1) s1_def, of acc]
  have ok1: "pool_ok s1" and sub1: "poolset s1 \<subseteq> masterset s1" and same: "cptr s1 = cptr s"
    using assms(1) by (auto simp: s1_def selected_def)
  have fin: "finite (poolset s1)"
    using finite_subset [OF sub1] pool_masterset [OF ok1] by simp
  have asked: "child_pipefd (cptr s ! i) \<in> poolset s1 \<longleftrightarrow> child_pipefd (cptr s ! i) \<in> r" if "i < length (cptr s)" for i
    using pipe_fd [OF assms(1) that] by (auto simp: s1_def selected_def)
  show ?thesis
  proof (cases "poolfd s \<in> selected r s")
    case False
    then have "poolset s1 - {poolfd s1} = poolset s1"
      by (auto simp: s1_def)
    then show ?thesis
      using pool_children_ok [OF ok1 sub1, of "int (card (poolset s1))" s'] assms(2) eq False asked same by simp
  next
    case True
    then obtain connfd s2 where s2: "pool_pass connfd s1 = Go s2"
      and rest: "(if int (card (poolset s1)) - 1 = 0 then Go s2
        else scan (\<lambda>n. n = 0) pool_ready pool_back [0..<length (cptr s2)] (int (card (poolset s1)) - 1) s2) = Go s'"
      using assms(2) eq by (cases acc; cases "pool_pass (projr acc) s1") auto
    note pass = pool_pass_ok [OF ok1 s2]
    have "poolfd s1 \<in> poolset s1" using True by (simp add: s1_def)
    then have n: "int (card (poolset s1)) - 1 = int (card (poolset s2 - {poolfd s2}))"
      using pass card_Suc_Diff1 [OF fin, of "poolfd s1", symmetric] by simp
    have sub2: "poolset s2 \<subseteq> masterset s2"
      using pass sub1 pool_masterset [of s2] pool_masterset [OF ok1] by simp
    have pipe: "child_pipefd (cptr s2 ! i) = child_pipefd (cptr s ! i)" if "i < length (cptr s)" for i
      using pass same that by (metis nth_map)
    show ?thesis
    proof (cases "int (card (poolset s1)) - 1 = 0")
      case True
      then have "poolset s2 - {poolfd s2} = {}"
        using n fin pass by (simp add: card_eq_0_iff)
      then have "child_pipefd (cptr s ! i) \<notin> poolset s1" if "i < length (cptr s)" for i
        using pass pipe_fd(1) [OF assms(1) that] by (auto simp: s1_def)
      then show ?thesis
        using True rest pass same asked by simp
    next
      case False
      then show ?thesis
        using pool_children_ok [OF _ sub2 n, of s'] rest pass same asked pipe by simp
    qed
  qed
qed


section \<open>Reachable states\<close>

lemma pool_start_ok:
  assumes "pool_start lfd kids = Go s" and "distinct (map snd kids)" and "lfd \<notin> snd ` set kids"
  shows "pool_ok s"
proof -
  have s: "s = \<lparr>cptr = map child_make kids, navail = int (length kids),
     masterset = insert lfd (snd ` set kids), poolmax = fold max (map snd kids) lfd, poolset = {}, poolfd = lfd,
     procs = replicate (length kids) \<lparr>to_child = [], serving = None, from_child = 0, alive = True\<rparr>,
     taken = [], handled = [], lost = []\<rparr>"
    using assms(1) by (auto simp: pool_start_def split: if_splits)
  have pipes: "map child_pipefd (map child_make kids) = map snd kids"
    by (simp add: child_make_def)
  have fold_max: "x \<le> fold max xs x \<and> (\<forall>y \<in> set xs. y \<le> fold max xs x)" for x :: int and xs
  proof (induction xs arbitrary: x)
    case (Cons z zs)
    then show ?case using Cons [of "max z x"] by fastforce
  qed simp
  have "list_all2 child_ok (map child_make kids)
      (replicate (length kids) \<lparr>to_child = [], serving = None, from_child = 0, alive = True\<rparr>)"
    by (auto simp: list_all2_conv_all_nth child_ok_def child_make_def owes_def)
  moreover have "cnt (\<lambda>c. child_status c = 0) (map child_make kids) = int (length kids)"
    by (simp add: cnt_def child_make_def filter_map comp_def)
  moreover have "sum_list (map on_hand (replicate n \<lparr>to_child = [], serving = None, from_child = 0, alive = True\<rparr>)) = {#}" for n
    by (induction n) (auto simp: on_hand_def child_holds_def)
  moreover have "sum_list (map child_count (map child_make kids)) = 0"
    by (induction kids) (auto simp: child_make_def)
  ultimately show ?thesis
    using assms(2,3) fold_max [of lfd "map snd kids"]
    unfolding pool_ok_def s pool.select_convs pipes by (simp add: cnt_def)
qed

lemma pool_ok_procs:
  assumes "pool_ok s" and "i < length (procs s)" and "owes p = owes (procs s ! i)"
    and up: "alive p" "alive (procs s ! i)" and held: "mset h + on_hand p = on_hand (procs s ! i)"
  shows "pool_ok (s\<lparr>procs := (procs s)[i := p], handled := handled s @ h\<rparr>)"
proof -
  have "list_all2 child_ok (cptr s) ((procs s)[i := p])"
  proof -
    have "child_ok (cptr s ! i) p"
      using pool_ok_child [OF assms(1), of i] assms(1-3) up by (simp add: child_ok_def pool_ok_def)
    then have "list_all2 child_ok ((cptr s)[i := cptr s ! i]) ((procs s)[i := p])"
      using assms(1) unfolding pool_ok_def by (blast intro: list_all2_update_cong)
    then show ?thesis by simp
  qed
  moreover have "mset h + sum_list (map on_hand ((procs s)[i := p])) = sum_list (map on_hand (procs s))"
  proof -
    have "(mset h + sum_list (map on_hand ((procs s)[i := p]))) + on_hand p = sum_list (map on_hand (procs s)) + on_hand p"
      using sum_list_update_cancel [OF assms(2), of on_hand p] unfolding held [symmetric] by (simp only: ac_simps)
    then show ?thesis by (rule add_right_imp_eq)
  qed
  moreover have "cnt (\<lambda>p. \<not> alive p) ((procs s)[i := p]) = cnt (\<lambda>p. \<not> alive p) (procs s)"
    using assms(2) up by (simp add: cnt_update)
  ultimately show ?thesis
    using assms(1) unfolding pool_ok_def by (simp add: ac_simps)
qed

lemma pool_ok_dies:
  assumes "pool_ok s" and "i < length (procs s)" and "alive (procs s ! i)"
  shows "pool_ok (s\<lparr>procs := (procs s)[i := child_dies (procs s ! i)], lost := lost s @ child_holds (procs s ! i)\<rparr>)"
proof -
  let ?p = "child_dies (procs s ! i)"
  have c: "child_ok (cptr s ! i) (procs s ! i)" using pool_ok_child [OF assms(1), of i] assms(1,2) by (simp add: pool_ok_def)
  then have "child_ok (cptr s ! i) ?p"
    by (auto simp: child_ok_def owes_def child_dies_def split: if_splits)
  then have "list_all2 child_ok ((cptr s)[i := cptr s ! i]) ((procs s)[i := ?p])"
    using assms(1) unfolding pool_ok_def by (blast intro: list_all2_update_cong)
  then have "list_all2 child_ok (cptr s) ((procs s)[i := ?p])" by simp
  moreover have "mset (child_holds (procs s ! i)) + sum_list (map on_hand ((procs s)[i := ?p])) = sum_list (map on_hand (procs s))"
    using sum_list_update_cancel [OF assms(2), of on_hand ?p] by (simp add: on_hand_def child_holds_def child_dies_def ac_simps)
  moreover have "length (child_holds (procs s ! i)) \<le> 1"
    using c by (auto simp: child_ok_def owes_def child_holds_def split: if_splits option.splits)
  moreover have "cnt (\<lambda>p. \<not> alive p) ((procs s)[i := ?p]) = cnt (\<lambda>p. \<not> alive p) (procs s) + 1"
    using assms(2,3) by (simp add: cnt_update child_dies_def)
  ultimately show ?thesis
    using assms(1) unfolding pool_ok_def by (simp add: ac_simps)
qed

lemma pool_step_ok: "pool_step s s' \<Longrightarrow> pool_ok s \<Longrightarrow> pool_ok s'"
proof (induction rule: pool_step.induct)
  case (parent r s acc s')
  then show ?case using pool_round_ok by blast
next
  case (takes i s p)
  then have "owes p = owes (procs s ! i)" "on_hand p = on_hand (procs s ! i)"
    and "alive p" "alive (procs s ! i)"
    by (auto simp: child_takes_def owes_def on_hand_def child_holds_def split: option.splits list.splits bool.splits)
  then show ?case using pool_ok_procs [of s i p "[]"] takes by simp
next
  case (finishes i s fd p)
  then have "owes p = owes (procs s ! i)" "mset [fd] + on_hand p = on_hand (procs s ! i)"
    and "alive p" "alive (procs s ! i)"
    by (auto simp: child_done_def owes_def on_hand_def child_holds_def split: option.splits bool.splits)
  then show ?case using pool_ok_procs [of s i p "[fd]"] finishes by simp
next
  case (dies i s)
  then show ?case using pool_ok_dies by blast
qed

lemma pool_reachable_ok:
  "pool_step\<^sup>*\<^sup>* s0 s \<Longrightarrow> pool_start lfd kids = Go s0 \<Longrightarrow> distinct (map snd kids) \<Longrightarrow> lfd \<notin> snd ` set kids \<Longrightarrow> pool_ok s"
  by (induction rule: rtranclp_induct) (auto simp: pool_start_ok pool_step_ok)

text \<open>
  C21: However the children run and die, as long as all descriptors fit into an \<open>fd_set\<close>, \<open>navail\<close> is
  the number of children that the table shows as free, every child has at most one connection
  and a dead one none, every connection accepted has been handled, is on its way to or with
  one child, or was lost with a child that died, at most one for each dead child, and the
  counts of the children add up to the number of connections.
\<close>

theorem pool_accounts:
  assumes "pool_step\<^sup>*\<^sup>* s0 s" and "pool_start lfd kids = Go s0" and "distinct (map snd kids)" and "lfd \<notin> snd ` set kids"
  shows "navail s = cnt (\<lambda>c. child_status c = 0) (cptr s) \<and>
    (\<forall>p \<in> set (procs s). length (child_holds p) \<le> (if alive p then 1 else 0)) \<and>
    mset (taken s) = mset (handled s) + mset (lost s) + sum_list (map (\<lambda>p. mset (child_holds p)) (procs s)) \<and>
    int (length (lost s)) \<le> cnt (\<lambda>p. \<not> alive p) (procs s) \<and>
    sum_list (map child_count (cptr s)) = int (length (taken s))"
proof -
  have ok: "pool_ok s" using pool_reachable_ok [OF assms] .
  have "length (child_holds p) \<le> (if alive p then 1 else 0)" if mem: "p \<in> set (procs s)" for p
  proof -
    have "length (procs s) = length (cptr s)"
      using ok unfolding pool_ok_def by blast
    then obtain i where "i < length (cptr s)" "procs s ! i = p"
      using mem by (auto simp: in_set_conv_nth)
    then have "child_ok (cptr s ! i) p" using pool_ok_child [OF ok, of i] by simp
    then show ?thesis by (auto simp: child_ok_def owes_def child_holds_def split: option.splits if_splits)
  qed
  moreover have "on_hand = (\<lambda>p. mset (child_holds p))" by (simp add: on_hand_def fun_eq_iff)
  ultimately show ?thesis using ok unfolding pool_ok_def by simp
qed

text \<open>
  The parent never finds all children busy after it has accepted a connection, and a round
  that ends normally has freed every child whose pipe was readable.
\<close>

theorem pool_never_short:
  assumes "pool_step\<^sup>*\<^sup>* s0 s" and "pool_start lfd kids = Go s0" and "distinct (map snd kids)" and "lfd \<notin> snd ` set kids"
  shows "pool_round (Inr r) acc s \<noteq> Quit ''no available children'' t \<and>
    (pool_round (Inr r) acc s = Go s' \<longrightarrow>
      (\<forall>i < length (cptr s). child_pipefd (cptr s ! i) \<in> r \<longrightarrow> child_status (cptr s' ! i) = 0))"
proof -
  have ok: "pool_ok s" using pool_reachable_ok [OF assms] .
  define s1 where "s1 = s\<lparr>poolset := selected r s\<rparr>"
  note eq = pool_round_eq [OF ok s1_def, of acc]
  have msg: "scan stop pool_ready pool_back is n u \<noteq> Quit ''no available children'' t" for stop "is" n u
    by (induction "is" arbitrary: n u) (auto simp: pool_back_def)
  have "pool_pass fd s1 \<noteq> Quit ''no available children'' t" if "poolfd s \<in> selected r s" for fd
  proof -
    have "0 < cnt (\<lambda>c. child_status c = 0) (cptr s)"
      using that ok by (auto simp: selected_def pool_ok_def split: if_splits)
    then obtain i where "first_such (\<lambda>c. child_status c = 0) (cptr s) = Some i"
      using first_such_None [of "\<lambda>c. child_status c = 0" "cptr s"] by (auto simp: cnt_pos_iff)
    then show ?thesis by (simp add: pool_pass_def s1_def Let_def)
  qed
  then have "bind (pool_pass fd s1) f \<noteq> Quit ''no available children'' t"
    if "poolfd s \<in> selected r s" "\<And>u. f u \<noteq> Quit ''no available children'' t" for fd f
    using that by (cases "pool_pass fd s1") auto
  then have "pool_round (Inr r) acc s \<noteq> Quit ''no available children'' t"
    using eq msg by (cases acc) (simp_all split: if_split)
  then show ?thesis
    using pool_round_ok [OF ok, of r acc s'] by blast
qed

definition example_kids :: "(int \<times> int) list" where "example_kids = [(100, 5), (101, 6)]"

lemma all_less_two: "(\<forall>i < Suc (Suc 0). P i) \<longleftrightarrow> P 0 \<and> P (Suc 0)"
  by (auto simp: All_less_Suc)

definition kid :: "cproc" where
  "kid = \<lparr>to_child = [], serving = None, from_child = 0, alive = True\<rparr>"

definition pool05_at :: "child list \<Rightarrow> int \<Rightarrow> int set \<Rightarrow> cproc list \<Rightarrow> int list \<Rightarrow> int list \<Rightarrow> int list \<Rightarrow> pool" where
  "pool05_at cs n ps pr t h l = \<lparr>cptr = cs, navail = n, masterset = {3, 5, 6}, poolmax = 6, poolset = ps, poolfd = 3, procs = pr,
     taken = t, handled = h, lost = l\<rparr>"

lemma example_start: "pool_start 3 example_kids = Go (pool05_at [child_make (100, 5), child_make (101, 6)] 2 {} [kid, kid] [] [] [])"
  by (simp add: pool_start_def example_kids_def pool05_at_def kid_def FD_SET_ok_def FD_SETSIZE_def numeral_2_eq_2)

lemma example_accepts:
  assumes "0 < n" and "length pr = length cs" and "first_such (\<lambda>c. child_status c = 0) cs = Some i" and "alive (pr ! i)"
  shows "pool_round (Inr {3}) (Inr fd) (pool05_at cs n ps pr t h l) =
    Go (pool05_at (cs[i := (cs ! i)\<lparr>child_status := 1, child_count := child_count (cs ! i) + 1\<rparr>]) (n - 1) {3}
      (pr[i := (pr ! i)\<lparr>to_child := to_child (pr ! i) @ [fd]\<rparr>]) (t @ [fd]) h l)"
proof -
  have "{fd. fd = 3 \<and> (fd = 3 \<or> fd = 5 \<or> fd = 6) \<and> fd < 7} = {3 :: int}" by auto
  then show ?thesis using assms by (simp add: pool_round_def pool05_at_def pool_pass_def Let_def)
qed

text \<open>
  A run: the connection 7 goes to the first child, which takes it and dies; 8 goes to the second
  child, which serves it.
\<close>

lemma example_run:
  "\<exists>s. pool_step\<^sup>*\<^sup>* (pool05_at [child_make (100, 5), child_make (101, 6)] 2 {} [kid, kid] [] [] []) s \<and>
     taken s = [7, 8] \<and> handled s = [8] \<and> lost s = [7] \<and> navail s = 0"
proof -
  let ?c = "\<lambda>i f n. \<lparr>child_pid = i, child_pipefd = f, child_status = n, child_count = n\<rparr> :: child"
  let ?d = "child_dies kid"
  have "pool_step (pool05_at [child_make (100, 5), child_make (101, 6)] 2 {} [kid, kid] [] [] [])
      (pool05_at [?c 100 5 1, ?c 101 6 0] 1 {3} [kid\<lparr>to_child := [7]\<rparr>, kid] [7] [] [])"
    by (rule parent [of "{3}" _ "Inr 7"], simp add: pool_legal_def pool05_at_def child_make_def all_less_two)
      (simp add: example_accepts [of 2 _ _ 0] child_make_def kid_def)
  moreover have "pool_step \<dots> (pool05_at [?c 100 5 1, ?c 101 6 0] 1 {3} [kid\<lparr>serving := Some 7\<rparr>, kid] [7] [] [])"
    using takes [of 0 "pool05_at [?c 100 5 1, ?c 101 6 0] 1 {3} [kid\<lparr>to_child := [7]\<rparr>, kid] [7] [] []"]
    by (simp add: pool05_at_def child_takes_def kid_def)
  moreover have "pool_step \<dots> (pool05_at [?c 100 5 1, ?c 101 6 0] 1 {3} [?d, kid] [7] [] [7])"
    using dies [of 0 "pool05_at [?c 100 5 1, ?c 101 6 0] 1 {3} [kid\<lparr>serving := Some 7\<rparr>, kid] [7] [] []"]
    by (simp add: pool05_at_def child_dies_def child_holds_def kid_def)
  moreover have "pool_step \<dots> (pool05_at [?c 100 5 1, ?c 101 6 1] 0 {3} [?d, kid\<lparr>to_child := [8]\<rparr>] [7, 8] [] [7])"
    by (rule parent [of "{3}" _ "Inr 8"], simp add: pool_legal_def pool05_at_def all_less_two)
      (simp add: example_accepts [of 1 _ _ 1] kid_def)
  moreover have "pool_step \<dots> (pool05_at [?c 100 5 1, ?c 101 6 1] 0 {3} [?d, kid\<lparr>serving := Some 8\<rparr>] [7, 8] [] [7])"
    using takes [of 1 "pool05_at [?c 100 5 1, ?c 101 6 1] 0 {3} [?d, kid\<lparr>to_child := [8]\<rparr>] [7, 8] [] [7]"]
    by (simp add: pool05_at_def child_takes_def kid_def)
  moreover have "pool_step \<dots> (pool05_at [?c 100 5 1, ?c 101 6 1] 0 {3} [?d, kid\<lparr>from_child := 1\<rparr>] [7, 8] [8] [7])"
    using finishes [of 1 "pool05_at [?c 100 5 1, ?c 101 6 1] 0 {3} [?d, kid\<lparr>serving := Some 8\<rparr>] [7, 8] [] [7]"]
    by (simp add: pool05_at_def child_done_def kid_def)
  ultimately show ?thesis
    by (intro exI [of _ "pool05_at [?c 100 5 1, ?c 101 6 1] 0 {3} [?d, kid\<lparr>from_child := 1\<rparr>] [7, 8] [8] [7]"])
      (auto simp: pool05_at_def)
qed

theorem pool_accounts_witness:
  "\<exists>s0 s. pool_start 3 example_kids = Go s0 \<and> pool_step\<^sup>*\<^sup>* s0 s \<and> taken s = [7, 8] \<and> handled s = [8] \<and> lost s = [7] \<and>
     mset (taken s) = mset (handled s) + mset (lost s) + sum_list (map (\<lambda>p. mset (child_holds p)) (procs s)) \<and>
     1 \<le> cnt (\<lambda>p. \<not> alive p) (procs s)"
proof -
  obtain s where s: "pool_step\<^sup>*\<^sup>* (pool05_at [child_make (100, 5), child_make (101, 6)] 2 {} [kid, kid] [] [] []) s"
      "taken s = [7, 8]" "handled s = [8]" "lost s = [7]" using example_run by blast
  have k: "distinct (map snd example_kids)" "3 \<notin> snd ` set example_kids" by (simp_all add: example_kids_def)
  show ?thesis using pool_accounts [OF s(1) example_start k] s example_start by force
qed

theorem pool_never_short_witness:
  "\<exists>s0 s'. pool_start 3 example_kids = Go s0 \<and> pool_round (Inr {3}) (Inr 7) s0 = Go s' \<and> child_status (cptr s' ! 0) = 1 \<and>
    pool_round (Inr {3}) (Inr 7) s0 \<noteq> Quit ''no available children'' s'"
proof -
  let ?s = "pool05_at [child_make (100, 5), child_make (101, 6)] 2 {} [kid, kid] [] [] []"
  have k: "distinct (map snd example_kids)" "3 \<notin> snd ` set example_kids" by (simp_all add: example_kids_def)
  have "\<exists>s'. pool_round (Inr {3}) (Inr 7) ?s = Go s' \<and> child_status (cptr s' ! 0) = 1"
    by (simp add: example_accepts [of 2 _ _ 0] child_make_def kid_def) (simp add: pool05_at_def)
  then show ?thesis using pool_never_short [OF _ example_start k, of ?s "{3}" "Inr 7"] example_start by blast
qed

end
