(* ===== verification/Web.thy ===== *)
theory Web
  imports Fdserver
begin

text \<open>
  The client of \<open>nonblock/web.c\<close>, \<open>start_connect.c\<close> and \<open>write_get_cmd.c\<close>, which fetches files
  over several connections at a time: non-blocking connects, a table of files with a state
  each, and counters of the connections and of the files that are left.
\<close>

section \<open>The table of files\<close>

definition F_CONNECTING :: cint where "F_CONNECTING = 1"
definition F_READING :: cint where "F_READING = 2"
definition F_DONE :: cint where "F_DONE = 4"

definition MAXFILES :: nat where "MAXFILES = 20"

definition EINPROGRESS :: errno where "EINPROGRESS = EOTHER 115"

record wfile =
  f_name :: string
  f_host :: string
  f_fd :: int
  f_flags :: cint

record web = kernel +
  wfiles :: "wfile list"
  nconn :: int
  nlefttoconn :: int
  nlefttoread :: int
  webmax :: int
  webrset :: "int set"
  webwset :: "int set"

text \<open>Lines 15 to 29 of \<open>web.c\<close>; the descriptor of a file is not initialised.\<close>

definition web_start :: "string \<Rightarrow> string list \<Rightarrow> kernel \<Rightarrow> web" where
  "web_start host names k =
    (let nfiles = min (length names) MAXFILES
     in \<lparr>open_fds = open_fds k, chans = chans k,
        wfiles = map (\<lambda>n. \<lparr>f_name = n, f_host = host, f_fd = 0, f_flags = 0\<rparr>) (take nfiles names),
        nconn = 0, nlefttoconn = int nfiles, nlefttoread = int nfiles, webmax = - 1, webrset = {}, webwset = {}\<rparr>)"

abbreviation set_file :: "nat \<Rightarrow> wfile \<Rightarrow> web \<Rightarrow> web" where
  "set_file i f s \<equiv> s\<lparr>wfiles := (wfiles s)[i := f]\<rparr>"

section \<open>\<open>write_get_cmd.c\<close>\<close>

definition get_cmd :: "string \<Rightarrow> byte list" where
  "get_cmd name = map of_char (''GET '' @ name @ '' HTTP/1.0'' @ [CHR 0x0D, CHR 0x0A, CHR 0x0D, CHR 0x0A])"

text \<open>
  \<open>snprintf\<close> stores what fits and returns the length of the whole text, which \<open>Writen\<close> is then
  called with.
\<close>

definition write_get_cmd :: "nat \<Rightarrow> web \<Rightarrow> web outcome" where
  "write_get_cmd i s =
    (let f = wfiles s ! i; cmd = get_cmd (f_name f); n = length cmd
     in if MAXLINE < n then Fault
        else bind (Writen_fd (f_fd f) (if n < MAXLINE then cmd else take (MAXLINE - 1) cmd @ [0]) s)
          (\<lambda>s. Go ((set_file i (f\<lparr>f_flags := F_READING\<rparr>) s)
            \<lparr>webrset := insert (f_fd f) (webrset s), webmax := max (webmax s) (f_fd f)\<rparr>)))"

section \<open>\<open>start_connect.c\<close>\<close>

text \<open>
  A connection attempt: the descriptor of the new socket, what is behind it once it is
  connected, and what \<open>connect\<close> returned.
\<close>

definition start_connect :: "nat \<Rightarrow> int \<times> chan \<times> status \<Rightarrow> web \<Rightarrow> web outcome" where
  "start_connect i attempt s =
    (case attempt of (fd, c, res) \<Rightarrow>
      let f = (wfiles s ! i)\<lparr>f_fd := fd\<rparr>; s1 = set_file i f (accepted fd c s)
      in case res of
           None \<Rightarrow> write_get_cmd i s1
         | Some e \<Rightarrow>
             if e \<noteq> EINPROGRESS then Quit ''nonblocking connect error'' s1
             else Go ((set_file i (f\<lparr>f_flags := F_CONNECTING\<rparr>) s1)
               \<lparr>webrset := insert fd (webrset s1), webwset := insert fd (webwset s1), webmax := max (webmax s1) fd\<rparr>))"

section \<open>\<open>web.c\<close>\<close>

text \<open>Lines 33 to 43: start connections while there may be more. No attempt left: \<open>socket\<close> fails.\<close>

fun web_connects :: "int \<Rightarrow> (int \<times> chan \<times> status) list \<Rightarrow> web \<Rightarrow> web outcome" where
  "web_connects maxnconn attempts s =
    (if nconn s < maxnconn \<and> 0 < nlefttoconn s then
       (case first_such (\<lambda>f. f_flags f = 0) (wfiles s) of
          None \<Rightarrow> Quit ''nlefttoconn but nothing found'' s
        | Some i \<Rightarrow>
            (case attempts of
               [] \<Rightarrow> Quit ''socket error'' s
             | a # rest \<Rightarrow>
                 bind (start_connect i a s) (\<lambda>s.
                   web_connects maxnconn rest (s\<lparr>nconn := nconn s + 1, nlefttoconn := nlefttoconn s - 1\<rparr>))))
     else Go s)"

declare web_connects.simps [simp del]

text \<open>
  Lines 49 to 79: what is done with a file. \<open>rs\<close> and \<open>ws\<close> are what \<open>select\<close> found ready; the
  error that \<open>getsockopt\<close> reports is printed only.
\<close>

definition web_active :: "int set \<Rightarrow> int set \<Rightarrow> nat \<Rightarrow> web \<Rightarrow> bool" where
  "web_active rs ws i s \<longleftrightarrow>
    (let flags = f_flags (wfiles s ! i); fd = f_fd (wfiles s ! i)
     in \<not> (flags = 0 \<or> has_flag flags F_DONE) \<and>
        (has_flag flags F_CONNECTING \<and> (fd \<in> rs \<or> fd \<in> ws) \<or> has_flag flags F_READING \<and> fd \<in> rs))"

definition web_handle :: "int set \<Rightarrow> int set \<Rightarrow> nat \<Rightarrow> web \<Rightarrow> web outcome" where
  "web_handle rs ws i s =
    (let f = wfiles s ! i; fd = f_fd f
     in if has_flag (f_flags f) F_CONNECTING \<and> (fd \<in> rs \<or> fd \<in> ws) then
          write_get_cmd i (s\<lparr>webwset := webwset s - {fd}\<rparr>)
        else
          (case kread fd MAXLINE s of
             (Inl e, s') \<Rightarrow> Quit ''read error'' s'
           | (Inr bs, s') \<Rightarrow>
               if bs = [] then
                 Go ((set_file i (f\<lparr>f_flags := F_DONE\<rparr>) (Close fd s'))
                   \<lparr>webrset := webrset s' - {fd}, nconn := nconn s' - 1, nlefttoread := nlefttoread s' - 1\<rparr>)
               else Go s'))"

text \<open>One round of the outer loop, lines 32 to 80.\<close>

definition web_round :: "int \<Rightarrow> (int \<times> chan \<times> status) list \<Rightarrow> (int set \<times> int set) result \<Rightarrow> web \<Rightarrow> web outcome" where
  "web_round maxnconn attempts ready s =
    bind (web_connects maxnconn attempts s) (\<lambda>s.
      case ready of
        Inl e \<Rightarrow> Quit ''select error'' s
      | Inr (r, w) \<Rightarrow>
          (let rs = {fd \<in> webrset s \<inter> r. fd < webmax s + 1}; ws = {fd \<in> webwset s \<inter> w. fd < webmax s + 1}
           in scan_all (web_active rs ws) (web_handle rs ws) [0..<length (wfiles s)] s))"

text \<open>The client up to the given rounds; it exits as soon as nothing is left to read.\<close>

fun web_rounds :: "int \<Rightarrow> ((int \<times> chan \<times> status) list \<times> (int set \<times> int set) result) list \<Rightarrow> web \<Rightarrow> web outcome" where
  "web_rounds maxnconn [] s = Go s"
| "web_rounds maxnconn ((attempts, ready) # es) s =
    (if 0 < nlefttoread s then bind (web_round maxnconn attempts ready s) (web_rounds maxnconn es) else Go s)"

end
