(* ===== verification/Webthreads.thy ===== *)
theory Webthreads
  imports Web
begin

text \<open>
  The web clients of the threads chapter: one thread for each file (\<open>threads/web01.c\<close>,
  \<open>web02.c\<close>, \<open>web03.c\<close>). The main thread creates threads while it may have more connections,
  and then waits for one to end: with \<open>thr_join\<close> for any thread (\<open>web01.c\<close>), by looking at the
  table again and again (\<open>web02.c\<close>), or on a condition variable (\<open>web03.c\<close>).

  Every statement that another thread can observe is one step. The main thread and the
  threads for the files are at places; a step of a thread that is blocked is not possible.
  What the threads do with the network takes time but does not block for ever: the file
  number \<open>i\<close> arrives in \<open>reads i\<close> pieces. A call of theirs that fails ends the whole process; the
  runs are those in which none does.
\<close>

section \<open>Threads\<close>

definition F_JOINED :: cint where "F_JOINED = 8"

datatype agent = Main | Fetcher nat

datatype mainpc =
    M_outer | M_inner | M_flag nat | M_create nat | M_count
  | M_lock | M_ndone | M_asleep | M_reacquire | M_scan nat | M_join nat | M_joined nat | M_unlock
  | M_thr_join | M_exit | M_nothing_found

datatype workerpc =
    W_none | W_connect | W_read nat | W_flag | W_lock | W_incr | W_signal | W_unlock | W_end | W_joined

record wstate =
  wflags :: "cint list"
  tconn :: int
  tlefttoconn :: int
  tlefttoread :: int
  ndone :: int
  ndone_mutex :: "agent option"
  mpc :: mainpc
  wpc :: "workerpc list"

text \<open>The start of the outer loop, with \<open>n\<close> files.\<close>

definition threads_start :: "nat \<Rightarrow> wstate" where
  "threads_start n = \<lparr>wflags = replicate n 0, tconn = 0, tlefttoconn = int n, tlefttoread = int n, ndone = 0,
     ndone_mutex = None, mpc = M_outer, wpc = replicate n W_none\<rparr>"

section \<open>\<open>do_get_read\<close>\<close>

text \<open>
  Connecting and sending the request ends with \<open>F_READING\<close>; at the end of the file the thread
  sets \<open>F_DONE\<close>. In \<open>web01.c\<close> it then returns.
\<close>

fun fetch_step :: "(nat \<Rightarrow> nat) \<Rightarrow> nat \<Rightarrow> wstate \<Rightarrow> wstate option" where
  "fetch_step reads i s =
    (case wpc s ! i of
       W_connect \<Rightarrow> Some (s\<lparr>wflags := (wflags s)[i := F_READING], wpc := (wpc s)[i := W_read (reads i)]\<rparr>)
     | W_read k \<Rightarrow> Some (s\<lparr>wpc := (wpc s)[i := if k = 0 then W_flag else W_read (k - 1)]\<rparr>)
     | W_flag \<Rightarrow> Some (s\<lparr>wflags := (wflags s)[i := F_DONE], wpc := (wpc s)[i := W_end]\<rparr>)
     | _ \<Rightarrow> None)"

text \<open>
  In \<open>web02.c\<close> and \<open>web03.c\<close> it also counts itself under the mutex, and in \<open>web03.c\<close> wakes the
  main thread.
\<close>

fun fetch_count_step :: "bool \<Rightarrow> (nat \<Rightarrow> nat) \<Rightarrow> nat \<Rightarrow> wstate \<Rightarrow> wstate option" where
  "fetch_count_step signals reads i s =
    (case wpc s ! i of
       W_flag \<Rightarrow> Some (s\<lparr>wflags := (wflags s)[i := F_DONE], wpc := (wpc s)[i := W_lock]\<rparr>)
     | W_lock \<Rightarrow> (case ndone_mutex s of None \<Rightarrow>
           Some (s\<lparr>ndone_mutex := Some (Fetcher i), wpc := (wpc s)[i := W_incr]\<rparr>) | Some a \<Rightarrow> None)
     | W_incr \<Rightarrow> Some (s\<lparr>ndone := ndone s + 1, wpc := (wpc s)[i := if signals then W_signal else W_unlock]\<rparr>)
     | W_signal \<Rightarrow> Some (s\<lparr>mpc := (if mpc s = M_asleep then M_reacquire else mpc s), wpc := (wpc s)[i := W_unlock]\<rparr>)
     | W_unlock \<Rightarrow> Some (s\<lparr>ndone_mutex := None, wpc := (wpc s)[i := W_end]\<rparr>)
     | _ \<Rightarrow> fetch_step reads i s)"

section \<open>The main threads\<close>

text \<open>What they share: starting the threads, lines 52 to 66 of \<open>web01.c\<close>.\<close>

fun start_step :: "mainpc \<Rightarrow> int \<Rightarrow> wstate \<Rightarrow> wstate option" where
  "start_step after maxnconn s =
    (case mpc s of
       M_outer \<Rightarrow> Some (s\<lparr>mpc := if 0 < tlefttoread s then M_inner else M_exit\<rparr>)
     | M_inner \<Rightarrow>
         if tconn s < maxnconn \<and> 0 < tlefttoconn s then
           (case first_such (\<lambda>f. f = 0) (wflags s) of
              None \<Rightarrow> Some (s\<lparr>mpc := M_nothing_found\<rparr>)
            | Some i \<Rightarrow> Some (s\<lparr>mpc := M_flag i\<rparr>))
         else Some (s\<lparr>mpc := after\<rparr>)
     | M_flag i \<Rightarrow> Some (s\<lparr>wflags := (wflags s)[i := F_CONNECTING], mpc := M_create i\<rparr>)
     | M_create i \<Rightarrow> Some (s\<lparr>wpc := (wpc s)[i := W_connect], mpc := M_count\<rparr>)
     | M_count \<Rightarrow> Some (s\<lparr>tconn := tconn s + 1, tlefttoconn := tlefttoconn s - 1, mpc := M_inner\<rparr>)
     | _ \<Rightarrow> None)"

text \<open>\<open>web01.c\<close>: \<open>thr_join\<close> returns for some thread that has ended.\<close>

inductive main01 :: "int \<Rightarrow> wstate \<Rightarrow> wstate \<Rightarrow> bool" for maxnconn where
  starting01: "start_step M_thr_join maxnconn s = Some s' \<Longrightarrow> main01 maxnconn s s'"
| thr_join: "mpc s = M_thr_join \<Longrightarrow> i < length (wpc s) \<Longrightarrow> wpc s ! i = W_end \<Longrightarrow>
    main01 maxnconn s (s\<lparr>wpc := (wpc s)[i := W_joined], tconn := tconn s - 1, tlefttoread := tlefttoread s - 1, mpc := M_outer\<rparr>)"

text \<open>
  \<open>web03.c\<close>, lines 72 to 89. \<open>Pthread_join\<close> returns when the thread has ended; the mutex is
  held all the time.
\<close>

fun main03_step :: "int \<Rightarrow> wstate \<Rightarrow> wstate option" where
  "main03_step maxnconn s =
    (case mpc s of
       M_lock \<Rightarrow> (case ndone_mutex s of None \<Rightarrow> Some (s\<lparr>ndone_mutex := Some Main, mpc := M_ndone\<rparr>) | Some a \<Rightarrow> None)
     | M_ndone \<Rightarrow> if ndone s = 0 then Some (s\<lparr>ndone_mutex := None, mpc := M_asleep\<rparr>) else Some (s\<lparr>mpc := M_scan 0\<rparr>)
     | M_asleep \<Rightarrow> None
     | M_reacquire \<Rightarrow> (case ndone_mutex s of None \<Rightarrow> Some (s\<lparr>ndone_mutex := Some Main, mpc := M_ndone\<rparr>) | Some a \<Rightarrow> None)
     | M_scan i \<Rightarrow>
         if i < length (wflags s) then
           Some (s\<lparr>mpc := if has_flag (wflags s ! i) F_DONE then M_join i else M_scan (Suc i)\<rparr>)
         else Some (s\<lparr>mpc := M_unlock\<rparr>)
     | M_join i \<Rightarrow> if wpc s ! i = W_end then Some (s\<lparr>wpc := (wpc s)[i := W_joined], mpc := M_joined i\<rparr>) else None
     | M_joined i \<Rightarrow> Some (s\<lparr>wflags := (wflags s)[i := F_JOINED], ndone := ndone s - 1, tconn := tconn s - 1,
           tlefttoread := tlefttoread s - 1, mpc := M_scan (Suc i)\<rparr>)
     | M_unlock \<Rightarrow> Some (s\<lparr>ndone_mutex := None, mpc := M_outer\<rparr>)
     | _ \<Rightarrow> start_step M_lock maxnconn s)"

text \<open>
  \<open>web02.c\<close>, lines 55 to 97: the thread is created before the flag is set, and the table is
  looked at without waiting.
\<close>

fun main02_step :: "int \<Rightarrow> wstate \<Rightarrow> wstate option" where
  "main02_step maxnconn s =
    (case mpc s of
       M_inner \<Rightarrow>
         if tconn s < maxnconn \<and> 0 < tlefttoconn s then
           (case first_such (\<lambda>f. f = 0) (wflags s) of
              None \<Rightarrow> Some (s\<lparr>mpc := M_nothing_found\<rparr>)
            | Some i \<Rightarrow> Some (s\<lparr>mpc := M_create i\<rparr>))
         else Some (s\<lparr>mpc := M_lock\<rparr>)
     | M_create i \<Rightarrow> Some (s\<lparr>wpc := (wpc s)[i := W_connect], mpc := M_flag i\<rparr>)
     | M_flag i \<Rightarrow> Some (s\<lparr>wflags := (wflags s)[i := F_CONNECTING], mpc := M_count\<rparr>)
     | M_ndone \<Rightarrow> Some (s\<lparr>mpc := if 0 < ndone s then M_scan 0 else M_unlock\<rparr>)
     | _ \<Rightarrow> main03_step maxnconn s)"

section \<open>The programs\<close>

inductive step01 :: "int \<Rightarrow> (nat \<Rightarrow> nat) \<Rightarrow> wstate \<Rightarrow> wstate \<Rightarrow> bool" for maxnconn reads where
  main_01: "main01 maxnconn s s' \<Longrightarrow> step01 maxnconn reads s s'"
| fetch_01: "i < length (wpc s) \<Longrightarrow> fetch_step reads i s = Some s' \<Longrightarrow> step01 maxnconn reads s s'"

fun agent_step :: "(wstate \<Rightarrow> wstate option) \<Rightarrow> (nat \<Rightarrow> wstate \<Rightarrow> wstate option) \<Rightarrow> agent \<Rightarrow> wstate \<Rightarrow> wstate option" where
  "agent_step main fetch Main s = main s"
| "agent_step main fetch (Fetcher i) s = (if i < length (wpc s) then fetch i s else None)"

text \<open>A step of a thread, or a wake-up of the main thread that nobody has caused.\<close>

inductive mutex_step :: "(wstate \<Rightarrow> wstate option) \<Rightarrow> (nat \<Rightarrow> wstate \<Rightarrow> wstate option) \<Rightarrow> wstate \<Rightarrow> wstate \<Rightarrow> bool"
  for main fetch where
  agents: "agent_step main fetch a s = Some s' \<Longrightarrow> mutex_step main fetch s s'"
| spurious: "mpc s = M_asleep \<Longrightarrow> mutex_step main fetch s (s\<lparr>mpc := M_reacquire\<rparr>)"

abbreviation step02 :: "int \<Rightarrow> (nat \<Rightarrow> nat) \<Rightarrow> wstate \<Rightarrow> wstate \<Rightarrow> bool" where
  "step02 maxnconn reads \<equiv> mutex_step (main02_step maxnconn) (fetch_count_step False reads)"

abbreviation step03 :: "int \<Rightarrow> (nat \<Rightarrow> nat) \<Rightarrow> wstate \<Rightarrow> wstate \<Rightarrow> bool" where
  "step03 maxnconn reads \<equiv> mutex_step (main03_step maxnconn) (fetch_count_step True reads)"

text \<open>A run with a given order of the threads.\<close>

fun run_agents :: "(wstate \<Rightarrow> wstate option) \<Rightarrow> (nat \<Rightarrow> wstate \<Rightarrow> wstate option) \<Rightarrow> agent list \<Rightarrow> wstate \<Rightarrow> wstate option" where
  "run_agents main fetch [] s = Some s"
| "run_agents main fetch (a # as) s =
    (case agent_step main fetch a s of None \<Rightarrow> None | Some s' \<Rightarrow> run_agents main fetch as s')"

end
