(* ===== verification/Web_Props.thy ===== *)
theory Web_Props
  imports Web Fdserver_Props
begin

text \<open>
  The web client: its counters count what they say, the sets that it waits for are those of
  its connections, it never has more connections than it may, always finds the file it looks
  for, and ends with all files read.
\<close>

section \<open>States of a file\<close>

lemmas flags = F_CONNECTING_def F_READING_def F_DONE_def

definition active :: "wfile \<Rightarrow> bool" where
  "active f \<longleftrightarrow> f_flags f = F_CONNECTING \<or> f_flags f = F_READING"

abbreviation waiting :: "wfile \<Rightarrow> bool" where "waiting f \<equiv> f_flags f = 0"
abbreviation unread :: "wfile \<Rightarrow> bool" where "unread f \<equiv> f_flags f \<noteq> F_DONE"

definition flags_ok :: "wfile \<Rightarrow> bool" where
  "flags_ok f \<longleftrightarrow> f_flags f = 0 \<or> f_flags f = F_CONNECTING \<or> f_flags f = F_READING \<or> f_flags f = F_DONE"

lemma flag_tests:
  assumes "flags_ok f"
  shows "has_flag (f_flags f) F_CONNECTING \<longleftrightarrow> f_flags f = F_CONNECTING"
    and "has_flag (f_flags f) F_READING \<longleftrightarrow> f_flags f = F_READING"
    and "has_flag (f_flags f) F_DONE \<longleftrightarrow> f_flags f = F_DONE"
  using assms by (auto simp: flags_ok_def has_flag_def flags)

lemma flags_distinct [simp]:
  "F_CONNECTING \<noteq> F_READING" "F_READING \<noteq> F_CONNECTING" "F_CONNECTING \<noteq> F_DONE" "F_DONE \<noteq> F_CONNECTING"
  "F_READING \<noteq> F_DONE" "F_DONE \<noteq> F_READING" "F_CONNECTING \<noteq> 0" "F_READING \<noteq> 0" "F_DONE \<noteq> 0"
  by (simp_all add: flags)

section \<open>The invariant\<close>

text \<open>The descriptors the client waits for are those of its connections, all different.\<close>

definition fd_of :: "web \<Rightarrow> nat \<Rightarrow> int" where "fd_of s i = f_fd (wfiles s ! i)"

definition sets_ok :: "web \<Rightarrow> bool" where
  "sets_ok s \<longleftrightarrow> (\<forall>i < length (wfiles s). flags_ok (wfiles s ! i)) \<and>
     (\<forall>fd. fd \<in> webrset s \<longleftrightarrow> (\<exists>i < length (wfiles s). active (wfiles s ! i) \<and> fd_of s i = fd)) \<and>
     (\<forall>fd. fd \<in> webwset s \<longleftrightarrow> (\<exists>i < length (wfiles s). f_flags (wfiles s ! i) = F_CONNECTING \<and> fd_of s i = fd)) \<and>
     (\<forall>i < length (wfiles s). \<forall>j < length (wfiles s).
        active (wfiles s ! i) \<and> active (wfiles s ! j) \<and> fd_of s i = fd_of s j \<longrightarrow> i = j) \<and>
     webrset s \<subseteq> open_fds s \<and> (\<forall>fd \<in> webrset s. fd \<le> webmax s)"

text \<open>The counters count the files in their states.\<close>

definition counts_ok :: "int \<Rightarrow> web \<Rightarrow> bool" where
  "counts_ok maxnconn s \<longleftrightarrow> cnt active (wfiles s) = nconn s \<and> cnt waiting (wfiles s) = nlefttoconn s \<and>
     cnt unread (wfiles s) = nlefttoread s \<and> nconn s \<le> max 0 maxnconn"

text \<open>One file changes its state: what the sets have to do.\<close>

lemma sets_ok_update:
  assumes "sets_ok s" and "i < length (wfiles s)" and "flags_ok f" and "wfiles s' = (wfiles s)[i := f]"
    and "active (wfiles s ! i) \<longrightarrow> fd_of s i = f_fd f" and "\<not> active (wfiles s ! i) \<and> active f \<longrightarrow> f_fd f \<notin> webrset s"
    and "webrset s' = (if active f then insert (f_fd f) (webrset s) else webrset s - {f_fd f})"
    and "webwset s' = (if f_flags f = F_CONNECTING then insert (f_fd f) (webwset s) else webwset s - {f_fd f})"
    and "active (wfiles s ! i) \<or> active f"
    and "webrset s' \<subseteq> open_fds s'" and "\<forall>fd \<in> webrset s'. fd \<le> webmax s'"
  shows "sets_ok s'"
proof -
  have len: "length (wfiles s') = length (wfiles s)" using assms(4) by simp
  have at: "wfiles s' ! j = (if j = i then f else wfiles s ! j)" if "j < length (wfiles s)" for j
    using assms(2,4) that by simp
  have alone: "fd_of s j \<noteq> f_fd f" if "j < length (wfiles s)" "j \<noteq> i" "active (wfiles s ! j)" for j
    using assms(1,2,5,6,9) that unfolding sets_ok_def by metis
  have conn: "f_flags g = F_CONNECTING \<Longrightarrow> active g" for g by (simp add: active_def)
  have r: "fd \<in> webrset s' \<longleftrightarrow> (\<exists>j < length (wfiles s). active (wfiles s' ! j) \<and> fd_of s' j = fd)" for fd
  proof -
    define Q where "Q \<longleftrightarrow> (\<exists>j < length (wfiles s). j \<noteq> i \<and> active (wfiles s ! j) \<and> fd_of s j = fd)"
    have "(\<exists>j < length (wfiles s). active (wfiles s' ! j) \<and> fd_of s' j = fd) \<longleftrightarrow> active f \<and> f_fd f = fd \<or> Q"
      using at assms(2) unfolding fd_of_def Q_def by metis
    moreover have "fd \<in> webrset s \<longleftrightarrow> active (wfiles s ! i) \<and> f_fd f = fd \<or> Q"
      using assms(1,2,5) unfolding sets_ok_def Q_def by metis
    moreover have "Q \<longrightarrow> f_fd f \<noteq> fd"
      using alone unfolding Q_def by blast
    ultimately show ?thesis
      unfolding assms(7) by (cases "active f") auto
  qed
  have w: "fd \<in> webwset s' \<longleftrightarrow> (\<exists>j < length (wfiles s). f_flags (wfiles s' ! j) = F_CONNECTING \<and> fd_of s' j = fd)" for fd
  proof -
    define Q where "Q \<longleftrightarrow> (\<exists>j < length (wfiles s). j \<noteq> i \<and> f_flags (wfiles s ! j) = F_CONNECTING \<and> fd_of s j = fd)"
    have "(\<exists>j < length (wfiles s). f_flags (wfiles s' ! j) = F_CONNECTING \<and> fd_of s' j = fd) \<longleftrightarrow>
        f_flags f = F_CONNECTING \<and> f_fd f = fd \<or> Q"
      using at assms(2) unfolding fd_of_def Q_def by metis
    moreover have "fd \<in> webwset s \<longleftrightarrow> f_flags (wfiles s ! i) = F_CONNECTING \<and> f_fd f = fd \<or> Q"
      using assms(1,2,5) conn unfolding sets_ok_def Q_def by metis
    moreover have "Q \<longrightarrow> f_fd f \<noteq> fd"
      using alone conn unfolding Q_def by blast
    ultimately show ?thesis
      unfolding assms(8) by (cases "f_flags f = F_CONNECTING") auto
  qed
  have inj: "j = k" if "j < length (wfiles s)" "k < length (wfiles s)" "active (wfiles s' ! j)" "active (wfiles s' ! k)"
    "fd_of s' j = fd_of s' k" for j k
  proof -
    have fd: "fd_of s' l = (if l = i then f_fd f else fd_of s l)" if "l < length (wfiles s)" for l
      using at that by (simp add: fd_of_def)
    consider "j = i" "k \<noteq> i" | "j \<noteq> i" "k = i" | "j = i" "k = i" | "j \<noteq> i" "k \<noteq> i" by blast
    then show ?thesis
    proof cases
      case 1
      then show ?thesis using that fd at alone [of k] by simp
    next
      case 2
      then show ?thesis using that fd at alone [of j] by simp
    next
      case 4
      then have "active (wfiles s ! j)" "active (wfiles s ! k)" "fd_of s j = fd_of s k"
        using that fd at by auto
      then show ?thesis using that(1,2) assms(1) unfolding sets_ok_def by blast
    qed simp
  qed
  have fl: "flags_ok (wfiles s' ! j)" if "j < length (wfiles s)" for j
    using at that assms(1,3) unfolding sets_ok_def by metis
  show ?thesis
    unfolding sets_ok_def len
  proof (intro conjI allI impI)
    show "\<And>fd. fd \<in> webrset s' \<longleftrightarrow> (\<exists>j < length (wfiles s). active (wfiles s' ! j) \<and> fd_of s' j = fd)"
      by (rule r)
    show "\<And>fd. fd \<in> webwset s' \<longleftrightarrow> (\<exists>j < length (wfiles s). f_flags (wfiles s' ! j) = F_CONNECTING \<and> fd_of s' j = fd)"
      by (rule w)
  qed (use fl inj assms(10,11) in blast)+
qed


section \<open>Operations\<close>

lemma Writen_fd_Go_frame:
  assumes "Writen_fd fd bs s = Go s'"
  shows "\<exists>c. s' = s\<lparr>chans := (chans s)(fd := c)\<rparr>"
  using Writen_fd_Go [OF assms] by blast

lemma sets_ok_chans [simp]: "sets_ok (s\<lparr>chans := c\<rparr>) = sets_ok s"
  by (simp add: sets_ok_def fd_of_def)

lemma sets_ok_counts [simp]:
  "sets_ok (s\<lparr>nconn := x\<rparr>) = sets_ok s" "sets_ok (s\<lparr>nlefttoconn := x\<rparr>) = sets_ok s" "sets_ok (s\<lparr>nlefttoread := x\<rparr>) = sets_ok s"
  by (simp_all add: sets_ok_def fd_of_def)

text \<open>Sending the request: the file of a new or of a connecting socket is now being read.\<close>

lemma write_get_cmd_effect:
  assumes "write_get_cmd i s = Go s'"
  shows "\<exists>c. s' = s\<lparr>chans := c, wfiles := (wfiles s)[i := (wfiles s ! i)\<lparr>f_flags := F_READING\<rparr>],
    webrset := insert (f_fd (wfiles s ! i)) (webrset s), webmax := max (webmax s) (f_fd (wfiles s ! i))\<rparr>"
  using assms
  by (cases "Writen_fd (f_fd (wfiles s ! i)) (if length (get_cmd (f_name (wfiles s ! i))) < MAXLINE
      then get_cmd (f_name (wfiles s ! i)) else take (MAXLINE - 1) (get_cmd (f_name (wfiles s ! i))) @ [0]) s")
    (auto simp: write_get_cmd_def Let_def dest!: Writen_fd_Go_frame split: if_splits)

lemma start_connect_ok:
  assumes "sets_ok s" and "i < length (wfiles s)" and "waiting (wfiles s ! i)" and "fd \<notin> open_fds s"
    and "start_connect i (fd, c, res) s = Go s'"
  shows "sets_ok s' \<and> (\<exists>f. active f \<and> wfiles s' = (wfiles s)[i := f]) \<and> nconn s' = nconn s \<and>
    nlefttoconn s' = nlefttoconn s \<and> nlefttoread s' = nlefttoread s \<and> open_fds s' = insert fd (open_fds s)"
proof -
  let ?f = "(wfiles s ! i)\<lparr>f_fd := fd\<rparr>"
  have new: "fd \<notin> webrset s" "fd \<notin> webwset s" "webrset s \<subseteq> open_fds s" "\<forall>fd \<in> webrset s. fd \<le> webmax s"
    using assms(1,4) unfolding sets_ok_def by (auto simp: active_def)
  show ?thesis
  proof (cases res)
    case None
    then have "write_get_cmd i (set_file i ?f (accepted fd c s)) = Go s'"
      using assms(5) by (simp add: start_connect_def Let_def)
    then obtain ch where s': "s' = s\<lparr>open_fds := insert fd (open_fds s), chans := ch, wfiles := (wfiles s)[i := ?f\<lparr>f_flags := F_READING\<rparr>],
        webrset := insert fd (webrset s), webmax := max (webmax s) fd\<rparr>"
      using write_get_cmd_effect [of i "set_file i ?f (accepted fd c s)" s'] assms(2) by (auto simp: accepted_def)
    have "sets_ok s'"
      by (rule sets_ok_update [OF assms(1,2), of "?f\<lparr>f_flags := F_READING\<rparr>"])
        (use new assms(3) in \<open>auto simp: s' flags_ok_def active_def\<close>)
    moreover have "active (?f\<lparr>f_flags := F_READING\<rparr>)" by (simp add: active_def)
    ultimately show ?thesis unfolding s' by auto
  next
    case (Some e)
    then have s': "s' = s\<lparr>open_fds := insert fd (open_fds s), chans := (chans s)(fd := c),
        wfiles := (wfiles s)[i := ?f\<lparr>f_flags := F_CONNECTING\<rparr>],
        webrset := insert fd (webrset s), webwset := insert fd (webwset s), webmax := max (webmax s) fd\<rparr>"
      using assms(5) by (auto simp: start_connect_def accepted_def Let_def split: if_splits)
    have "sets_ok s'"
      by (rule sets_ok_update [OF assms(1,2), of "?f\<lparr>f_flags := F_CONNECTING\<rparr>"])
        (use new assms(3) in \<open>auto simp: s' flags_ok_def active_def\<close>)
    moreover have "active (?f\<lparr>f_flags := F_CONNECTING\<rparr>)" by (simp add: active_def)
    ultimately show ?thesis unfolding s' by auto
  qed
qed


text \<open>Attempts with descriptors that are not open when they are made.\<close>

fun fresh_attempts :: "int set \<Rightarrow> (int \<times> chan \<times> status) list \<Rightarrow> bool" where
  "fresh_attempts fds [] = True"
| "fresh_attempts fds (a # as) \<longleftrightarrow> fst a \<notin> fds \<and> fresh_attempts (insert (fst a) fds) as"

lemma cnt_active_update:
  assumes "i < length fs" and "waiting (fs ! i)" and "active f"
  shows "cnt active (fs[i := f]) = cnt active fs + 1" and "cnt waiting (fs[i := f]) = cnt waiting fs - 1"
    and "cnt unread (fs[i := f]) = cnt unread fs"
  using assms by (auto simp: cnt_update active_def)

lemma web_connects_ok:
  assumes "sets_ok s" and "counts_ok maxnconn s" and "fresh_attempts (open_fds s) attempts"
  shows "web_connects maxnconn attempts s \<noteq> Quit ''nlefttoconn but nothing found'' t \<and>
    (\<forall>s'. web_connects maxnconn attempts s = Go s' \<longrightarrow> sets_ok s' \<and> counts_ok maxnconn s' \<and> length (wfiles s') = length (wfiles s) \<and>
      nlefttoread s' = nlefttoread s \<and> \<not> (nconn s' < maxnconn \<and> 0 < nlefttoconn s'))"
  using assms
proof (induction attempts arbitrary: s)
  case Nil
  have "first_such waiting (wfiles s) \<noteq> None" if "0 < nlefttoconn s"
    using Nil.prems(2) that first_such_None [of waiting "wfiles s"] cnt_pos_iff [of waiting "wfiles s"]
    by (auto simp: counts_ok_def)
  then show ?case using Nil.prems by (auto simp: web_connects.simps [of _ "[]"] split: option.splits)
next
  case (Cons a attempts)
  show ?case
  proof (cases "nconn s < maxnconn \<and> 0 < nlefttoconn s")
    case False
    then show ?thesis using Cons.prems by (auto simp: web_connects.simps [of _ "a # attempts"])
  next
    case True
    then obtain i where i: "first_such waiting (wfiles s) = Some i"
      using Cons.prems(2) first_such_None [of waiting "wfiles s"] cnt_pos_iff [of waiting "wfiles s"]
      by (fastforce simp: counts_ok_def)
    note place = first_such_Some [OF i]
    have step: "web_connects maxnconn (a # attempts) s = bind (start_connect i a s)
        (\<lambda>s. web_connects maxnconn attempts (s\<lparr>nconn := nconn s + 1, nlefttoconn := nlefttoconn s - 1\<rparr>))"
      using True i by (simp add: web_connects.simps [of _ "a # attempts"])
    show ?thesis
    proof (cases "start_connect i a s")
      case (Go s1)
      obtain fd c res where a: "a = (fd, c, res)" by (cases a)
      have fresh: "fd \<notin> open_fds s" using Cons.prems(3) a by simp
      note eff = start_connect_ok [OF Cons.prems(1) _ _ fresh, of i c res s1]
      let ?s2 = "s1\<lparr>nconn := nconn s1 + 1, nlefttoconn := nlefttoconn s1 - 1\<rparr>"
      have eff': "sets_ok s1 \<and> (\<exists>f. active f \<and> wfiles s1 = (wfiles s)[i := f]) \<and> nconn s1 = nconn s \<and>
        nlefttoconn s1 = nlefttoconn s \<and> nlefttoread s1 = nlefttoread s \<and> open_fds s1 = insert fd (open_fds s)"
        using eff place Go a by blast
      then obtain f where f: "active f" "wfiles s1 = (wfiles s)[i := f]" by blast
      have "sets_ok ?s2"
        using eff' by simp
      moreover have "counts_ok maxnconn ?s2"
        using Cons.prems(2) True eff' f cnt_active_update [of i "wfiles s" f] place by (simp add: counts_ok_def max_def)
      moreover have "fresh_attempts (open_fds ?s2) attempts"
        using Cons.prems(3) a eff' by simp
      ultimately have "web_connects maxnconn attempts ?s2 \<noteq> Quit ''nlefttoconn but nothing found'' t \<and>
        (\<forall>s'. web_connects maxnconn attempts ?s2 = Go s' \<longrightarrow> sets_ok s' \<and> counts_ok maxnconn s' \<and> length (wfiles s') = length (wfiles ?s2) \<and>
          nlefttoread s' = nlefttoread ?s2 \<and> \<not> (nconn s' < maxnconn \<and> 0 < nlefttoconn s'))"
        by (rule Cons.IH)
      then show ?thesis using step Go eff' f by simp
    next
      case (Quit m t')
      have "m \<noteq> ''nlefttoconn but nothing found''"
        using Quit by (auto simp: start_connect_def write_get_cmd_def Let_def Writen_fd_def Writen_def
            split: prod.splits option.splits if_splits wrapped.splits)
      then show ?thesis using step Quit by simp
    next
      case Fault
      then show ?thesis using step by simp
    qed
  qed
qed


lemma web_active_iff:
  assumes "sets_ok s" and "i < length (wfiles s)"
  shows "web_active rs ws i s \<longleftrightarrow>
    f_flags (wfiles s ! i) = F_CONNECTING \<and> (fd_of s i \<in> rs \<or> fd_of s i \<in> ws) \<or> f_flags (wfiles s ! i) = F_READING \<and> fd_of s i \<in> rs"
proof -
  have "flags_ok (wfiles s ! i)" using assms unfolding sets_ok_def by blast
  from flag_tests [OF this] show ?thesis
    by (auto simp: web_active_def Let_def fd_of_def)
qed

text \<open>Reading a part of a file, or its end.\<close>

lemma web_read_ok:
  assumes "sets_ok s" and "counts_ok maxnconn s" and "i < length (wfiles s)" and reading: "f_flags (wfiles s ! i) = F_READING"
    and "(case kread (f_fd (wfiles s ! i)) MAXLINE s of (Inl e, s1) \<Rightarrow> Quit ''read error'' s1
      | (Inr bs, s1) \<Rightarrow> if bs = []
          then Go ((set_file i ((wfiles s ! i)\<lparr>f_flags := F_DONE\<rparr>) (Close (f_fd (wfiles s ! i)) s1))
            \<lparr>webrset := webrset s1 - {f_fd (wfiles s ! i)}, nconn := nconn s1 - 1, nlefttoread := nlefttoread s1 - 1\<rparr>)
          else Go s1) = Go s'"
  shows "sets_ok s' \<and> counts_ok maxnconn s' \<and> length (wfiles s') = length (wfiles s)"
proof -
  let ?f = "wfiles s ! i"
  have active: "active ?f" using reading by (simp add: active_def)
  have sub: "webrset s \<subseteq> open_fds s" "\<forall>fd \<in> webrset s. fd \<le> webmax s"
    using assms(1) unfolding sets_ok_def by auto
  obtain r s1 where rd: "kread (f_fd ?f) MAXLINE s = (r, s1)" by fastforce
  then obtain ci where s1: "s1 = s\<lparr>chans := (chans s)(f_fd ?f := (chans s (f_fd ?f))\<lparr>cin := ci\<rparr>)\<rparr>"
    using kread_effect by blast
  show ?thesis
  proof (cases "r = Inr []")
    case False
    then have "s' = s1" using rd assms(5) by (cases r) auto
    then show ?thesis using assms(1,2) by (simp add: s1 counts_ok_def)
  next
    case True
    then have s': "s' = s1\<lparr>open_fds := open_fds s - {f_fd ?f}, wfiles := (wfiles s)[i := ?f\<lparr>f_flags := F_DONE\<rparr>],
        webrset := webrset s - {f_fd ?f}, nconn := nconn s - 1, nlefttoread := nlefttoread s - 1\<rparr>"
      using rd assms(5) by (simp add: Close_def s1)
    have "f_fd ?f \<notin> webwset s"
      using assms(1,3) active reading unfolding sets_ok_def fd_of_def by (metis active_def flags_distinct(1))
    then have "sets_ok s'"
      by (intro sets_ok_update [OF assms(1,3), of "?f\<lparr>f_flags := F_DONE\<rparr>"])
        (use sub active in \<open>auto simp: s' s1 flags_ok_def active_def fd_of_def\<close>)
    moreover have "counts_ok maxnconn s'"
      using assms(2,3) reading unfolding s' s1 counts_ok_def by (simp add: cnt_update active_def)
    ultimately show ?thesis unfolding s' by (simp add: s1)
  qed
qed

text \<open>
  A ready file: a connecting one becomes one that is being read, one that is being read stays
  so or is done.
\<close>

lemma web_handle_ok:
  assumes "sets_ok s" and "counts_ok maxnconn s" and "i < length (wfiles s)" and "web_active rs ws i s"
    and "web_handle rs ws i s = Go s'"
  shows "sets_ok s' \<and> counts_ok maxnconn s' \<and> length (wfiles s') = length (wfiles s)"
proof -
  let ?f = "wfiles s ! i"
  have ok: "flags_ok ?f" and sub: "webrset s \<subseteq> open_fds s" "\<forall>fd \<in> webrset s. fd \<le> webmax s"
    and in_r: "active ?f \<Longrightarrow> f_fd ?f \<in> webrset s"
    using assms(1,3) unfolding sets_ok_def fd_of_def by auto
  note flag = flag_tests [OF ok] and act = assms(4) [unfolded web_active_iff [OF assms(1,3)]]
  consider (conn) "f_flags ?f = F_CONNECTING" "f_fd ?f \<in> rs \<or> f_fd ?f \<in> ws" | (reading) "f_flags ?f = F_READING" "f_fd ?f \<in> rs"
    using act by (auto simp: fd_of_def)
  then show ?thesis
  proof cases
    case conn
    then have active: "active ?f" by (simp add: active_def)
    have "write_get_cmd i (s\<lparr>webwset := webwset s - {f_fd ?f}\<rparr>) = Go s'"
      using assms(5) conn flag by (simp add: web_handle_def Let_def)
    from write_get_cmd_effect [OF this] obtain c where s': "s' = s\<lparr>webwset := webwset s - {f_fd ?f}, chans := c, wfiles := (wfiles s)[i := ?f\<lparr>f_flags := F_READING\<rparr>],
        webrset := insert (f_fd ?f) (webrset s), webmax := max (webmax s) (f_fd ?f)\<rparr>"
      by auto
    have "sets_ok s'"
      by (rule sets_ok_update [OF assms(1,3), of "?f\<lparr>f_flags := F_READING\<rparr>"])
        (use sub in_r [OF active] active conn in \<open>auto simp: s' flags_ok_def active_def fd_of_def\<close>)
    moreover have "counts_ok maxnconn s'"
      using assms(2,3) conn(1) unfolding s' counts_ok_def by (simp add: cnt_update active_def)
    ultimately show ?thesis unfolding s' by simp
  next
    case reading
    then show ?thesis using web_read_ok [OF assms(1-3) reading(1)] assms(5) flag by (simp add: web_handle_def Let_def)
  qed
qed

lemma web_scan_ok:
  assumes "scan_all (web_active rs ws) (web_handle rs ws) is s = Go s'" and "sets_ok s" and "counts_ok maxnconn s"
    and "set is \<subseteq> {..<length (wfiles s)}"
  shows "sets_ok s' \<and> counts_ok maxnconn s' \<and> length (wfiles s') = length (wfiles s)"
  using assms
proof (induction "is" arbitrary: s)
  case (Cons i "is")
  then show ?case
    using web_handle_ok [of s maxnconn i rs ws] by (cases "web_handle rs ws i s") (auto split: if_splits)
qed simp


section \<open>Reachable states\<close>

inductive web_reach :: "int \<Rightarrow> web \<Rightarrow> web \<Rightarrow> bool" for maxnconn s where
  web_begin: "web_reach maxnconn s s"
| web_next: "web_reach maxnconn s t \<Longrightarrow> 0 < nlefttoread t \<Longrightarrow> fresh_attempts (open_fds t) attempts \<Longrightarrow>
    web_round maxnconn attempts ready t = Go u \<Longrightarrow> web_reach maxnconn s u"

lemma web_start_ok: "sets_ok (web_start host names k) \<and> counts_ok maxnconn (web_start host names k)"
proof -
  let ?fs = "map (\<lambda>n. \<lparr>f_name = n, f_host = host, f_fd = 0, f_flags = 0\<rparr>) (take (min (length names) MAXFILES) names)"
  have "cnt active ?fs = 0" "cnt waiting ?fs = int (length ?fs)" "cnt unread ?fs = int (length ?fs)"
    by (simp_all add: cnt_zero_iff active_def cnt_def filter_map comp_def)
  then show ?thesis
    by (auto simp: web_start_def sets_ok_def counts_ok_def Let_def flags_ok_def active_def)
qed

lemma web_round_ok:
  assumes "sets_ok s" and "counts_ok maxnconn s" and "fresh_attempts (open_fds s) attempts"
    and "web_round maxnconn attempts ready s = Go s'"
  shows "sets_ok s' \<and> counts_ok maxnconn s' \<and> length (wfiles s') = length (wfiles s)"
proof -
  obtain s1 r w where s1: "web_connects maxnconn attempts s = Go s1" and "ready = Inr (r, w)"
    using assms(4) by (cases "web_connects maxnconn attempts s"; cases ready) (auto simp: web_round_def)
  then obtain rs ws where scan: "scan_all (web_active rs ws) (web_handle rs ws) [0..<length (wfiles s1)] s1 = Go s'"
    using assms(4) by (auto simp: web_round_def Let_def)
  have "set [0..<length (wfiles s1)] \<subseteq> {..<length (wfiles s1)}" by auto
  moreover have "sets_ok s1" "counts_ok maxnconn s1" "length (wfiles s1) = length (wfiles s)"
    using web_connects_ok [OF assms(1-3), THEN conjunct2] s1 by simp_all
  ultimately show ?thesis
    using web_scan_ok [OF scan] by simp
qed

lemma web_reach_ok:
  "web_reach maxnconn s t \<Longrightarrow> sets_ok s \<Longrightarrow> counts_ok maxnconn s \<Longrightarrow>
    sets_ok t \<and> counts_ok maxnconn t \<and> length (wfiles t) = length (wfiles s)"
proof (induction rule: web_reach.induct)
  case (web_next t attempts ready u)
  then show ?case using web_round_ok [of t maxnconn attempts ready u] by simp
qed simp

text \<open>
  C24: The client at the top of its loop: the counters are the numbers of files that are connected,
  that wait for a connection and that are not read yet; there are at most \<open>maxnconn\<close>
  connections, on different descriptors; and when the loop ends, all files are done.
\<close>

theorem web_counters:
  assumes "web_reach maxnconn (web_start host names k) s"
  shows "nconn s = cnt active (wfiles s) \<and> nlefttoconn s = cnt waiting (wfiles s) \<and> nlefttoread s = cnt unread (wfiles s) \<and>
    nconn s \<le> max 0 maxnconn \<and> webrset s = {f_fd (wfiles s ! i) | i. i < length (wfiles s) \<and> active (wfiles s ! i)} \<and>
    length (wfiles s) = min (length names) MAXFILES \<and>
    (0 < nlefttoread s \<or> (\<forall>f \<in> set (wfiles s). f_flags f = F_DONE))"
proof -
  have ok: "sets_ok s \<and> counts_ok maxnconn s \<and> length (wfiles s) = length (wfiles (web_start host names k))"
    using web_reach_ok [OF assms] web_start_ok by blast
  have "\<forall>f \<in> set (wfiles s). f_flags f = F_DONE" if "\<not> 0 < nlefttoread s"
  proof -
    have "cnt unread (wfiles s) = 0"
      using ok that cnt_nonneg [of unread "wfiles s"] by (auto simp: counts_ok_def)
    then show ?thesis by (simp add: cnt_zero_iff)
  qed
  moreover have "webrset s = {f_fd (wfiles s ! i) | i. i < length (wfiles s) \<and> active (wfiles s ! i)}"
  proof -
    have "\<forall>fd. fd \<in> webrset s \<longleftrightarrow> (\<exists>i < length (wfiles s). active (wfiles s ! i) \<and> f_fd (wfiles s ! i) = fd)"
      using ok unfolding sets_ok_def fd_of_def by (elim conjE)
    then show ?thesis by auto
  qed
  moreover have "length (wfiles s) = min (length names) MAXFILES"
    using ok by (simp add: web_start_def Let_def)
  ultimately show ?thesis
    using ok unfolding counts_ok_def by linarith
qed

lemma cnt_unread: "\<forall>f \<in> set fs. flags_ok f \<Longrightarrow> cnt unread fs = cnt active fs + cnt waiting fs"
  by (induction fs) (auto simp: flags_ok_def active_def)

text \<open>
  In the loop the client always finds the file that its counter promises, and if it may have
  a connection at all it waits for one when it waits.
\<close>

theorem web_makes_connections:
  assumes "web_reach maxnconn (web_start host names k) s" and "0 < nlefttoread s" and "fresh_attempts (open_fds s) attempts"
    and "0 < maxnconn"
  shows "web_connects maxnconn attempts s \<noteq> Quit ''nlefttoconn but nothing found'' t \<and>
    (web_connects maxnconn attempts s = Go s' \<longrightarrow> webrset s' \<noteq> {} \<and> (nconn s' = maxnconn \<or> nlefttoconn s' = 0))"
proof -
  have ok: "sets_ok s \<and> counts_ok maxnconn s"
    using web_reach_ok [OF assms(1)] web_start_ok by blast
  note conn = web_connects_ok [of s maxnconn attempts t] and inv = ok [THEN conjunct1] ok [THEN conjunct2]
  have "webrset s' \<noteq> {} \<and> (nconn s' = maxnconn \<or> nlefttoconn s' = 0)" if go: "web_connects maxnconn attempts s = Go s'"
  proof -
    have s': "sets_ok s'" "counts_ok maxnconn s'" "nlefttoread s' = nlefttoread s" "\<not> (nconn s' < maxnconn \<and> 0 < nlefttoconn s')"
      using conn [OF inv assms(3), THEN conjunct2] go by simp_all
    have all: "cnt unread (wfiles s') = cnt active (wfiles s') + cnt waiting (wfiles s')"
      by (rule cnt_unread) (use s'(1) in \<open>simp add: sets_ok_def all_set_conv_all_nth\<close>)
    have "0 < cnt active (wfiles s')" and rest: "nconn s' = maxnconn \<or> nlefttoconn s' = 0"
      using s'(2,3,4) assms(2,4) all cnt_nonneg [of waiting "wfiles s'"] by (auto simp: counts_ok_def max_def split: if_splits)
    then obtain i where "i < length (wfiles s')" "active (wfiles s' ! i)"
      by (auto simp: cnt_pos_iff in_set_conv_nth)
    then have "fd_of s' i \<in> webrset s'"
      using s'(1) unfolding sets_ok_def by blast
    then show ?thesis using rest by blast
  qed
  then show ?thesis using conn [OF inv assms(3)] by blast
qed


definition example_web :: web where
  "example_web = web_start ''h'' [''a'', ''b''] example_kernel"

lemmas example_web_defs = example_web_def web_start_def example_kernel_def MAXFILES_def Let_def

theorem web_counters_witness: "nlefttoread example_web = cnt unread (wfiles example_web) \<and> nlefttoread example_web = 2"
proof -
  have "nlefttoread example_web = cnt unread (wfiles example_web)"
    using web_counters [of 1 "''h''" "[''a'', ''b'']" example_kernel example_web]
    unfolding example_web_def by (blast intro: web_begin)
  then show ?thesis by (simp add: example_web_defs)
qed

theorem web_makes_connections_witness:
  "\<exists>s'. web_connects 1 [(4, example_chan, Some EINPROGRESS)] example_web = Go s' \<and> webrset s' \<noteq> {}"
proof -
  have reach: "web_reach 1 (web_start ''h'' [''a'', ''b''] example_kernel) example_web"
    unfolding example_web_def by (rule web_begin)
  have "\<exists>s'. web_connects 1 [(4, example_chan, Some EINPROGRESS)] example_web = Go s'"
    by (simp add: web_connects.simps start_connect_def accepted_def example_web_defs)
  moreover have "0 < nlefttoread example_web" "fresh_attempts (open_fds example_web) [(4, example_chan, Some EINPROGRESS)]"
    by (simp_all add: example_web_defs)
  ultimately show ?thesis
    using web_makes_connections [OF reach, of "[(4, example_chan, Some EINPROGRESS)]"] by auto
qed

text \<open>
  A request that is longer than the array: \<open>snprintf\<close> returns the length of the whole text, and
  \<open>Writen\<close> reads behind the array.
\<close>

lemma write_get_cmd_overrun: "4082 < length (f_name (wfiles s ! i)) \<Longrightarrow> write_get_cmd i s = Fault"
  by (simp add: write_get_cmd_def get_cmd_def MAXLINE_def Let_def)

end
