(* ===== verification/Webthreads_Props.thy ===== *)
theory Webthreads_Props
  imports Webthreads Web_Props
begin

text \<open>
  The web client with \<open>thr_join\<close> ends on every schedule with all files read. The one with a
  condition variable can block for ever, because it waits for a thread while it holds the
  mutex that the thread needs; the one that polls can miss a thread for ever, because it sets
  the flag of a file after it has started the thread.
\<close>

section \<open>Runs with a given order\<close>

lemma run_agents_reach: "run_agents main fetch as s = Some t \<Longrightarrow> (mutex_step main fetch)\<^sup>*\<^sup>* s t"
proof (induction "as" arbitrary: s)
  case (Cons a "as")
  then obtain s' where "agent_step main fetch a s = Some s'" "run_agents main fetch as s' = Some t"
    by (auto split: option.splits)
  then show ?case
    using Cons.IH mutex_step.agents [of main fetch a s s'] by (metis converse_rtranclp_into_rtranclp)
qed simp

text \<open>A property that every step keeps holds for ever.\<close>

lemma forever: "r\<^sup>*\<^sup>* s t \<Longrightarrow> P s \<Longrightarrow> (\<And>s s'. r s s' \<Longrightarrow> P s \<Longrightarrow> P s') \<Longrightarrow> P t"
  by (induction rule: rtranclp_induct) blast+

section \<open>\<open>web03.c\<close> can block for ever\<close>

text \<open>The main thread waits for thread \<open>i\<close>, which waits for the mutex of the main thread.\<close>

definition stuck03 :: "nat \<Rightarrow> wstate \<Rightarrow> bool" where
  "stuck03 i s \<longleftrightarrow> mpc s = M_join i \<and> i < length (wpc s) \<and> wpc s ! i = W_lock \<and> ndone_mutex s = Some Main \<and>
     (\<forall>j < length (wpc s). wpc s ! j \<noteq> W_incr \<and> wpc s ! j \<noteq> W_signal \<and> wpc s ! j \<noteq> W_unlock)"

lemma stuck03_step: "step03 maxnconn reads s s' \<Longrightarrow> stuck03 i s \<Longrightarrow> stuck03 i s'"
proof (induction rule: mutex_step.induct)
  case (agents a s s')
  show ?case
  proof (cases a)
    case Main
    then show ?thesis using agents by (simp add: stuck03_def)
  next
    case (Fetcher j)
    then have j: "j < length (wpc s)" and step: "fetch_count_step True reads j s = Some s'"
      using agents by (simp_all split: if_splits)
    have "wpc s ! j \<noteq> W_incr" "wpc s ! j \<noteq> W_signal" "wpc s ! j \<noteq> W_unlock" "wpc s ! j \<noteq> W_lock"
      using agents.prems j step by (auto simp: stuck03_def)
    moreover from this(4) have "j \<noteq> i" using agents.prems by (auto simp: stuck03_def)
    ultimately show ?thesis
      using agents.prems step j by (cases "wpc s ! j") (auto simp: stuck03_def nth_list_update split: if_splits)
  qed
qed (simp add: stuck03_def)

definition schedule03 :: "agent list" where
  "schedule03 = replicate 10 Main @ replicate 7 (Fetcher 0) @ replicate 3 (Fetcher 1) @ replicate 6 Main"

lemma schedule03_runs:
  "\<exists>s. run_agents (main03_step 2) (fetch_count_step True (\<lambda>_. 0)) schedule03 (threads_start 2) = Some s \<and>
     stuck03 1 s \<and> wflags s ! 1 = F_DONE"
proof -
  have a: "schedule03 = [Main, Main, Main, Main, Main, Main, Main, Main, Main, Main,
      Fetcher 0, Fetcher 0, Fetcher 0, Fetcher 0, Fetcher 0, Fetcher 0, Fetcher 0, Fetcher 1, Fetcher 1, Fetcher 1,
      Main, Main, Main, Main, Main, Main]"
    by (simp add: schedule03_def numeral_eq_Suc)
  have b: "threads_start 2 = \<lparr>wflags = [0, 0], tconn = 0, tlefttoconn = 2, tlefttoread = 2, ndone = 0,
      ndone_mutex = None, mpc = M_outer, wpc = [W_none, W_none]\<rparr>"
    by (simp add: threads_start_def numeral_2_eq_2)
  show ?thesis
    unfolding a b by (simp add: flags has_flag_def stuck03_def All_less_Suc)
qed

text \<open>
  With two files there is a schedule after which the program never ends, although each
  thread has read its file: the main thread joins a thread that is about to lock the mutex.
\<close>

theorem web03_blocks:
  "\<exists>s. (step03 2 (\<lambda>_. 0))\<^sup>*\<^sup>* (threads_start 2) s \<and> wflags s ! 1 = F_DONE \<and>
    (\<nexists>t. (step03 2 (\<lambda>_. 0))\<^sup>*\<^sup>* s t \<and> (mpc t = M_exit \<or> wpc t ! 1 = W_end))"
proof -
  obtain s where s: "run_agents (main03_step 2) (fetch_count_step True (\<lambda>_. 0)) schedule03 (threads_start 2) = Some s"
    and stuck: "stuck03 1 s" and f: "wflags s ! 1 = F_DONE" using schedule03_runs by blast
  have "stuck03 1 t" if "(step03 2 (\<lambda>_. 0))\<^sup>*\<^sup>* s t" for t
    by (rule forever [where P = "stuck03 1", OF that stuck]) (rule stuck03_step)
  then show ?thesis using run_agents_reach [OF s] f by (fastforce simp: stuck03_def)
qed

section \<open>\<open>web02.c\<close> can look for ever\<close>

text \<open>The only thread has ended, and its file is marked as being connected.\<close>

definition stuck02 :: "wstate \<Rightarrow> bool" where
  "stuck02 s \<longleftrightarrow> wflags s = [F_CONNECTING] \<and> wpc s = [W_end] \<and> tlefttoread s = 1 \<and>
     (ndone_mutex s = None \<or> ndone_mutex s = Some Main) \<and>
     (case mpc s of M_count \<Rightarrow> tlefttoconn s = 1
      | M_inner \<Rightarrow> tlefttoconn s = 0 | M_outer \<Rightarrow> tlefttoconn s = 0 | M_lock \<Rightarrow> tlefttoconn s = 0
      | M_ndone \<Rightarrow> tlefttoconn s = 0 | M_scan i \<Rightarrow> tlefttoconn s = 0 | M_unlock \<Rightarrow> tlefttoconn s = 0
      | _ \<Rightarrow> False)"

lemma stuck02_step: "step02 maxnconn reads s s' \<Longrightarrow> stuck02 s \<Longrightarrow> stuck02 s'"
proof (induction rule: mutex_step.induct)
  case (agents a s s')
  show ?case
  proof (cases a)
    case Main
    then show ?thesis using agents
      by (cases "mpc s") (auto simp: stuck02_def flags has_flag_def split: if_splits option.splits)
  next
    case (Fetcher j)
    then show ?thesis using agents by (auto simp: stuck02_def split: if_splits)
  qed
qed (simp add: stuck02_def)

definition schedule02 :: "agent list" where
  "schedule02 = replicate 3 Main @ replicate 6 (Fetcher 0) @ [Main]"

lemma schedule02_runs:
  "\<exists>s. run_agents (main02_step 1) (fetch_count_step False (\<lambda>_. 0)) schedule02 (threads_start 1) = Some s \<and>
     stuck02 s \<and> ndone s = 1"
proof -
  have a: "schedule02 = [Main, Main, Main, Fetcher 0, Fetcher 0, Fetcher 0, Fetcher 0, Fetcher 0, Fetcher 0, Main]"
    by (simp add: schedule02_def numeral_eq_Suc)
  show ?thesis unfolding a by (simp add: threads_start_def flags has_flag_def stuck02_def)
qed

text \<open>
  With one file there is a schedule after which the program never ends, although the
  thread has read the file and counted itself in \<open>ndone\<close>: the main thread has set the flag of
  the file after the thread had set \<open>F_DONE\<close>.
\<close>

theorem web02_loses_file:
  "\<exists>s. (step02 1 (\<lambda>_. 0))\<^sup>*\<^sup>* (threads_start 1) s \<and> wpc s = [W_end] \<and> ndone s = 1 \<and>
    (\<nexists>t. (step02 1 (\<lambda>_. 0))\<^sup>*\<^sup>* s t \<and> mpc t = M_exit)"
proof -
  obtain s where s: "run_agents (main02_step 1) (fetch_count_step False (\<lambda>_. 0)) schedule02 (threads_start 1) = Some s"
    and stuck: "stuck02 s" and n: "ndone s = 1" using schedule02_runs by blast
  have "stuck02 t" if "(step02 1 (\<lambda>_. 0))\<^sup>*\<^sup>* s t" for t
    by (rule forever [where P = stuck02, OF that stuck]) (rule stuck02_step)
  then show ?thesis using run_agents_reach [OF s] stuck n by (fastforce simp: stuck02_def)
qed

section \<open>\<open>web01.c\<close> ends\<close>










subsection \<open>Every step keeps the invariant\<close>











subsection \<open>Every step comes nearer to the end\<close>

fun mrank :: "mainpc \<Rightarrow> int" where
  "mrank M_thr_join = 1"
| "mrank (M_create i) = 2"
| "mrank (M_flag i) = 3"
| "mrank M_inner = 4"
| "mrank M_outer = 5"
| "mrank M_count = 5"
| "mrank _ = 0"

fun wrank :: "nat \<Rightarrow> workerpc \<Rightarrow> int" where
  "wrank r W_none = int r + 14"
| "wrank r W_connect = int r + 8"
| "wrank r (W_read k) = int k + 7"
| "wrank r W_flag = 6"
| "wrank r W_end = 5"
| "wrank r _ = 0"

definition left01 :: "(nat \<Rightarrow> nat) \<Rightarrow> wstate \<Rightarrow> int" where
  "left01 reads s = mrank (mpc s) + (\<Sum>i < length (wpc s). wrank (reads i) (wpc s ! i))"

lemma sum_nth_update:
  fixes f :: "nat \<Rightarrow> 'a \<Rightarrow> int"
  assumes "i < length xs"
  shows "(\<Sum>j < length xs. f j (xs[i := x] ! j)) = (\<Sum>j < length xs. f j (xs ! j)) + f i x - f i (xs ! i)"
proof -
  have "(\<Sum>j \<in> {..<length xs} - {i}. f j (xs[i := x] ! j)) = (\<Sum>j \<in> {..<length xs} - {i}. f j (xs ! j))"
    by (rule sum.cong) auto
  then show ?thesis using assms by (simp add: sum.remove [of "{..<length xs}" i])
qed

lemma left01_update [simp]:
  assumes "i < length (wpc s)"
  shows "left01 reads (s\<lparr>wpc := (wpc s)[i := p]\<rparr>) = left01 reads s + wrank (reads i) p - wrank (reads i) (wpc s ! i)"
  using sum_nth_update [OF assms, of "\<lambda>j. wrank (reads j)" p] by (simp add: left01_def)











end
