(* ===== verification/Connect.thy ===== *)
theory Connect
  imports Gai
begin

text \<open>
  The helpers that look up a name and make a socket for one of its addresses:
  \<open>lib/tcp_connect.c\<close>, \<open>tcp_listen.c\<close>, \<open>udp_client.c\<close>, \<open>udp_connect.c\<close>, \<open>udp_server.c\<close> and
  \<open>host_serv.c\<close>, over the \<open>getaddrinfo\<close> of \<open>libgai\<close>.

  What the kernel does is the argument \<open>net\<close>: for each entry tried (they are numbered), what
  \<open>socket\<close> returns for its family, type and protocol, and then what \<open>connect\<close> or \<open>bind\<close> returns
  for its address. The set of open descriptors is
  explicit; a call that ends the process says why.
\<close>

section \<open>Outcomes\<close>

datatype 'a called = Ok 'a | Quits string

type_synonym network = "nat \<Rightarrow> addrinfo \<Rightarrow> errno + int \<times> status"

record env =
  heap :: gheap
  fds :: "int set"

text \<open>
  The loop that all of them have: the first entry for which everything succeeds, with its
  descriptor; a descriptor that cannot be used is closed. \<open>prep\<close> is what happens between the two
  calls: \<open>tcp_listen\<close> calls \<open>Setsockopt\<close>, which ends the process when it fails.
\<close>

datatype tried = Found int addrinfo | Nobody | Aborted string

fun try_entries :: "(nat \<Rightarrow> status) \<Rightarrow> network \<Rightarrow> nat \<Rightarrow> addrinfo list \<Rightarrow> int set \<Rightarrow> tried \<times> int set" where
  "try_entries prep net k [] open = (Nobody, open)"
| "try_entries prep net k (res # ais) open =
    (case net k res of
       Inl e \<Rightarrow> try_entries prep net (Suc k) ais open
     | Inr (sockfd, st) \<Rightarrow>
         if prep k \<noteq> None then (Aborted ''setsockopt error'', insert sockfd open)
         else if st = None then (Found sockfd res, insert sockfd open)
         else try_entries prep net (Suc k) ais (insert sockfd open - {sockfd}))"

definition make_hints :: "cint \<Rightarrow> int \<Rightarrow> int \<Rightarrow> addrinfo" where
  "make_hints flags family socktype = blank_hints\<lparr>ai_flags := flags, ai_family := family, ai_socktype := socktype\<rparr>"

text \<open>
  Looking up, trying and freeing: \<open>finish\<close> is what the function does with the entry it has
  found, before the list is freed.
\<close>

definition with_entry :: "bool \<Rightarrow> resolver \<Rightarrow> string \<Rightarrow> (nat \<Rightarrow> status) \<Rightarrow> network \<Rightarrow> string option \<Rightarrow> string option \<Rightarrow> addrinfo \<Rightarrow>
    (int \<Rightarrow> addrinfo \<Rightarrow> env \<Rightarrow> 'a called \<times> env) \<Rightarrow> env \<Rightarrow> 'a called \<times> env" where
  "with_entry be rs name prep net host serv hints finish s =
    (case getaddrinfo be rs host serv (Some hints) (heap s) of
       (Gai_error e, h) \<Rightarrow> (Quits (name @ '' error: '' @ gai_strerror e), s\<lparr>heap := h\<rparr>)
     | (Gai_exit m, h) \<Rightarrow> (Quits m, s\<lparr>heap := h\<rparr>)
     | (Gai_list ressave, h) \<Rightarrow>
         (case try_entries prep net 0 ressave (fds s) of
            (Nobody, open) \<Rightarrow> (Quits (name @ '' error''), s\<lparr>heap := h, fds := open\<rparr>)
          | (Aborted m, open) \<Rightarrow> (Quits m, s\<lparr>heap := h, fds := open\<rparr>)
          | (Found sockfd res, open) \<Rightarrow>
              (case finish sockfd res (s\<lparr>heap := h, fds := open\<rparr>) of
                 (Ok r, s') \<Rightarrow> (Ok r, s'\<lparr>heap := freeaddrinfo ressave (heap s')\<rparr>)
               | (Quits m, s') \<Rightarrow> (Quits m, s'))))"

section \<open>The functions\<close>

definition tcp_connect :: "bool \<Rightarrow> resolver \<Rightarrow> network \<Rightarrow> string option \<Rightarrow> string option \<Rightarrow> env \<Rightarrow> int called \<times> env" where
  "tcp_connect be rs net host serv s =
    with_entry be rs ''tcp_connect'' (\<lambda>k. None) net host serv (make_hints 0 AF_UNSPEC SOCK_STREAM) (\<lambda>sockfd res s. (Ok sockfd, s)) s"

definition udp_connect :: "bool \<Rightarrow> resolver \<Rightarrow> network \<Rightarrow> string option \<Rightarrow> string option \<Rightarrow> env \<Rightarrow> int called \<times> env" where
  "udp_connect be rs net host serv s =
    with_entry be rs ''udp_connect'' (\<lambda>k. None) net host serv (make_hints 0 AF_UNSPEC SOCK_DGRAM) (\<lambda>sockfd res s. (Ok sockfd, s)) s"

text \<open>
  \<open>Listen\<close> fails or not; the length of the address is stored when the caller wants it.
\<close>

definition tcp_listen :: "bool \<Rightarrow> resolver \<Rightarrow> (nat \<Rightarrow> status) \<Rightarrow> network \<Rightarrow> status \<Rightarrow> string option \<Rightarrow> string option \<Rightarrow> env \<Rightarrow> (int \<times> nat) called \<times> env" where
  "tcp_listen be rs sockopt net listen host serv s =
    with_entry be rs ''tcp_listen'' sockopt net host serv (make_hints AI_PASSIVE AF_UNSPEC SOCK_STREAM)
      (\<lambda>listenfd res s. (case listen of None \<Rightarrow> Ok (listenfd, ai_addrlen res) | Some e \<Rightarrow> Quits ''listen error'', s)) s"

definition udp_server :: "bool \<Rightarrow> resolver \<Rightarrow> network \<Rightarrow> string option \<Rightarrow> string option \<Rightarrow> env \<Rightarrow> (int \<times> nat) called \<times> env" where
  "udp_server be rs net host serv s =
    with_entry be rs ''udp_server'' (\<lambda>k. None) net host serv (make_hints AI_PASSIVE AF_UNSPEC SOCK_DGRAM)
      (\<lambda>sockfd res s. (Ok (sockfd, ai_addrlen res), s)) s"

text \<open>
  \<open>udp_client\<close> only makes the socket and returns a copy of the address, in a block of its own.
  \<open>socket\<close> is all it calls: what \<open>net\<close> says of \<open>connect\<close> is not used.
\<close>

definition socket_only :: "network \<Rightarrow> network" where
  "socket_only net = (\<lambda>k res. case net k res of Inl e \<Rightarrow> Inl e | Inr (fd, st) \<Rightarrow> Inr (fd, None))"

definition udp_client :: "bool \<Rightarrow> resolver \<Rightarrow> network \<Rightarrow> string option \<Rightarrow> string option \<Rightarrow> env \<Rightarrow>
    (int \<times> sockaddr option \<times> nat) called \<times> env" where
  "udp_client be rs net host serv s =
    with_entry be rs ''udp_client'' (\<lambda>k. None) (socket_only net) host serv (make_hints 0 AF_UNSPEC SOCK_DGRAM)
      (\<lambda>sockfd res s. (case galloc (heap s) of
          (True, h) \<Rightarrow> (Ok (sockfd, ai_addr res, ai_addrlen res), s\<lparr>heap := h\<rparr>)
        | (False, h) \<Rightarrow> (Quits ''malloc error'', s\<lparr>heap := h\<rparr>))) s"

definition host_serv :: "bool \<Rightarrow> resolver \<Rightarrow> string option \<Rightarrow> string option \<Rightarrow> int \<Rightarrow> int \<Rightarrow> env \<Rightarrow> addrinfo list option \<times> env" where
  "host_serv be rs host serv family socktype s =
    (case getaddrinfo be rs host serv (Some (make_hints AI_CANONNAME family socktype)) (heap s) of
       (Gai_list ais, h) \<Rightarrow> (Some ais, s\<lparr>heap := h\<rparr>)
     | (r, h) \<Rightarrow> (None, s\<lparr>heap := h\<rparr>))"

definition Host_serv :: "bool \<Rightarrow> resolver \<Rightarrow> string option \<Rightarrow> string option \<Rightarrow> int \<Rightarrow> int \<Rightarrow> env \<Rightarrow> addrinfo list called \<times> env" where
  "Host_serv be rs host serv family socktype s =
    (case getaddrinfo be rs host serv (Some (make_hints AI_CANONNAME family socktype)) (heap s) of
       (Gai_list ais, h) \<Rightarrow> (Ok ais, s\<lparr>heap := h\<rparr>)
     | (Gai_error e, h) \<Rightarrow> (Quits (''host_serv error: '' @ gai_strerror e), s\<lparr>heap := h\<rparr>)
     | (Gai_exit m, h) \<Rightarrow> (Quits m, s\<lparr>heap := h\<rparr>))"

end
