(* ===== verification/Connect_Props.thy ===== *)
theory Connect_Props
  imports Connect Gai_Props
begin

text \<open>
  The helpers use the first entry that works, leave no other descriptor open and free the
  list; they end the process only when no entry works.
\<close>

section \<open>Trying the entries\<close>

text \<open>\<open>socket\<close> returns descriptors that are not open.\<close>

definition fresh_sockets :: "network \<Rightarrow> int set \<Rightarrow> bool" where
  "fresh_sockets net open \<longleftrightarrow> (\<forall>k res fd st. net k res = Inr (fd, st) \<longrightarrow> fd \<notin> open)"

definition works :: "network \<Rightarrow> nat \<Rightarrow> addrinfo \<Rightarrow> int \<Rightarrow> bool" where
  "works net k res fd \<longleftrightarrow> net k res = Inr (fd, None)"

lemma try_entries_found:
  assumes "fresh_sockets net open"
  shows "(\<exists>j < length ais. \<exists>fd. works net (k + j) (ais ! j) fd) \<Longrightarrow>
    \<exists>j fd. j < length ais \<and> works net (k + j) (ais ! j) fd \<and> (\<forall>i < j. \<forall>fd'. \<not> works net (k + i) (ais ! i) fd') \<and>
      try_entries (\<lambda>_. None) net k ais open = (Found fd (ais ! j), insert fd open)"
proof (induction ais arbitrary: k)
  case (Cons res ais)
  show ?case
  proof (cases "\<exists>fd. works net k res fd")
    case True
    then obtain fd where fd: "net k res = Inr (fd, None)" by (auto simp: works_def)
    then show ?thesis by (intro exI [of _ 0] exI [of _ fd]) (simp add: works_def)
  next
    case False
    have "\<exists>j < length ais. \<exists>fd. works net (Suc k + j) (ais ! j) fd"
    proof -
      obtain j fd where j: "j < length (res # ais)" "works net (k + j) ((res # ais) ! j) fd" using Cons.prems by blast
      then show ?thesis using False by (cases j) auto
    qed
    then obtain j fd where j: "j < length ais" "works net (Suc k + j) (ais ! j) fd"
      "\<forall>i < j. \<forall>fd'. \<not> works net (Suc k + i) (ais ! i) fd'"
      "try_entries (\<lambda>_. None) net (Suc k) ais open = (Found fd (ais ! j), insert fd open)"
      using Cons.IH [of "Suc k"] by blast
    have same: "insert x open - {x} = open" if "net k res = Inr (x, st)" for x st
      using assms that by (auto simp: fresh_sockets_def)
    have "try_entries (\<lambda>_. None) net k (res # ais) open = try_entries (\<lambda>_. None) net (Suc k) ais open"
      using False same by (auto simp: works_def split: sum.splits)
    moreover have "\<not> works net (k + i) ((res # ais) ! i) fd'" if "i < Suc j" for i fd'
      using that False j(3) by (cases i) auto
    ultimately show ?thesis using j by (intro exI [of _ "Suc j"] exI [of _ fd]) simp
  qed
qed simp

lemma try_entries_nobody:
  assumes "fresh_sockets net open"
  shows "\<forall>j < length ais. \<forall>fd. \<not> works net (k + j) (ais ! j) fd \<Longrightarrow> try_entries (\<lambda>_. None) net k ais open = (Nobody, open)"
proof (induction ais arbitrary: k)
  case (Cons res ais)
  have "\<forall>j < length ais. \<forall>fd. \<not> works net (Suc k + j) (ais ! j) fd" using Cons.prems by force
  moreover have "\<not> works net k res fd" for fd using Cons.prems by force
  moreover have "insert x open - {x} = open" if "net k res = Inr (x, st)" for x st
    using assms that by (auto simp: fresh_sockets_def)
  ultimately show ?case using Cons.IH [of "Suc k"] by (auto simp: works_def split: sum.splits)
qed simp

section \<open>The functions\<close>

text \<open>The list that \<open>getaddrinfo\<close> has found.\<close>

definition looked_up :: "bool \<Rightarrow> resolver \<Rightarrow> string option \<Rightarrow> string option \<Rightarrow> addrinfo \<Rightarrow> env \<Rightarrow> addrinfo list" where
  "looked_up be rs host serv hints s =
    (case getaddrinfo be rs host serv (Some hints) (heap s) of (Gai_list ais, h) \<Rightarrow> ais | _ \<Rightarrow> [])"

lemma getaddrinfo_looked_up:
  assumes "resolver_ok rs" and "\<not> is_unix_name host serv"
    and "getaddrinfo be rs host serv (Some (make_hints flags AF_UNSPEC t)) (heap s) = (r, h)"
  shows "(\<exists>ais. r = Gai_list ais \<and> looked_up be rs host serv (make_hints flags AF_UNSPEC t) s = ais \<and>
      (\<forall>ai \<in> set ais. entry_ok (make_hints flags AF_UNSPEC t) ai) \<and> live h = live (heap s) + blocks ais) \<or>
    (\<exists>e. r = Gai_error e \<and> looked_up be rs host serv (make_hints flags AF_UNSPEC t) s = [])"
  using getaddrinfo_post [OF assms(1,2), of "make_hints flags AF_UNSPEC t" "heap s" be] assms(3)
  by (auto simp: gai_post_def looked_up_def make_hints_def AF_defs list_all_iff split: gai_result.splits)

text \<open>The contract of the helpers that need nothing but a working entry.\<close>

lemma with_entry_correct:
  assumes "resolver_ok rs" and "\<not> is_unix_name host serv" and "fresh_sockets net (fds s)"
    and hints: "hints = make_hints flags AF_UNSPEC t" and ais: "ais = looked_up be rs host serv hints s"
    and fin: "\<And>fd res s. finish fd res s = (Ok (r fd res), s)"
  shows "(\<exists>j < length ais. \<exists>fd. works net j (ais ! j) fd \<and> (\<forall>i < j. \<forall>fd'. \<not> works net i (ais ! i) fd') \<and>
      entry_ok hints (ais ! j) \<and>
      (\<exists>s'. with_entry be rs name (\<lambda>_. None) net host serv hints finish s = (Ok (r fd (ais ! j)), s') \<and>
        fds s' = insert fd (fds s) \<and> live (heap s') = live (heap s))) \<or>
    (\<forall>j < length ais. \<forall>fd. \<not> works net j (ais ! j) fd) \<and>
      (\<exists>m s'. with_entry be rs name (\<lambda>_. None) net host serv hints finish s = (Quits m, s') \<and> fds s' = fds s)"
proof -
  obtain out h where g: "getaddrinfo be rs host serv (Some hints) (heap s) = (out, h)" by fastforce
  consider "out = Gai_list ais" "\<forall>ai \<in> set ais. entry_ok hints ai" "live h = live (heap s) + blocks ais"
    | e where "out = Gai_error e" "ais = []"
    using getaddrinfo_looked_up [OF assms(1,2) g [unfolded hints]] ais unfolding hints by auto
  then show ?thesis
  proof cases
    case 1
    show ?thesis
    proof (cases "\<exists>j < length ais. \<exists>fd. works net (0 + j) (ais ! j) fd")
      case True
      obtain j fd where j: "j < length ais" "works net (0 + j) (ais ! j) fd" "\<forall>i < j. \<forall>fd'. \<not> works net (0 + i) (ais ! i) fd'"
        "try_entries (\<lambda>_. None) net 0 ais (fds s) = (Found fd (ais ! j), insert fd (fds s))"
        using try_entries_found [OF assms(3) True] by blast
      then have "with_entry be rs name (\<lambda>_. None) net host serv hints finish s =
          (Ok (r fd (ais ! j)), s\<lparr>heap := freeaddrinfo ais h, fds := insert fd (fds s)\<rparr>)"
        using 1 g by (simp add: with_entry_def fin)
      moreover have "live (freeaddrinfo ais h) = live (heap s)" using 1(3) by (simp add: freeaddrinfo_live)
      moreover have "entry_ok hints (ais ! j)" using 1(2) j(1) by simp
      ultimately show ?thesis using j by (intro disjI1 exI [of _ j] exI [of _ fd] conjI) simp_all
    next
      case False
      then have "with_entry be rs name (\<lambda>_. None) net host serv hints finish s =
          (Quits (name @ '' error''), s\<lparr>heap := h, fds := fds s\<rparr>)"
        using 1 g try_entries_nobody [OF assms(3), of ais 0] by (simp add: with_entry_def)
      then show ?thesis using False by auto
    qed
  next
    case (2 e)
    then show ?thesis using g by (simp add: with_entry_def)
  qed
qed

text \<open>
  C26: \<open>tcp_connect\<close> returns the descriptor of the first address of the host that accepts the
  connection, on a stream socket of the family of this address; no other descriptor is left
  open and the list is freed. When no address accepts, the process ends.
\<close>

theorem tcp_connect_correct:
  assumes "resolver_ok rs" and "\<not> is_unix_name host serv" and "fresh_sockets net (fds s)"
    and "ais = looked_up be rs host serv (make_hints 0 AF_UNSPEC SOCK_STREAM) s"
  shows "if \<exists>j fd. j < length ais \<and> works net j (ais ! j) fd then
      \<exists>j fd s'. tcp_connect be rs net host serv s = (Ok fd, s') \<and> fds s' = insert fd (fds s) \<and> live (heap s') = live (heap s) \<and>
        j < length ais \<and> works net j (ais ! j) fd \<and> (\<forall>i < j. \<forall>fd'. \<not> works net i (ais ! i) fd') \<and>
        ai_socktype (ais ! j) = SOCK_STREAM \<and> ai_family (ais ! j) \<in> {AF_INET, AF_INET6}
    else \<exists>m s'. tcp_connect be rs net host serv s = (Quits m, s') \<and> fds s' = fds s"
proof -
  let ?hints = "make_hints 0 AF_UNSPEC SOCK_STREAM"
  let ?call = "with_entry be rs ''tcp_connect'' (\<lambda>_. None) net host serv ?hints (\<lambda>sockfd res s. (Ok sockfd, s)) s"
  consider j fd s' where "j < length ais" "works net j (ais ! j) fd" "\<forall>i < j. \<forall>fd'. \<not> works net i (ais ! i) fd'"
      "entry_ok ?hints (ais ! j)" "?call = (Ok fd, s')" "fds s' = insert fd (fds s)" "live (heap s') = live (heap s)"
    | m s' where "\<forall>j < length ais. \<forall>fd. \<not> works net j (ais ! j) fd" "?call = (Quits m, s')" "fds s' = fds s"
    using with_entry_correct [OF assms(1-3) refl assms(4), of "\<lambda>sockfd res s. (Ok sockfd, s)" "\<lambda>fd res. fd" "''tcp_connect''"]
    by auto
  then show ?thesis
  proof cases
    case 1
    then have "ai_socktype (ais ! j) = SOCK_STREAM" "ai_family (ais ! j) \<in> {AF_INET, AF_INET6}"
      by (auto simp: entry_ok_def make_hints_def SOCK_STREAM_def)
    moreover have "\<exists>j fd. j < length ais \<and> works net j (ais ! j) fd" using 1 by blast
    ultimately show ?thesis using 1 unfolding tcp_connect_def by (simp only: if_True) blast
  next
    case 2
    then show ?thesis unfolding tcp_connect_def by auto
  qed
qed

theorem tcp_connect_correct_witness:
  "\<exists>fd s'. tcp_connect False no_resolver (\<lambda>k res. Inr (4, None)) (Some ''10.0.0.1'') (Some ''80'')
      \<lparr>heap = \<lparr>alloc_fails = [], live = 0, unlinked = []\<rparr>, fds = {0, 1, 2}\<rparr> = (Ok fd, s') \<and> fds s' = {0, 1, 2, fd} \<and> live (heap s') = 0"
proof -
  let ?s = "\<lparr>heap = \<lparr>alloc_fails = [], live = 0, unlinked = []\<rparr>, fds = {0, 1, 2}\<rparr>"
  let ?net = "\<lambda>k res. Inr (4, None)"
  let ?ais = "looked_up False no_resolver (Some ''10.0.0.1'') (Some ''80'') (make_hints 0 AF_UNSPEC SOCK_STREAM) ?s"
  have "?ais \<noteq> []" by code_simp
  then have w: "\<exists>j fd. j < length ?ais \<and> works ?net j (?ais ! j) fd" by (auto simp: works_def)
  have "resolver_ok no_resolver" by (simp add: resolver_ok_def no_resolver_def)
  moreover have "\<not> is_unix_name (Some ''10.0.0.1'') (Some ''80'')" by (simp add: is_unix_name_def)
  moreover have "fresh_sockets ?net (fds ?s)" by (simp add: fresh_sockets_def)
  ultimately show ?thesis
    using w tcp_connect_correct [of no_resolver "Some ''10.0.0.1''" "Some ''80''" ?net ?s ?ais False] by auto
qed

text \<open>The same for the datagram client over \<open>connect\<close> and for the server.\<close>

lemma udp_connect_correct:
  assumes "resolver_ok rs" and "\<not> is_unix_name host serv" and "fresh_sockets net (fds s)"
    and "udp_connect be rs net host serv s = (Ok fd, s')"
  shows "fds s' = insert fd (fds s) \<and> fd \<notin> fds s \<and> live (heap s') = live (heap s)"
  using with_entry_correct [OF assms(1-3) refl refl, of "\<lambda>sockfd res s. (Ok sockfd, s)" "\<lambda>fd res. fd" be 0 SOCK_DGRAM "''udp_connect''"]
    assms(3,4) by (auto simp: udp_connect_def works_def fresh_sockets_def)

lemma udp_server_correct:
  assumes "resolver_ok rs" and "\<not> is_unix_name host serv" and "fresh_sockets net (fds s)"
    and "udp_server be rs net host serv s = (Ok (fd, len), s')"
  shows "fds s' = insert fd (fds s) \<and> fd \<notin> fds s \<and> live (heap s') = live (heap s)"
  using with_entry_correct [OF assms(1-3) refl refl, of "\<lambda>sockfd res s. (Ok (sockfd, ai_addrlen res), s)"
      "\<lambda>fd res. (fd, ai_addrlen res)" be AI_PASSIVE SOCK_DGRAM "''udp_server''"]
    assms(3,4) by (auto simp: udp_server_def works_def fresh_sockets_def)

end
