(* ===== verification/Icmp.thy ===== *)
theory Icmp
  imports Sockaddr Rtt
begin

text \<open>
  The packets of \<open>ping\<close> and \<open>traceroute\<close>: what \<open>ping/send_v4.c\<close>, \<open>send_v6.c\<close>, \<open>proc_v4.c\<close>,
  \<open>proc_v6.c\<close>, \<open>traceroute/recv_v4.c\<close> and \<open>recv_v6.c\<close> put into buffers and find in them, and the
  loop of \<open>traceroute/traceloop.c\<close>.

  A buffer is the array of \<open>BUFSIZE\<close> octets, of which the first \<open>n\<close> have just been received; the
  rest is what an earlier packet has left there. The headers are read at the offsets of the
  structures of \<open>netinet\<close>, 16-bit fields in the byte order of the host (\<open>be\<close>), and a \<open>timeval\<close>
  is two signed integers of \<open>w\<close> octets each.
\<close>

section \<open>Integers in a buffer\<close>

definition BUFSIZE :: nat where "BUFSIZE = 1500"

definition put_int :: "bool \<Rightarrow> nat \<Rightarrow> int \<Rightarrow> octet list" where
  "put_int be w i = (if be then rev (le_octets w i) else le_octets w i)"

definition get_int :: "bool \<Rightarrow> octet list \<Rightarrow> int" where
  "get_int be as =
    (let v = le_value (if be then rev as else as) in if 2 * v < 256 ^ length as then v else v - 256 ^ length as)"

definition put_timeval :: "bool \<Rightarrow> nat \<Rightarrow> timeval \<Rightarrow> octet list" where
  "put_timeval be w tv = put_int be w (tv_sec tv) @ put_int be w (tv_usec tv)"

definition get_timeval :: "bool \<Rightarrow> nat \<Rightarrow> octet list \<Rightarrow> timeval" where
  "get_timeval be w as = \<lparr>tv_sec = get_int be (take w as), tv_usec = get_int be (take w (drop w as))\<rparr>"

text \<open>The octets of a 16-bit value in memory, and the value at an offset.\<close>

definition octets16 :: "bool \<Rightarrow> 16 word \<Rightarrow> octet list" where
  "octets16 be v = (if be then [ucast (drop_bit 8 v), ucast v] else [ucast v, ucast (drop_bit 8 v)])"

definition at16 :: "bool \<Rightarrow> octet list \<Rightarrow> nat \<Rightarrow> 16 word" where
  "at16 be buf i = host16 be (buf ! i) (buf ! Suc i)"

definition overwrite :: "nat \<Rightarrow> octet list \<Rightarrow> octet list \<Rightarrow> octet list" where
  "overwrite i as buf = take i buf @ as @ drop (i + length as) buf"

text \<open>Fields of an IPv4 header at \<open>i\<close>: the header length in octets.\<close>

definition ip_hlen :: "octet list \<Rightarrow> nat \<Rightarrow> nat" where
  "ip_hlen buf i = 4 * unat (buf ! i AND 15)"

definition IPPROTO_ICMP :: octet where "IPPROTO_ICMP = 1"
definition IPPROTO_UDP :: octet where "IPPROTO_UDP = 17"
definition ICMP_ECHOREPLY :: octet where "ICMP_ECHOREPLY = 0"
definition ICMP_ECHO :: octet where "ICMP_ECHO = 8"
definition ICMP_UNREACH :: octet where "ICMP_UNREACH = 3"
definition ICMP_UNREACH_PORT :: octet where "ICMP_UNREACH_PORT = 3"
definition ICMP_TIMXCEED :: octet where "ICMP_TIMXCEED = 11"
definition ICMP_TIMXCEED_INTRANS :: octet where "ICMP_TIMXCEED_INTRANS = 0"
definition ICMP6_DST_UNREACH :: octet where "ICMP6_DST_UNREACH = 1"
definition ICMP6_DST_UNREACH_NOPORT :: octet where "ICMP6_DST_UNREACH_NOPORT = 4"
definition ICMP6_TIME_EXCEEDED :: octet where "ICMP6_TIME_EXCEEDED = 3"
definition ICMP6_TIME_EXCEED_TRANSIT :: octet where "ICMP6_TIME_EXCEED_TRANSIT = 0"
definition ICMP6_ECHO_REQUEST :: octet where "ICMP6_ECHO_REQUEST = 128"
definition ICMP6_ECHO_REPLY :: octet where "ICMP6_ECHO_REPLY = 129"

section \<open>\<open>ping\<close>: sending\<close>

record pinger =
  sendbuf :: "octet list"
  datalen :: nat
  nsent :: int
  our_pid :: int

text \<open>
  The two functions fill the same fields: the type, the code, the process number and the
  sequence number in the byte order of the host, a pattern and the time.
\<close>

definition echo_request :: "bool \<Rightarrow> nat \<Rightarrow> octet \<Rightarrow> timeval \<Rightarrow> pinger \<Rightarrow> octet list" where
  "echo_request be w type now s =
    overwrite 8 (put_timeval be w now) (overwrite 8 (replicate (datalen s) 0xa5)
      (overwrite 6 (octets16 be (of_int (nsent s))) (overwrite 4 (octets16 be (of_int (our_pid s)))
        (overwrite 0 [type, 0] (sendbuf s)))))"

definition send_v4 :: "bool \<Rightarrow> nat \<Rightarrow> timeval \<Rightarrow> pinger \<Rightarrow> octet list \<times> pinger" where
  "send_v4 be w now s =
    (let len = 8 + datalen s;
         buf = overwrite 2 [0, 0] (echo_request be w ICMP_ECHO now s);
         buf' = overwrite 2 (octets16 be (in_cksum be (take len buf))) buf
     in (take len buf', s\<lparr>sendbuf := buf', nsent := nsent s + 1\<rparr>))"

text \<open>The kernel computes the checksum of ICMPv6.\<close>

definition send_v6 :: "bool \<Rightarrow> nat \<Rightarrow> timeval \<Rightarrow> pinger \<Rightarrow> octet list \<times> pinger" where
  "send_v6 be w now s =
    (let buf = echo_request be w ICMP6_ECHO_REQUEST now s
     in (take (8 + datalen s) buf, s\<lparr>sendbuf := buf, nsent := nsent s + 1\<rparr>))"

section \<open>\<open>ping\<close>: receiving\<close>

text \<open>
  What is printed: the length, the sequence number, the hop limit (\<open>None\<close> for ???) and the
  time in milliseconds, or the type and the code of another message. The address it came from
  is the one \<open>recvmsg\<close> has stored.
\<close>

datatype printed =
    Reply int "16 word" "int option" rat
  | Other int octet octet

definition milliseconds :: "timeval \<Rightarrow> rat" where
  "milliseconds tv = of_int (tv_sec tv) * 1000 + of_int (tv_usec tv) / 1000"

definition proc_v4 :: "bool \<Rightarrow> nat \<Rightarrow> int \<Rightarrow> bool \<Rightarrow> octet list \<Rightarrow> nat \<Rightarrow> timeval \<Rightarrow> printed option" where
  "proc_v4 be w pid verbose ptr len tvrecv =
    (let hlen1 = ip_hlen ptr 0; icmplen = int len - int hlen1
     in if ptr ! 9 \<noteq> IPPROTO_ICMP then None
        else if icmplen < 8 then None
        else if ptr ! hlen1 = ICMP_ECHOREPLY then
          (if uint (at16 be ptr (hlen1 + 4)) \<noteq> pid then None
           else if icmplen < 16 then None
           else Some (Reply icmplen (at16 be ptr (hlen1 + 6)) (Some (uint (ptr ! 8)))
                  (milliseconds (tv_sub tvrecv (get_timeval be w (drop (hlen1 + 8) ptr))))))
        else if verbose then Some (Other icmplen (ptr ! hlen1) (ptr ! (hlen1 + 1)))
        else None)"

text \<open>The control messages that come with the packet: level, type and value.\<close>

definition IPPROTO_IPV6 :: int where "IPPROTO_IPV6 = 41"
definition IPV6_HOPLIMIT :: int where "IPV6_HOPLIMIT = 52"

fun find_hlim :: "(int \<times> int \<times> 32 word) list \<Rightarrow> int" where
  "find_hlim [] = - 1"
| "find_hlim ((level, type, data) # cmsgs) =
    (if level = IPPROTO_IPV6 \<and> type = IPV6_HOPLIMIT then sint data else find_hlim cmsgs)"

definition proc_v6 :: "bool \<Rightarrow> nat \<Rightarrow> int \<Rightarrow> bool \<Rightarrow> octet list \<Rightarrow> nat \<Rightarrow> (int \<times> int \<times> 32 word) list \<Rightarrow> timeval \<Rightarrow> printed option" where
  "proc_v6 be w pid verbose ptr len cmsgs tvrecv =
    (if len < 8 then None
     else if ptr ! 0 = ICMP6_ECHO_REPLY then
       (if uint (at16 be ptr 4) \<noteq> pid then None
        else if len < 16 then None
        else (let hlim = find_hlim cmsgs
              in Some (Reply (int len) (at16 be ptr 6) (if hlim = - 1 then None else Some hlim)
                   (milliseconds (tv_sub tvrecv (get_timeval be w (drop 8 ptr)))))))
     else if verbose then Some (Other (int len) (ptr ! 0) (ptr ! 1))
     else None)"

section \<open>\<open>traceroute\<close>: receiving\<close>

text \<open>
  What the loop does with a packet: look for another one, the same after printing it if
  verbose, or return a value.
\<close>

datatype verdict = Again | Shown | Ret int

text \<open>The quoted datagram at \<open>i\<close> is one of ours: lines 54 to 56 and 71 to 73.\<close>

definition our_udp :: "bool \<Rightarrow> int \<Rightarrow> int \<Rightarrow> octet list \<Rightarrow> nat \<Rightarrow> nat \<Rightarrow> bool" where
  "our_udp be sport port buf proto udp \<longleftrightarrow> buf ! proto = IPPROTO_UDP \<and>
     at16 be buf udp = htons be sport \<and> at16 be buf (udp + 2) = htons be port"

text \<open>Lines 36 to 80 of \<open>recv_v4.c\<close>; \<open>port\<close> is \<open>dport + seq\<close>.\<close>

definition look_v4 :: "bool \<Rightarrow> int \<Rightarrow> int \<Rightarrow> octet list \<Rightarrow> nat \<Rightarrow> verdict" where
  "look_v4 be sport port buf n =
    (let hlen1 = ip_hlen buf 0; icmplen = int n - int hlen1;
         type = buf ! hlen1; code = buf ! (hlen1 + 1);
         hlen2 = ip_hlen buf (hlen1 + 8);
         ours = our_udp be sport port buf (hlen1 + 8 + 9) (hlen1 + 8 + hlen2)
     in if icmplen < 8 then Again
        else if type = ICMP_TIMXCEED \<and> code = ICMP_TIMXCEED_INTRANS then
          (if icmplen < 8 + 20 then Again
           else if icmplen < 8 + int hlen2 + 4 then Again
           else if ours then Ret (- 2) else Shown)
        else if type = ICMP_UNREACH then
          (if icmplen < 8 + 20 then Again
           else if icmplen < 8 + int hlen2 + 4 then Again
           else if ours then Ret (if code = ICMP_UNREACH_PORT then - 1 else uint code) else Shown)
        else Shown)"

text \<open>
  Lines 37 to 75 of \<open>recv_v6.c\<close>. The \<open>break\<close> behind the first comparison of ports is not part of
  the \<open>if\<close>; \<open>ret0\<close> is what the variable \<open>ret\<close>, which is not initialised, has at the beginning.
\<close>

definition look_v6 :: "int \<Rightarrow> bool \<Rightarrow> int \<Rightarrow> int \<Rightarrow> octet list \<Rightarrow> nat \<Rightarrow> verdict" where
  "look_v6 ret0 be sport port buf n =
    (let type = buf ! 0; code = buf ! 1; ours = our_udp be sport port buf (8 + 6) (8 + 40)
     in if n < 8 then Again
        else if type = ICMP6_TIME_EXCEEDED \<and> code = ICMP6_TIME_EXCEED_TRANSIT then
          (if n < 8 + 40 + 4 then Again else Ret (if ours then - 2 else ret0))
        else if type = ICMP6_DST_UNREACH then
          (if n < 8 + 40 + 4 then Again
           else if ours then Ret (if code = ICMP6_DST_UNREACH_NOPORT then - 1 else uint code) else Again)
        else Shown)"

text \<open>
  What happens while the function waits: a packet arrives, the alarm interrupts \<open>recvfrom\<close>, the
  alarm goes off just before \<open>recvfrom\<close> is called, or \<open>recvfrom\<close> fails.
\<close>

datatype rx = Packet "octet list" sockaddr | AlarmIn | AlarmBefore | RxFails errno

record receiver =
  recvbuf :: "octet list"
  gotalarm :: bool
  sarecv :: sockaddr
  shown :: "(octet \<times> octet) list"

datatype received = Returned int receiver "rx list" | Waiting receiver | Gone errno receiver

text \<open>A packet that is longer than the buffer is cut.\<close>

definition deposit :: "octet list \<Rightarrow> octet list \<Rightarrow> octet list" where
  "deposit p buf = take (length buf) p @ drop (length p) buf"

text \<open>
  The loop that both functions have. \<open>inside\<close>: the flag has been tested and \<open>recvfrom\<close> is about to
  be called. \<open>hdr\<close>: where the type of the message is.
\<close>

fun recv_loop :: "(octet list \<Rightarrow> nat \<Rightarrow> verdict) \<Rightarrow> (octet list \<Rightarrow> nat) \<Rightarrow> bool \<Rightarrow> bool \<Rightarrow> rx list \<Rightarrow> receiver \<Rightarrow> received" where
  "recv_loop look hdr verbose inside es s =
    (if \<not> inside \<and> gotalarm s then Returned (- 3) s es
     else case es of
       [] \<Rightarrow> Waiting s
     | AlarmBefore # es' \<Rightarrow> recv_loop look hdr verbose True es' (s\<lparr>gotalarm := True\<rparr>)
     | AlarmIn # es' \<Rightarrow> recv_loop look hdr verbose False es' (s\<lparr>gotalarm := True\<rparr>)
     | RxFails e # es' \<Rightarrow> if e = EINTR then recv_loop look hdr verbose False es' s else Gone e s
     | Packet p from # es' \<Rightarrow>
         (let buf = deposit p (recvbuf s); s' = s\<lparr>recvbuf := buf, sarecv := from\<rparr>
          in case look buf (min (length (recvbuf s)) (length p)) of
               Again \<Rightarrow> recv_loop look hdr verbose False es' s'
             | Shown \<Rightarrow> recv_loop look hdr verbose False es'
                 (if verbose then s'\<lparr>shown := shown s' @ [(buf ! hdr buf, buf ! (hdr buf + 1))]\<rparr> else s')
             | Ret r \<Rightarrow> Returned r s' es'))"

declare recv_loop.simps [simp del]

definition recv_v4 :: "bool \<Rightarrow> int \<Rightarrow> int \<Rightarrow> bool \<Rightarrow> rx list \<Rightarrow> receiver \<Rightarrow> received" where
  "recv_v4 be sport port verbose es s =
    recv_loop (look_v4 be sport port) (\<lambda>buf. ip_hlen buf 0) verbose False es (s\<lparr>gotalarm := False\<rparr>)"

definition recv_v6 :: "int \<Rightarrow> bool \<Rightarrow> int \<Rightarrow> int \<Rightarrow> bool \<Rightarrow> rx list \<Rightarrow> receiver \<Rightarrow> received" where
  "recv_v6 ret0 be sport port verbose es s =
    recv_loop (look_v6 ret0 be sport port) (\<lambda>buf. 0) verbose False es (s\<lparr>gotalarm := False\<rparr>)"

section \<open>\<open>traceloop.c\<close>\<close>

text \<open>
  What the loop prints: the hop, a star, the address when it differs from the last one, the
  time, and the name of a code.
\<close>

datatype trace_item = Hop nat | Star | From sockaddr | Millis rat | IcmpCode int

text \<open>
  \<open>probes\<close> are the datagrams sent: the numbers \<open>rec_seq\<close> and \<open>rec_ttl\<close> in the data, the hop limit of the
  socket and the address.
\<close>

record tracer = receiver +
  tseq :: int
  tdone :: nat
  sasend :: sockaddr
  salast :: "sockaddr option"
  probes :: "(16 word \<times> 16 word \<times> nat \<times> sockaddr) list"
  tprinted :: "trace_item list"

text \<open>The trace goes on, waits in \<open>recvfrom\<close>, or has ended the process in a wrapper.\<close>

datatype traced = Trace tracer | Waits tracer | Exited tracer

text \<open>Lines 54 to 74 of \<open>traceloop.c\<close>: what is printed for a probe.\<close>

definition report :: "int \<Rightarrow> timeval \<Rightarrow> timeval \<Rightarrow> tracer \<Rightarrow> tracer" where
  "report code tvsend tvrecv s =
    (if code = - 3 then s\<lparr>tprinted := tprinted s @ [Star]\<rparr>
     else
       (let new = (case salast s of None \<Rightarrow> True | Some a \<Rightarrow> sock_cmp_addr (sarecv s) a \<noteq> 0);
            s1 = (if new then s\<lparr>tprinted := tprinted s @ [From (sarecv s)], salast := Some (sarecv s)\<rparr> else s);
            s2 = s1\<lparr>tprinted := tprinted s1 @ [Millis (milliseconds (tv_sub tvrecv tvsend))]\<rparr>
        in if code = - 1 then s2\<lparr>tdone := tdone s2 + 1\<rparr>
           else if 0 \<le> code then s2\<lparr>tprinted := tprinted s2 @ [IcmpCode code]\<rparr> else s2))"

text \<open>
  One probe, lines 44 to 76, and the probes of a hop. \<open>net\<close> gives for a sequence number the result
  of \<open>sendto\<close>, what happens after the probe, and the times of day.
\<close>

type_synonym network = "int \<Rightarrow> status \<times> rx list \<times> timeval \<times> timeval"

definition probe :: "(int \<Rightarrow> rx list \<Rightarrow> receiver \<Rightarrow> received) \<Rightarrow> bool \<Rightarrow> int \<Rightarrow> network \<Rightarrow>
    nat \<Rightarrow> tracer \<Rightarrow> traced" where
  "probe recv be dport net ttl s =
    (let seq = tseq s + 1;
         to = sock_set_port (sasend s) (uint (htons be (dport + seq)));
         s0 = s\<lparr>tseq := seq, sasend := to\<rparr>;
         s1 = s0\<lparr>probes := probes s @ [(word_of_int seq, word_of_nat ttl, ttl, to)]\<rparr>;
         (st, es, tvsend, tvrecv) = net seq
     in if st \<noteq> None then Exited s0
        else case recv seq es (receiver.truncate s1) of
          Returned code r rest \<Rightarrow>
            Trace (report code tvsend tvrecv (s1\<lparr>recvbuf := recvbuf r, gotalarm := gotalarm r, sarecv := sarecv r, shown := shown r\<rparr>))
        | Waiting r \<Rightarrow> Waits s1
        | Gone e r \<Rightarrow> Exited s1)"

fun hop :: "(int \<Rightarrow> rx list \<Rightarrow> receiver \<Rightarrow> received) \<Rightarrow> bool \<Rightarrow> int \<Rightarrow> network \<Rightarrow> nat \<Rightarrow>
    nat \<Rightarrow> tracer \<Rightarrow> traced" where
  "hop recv be dport net ttl 0 s = Trace s"
| "hop recv be dport net ttl (Suc k) s =
    (case probe recv be dport net ttl s of Trace s' \<Rightarrow> hop recv be dport net ttl k s' | r \<Rightarrow> r)"

text \<open>
  Lines 36 to 79: \<open>left\<close> hops up to \<open>max_ttl\<close> from \<open>ttl\<close> on. \<open>setsockopt\<close> refuses a hop limit above
  \<open>MAXTTL\<close>, and the wrapper ends the process.
\<close>

definition MAXTTL :: nat where "MAXTTL = 255"

fun hops :: "(int \<Rightarrow> rx list \<Rightarrow> receiver \<Rightarrow> received) \<Rightarrow> bool \<Rightarrow> int \<Rightarrow> network \<Rightarrow> nat \<Rightarrow>
    nat \<Rightarrow> nat \<Rightarrow> tracer \<Rightarrow> traced" where
  "hops recv be dport net nprobes ttl 0 s = Trace s"
| "hops recv be dport net nprobes ttl (Suc left) s =
    (if tdone s = 0 then
       if MAXTTL < ttl then Exited s else
       (case hop recv be dport net ttl nprobes (s\<lparr>salast := None, tprinted := tprinted s @ [Hop ttl]\<rparr>) of
          Trace s' \<Rightarrow> hops recv be dport net nprobes (Suc ttl) left s'
        | r \<Rightarrow> r)
     else Trace s)"

definition traceloop :: "(int \<Rightarrow> rx list \<Rightarrow> receiver \<Rightarrow> received) \<Rightarrow> bool \<Rightarrow> int \<Rightarrow> network \<Rightarrow>
    nat \<Rightarrow> nat \<Rightarrow> tracer \<Rightarrow> traced" where
  "traceloop recv be dport net nprobes max_ttl s =
    hops recv be dport net nprobes 1 max_ttl (s\<lparr>tseq := 0, tdone := 0\<rparr>)"

end
