(* ===== verification/Icmp_Props.thy ===== *)
theory Icmp_Props
  imports Icmp Inet_Sum
begin

text \<open>
  The packets of \<open>ping\<close> come back as they were sent; the receiving functions of \<open>traceroute\<close>
  look only at octets that have been received and accept exactly the answers to the probe;
  and the trace sends the right probes and ends.
\<close>

section \<open>Integers in a buffer\<close>

definition fits :: "nat \<Rightarrow> int \<Rightarrow> bool" where
  "fits w i \<longleftrightarrow> - (256 ^ w) \<le> 2 * i \<and> 2 * i < 256 ^ w"

lemma length_put_int [simp]: "length (put_int be w i) = w"
  by (simp add: put_int_def)

lemma get_put_int: "fits w i \<Longrightarrow> get_int be (put_int be w i) = i"
proof -
  assume f: "fits w i"
  have v: "le_value (if be then rev (put_int be w i) else put_int be w i) = i mod 256 ^ w"
    by (simp add: put_int_def le_value_octets)
  show ?thesis
  proof (cases "0 \<le> i")
    case True
    then have "i mod 256 ^ w = i" using f by (simp add: fits_def)
    then show ?thesis using f unfolding get_int_def v by (simp add: fits_def)
  next
    case False
    then have "i mod 256 ^ w = i + 256 ^ w"
      using f mod_pos_pos_trivial [of "i + 256 ^ w" "256 ^ w"] by (simp add: fits_def)
    then show ?thesis using f unfolding get_int_def v by (simp add: fits_def)
  qed
qed

lemma length_put_timeval [simp]: "length (put_timeval be w tv) = 2 * w"
  by (simp add: put_timeval_def)

lemma get_put_timeval:
  "fits w (tv_sec tv) \<Longrightarrow> fits w (tv_usec tv) \<Longrightarrow> get_timeval be w (put_timeval be w tv @ rest) = tv"
  by (simp add: get_timeval_def put_timeval_def get_put_int)

lemma host16_octets [simp]: "octets16 be v = [a, b] \<Longrightarrow> host16 be a b = v"
proof -
  assume "octets16 be v = [a, b]"
  then have "host16 be a b = push_bit 8 (ucast (ucast (drop_bit 8 v) :: octet)) OR ucast (ucast v :: octet)"
    by (auto simp: octets16_def host16_def or.commute split: if_splits)
  moreover have "\<dots> = v"
    by (rule bit_word_eqI) (auto simp: bit_simps dest: bit_imp_le_length)
  ultimately show ?thesis by simp
qed

lemma octets16_pair: obtains a b where "octets16 be v = [a, b]" "host16 be a b = v"
proof -
  obtain a b where "octets16 be v = [a, b]" by (cases be) (simp_all add: octets16_def)
  then show ?thesis using that host16_octets by blast
qed

section \<open>\<open>ping\<close>\<close>

text \<open>The buffer as the eight octets of the header, the data and the rest.\<close>

lemma buffer_parts:
  assumes "length buf = BUFSIZE" and "8 + d \<le> BUFSIZE"
  obtains a b c e f g h i xs ys where "buf = a # b # c # e # f # g # h # i # xs @ ys" "length xs = d"
proof -
  have len: "8 \<le> length buf" using assms by simp
  then obtain a b c e f g h i zs where z: "buf = a # b # c # e # f # g # h # i # zs"
    by (auto simp: numeral_eq_Suc Suc_le_length_iff)
  moreover have "zs = take d zs @ drop d zs" "length (take d zs) = d" using assms z by simp_all
  ultimately show ?thesis using that by metis
qed

text \<open>The message that is sent, in parts.\<close>

definition message :: "bool \<Rightarrow> nat \<Rightarrow> octet list \<Rightarrow> octet list \<Rightarrow> timeval \<Rightarrow> pinger \<Rightarrow> octet list" where
  "message be w start csum now s = start @ csum @ octets16 be (of_int (our_pid s)) @ octets16 be (of_int (nsent s)) @
     put_timeval be w now @ replicate (datalen s - 2 * w) 0xa5"

lemma echo_request_message:
  assumes "length (sendbuf s) = BUFSIZE" and "8 + datalen s \<le> BUFSIZE" and "2 * w \<le> datalen s"
  shows "\<exists>c e rest. echo_request be w type now s = message be w [type, 0] [c, e] now s @ rest \<and>
    8 + datalen s + length rest = BUFSIZE"
proof -
  obtain a b c e f g h i xs ys where buf: "sendbuf s = a # b # c # e # f # g # h # i # xs @ ys" "length xs = datalen s"
    using buffer_parts [OF assms(1,2)] by blast
  obtain p q where p: "octets16 be (of_int (our_pid s)) = [p, q]" by (rule octets16_pair)
  obtain u v where u: "octets16 be (of_int (nsent s)) = [u, v]" by (rule octets16_pair)
  have "echo_request be w type now s = message be w [type, 0] [c, e] now s @ ys"
    unfolding echo_request_def message_def p u buf(1)
    using assms(3) buf(2) by (simp add: overwrite_def numeral_eq_Suc)
  moreover have "8 + datalen s + length ys = BUFSIZE" using assms(1) buf by simp
  ultimately show ?thesis by blast
qed

lemma length_message [simp]: "length start = 2 \<Longrightarrow> length csum = 2 \<Longrightarrow> 2 * w \<le> datalen s \<Longrightarrow>
    length (message be w start csum now s) = 8 + datalen s"
  by (simp add: message_def octets16_def)

lemma send_v4_message:
  assumes "length (sendbuf s) = BUFSIZE" and "8 + datalen s \<le> BUFSIZE" and "2 * w \<le> datalen s"
    and "send_v4 be w now s = (msg, s')"
  shows "\<exists>c e. msg = message be w [ICMP_ECHO, 0] [c, e] now s \<and>
    host16 be c e = in_cksum be (message be w [ICMP_ECHO, 0] [0, 0] now s) \<and>
    s' = s\<lparr>sendbuf := sendbuf s', nsent := nsent s + 1\<rparr> \<and> length (sendbuf s') = BUFSIZE"
proof -
  obtain x y rest where e: "echo_request be w ICMP_ECHO now s = message be w [ICMP_ECHO, 0] [x, y] now s @ rest"
    and len: "8 + datalen s + length rest = BUFSIZE"
    using echo_request_message [OF assms(1-3)] by metis
  define m where "m = message be w [ICMP_ECHO, 0]"
  have at: "overwrite 2 [c, d] (m [c', d'] now s @ rest) = m [c, d] now s @ rest" for c d c' d'
    by (simp add: overwrite_def m_def message_def numeral_eq_Suc)
  have l: "length (m [c, d] now s) = 8 + datalen s" for c d
    using assms(3) by (simp add: m_def)
  obtain c d where cd: "octets16 be (in_cksum be (m [0, 0] now s)) = [c, d]" "host16 be c d = in_cksum be (m [0, 0] now s)"
    by (rule octets16_pair)
  have "msg = m [c, d] now s \<and> s' = s\<lparr>sendbuf := m [c, d] now s @ rest, nsent := nsent s + 1\<rparr>"
    using assms(4) unfolding send_v4_def Let_def e m_def [symmetric] at
    by (auto simp: l cd at)
  then show ?thesis using cd(2) len l unfolding m_def by auto
qed

lemma microseconds_tv_sub: "milliseconds (tv_sub a b) = of_int (microseconds a - microseconds b) / 1000"
  by (simp add: milliseconds_def tv_sub_def microseconds_def Let_def field_simps)

lemma ip_hlen_append: "0 < length as \<Longrightarrow> ip_hlen (as @ bs) 0 = ip_hlen as 0"
  by (simp add: ip_hlen_def nth_append)

text \<open>What the program prints for a reply behind any IPv4 header.\<close>

lemma proc_v4_reply:
  assumes "10 \<le> length hdr" and "length hdr = ip_hlen hdr 0" and "hdr ! 9 = IPPROTO_ICMP"
    and "8 \<le> datalen s" and "2 * w \<le> datalen s" and "0 \<le> our_pid s" and "our_pid s < 65536"
    and "fits w (tv_sec tvsend)" and "fits w (tv_usec tvsend)"
    and "reply = message be w [ICMP_ECHOREPLY, 0] [c, e] tvsend s"
  shows "proc_v4 be w (our_pid s) verbose (hdr @ reply @ rest) (length (hdr @ reply)) now =
    Some (Reply (8 + int (datalen s)) (of_int (nsent s)) (Some (uint (hdr ! 8)))
      (of_int (microseconds now - microseconds tvsend) / 1000))"
proof -
  obtain p q where p: "octets16 be (of_int (our_pid s)) = [p, q]" "host16 be p q = of_int (our_pid s)" by (rule octets16_pair)
  obtain u v where u: "octets16 be (of_int (nsent s)) = [u, v]" "host16 be u v = of_int (nsent s)" by (rule octets16_pair)
  let ?buf = "hdr @ reply @ rest"
  have h: "ip_hlen ?buf 0 = length hdr" using assms(1,2) by (simp add: ip_hlen_append)
  have reply: "reply = ICMP_ECHOREPLY # 0 # c # e # p # q # u # v # put_timeval be w tvsend @ replicate (datalen s - 2 * w) 0xa5"
    using assms(10) p(1) u(1) by (simp add: message_def)
  have at: "at16 be ?buf (length hdr + 4) = of_int (our_pid s)" "at16 be ?buf (length hdr + 6) = of_int (nsent s)"
    "?buf ! length hdr = ICMP_ECHOREPLY" "?buf ! 9 = IPPROTO_ICMP" "?buf ! 8 = hdr ! 8"
    using assms(1,3) p(2) u(2) unfolding at16_def reply by (simp_all add: nth_append numeral_eq_Suc)
  have "get_timeval be w (drop (length hdr + 8) ?buf) = tvsend"
    unfolding reply using get_put_timeval [OF assms(8,9)] by (simp add: numeral_eq_Suc)
  moreover have "length reply = 8 + datalen s" using assms(5,10) by simp
  moreover have "uint (of_int (our_pid s) :: 16 word) = our_pid s"
    using assms(6,7) by (simp add: unsigned_of_int take_bit_int_eq_self)
  ultimately show ?thesis
    using assms(4) unfolding proc_v4_def h Let_def at by (simp add: microseconds_tv_sub)
qed

text \<open>
  C27: A request that \<open>ping\<close> sends has a right checksum; when it comes back as a reply, with the
  type changed and any checksum, behind an IPv4 header of any length, the program prints its
  sequence number, the length, the hop count of the header and exactly the time that has passed.
\<close>

theorem ping_round_trip:
  assumes "length (sendbuf s) = BUFSIZE" and "8 + datalen s \<le> BUFSIZE" and "8 \<le> datalen s" and "2 * w \<le> datalen s"
    and "0 \<le> our_pid s" and "our_pid s < 65536" and "fits w (tv_sec tvsend)" and "fits w (tv_usec tvsend)"
    and "send_v4 be w tvsend s = (msg, s')"
    and "10 \<le> length hdr" and "length hdr = ip_hlen hdr 0" and "hdr ! 9 = IPPROTO_ICMP"
    and "reply = [ICMP_ECHOREPLY, 0, c, e] @ drop 4 msg"
  shows "in_cksum be msg = 0 \<and> nsent s' = nsent s + 1 \<and> length (sendbuf s') = BUFSIZE \<and>
    proc_v4 be w (our_pid s') verbose (hdr @ reply @ rest) (length (hdr @ reply)) now =
      Some (Reply (8 + int (datalen s)) (of_int (nsent s)) (Some (uint (hdr ! 8)))
        (of_int (microseconds now - microseconds tvsend) / 1000))"
proof -
  obtain x y where msg: "msg = message be w [ICMP_ECHO, 0] [x, y] tvsend s"
    and sum: "host16 be x y = in_cksum be (message be w [ICMP_ECHO, 0] [0, 0] tvsend s)"
    and s': "s' = s\<lparr>sendbuf := sendbuf s', nsent := nsent s + 1\<rparr>" "length (sendbuf s') = BUFSIZE"
    using send_v4_message [OF assms(1,2,4,9)] by metis
  define w' where "w' = octets16 be (of_int (our_pid s)) @ octets16 be (of_int (nsent s)) @
     put_timeval be w tvsend @ replicate (datalen s - 2 * w) 0xa5"
  have "in_cksum be ([ICMP_ECHO, 0] @ [x, y] @ w') = 0"
  proof (rule in_cksum_inserted)
    show "length [ICMP_ECHO, 0] + 2 + length w' \<le> 131072"
      using assms(2,4) by (simp add: w'_def octets16_def BUFSIZE_def)
  qed (use sum in \<open>simp_all add: message_def w'_def\<close>)
  then have "in_cksum be msg = 0" by (simp add: msg message_def w'_def)
  moreover have "reply = message be w [ICMP_ECHOREPLY, 0] [c, e] tvsend s"
    unfolding assms(13) msg by (simp add: message_def)
  note proc_v4_reply [OF assms(10,11,12,3,4,5,6,7,8) this]
  moreover have "our_pid s' = our_pid s" "nsent s' = nsent s + 1" by (subst s'(1), simp)+
  ultimately show ?thesis using s'(2) by simp
qed

definition ex_pinger :: pinger where
  "ex_pinger = \<lparr>sendbuf = replicate 1500 0, datalen = 56, nsent = 7, our_pid = 4660\<rparr>"

definition ex_hdr :: "octet list" where
  "ex_hdr = [0x45, 0, 0, 84, 0, 0, 0, 0, 64, 1, 0, 0, 127, 0, 0, 1, 127, 0, 0, 1]"

theorem ping_round_trip_witness:
  "\<exists>msg. fst (send_v4 False 8 \<lparr>tv_sec = 10, tv_usec = 999000\<rparr> ex_pinger) = msg \<and> in_cksum False msg = 0 \<and>
    proc_v4 False 8 4660 False (ex_hdr @ ([ICMP_ECHOREPLY, 0, 1, 2] @ drop 4 msg) @ []) (length (ex_hdr @ [ICMP_ECHOREPLY, 0, 1, 2] @ drop 4 msg))
      \<lparr>tv_sec = 11, tv_usec = 1500\<rparr> = Some (Reply 64 7 (Some 64) (5 / 2))"
proof -
  obtain msg s' where send: "send_v4 False 8 \<lparr>tv_sec = 10, tv_usec = 999000\<rparr> ex_pinger = (msg, s')" by fastforce
  have "s' = ex_pinger\<lparr>sendbuf := sendbuf s', nsent := 8\<rparr>"
    using send_v4_message [OF _ _ _ send] by (auto simp: ex_pinger_def BUFSIZE_def)
  then have pid: "our_pid s' = 4660" by (metis ex_pinger_def pinger.select_convs(4) pinger.update_convs(1,3))
  have "ip_hlen ex_hdr 0 = length ex_hdr" by (simp add: ex_hdr_def ip_hlen_def)
  then show ?thesis
    using ping_round_trip [of ex_pinger 8 "\<lparr>tv_sec = 10, tv_usec = 999000\<rparr>" False msg s' ex_hdr
        "[ICMP_ECHOREPLY, 0, 1, 2] @ drop 4 msg" 1 2 False "[]" "\<lparr>tv_sec = 11, tv_usec = 1500\<rparr>"] send pid
    by (simp add: ex_pinger_def fits_def BUFSIZE_def microseconds_def ex_hdr_def IPPROTO_ICMP_def)
qed

text \<open>
  With 64-bit times the test for enough data admits replies that end inside the \<open>timeval\<close>: what
  is printed then depends on octets that an earlier packet has left in the buffer.
\<close>

lemma proc_v4_stale:
  "\<exists>buf buf'. take 36 buf = take 36 buf' \<and> length buf = BUFSIZE \<and> length buf' = BUFSIZE \<and>
     proc_v4 False 8 4660 False buf 36 \<lparr>tv_sec = 0, tv_usec = 0\<rparr> \<noteq> proc_v4 False 8 4660 False buf' 36 \<lparr>tv_sec = 0, tv_usec = 0\<rparr>"
proof -
  define p where "p = ex_hdr @ [0, 0, 0, 0, 0x34, 0x12, 0, 0] @ replicate 8 0"
  let ?b = "p @ replicate 1464 0" and ?c = "p @ 1 # replicate 1463 0"
  let ?z = "\<lparr>tv_sec = 0, tv_usec = 0\<rparr>"
  have "proc_v4 False 8 4660 False ?b 36 ?z = Some (Reply 16 0 (Some 64) 0)"
    unfolding p_def by code_simp
  moreover have "proc_v4 False 8 4660 False ?c 36 ?z \<noteq> Some (Reply 16 0 (Some 64) 0)"
    unfolding p_def by code_simp
  moreover have p: "length p = 36" by (simp add: p_def ex_hdr_def)
  ultimately show ?thesis using p by (intro exI [of _ ?b] exI [of _ ?c]) (simp add: BUFSIZE_def)
qed

end
