(* ===== verification/Trace_Props.thy ===== *)
theory Trace_Props
  imports Icmp_Props
begin

text \<open>
  The receiving functions of \<open>traceroute\<close> look only at octets that have been received and
  return for exactly the answers to the probe; the trace sends the right probes and ends.
\<close>

section \<open>The loop around \<open>recvfrom\<close>\<close>

text \<open>Two buffers that hold the same packet of \<open>n\<close> octets.\<close>

definition same_packet :: "nat \<Rightarrow> octet list \<Rightarrow> octet list \<Rightarrow> bool" where
  "same_packet n buf buf' \<longleftrightarrow> length buf = length buf' \<and> n \<le> length buf \<and> (\<forall>i < n. buf ! i = buf' ! i)"

lemma same_packet_deposit:
  "length buf = length buf' \<Longrightarrow> same_packet (min (length buf) (length p)) (deposit p buf) (deposit p buf')"
  by (auto simp: same_packet_def deposit_def nth_append)

definition blank :: "octet list \<Rightarrow> octet list" where
  "blank buf = replicate (length buf) 0"

lemma length_deposit [simp]: "length (deposit p buf) = length buf"
  by (simp add: deposit_def)

text \<open>What a run has done, apart sender the buffer.\<close>

fun visible :: "received \<Rightarrow> received" where
  "visible (Returned r s es) = Returned r (s\<lparr>recvbuf := []\<rparr>) es"
| "visible (Waiting s) = Waiting (s\<lparr>recvbuf := []\<rparr>)"
| "visible (Gone e s) = Gone e (s\<lparr>recvbuf := []\<rparr>)"

text \<open>An event after which the call returns, and one that ends the process.\<close>

definition fatal :: "rx \<Rightarrow> bool" where
  "fatal e \<longleftrightarrow> (case e of RxFails err \<Rightarrow> err \<noteq> EINTR | _ \<Rightarrow> False)"

text \<open>The loop, one equation for each thing that can happen.\<close>

lemma loop_alarm: "\<not> inside \<and> gotalarm s \<Longrightarrow> recv_loop look hdr verbose inside es s = Returned (- 3) s es"
  by (subst recv_loop.simps) simp

lemma loop_events:
  "inside \<or> \<not> gotalarm s \<Longrightarrow> recv_loop look hdr verbose inside [] s = Waiting s"
  "inside \<or> \<not> gotalarm s \<Longrightarrow> recv_loop look hdr verbose inside (AlarmBefore # es) s =
     recv_loop look hdr verbose True es (s\<lparr>gotalarm := True\<rparr>)"
  "inside \<or> \<not> gotalarm s \<Longrightarrow> recv_loop look hdr verbose inside (AlarmIn # es) s =
     recv_loop look hdr verbose False es (s\<lparr>gotalarm := True\<rparr>)"
  "inside \<or> \<not> gotalarm s \<Longrightarrow> recv_loop look hdr verbose inside (RxFails err # es) s =
     (if err = EINTR then recv_loop look hdr verbose False es s else Gone err s)"
  "inside \<or> \<not> gotalarm s \<Longrightarrow> recv_loop look hdr verbose inside (Packet p sender # es) s =
     (let buf = deposit p (recvbuf s); s' = s\<lparr>recvbuf := buf, sarecv := sender\<rparr>
      in case look buf (min (length (recvbuf s)) (length p)) of
           Again \<Rightarrow> recv_loop look hdr verbose False es s'
         | Shown \<Rightarrow> recv_loop look hdr verbose False es
             (if verbose then s'\<lparr>shown := shown s' @ [(buf ! hdr buf, buf ! (hdr buf + 1))]\<rparr> else s')
         | Ret r \<Rightarrow> Returned r s' es)"
  by (auto simp: recv_loop.simps [of look hdr verbose inside "[]"] recv_loop.simps [of look hdr verbose inside "_ # es"])

lemmas loop_steps = loop_alarm loop_events

locale packet_reader =
  fixes look :: "octet list \<Rightarrow> nat \<Rightarrow> verdict"
    and hdr :: "octet list \<Rightarrow> nat"
  assumes received_only: "same_packet n buf buf' \<Longrightarrow> look buf n = look buf' n"
    and shows_received: "same_packet n buf buf' \<Longrightarrow> look buf n = Shown \<Longrightarrow> hdr buf = hdr buf' \<and> hdr buf + 1 < n"
begin

text \<open>The packet \<open>p\<close> by itself, in a buffer of \<open>k\<close> octets.\<close>

definition says :: "nat \<Rightarrow> octet list \<Rightarrow> verdict" where
  "says k p = look (deposit p (replicate k 0)) (min k (length p))"

lemma look_says: "look (deposit p buf) (min (length buf) (length p)) = says (length buf) p"
  unfolding says_def by (rule received_only) (rule same_packet_deposit, simp)

lemma loop_blank:
  "visible (recv_loop look hdr verbose inside es s) = visible (recv_loop look hdr verbose inside es (s\<lparr>recvbuf := blank (recvbuf s)\<rparr>))"
proof (induction es arbitrary: inside s)
  case Nil
  show ?case by (cases "\<not> inside \<and> gotalarm s") (simp_all add: loop_steps)
next
  case (Cons e es)
  show ?case
  proof (cases "\<not> inside \<and> gotalarm s")
    case True
    then show ?thesis by (simp add: loop_steps)
  next
    case go: False
    show ?thesis
    proof (cases e)
      case (Packet p sender)
      let ?n = "min (length (recvbuf s)) (length p)"
      let ?b = "deposit p (recvbuf s)" and ?c = "deposit p (blank (recvbuf s))"
      have l: "length (blank (recvbuf s)) = length (recvbuf s)" by (simp add: blank_def)
      have same: "same_packet ?n ?b ?c" by (rule same_packet_deposit) (simp add: blank_def)
      have eq: "look ?b ?n = look ?c ?n" by (rule received_only [OF same])
      have sh: "hdr ?b = hdr ?c \<and> ?b ! hdr ?c = ?c ! hdr ?c \<and> ?b ! (hdr ?c + 1) = ?c ! (hdr ?c + 1)" if "look ?c ?n = Shown"
        using shows_received [OF same] eq that same by (simp add: same_packet_def)
      have bl: "blank ?c = blank ?b" by (simp add: blank_def)
      have IH: "visible (recv_loop look hdr verbose False es (t\<lparr>recvbuf := ?b\<rparr>)) =
          visible (recv_loop look hdr verbose False es (t\<lparr>recvbuf := ?c\<rparr>))" for t
        using Cons.IH [of False "t\<lparr>recvbuf := ?b\<rparr>"] Cons.IH [of False "t\<lparr>recvbuf := ?c\<rparr>"] bl by simp
      have IHs: "visible (recv_loop look hdr verbose False es (s\<lparr>recvbuf := ?b, sarecv := sender\<rparr>)) =
          visible (recv_loop look hdr verbose False es (s\<lparr>recvbuf := ?c, sarecv := sender\<rparr>))"
        "visible (recv_loop look hdr verbose False es (s\<lparr>recvbuf := ?b, sarecv := sender, shown := z\<rparr>)) =
          visible (recv_loop look hdr verbose False es (s\<lparr>recvbuf := ?c, sarecv := sender, shown := z\<rparr>))" for z
        using IH [of "s\<lparr>sarecv := sender\<rparr>"] IH [of "s\<lparr>sarecv := sender, shown := z\<rparr>"] by (cases s; simp)+
      show ?thesis
        using go eq sh IHs by (cases "look ?c ?n"; cases verbose) (auto simp: loop_steps Packet Let_def l)
    next
      case (RxFails err)
      then show ?thesis using go Cons.IH [of False s] by (simp add: loop_steps)
    next
      case AlarmIn
      then show ?thesis using go Cons.IH [of False "s\<lparr>gotalarm := True\<rparr>"] by (cases s) (simp add: loop_steps)
    next
      case AlarmBefore
      then show ?thesis using go Cons.IH [of True "s\<lparr>gotalarm := True\<rparr>"] by (cases s) (simp add: loop_steps)
    qed
  qed
qed

text \<open>The buffer the call starts with makes no difference.\<close>

lemma buffer_irrelevant:
  "length b = length b' \<Longrightarrow>
    visible (recv_loop look hdr verbose inside es (s\<lparr>recvbuf := b\<rparr>)) = visible (recv_loop look hdr verbose inside es (s\<lparr>recvbuf := b'\<rparr>))"
  using loop_blank [of verbose inside es "s\<lparr>recvbuf := b\<rparr>"] loop_blank [of verbose inside es "s\<lparr>recvbuf := b'\<rparr>"]
  by (simp add: blank_def)

text \<open>The call returns on a timeout, or for the first packet that the function accepts.\<close>

lemma loop_first:
  assumes "inside \<or> \<not> gotalarm s"
  shows "(\<exists>p sender v. e = Packet p sender \<and> says (length (recvbuf s)) p = Ret v \<and>
      recv_loop look hdr verbose inside (e # es) s = Returned v (s\<lparr>recvbuf := deposit p (recvbuf s), sarecv := sender\<rparr>) es) \<or>
    (\<exists>err. e = RxFails err \<and> err \<noteq> EINTR \<and> recv_loop look hdr verbose inside (e # es) s = Gone err s) \<or>
    (\<exists>i t. recv_loop look hdr verbose inside (e # es) s = recv_loop look hdr verbose i es t \<and>
      length (recvbuf t) = length (recvbuf s) \<and> (\<nexists>p sender v. e = Packet p sender \<and> says (length (recvbuf s)) p = Ret v) \<and>
      (e = AlarmIn \<longrightarrow> \<not> i \<and> gotalarm t) \<and> (gotalarm t \<longrightarrow> gotalarm s \<or> e = AlarmIn \<or> e = AlarmBefore))"
  (is "?a \<or> ?b \<or> ?c")
proof (cases e)
  case (Packet p sender)
  let ?s = "s\<lparr>recvbuf := deposit p (recvbuf s), sarecv := sender\<rparr>"
  let ?t = "if verbose then ?s\<lparr>shown := shown s @ [(recvbuf ?s ! hdr (recvbuf ?s), recvbuf ?s ! (hdr (recvbuf ?s) + 1))]\<rparr> else ?s"
  note step = loop_steps(6) [OF assms, of look hdr verbose p sender es, unfolded Let_def look_says]
  show ?thesis
  proof (cases "says (length (recvbuf s)) p")
    case Again
    then have "recv_loop look hdr verbose inside (e # es) s = recv_loop look hdr verbose False es ?s"
      using step Packet by simp
    moreover have "length (recvbuf ?s) = length (recvbuf s)" by simp
    ultimately have ?c using Again Packet by (intro exI [of _ False] exI [of _ ?s]) simp
    then show ?thesis by blast
  next
    case Shown
    then have "recv_loop look hdr verbose inside (e # es) s = recv_loop look hdr verbose False es ?t"
      using step Packet by simp
    moreover have "length (recvbuf ?t) = length (recvbuf s)" by simp
    ultimately have ?c using Shown Packet by (intro exI [of _ False] exI [of _ ?t]) simp
    then show ?thesis by blast
  next
    case (Ret v)
    then show ?thesis using step Packet by simp
  qed
next
  case (RxFails err)
  then show ?thesis using assms by (cases "err = EINTR") (auto simp: loop_steps)
next
  case AlarmIn
  then have ?c using assms by (intro exI [of _ False] exI [of _ "s\<lparr>gotalarm := True\<rparr>"]) (simp add: loop_steps)
  then show ?thesis by blast
next
  case AlarmBefore
  then have ?c using assms by (intro exI [of _ True] exI [of _ "s\<lparr>gotalarm := True\<rparr>"]) (simp add: loop_steps)
  then show ?thesis by blast
qed

lemma loop_returned:
  "recv_loop look hdr verbose inside es s = Returned r s' rest \<Longrightarrow>
    \<exists>pre. (r = - 3 \<and> es = pre @ rest \<and> (gotalarm s \<or> AlarmIn \<in> set pre \<or> AlarmBefore \<in> set pre) \<or>
      (\<exists>p. es = pre @ Packet p (sarecv s') # rest \<and> AlarmIn \<notin> set pre \<and> says (length (recvbuf s)) p = Ret r)) \<and>
      (\<forall>p sender v. Packet p sender \<in> set pre \<longrightarrow> says (length (recvbuf s)) p \<noteq> Ret v)"
  (is "_ \<Longrightarrow> \<exists>pre. ?found es s pre \<and> ?none s pre")
proof (induction es arbitrary: inside s)
  case Nil
  then show ?case by (cases "\<not> inside \<and> gotalarm s") (auto simp: loop_steps)
next
  case (Cons e es)
  have run: "recv_loop look hdr verbose inside (e # es) s = Returned r s' rest" by (rule Cons.prems)
  show ?case
  proof (cases "\<not> inside \<and> gotalarm s")
    case True
    then have "r = - 3 \<and> e # es = [] @ rest"
      using run by (simp add: loop_steps)
    then show ?thesis using True by (intro exI [of _ "[]"]) simp
  next
    case go: False
    then consider p sender v where "e = Packet p sender" "says (length (recvbuf s)) p = Ret v"
        "v = r" "sarecv s' = sender" "es = rest"
      | i t where "recv_loop look hdr verbose i es t = Returned r s' rest" "length (recvbuf t) = length (recvbuf s)"
        "\<nexists>p sender v. e = Packet p sender \<and> says (length (recvbuf s)) p = Ret v"
        "e = AlarmIn \<longrightarrow> \<not> i \<and> gotalarm t" "gotalarm t \<longrightarrow> gotalarm s \<or> e = AlarmIn \<or> e = AlarmBefore"
      using run loop_first [of inside s e verbose es] by auto
    then show ?thesis
    proof cases
      case 1
      then show ?thesis by (intro exI [of _ "[]"]) simp
    next
      case (2 i t)
      show ?thesis
      proof (cases "e = AlarmIn")
        case True
        then have "r = - 3 \<and> es = rest" using 2(1,4) by (simp add: loop_steps)
        then show ?thesis using True by (intro exI [of _ "[AlarmIn]"]) simp
      next
        case False
        obtain pre where "?found es t pre" "?none t pre" using Cons.IH [OF 2(1)] by blast
        then show ?thesis using 2(2,3,5) False by (intro exI [of _ "e # pre"]) auto
      qed
    qed
  qed
qed

text \<open>What is returned depends on the events and the size of the buffer only.\<close>

lemma loop_same_code:
  "recv_loop look hdr verbose inside es s = Returned r s' rest \<Longrightarrow> length (recvbuf t) = length (recvbuf s) \<Longrightarrow> gotalarm t = gotalarm s \<Longrightarrow>
    \<exists>t'. recv_loop look hdr verbose inside es t = Returned r t' rest \<and> length (recvbuf t') = length (recvbuf s)"
proof (induction es arbitrary: inside s t)
  case Nil
  then show ?case by (cases "\<not> inside \<and> gotalarm s") (auto simp: loop_steps)
next
  case (Cons e es)
  show ?case
  proof (cases "\<not> inside \<and> gotalarm s")
    case True
    then show ?thesis using Cons.prems by (simp add: loop_steps)
  next
    case False
    then have go: "inside \<or> \<not> gotalarm s" "inside \<or> \<not> gotalarm t" using Cons.prems(3) by auto
    show ?thesis
    proof (cases e)
      case (Packet p sender)
      note steps = loop_steps(6) [OF go(1), of look hdr verbose p sender es, unfolded Let_def look_says]
        loop_steps(6) [OF go(2), of look hdr verbose p sender es, unfolded Let_def look_says, unfolded Cons.prems(2)]
      let ?st = "\<lambda>x. x\<lparr>recvbuf := deposit p (recvbuf x), sarecv := sender\<rparr>"
      let ?sh = "\<lambda>x. if verbose then (?st x)\<lparr>shown := shown (?st x) @ [(deposit p (recvbuf x) ! hdr (deposit p (recvbuf x)),
          deposit p (recvbuf x) ! (hdr (deposit p (recvbuf x)) + 1))]\<rparr> else ?st x"
      have len: "length (recvbuf (?st x)) = length (recvbuf x)" "length (recvbuf (?sh x)) = length (recvbuf x)"
        "gotalarm (?st x) = gotalarm x" "gotalarm (?sh x) = gotalarm x" for x by simp_all
      show ?thesis
      proof (cases "says (length (recvbuf s)) p")
        case Again
        then show ?thesis
          using Cons.prems Cons.IH [of False "?st s" "?st t", unfolded len] unfolding Packet steps by (simp only: verdict.case)
      next
        case Shown
        then show ?thesis
          using Cons.prems Cons.IH [of False "?sh s" "?sh t", unfolded len] unfolding Packet steps by (simp only: verdict.case)
      next
        case (Ret v)
        then show ?thesis using Cons.prems unfolding Packet steps by simp
      qed
    next
      case (RxFails err)
      then show ?thesis using Cons.prems go Cons.IH [of False s t] by (auto simp: loop_steps split: if_splits)
    next
      case AlarmIn
      then show ?thesis using Cons.prems go Cons.IH [of False "s\<lparr>gotalarm := True\<rparr>" "t\<lparr>gotalarm := True\<rparr>"] by (simp add: loop_steps)
    next
      case AlarmBefore
      then show ?thesis using Cons.prems go Cons.IH [of True "s\<lparr>gotalarm := True\<rparr>" "t\<lparr>gotalarm := True\<rparr>"] by (simp add: loop_steps)
    qed
  qed
qed

text \<open>An alarm that interrupts \<open>recvfrom\<close> ends the wait.\<close>

lemma loop_ends:
  "AlarmIn \<in> set es \<Longrightarrow> \<forall>e \<in> set es. \<not> fatal e \<Longrightarrow> \<exists>r s' rest. recv_loop look hdr verbose inside es s = Returned r s' rest"
proof (induction es arbitrary: inside s)
  case (Cons e es)
  show ?case
  proof (cases "\<not> inside \<and> gotalarm s")
    case True
    then show ?thesis by (simp add: loop_steps)
  next
    case go: False
    show ?thesis
    proof (cases "e = AlarmIn")
      case True
      then show ?thesis using go
        by (simp add: loop_steps)
    next
      case False
      then have "\<exists>r s' rest. recv_loop look hdr verbose i es t = Returned r s' rest" for i t
        using Cons by simp
      then show ?thesis using go False Cons.prems(2)
        by (cases e) (auto simp: loop_steps fatal_def Let_def split: verdict.splits)
    qed
  qed
qed simp

end

section \<open>Only what has been received\<close>

lemma same_nth: "same_packet n buf buf' \<Longrightarrow> i < n \<Longrightarrow> buf ! i = buf' ! i"
  by (simp add: same_packet_def)

lemma same_hlen: "same_packet n buf buf' \<Longrightarrow> i < n \<Longrightarrow> ip_hlen buf i = ip_hlen buf' i"
  by (simp add: ip_hlen_def same_nth)

lemma same_udp:
  "same_packet n buf buf' \<Longrightarrow> proto < n \<Longrightarrow> udp + 3 < n \<Longrightarrow>
    our_udp be sport port buf proto udp = our_udp be sport port buf' proto udp"
  by (simp add: our_udp_def at16_def same_nth)

lemma look_v4_same:
  assumes "same_packet n buf buf'"
  shows "look_v4 be sport port buf n = look_v4 be sport port buf' n"
proof (cases "int n - int (ip_hlen buf 0) < 8")
  case True
  moreover have "int n - int (ip_hlen buf' 0) < 8"
    using True same_hlen [OF assms, of 0] by (cases "n = 0") simp_all
  ultimately show ?thesis by (simp add: look_v4_def Let_def)
next
  case False
  define h where "h = ip_hlen buf 0"
  have h: "h + 8 \<le> n" "ip_hlen buf' 0 = h" using False same_hlen [OF assms, of 0] by (simp_all add: h_def)
  have tc: "buf' ! h = buf ! h" "buf' ! (h + 1) = buf ! (h + 1)"
    using h(1) same_nth [OF assms] by (metis add_lessD1 less_add_same_cancel1 less_le_trans zero_less_numeral)
      (use h(1) same_nth [OF assms, of "h + 1"] in simp)
  have inner: "ip_hlen buf' (h + 8) = ip_hlen buf (h + 8)" if "h + 8 < n"
    using same_hlen [OF assms that] by simp
  have udp: "our_udp be sport port buf' (h + 8 + 9) (h + 8 + k) = our_udp be sport port buf (h + 8 + 9) (h + 8 + k)"
    if "h + 8 + 20 \<le> n" "h + 8 + k + 4 \<le> n" for k
    using same_udp [OF assms, of "h + 8 + 9" "h + 8 + k"] that by simp
  show ?thesis
    using False inner udp unfolding look_v4_def h(2) h_def [symmetric] tc Let_def
    by (cases "h + 8 + 20 \<le> n") auto
qed

lemma look_v4_shown:
  assumes "same_packet n buf buf'" and "look_v4 be sport port buf n = Shown"
  shows "ip_hlen buf 0 = ip_hlen buf' 0 \<and> ip_hlen buf 0 + 1 < n"
proof -
  have n: "ip_hlen buf 0 + 8 \<le> n" using assms(2) by (auto simp: look_v4_def Let_def split: if_splits)
  then show ?thesis using same_hlen [OF assms(1), of 0] by simp
qed

lemma look_v6_same:
  assumes "same_packet n buf buf'"
  shows "look_v6 ret0 be sport port buf n = look_v6 ret0 be sport port buf' n"
  using same_nth [OF assms, of 0] same_nth [OF assms, of 1] same_udp [OF assms, of 14 48]
  by (auto simp: look_v6_def Let_def)

interpretation v4: packet_reader "look_v4 be sport port" "\<lambda>buf. ip_hlen buf 0" for be sport port
  by unfold_locales (use look_v4_same look_v4_shown in blast)+

interpretation v6: packet_reader "look_v6 ret0 be sport port" "\<lambda>buf. 0" for ret0 be sport port
  by unfold_locales (use look_v6_same in \<open>auto simp: look_v6_def Let_def split: if_splits\<close>)

text \<open>
  C30: What \<open>recv_v4\<close> returns and prints depends on the packets, not on what earlier packets have left
  in the buffer, and so does what \<open>recv_v6\<close> returns and prints, for any value \<open>ret0\<close> that its variable
  \<open>ret\<close>, which it does not initialise, happens to have.
\<close>

theorem recv_received_only:
  assumes "length b = length b'"
  shows "visible (recv_v4 be sport port verbose es (s\<lparr>recvbuf := b\<rparr>)) = visible (recv_v4 be sport port verbose es (s\<lparr>recvbuf := b'\<rparr>)) \<and>
    visible (recv_v6 ret0 be sport port verbose es (s\<lparr>recvbuf := b\<rparr>)) = visible (recv_v6 ret0 be sport port verbose es (s\<lparr>recvbuf := b'\<rparr>))"
  using v4.buffer_irrelevant [OF assms, of be sport port verbose False es "s\<lparr>gotalarm := False\<rparr>"]
    v6.buffer_irrelevant [OF assms, of ret0 be sport port verbose False es "s\<lparr>gotalarm := False\<rparr>"]
  by (cases s) (simp add: recv_v4_def recv_v6_def)

definition ex_receiver :: receiver where
  "ex_receiver = \<lparr>recvbuf = replicate BUFSIZE 0, gotalarm = False, sarecv = Sockaddr_other 0, shown = []\<rparr>"

theorem recv_received_only_witness:
  "length [0 :: octet] = length [1 :: octet] \<and>
    visible (recv_v4 False 40000 33435 True [Packet [0x45] (Sockaddr_other 0)] (ex_receiver\<lparr>recvbuf := [0]\<rparr>)) =
    visible (recv_v4 False 40000 33435 True [Packet [0x45] (Sockaddr_other 0)] (ex_receiver\<lparr>recvbuf := [1]\<rparr>))"
  using recv_received_only [of "[0]" "[1]" False 40000 33435 True "[Packet [0x45] (Sockaddr_other 0)]" ex_receiver] by simp

section \<open>Answers to a probe\<close>

text \<open>
  An IPv4 packet with an ICMP message of this type and code that quotes \<open>q\<close>; a quoted datagram
  with these ports; and what \<open>traceroute\<close> makes of the message.
\<close>

definition icmp_error :: "octet list \<Rightarrow> octet \<Rightarrow> octet \<Rightarrow> octet list \<Rightarrow> bool" where
  "icmp_error p type code q \<longleftrightarrow>
    (\<exists>hdr six. p = hdr @ [type, code] @ six @ q \<and> length hdr = ip_hlen p 0 \<and> length six = 6)"

definition quotes_udp :: "bool \<Rightarrow> int \<Rightarrow> int \<Rightarrow> octet list \<Rightarrow> bool" where
  "quotes_udp be sport port q \<longleftrightarrow> 20 \<le> length q \<and> q ! 9 = IPPROTO_UDP \<and>
    (\<exists>hdr rest. q = hdr @ octets16 be (htons be sport) @ octets16 be (htons be port) @ rest \<and> length hdr = ip_hlen q 0)"

definition meaning :: "octet \<Rightarrow> octet \<Rightarrow> int option" where
  "meaning type code =
    (if type = ICMP_TIMXCEED \<and> code = ICMP_TIMXCEED_INTRANS then Some (- 2)
     else if type = ICMP_UNREACH then Some (if code = ICMP_UNREACH_PORT then - 1 else uint code)
     else None)"

definition answers :: "bool \<Rightarrow> int \<Rightarrow> int \<Rightarrow> octet list \<Rightarrow> int \<Rightarrow> bool" where
  "answers be sport port p c \<longleftrightarrow>
    (\<exists>type code q. icmp_error p type code q \<and> quotes_udp be sport port q \<and> meaning type code = Some c)"

lemma octets16_host16: "octets16 be (host16 be a b) = [a, b]"
proof -
  have "ucast (push_bit 8 (ucast x) OR ucast y :: 16 word) = y" "ucast (drop_bit 8 (push_bit 8 (ucast x) OR ucast y :: 16 word)) = x"
    for x y :: octet
    by (rule bit_word_eqI, force simp: bit_simps dest: bit_imp_le_length)+
  then show ?thesis by (simp add: octets16_def host16_def)
qed

lemma host16_iff: "host16 be a b = v \<longleftrightarrow> octets16 be v = [a, b]"
  using octets16_host16 host16_octets by metis

lemma drop_four: "k + 4 \<le> length q \<Longrightarrow> drop k q = q ! k # q ! (k + 1) # q ! (k + 2) # q ! (k + 3) # drop (k + 4) q"
  by (simp add: Cons_nth_drop_Suc numeral_eq_Suc)

lemma quotes_udp_iff:
  "quotes_udp be sport port q \<longleftrightarrow> 20 \<le> length q \<and> ip_hlen q 0 + 4 \<le> length q \<and> our_udp be sport port q 9 (ip_hlen q 0)"
  (is "_ = ?flat")
proof
  assume "quotes_udp be sport port q"
  then obtain hdr rest where q: "q = hdr @ octets16 be (htons be sport) @ octets16 be (htons be port) @ rest"
    "length hdr = ip_hlen q 0" "20 \<le> length q" "q ! 9 = IPPROTO_UDP" by (auto simp: quotes_udp_def)
  obtain a b where ab: "octets16 be (htons be sport) = [a, b]" "host16 be a b = htons be sport" by (rule octets16_pair)
  obtain c d where cd: "octets16 be (htons be port) = [c, d]" "host16 be c d = htons be port" by (rule octets16_pair)
  have "at16 be q (length hdr) = htons be sport" "at16 be q (length hdr + 2) = htons be port" "length hdr + 4 \<le> length q"
    using ab cd by (simp_all add: q(1) at16_def nth_append)
  then show ?flat using q(2-4) by (simp add: our_udp_def)
next
  assume flat: ?flat
  let ?h = "ip_hlen q 0"
  have "q = take ?h q @ q ! ?h # q ! (?h + 1) # q ! (?h + 2) # q ! (?h + 3) # drop (?h + 4) q"
    using flat drop_four [of ?h q] append_take_drop_id [of ?h q] by simp
  moreover have "octets16 be (htons be sport) = [q ! ?h, q ! (?h + 1)]" "octets16 be (htons be port) = [q ! (?h + 2), q ! (?h + 3)]"
    using flat by (simp_all add: our_udp_def at16_def host16_iff numeral_eq_Suc)
  ultimately show "quotes_udp be sport port q"
    using flat unfolding quotes_udp_def our_udp_def
    by (intro conjI exI [of _ "take ?h q"] exI [of _ "drop (?h + 4) q"]) auto
qed

lemma icmp_error_iff:
  "icmp_error p type code q \<longleftrightarrow> (let h = ip_hlen p 0 in h + 8 \<le> length p \<and> type = p ! h \<and> code = p ! (h + 1) \<and> q = drop (h + 8) p)"
  (is "_ = ?flat")
proof
  assume "icmp_error p type code q"
  then obtain hdr six where p: "p = hdr @ [type, code] @ six @ q" "length hdr = ip_hlen p 0" "length six = 6"
    by (auto simp: icmp_error_def)
  then have "p ! length hdr = type" "p ! (length hdr + 1) = code" "drop (length hdr + 8) p = q" "length hdr + 8 \<le> length p"
    by (simp_all add: nth_append)
  then show ?flat using p(2) by (simp add: Let_def)
next
  assume flat: ?flat
  define h where "h = ip_hlen p 0"
  have h: "h + 8 \<le> length p" "type = p ! h" "code = p ! (h + 1)" "q = drop (h + 8) p"
    using flat by (simp_all add: Let_def h_def)
  have "drop h p = type # code # drop (h + 2) p"
    using h by (simp add: Cons_nth_drop_Suc)
  moreover have "drop (h + 2) p = take 6 (drop (h + 2) p) @ q"
    using append_take_drop_id [of 6 "drop (h + 2) p"] h(4) by (simp add: add.commute)
  ultimately have "p = take h p @ [type, code] @ take 6 (drop (h + 2) p) @ q"
    by (metis append_take_drop_id append_Cons append_Nil)
  then show "icmp_error p type code q"
    using h(1) unfolding icmp_error_def h_def [symmetric]
    by (intro exI [of _ "take h p"] exI [of _ "take 6 (drop (h + 2) p)"]) simp
qed

text \<open>The function accepts exactly the answers.\<close>

lemma look_v4_answers:
  assumes "n \<le> length buf"
  shows "look_v4 be sport port buf n = Ret r \<longleftrightarrow> answers be sport port (take n buf) r"
proof (cases "ip_hlen buf 0 + 8 \<le> n")
  case False
  have "\<not> answers be sport port (take n buf) c" for c
  proof (cases "n = 0")
    case False
    then have "ip_hlen (take n buf) 0 = ip_hlen buf 0" by (simp add: ip_hlen_def)
    then show ?thesis using \<open>\<not> ip_hlen buf 0 + 8 \<le> n\<close> by (simp add: answers_def icmp_error_iff Let_def)
  qed (simp add: answers_def icmp_error_iff Let_def)
  then show ?thesis using False by (simp add: look_v4_def Let_def)
next
  case True
  define h where "h = ip_hlen buf 0"
  have h: "h + 8 \<le> n" "ip_hlen (take n buf) 0 = h" using True by (simp_all add: h_def ip_hlen_def)
  define q where "q = drop (h + 8) (take n buf)"
  have len: "length q = n - (h + 8)" using assms by (simp add: q_def)
  have qn: "q ! i = buf ! (h + 8 + i)" if "h + 8 + i < n" for i
    using that assms h(1) by (simp add: q_def)
  have err: "icmp_error (take n buf) type code q' \<longleftrightarrow> type = buf ! h \<and> code = buf ! (h + 1) \<and> q' = q" for type code q'
    using h assms by (auto simp: icmp_error_iff Let_def q_def)
  have quo: "quotes_udp be sport port q \<longleftrightarrow> h + 8 + 20 \<le> n \<and> h + 8 + ip_hlen buf (h + 8) + 4 \<le> n \<and>
      our_udp be sport port buf (h + 8 + 9) (h + 8 + ip_hlen buf (h + 8))"
  proof (cases "h + 8 + 20 \<le> n")
    case True
    then have hl: "ip_hlen q 0 = ip_hlen buf (h + 8)" using qn [of 0] by (simp add: ip_hlen_def)
    have "our_udp be sport port q 9 k = our_udp be sport port buf (h + 8 + 9) (h + 8 + k)" if "h + 8 + k + 4 \<le> n" for k
      using that True qn [of 9] qn [of k] qn [of "k + 1"] qn [of "k + 2"] qn [of "k + 3"]
      by (simp add: our_udp_def at16_def numeral_eq_Suc)
    then show ?thesis using True h(1) by (auto simp: quotes_udp_iff hl len)
  qed (auto simp: quotes_udp_iff len)
  have "answers be sport port (take n buf) c \<longleftrightarrow> quotes_udp be sport port q \<and> meaning (buf ! h) (buf ! (h + 1)) = Some c" for c
    by (auto simp: answers_def err)
  then show ?thesis
    using h(1) unfolding look_v4_def h_def [symmetric] Let_def quo meaning_def by auto
qed

lemma says_answers: "v4.says be sport port k p = Ret r \<longleftrightarrow> answers be sport port (take k p) r"
proof -
  have "take (min k (length p)) (deposit p (replicate k 0)) = take k p"
    by (auto simp: deposit_def min_def)
  then show ?thesis
    using look_v4_answers [of "min k (length p)" "deposit p (replicate k 0)" be sport port r] by (simp add: v4.says_def)
qed

text \<open>
  C28: \<open>recv_v4\<close> returns for the first packet that answers the probe, with what the answer means,
  or with -3 when the alarm has gone off during the call; no packet before is an answer, and it
  waits for no packet after the alarm has interrupted it. It does return once the alarm has
  interrupted it, if \<open>recvfrom\<close> does not fail.
\<close>

theorem recv_v4_answered:
  assumes "AlarmIn \<in> set es" and "\<forall>e \<in> set es. \<not> fatal e"
  shows "\<exists>r s' pre rest. recv_v4 be sport port verbose es s = Returned r s' rest \<and>
    (\<forall>p a c. Packet p a \<in> set pre \<longrightarrow> \<not> answers be sport port (take (length (recvbuf s)) p) c) \<and>
    (r = - 3 \<and> es = pre @ rest \<and> (AlarmIn \<in> set pre \<or> AlarmBefore \<in> set pre) \<or>
     (\<exists>p. es = pre @ Packet p (sarecv s') # rest \<and> AlarmIn \<notin> set pre \<and> answers be sport port (take (length (recvbuf s)) p) r))"
proof -
  obtain r s' rest where run: "recv_v4 be sport port verbose es s = Returned r s' rest"
    using v4.loop_ends [OF assms] unfolding recv_v4_def by blast
  obtain pre where pre: "r = - 3 \<and> es = pre @ rest \<and> (AlarmIn \<in> set pre \<or> AlarmBefore \<in> set pre) \<or>
      (\<exists>p. es = pre @ Packet p (sarecv s') # rest \<and> AlarmIn \<notin> set pre \<and> v4.says be sport port (length (recvbuf s)) p = Ret r)"
    and none: "\<forall>p sender v. Packet p sender \<in> set pre \<longrightarrow> v4.says be sport port (length (recvbuf s)) p \<noteq> Ret v"
    using v4.loop_returned [OF run [unfolded recv_v4_def]] by auto
  from none have "\<forall>p a c. Packet p a \<in> set pre \<longrightarrow> \<not> answers be sport port (take (length (recvbuf s)) p) c"
    unfolding says_answers by blast
  then show ?thesis using run pre unfolding says_answers by blast
qed

text \<open>A port-unreachable message for the probe to port 33435 from port 40000.\<close>

definition ex_router :: sockaddr where "ex_router = Sockaddr_in 0 [10, 0, 0, 1]"

definition ex_answer :: "octet list" where
  "ex_answer = [0x45, 0, 0, 56, 0, 0, 0, 0, 64, 1, 0, 0, 10, 0, 0, 1, 10, 0, 0, 2, 3, 3, 0, 0, 0, 0, 0, 0,
    0x45, 0, 0, 40, 0, 0, 0, 0, 1, 17, 0, 0, 10, 0, 0, 2, 10, 0, 0, 1, 156, 64, 130, 155]"

theorem recv_v4_answered_witness:
  "\<exists>r s' pre rest. recv_v4 False 40000 33435 False [Packet [] ex_router, Packet ex_answer ex_router, AlarmIn] ex_receiver =
      Returned r s' rest \<and>
    (r = - 3 \<and> [Packet [] ex_router, Packet ex_answer ex_router, AlarmIn] = pre @ rest \<and> (AlarmIn \<in> set pre \<or> AlarmBefore \<in> set pre) \<or>
     (\<exists>p. [Packet [] ex_router, Packet ex_answer ex_router, AlarmIn] = pre @ Packet p (sarecv s') # rest \<and> AlarmIn \<notin> set pre \<and>
        answers False 40000 33435 (take (length (recvbuf ex_receiver)) p) r))"
  using recv_v4_answered [of "[Packet [] ex_router, Packet ex_answer ex_router, AlarmIn]" False 40000 33435 False ex_receiver]
  by (simp add: fatal_def) blast

lemma ex_answer_found: "look_v4 False 40000 33435 (deposit ex_answer (replicate 1500 0)) 52 = Ret (- 1)"
  by code_simp

text \<open>
  The alarm can go off between the test of \<open>gotalarm\<close> and the call of \<open>recvfrom\<close>: the call then
  waits for a packet that may never come.
\<close>

lemma recv_v4_alarm_race: "recv_v4 be sport port verbose [AlarmBefore] s = Waiting (s\<lparr>gotalarm := True\<rparr>)"
  by (cases s) (simp add: recv_v4_def loop_steps)

text \<open>
  \<open>recv_v6\<close> returns the indeterminate value of \<open>ret\<close> for every time-exceeded message that is long enough
  to quote a datagram that is not the probe.
\<close>

theorem recv_v6_indeterminate:
  assumes "52 \<le> length p" and "length p \<le> length (recvbuf s)"
    and "p ! 0 = ICMP6_TIME_EXCEEDED" and "p ! 1 = ICMP6_TIME_EXCEED_TRANSIT" and "\<not> our_udp be sport port p 14 48"
  shows "\<exists>s'. recv_v6 ret0 be sport port verbose (Packet p sender # es) s = Returned ret0 s' es"
proof -
  let ?b = "deposit p (recvbuf s)"
  have b: "?b = p @ drop (length p) (recvbuf s)" using assms(2) by (simp add: deposit_def)
  have "our_udp be sport port ?b 14 48 = our_udp be sport port p 14 48"
    using assms(1) by (simp add: b our_udp_def at16_def nth_append)
  moreover have "?b ! 0 = p ! 0" "?b ! 1 = p ! 1" using assms(1) by (auto simp: b nth_append)
  ultimately have "look_v6 ret0 be sport port ?b (length p) = Ret ret0"
    using assms by (simp add: look_v6_def Let_def)
  then show ?thesis using assms(2) by (simp add: recv_v6_def loop_steps Let_def min_absorb2)
qed

theorem recv_v6_indeterminate_witness:
  "\<exists>s'. recv_v6 77 False 40000 33435 False [Packet (3 # replicate 51 0) ex_router] ex_receiver = Returned 77 s' []"
  using recv_v6_indeterminate [where p = "3 # replicate 51 0" and s = ex_receiver and be = False and sport = 40000 and port = 33435
      and verbose = False and sender = ex_router and es = "[]" and ?ret0.0 = 77]
  by (simp add: ex_receiver_def BUFSIZE_def ICMP6_TIME_EXCEEDED_def ICMP6_TIME_EXCEED_TRANSIT_def our_udp_def
      IPPROTO_UDP_def nth_Cons')

end
