(* ===== verification/Traceloop_Props.thy ===== *)
theory Traceloop_Props
  imports Trace_Props
begin

text \<open>The loop of \<open>traceroute\<close>: which probes it sends, when it stops, and that it does.\<close>

section \<open>The probes of a hop\<close>

text \<open>The probe with number \<open>k\<close> (from 0), with \<open>n\<close> probes for each hop from \<open>ttl\<close> on.\<close>

definition nth_probe :: "bool \<Rightarrow> int \<Rightarrow> sockaddr \<Rightarrow> nat \<Rightarrow> nat \<Rightarrow> 16 word \<times> 16 word \<times> nat \<times> sockaddr" where
  "nth_probe be dport dst ttl k =
    (word_of_int (int k + 1), word_of_nat ttl, ttl, sock_set_port dst (uint (htons be (dport + (int k + 1)))))"

lemma sock_set_port_twice [simp]: "sock_set_port (sock_set_port a p) q = sock_set_port a q"
  by (cases a) simp_all

text \<open>The destination is \<open>dst\<close> up to its port.\<close>

definition aims :: "sockaddr \<Rightarrow> tracer \<Rightarrow> bool" where
  "aims dst s \<longleftrightarrow> (\<forall>p. sock_set_port (sasend s) p = sock_set_port dst p)"

text \<open>
  After \<open>k\<close> probes: the probes sent, and how many of them the destination has answered; \<open>code\<close> is
  what the receiving function returns for a sequence number.
\<close>

definition sent_up_to ::
  "(int \<Rightarrow> int) \<Rightarrow> nat \<Rightarrow> bool \<Rightarrow> int \<Rightarrow> sockaddr \<Rightarrow> (16 word \<times> 16 word \<times> nat \<times> sockaddr) list \<Rightarrow> nat \<Rightarrow> nat \<Rightarrow> tracer \<Rightarrow> bool" where
  "sent_up_to code bl be dport dst before n k s \<longleftrightarrow> aims dst s \<and> tseq s = int k \<and> length (recvbuf s) = bl \<and>
     probes s = before @ map (\<lambda>j. nth_probe be dport dst (j div n + 1) j) [0..<k] \<and>
     int (tdone s) = cnt (\<lambda>j. code (int j + 1) = - 1) [0..<k]"

lemma report_keeps [simp]:
  "tseq (report c u v s) = tseq s" "sasend (report c u v s) = sasend s" "probes (report c u v s) = probes s"
  "recvbuf (report c u v s) = recvbuf s"
  by (simp_all add: report_def Let_def)

lemma report_done: "tdone (report c u v s) = tdone s + (if c = - 1 then 1 else 0)"
  by (simp add: report_def Let_def)

text \<open>A network that sends every probe, and a receiver that always returns.\<close>

definition answering :: "(int \<Rightarrow> rx list \<Rightarrow> receiver \<Rightarrow> received) \<Rightarrow> network \<Rightarrow> nat \<Rightarrow> (int \<Rightarrow> int) \<Rightarrow> bool" where
  "answering recv net bl code \<longleftrightarrow> (\<forall>seq. fst (net seq) = None) \<and>
     (\<forall>seq r. length (recvbuf r) = bl \<longrightarrow>
       (\<exists>r' rest. recv seq (fst (snd (net seq))) r = Returned (code seq) r' rest \<and> length (recvbuf r') = bl))"

lemma length_truncate [simp]: "recvbuf (receiver.truncate s) = recvbuf s"
  by (simp add: receiver.truncate_def)

lemma probe_trace:
  assumes "answering recv net bl code" and "sent_up_to code bl be dport dst before n k s" and "k div n + 1 = ttl"
  shows "\<exists>s'. probe recv be dport net ttl s = Trace s' \<and> sent_up_to code bl be dport dst before n (Suc k) s'"
proof -
  obtain st es u v where net: "net (tseq s + 1) = (st, es, u, v)" by (cases "net (tseq s + 1)")
  then have st: "st = None" using assms(1) by (metis answering_def fst_conv)
  define to where "to = sock_set_port (sasend s) (uint (htons be (dport + (tseq s + 1))))"
  define s1 where "s1 = s\<lparr>tseq := tseq s + 1, sasend := to, probes := probes s @ [(word_of_int (tseq s + 1), word_of_nat ttl, ttl, to)]\<rparr>"
  have "length (recvbuf (receiver.truncate s1)) = bl" using assms(2) by (simp add: sent_up_to_def s1_def)
  then obtain r rest where r: "recv (tseq s + 1) es (receiver.truncate s1) = Returned (code (tseq s + 1)) r rest" "length (recvbuf r) = bl"
    using assms(1) net unfolding answering_def by (metis fst_conv snd_conv)
  then have "probe recv be dport net ttl s =
      Trace (report (code (tseq s + 1)) u v (s1\<lparr>recvbuf := recvbuf r, gotalarm := gotalarm r, sarecv := sarecv r, shown := shown r\<rparr>))"
    using st unfolding probe_def Let_def to_def [symmetric] net by (simp add: s1_def)
  moreover have "sent_up_to code bl be dport dst before n (Suc k)
      (report (code (tseq s + 1)) u v (s1\<lparr>recvbuf := recvbuf r, gotalarm := gotalarm r, sarecv := sarecv r, shown := shown r\<rparr>))"
    using assms(2) r(2) by (simp add: assms(3) [symmetric] sent_up_to_def s1_def to_def aims_def nth_probe_def report_done cnt_def add.commute)
  ultimately show ?thesis by blast
qed

lemma hop_trace:
  assumes "answering recv net bl code"
  shows "sent_up_to code bl be dport dst before n k s \<Longrightarrow> k + m = ttl * n \<Longrightarrow> m \<le> n \<Longrightarrow>
    \<exists>s'. hop recv be dport net ttl m s = Trace s' \<and> sent_up_to code bl be dport dst before n (ttl * n) s'"
proof (induction m arbitrary: k s)
  case (Suc m)
  have "k div n + 1 = ttl"
  proof -
    have "(ttl - 1) * n \<le> k" "k < ttl * n" using Suc.prems(2,3) by (simp_all add: diff_mult_distrib)
    then have "k div n = ttl - 1" by (metis Suc_diff_1 div_nat_eqI mult.commute mult_0 not_less_zero gr0I)
    moreover have "0 < ttl" using Suc.prems(2) by (cases ttl) simp_all
    ultimately show ?thesis by simp
  qed
  then obtain s' where s': "probe recv be dport net ttl s = Trace s'" "sent_up_to code bl be dport dst before n (Suc k) s'"
    using probe_trace [OF assms Suc.prems(1)] by blast
  then show ?case using Suc.IH [OF s'(2)] Suc.prems by simp
qed simp

section \<open>The hops\<close>

lemma none_done: "sent_up_to code bl be dport dst before n k s \<Longrightarrow> tdone s = 0 \<longleftrightarrow> (\<forall>j < k. code (int j + 1) \<noteq> - 1)"
proof -
  assume "sent_up_to code bl be dport dst before n k s"
  then have "int (tdone s) = cnt (\<lambda>j. code (int j + 1) = - 1) [0..<k]" by (simp add: sent_up_to_def)
  then have "tdone s = 0 \<longleftrightarrow> cnt (\<lambda>j. code (int j + 1) = - 1) [0..<k] = 0" by linarith
  then show ?thesis unfolding cnt_zero_iff by auto
qed

lemma hops_trace:
  assumes "answering recv net bl code"
  shows "sent_up_to code bl be dport dst before n (ttl * n) s \<Longrightarrow> ttl + left \<le> MAXTTL \<Longrightarrow>
    \<exists>h s'. hops recv be dport net n (Suc ttl) left s = Trace s' \<and> ttl \<le> h \<and> h \<le> ttl + left \<and>
      sent_up_to code bl be dport dst before n (h * n) s' \<and> (tdone s' = 0 \<longrightarrow> h = ttl + left) \<and>
      (ttl < h \<longrightarrow> (\<forall>j < (h - 1) * n. code (int j + 1) \<noteq> - 1))"
proof (induction left arbitrary: ttl s)
  case 0
  then show ?case by auto
next
  case (Suc left)
  show ?case
  proof (cases "tdone s = 0")
    case True
    have "sent_up_to code bl be dport dst before n (ttl * n) (s\<lparr>salast := None, tprinted := tprinted s @ [Hop (Suc ttl)]\<rparr>)"
      using Suc.prems by (simp add: sent_up_to_def aims_def)
    then obtain s1 where s1: "hop recv be dport net (Suc ttl) n (s\<lparr>salast := None, tprinted := tprinted s @ [Hop (Suc ttl)]\<rparr>) = Trace s1"
      "sent_up_to code bl be dport dst before n (Suc ttl * n) s1"
      using hop_trace [OF assms, of be dport dst before n "ttl * n" _ n "Suc ttl"] by auto
    have room: "Suc ttl + left \<le> MAXTTL" using Suc.prems(2) by simp
    obtain h s' where h: "hops recv be dport net n (Suc (Suc ttl)) left s1 = Trace s'" "Suc ttl \<le> h" "h \<le> Suc ttl + left"
      "sent_up_to code bl be dport dst before n (h * n) s'" "tdone s' = 0 \<longrightarrow> h = Suc ttl + left"
      "Suc ttl < h \<longrightarrow> (\<forall>j < (h - 1) * n. code (int j + 1) \<noteq> - 1)"
      using Suc.IH [OF s1(2) room] by (elim exE conjE) (rule that; assumption)
    have "hops recv be dport net n (Suc ttl) (Suc left) s = Trace s'" using True s1(1) h(1) room by simp
    moreover have "ttl \<le> h" "h \<le> ttl + Suc left" "tdone s' = 0 \<longrightarrow> h = ttl + Suc left" using h(2,3,5) by simp_all
    moreover have "\<forall>j < (h - 1) * n. code (int j + 1) \<noteq> - 1"
      using h(2,6) none_done [OF Suc.prems(1)] True by (cases "h = Suc ttl") simp_all
    ultimately show ?thesis using h(4) by (intro exI [of _ h] exI [of _ s']) simp
  next
    case False
    then show ?thesis using Suc.prems by (intro exI [of _ ttl] exI [of _ s]) simp
  qed
qed

text \<open>The answer of the destination to the probe with number \<open>j\<close> (from 0).\<close>

definition at_destination :: "bool \<Rightarrow> int \<Rightarrow> int \<Rightarrow> bool \<Rightarrow> network \<Rightarrow> tracer \<Rightarrow> nat \<Rightarrow> bool" where
  "at_destination be sport dport verbose net s j \<longleftrightarrow>
    (\<exists>r rest. recv_v4 be sport (dport + (int j + 1)) verbose (fst (snd (net (int j + 1)))) (receiver.truncate s) = Returned (- 1) r rest)"

text \<open>
  C29: When \<open>max_ttl\<close> is at most 255, no call fails and every wait for an answer is at last
  interrupted by the alarm, a trace over IPv4 ends. Every probe has the next sequence number,
  the hop limit of its group and the port that its answer is recognised by. \<open>done\<close> counts the
  probes for which \<open>recv_v4\<close> has returned -1, the code of a port-unreachable message of the
  destination; the trace stops after the first group with such a probe, or with \<open>max_ttl\<close>.
\<close>

theorem traceroute_v4:
  assumes "\<forall>k. AlarmIn \<in> set (fst (snd (net k)))" and "\<forall>k. \<forall>e \<in> set (fst (snd (net k))). \<not> fatal e"
    and "\<forall>k. fst (net k) = None" and "max_ttl \<le> MAXTTL"
  shows "\<exists>h s'. traceloop (\<lambda>seq. recv_v4 be sport (dport + seq) verbose) be dport net nprobes max_ttl s = Trace s' \<and>
    h \<le> max_ttl \<and> (h = max_ttl \<or> (\<exists>j < h * nprobes. at_destination be sport dport verbose net s j)) \<and>
    (\<forall>j < (h - 1) * nprobes. \<not> at_destination be sport dport verbose net s j) \<and>
    int (tdone s') = cnt (at_destination be sport dport verbose net s) [0..<h * nprobes] \<and>
    probes s' = probes s @ map (\<lambda>j. (word_of_int (int j + 1), word_of_nat (j div nprobes + 1), j div nprobes + 1,
      sock_set_port (sasend s) (uint (htons be (dport + (int j + 1)))))) [0..<h * nprobes]"
proof -
  let ?recv = "\<lambda>seq. recv_v4 be sport (dport + seq) verbose" and ?r = "receiver.truncate s"
  let ?bl = "length (recvbuf s)" and ?reached = "at_destination be sport dport verbose net s"
  have "\<exists>c r rest. ?recv seq (fst (snd (net seq))) ?r = Returned c r rest" for seq
    using v4.loop_ends assms(1,2) unfolding recv_v4_def by blast
  then obtain code where code: "\<exists>r rest. ?recv seq (fst (snd (net seq))) ?r = Returned (code seq) r rest" for seq by metis
  have ans: "answering ?recv net ?bl code"
    unfolding answering_def
  proof (intro conjI allI impI)
    fix seq and t :: receiver
    assume t: "length (recvbuf t) = ?bl"
    obtain r rest where "?recv seq (fst (snd (net seq))) ?r = Returned (code seq) r rest" using code by blast
    then show "\<exists>r' rest. ?recv seq (fst (snd (net seq))) t = Returned (code seq) r' rest \<and> length (recvbuf r') = ?bl"
      using v4.loop_same_code [of be sport "dport + seq" verbose False _ "?r\<lparr>gotalarm := False\<rparr>" _ r rest "t\<lparr>gotalarm := False\<rparr>"] t
      unfolding recv_v4_def by fastforce
  qed (use assms(3) in blast)
  have start: "sent_up_to code ?bl be dport (sasend s) (probes s) nprobes (0 * nprobes) (s\<lparr>tseq := 0, tdone := 0\<rparr>)"
    by (simp add: sent_up_to_def aims_def cnt_def)
  obtain h s' where h: "hops ?recv be dport net nprobes (Suc 0) max_ttl (s\<lparr>tseq := 0, tdone := 0\<rparr>) = Trace s'" "h \<le> max_ttl"
      "sent_up_to code ?bl be dport (sasend s) (probes s) nprobes (h * nprobes) s'" "tdone s' = 0 \<longrightarrow> h = max_ttl"
      "0 < h \<longrightarrow> (\<forall>j < (h - 1) * nprobes. code (int j + 1) \<noteq> - 1)"
    using hops_trace [OF ans start, unfolded add_0, OF assms(4)] by (elim exE conjE) (rule that)
  have reached: "?reached j \<longleftrightarrow> code (int j + 1) = - 1" for j
    using code [of "int j + 1"] unfolding at_destination_def by auto
  have "(\<forall>j < (h - 1) * nprobes. \<not> ?reached j)" using h(5) unfolding reached by (cases h) simp_all
  moreover have "h = max_ttl \<or> (\<exists>j < h * nprobes. ?reached j)"
    using h(4) none_done [OF h(3)] unfolding reached by auto
  moreover have "cnt ?reached [0..<h * nprobes] = cnt (\<lambda>j. code (int j + 1) = - 1) [0..<h * nprobes]"
    by (rule cnt_cong) (simp add: reached)
  ultimately show ?thesis
    using h(1-3) unfolding traceloop_def sent_up_to_def nth_probe_def
    by (intro exI [of _ h] exI [of _ s'] conjI) simp_all
qed

definition ex_tracer :: tracer where
  "ex_tracer = receiver.extend ex_receiver (tracer.fields 0 0 (Sockaddr_in 0 [10, 0, 0, 9]) None [] [])"

definition ex_net :: network where
  "ex_net k = (None, [AlarmIn], \<lparr>tv_sec = 0, tv_usec = 0\<rparr>, \<lparr>tv_sec = 0, tv_usec = 0\<rparr>)"

theorem traceroute_v4_witness:
  "\<exists>s'. traceloop (\<lambda>seq. recv_v4 False 40000 (33434 + seq) False) False 33434 ex_net 3 30 ex_tracer = Trace s' \<and>
    tdone s' = 0 \<and> length (probes s') = 90"
proof -
  have never: "recv_v4 False 40000 port False [AlarmIn] r \<noteq> Returned (- 1) r' rest" for port r r' rest
    by (simp add: recv_v4_def loop_steps)
  have none: "at_destination False 40000 33434 False ex_net ex_tracer = (\<lambda>j. False)"
    by (simp add: at_destination_def ex_net_def never fun_eq_iff)
  have "probes ex_tracer = []" by (simp add: ex_tracer_def tracer.defs receiver.defs ex_receiver_def)
  then show ?thesis
    using traceroute_v4 [of ex_net 30 False 40000 33434 False 3 ex_tracer]
    unfolding none by (auto simp: ex_net_def fatal_def MAXTTL_def cnt_def)
qed

end
