(* ===== verification/Condprod.thy ===== *)
theory Condprod
  imports Prelude
begin

text \<open>
  The producer-consumer programs of the mutex chapter (\<open>mutex/prodcons1.c\<close> to \<open>prodcons7.c\<close>):
  several threads fill an array, each item with its index, and one thread checks it. In
  \<open>prodcons1.c\<close> the producers have no mutex, in \<open>prodcons2.c\<close> they have one and the consumer starts
  after them, in \<open>prodcons3.c\<close> and \<open>prodcons4.c\<close> it runs at the same time and looks again and again
  whether its item is there, in \<open>prodcons5.c\<close> to \<open>prodcons7.c\<close> it waits on a condition variable, and
  so it does in \<open>MutexAndCondAndRwlock/MutexAndCond.c\<close>, where it checks several items at a time.

  Every statement is one step of one thread. A thread is at a place, the statement that it
  executes next; a thread that waits for a mutex or sleeps has no step. The producers and the
  consumer exist from the beginning (a thread that has not been created yet is one that has not
  been scheduled).
\<close>

section \<open>Threads, mutexes and the shared variables\<close>

definition MAXNITEMS :: int where "MAXNITEMS = 1000000"

datatype cagent = Producer nat | Consumer

text \<open>The mutex of \<open>shared\<close> or \<open>put\<close>, and the one of \<open>nready\<close>.\<close>

datatype pmutex = Put_mutex | Nready_mutex

datatype prodpc =
    P_lock | P_test | P_full | P_store | P_nput | P_nval | P_nready | P_signal | P_unlock
  | R_lock | R_test | R_signal | R_nsignals | R_nready | R_unlock | S_nready | S_signal | P_count | P_end

datatype conspc =
    C_join | C_for int | C_lock int | C_test int | C_spin int | C_asleep int | C_reacquire int | C_take int
  | C_unlock int | C_check int | C_first int | C_item int | C_dec int | C_batch int | C_release int | C_exit | C_end

text \<open>
  \<open>sh_printed\<close> are the lines that the consumer has printed. \<open>spurious\<close> is how often
  \<open>pthread_cond_wait\<close> will still return without a signal.
\<close>

record cstate =
  sh_buff :: "int list"
  nput :: int
  nval :: int
  nready :: int
  nsignals :: int
  counts :: "int list"
  sh_printed :: "(int \<times> int) list"
  locks :: "pmutex \<Rightarrow> cagent option"
  ppc :: "prodpc list"
  cpc :: conspc
  spurious :: nat

text \<open>
  \<open>main\<close> with \<open>nthreads\<close> producers and an array of \<open>maxnitems\<close> items (\<open>MAXNITEMS\<close> in the programs of
  the book, and in \<open>MutexAndCond.c\<close> as many as are produced), before a thread has run.
\<close>

definition cond_start :: "int \<Rightarrow> conspc \<Rightarrow> nat \<Rightarrow> nat \<Rightarrow> cstate" where
  "cond_start maxnitems c nthreads k = \<lparr>sh_buff = replicate (nat maxnitems) 0, nput = 0, nval = 0, nready = 0, nsignals = 0,
     counts = replicate nthreads 0, sh_printed = [], locks = (\<lambda>_. None), ppc = replicate nthreads P_lock, cpc = c,
     spurious = k\<rparr>"

definition place :: "nat \<Rightarrow> prodpc \<Rightarrow> cstate \<Rightarrow> cstate" where
  "place i p s = s\<lparr>ppc := (ppc s)[i := p]\<rparr>"

text \<open>\<open>Pthread_mutex_lock\<close> and \<open>Pthread_mutex_unlock\<close>.\<close>

definition acquire :: "pmutex \<Rightarrow> cagent \<Rightarrow> cstate \<Rightarrow> cstate option" where
  "acquire l a s = (case locks s l of None \<Rightarrow> Some (s\<lparr>locks := (locks s)(l := Some a)\<rparr>) | Some b \<Rightarrow> None)"

definition release :: "pmutex \<Rightarrow> cstate \<Rightarrow> cstate" where
  "release l s = s\<lparr>locks := (locks s)(l := None)\<rparr>"

text \<open>\<open>Pthread_cond_signal\<close>: only the consumer can be asleep.\<close>

fun wake :: "conspc \<Rightarrow> conspc" where
  "wake (C_asleep i) = C_reacquire i"
| "wake c = c"

section \<open>\<open>produce\<close>\<close>

text \<open>
  The statements that all the programs with a mutex have, up to \<open>nval++\<close>; \<open>l\<close> is the mutex that
  protects \<open>nput\<close> and \<open>nval\<close>, and \<open>after\<close> is where the program goes on.
\<close>

fun store_step :: "pmutex \<Rightarrow> prodpc \<Rightarrow> int \<Rightarrow> nat \<Rightarrow> cstate \<Rightarrow> cstate option" where
  "store_step l after nitems i s =
    (case ppc s ! i of
       P_lock \<Rightarrow> map_option (place i P_test) (acquire l (Producer i) s)
     | P_test \<Rightarrow> Some (place i (if nitems \<le> nput s then P_full else P_store) s)
     | P_full \<Rightarrow> Some (place i P_end (release l s))
     | P_store \<Rightarrow> Some (place i P_nput (s\<lparr>sh_buff := (sh_buff s)[nat (nput s) := nval s]\<rparr>))
     | P_nput \<Rightarrow> Some (place i P_nval (s\<lparr>nput := nput s + 1\<rparr>))
     | P_nval \<Rightarrow> Some (place i after (s\<lparr>nval := nval s + 1\<rparr>))
     | P_count \<Rightarrow> Some (place i P_lock (s\<lparr>counts := (counts s)[i := counts s ! i + 1]\<rparr>))
     | _ \<Rightarrow> None)"

text \<open>
  \<open>prodcons1.c\<close>: the same without the mutex. (A store beyond the end of the array, which is
  then possible, leaves the array of the model as it is.)
\<close>

fun produce1_step :: "int \<Rightarrow> nat \<Rightarrow> cstate \<Rightarrow> cstate option" where
  "produce1_step nitems i s =
    (case ppc s ! i of
       P_lock \<Rightarrow> Some (place i P_test s)
     | P_test \<Rightarrow> Some (place i (if nitems \<le> nput s then P_end else P_store) s)
     | _ \<Rightarrow> store_step Put_mutex P_count nitems i s)"

text \<open>\<open>prodcons2.c\<close>, \<open>prodcons3.c\<close>, \<open>prodcons4.c\<close>.\<close>

fun produce2_step :: "int \<Rightarrow> nat \<Rightarrow> cstate \<Rightarrow> cstate option" where
  "produce2_step nitems i s =
    (case ppc s ! i of
       P_unlock \<Rightarrow> Some (place i P_count (release Put_mutex s))
     | _ \<Rightarrow> store_step Put_mutex P_unlock nitems i s)"

text \<open>\<open>prodcons5.c\<close>: one mutex, and a signal for every item.\<close>

fun produce5_step :: "int \<Rightarrow> nat \<Rightarrow> cstate \<Rightarrow> cstate option" where
  "produce5_step nitems i s =
    (case ppc s ! i of
       P_nready \<Rightarrow> Some (place i P_signal (s\<lparr>nready := nready s + 1\<rparr>))
     | P_signal \<Rightarrow> Some (place i R_unlock (s\<lparr>cpc := wake (cpc s)\<rparr>))
     | R_unlock \<Rightarrow> Some (place i P_count (release Nready_mutex s))
     | _ \<Rightarrow> store_step Nready_mutex P_nready nitems i s)"

text \<open>
  \<open>prodcons6.c\<close> and \<open>prodcons7.c\<close>: a mutex of its own for \<open>nready\<close>, and a signal only when it is
  0. Only \<open>prodcons7.c\<close> counts the signals.
\<close>

fun produce7_step :: "bool \<Rightarrow> int \<Rightarrow> nat \<Rightarrow> cstate \<Rightarrow> cstate option" where
  "produce7_step counting nitems i s =
    (case ppc s ! i of
       P_unlock \<Rightarrow> Some (place i R_lock (release Put_mutex s))
     | R_lock \<Rightarrow> map_option (place i R_test) (acquire Nready_mutex (Producer i) s)
     | R_test \<Rightarrow> Some (place i (if nready s = 0 then R_signal else R_nready) s)
     | R_signal \<Rightarrow> Some (place i (if counting then R_nsignals else R_nready) (s\<lparr>cpc := wake (cpc s)\<rparr>))
     | R_nsignals \<Rightarrow> Some (place i R_nready (s\<lparr>nsignals := nsignals s + 1\<rparr>))
     | R_nready \<Rightarrow> Some (place i R_unlock (s\<lparr>nready := nready s + 1\<rparr>))
     | R_unlock \<Rightarrow> Some (place i P_count (release Nready_mutex s))
     | _ \<Rightarrow> store_step Put_mutex P_unlock nitems i s)"

text \<open>
  \<open>MutexAndCond.c\<close>, whose \<open>buffIndex\<close>, \<open>buffVal\<close> and \<open>uncheck\<close> are \<open>nput\<close>, \<open>nval\<close> and \<open>nready\<close> here: a mutex
  of its own for \<open>uncheck\<close>, and a signal for every item. When the consumer has called \<open>exit\<close> no
  thread goes on.
\<close>

fun producer_step :: "int \<Rightarrow> nat \<Rightarrow> cstate \<Rightarrow> cstate option" where
  "producer_step nitems i s =
    (if cpc s = C_exit then None else
     case ppc s ! i of
       P_unlock \<Rightarrow> Some (place i R_lock (release Put_mutex s))
     | R_lock \<Rightarrow> map_option (place i S_nready) (acquire Nready_mutex (Producer i) s)
     | S_nready \<Rightarrow> Some (place i S_signal (s\<lparr>nready := nready s + 1\<rparr>))
     | S_signal \<Rightarrow> Some (place i R_unlock (s\<lparr>cpc := wake (cpc s)\<rparr>))
     | R_unlock \<Rightarrow> Some (place i P_count (release Nready_mutex s))
     | _ \<Rightarrow> store_step Put_mutex P_unlock nitems i s)"

section \<open>\<open>consume\<close>\<close>

definition check_item :: "int \<Rightarrow> cstate \<Rightarrow> cstate" where
  "check_item i s = (if sh_buff s ! nat i \<noteq> i then s\<lparr>sh_printed := sh_printed s @ [(i, sh_buff s ! nat i)]\<rparr> else s)"

text \<open>\<open>prodcons1.c\<close>, \<open>prodcons2.c\<close>: \<open>main\<close> starts the consumer when it has joined the producers.\<close>

fun consume2_step :: "int \<Rightarrow> cstate \<Rightarrow> cstate option" where
  "consume2_step nitems s =
    (case cpc s of
       C_join \<Rightarrow> if list_all (\<lambda>p. p = P_end) (ppc s) then Some (s\<lparr>cpc := C_for 0\<rparr>) else None
     | C_for i \<Rightarrow> Some (s\<lparr>cpc := if i < nitems then C_check i else C_end\<rparr>)
     | C_check i \<Rightarrow> Some ((check_item i s)\<lparr>cpc := C_for (i + 1)\<rparr>)
     | _ \<Rightarrow> None)"

text \<open>\<open>prodcons3.c\<close>, \<open>prodcons4.c\<close>: \<open>consume_wait\<close>.\<close>

fun consume3_step :: "int \<Rightarrow> cstate \<Rightarrow> cstate option" where
  "consume3_step nitems s =
    (case cpc s of
       C_for i \<Rightarrow> Some (s\<lparr>cpc := if i < nitems then C_lock i else C_end\<rparr>)
     | C_lock i \<Rightarrow> map_option (cpc_update (\<lambda>_. C_test i)) (acquire Put_mutex Consumer s)
     | C_test i \<Rightarrow> Some (s\<lparr>cpc := if i < nput s then C_unlock i else C_spin i\<rparr>)
     | C_spin i \<Rightarrow> Some ((release Put_mutex s)\<lparr>cpc := C_lock i\<rparr>)
     | C_unlock i \<Rightarrow> Some ((release Put_mutex s)\<lparr>cpc := C_check i\<rparr>)
     | C_check i \<Rightarrow> Some ((check_item i s)\<lparr>cpc := C_for (i + 1)\<rparr>)
     | _ \<Rightarrow> None)"

text \<open>\<open>prodcons5.c\<close>, \<open>prodcons6.c\<close>, \<open>prodcons7.c\<close>.\<close>

fun consume5_step :: "int \<Rightarrow> cstate \<Rightarrow> cstate option" where
  "consume5_step nitems s =
    (case cpc s of
       C_for i \<Rightarrow> Some (s\<lparr>cpc := if i < nitems then C_lock i else C_end\<rparr>)
     | C_lock i \<Rightarrow> map_option (cpc_update (\<lambda>_. C_test i)) (acquire Nready_mutex Consumer s)
     | C_test i \<Rightarrow> if nready s = 0 then Some ((release Nready_mutex s)\<lparr>cpc := C_asleep i\<rparr>) else Some (s\<lparr>cpc := C_take i\<rparr>)
     | C_reacquire i \<Rightarrow> map_option (cpc_update (\<lambda>_. C_test i)) (acquire Nready_mutex Consumer s)
     | C_take i \<Rightarrow> Some (s\<lparr>nready := nready s - 1, cpc := C_unlock i\<rparr>)
     | C_unlock i \<Rightarrow> Some ((release Nready_mutex s)\<lparr>cpc := C_check i\<rparr>)
     | C_check i \<Rightarrow> Some ((check_item i s)\<lparr>cpc := C_for (i + 1)\<rparr>)
     | _ \<Rightarrow> None)"

text \<open>
  \<open>consumer\<close> of \<open>MutexAndCond.c\<close>: when it has the mutex it checks all items that are ready, and it
  exits at the first wrong one.
\<close>

fun consumer_step :: "int \<Rightarrow> cstate \<Rightarrow> cstate option" where
  "consumer_step nitems s =
    (case cpc s of
       C_for i \<Rightarrow> Some (s\<lparr>cpc := if i < nitems then C_lock i else C_end\<rparr>)
     | C_lock i \<Rightarrow> map_option (cpc_update (\<lambda>_. C_test i)) (acquire Nready_mutex Consumer s)
     | C_test i \<Rightarrow> if nready s = 0 then Some ((release Nready_mutex s)\<lparr>cpc := C_asleep i\<rparr>) else Some (s\<lparr>cpc := C_first i\<rparr>)
     | C_reacquire i \<Rightarrow> map_option (cpc_update (\<lambda>_. C_test i)) (acquire Nready_mutex Consumer s)
     | C_first i \<Rightarrow> Some (s\<lparr>cpc := if 0 < nready s then C_item i else C_release i\<rparr>)
     | C_item i \<Rightarrow> Some (if sh_buff s ! nat i \<noteq> i then (check_item i s)\<lparr>cpc := C_exit\<rparr> else s\<lparr>cpc := C_dec (i + 1)\<rparr>)
     | C_dec i \<Rightarrow> Some (s\<lparr>nready := nready s - 1, cpc := C_batch i\<rparr>)
     | C_batch i \<Rightarrow> Some (s\<lparr>cpc := if 0 < nready s then C_item i else C_release i\<rparr>)
     | C_release i \<Rightarrow> Some ((release Nready_mutex s)\<lparr>cpc := C_for i\<rparr>)
     | _ \<Rightarrow> None)"

section \<open>The programs\<close>

inductive cond_step :: "(nat \<Rightarrow> cstate \<Rightarrow> cstate option) \<Rightarrow> (cstate \<Rightarrow> cstate option) \<Rightarrow> cstate \<Rightarrow> cstate \<Rightarrow> bool"
  for produce consume where
  produces: "i < length (ppc s) \<Longrightarrow> produce i s = Some s' \<Longrightarrow> cond_step produce consume s s'"
| consumes: "consume s = Some s' \<Longrightarrow> cond_step produce consume s s'"
| wakes: "cpc s = C_asleep i \<Longrightarrow> 0 < spurious s \<Longrightarrow>
    cond_step produce consume s (s\<lparr>cpc := C_reacquire i, spurious := spurious s - 1\<rparr>)"

abbreviation prodcons1 :: "int \<Rightarrow> cstate \<Rightarrow> cstate \<Rightarrow> bool" where
  "prodcons1 nitems \<equiv> cond_step (produce1_step nitems) (consume2_step nitems)"

abbreviation prodcons2 :: "int \<Rightarrow> cstate \<Rightarrow> cstate \<Rightarrow> bool" where
  "prodcons2 nitems \<equiv> cond_step (produce2_step nitems) (consume2_step nitems)"

abbreviation prodcons3 :: "int \<Rightarrow> cstate \<Rightarrow> cstate \<Rightarrow> bool" where
  "prodcons3 nitems \<equiv> cond_step (produce2_step nitems) (consume3_step nitems)"

abbreviation prodcons5 :: "int \<Rightarrow> cstate \<Rightarrow> cstate \<Rightarrow> bool" where
  "prodcons5 nitems \<equiv> cond_step (produce5_step nitems) (consume5_step nitems)"

abbreviation prodcons6 :: "int \<Rightarrow> cstate \<Rightarrow> cstate \<Rightarrow> bool" where
  "prodcons6 nitems \<equiv> cond_step (produce7_step False nitems) (consume5_step nitems)"

abbreviation prodcons7 :: "int \<Rightarrow> cstate \<Rightarrow> cstate \<Rightarrow> bool" where
  "prodcons7 nitems \<equiv> cond_step (produce7_step True nitems) (consume5_step nitems)"

abbreviation mutex_and_cond :: "int \<Rightarrow> cstate \<Rightarrow> cstate \<Rightarrow> bool" where
  "mutex_and_cond nitems \<equiv> cond_step (producer_step nitems) (consumer_step nitems)"

text \<open>The program has ended: every thread has returned.\<close>

definition cond_final :: "cstate \<Rightarrow> bool" where
  "cond_final s \<longleftrightarrow> cpc s = C_end \<and> (\<forall>i < length (ppc s). ppc s ! i = P_end)"

text \<open>A run with a given order of the threads.\<close>

fun run_cond :: "(nat \<Rightarrow> cstate \<Rightarrow> cstate option) \<Rightarrow> (cstate \<Rightarrow> cstate option) \<Rightarrow> cagent list \<Rightarrow> cstate \<Rightarrow> cstate option" where
  "run_cond produce consume [] s = Some s"
| "run_cond produce consume (Producer i # as) s =
    (if i < length (ppc s) then case produce i s of None \<Rightarrow> None | Some s' \<Rightarrow> run_cond produce consume as s' else None)"
| "run_cond produce consume (Consumer # as) s =
    (case consume s of None \<Rightarrow> None | Some s' \<Rightarrow> run_cond produce consume as s')"

end
