(* ===== verification/Condprod_Inv.thy ===== *)
theory Condprod_Inv
  imports Condprod
begin

text \<open>
  The invariants that the producer-consumer programs with mutexes share: who holds which
  mutex, and what the array, the index and the next value are at each place of the producer
  that holds the mutex.
\<close>

section \<open>Mutual exclusion\<close>

text \<open>The mutex that a thread at a place holds.\<close>

fun p_held :: "pmutex \<Rightarrow> prodpc \<Rightarrow> pmutex option" where
  "p_held lp p =
    (if p \<in> {P_test, P_full, P_store, P_nput, P_nval, P_nready, P_signal, P_unlock} then Some lp
     else if p \<in> {R_test, R_signal, R_nsignals, R_nready, R_unlock, S_nready, S_signal} then Some Nready_mutex else None)"

fun c_held :: "pmutex \<Rightarrow> conspc \<Rightarrow> pmutex option" where
  "c_held lc (C_test i) = Some lc"
| "c_held lc (C_spin i) = Some lc"
| "c_held lc (C_take i) = Some lc"
| "c_held lc (C_unlock i) = Some lc"
| "c_held lc (C_first i) = Some lc"
| "c_held lc (C_item i) = Some lc"
| "c_held lc (C_dec i) = Some lc"
| "c_held lc (C_batch i) = Some lc"
| "c_held lc (C_release i) = Some lc"
| "c_held lc c = None"

definition mutex_ok :: "pmutex \<Rightarrow> pmutex \<Rightarrow> cstate \<Rightarrow> bool" where
  "mutex_ok lp lc s \<longleftrightarrow>
     (\<forall>i l. locks s l = Some (Producer i) \<longleftrightarrow> i < length (ppc s) \<and> p_held lp (ppc s ! i) = Some l) \<and>
     (\<forall>l. locks s l = Some Consumer \<longleftrightarrow> c_held lc (cpc s) = Some l)"

lemma mutex_producer:
  "mutex_ok lp lc s \<Longrightarrow> locks s l = Some (Producer i) \<longleftrightarrow> i < length (ppc s) \<and> p_held lp (ppc s ! i) = Some l"
  by (simp add: mutex_ok_def del: p_held.simps)

lemma mutex_cons: "mutex_ok lp lc s \<Longrightarrow> locks s l = Some Consumer \<longleftrightarrow> c_held lc (cpc s) = Some l"
  by (simp add: mutex_ok_def del: p_held.simps)

lemma mutex_free:
  "mutex_ok lp lc s \<Longrightarrow> locks s l = None \<Longrightarrow>
    c_held lc (cpc s) \<noteq> Some l \<and> (\<forall>i < length (ppc s). p_held lp (ppc s ! i) \<noteq> Some l)"
  using mutex_producer [of lp lc s l] mutex_cons [of lp lc s l] by auto

lemma mutex_excl:
  "mutex_ok lp lc s \<Longrightarrow> i < length (ppc s) \<Longrightarrow> p_held lp (ppc s ! i) = Some l \<Longrightarrow>
    c_held lc (cpc s) \<noteq> Some l \<and> (\<forall>j < length (ppc s). j \<noteq> i \<longrightarrow> p_held lp (ppc s ! j) \<noteq> Some l)"
  using mutex_producer [of lp lc s l] mutex_cons [of lp lc s l] by (metis cagent.distinct(1) cagent.inject option.inject)

lemma mutex_keep:
  assumes "mutex_ok lp lc s" and "i < length (ppc s)" and "ppc t = (ppc s)[i := p]"
    and "p_held lp p = p_held lp (ppc s ! i)" and "locks t = locks s" and "c_held lc (cpc t) = c_held lc (cpc s)"
  shows "mutex_ok lp lc t"
  using assms by (auto simp: mutex_ok_def nth_list_update simp del: p_held.simps)

lemma mutex_acquire:
  assumes "mutex_ok lp lc s" and "i < length (ppc s)" and "ppc t = (ppc s)[i := p]"
    and "p_held lp (ppc s ! i) = None" and "locks s l = None" and "p_held lp p = Some l"
    and "locks t = (locks s)(l := Some (Producer i))" and "cpc t = cpc s"
  shows "mutex_ok lp lc t"
  using assms mutex_free [OF assms(1,5)] by (auto simp: mutex_ok_def nth_list_update simp del: p_held.simps)

lemma mutex_release:
  assumes ok: "mutex_ok lp lc s" and i: "i < length (ppc s)" and "ppc t = (ppc s)[i := p]"
    and l: "p_held lp (ppc s ! i) = Some l" and "p_held lp p = None"
    and "locks t = (locks s)(l := None)" and "cpc t = cpc s"
  shows "mutex_ok lp lc t"
proof -
  have "locks s l = Some (Producer i)" using mutex_producer [OF ok] i l by simp
  then show ?thesis using assms mutex_excl [OF ok i l] by (auto simp: mutex_ok_def nth_list_update simp del: p_held.simps)
qed

lemma mutex_c_keep:
  "mutex_ok lp lc s \<Longrightarrow> ppc t = ppc s \<Longrightarrow> locks t = locks s \<Longrightarrow> c_held lc (cpc t) = c_held lc (cpc s) \<Longrightarrow> mutex_ok lp lc t"
  by (simp add: mutex_ok_def del: p_held.simps)

lemma mutex_c_acquire:
  assumes "mutex_ok lp lc s" and "locks s lc = None" and "ppc t = ppc s" and "c_held lc (cpc s) = None"
    and "c_held lc (cpc t) = Some lc" and "locks t = (locks s)(lc := Some Consumer)"
  shows "mutex_ok lp lc t"
  using assms mutex_free [OF assms(1,2)] by (auto simp: mutex_ok_def simp del: p_held.simps split: if_splits)

lemma mutex_c_release:
  assumes "mutex_ok lp lc s" and "ppc t = ppc s" and "c_held lc (cpc s) = Some lc"
    and "c_held lc (cpc t) = None" and "locks t = (locks s)(lc := None)"
  shows "mutex_ok lp lc t"
proof -
  have "locks s lc = Some Consumer" using mutex_cons [OF assms(1)] assms(3) by simp
  then have "i < length (ppc s) \<Longrightarrow> p_held lp (ppc s ! i) \<noteq> Some lc" for i
    using mutex_producer [OF assms(1), of lc i] by simp
  then show ?thesis using assms by (auto simp: mutex_ok_def simp del: p_held.simps split: if_splits)
qed

text \<open>The place of the producer that holds the mutex of \<open>nput\<close>.\<close>

definition inner :: "pmutex \<Rightarrow> cstate \<Rightarrow> prodpc" where
  "inner lp s = (case locks s lp of Some (Producer i) \<Rightarrow> ppc s ! i | _ \<Rightarrow> P_lock)"

lemma inner_holder: "mutex_ok lp lc s \<Longrightarrow> i < length (ppc s) \<Longrightarrow> p_held lp (ppc s ! i) = Some lp \<Longrightarrow> inner lp s = ppc s ! i"
  using mutex_producer [of lp lc s lp i] by (simp add: inner_def)

lemma inner_other:
  assumes ok: "mutex_ok lp lc s" and i: "p_held lp (ppc s ! i) \<noteq> Some lp"
    and t: "ppc t = (ppc s)[i := p]" "locks t lp = locks s lp"
  shows "inner lp t = inner lp s"
proof (cases "\<exists>j. locks s lp = Some (Producer j)")
  case True
  then obtain j where j: "locks s lp = Some (Producer j)" by blast
  then have "j \<noteq> i" using mutex_producer [OF ok, of lp j] i by blast
  then show ?thesis using j t by (simp add: inner_def)
next
  case False
  then show ?thesis using t by (auto simp: inner_def split: option.splits cagent.splits)
qed

section \<open>The array\<close>

text \<open>A producer that has stored an item and not yet counted it.\<close>

definition uncounted :: "prodpc \<Rightarrow> bool" where
  "uncounted p \<longleftrightarrow> p \<notin> {P_lock, P_test, P_full, P_store, P_nput, P_end}"

definition inner_ok :: "int \<Rightarrow> cstate \<Rightarrow> prodpc \<Rightarrow> bool" where
  "inner_ok nitems s p \<longleftrightarrow>
    (case p of P_store \<Rightarrow> nput s < nitems \<and> nval s = nput s
     | P_nput \<Rightarrow> nput s < nitems \<and> nval s = nput s \<and> sh_buff s ! nat (nput s) = nput s
     | P_nval \<Rightarrow> nput s = nval s + 1
     | _ \<Rightarrow> nval s = nput s)"

definition filled :: "int \<Rightarrow> cstate \<Rightarrow> bool" where
  "filled nitems s \<longleftrightarrow> nitems \<le> int (length (sh_buff s)) \<and> 0 \<le> nput s \<and> nput s \<le> max 0 nitems \<and>
     (\<forall>k < nat (nput s). sh_buff s ! k = int k)"

definition store_ok :: "pmutex \<Rightarrow> int \<Rightarrow> cstate \<Rightarrow> bool" where
  "store_ok lp nitems s \<longleftrightarrow> filled nitems s \<and> inner_ok nitems s (inner lp s) \<and>
     length (counts s) = length (ppc s) \<and> sum_list (counts s) = nput s - cnt uncounted (ppc s) \<and>
     (\<forall>i < length (ppc s). ppc s ! i = P_full \<or> ppc s ! i = P_end \<longrightarrow> nitems \<le> nput s)"

lemma sum_list_update_int: "i < length xs \<Longrightarrow> sum_list (xs[i := x]) = sum_list xs - xs ! i + (x::int)"
  by (induction xs arbitrary: i) (auto split: nat.splits)

lemma store_same:
  assumes "sh_buff t = sh_buff s" "nput t = nput s" "nval t = nval s"
  shows "filled nitems t = filled nitems s" "inner_ok nitems t q = inner_ok nitems s q"
  using assms by (simp_all add: filled_def inner_ok_def split: prodpc.splits)

text \<open>A step after \<open>nval++\<close>, and a step of the consumer.\<close>

lemma store_quiet:
  assumes ok: "mutex_ok lp lc s" "store_ok lp nitems s" and i: "i < length (ppc s)"
    and t: "ppc t = (ppc s)[i := p]" "sh_buff t = sh_buff s" "nput t = nput s" "nval t = nval s" "counts t = counts s"
    and p: "uncounted (ppc s ! i)" "uncounted p" "ppc s ! i \<noteq> P_nval" "p \<noteq> P_nval"
    and l: "locks t lp = locks s lp \<or> p_held lp (ppc s ! i) = Some lp \<and> locks t lp = None \<or>
      locks s lp = None \<and> locks t lp = Some (Producer i)"
  shows "store_ok lp nitems t"
proof -
  have quiet: "inner_ok nitems s q = (nval s = nput s)" if "q = P_lock \<or> uncounted q \<and> q \<noteq> P_nval" for q
    using that by (cases q) (auto simp: inner_ok_def uncounted_def)
  have inner: "inner_ok nitems s (inner lp s)" using ok(2) by (simp add: store_ok_def)
  have "inner_ok nitems s (inner lp t)"
  proof (cases "p_held lp (ppc s ! i) = Some lp")
    case True
    then have "inner lp s = ppc s ! i" "locks s lp = Some (Producer i)"
      using inner_holder [OF ok(1) i] mutex_producer [OF ok(1)] i by simp_all
    moreover from this have "inner lp t = p \<or> inner lp t = P_lock" using t(1) l i by (auto simp: inner_def)
    ultimately show ?thesis using inner quiet [of "ppc s ! i"] quiet [of p] quiet [of P_lock] p by auto
  next
    case False
    show ?thesis
    proof (cases "locks t lp = locks s lp")
      case True
      then show ?thesis using inner_other [OF ok(1) False t(1)] inner by simp
    next
      case l': False
      then have "inner lp s = P_lock" "inner lp t = p" using False l t(1) i by (auto simp: inner_def)
      then show ?thesis using inner quiet [of p] quiet [of P_lock] p by auto
    qed
  qed
  moreover have "\<forall>j < length (ppc t). ppc t ! j = P_full \<or> ppc t ! j = P_end \<longrightarrow> nitems \<le> nput t"
    using ok(2) t p i by (auto simp: store_ok_def nth_list_update uncounted_def)
  ultimately show ?thesis using ok(2) t p i by (simp add: store_ok_def store_same [OF t(2-4)] cnt_update)
qed

lemma store_consumer:
  assumes "store_ok lp nitems s" and "ppc t = ppc s" "sh_buff t = sh_buff s" "nput t = nput s" "nval t = nval s"
    "counts t = counts s" and "inner lp t = inner lp s"
  shows "store_ok lp nitems t"
  using assms by (simp add: store_ok_def store_same [OF assms(3-5)])

subsection \<open>The statements that the programs share\<close>

lemma acquire_Some: "acquire l a s = Some t \<longleftrightarrow> locks s l = None \<and> t = s\<lparr>locks := (locks s)(l := Some a)\<rparr>"
  by (auto simp: acquire_def split: option.splits)

lemmas place_simps = place_def release_def acquire_Some

lemma mutex_store:
  assumes ok: "mutex_ok lp lc s" and i: "i < length (ppc s)" and step: "store_step lp after nitems i s = Some s'"
    and after: "p_held lp after = Some lp"
  shows "mutex_ok lp lc s'"
proof (cases "ppc s ! i")
  case P_lock
  then show ?thesis using step by (auto simp: place_simps intro: mutex_acquire [OF ok i])
next
  case P_full
  then show ?thesis using step by (auto simp: place_simps intro: mutex_release [OF ok i])
next
  case P_nval
  then show ?thesis using step after by (auto simp: place_simps simp del: p_held.simps intro!: mutex_keep [OF ok i]) simp
qed (use step in \<open>auto simp: place_simps intro: mutex_keep [OF ok i]\<close>)

text \<open>What the others see of the array does not change when an item is stored.\<close>

lemma filled_store:
  assumes "filled nitems s" and "nput s < nitems" and "nval s = nput s"
  shows "filled nitems (s\<lparr>sh_buff := (sh_buff s)[nat (nput s) := nval s], ppc := ps\<rparr>)"
    and "(sh_buff s)[nat (nput s) := nval s] ! nat (nput s) = nput s"
  using assms by (auto simp: filled_def)

lemma filled_more:
  assumes "filled nitems s" and "nput s < nitems" and "sh_buff s ! nat (nput s) = nput s"
  shows "filled nitems (s\<lparr>nput := nput s + 1, ppc := ps\<rparr>)"
proof -
  have "sh_buff s ! k = int k" if "k < nat (nput s + 1)" for k
    using that assms by (cases "k = nat (nput s)") (auto simp: filled_def)
  then show ?thesis using assms by (auto simp: filled_def)
qed

lemma store_holder:
  assumes ok: "mutex_ok lp lc s" "store_ok lp nitems s" and i: "i < length (ppc s)" "p_held lp (ppc s ! i) = Some lp"
    and t: "ppc t = (ppc s)[i := p]" "locks t = locks s" "counts t = counts s" "nput s \<le> nput t"
    and p: "filled nitems t" "inner_ok nitems t p" "p = P_full \<or> p = P_end \<longrightarrow> nitems \<le> nput t"
    and n: "nput t = nput s + (if uncounted p then 1 else 0) - (if uncounted (ppc s ! i) then 1 else 0)"
  shows "store_ok lp nitems t"
proof -
  have "locks s lp = Some (Producer i)" using mutex_producer [OF ok(1)] i by simp
  then have "inner lp t = p" using t i(1) by (simp add: inner_def)
  moreover have "\<forall>j < length (ppc t). ppc t ! j = P_full \<or> ppc t ! j = P_end \<longrightarrow> nitems \<le> nput t"
    using ok(2) t(1,4) p(3) i(1) by (auto simp: store_ok_def nth_list_update)
  ultimately show ?thesis using ok(2) t i(1) p(1,2) n by (simp add: store_ok_def cnt_update)
qed

text \<open>A step that takes or gives back the mutex, outside the statements on the array.\<close>

lemma store_outside:
  assumes ok: "mutex_ok lp lc s" "store_ok lp nitems s" and i: "i < length (ppc s)"
    and t: "ppc t = (ppc s)[i := p]" "sh_buff t = sh_buff s" "nput t = nput s" "nval t = nval s" "length (counts t) = length (counts s)"
    and n: "sum_list (counts t) = sum_list (counts s) - (if uncounted p then 1 else 0) + (if uncounted (ppc s ! i) then 1 else 0)"
    and p: "p = P_full \<or> p = P_end \<longrightarrow> nitems \<le> nput s" and inner: "inner_ok nitems s (inner lp t)"
  shows "store_ok lp nitems t"
proof -
  have "\<forall>j < length (ppc t). ppc t ! j = P_full \<or> ppc t ! j = P_end \<longrightarrow> nitems \<le> nput t"
    using ok(2) t(1,3) p i by (auto simp: store_ok_def nth_list_update)
  then show ?thesis using ok(2) t i n inner by (simp add: store_ok_def store_same [OF t(2-4)] cnt_update)
qed

lemma inner_ok_inner: "store_ok lp nitems s \<Longrightarrow> inner_ok nitems s (inner lp s)"
  by (simp add: store_ok_def)

lemma store_store:
  assumes ok: "mutex_ok lp lc s" "store_ok lp nitems s" and i: "i < length (ppc s)"
    and step: "store_step lp after nitems i s = Some s'" and after: "uncounted after" "after \<noteq> P_nval"
  shows "store_ok lp nitems s'"
proof -
  have inner: "inner_ok nitems s (ppc s ! i)" if "p_held lp (ppc s ! i) = Some lp"
    using inner_ok_inner [OF ok(2)] inner_holder [OF ok(1) i that] by simp
  have f: "filled nitems s" using ok(2) by (simp add: store_ok_def)
  have holder: "store_ok lp nitems t" if "p_held lp (ppc s ! i) = Some lp" "t = place i p t'" "ppc t' = ppc s"
    "locks t' = locks s" "counts t' = counts s" "nput s \<le> nput t'" "filled nitems t" "inner_ok nitems t p"
    "p = P_full \<or> p = P_end \<longrightarrow> nitems \<le> nput t'"
    "nput t' = nput s + (if uncounted p then 1 else 0) - (if uncounted (ppc s ! i) then 1 else 0)" for t t' p
    using that by (intro store_holder [OF ok i that(1)]) (simp_all add: place_def)
  show ?thesis
  proof (cases "ppc s ! i")
    case P_lock
    then have l: "locks s lp = None" and s': "s' = place i P_test (s\<lparr>locks := (locks s)(lp := Some (Producer i))\<rparr>)"
      using step by (auto simp: acquire_Some)
    have "inner lp s = P_lock" "inner lp s' = P_test" using l i by (simp_all add: inner_def s' place_def)
    then have "inner_ok nitems s (inner lp s')" using inner_ok_inner [OF ok(2)] by (simp add: inner_ok_def)
    then show ?thesis using P_lock by (intro store_outside [OF ok i, where p = P_test]) (simp_all add: s' place_def uncounted_def)
  next
    case P_full
    then have s': "s' = place i P_end (release lp s)" using step by simp
    have "inner_ok nitems s (inner lp s')" using inner P_full by (simp add: inner_def s' place_simps inner_ok_def)
    moreover have "nitems \<le> nput s" using ok(2) P_full i by (simp add: store_ok_def)
    ultimately show ?thesis using P_full
      by (intro store_outside [OF ok i, where p = P_end]) (simp_all add: s' place_simps uncounted_def)
  next
    case P_test
    then have s': "s' = place i (if nitems \<le> nput s then P_full else P_store) s" using step by simp
    show ?thesis using inner P_test f unfolding s'
      by (intro holder [of _ _ s]) (auto simp: place_def inner_ok_def filled_def uncounted_def split: if_splits)
  next
    case P_store
    then have s': "s' = place i P_nput (s\<lparr>sh_buff := (sh_buff s)[nat (nput s) := nval s]\<rparr>)" using step by simp
    show ?thesis using inner P_store filled_store [OF f] unfolding s'
      by (intro holder [OF _ refl]) (auto simp: place_def inner_ok_def uncounted_def)
  next
    case P_nput
    then have s': "s' = place i P_nval (s\<lparr>nput := nput s + 1\<rparr>)" using step by simp
    show ?thesis using inner P_nput filled_more [OF f] unfolding s'
      by (intro holder [OF _ refl]) (auto simp: place_def inner_ok_def uncounted_def)
  next
    case P_nval
    then have s': "s' = place i after (s\<lparr>nval := nval s + 1\<rparr>)" using step by simp
    have n: "nput s = nval s + 1" using inner P_nval by (simp add: inner_ok_def)
    then have "inner_ok nitems s' after"
      using after by (cases after) (simp_all add: s' place_def inner_ok_def uncounted_def)
    moreover have "filled nitems s'" using f by (simp add: s' place_def filled_def)
    ultimately show ?thesis using P_nval after unfolding s'
      by (intro holder [OF _ refl]) (auto simp: uncounted_def)
  next
    case P_count
    then have s': "s' = place i P_lock (s\<lparr>counts := (counts s)[i := counts s ! i + 1]\<rparr>)" using step by simp
    have len: "i < length (counts s)" using ok(2) i by (simp add: store_ok_def)
    have "inner lp s' = inner lp s" using P_count by (intro inner_other [OF ok(1), of i _ P_lock]) (simp_all add: s' place_def)
    then show ?thesis using P_count len inner_ok_inner [OF ok(2)]
      by (intro store_outside [OF ok i, where p = P_lock]) (simp_all add: s' place_def uncounted_def sum_list_update_int)
  qed (use step in auto)
qed

end
