(* ===== verification/Condprod_Props.thy ===== *)
theory Condprod_Props
  imports Condprod_Inv
begin

text \<open>
  The programs with a mutex fill the array correctly on every schedule, and those with a
  condition variable end on every schedule: the consumer never sleeps while an item is ready
  that nobody will signal. Without the mutex there is a schedule that gives a wrong array.
\<close>

section \<open>The items that are ready\<close>

text \<open>A producer that has stored an item that it has not added to \<open>nready\<close>.\<close>

definition pending :: "prodpc \<Rightarrow> bool" where
  "pending p \<longleftrightarrow> p \<in> {P_nval, P_nready, P_unlock, R_lock, R_test, R_signal, R_nsignals, R_nready, S_nready}"

text \<open>A producer that has signalled, and not yet added its item.\<close>

definition signalled :: "prodpc \<Rightarrow> bool" where
  "signalled p \<longleftrightarrow> p = R_nsignals \<or> p = R_nready"

text \<open>A producer that has added its item and is about to signal.\<close>

definition signalling :: "prodpc \<Rightarrow> bool" where
  "signalling p \<longleftrightarrow> p = P_signal \<or> p = S_signal"

text \<open>The items that the consumer has taken.\<close>

fun taken :: "int \<Rightarrow> conspc \<Rightarrow> int" where
  "taken nitems (C_for i) = i"
| "taken nitems (C_lock i) = i"
| "taken nitems (C_test i) = i"
| "taken nitems (C_asleep i) = i"
| "taken nitems (C_reacquire i) = i"
| "taken nitems (C_take i) = i"
| "taken nitems (C_unlock i) = i + 1"
| "taken nitems (C_check i) = i + 1"
| "taken nitems (C_first i) = i"
| "taken nitems (C_item i) = i"
| "taken nitems (C_dec i) = i - 1"
| "taken nitems (C_batch i) = i"
| "taken nitems (C_release i) = i"
| "taken nitems C_end = max 0 nitems"
| "taken nitems c = 0"

text \<open>
  The consumer sleeps only while nothing is ready, or the producer that has made an item ready
  is about to signal.
\<close>

definition sleep_ok :: "int \<Rightarrow> prodpc list \<Rightarrow> bool" where
  "sleep_ok r ps \<longleftrightarrow> r = cnt signalling ps \<and> cnt signalled ps = 0"

definition waiting_ok :: "int \<Rightarrow> int \<Rightarrow> prodpc list \<Rightarrow> conspc \<Rightarrow> bool" where
  "waiting_ok nitems r ps c \<longleftrightarrow>
    (case c of C_for i \<Rightarrow> 0 \<le> i \<and> i \<le> max 0 nitems
     | C_lock i \<Rightarrow> 0 \<le> i \<and> i < nitems
     | C_test i \<Rightarrow> 0 \<le> i \<and> i < nitems
     | C_asleep i \<Rightarrow> 0 \<le> i \<and> i < nitems \<and> sleep_ok r ps
     | C_reacquire i \<Rightarrow> 0 \<le> i \<and> i < nitems
     | C_take i \<Rightarrow> 0 \<le> i \<and> i < nitems \<and> 0 < r
     | C_unlock i \<Rightarrow> 0 \<le> i \<and> i < nitems
     | C_check i \<Rightarrow> 0 \<le> i \<and> i < nitems
     | C_first i \<Rightarrow> 0 \<le> i \<and> i < nitems \<and> 0 < r
     | C_item i \<Rightarrow> 0 \<le> i \<and> i < nitems \<and> 0 < r
     | C_dec i \<Rightarrow> 0 < i \<and> i \<le> nitems \<and> 0 < r
     | C_batch i \<Rightarrow> 0 \<le> i \<and> i \<le> nitems
     | C_release i \<Rightarrow> 0 \<le> i \<and> i \<le> nitems
     | C_end \<Rightarrow> True
     | _ \<Rightarrow> False)"

definition ready_ok :: "int \<Rightarrow> cstate \<Rightarrow> bool" where
  "ready_ok nitems s \<longleftrightarrow> 0 \<le> nready s \<and> nput s = nready s + cnt pending (ppc s) + taken nitems (cpc s) \<and>
     waiting_ok nitems (nready s) (ppc s) (cpc s) \<and> sh_printed s = []"

definition cond_ok :: "pmutex \<Rightarrow> (prodpc \<Rightarrow> bool) \<Rightarrow> int \<Rightarrow> cstate \<Rightarrow> bool" where
  "cond_ok lp used nitems s \<longleftrightarrow> mutex_ok lp Nready_mutex s \<and> store_ok lp nitems s \<and> ready_ok nitems s \<and>
     ppc s \<noteq> [] \<and> list_all used (ppc s)"

lemma taken_wake [simp]: "taken nitems (wake c) = taken nitems c"
  by (cases c) simp_all

lemma c_held_wake [simp]: "c_held lc (wake c) = c_held lc c"
  by (cases c) simp_all

lemma waiting_wake: "waiting_ok nitems r ps c \<Longrightarrow> waiting_ok nitems r qs (wake c)"
  by (cases c) (simp_all add: waiting_ok_def)

lemma waiting_awake: "waiting_ok nitems r ps c \<Longrightarrow> (\<And>i. c \<noteq> C_asleep i) \<Longrightarrow> r \<le> r' \<Longrightarrow> waiting_ok nitems r' qs c"
  by (cases c) (auto simp: waiting_ok_def)

lemma ready_quiet:
  assumes ok: "ready_ok nitems s" and i: "i < length (ppc s)"
    and t: "ppc t = (ppc s)[i := p]" "nready t = nready s" "cpc t = cpc s" "sh_printed t = sh_printed s"
    and n: "nput t = nput s + (if pending p then 1 else 0) - (if pending (ppc s ! i) then 1 else 0)"
    and p: "signalling p \<longleftrightarrow> signalling (ppc s ! i)" "signalled p \<longleftrightarrow> signalled (ppc s ! i)"
  shows "ready_ok nitems t"
proof -
  have "sleep_ok r ((ppc s)[i := p]) = sleep_ok r (ppc s)" for r using i p by (simp add: sleep_ok_def cnt_update)
  then have "waiting_ok nitems r ((ppc s)[i := p]) c = waiting_ok nitems r (ppc s) c" for r c
    by (simp add: waiting_ok_def cong: conspc.case_cong)
  then show ?thesis using ok i n by (simp add: ready_ok_def t cnt_update)
qed

text \<open>A step that leaves the consumer awake.\<close>

lemma ready_awake:
  assumes ok: "ready_ok nitems s" and i: "i < length (ppc s)"
    and t: "ppc t = (ppc s)[i := p]" "nput t = nput s" "sh_printed t = sh_printed s"
    and n: "nready t = nready s + (if pending (ppc s ! i) then 1 else 0) - (if pending p then 1 else 0)" "nready s \<le> nready t"
    and c: "cpc t = wake (cpc s) \<and> nready t = nready s \<or> cpc t = cpc s \<and> (\<forall>k. cpc s \<noteq> C_asleep k)"
  shows "ready_ok nitems t"
proof -
  have "waiting_ok nitems (nready s) (ppc s) (cpc s)" using ok by (simp add: ready_ok_def)
  then have "waiting_ok nitems (nready t) (ppc t) (cpc t)"
    using c n(2) waiting_wake waiting_awake by (metis)
  moreover have "taken nitems (cpc t) = taken nitems (cpc s)" using c by auto
  ultimately show ?thesis using ok i n by (simp add: ready_ok_def t cnt_update)
qed

subsection \<open>The producers\<close>

lemma ready_store:
  assumes ok: "ready_ok nitems s" and i: "i < length (ppc s)" and step: "store_step lp after nitems i s = Some s'"
    and after: "pending after" "\<not> signalled after" "\<not> signalling after"
  shows "ready_ok nitems s'"
proof (cases "ppc s ! i")
  case P_test
  then show ?thesis using step
    by (intro ready_quiet [OF ok i, where p = "if nitems \<le> nput s then P_full else P_store"])
      (auto simp: place_simps pending_def signalled_def signalling_def split: if_splits)
next
  case P_nval
  then show ?thesis using step after
    by (intro ready_quiet [OF ok i, where p = after]) (auto simp: place_simps pending_def signalled_def signalling_def)
qed (use step in \<open>auto simp: place_simps pending_def signalled_def signalling_def intro: ready_quiet [OF ok i]\<close>)

definition used5 :: "prodpc \<Rightarrow> bool" where
  "used5 p \<longleftrightarrow> p \<notin> {P_unlock, R_lock, R_test, R_signal, R_nsignals, R_nready, S_nready, S_signal}"

definition used7 :: "prodpc \<Rightarrow> bool" where
  "used7 p \<longleftrightarrow> p \<notin> {P_nready, P_signal, S_nready, S_signal}"

lemma list_all_update: "list_all P xs \<Longrightarrow> P x \<Longrightarrow> list_all P (xs[i := x])"
  by (auto simp: list_all_iff dest: set_update_subset_insert [THEN subsetD])

lemma used_store: "list_all used (ppc s) \<Longrightarrow> store_step lp after nitems i s = Some s' \<Longrightarrow>
    (\<forall>p \<in> {P_lock, P_test, P_full, P_store, P_nput, P_nval, P_end, after}. used p) \<Longrightarrow> list_all used (ppc s')"
  by (auto simp: place_simps intro!: list_all_update split: prodpc.splits)

lemma ppc_store: "store_step lp after nitems i s = Some s' \<Longrightarrow> length (ppc s') = length (ppc s)"
  by (auto simp: place_simps split: prodpc.splits)

lemma cond_store:
  assumes ok: "cond_ok lp used nitems s" and i: "i < length (ppc s)" and step: "store_step lp after nitems i s = Some s'"
    and after: "pending after" "\<not> signalled after" "\<not> signalling after" "uncounted after" "after \<noteq> P_nval" "p_held lp after = Some lp"
    and used: "\<forall>p \<in> {P_lock, P_test, P_full, P_store, P_nput, P_nval, P_end, after}. used p"
  shows "cond_ok lp used nitems s'"
proof -
  have ok': "mutex_ok lp Nready_mutex s" "store_ok lp nitems s" "ready_ok nitems s" "list_all used (ppc s)"
    using ok by (simp_all add: cond_ok_def)
  show ?thesis
    using mutex_store [OF ok'(1) i step after(6)] store_store [OF ok'(1,2) i step after(4,5)]
      ready_store [OF ok'(3) i step after(1-3)] used_store [OF ok'(4) step used] ppc_store [OF step] ok
    by (auto simp: cond_ok_def)
qed

text \<open>The steps after \<open>nval++\<close>.\<close>

lemma cond_after:
  assumes ok: "cond_ok lp used nitems s" and i: "i < length (ppc s)" and t: "t = place i p t'" "ppc t' = ppc s"
    and same: "sh_buff t' = sh_buff s" "nput t' = nput s" "nval t' = nval s" "counts t' = counts s"
    and p: "uncounted (ppc s ! i)" "uncounted p" "ppc s ! i \<noteq> P_nval" "p \<noteq> P_nval" "used p"
    and m: "mutex_ok lp Nready_mutex t" and r: "ready_ok nitems t"
    and l: "locks t' lp = locks s lp \<or> p_held lp (ppc s ! i) = Some lp \<and> locks t' lp = None \<or>
      locks s lp = None \<and> locks t' lp = Some (Producer i)"
  shows "cond_ok lp used nitems t"
proof -
  have ok': "mutex_ok lp Nready_mutex s" "store_ok lp nitems s" "list_all used (ppc s)" "ppc s \<noteq> []"
    using ok by (simp_all add: cond_ok_def)
  have "store_ok lp nitems t"
    using same t l by (intro store_quiet [OF ok'(1,2) i _ _ _ _ _ p(1-4)]) (simp_all add: place_def)
  then show ?thesis using m r ok'(3,4) t p(5) by (simp add: cond_ok_def place_def list_all_update)
qed

lemma produce5_keeps:
  assumes ok: "cond_ok Nready_mutex used5 nitems s" and i: "i < length (ppc s)" and step: "produce5_step nitems i s = Some s'"
  shows "cond_ok Nready_mutex used5 nitems s'"
proof -
  have m: "mutex_ok Nready_mutex Nready_mutex s" and r: "ready_ok nitems s" using ok by (simp_all add: cond_ok_def)
  show ?thesis
  proof (cases "ppc s ! i")
    case P_nready
    then have s': "s' = place i P_signal (s\<lparr>nready := nready s + 1\<rparr>)" using step by simp
    have "waiting_ok nitems (nready s) (ppc s) (cpc s)" using r by (simp add: ready_ok_def)
    then have "waiting_ok nitems (nready s + 1) ((ppc s)[i := P_signal]) (cpc s)"
      using i P_nready by (cases "cpc s") (auto simp: waiting_ok_def sleep_ok_def cnt_update signalled_def signalling_def)
    then have "ready_ok nitems s'" using r i P_nready by (simp add: ready_ok_def s' place_def cnt_update pending_def)
    moreover have "mutex_ok Nready_mutex Nready_mutex s'"
      using P_nready by (intro mutex_keep [OF m i, where p = P_signal]) (simp_all add: s' place_def)
    ultimately show ?thesis using P_nready
      by (intro cond_after [OF ok i s']) (simp_all add: uncounted_def used5_def)
  next
    case P_signal
    then have s': "s' = place i R_unlock (s\<lparr>cpc := wake (cpc s)\<rparr>)" using step by simp
    have "ready_ok nitems s'"
      using P_signal by (intro ready_awake [OF r i, where p = R_unlock]) (simp_all add: s' place_def pending_def)
    moreover have "mutex_ok Nready_mutex Nready_mutex s'"
      using P_signal by (intro mutex_keep [OF m i, where p = R_unlock]) (simp_all add: s' place_def)
    ultimately show ?thesis using P_signal
      by (intro cond_after [OF ok i s']) (simp_all add: uncounted_def used5_def)
  next
    case R_unlock
    then have s': "s' = place i P_count (release Nready_mutex s)" using step by simp
    have "ready_ok nitems s'" using R_unlock
      by (intro ready_quiet [OF r i, where p = P_count]) (simp_all add: s' place_simps pending_def signalled_def signalling_def)
    moreover have "mutex_ok Nready_mutex Nready_mutex s'"
      using R_unlock by (intro mutex_release [OF m i, where p = P_count]) (simp_all add: s' place_simps)
    ultimately show ?thesis using R_unlock
      by (intro cond_after [OF ok i s']) (simp_all add: uncounted_def used5_def release_def)
  qed (use step in \<open>auto simp: pending_def signalled_def signalling_def uncounted_def used5_def intro!: cond_store [OF ok i, where after = P_nready]\<close>)
qed

lemma used7_signal: "list_all used7 ps \<Longrightarrow> cnt signalling ps = 0"
  by (auto simp: cnt_zero_iff list_all_iff used7_def signalling_def)

lemma ready7:
  assumes ok: "cond_ok Put_mutex used7 nitems s" and i: "i < length (ppc s)" and step: "produce7_step counting nitems i s = Some s'"
    and r: "ppc s ! i \<in> {P_unlock, R_lock, R_test, R_signal, R_nsignals, R_nready, R_unlock}"
  shows "ready_ok nitems s'"
proof -
  have ready: "ready_ok nitems s" and used: "list_all used7 (ppc s)" using ok by (simp_all add: cond_ok_def)
  have asleep: "sleep_ok (nready s) (ppc s)" if "cpc s = C_asleep k" for k
    using ready that by (simp add: ready_ok_def waiting_ok_def)
  have quiet: "ready_ok nitems (place i p t)" if "ppc t = ppc s" "nready t = nready s" "cpc t = cpc s"
    "sh_printed t = sh_printed s" "nput t = nput s" "pending p = pending (ppc s ! i)"
    "signalling p = signalling (ppc s ! i)" "signalled p = signalled (ppc s ! i)" for p t
    using that by (intro ready_quiet [OF ready i, where p = p]) (simp_all add: place_def)
  have awake: "ready_ok nitems (place i p t)" if "ppc t = ppc s" "nput t = nput s" "sh_printed t = sh_printed s"
    "nready t = nready s + (if pending (ppc s ! i) then 1 else 0) - (if pending p then 1 else 0)" "nready s \<le> nready t"
    "cpc t = wake (cpc s) \<and> nready t = nready s \<or> cpc t = cpc s \<and> (\<forall>k. cpc s \<noteq> C_asleep k)" for p t
    using that by (intro ready_awake [OF ready i, where p = p]) (simp_all add: place_def)
  consider "ppc s ! i \<in> {P_unlock, R_lock, R_nsignals, R_unlock}" | "ppc s ! i = R_test" | "ppc s ! i = R_signal" | "ppc s ! i = R_nready"
    using r by blast
  then show ?thesis
  proof cases
    case 1
    then show ?thesis using step by (auto simp: acquire_Some release_def pending_def signalled_def signalling_def intro!: quiet)
  next
    case 2
    then have s': "s' = place i (if nready s = 0 then R_signal else R_nready) s" using step by simp
    have "cpc s \<noteq> C_asleep k" if "nready s \<noteq> 0" for k
      using asleep [of k] used7_signal [OF used] that by (auto simp: sleep_ok_def)
    then show ?thesis unfolding s' using 2 quiet [of s R_signal] awake [of s R_nready]
      by (cases "nready s = 0") (simp_all add: pending_def signalled_def signalling_def)
  next
    case 3
    then show ?thesis using step by (auto simp: pending_def intro!: awake)
  next
    case 4
    then have "0 < cnt signalled (ppc s)" using cnt_nth_pos [of i "ppc s" signalled] i by (simp add: signalled_def signalling_def)
    then have "cpc s \<noteq> C_asleep k" for k using asleep [of k] by (auto simp: sleep_ok_def)
    then show ?thesis using step 4 by (auto simp: pending_def intro!: awake)
  qed
qed

lemma mutex7:
  assumes ok: "mutex_ok Put_mutex Nready_mutex s" and i: "i < length (ppc s)" and step: "produce7_step counting nitems i s = Some s'"
    and r: "ppc s ! i \<in> {P_unlock, R_lock, R_test, R_signal, R_nsignals, R_nready, R_unlock}"
  shows "mutex_ok Put_mutex Nready_mutex s'"
proof -
  consider "ppc s ! i = P_unlock" | "ppc s ! i = R_unlock" | "ppc s ! i = R_lock" | "ppc s ! i \<in> {R_test, R_signal, R_nsignals, R_nready}"
    using r by blast
  then show ?thesis
  proof cases
    case 1
    then show ?thesis using step by (intro mutex_release [OF ok i, where p = R_lock]) (auto simp: place_simps)
  next
    case 2
    then show ?thesis using step by (intro mutex_release [OF ok i, where p = P_count]) (auto simp: place_simps)
  next
    case 3
    then show ?thesis using step by (intro mutex_acquire [OF ok i, where p = R_test]) (auto simp: place_simps)
  next
    case 4
    have keep: "mutex_ok Put_mutex Nready_mutex (place i p t)" if "ppc t = ppc s" "locks t = locks s"
      "c_held Nready_mutex (cpc t) = c_held Nready_mutex (cpc s)" "p \<in> {R_signal, R_nsignals, R_nready, R_unlock}" for p t
      using that 4 by (intro mutex_keep [OF ok i, where p = p]) (auto simp: place_def)
    show ?thesis using 4 step by (auto intro!: keep split: if_splits)
  qed
qed

lemma produce7_keeps:
  assumes ok: "cond_ok Put_mutex used7 nitems s" and i: "i < length (ppc s)" and step: "produce7_step counting nitems i s = Some s'"
  shows "cond_ok Put_mutex used7 nitems s'"
proof (cases "ppc s ! i \<in> {P_unlock, R_lock, R_test, R_signal, R_nsignals, R_nready, R_unlock}")
  case True
  have m: "mutex_ok Put_mutex Nready_mutex s'" using mutex7 [OF _ i step True] ok by (simp add: cond_ok_def)
  have after: "cond_ok Put_mutex used7 nitems s'" if "s' = place i p t" "ppc t = ppc s" "sh_buff t = sh_buff s" "nput t = nput s"
    "nval t = nval s" "counts t = counts s" "uncounted p" "p \<noteq> P_nval" "used7 p"
    "locks t Put_mutex = locks s Put_mutex \<or> ppc s ! i = P_unlock \<and> locks t Put_mutex = None" for p t
    using that True by (intro cond_after [OF ok i that(1)] m ready7 [OF ok i step True]) (auto simp: uncounted_def)
  from True consider "ppc s ! i = P_unlock" | "ppc s ! i = R_lock" | "ppc s ! i = R_test" | "ppc s ! i = R_signal"
    | "ppc s ! i = R_nsignals" | "ppc s ! i = R_nready" | "ppc s ! i = R_unlock" by blast
  then show ?thesis
    by cases (use step after in \<open>auto simp: acquire_Some release_def uncounted_def used7_def\<close>)
next
  case False
  then have "store_step Put_mutex P_unlock nitems i s = Some s'" using step by (cases "ppc s ! i") simp_all
  then show ?thesis
    by (intro cond_store [OF ok i, where after = P_unlock]) (simp_all add: pending_def signalled_def signalling_def uncounted_def used7_def)
qed

subsection \<open>The consumer\<close>

lemma check_ok:
  assumes "filled nitems s" and "ready_ok nitems s" and "cpc s = C_check i"
  shows "check_item i s = s"
proof -
  have "i < nput s" "0 \<le> i"
    using assms cnt_nonneg [of pending "ppc s"] unfolding ready_ok_def waiting_ok_def by (simp_all, linarith)
  then show ?thesis using assms(1) by (simp add: check_item_def filled_def)
qed

lemma consume5_ready:
  assumes ok: "cond_ok lp used nitems s" and signal: "\<And>p. used p \<Longrightarrow> signalling p \<Longrightarrow> p_held lp p = Some Nready_mutex"
    and step: "consume5_step nitems s = Some s'"
  shows "ready_ok nitems s'"
proof -
  have ok': "mutex_ok lp Nready_mutex s" "store_ok lp nitems s" "ready_ok nitems s" "list_all used (ppc s)"
    using ok by (simp_all add: cond_ok_def)
  show ?thesis
  proof (cases "cpc s")
    case (C_test i)
    show ?thesis
    proof (cases "nready s = 0")
      case True
      have held: "p_held lp p \<noteq> Some Nready_mutex" if "p \<in> set (ppc s)" for p
        using mutex_cons [OF ok'(1), of Nready_mutex] mutex_producer [OF ok'(1), of Nready_mutex] that C_test
        by (auto simp: in_set_conv_nth simp del: p_held.simps)
      have "\<not> signalled p" "\<not> signalling p" if "p \<in> set (ppc s)" for p
        using held [OF that] ok'(4) signal [of p] that by (auto simp: signalled_def list_all_iff)
      then have "sleep_ok 0 (ppc s)" by (auto simp: sleep_ok_def cnt_zero_iff dest: sym)
      then show ?thesis using step C_test True ok'(3) by (auto simp: ready_ok_def waiting_ok_def release_def)
    next
      case False
      then show ?thesis using step C_test ok'(3) by (auto simp: ready_ok_def waiting_ok_def)
    qed
  next
    case (C_check i)
    then show ?thesis using step check_ok [OF _ ok'(3) C_check] ok'(2,3) by (auto simp: ready_ok_def waiting_ok_def store_ok_def)
  next
    case (C_for i)
    then show ?thesis using step ok'(3) by (auto simp: ready_ok_def waiting_ok_def split: if_splits)
  qed (use step ok'(3) in \<open>auto simp: ready_ok_def waiting_ok_def acquire_Some release_def\<close>)
qed

lemma inner_consumer:
  assumes "mutex_ok lp lc s" and "ppc t = ppc s"
    and "locks t = locks s \<or> locks s l = None \<and> locks t = (locks s)(l := Some Consumer) \<or>
      locks s l = Some Consumer \<and> locks t = (locks s)(l := None)"
  shows "inner lp t = inner lp s"
  using assms(2,3) by (auto simp: inner_def split: option.splits cagent.splits if_splits)

text \<open>The consumer keeps, takes or gives back its mutex.\<close>

definition c_locks :: "pmutex \<Rightarrow> cstate \<Rightarrow> cstate \<Rightarrow> bool" where
  "c_locks lc s t \<longleftrightarrow> locks t = locks s \<and> c_held lc (cpc t) = c_held lc (cpc s) \<or>
     locks s lc = None \<and> locks t = (locks s)(lc := Some Consumer) \<and> c_held lc (cpc s) = None \<and> c_held lc (cpc t) = Some lc \<or>
     locks s lc = Some Consumer \<and> locks t = (locks s)(lc := None) \<and> c_held lc (cpc s) = Some lc \<and> c_held lc (cpc t) = None"

lemma c_locks_keeps:
  assumes m: "mutex_ok lp lc s" and st: "store_ok lp nitems s" and l: "c_locks lc s t"
    and same: "ppc t = ppc s" "sh_buff t = sh_buff s" "nput t = nput s" "nval t = nval s" "counts t = counts s"
  shows "mutex_ok lp lc t \<and> store_ok lp nitems t"
proof
  show "mutex_ok lp lc t"
    using l mutex_c_keep [OF m same(1)] mutex_c_acquire [OF m _ same(1)] mutex_c_release [OF m same(1)]
    unfolding c_locks_def by blast
  show "store_ok lp nitems t"
    using l by (intro store_consumer [OF st same] inner_consumer [OF m same(1), where l = lc]) (auto simp: c_locks_def)
qed

lemma consume5_keeps:
  assumes ok: "cond_ok lp used nitems s" and signal: "\<And>p. used p \<Longrightarrow> signalling p \<Longrightarrow> p_held lp p = Some Nready_mutex"
    and step: "consume5_step nitems s = Some s'"
  shows "cond_ok lp used nitems s'"
proof -
  have m: "mutex_ok lp Nready_mutex s" and st: "store_ok lp nitems s" and r: "ready_ok nitems s" using ok by (simp_all add: cond_ok_def)
  have ready: "ready_ok nitems s'" by (rule consume5_ready [OF ok signal step])
  have check: "check_item i s = s" if "cpc s = C_check i" for i
    using check_ok [OF _ r that] st by (simp add: store_ok_def)
  have same: "ppc s' = ppc s" "sh_buff s' = sh_buff s" "nput s' = nput s" "nval s' = nval s" "counts s' = counts s"
    using step check by (auto simp: acquire_Some release_def split: conspc.splits if_splits)
  have held: "locks s Nready_mutex = Some Consumer" if "c_held Nready_mutex (cpc s) = Some Nready_mutex"
    using mutex_cons [OF m] that by simp
  have "c_locks Nready_mutex s s'"
    using step check held by (cases "cpc s") (auto simp: c_locks_def acquire_Some release_def split: if_splits)
  from c_locks_keeps [OF m st this same] show ?thesis using ready ok same(1) by (simp add: cond_ok_def)
qed

section \<open>Every run ends\<close>

text \<open>How much is left: per item, per place, and two steps for a wake-up.\<close>

fun prank :: "prodpc \<Rightarrow> int" where
  "prank P_end = 0"
| "prank P_full = 1"
| "prank P_nput = 2"
| "prank P_store = 3"
| "prank P_test = 4"
| "prank P_lock = 5"
| "prank P_count = 6"
| "prank R_unlock = 7"
| "prank R_nready = 8"
| "prank R_nsignals = 9"
| "prank P_signal = 10"
| "prank P_nready = 11"
| "prank S_signal = 10"
| "prank S_nready = 11"
| "prank R_signal = 12"
| "prank R_test = 13"
| "prank R_lock = 14"
| "prank P_unlock = 15"
| "prank P_nval = 16"

fun crank :: "int \<Rightarrow> conspc \<Rightarrow> int" where
  "crank n C_join = 20 * n + 17"
| "crank n (C_dec i) = 20 * (n - i) + 19"
| "crank n (C_batch i) = 20 * (n - i) + 18"
| "crank n (C_release i) = 20 * (n - i) + 17"
| "crank n (C_for i) = 20 * (n - i) + 16"
| "crank n (C_lock i) = 20 * (n - i) + 15"
| "crank n (C_reacquire i) = 20 * (n - i) + 14"
| "crank n (C_test i) = 20 * (n - i) + 13"
| "crank n (C_asleep i) = 20 * (n - i) + 12"
| "crank n (C_first i) = 20 * (n - i) + 11"
| "crank n (C_item i) = 20 * (n - i) + 10"
| "crank n (C_take i) = 20 * (n - i) + 3"
| "crank n (C_unlock i) = 20 * (n - i) + 2"
| "crank n (C_check i) = 20 * (n - i) + 1"
| "crank n c = 0"

definition cond_left :: "int \<Rightarrow> cstate \<Rightarrow> int" where
  "cond_left nitems s = 15 * (max 0 nitems - nput s) + sum_list (map prank (ppc s)) +
     crank (max 0 nitems) (cpc s) + 3 * int (spurious s)"

lemma prank_update: "i < length ps \<Longrightarrow> sum_list (map prank (ps[i := p])) = sum_list (map prank ps) - prank (ps ! i) + prank p"
  by (simp add: map_update sum_list_update_int)

lemma crank_wake: "crank n (wake c) \<le> crank n c + 2"
  by (cases c) simp_all

lemma prank_nonneg: "0 \<le> prank p"
  by (cases p) simp_all

lemma crank_nonneg: "waiting_ok nitems r ps c \<Longrightarrow> 0 \<le> crank (max 0 nitems) c"
  by (cases c) (simp_all add: waiting_ok_def)

lemma left_store:
  "store_step lp after nitems i s = Some s' \<Longrightarrow> i < length (ppc s) \<Longrightarrow> prank after < 16 \<Longrightarrow> cond_left nitems s' < cond_left nitems s"
  by (cases "ppc s ! i") (auto simp: cond_left_def place_simps prank_update)

lemma left_produce5:
  "i < length (ppc s) \<Longrightarrow> produce5_step nitems i s = Some s' \<Longrightarrow>
    cond_left nitems s' < cond_left nitems s \<and> (cpc s' = cpc s \<or> cpc s' = wake (cpc s))"
  using left_store [of Nready_mutex P_nready nitems i s s'] crank_wake [of "max 0 nitems" "cpc s"]
  by (cases "ppc s ! i") (auto simp: cond_left_def place_simps prank_update)

lemma left_produce7:
  "i < length (ppc s) \<Longrightarrow> produce7_step counting nitems i s = Some s' \<Longrightarrow>
    cond_left nitems s' < cond_left nitems s \<and> (cpc s' = cpc s \<or> cpc s' = wake (cpc s))"
  using left_store [of Put_mutex P_unlock nitems i s s'] crank_wake [of "max 0 nitems" "cpc s"]
  by (cases "ppc s ! i") (auto simp: cond_left_def place_simps prank_update)

lemma left_consume5:
  assumes "cond_ok lp used nitems s" and "consume5_step nitems s = Some s'"
  shows "cond_left nitems s' < cond_left nitems s"
proof -
  have ok: "waiting_ok nitems (nready s) (ppc s) (cpc s)" "ready_ok nitems s" "filled nitems s"
    using assms(1) by (simp_all add: cond_ok_def ready_ok_def store_ok_def)
  show ?thesis using assms(2) ok(1) check_ok [OF ok(3,2)]
    by (cases "cpc s") (auto simp: cond_left_def acquire_Some release_def waiting_ok_def split: if_splits)
qed

text \<open>The beginning and the end of a run.\<close>

lemma mutex_start: "c_held lc c = None \<Longrightarrow> mutex_ok lp lc (cond_start m c nthreads k)"
  by (auto simp: mutex_ok_def cond_start_def)

lemma store_start: "nitems \<le> m \<Longrightarrow> store_ok lp nitems (cond_start m c nthreads k)"
  by (auto simp: store_ok_def filled_def inner_ok_def inner_def cond_start_def cnt_def uncounted_def sum_list_replicate)

lemma cond_ok_start:
  "1 \<le> nthreads \<Longrightarrow> nitems \<le> m \<Longrightarrow> used P_lock \<Longrightarrow> cond_ok lp used nitems (cond_start m (C_for 0) nthreads k)"
  using mutex_start [of Nready_mutex "C_for 0" lp m nthreads k] store_start [of nitems m lp "C_for 0" nthreads k]
  by (auto simp: cond_ok_def ready_ok_def waiting_ok_def cond_start_def cnt_def pending_def list_all_iff)

lemma cond_left_start: "cond_left nitems (cond_start m (C_for 0) nthreads k) = 35 * max 0 nitems + 5 * int nthreads + 3 * int k + 16"
  by (simp add: cond_left_def cond_start_def sum_list_replicate)

lemma cond_ended:
  assumes ok: "cond_ok lp used nitems s" and "cond_final s"
  shows "nready s = 0 \<and> sum_list (counts s) = max 0 nitems \<and> (\<forall>j < nat nitems. sh_buff s ! j = int j)"
proof -
  have st: "store_ok lp nitems s" and r: "ready_ok nitems s" and n: "ppc s \<noteq> []" using ok by (simp_all add: cond_ok_def)
  have ended: "\<forall>i < length (ppc s). ppc s ! i = P_end" and c: "cpc s = C_end" using assms(2) by (simp_all add: cond_final_def)
  have "cnt P (ppc s) = 0" if "\<not> P P_end" for P using ended that by (auto simp: cnt_zero_iff in_set_conv_nth)
  then have zero: "cnt pending (ppc s) = 0" "cnt uncounted (ppc s) = 0" by (simp_all add: pending_def uncounted_def)
  have "nitems \<le> nput s" using st n ended by (auto simp: store_ok_def)
  then have "nput s = max 0 nitems" using st by (auto simp: store_ok_def filled_def)
  then show ?thesis using st r zero c by (auto simp: store_ok_def filled_def ready_ok_def)
qed

text \<open>What the threads have to do for the program to end.\<close>

locale cond_threads =
  fixes produce :: "nat \<Rightarrow> cstate \<Rightarrow> cstate option"
    and consume :: "cstate \<Rightarrow> cstate option"
    and nitems :: int
    and lp :: pmutex
    and used :: "prodpc \<Rightarrow> bool"
    and cused :: "conspc \<Rightarrow> bool"
  assumes produce_keeps: "cond_ok lp used nitems s \<Longrightarrow> i < length (ppc s) \<Longrightarrow> produce i s = Some s' \<Longrightarrow> cond_ok lp used nitems s'"
    and produce_spends: "i < length (ppc s) \<Longrightarrow> produce i s = Some s' \<Longrightarrow>
      cond_left nitems s' < cond_left nitems s \<and> (cpc s' = cpc s \<or> cpc s' = wake (cpc s))"
    and produce_moves: "cond_ok lp used nitems s \<Longrightarrow> used (ppc s ! i) \<Longrightarrow> ppc s ! i \<noteq> P_end \<Longrightarrow>
      ppc s ! i = P_lock \<longrightarrow> locks s lp = None \<Longrightarrow> ppc s ! i = R_lock \<longrightarrow> locks s Nready_mutex = None \<Longrightarrow> \<exists>s'. produce i s = Some s'"
    and consume_keeps: "cond_ok lp used nitems s \<Longrightarrow> cused (cpc s) \<Longrightarrow> consume s = Some s' \<Longrightarrow>
      cond_ok lp used nitems s' \<and> cused (cpc s')"
    and consume_spends: "cond_ok lp used nitems s \<Longrightarrow> consume s = Some s' \<Longrightarrow> cond_left nitems s' < cond_left nitems s"
    and consume_moves: "cond_ok lp used nitems s \<Longrightarrow> cused (cpc s) \<Longrightarrow> cpc s \<noteq> C_end \<Longrightarrow> (\<And>i. cpc s \<noteq> C_asleep i) \<Longrightarrow>
      c_held Nready_mutex (cpc s) = None \<longrightarrow> locks s Nready_mutex = None \<Longrightarrow> \<exists>s'. consume s = Some s'"
    and cused_wake: "cused c \<Longrightarrow> cused (wake c)"
begin

definition threads_ok :: "cstate \<Rightarrow> bool" where
  "threads_ok s \<longleftrightarrow> cond_ok lp used nitems s \<and> cused (cpc s)"

lemma parts:
  assumes "threads_ok s"
  shows "cond_ok lp used nitems s" "cused (cpc s)" "mutex_ok lp Nready_mutex s" "store_ok lp nitems s" "ready_ok nitems s" "ppc s \<noteq> []"
    and "i < length (ppc s) \<Longrightarrow> used (ppc s ! i)"
  using assms by (simp_all add: threads_ok_def cond_ok_def list_all_length)

lemma consumer_holds:
  assumes ok: "threads_ok s" and "locks s l = Some Consumer"
  shows "\<exists>s'. consume s = Some s'"
proof -
  have "c_held Nready_mutex (cpc s) = Some l" using mutex_cons [OF parts(3) [OF ok]] assms(2) by simp
  moreover from this have "cpc s \<noteq> C_end" "cpc s \<noteq> C_asleep i" for i by auto
  ultimately show ?thesis using consume_moves [OF parts(1,2) [OF ok]] by simp
qed

lemma producer_holds:
  assumes ok: "threads_ok s" and "locks s l = Some (Producer i)"
  shows "i < length (ppc s) \<and> (\<exists>s'. produce i s = Some s')"
proof -
  have i: "i < length (ppc s)" and held: "p_held lp (ppc s ! i) = Some l"
    using mutex_producer [OF parts(3) [OF ok]] assms(2) by simp_all
  have "ppc s ! i \<notin> {P_end, P_lock, R_lock}" using held by auto
  then show ?thesis using i produce_moves [OF parts(1) [OF ok] parts(7) [OF ok i]] by simp
qed

text \<open>The consumer does not sleep when all producers have returned.\<close>

lemma consumer_alone:
  assumes ok: "threads_ok s" and ended: "\<forall>i < length (ppc s). ppc s ! i = P_end"
    and free: "locks s Nready_mutex = None" and c: "cpc s \<noteq> C_end"
  shows "\<exists>s'. consume s = Some s'"
proof -
  have "cnt P (ppc s) = 0" if "\<not> P P_end" for P using ended that by (auto simp: cnt_zero_iff in_set_conv_nth)
  then have zero: "cnt pending (ppc s) = 0" "cnt signalling (ppc s) = 0" by (simp_all add: pending_def signalling_def)
  have "nitems \<le> nput s" using parts(4,6) [OF ok] ended by (auto simp: store_ok_def)
  then have "cpc s \<noteq> C_asleep i" for i
    using parts(5) [OF ok] zero by (auto simp: ready_ok_def waiting_ok_def sleep_ok_def)
  then show ?thesis using consume_moves [OF parts(1,2) [OF ok] c] free by simp
qed

lemma some_move:
  assumes ok: "threads_ok s" and "\<not> cond_final s"
  shows "\<exists>s'. cond_step produce consume s s'"
proof (rule ccontr)
  assume none: "\<nexists>s'. cond_step produce consume s s'"
  have stuck: "consume s = None" "i < length (ppc s) \<Longrightarrow> produce i s = None" for i
  proof -
    show "consume s = None" using none cond_step.consumes [of consume s _ produce] by (cases "consume s") blast+
    show "i < length (ppc s) \<Longrightarrow> produce i s = None"
      using none cond_step.produces [of i s produce] by (cases "produce i s") blast+
  qed
  have free: "locks s l = None" for l
  proof (cases "locks s l")
    case (Some a)
    then show ?thesis
      using consumer_holds [OF ok, of l] producer_holds [OF ok, of l] stuck by (cases a) auto
  qed
  have "ppc s ! i = P_end" if "i < length (ppc s)" for i
    using produce_moves [OF parts(1) [OF ok] parts(7) [OF ok that]] stuck(2) [OF that] free by fastforce
  then show False using consumer_alone [OF ok] free stuck(1) assms(2) by (auto simp: cond_final_def)
qed

lemma some_left:
  assumes "threads_ok s"
  shows "0 \<le> cond_left nitems s"
proof -
  have "0 \<le> sum_list (map prank (ppc s))" using prank_nonneg by (intro sum_list_nonneg) auto
  moreover have "0 \<le> crank (max 0 nitems) (cpc s)"
    using parts(5) [OF assms] crank_nonneg by (auto simp: ready_ok_def)
  moreover have "nput s \<le> max 0 nitems" using parts(4) [OF assms] by (simp add: store_ok_def filled_def)
  ultimately show ?thesis unfolding cond_left_def by (intro add_nonneg_nonneg) auto
qed

lemma step_keeps:
  assumes ok: "threads_ok s" and "cond_step produce consume s s'"
  shows "threads_ok s'"
  using assms(2)
proof cases
  case (wakes i)
  have "mutex_ok lp Nready_mutex s'" "store_ok lp nitems s'"
    using wakes by (auto intro!: mutex_c_keep [OF parts(3) [OF ok]] store_consumer [OF parts(4) [OF ok]]
        inner_consumer [OF parts(3) [OF ok]])
  moreover have "ready_ok nitems s'" using parts(5) [OF ok] wakes by (auto simp: ready_ok_def waiting_ok_def)
  moreover have "cused (C_reacquire i)" using cused_wake [OF parts(2) [OF ok]] wakes by simp
  ultimately show ?thesis using ok wakes by (auto simp: cond_ok_def threads_ok_def)
next
  case (produces i)
  then show ?thesis using produce_keeps [OF parts(1) [OF ok]] produce_spends [of i s s'] parts(2) [OF ok] cused_wake
    by (auto simp: threads_ok_def)
next
  case consumes
  then show ?thesis using consume_keeps [OF parts(1,2) [OF ok]] by (simp add: threads_ok_def)
qed

lemma step_spends:
  assumes ok: "threads_ok s" and "cond_step produce consume s s'"
  shows "cond_left nitems s' < cond_left nitems s"
  using assms(2)
proof cases
  case (wakes i)
  then show ?thesis by (simp add: cond_left_def)
next
  case (produces i)
  then show ?thesis using produce_spends by simp
next
  case consumes
  then show ?thesis by (rule consume_spends [OF parts(1) [OF ok]])
qed

end

sublocale cond_threads \<subseteq> prog: ending_program "cond_step produce consume" threads_ok "cond_left nitems" cond_final
  by unfold_locales (blast intro: step_keeps step_spends some_left some_move)+

context cond_threads
begin

lemma ends:
  assumes "1 \<le> nthreads" and "nitems \<le> m" and used: "used P_lock" "cused (C_for 0)"
    and run: "(cond_step produce consume ^^ n) (cond_start m (C_for 0) nthreads k) s"
  shows "int n \<le> 35 * max 0 nitems + 5 * int nthreads + 3 * int k + 16 \<and> sh_printed s = [] \<and>
    ((\<nexists>s'. cond_step produce consume s s') \<longrightarrow>
      cond_final s \<and> nready s = 0 \<and> sum_list (counts s) = max 0 nitems \<and> (\<forall>j < nat nitems. sh_buff s ! j = int j))"
proof -
  have start: "threads_ok (cond_start m (C_for 0) nthreads k)"
    using cond_ok_start [OF assms(1,2), where used = used] used by (simp add: threads_ok_def cond_start_def)
  have good: "cond_ok lp used nitems s" using prog.run_good [OF run start] by (simp add: threads_ok_def)
  show ?thesis
    using prog.run_short [OF run start] prog.run_stuck [OF run start] cond_ended [OF good] good
    by (auto simp: cond_left_start cond_ok_def ready_ok_def)
qed

end

section \<open>\<open>prodcons5.c\<close>, \<open>prodcons6.c\<close>, \<open>prodcons7.c\<close>\<close>

definition cused5 :: "conspc \<Rightarrow> bool" where
  "cused5 c \<longleftrightarrow> (case c of C_first i \<Rightarrow> False | C_item i \<Rightarrow> False | C_dec i \<Rightarrow> False | C_batch i \<Rightarrow> False | C_release i \<Rightarrow> False | _ \<Rightarrow> True)"

lemma consume5_moves:
  "cond_ok lp used nitems s \<Longrightarrow> cused5 (cpc s) \<Longrightarrow> cpc s \<noteq> C_end \<Longrightarrow> (\<And>i. cpc s \<noteq> C_asleep i) \<Longrightarrow>
    c_held Nready_mutex (cpc s) = None \<longrightarrow> locks s Nready_mutex = None \<Longrightarrow> \<exists>s'. consume5_step nitems s = Some s'"
  by (cases "cpc s") (auto simp: cond_ok_def ready_ok_def waiting_ok_def cused5_def acquire_def)

lemma consume5_cused: "cused5 (cpc s) \<Longrightarrow> consume5_step nitems s = Some s' \<Longrightarrow> cused5 (cpc s')"
  by (cases "cpc s") (auto simp: cused5_def acquire_Some release_def check_item_def split: if_splits)

lemma cused5_wake: "cused5 c \<Longrightarrow> cused5 (wake c)"
  by (cases c) (simp_all add: cused5_def)

interpretation pc5: cond_threads "produce5_step nitems" "consume5_step nitems" nitems Nready_mutex used5 cused5 for nitems
proof
  show "used5 (ppc s ! i) \<Longrightarrow> ppc s ! i \<noteq> P_end \<Longrightarrow> ppc s ! i = P_lock \<longrightarrow> locks s Nready_mutex = None \<Longrightarrow>
      ppc s ! i = R_lock \<longrightarrow> locks s Nready_mutex = None \<Longrightarrow> \<exists>s'. produce5_step nitems i s = Some s'" for s i
    by (cases "ppc s ! i") (simp_all add: used5_def acquire_def)
  show "cond_ok Nready_mutex used5 nitems s' \<and> cused5 (cpc s')"
    if "cond_ok Nready_mutex used5 nitems s" "cused5 (cpc s)" "consume5_step nitems s = Some s'" for s s'
    using consume5_keeps [OF that(1) _ that(3)] consume5_cused [OF that(2,3)] by (auto simp: signalling_def used5_def)
qed (rule produce5_keeps left_produce5 left_consume5 consume5_moves cused5_wake; assumption)+

interpretation pc7: cond_threads "produce7_step counting nitems" "consume5_step nitems" nitems Put_mutex used7 cused5 for counting nitems
proof
  show "used7 (ppc s ! i) \<Longrightarrow> ppc s ! i \<noteq> P_end \<Longrightarrow> ppc s ! i = P_lock \<longrightarrow> locks s Put_mutex = None \<Longrightarrow>
      ppc s ! i = R_lock \<longrightarrow> locks s Nready_mutex = None \<Longrightarrow> \<exists>s'. produce7_step counting nitems i s = Some s'" for s i
    by (cases "ppc s ! i") (simp_all add: used7_def acquire_def)
  show "cond_ok Put_mutex used7 nitems s' \<and> cused5 (cpc s')"
    if "cond_ok Put_mutex used7 nitems s" "cused5 (cpc s)" "consume5_step nitems s = Some s'" for s s'
    using consume5_keeps [OF that(1) _ that(3)] consume5_cused [OF that(2,3)] by (auto simp: signalling_def used7_def)
qed (rule produce7_keeps left_produce7 left_consume5 consume5_moves cused5_wake; assumption)+

lemma run_cond_relpow: "run_cond produce consume as s = Some t \<Longrightarrow> (cond_step produce consume ^^ length as) s t"
proof (induction produce consume "as" s rule: run_cond.induct)
  case (2 produce consume i "as" s)
  then obtain s' where "i < length (ppc s)" "produce i s = Some s'" "(cond_step produce consume ^^ length as) s' t"
    by (auto split: if_splits option.splits)
  then show ?case using cond_step.produces [of i s produce s' consume] by (auto intro: relpowp_Suc_I2 simp del: relpowp.simps)
next
  case (3 produce consume "as" s)
  then obtain s' where "consume s = Some s'" "(cond_step produce consume ^^ length as) s' t" by (auto split: option.splits)
  then show ?case using cond_step.consumes [of consume s s' produce] by (auto intro: relpowp_Suc_I2 simp del: relpowp.simps)
qed simp

text \<open>
  C14: The producers and the consumer of \<open>prodcons6.c\<close> and \<open>prodcons7.c\<close>, which signal only when
  \<open>nready\<close> is 0, end on every schedule: the number of steps is bounded, no schedule deadlocks
  before all threads have ended, nothing is ever printed, and at the end every item is in its
  place and the counts of the producers add up to the number of items.
\<close>

theorem prodcons7_ends:
  assumes "1 \<le> nthreads" and "nitems \<le> MAXNITEMS"
    and "(cond_step (produce7_step counting nitems) (consume5_step nitems) ^^ n) (cond_start MAXNITEMS (C_for 0) nthreads k) s"
  shows "int n \<le> 35 * max 0 nitems + 5 * int nthreads + 3 * int k + 16 \<and> sh_printed s = [] \<and>
    ((\<nexists>s'. cond_step (produce7_step counting nitems) (consume5_step nitems) s s') \<longrightarrow>
      cond_final s \<and> nready s = 0 \<and> sum_list (counts s) = max 0 nitems \<and> (\<forall>j < nat nitems. sh_buff s ! j = int j))"
  using assms by (intro pc7.ends [where m = MAXNITEMS]) (simp_all add: used7_def cused5_def)

definition schedule7 :: "cagent list" where
  "schedule7 = [Consumer, Consumer, Consumer] @ replicate 12 (Producer 0) @ replicate 6 Consumer @ replicate 4 (Producer 0)"

lemma schedule7_runs:
  "\<exists>s. run_cond (produce7_step True 1) (consume5_step 1) schedule7 (cond_start MAXNITEMS (C_for 0) 1 0) = Some s \<and>
     cond_final s \<and> counts s = [1] \<and> nsignals s = 1"
proof -
  have a: "schedule7 = [Consumer, Consumer, Consumer, Producer 0, Producer 0, Producer 0, Producer 0, Producer 0, Producer 0,
      Producer 0, Producer 0, Producer 0, Producer 0, Producer 0, Producer 0, Consumer, Consumer, Consumer, Consumer, Consumer,
      Consumer, Producer 0, Producer 0, Producer 0, Producer 0]"
    by (simp add: schedule7_def numeral_eq_Suc)
  have b: "0 < nat MAXNITEMS" by (simp add: MAXNITEMS_def)
  show ?thesis
    unfolding a using b by (simp add: cond_start_def place_def acquire_def release_def check_item_def cond_final_def)
qed

theorem prodcons7_ends_witness:
  "\<exists>s. cond_final s \<and> counts s = [1] \<and> (prodcons7 1 ^^ 25) (cond_start MAXNITEMS (C_for 0) 1 0) s \<and> sh_printed s = []"
proof -
  obtain s where run: "run_cond (produce7_step True 1) (consume5_step 1) schedule7 (cond_start MAXNITEMS (C_for 0) 1 0) = Some s"
    and s: "cond_final s" "counts s = [1]" using schedule7_runs by blast
  have "length schedule7 = 25" by (simp add: schedule7_def)
  then have "(prodcons7 1 ^^ 25) (cond_start MAXNITEMS (C_for 0) 1 0) s" using run_cond_relpow [OF run] by simp
  moreover from this have "sh_printed s = []" using prodcons7_ends [where nthreads = 1 and nitems = 1 and counting = True and n = 25 and k = 0 and s = s] by (simp add: MAXNITEMS_def)
  ultimately show ?thesis using s by blast
qed

text \<open>The same for \<open>prodcons5.c\<close>, with one mutex and a signal for every item.\<close>

theorem prodcons5_ends:
  assumes "1 \<le> nthreads" and "nitems \<le> MAXNITEMS"
    and "(prodcons5 nitems ^^ n) (cond_start MAXNITEMS (C_for 0) nthreads k) s"
  shows "int n \<le> 35 * max 0 nitems + 5 * int nthreads + 3 * int k + 16 \<and> sh_printed s = [] \<and>
    ((\<nexists>s'. prodcons5 nitems s s') \<longrightarrow>
      cond_final s \<and> nready s = 0 \<and> sum_list (counts s) = max 0 nitems \<and> (\<forall>j < nat nitems. sh_buff s ! j = int j))"
  using assms by (intro pc5.ends [where m = MAXNITEMS]) (simp_all add: used5_def cused5_def)

end
