(* ===== verification/Condprod_Simple.thy ===== *)
theory Condprod_Simple
  imports Condprod_Props
begin

text \<open>
  The producer-consumer programs without a condition variable: \<open>prodcons2.c\<close> ends with the right
  array on every schedule, the consumer of \<open>prodcons3.c\<close> and \<open>prodcons4.c\<close> never sees a wrong item
  (these programs spin, so that they end only if the producers are scheduled), and \<open>prodcons1.c\<close>,
  without a mutex, can leave an item out.
\<close>

section \<open>The producers with one mutex\<close>

text \<open>The producers of \<open>prodcons2.c\<close> keep the array in order, whatever the consumer does.\<close>

lemma produce2_keeps:
  assumes m: "mutex_ok Put_mutex lc s" and st: "store_ok Put_mutex nitems s" and i: "i < length (ppc s)"
    and step: "produce2_step nitems i s = Some s'"
  shows "mutex_ok Put_mutex lc s'" and "store_ok Put_mutex nitems s'"
    and "nput s \<le> nput s' \<and> cpc s' = cpc s \<and> sh_printed s' = sh_printed s"
proof -
  have "(mutex_ok Put_mutex lc s' \<and> store_ok Put_mutex nitems s') \<and> nput s \<le> nput s' \<and> cpc s' = cpc s \<and> sh_printed s' = sh_printed s"
  proof (cases "ppc s ! i = P_unlock")
    case True
    then have s': "s' = place i P_count (release Put_mutex s)" using step by simp
    have "mutex_ok Put_mutex lc s'"
      using True by (intro mutex_release [OF m i, where p = P_count]) (simp_all add: s' place_simps)
    moreover have "store_ok Put_mutex nitems s'"
      using True by (intro store_quiet [OF m st i, where p = P_count]) (simp_all add: s' place_simps uncounted_def)
    ultimately show ?thesis by (simp add: s' place_simps)
  next
    case False
    then have step: "store_step Put_mutex P_unlock nitems i s = Some s'" using step by (cases "ppc s ! i") simp_all
    have "mutex_ok Put_mutex lc s'" by (rule mutex_store [OF m i step]) simp
    moreover have "store_ok Put_mutex nitems s'" by (rule store_store [OF m st i step]) (simp_all add: uncounted_def)
    ultimately show ?thesis using step by (auto simp: place_simps split: prodpc.splits)
  qed
  then show "mutex_ok Put_mutex lc s'" "store_ok Put_mutex nitems s'"
    "nput s \<le> nput s' \<and> cpc s' = cpc s \<and> sh_printed s' = sh_printed s" by simp_all
qed

subsection \<open>\<open>prodcons3.c\<close>: the consumer looks for its item\<close>

definition looking_ok :: "cstate \<Rightarrow> bool" where
  "looking_ok s \<longleftrightarrow> sh_printed s = [] \<and>
    (case cpc s of C_for i \<Rightarrow> 0 \<le> i | C_lock i \<Rightarrow> 0 \<le> i | C_test i \<Rightarrow> 0 \<le> i | C_spin i \<Rightarrow> 0 \<le> i
     | C_unlock i \<Rightarrow> 0 \<le> i \<and> i < nput s | C_check i \<Rightarrow> 0 \<le> i \<and> i < nput s | C_end \<Rightarrow> True | _ \<Rightarrow> False)"

lemma check_filled: "filled nitems s \<Longrightarrow> 0 \<le> i \<Longrightarrow> i < nput s \<Longrightarrow> check_item i s = s"
  by (simp add: check_item_def filled_def)

definition cond3_ok :: "int \<Rightarrow> cstate \<Rightarrow> bool" where
  "cond3_ok nitems s \<longleftrightarrow> mutex_ok Put_mutex Put_mutex s \<and> store_ok Put_mutex nitems s \<and> looking_ok s"

lemma consume3_keeps:
  assumes ok: "cond3_ok nitems s" and step: "consume3_step nitems s = Some s'"
  shows "cond3_ok nitems s'"
proof -
  have m: "mutex_ok Put_mutex Put_mutex s" and st: "store_ok Put_mutex nitems s" and l: "looking_ok s"
    using ok by (simp_all add: cond3_ok_def)
  have check: "check_item i s = s" if "cpc s = C_check i" for i
    using check_filled [of nitems s i] st l that by (simp add: store_ok_def looking_ok_def)
  have held: "locks s Put_mutex = Some Consumer" if "c_held Put_mutex (cpc s) = Some Put_mutex"
    using mutex_cons [OF m] that by simp
  have same: "ppc s' = ppc s" "sh_buff s' = sh_buff s" "nput s' = nput s" "nval s' = nval s" "counts s' = counts s"
    using step check by (auto simp: acquire_Some release_def split: conspc.splits)
  have "c_locks Put_mutex s s'"
    using step check held by (cases "cpc s") (auto simp: c_locks_def acquire_Some release_def split: if_splits)
  from c_locks_keeps [OF m st this same] have "mutex_ok Put_mutex Put_mutex s' \<and> store_ok Put_mutex nitems s'" .
  moreover have "looking_ok s'"
    using step l check by (cases "cpc s") (auto simp: looking_ok_def acquire_Some release_def split: if_splits)
  ultimately show ?thesis by (simp add: cond3_ok_def)
qed

lemma cond3_reach: "(prodcons3 nitems)\<^sup>*\<^sup>* s t \<Longrightarrow> cond3_ok nitems s \<Longrightarrow> cond3_ok nitems t"
proof (induction rule: rtranclp_induct)
  case (step t u)
  then have ok: "cond3_ok nitems t" by simp
  from step(2) show ?case
  proof cases
    case (produces i)
    have m: "mutex_ok Put_mutex Put_mutex t" and st: "store_ok Put_mutex nitems t" and l: "looking_ok t"
      using ok by (simp_all add: cond3_ok_def)
    note k = produce2_keeps [OF m st produces]
    then have "looking_ok u" using l by (cases "cpc t") (auto simp: looking_ok_def)
    then show ?thesis using k by (simp add: cond3_ok_def)
  next
    case consumes
    then show ?thesis by (rule consume3_keeps [OF ok])
  next
    case (wakes i)
    then show ?thesis using ok by (simp add: cond3_ok_def looking_ok_def)
  qed
qed

text \<open>
  On every schedule the consumer of \<open>prodcons3.c\<close> and \<open>prodcons4.c\<close> finds each item in its place:
  it prints nothing, and it checks only items below \<open>nput\<close>, which no producer writes any more.
\<close>

theorem prodcons3_correct:
  assumes "nitems \<le> MAXNITEMS" and "(prodcons3 nitems)\<^sup>*\<^sup>* (cond_start MAXNITEMS (C_for 0) nthreads k) s"
  shows "sh_printed s = [] \<and> (\<forall>j < nat (nput s). sh_buff s ! j = int j) \<and> (\<forall>i. cpc s = C_check i \<longrightarrow> i < nput s)"
proof -
  have "cond3_ok nitems (cond_start MAXNITEMS (C_for 0) nthreads k)"
    using mutex_start [of Put_mutex "C_for 0"] store_start [OF assms(1)] by (simp add: cond3_ok_def looking_ok_def cond_start_def)
  from cond3_reach [OF assms(2) this] show ?thesis
    by (auto simp: cond3_ok_def store_ok_def filled_def looking_ok_def)
qed

subsection \<open>\<open>prodcons2.c\<close>: the consumer starts at the end\<close>

definition used2 :: "prodpc \<Rightarrow> bool" where
  "used2 p \<longleftrightarrow> p \<in> {P_lock, P_test, P_full, P_store, P_nput, P_nval, P_unlock, P_count, P_end}"

definition all_ended :: "cstate \<Rightarrow> bool" where
  "all_ended s \<longleftrightarrow> list_all (\<lambda>p. p = P_end) (ppc s)"

definition cond2_ok :: "int \<Rightarrow> cstate \<Rightarrow> bool" where
  "cond2_ok nitems s \<longleftrightarrow> mutex_ok Put_mutex Put_mutex s \<and> store_ok Put_mutex nitems s \<and> ppc s \<noteq> [] \<and>
     list_all used2 (ppc s) \<and> sh_printed s = [] \<and>
     (case cpc s of C_join \<Rightarrow> True | C_for i \<Rightarrow> 0 \<le> i \<and> i \<le> max 0 nitems \<and> all_ended s
      | C_check i \<Rightarrow> 0 \<le> i \<and> i < nitems \<and> all_ended s | C_end \<Rightarrow> all_ended s | _ \<Rightarrow> False)"

lemma ended_nput: "store_ok lp nitems s \<Longrightarrow> ppc s \<noteq> [] \<Longrightarrow> all_ended s \<Longrightarrow> nput s = max 0 nitems \<and> cnt uncounted (ppc s) = 0"
proof -
  assume st: "store_ok lp nitems s" and n: "ppc s \<noteq> []" and e: "all_ended s"
  have "nitems \<le> nput s" using st n e by (auto simp: store_ok_def all_ended_def list_all_length)
  moreover have "cnt uncounted (ppc s) = 0" using e by (auto simp: cnt_zero_iff all_ended_def list_all_iff uncounted_def)
  ultimately show ?thesis using st by (auto simp: store_ok_def filled_def)
qed

lemma produce2_used:
  "list_all used2 (ppc s) \<Longrightarrow> produce2_step nitems i s = Some s' \<Longrightarrow> list_all used2 (ppc s') \<and> length (ppc s') = length (ppc s)"
  using used_store [of used2 s Put_mutex P_unlock nitems i s'] ppc_store [of Put_mutex P_unlock nitems i s s']
  by (cases "ppc s ! i") (auto simp: used2_def place_simps intro!: list_all_update)

lemma check2:
  assumes "cond2_ok nitems s" and "cpc s = C_check i"
  shows "check_item i s = s"
proof -
  have st: "store_ok Put_mutex nitems s" "ppc s \<noteq> []" "all_ended s" and i: "0 \<le> i" "i < nitems"
    using assms by (simp_all add: cond2_ok_def)
  have "filled nitems s" using st(1) by (simp add: store_ok_def)
  then show ?thesis using check_filled [of nitems s i] ended_nput [OF st] i by simp
qed

lemma step2_keeps:
  assumes ok: "cond2_ok nitems s" and "prodcons2 nitems s s'"
  shows "cond2_ok nitems s'"
  using assms(2)
proof cases
  case (produces i)
  have m: "mutex_ok Put_mutex Put_mutex s" and st: "store_ok Put_mutex nitems s" and u: "list_all used2 (ppc s)"
    using ok by (simp_all add: cond2_ok_def)
  have "ppc s ! i \<noteq> P_end" using produces(2) by auto
  then have "\<not> all_ended s" using produces(1) by (auto simp: all_ended_def list_all_length)
  then have "cpc s = C_join" using ok by (cases "cpc s") (simp_all add: cond2_ok_def)
  then show ?thesis using produce2_keeps [OF m st produces] produce2_used [OF u produces(2)] ok
    by (auto simp: cond2_ok_def)
next
  case consumes
  have "mutex_ok Put_mutex Put_mutex s" "store_ok Put_mutex nitems s" using ok by (simp_all add: cond2_ok_def)
  then have "mutex_ok Put_mutex Put_mutex (s\<lparr>cpc := c\<rparr>) \<and> store_ok Put_mutex nitems (s\<lparr>cpc := c\<rparr>)"
    if "c_held Put_mutex c = c_held Put_mutex (cpc s)" for c
    using that by (intro c_locks_keeps) (simp_all add: c_locks_def)
  then show ?thesis using consumes ok check2 [OF ok]
    by (cases "cpc s") (auto simp: cond2_ok_def all_ended_def split: if_splits)
next
  case (wakes i)
  then show ?thesis using ok by (simp add: cond2_ok_def)
qed

lemma step2_spends:
  assumes ok: "cond2_ok nitems s" and "prodcons2 nitems s s'"
  shows "cond_left nitems s' < cond_left nitems s"
  using assms(2)
proof cases
  case (produces i)
  then show ?thesis using left_store [of Put_mutex P_unlock nitems i s s']
    by (cases "ppc s ! i") (auto simp: cond_left_def place_simps prank_update)
next
  case consumes
  then show ?thesis using ok check2 [OF ok]
    by (cases "cpc s") (auto simp: cond_left_def cond2_ok_def split: if_splits)
qed (use ok in \<open>simp add: cond2_ok_def\<close>)

lemma step2_moves:
  assumes ok: "cond2_ok nitems s" and "\<not> cond_final s"
  shows "\<exists>s'. prodcons2 nitems s s'"
proof (cases "all_ended s")
  case True
  then have "cpc s \<noteq> C_end" using assms(2) by (simp add: cond_final_def all_ended_def list_all_length)
  then have "\<exists>s'. consume2_step nitems s = Some s'" using ok True by (cases "cpc s") (auto simp: cond2_ok_def all_ended_def)
  then show ?thesis by (blast intro: cond_step.consumes)
next
  case False
  have m: "mutex_ok Put_mutex Put_mutex s" and u: "i < length (ppc s) \<Longrightarrow> used2 (ppc s ! i)" for i
    using ok by (simp_all add: cond2_ok_def list_all_length)
  have run: "\<exists>s'. prodcons2 nitems s s'" if "i < length (ppc s)" "ppc s ! i \<notin> {P_lock, P_end}" for i
    using that u [OF that(1)] cond_step.produces [OF that(1), of "produce2_step nitems"]
    by (cases "ppc s ! i") (auto simp: used2_def)
  obtain i where i: "i < length (ppc s)" "ppc s ! i \<noteq> P_end" using False by (auto simp: all_ended_def list_all_length)
  show ?thesis
  proof (cases "ppc s ! i = P_lock")
    case True
    have "locks s Put_mutex \<noteq> Some Consumer"
      using mutex_cons [OF m, of Put_mutex] ok by (cases "cpc s") (simp_all add: cond2_ok_def)
    then consider "locks s Put_mutex = None" | j where "locks s Put_mutex = Some (Producer j)"
      by (metis cagent.exhaust option.exhaust)
    then show ?thesis
    proof cases
      case 1
      then show ?thesis using True cond_step.produces [OF i(1), of "produce2_step nitems"] by (auto simp: acquire_def)
    next
      case (2 j)
      then have "j < length (ppc s)" "p_held Put_mutex (ppc s ! j) = Some Put_mutex" using mutex_producer [OF m] by simp_all
      then show ?thesis using run [of j] by (auto split: if_splits)
    qed
  qed (use i run in blast)
qed

interpretation pc2: ending_program "prodcons2 nitems" "cond2_ok nitems" "cond_left nitems" cond_final for nitems
proof
  show "0 \<le> cond_left nitems s" if ok: "cond2_ok nitems s" for s
  proof -
    have "0 \<le> sum_list (map prank (ppc s))" using prank_nonneg by (intro sum_list_nonneg) auto
    moreover have "0 \<le> crank (max 0 nitems) (cpc s)" using ok by (cases "cpc s") (simp_all add: cond2_ok_def)
    moreover have "nput s \<le> max 0 nitems" using ok by (simp add: cond2_ok_def store_ok_def filled_def)
    ultimately show ?thesis unfolding cond_left_def by (intro add_nonneg_nonneg) auto
  qed
qed (blast intro: step2_keeps step2_spends step2_moves)+

text \<open>
  The program with a mutex and a consumer that starts at the end ends on every schedule, with
  all items in the array and nothing printed.
\<close>

theorem prodcons2_ends:
  assumes "1 \<le> nthreads" and "nitems \<le> MAXNITEMS" and "(prodcons2 nitems ^^ n) (cond_start MAXNITEMS C_join nthreads k) s"
  shows "int n \<le> 35 * max 0 nitems + 5 * int nthreads + 3 * int k + 17 \<and> sh_printed s = [] \<and>
    ((\<nexists>s'. prodcons2 nitems s s') \<longrightarrow>
      cond_final s \<and> sum_list (counts s) = max 0 nitems \<and> (\<forall>j < nat nitems. sh_buff s ! j = int j))"
proof -
  have start: "cond2_ok nitems (cond_start MAXNITEMS C_join nthreads k)"
    using mutex_start [of Put_mutex C_join Put_mutex MAXNITEMS nthreads k] store_start [OF assms(2), of Put_mutex C_join nthreads k] assms(1)
    by (auto simp: cond2_ok_def cond_start_def list_all_iff used2_def)
  have left: "cond_left nitems (cond_start MAXNITEMS C_join nthreads k) = 35 * max 0 nitems + 5 * int nthreads + 3 * int k + 17"
    by (simp add: cond_left_def cond_start_def sum_list_replicate)
  have good: "cond2_ok nitems s" using pc2.run_good [OF assms(3) start] by simp
  have st: "store_ok Put_mutex nitems s" "ppc s \<noteq> []" using good by (simp_all add: cond2_ok_def)
  have "sum_list (counts s) = max 0 nitems \<and> (\<forall>j < nat nitems. sh_buff s ! j = int j)" if "cond_final s"
    using that ended_nput [OF st] st(1) by (auto simp: cond_final_def all_ended_def list_all_length store_ok_def filled_def)
  then show ?thesis
    using pc2.run_short [OF assms(3) start] pc2.run_stuck [OF assms(3) start] good left by (auto simp: cond2_ok_def)
qed

section \<open>\<open>prodcons1.c\<close>: no mutex\<close>

definition schedule1 :: "cagent list" where
  "schedule1 = replicate 3 (Producer 0) @ replicate 3 (Producer 1) @ replicate 3 (Producer 0) @ replicate 5 (Producer 1) @
     replicate 2 (Producer 0) @ replicate 6 Consumer"

text \<open>
  Two producers can store the same item, one over the other, and then both add one to the
  index: the second cell is never written, and the consumer finds 0 there.
\<close>

theorem prodcons1_wrong:
  "\<exists>s. (prodcons1 2)\<^sup>*\<^sup>* (cond_start MAXNITEMS C_join 2 0) s \<and> cond_final s \<and> counts s = [1, 1] \<and> sh_printed s = [(1, 0)]"
proof -
  have a: "schedule1 = [Producer 0, Producer 0, Producer 0, Producer 1, Producer 1, Producer 1,
      Producer 0, Producer 0, Producer 0, Producer 1, Producer 1, Producer 1, Producer 1, Producer 1, Producer 0, Producer 0,
      Consumer, Consumer, Consumer, Consumer, Consumer, Consumer]"
    by (simp add: schedule1_def numeral_eq_Suc)
  have b: "0 < nat MAXNITEMS" "1 < nat MAXNITEMS" by (simp_all add: MAXNITEMS_def)
  have c: "cond_start MAXNITEMS C_join 2 0 = \<lparr>sh_buff = replicate (nat MAXNITEMS) 0, nput = 0, nval = 0, nready = 0, nsignals = 0,
     counts = [0, 0], sh_printed = [], locks = (\<lambda>_. None), ppc = [P_lock, P_lock], cpc = C_join, spurious = 0\<rparr>"
    by (simp add: cond_start_def numeral_2_eq_2)
  have "\<exists>s. run_cond (produce1_step 2) (consume2_step 2) schedule1 (cond_start MAXNITEMS C_join 2 0) = Some s \<and>
      cond_final s \<and> counts s = [1, 1] \<and> sh_printed s = [(1, 0)]"
    unfolding a c using b
    by (simp add: place_def acquire_def release_def check_item_def cond_final_def All_less_Suc)
  then show ?thesis using run_cond_relpow relpowp_imp_rtranclp by metis
qed

end
