(* ===== verification/Condprod_Batch.thy ===== *)
theory Condprod_Batch
  imports Condprod_Props
begin

text \<open>
  \<open>MutexAndCondAndRwlock/MutexAndCond.c\<close>: the consumer checks all items that are ready while it
  has the mutex. The program ends on every schedule, without the message and the \<open>exit\<close> of the
  consumer.
\<close>

section \<open>The producers\<close>

definition used_mc :: "prodpc \<Rightarrow> bool" where
  "used_mc p \<longleftrightarrow> p \<notin> {P_nready, P_signal, R_test, R_signal, R_nsignals, R_nready}"

lemma used_mc_signalled: "list_all used_mc ps \<Longrightarrow> cnt signalled ps = 0"
  by (auto simp: cnt_zero_iff list_all_iff used_mc_def signalled_def)

lemma not_exit: "cond_ok lp used nitems s \<Longrightarrow> cpc s \<noteq> C_exit"
  by (auto simp: cond_ok_def ready_ok_def waiting_ok_def)

lemma producer_keeps:
  assumes ok: "cond_ok Put_mutex used_mc nitems s" and i: "i < length (ppc s)" and step: "producer_step nitems i s = Some s'"
  shows "cond_ok Put_mutex used_mc nitems s'"
proof -
  have m: "mutex_ok Put_mutex Nready_mutex s" and r: "ready_ok nitems s" using ok by (simp_all add: cond_ok_def)
  note step = step [unfolded producer_step.simps if_not_P [OF not_exit [OF ok]]]
  show ?thesis
  proof (cases "ppc s ! i")
    case P_unlock
    then have s': "s' = place i R_lock (release Put_mutex s)" using step by simp
    have "mutex_ok Put_mutex Nready_mutex s'"
      using P_unlock by (intro mutex_release [OF m i, where p = R_lock]) (simp_all add: s' place_simps)
    moreover have "ready_ok nitems s'" using P_unlock
      by (intro ready_quiet [OF r i, where p = R_lock]) (simp_all add: s' place_simps pending_def signalled_def signalling_def)
    ultimately show ?thesis using P_unlock
      by (intro cond_after [OF ok i s']) (simp_all add: uncounted_def used_mc_def release_def)
  next
    case R_lock
    then have l: "locks s Nready_mutex = None"
      and s': "s' = place i S_nready (s\<lparr>locks := (locks s)(Nready_mutex := Some (Producer i))\<rparr>)"
      using step by (auto simp: acquire_Some)
    have "mutex_ok Put_mutex Nready_mutex s'"
      using R_lock l by (intro mutex_acquire [OF m i, where p = S_nready]) (simp_all add: s' place_simps)
    moreover have "ready_ok nitems s'" using R_lock
      by (intro ready_quiet [OF r i, where p = S_nready]) (simp_all add: s' place_simps pending_def signalled_def signalling_def)
    ultimately show ?thesis using R_lock
      by (intro cond_after [OF ok i s']) (simp_all add: uncounted_def used_mc_def)
  next
    case S_nready
    then have s': "s' = place i S_signal (s\<lparr>nready := nready s + 1\<rparr>)" using step by simp
    have "waiting_ok nitems (nready s) (ppc s) (cpc s)" using r by (simp add: ready_ok_def)
    then have "waiting_ok nitems (nready s + 1) ((ppc s)[i := S_signal]) (cpc s)"
      using i S_nready by (cases "cpc s") (auto simp: waiting_ok_def sleep_ok_def cnt_update signalled_def signalling_def)
    then have "ready_ok nitems s'" using r i S_nready by (simp add: ready_ok_def s' place_def cnt_update pending_def)
    moreover have "mutex_ok Put_mutex Nready_mutex s'"
      using S_nready by (intro mutex_keep [OF m i, where p = S_signal]) (simp_all add: s' place_def)
    ultimately show ?thesis using S_nready
      by (intro cond_after [OF ok i s']) (simp_all add: uncounted_def used_mc_def)
  next
    case S_signal
    then have s': "s' = place i R_unlock (s\<lparr>cpc := wake (cpc s)\<rparr>)" using step by simp
    have "ready_ok nitems s'"
      using S_signal by (intro ready_awake [OF r i, where p = R_unlock]) (simp_all add: s' place_def pending_def)
    moreover have "mutex_ok Put_mutex Nready_mutex s'"
      using S_signal by (intro mutex_keep [OF m i, where p = R_unlock]) (simp_all add: s' place_def)
    ultimately show ?thesis using S_signal
      by (intro cond_after [OF ok i s']) (simp_all add: uncounted_def used_mc_def)
  next
    case R_unlock
    then have s': "s' = place i P_count (release Nready_mutex s)" using step by simp
    have "ready_ok nitems s'" using R_unlock
      by (intro ready_quiet [OF r i, where p = P_count]) (simp_all add: s' place_simps pending_def signalled_def signalling_def)
    moreover have "mutex_ok Put_mutex Nready_mutex s'"
      using R_unlock by (intro mutex_release [OF m i, where p = P_count]) (simp_all add: s' place_simps)
    ultimately show ?thesis using R_unlock
      by (intro cond_after [OF ok i s']) (simp_all add: uncounted_def used_mc_def release_def)
  qed (use step in \<open>auto simp: pending_def signalled_def signalling_def uncounted_def used_mc_def
      intro!: cond_store [OF ok i, where after = P_unlock]\<close>)
qed

lemma left_producer:
  "i < length (ppc s) \<Longrightarrow> producer_step nitems i s = Some s' \<Longrightarrow>
    cond_left nitems s' < cond_left nitems s \<and> (cpc s' = cpc s \<or> cpc s' = wake (cpc s))"
  using left_store [of Put_mutex P_unlock nitems i s s'] crank_wake [of "max 0 nitems" "cpc s"]
  by (cases "ppc s ! i") (auto simp: cond_left_def place_simps prank_update split: if_splits)

section \<open>The consumer\<close>

definition cused_mc :: "conspc \<Rightarrow> bool" where
  "cused_mc c \<longleftrightarrow> (case c of C_take i \<Rightarrow> False | C_unlock i \<Rightarrow> False | C_check i \<Rightarrow> False | _ \<Rightarrow> True)"

lemma item_right:
  assumes "cond_ok lp used nitems s" and "cpc s = C_item i"
  shows "sh_buff s ! nat i = i"
proof -
  have r: "ready_ok nitems s" and f: "filled nitems s" using assms(1) by (simp_all add: cond_ok_def store_ok_def)
  have "0 \<le> i" "i < nput s"
    using r assms(2) cnt_nonneg [of pending "ppc s"] unfolding ready_ok_def waiting_ok_def by (simp_all, linarith)
  then show ?thesis using f by (simp add: filled_def)
qed

lemma consumer_keeps:
  assumes ok: "cond_ok Put_mutex used_mc nitems s" and step: "consumer_step nitems s = Some s'"
  shows "cond_ok Put_mutex used_mc nitems s'"
proof -
  have m: "mutex_ok Put_mutex Nready_mutex s" and st: "store_ok Put_mutex nitems s" and r: "ready_ok nitems s"
    and u: "list_all used_mc (ppc s)" using ok by (simp_all add: cond_ok_def)
  note right = item_right [OF ok]
  have room: "nput s \<le> max 0 nitems" "cnt pending (ppc s) \<ge> 0" using st by (simp_all add: store_ok_def filled_def)
  have held: "locks s Nready_mutex = Some Consumer" if "c_held Nready_mutex (cpc s) = Some Nready_mutex"
    using mutex_cons [OF m] that by simp
  have same: "ppc s' = ppc s" "sh_buff s' = sh_buff s" "nput s' = nput s" "nval s' = nval s" "counts s' = counts s" "sh_printed s' = sh_printed s"
    using step right by (auto simp: acquire_Some release_def split: conspc.splits if_splits)
  have "c_locks Nready_mutex s s'"
    using step right held by (cases "cpc s") (auto simp: c_locks_def acquire_Some release_def split: if_splits)
  note locks = c_locks_keeps [OF m st this same(1-5)]
  have "ready_ok nitems s'"
  proof (cases "cpc s")
    case (C_test i)
    have none: "p_held Put_mutex p \<noteq> Some Nready_mutex" if "p \<in> set (ppc s)" for p
      using held mutex_producer [OF m, of Nready_mutex] that C_test
      by (auto simp: in_set_conv_nth simp del: p_held.simps)
    have "\<not> signalling p" if "p \<in> set (ppc s)" for p
    proof -
      have "used_mc p" using u that by (simp add: list_all_iff)
      then show ?thesis using none [OF that] by (auto simp: signalling_def used_mc_def)
    qed
    then have "sleep_ok 0 (ppc s)" using used_mc_signalled [OF u] by (auto simp: sleep_ok_def cnt_zero_iff dest: sym)
    then show ?thesis using step C_test r by (auto simp: ready_ok_def waiting_ok_def release_def split: if_splits)
  next
    case (C_batch i)
    have "i < nitems" if "0 < nready s"
    proof -
      have "nready s + i \<le> nput s" "0 \<le> i" "i \<le> nitems" using r C_batch room(2) by (simp_all add: ready_ok_def waiting_ok_def)
      then show ?thesis using room(1) that by auto
    qed
    then show ?thesis using step r C_batch by (auto simp: ready_ok_def waiting_ok_def split: if_splits)
  next
    case (C_item i)
    then show ?thesis using step r right by (auto simp: ready_ok_def waiting_ok_def)
  qed (use step r in \<open>auto simp: ready_ok_def waiting_ok_def acquire_Some release_def split: if_splits\<close>)
  then show ?thesis using locks ok same(1) by (simp add: cond_ok_def)
qed

lemma left_consumer:
  assumes "cond_ok Put_mutex used_mc nitems s" and "consumer_step nitems s = Some s'"
  shows "cond_left nitems s' < cond_left nitems s"
proof -
  have ok: "waiting_ok nitems (nready s) (ppc s) (cpc s)" using assms(1) by (simp add: cond_ok_def ready_ok_def)
  show ?thesis using assms(2) ok item_right [OF assms(1)]
    by (cases "cpc s") (auto simp: cond_left_def acquire_Some release_def waiting_ok_def split: if_splits)
qed

lemma consumer_moves:
  "cond_ok lp used nitems s \<Longrightarrow> cused_mc (cpc s) \<Longrightarrow> cpc s \<noteq> C_end \<Longrightarrow> (\<And>i. cpc s \<noteq> C_asleep i) \<Longrightarrow>
    c_held Nready_mutex (cpc s) = None \<longrightarrow> locks s Nready_mutex = None \<Longrightarrow> \<exists>s'. consumer_step nitems s = Some s'"
  by (cases "cpc s") (auto simp: cond_ok_def ready_ok_def waiting_ok_def cused_mc_def acquire_def)

lemma consumer_cused: "cused_mc (cpc s) \<Longrightarrow> consumer_step nitems s = Some s' \<Longrightarrow> cused_mc (cpc s')"
  by (cases "cpc s") (auto simp: cused_mc_def acquire_Some release_def split: if_splits)

lemma cused_mc_wake: "cused_mc c \<Longrightarrow> cused_mc (wake c)"
  by (cases c) (simp_all add: cused_mc_def)

section \<open>The program\<close>

interpretation mc: cond_threads "producer_step nitems" "consumer_step nitems" nitems Put_mutex used_mc cused_mc for nitems
proof
  show "\<exists>s'. producer_step nitems i s = Some s'"
    if "cond_ok Put_mutex used_mc nitems s" "used_mc (ppc s ! i)" "ppc s ! i \<noteq> P_end" "ppc s ! i = P_lock \<longrightarrow> locks s Put_mutex = None"
      "ppc s ! i = R_lock \<longrightarrow> locks s Nready_mutex = None" for s i
    using that not_exit [OF that(1)] by (cases "ppc s ! i") (simp_all add: used_mc_def acquire_def)
  show "cond_ok Put_mutex used_mc nitems s' \<and> cused_mc (cpc s')"
    if "cond_ok Put_mutex used_mc nitems s" "cused_mc (cpc s)" "consumer_step nitems s = Some s'" for s s'
    using consumer_keeps [OF that(1,3)] consumer_cused [OF that(2,3)] by blast
qed (rule producer_keeps left_producer left_consumer consumer_moves cused_mc_wake; assumption)+

text \<open>
  C15: The producers and the consumer of \<open>MutexAndCond.c\<close> end on every schedule, within a number of
  steps that depends on the numbers of items, of producers and of spurious wake-ups; the
  consumer never finds a wrong item, and at the end all items have been checked and counted.
\<close>

theorem mutex_and_cond_ends:
  assumes "1 \<le> nthreads"
    and "(mutex_and_cond nitems ^^ n) (cond_start nitems (C_for 0) nthreads k) s"
  shows "int n \<le> 35 * max 0 nitems + 5 * int nthreads + 3 * int k + 16 \<and> sh_printed s = [] \<and>
    ((\<nexists>s'. mutex_and_cond nitems s s') \<longrightarrow>
      cond_final s \<and> nready s = 0 \<and> sum_list (counts s) = max 0 nitems \<and> (\<forall>j < nat nitems. sh_buff s ! j = int j))"
  using assms by (intro mc.ends [where m = nitems]) (simp_all add: used_mc_def cused_mc_def)

definition schedule_mc :: "cagent list" where
  "schedule_mc = replicate 3 Consumer @ replicate 10 (Producer 0) @ replicate 8 Consumer @ replicate 4 (Producer 0)"

lemma schedule_mc_runs:
  "\<exists>s. run_cond (producer_step 1) (consumer_step 1) schedule_mc (cond_start 1 (C_for 0) 1 0) = Some s \<and>
     cond_final s \<and> counts s = [1]"
proof -
  show ?thesis
    unfolding schedule_mc_def
    by (simp add: numeral_eq_Suc cond_start_def place_def acquire_def release_def check_item_def cond_final_def)
qed

theorem mutex_and_cond_ends_witness:
  "\<exists>s. cond_final s \<and> counts s = [1] \<and> (mutex_and_cond 1 ^^ 25) (cond_start 1 (C_for 0) 1 0) s \<and> sh_printed s = []"
proof -
  obtain s where run: "run_cond (producer_step 1) (consumer_step 1) schedule_mc (cond_start 1 (C_for 0) 1 0) = Some s"
    and s: "cond_final s" "counts s = [1]" using schedule_mc_runs by blast
  have "length schedule_mc = 25" by (simp add: schedule_mc_def)
  then have "(mutex_and_cond 1 ^^ 25) (cond_start 1 (C_for 0) 1 0) s" using run_cond_relpow [OF run] by simp
  moreover from this have "sh_printed s = []"
    using mutex_and_cond_ends [where nthreads = 1 and nitems = 1 and n = 25 and k = 0 and s = s] by simp
  ultimately show ?thesis using s by blast
qed

end
