(* ===== verification/Threadpool.thy ===== *)
theory Threadpool
  imports Monitor
begin

text \<open>
  The pool of threads of \<open>server/serv08.c\<close> and \<open>pthread08.c\<close>: the main thread accepts
  connections and puts their descriptors into a circular array, and the threads of the pool
  take them from it; one mutex and one condition variable protect the array and its two
  indices. When the array would become full the main thread ends the program.
\<close>

section \<open>The array\<close>

definition MAXNCLI :: nat where "MAXNCLI = 32"

record clients =
  clifd :: "int list"
  iget :: nat
  iput :: nat

definition clients_start :: clients where
  "clients_start = \<lparr>clifd = replicate MAXNCLI 0, iget = 0, iput = 0\<rparr>"

definition next_index :: "nat \<Rightarrow> nat" where
  "next_index i = (if i + 1 = MAXNCLI then 0 else i + 1)"

section \<open>The operations\<close>

datatype pool_op = Pool_put int | Pool_get

text \<open>Lines 40 to 46 of \<open>serv08.c\<close>; \<open>err_quit\<close> ends the process.\<close>

fun pool_put :: "int \<Rightarrow> clients \<Rightarrow> (clients, unit, int) seg" where
  "pool_put connfd d =
    (let d' = d\<lparr>clifd := (clifd d)[iput d := connfd], iput := next_index (iput d)\<rparr>
     in if iput d' = iget d' then Crash else Finish d' [Signal ()] 0)"

text \<open>Lines 22 to 27 of \<open>pthread08.c\<close>, from the test of the loop on.\<close>

fun pool_get :: "clients \<Rightarrow> (clients, unit, int) seg" where
  "pool_get d =
    (if iget d = iput d then Sleep d ()
     else Finish (d\<lparr>iget := next_index (iget d)\<rparr>) [] (clifd d ! iget d))"

text \<open>
  What a thread knows: the main thread the descriptors that it has accepted, a thread of the
  pool its counter \<open>thread_count\<close> and the descriptors that it has served. The wrappers end the
  process when a call fails, so only calls that succeed occur.
\<close>

datatype pool_client = Acceptor "int list" | Worker int "int list"

fun pool_enter :: "pool_op \<Rightarrow> status \<Rightarrow> clients \<Rightarrow> (clients, unit, int) seg" where
  "pool_enter (Pool_put fd) st d = pool_put fd d"
| "pool_enter Pool_get st d = pool_get d"

fun pool_may :: "pool_client \<Rightarrow> pool_op \<Rightarrow> bool" where
  "pool_may (Acceptor fds) (Pool_put fd) = True"
| "pool_may (Worker n fds) Pool_get = True"
| "pool_may c op = False"

fun pool_note :: "pool_client \<Rightarrow> pool_op \<Rightarrow> int \<Rightarrow> pool_client" where
  "pool_note (Acceptor fds) (Pool_put fd) r = Acceptor (fds @ [fd])"
| "pool_note (Worker n fds) Pool_get r = Worker (n + 1) (fds @ [r])"
| "pool_note c op r = c"

definition pool_code :: "(clients, pool_op, unit, int, pool_client) code" where
  "pool_code = \<lparr>enter = pool_enter, resume = pool_enter, can_cancel = (\<lambda>op. False), cleanup = (\<lambda>op d. d),
     may_call = pool_may, note_ret = pool_note\<rparr>"

text \<open>\<open>main\<close> with \<open>nthreads\<close> threads, before the first connection.\<close>

definition serv08_start :: "nat \<Rightarrow> (clients, pool_op, unit, pool_client) mon" where
  "serv08_start nthreads = \<lparr>m_data = clients_start,
     m_thr = \<lparr>th_pc = Outside, th_cli = Acceptor []\<rparr> # replicate nthreads \<lparr>th_pc = Outside, th_cli = Worker 0 []\<rparr>\<rparr>"

abbreviation serv08 :: "(clients, pool_op, unit, pool_client) mon \<Rightarrow> (clients, pool_op, unit, pool_client) mon \<Rightarrow> bool" where
  "serv08 \<equiv> mreach pool_code {None}"

end
