(* ===== verification/Threadpool_Props.thy ===== *)
theory Threadpool_Props
  imports Threadpool "HOL-Library.Sublist"
begin

text \<open>
  Every connection that the main thread has put into the array goes to exactly one thread, in
  the order of acceptance; no connection stays in the array while the threads that could serve
  it sleep.
\<close>

section \<open>The array as a queue\<close>

definition ring_ok :: "clients \<Rightarrow> bool" where
  "ring_ok d \<longleftrightarrow> length (clifd d) = MAXNCLI \<and> iget d < MAXNCLI \<and> iput d < MAXNCLI"

definition ring_len :: "clients \<Rightarrow> nat" where
  "ring_len d = (if iget d \<le> iput d then iput d - iget d else iput d + MAXNCLI - iget d)"

definition ring :: "clients \<Rightarrow> int list" where
  "ring d = map (\<lambda>k. clifd d ! ((iget d + k) mod MAXNCLI)) [0..<ring_len d]"

lemma length_ring [simp]: "length (ring d) = ring_len d"
  by (simp add: ring_def)

lemma ring_len_0: "ring_ok d \<Longrightarrow> ring_len d = 0 \<longleftrightarrow> iget d = iput d"
  by (auto simp: ring_len_def ring_ok_def)

lemma ring_len_bound: "ring_ok d \<Longrightarrow> ring_len d < MAXNCLI"
  by (auto simp: ring_len_def ring_ok_def)

lemma next_index_mod: "i < MAXNCLI \<Longrightarrow> next_index i = (i + 1) mod MAXNCLI"
  by (auto simp: next_index_def MAXNCLI_def)

lemma next_index_less: "i < MAXNCLI \<Longrightarrow> next_index i < MAXNCLI"
  by (auto simp: next_index_def)

lemma iput_mod: "ring_ok d \<Longrightarrow> iput d = (iget d + ring_len d) mod MAXNCLI"
  by (auto simp: ring_ok_def ring_len_def)

text \<open>The main thread ends the program exactly when one place is left.\<close>

lemma pool_put_spec:
  assumes ok: "ring_ok d"
  shows "pool_put fd d = Crash \<longleftrightarrow> ring_len d + 1 = MAXNCLI"
    and "pool_put fd d = Finish d' ws r \<Longrightarrow> ring_ok d' \<and> ring d' = ring d @ [fd] \<and> ws = [Signal ()]"
proof -
  let ?d = "d\<lparr>clifd := (clifd d)[iput d := fd], iput := next_index (iput d)\<rparr>"
  show crash: "pool_put fd d = Crash \<longleftrightarrow> ring_len d + 1 = MAXNCLI"
    using ok by (auto simp: ring_ok_def ring_len_def next_index_def Let_def MAXNCLI_def)
  assume fin: "pool_put fd d = Finish d' ws r"
  then have d': "d' = ?d" and ws: "ws = [Signal ()]" by (auto simp: Let_def split: if_splits)
  have "ring_ok d'" using ok by (simp add: ring_ok_def d' next_index_less)
  moreover have len: "ring_len d' = ring_len d + 1"
    using ok crash fin by (auto simp: ring_ok_def ring_len_def next_index_def d')
  moreover have "ring d' ! k = (ring d @ [fd]) ! k" if "k < ring_len d + 1" for k
  proof (cases "k = ring_len d")
    case True
    then show ?thesis using ok iput_mod [OF ok] len by (simp add: ring_def d' nth_append ring_ok_def)
  next
    case False
    have "(iget d + k) mod MAXNCLI \<noteq> (iget d + ring_len d) mod MAXNCLI"
      using False that ring_len_bound [OF ok] ok by (auto simp: ring_ok_def mod_if)
    then show ?thesis using False that len iput_mod [OF ok] by (simp add: ring_def d' nth_append)
  qed
  ultimately show "ring_ok d' \<and> ring d' = ring d @ [fd] \<and> ws = [Signal ()]"
    using ws by (auto intro!: nth_equalityI)
qed

lemma pool_get_spec:
  assumes ok: "ring_ok d"
  shows "ring d = [] \<Longrightarrow> pool_get d = Sleep d ()"
    and "ring d = fd # fds \<Longrightarrow> \<exists>d'. pool_get d = Finish d' [] fd \<and> ring_ok d' \<and> ring d' = fds"
proof -
  show "ring d = [] \<Longrightarrow> pool_get d = Sleep d ()" using ring_len_0 [OF ok] length_ring [of d] by simp
  assume r: "ring d = fd # fds"
  let ?d = "d\<lparr>iget := next_index (iget d)\<rparr>"
  have pos: "0 < ring_len d" and n: "iget d \<noteq> iput d" using ring_len_0 [OF ok] length_ring [of d] r by auto
  have fd: "clifd d ! iget d = fd"
    using r pos ok nth_map [of 0 "[0..<ring_len d]" "\<lambda>k. clifd d ! ((iget d + k) mod MAXNCLI)"] unfolding ring_def
    by (simp add: ring_ok_def)
  have len: "ring_len ?d = ring_len d - 1"
    using ok n by (auto simp: ring_len_def ring_ok_def next_index_def)
  have "ring ?d = tl (ring d)"
  proof (rule nth_equalityI)
    fix k assume "k < length (ring ?d)"
    then have k: "Suc k < ring_len d" using len pos by simp
    have "(next_index (iget d) + k) mod MAXNCLI = (iget d + Suc k) mod MAXNCLI"
      using ok by (simp add: next_index_mod ring_ok_def mod_add_left_eq)
    then show "ring ?d ! k = tl (ring d) ! k" using k len pos by (simp add: ring_def nth_tl)
  qed (simp add: len)
  then have "ring ?d = fds" using r by simp
  then show "\<exists>d'. pool_get d = Finish d' [] fd \<and> ring_ok d' \<and> ring d' = fds"
    using n fd ok by (simp add: ring_ok_def next_index_less)
qed

section \<open>Who serves which connection\<close>

definition pool_clients :: "int list \<Rightarrow> int list list \<Rightarrow> pool_client list" where
  "pool_clients fds ls = Acceptor fds # map (\<lambda>l. Worker (int (length l)) l) ls"

text \<open>The connections that have left the array are those that the threads have, each with one thread.\<close>

definition shared_out :: "int list \<Rightarrow> int list list \<Rightarrow> int list \<Rightarrow> bool" where
  "shared_out fds ls q \<longleftrightarrow> (\<exists>xs. fds = xs @ q \<and> mset xs = mset (concat ls) \<and> list_all (\<lambda>l. subseq l xs) ls)"

definition pool_inv :: "clients \<Rightarrow> (pool_op option \<times> pool_client) list \<Rightarrow> bool" where
  "pool_inv d vs \<longleftrightarrow> ring_ok d \<and> (\<exists>fds ls. map snd vs = pool_clients fds ls \<and> shared_out fds ls (ring d)) \<and>
     list_all (\<lambda>v. fst v = None \<or> fst v = Some Pool_get \<and> pool_may (snd v) Pool_get) vs"

lemma mset_concat_update: "j < length ls \<Longrightarrow> mset (concat (ls[j := ls ! j @ [x]])) = add_mset x (mset (concat ls))"
  by (induction ls arbitrary: j) (auto split: nat.splits)

lemma shared_out_put: "shared_out fds ls q \<Longrightarrow> shared_out (fds @ [fd]) ls (q @ [fd])"
  by (auto simp: shared_out_def)

lemma shared_out_get:
  assumes "shared_out fds ls (fd # q)" and j: "j < length ls"
  shows "shared_out fds (ls[j := ls ! j @ [fd]]) q"
proof -
  obtain xs where xs: "fds = xs @ fd # q" "mset xs = mset (concat ls)" "list_all (\<lambda>l. subseq l xs) ls"
    using assms(1) by (auto simp: shared_out_def)
  have "subseq l (xs @ [fd])" if "l \<in> set (ls[j := ls ! j @ [fd]])" for l
    using that set_update_subset_insert [of ls j "ls ! j @ [fd]"] xs(3) j
    by (force simp: list_all_iff intro: list_emb_append_mono subseq_append' list_emb_append2)
  then show ?thesis using xs mset_concat_update [OF j] unfolding shared_out_def
    by (intro exI [of _ "xs @ [fd]"]) (auto simp: list_all_iff)
qed

lemma pool_inv_finish:
  assumes inv: "pool_inv d vs" and i: "i < length vs" "vs ! i = (x, c)" and may: "pool_may c op"
    and fin: "pool_enter op st d = Finish d' ws r"
  shows "pool_inv d' (vs[i := (None, pool_note c op r)])"
proof -
  obtain fds ls where ok: "ring_ok d" and cl: "map snd vs = pool_clients fds ls" and out: "shared_out fds ls (ring d)"
    using inv by (auto simp: pool_inv_def)
  have c: "pool_clients fds ls ! i = c" using i cl nth_map [of i vs snd] by simp
  have "length (map snd vs) = length (pool_clients fds ls)" by (simp only: cl)
  then have len: "length vs = Suc (length ls)" by (simp add: pool_clients_def)
  have upd: "list_all (\<lambda>v. fst v = None \<or> fst v = Some Pool_get \<and> pool_may (snd v) Pool_get) (vs[i := (None, c')])" for c'
    using inv set_update_subset_insert [of vs i "(None, c')"] by (fastforce simp: pool_inv_def list_all_iff)
  show ?thesis
  proof (cases op)
    case (Pool_put fd)
    then obtain a where a: "c = Acceptor a" using may by (cases c) auto
    then have "i = 0" using c i(1) len by (cases i) (auto simp: pool_clients_def)
    then have "map snd (vs[i := (None, pool_note c op r)]) = pool_clients (fds @ [fd]) ls"
      using c a cl Pool_put by (simp add: map_update pool_clients_def)
    moreover have "ring_ok d' \<and> ring d' = ring d @ [fd]" using fin Pool_put pool_put_spec(2) [OF ok] by simp
    ultimately show ?thesis using shared_out_put [OF out] upd by (auto simp: pool_inv_def)
  next
    case Pool_get
    then obtain n l where a: "c = Worker n l" using may by (cases c) auto
    then obtain j where j: "i = Suc j" "j < length ls" using c i(1) len by (cases i) (auto simp: pool_clients_def)
    then have l: "n = int (length (ls ! j))" "l = ls ! j" using c a by (auto simp: pool_clients_def)
    obtain fd q where q: "ring d = fd # q"
      using fin Pool_get pool_get_spec(1) [OF ok] by (cases "ring d") auto
    then have r: "r = fd" "ring_ok d'" "ring d' = q" using pool_get_spec(2) [OF ok q] fin Pool_get by auto
    have "map snd (vs[i := (None, pool_note c op r)]) = pool_clients fds (ls[j := ls ! j @ [fd]])"
      using cl l a Pool_get j r(1) by (simp add: map_update pool_clients_def add.commute)
    then show ?thesis using shared_out_get [of fds ls fd q j] out q j(2) r upd by (auto simp: pool_inv_def)
  qed
qed

lemma pool_enter_Sleep: "pool_enter op st d = Sleep d' cv \<Longrightarrow> op = Pool_get \<and> d' = d \<and> iget d = iput d"
  by (cases op) (auto simp: Let_def split: if_splits)

interpretation poolm: monitor_inv pool_code "{None}" pool_inv
proof
  fix d vs i c op st d' ws r cv
  assume inv: "pool_inv d vs" and i: "i < length vs"
  show "pool_inv d' (vs[i := (None, note_ret pool_code c op r)])"
    if "vs ! i = (None, c)" "may_call pool_code c op" "enter pool_code op st d = Finish d' ws r"
    using pool_inv_finish [OF inv i that(1)] that by (simp add: pool_code_def)
  show "pool_inv d' (vs[i := (Some op, c)])"
    if "vs ! i = (None, c)" "may_call pool_code c op" "enter pool_code op st d = Sleep d' cv"
  proof -
    have op: "op = Pool_get" "d' = d" "pool_may c Pool_get"
      using that pool_enter_Sleep [of op st d d' cv] by (auto simp: pool_code_def)
    have "map snd (vs[i := (Some op, c)]) = map snd vs" using i that(1) by (metis list_update_id map_update snd_conv)
    then show ?thesis using inv op set_update_subset_insert [of vs i "(Some op, c)"] by (fastforce simp: pool_inv_def list_all_iff)
  qed
  show "pool_inv d' (vs[i := (None, note_ret pool_code c op r)])"
    if "vs ! i = (Some op, c)" "resume pool_code op st d = Finish d' ws r"
  proof -
    have "pool_may c op" using inv i that(1) by (auto simp: pool_inv_def list_all_length dest!: spec [of _ i])
    then show ?thesis using pool_inv_finish [OF inv i that(1)] that by (simp add: pool_code_def)
  qed
  show "pool_inv d' vs" if "resume pool_code op st d = Sleep d' cv"
    using inv pool_enter_Sleep [of op st d d' cv] that by (simp add: pool_code_def)
qed (simp add: pool_code_def)

lemma pool_inv_start: "pool_inv (m_data (serv08_start n)) (map view (m_thr (serv08_start n)))"
proof -
  have "map snd (map view (m_thr (serv08_start n))) = pool_clients [] (replicate n [])"
    by (simp add: serv08_start_def pool_clients_def)
  moreover have "ring (m_data (serv08_start n)) = []" "ring_ok (m_data (serv08_start n))"
    by (simp_all add: serv08_start_def clients_start_def ring_def ring_len_def ring_ok_def MAXNCLI_def)
  moreover have "shared_out [] (replicate n []) []" by (auto simp: shared_out_def list_all_iff)
  ultimately show ?thesis by (auto simp: pool_inv_def list_all_iff serv08_start_def)
qed

section \<open>No lost wake-up\<close>

text \<open>While a thread sleeps, there is a woken thread for every connection in the array.\<close>

definition wake_ok :: "(clients, pool_op, unit, pool_client) mon \<Rightarrow> bool" where
  "wake_ok s \<longleftrightarrow> list_ex (asleep_on ()) (m_thr s) \<longrightarrow> int (length (ring (m_data s))) \<le> cnt is_woken (m_thr s)"

lemma asleep_not_woken: "asleep_on cv t \<Longrightarrow> \<not> is_woken t \<and> is_woken (rouse t)"
  by (auto split: pc.splits)

lemma cnt_rouse: "j < length ts \<Longrightarrow> asleep_on cv (ts ! j) \<Longrightarrow> cnt is_woken (ts[j := rouse (ts ! j)]) = cnt is_woken ts + 1"
  using asleep_not_woken [of cv "ts ! j"] by (simp add: cnt_update del: asleep_on.simps is_woken.simps rouse.simps)

lemma list_ex_update: "list_ex P (xs[i := x]) \<Longrightarrow> \<not> P x \<Longrightarrow> list_ex P xs"
  using set_update_subset_insert [of xs i x] by (fastforce simp: list_ex_iff)

text \<open>A thread that leaves the monitor: the others are as they were.\<close>

lemma leave_asleep: "list_ex (asleep_on ()) (ts[i := \<lparr>th_pc = Outside, th_cli = c\<rparr>]) \<Longrightarrow> list_ex (asleep_on ()) ts"
  by (erule list_ex_update) (simp split: pc.splits)

lemma wake_finish:
  assumes ok: "ring_ok d" and w: "wake_ok \<lparr>m_data = d, m_thr = ts\<rparr>" and i: "i < length ts"
    and p: "th_pc (ts ! i) = Outside \<or> th_pc (ts ! i) = Woken Pool_get \<and> op = Pool_get"
    and fin: "pool_enter op st d = Finish d' ws r"
    and del: "deliver ws (ts[i := \<lparr>th_pc = Outside, th_cli = c\<rparr>]) ts'"
  shows "wake_ok \<lparr>m_data = d', m_thr = ts'\<rparr>"
proof -
  let ?ts = "ts[i := \<lparr>th_pc = Outside, th_cli = c\<rparr>]"
  have n: "cnt is_woken ?ts = cnt is_woken ts - (if th_pc (ts ! i) = Outside then 0 else 1)"
    using i p by (auto simp: cnt_update)
  show ?thesis
  proof (cases op)
    case (Pool_put fd)
    then have ring: "ring d' = ring d @ [fd]" and ws: "ws = [Signal ()]" and out: "th_pc (ts ! i) = Outside"
      using fin pool_put_spec(2) [OF ok] p by auto
    from del [unfolded ws] show ?thesis
    proof cases
      case (deliver_signal j)
      then have "ts' = ?ts[j := rouse (?ts ! j)]" by (auto elim: deliver.cases)
      moreover have "list_ex (asleep_on ()) ts"
        using deliver_signal by (intro leave_asleep [of ts i c]) (auto simp: list_ex_length simp del: asleep_on.simps)
      ultimately show ?thesis using w n out cnt_rouse [of j ?ts "()"] deliver_signal(1,2) ring by (simp add: wake_ok_def)
    next
      case deliver_lost
      then have "ts' = ?ts" by (auto elim: deliver.cases)
      then show ?thesis using deliver_lost by (simp add: wake_ok_def del: asleep_on.simps)
    qed
  next
    case Pool_get
    obtain fd q where q: "ring d = fd # q" using fin Pool_get pool_get_spec(1) [OF ok] by (cases "ring d") auto
    then have "ws = []" "ring d' = q" using pool_get_spec(2) [OF ok q] fin Pool_get by auto
    moreover from this del have "ts' = ?ts" by (auto elim: deliver.cases)
    ultimately show ?thesis using w n q leave_asleep [of ts i c] by (auto simp: wake_ok_def simp del: asleep_on.simps)
  qed
qed

lemma wake_sleep: "ring_ok d \<Longrightarrow> iget d = iput d \<Longrightarrow> wake_ok \<lparr>m_data = d, m_thr = ts\<rparr>"
  using ring_len_0 [of d] by (simp add: wake_ok_def)

lemma wake_step:
  assumes "mstep pool_code {None} s t" and "pool_inv (m_data s) (map view (m_thr s))" and "wake_ok s"
  shows "wake_ok t"
  using assms
proof (induction rule: mstep.induct)
  case (call_finish i ts op st d d' ws r ts')
  then show ?case by (auto simp: pool_code_def pool_inv_def intro!: wake_finish [of d ts i op st d' ws r])
next
  case (resume_finish i ts op st d d' ws r ts')
  have "op = Pool_get"
    using resume_finish(1,2,6) by (auto simp: pool_inv_def list_all_length view_def inside_def dest!: spec [of _ i])
  then show ?case using resume_finish by (auto simp: pool_code_def pool_inv_def intro!: wake_finish [of d ts i op st d' ws r])
next
  case (call_sleep i ts op st d d' cv)
  then show ?case using pool_enter_Sleep [of op st d d' cv] by (auto simp: pool_code_def pool_inv_def intro: wake_sleep)
next
  case (resume_sleep i ts op st d d' cv)
  then show ?case using pool_enter_Sleep [of op st d d' cv] by (auto simp: pool_code_def pool_inv_def intro: wake_sleep)
next
  case (spurious i ts cv d)
  have "list_ex (asleep_on ()) ts" using spurious(1,2) by (auto simp: list_ex_length simp del: asleep_on.simps)
  then show ?case using spurious cnt_rouse [of i ts cv] by (simp add: wake_ok_def del: asleep_on.simps rouse.simps is_woken.simps)
next
  case (cancel i ts op cv d)
  then show ?case by (simp add: pool_code_def)
qed

lemma serv08_inv: "serv08 (serv08_start n) s \<Longrightarrow> pool_inv (m_data s) (map view (m_thr s))"
  by (rule poolm.reach_inv [OF _ pool_inv_start])

lemma serv08_wake: "serv08 (serv08_start n) s \<Longrightarrow> wake_ok s"
proof (induction rule: mreach.induct)
  case reach_start
  then show ?case by (simp add: wake_ok_def serv08_start_def list_ex_iff)
next
  case (reach_step s t)
  then show ?case using wake_step serv08_inv by blast
qed

section \<open>The server\<close>

text \<open>
  C22: In every state that the server can reach, the connections accepted are those that have
  left the array followed by those in it; the former are shared out among the threads, each to
  exactly one, every thread serves its own in the order of acceptance, and its counter says
  how many they are.
\<close>

theorem serv08_serves:
  assumes "serv08 (serv08_start nthreads) s"
  shows "\<exists>fds ls xs. map th_cli (m_thr s) = Acceptor fds # map (\<lambda>l. Worker (int (length l)) l) ls \<and>
    fds = xs @ ring (m_data s) \<and> mset xs = mset (concat ls) \<and> list_all (\<lambda>l. subseq l xs) ls \<and>
    length (ring (m_data s)) < MAXNCLI"
proof -
  have ok: "ring_ok (m_data s)" and inv: "pool_inv (m_data s) (map view (m_thr s))"
    using serv08_inv [OF assms] by (simp_all add: pool_inv_def)
  obtain fds ls xs where cl: "map snd (map view (m_thr s)) = pool_clients fds ls"
    and xs: "fds = xs @ ring (m_data s)" "mset xs = mset (concat ls)" "list_all (\<lambda>l. subseq l xs) ls"
    using inv unfolding pool_inv_def shared_out_def by blast
  have "map snd (map view (m_thr s)) = map th_cli (m_thr s)" by (simp add: view_def)
  with cl have "map th_cli (m_thr s) = Acceptor fds # map (\<lambda>l. Worker (int (length l)) l) ls" by (simp only: pool_clients_def)
  moreover have "length (ring (m_data s)) < MAXNCLI" using ring_len_bound [OF ok] by simp
  ultimately show ?thesis using xs by (intro exI conjI)
qed

text \<open>
  C23: No connection waits in the array while all threads sleep: as long as some thread is
  asleep, at least as many threads have been woken as there are connections in the array.
\<close>

theorem serv08_wakes:
  assumes "serv08 (serv08_start nthreads) s" and "t \<in> set (m_thr s)" and "th_pc t = Asleep op cv"
  shows "int (length (ring (m_data s))) \<le> cnt (\<lambda>t. \<exists>op. th_pc t = Woken op) (m_thr s)"
proof -
  have "list_ex (asleep_on ()) (m_thr s)" using assms(2,3) by (auto simp: list_ex_iff intro!: bexI [of _ t])
  then have "int (length (ring (m_data s))) \<le> cnt is_woken (m_thr s)"
    using serv08_wake [OF assms(1)] unfolding wake_ok_def by (rule rev_mp)
  also have "cnt is_woken (m_thr s) = cnt (\<lambda>t. \<exists>op. th_pc t = Woken op) (m_thr s)"
    by (rule cnt_cong) (auto split: pc.splits)
  finally show ?thesis .
qed

text \<open>
  A run: both threads of the pool find the array empty and sleep, and the main thread accepts
  the connection with descriptor 7.
\<close>

definition pool_at :: "clients \<Rightarrow> (pool_op, unit) pc list \<Rightarrow> int list \<Rightarrow> (clients, pool_op, unit, pool_client) mon" where
  "pool_at d ps fds = \<lparr>m_data = d, m_thr = \<lparr>th_pc = Outside, th_cli = Acceptor fds\<rparr> #
     map (\<lambda>p. \<lparr>th_pc = p, th_cli = Worker 0 []\<rparr>) ps\<rparr>"

definition clients_7 :: clients where
  "clients_7 = clients_start\<lparr>clifd := (clifd clients_start)[0 := 7], iput := 1\<rparr>"

lemma serv08_run: "serv08 (serv08_start 2) (pool_at clients_7 [Woken Pool_get, Asleep Pool_get ()] [7])"
proof -
  let ?s = "\<lambda>ps. pool_at clients_start ps []"
  have s0: "serv08_start 2 = ?s [Outside, Outside]" by (simp add: serv08_start_def pool_at_def numeral_2_eq_2)
  have s1: "mstep pool_code {None} (?s [Outside, Outside]) (?s [Asleep Pool_get (), Outside])"
    using call_sleep [of 1 "m_thr (?s [Outside, Outside])" pool_code Pool_get None "{None}" clients_start clients_start "()"]
    by (simp add: pool_at_def pool_code_def clients_start_def)
  have s2: "mstep pool_code {None} (?s [Asleep Pool_get (), Outside]) (?s [Asleep Pool_get (), Asleep Pool_get ()])"
    using call_sleep [of 2 "m_thr (?s [Asleep Pool_get (), Outside])" pool_code Pool_get None "{None}" clients_start clients_start "()"]
    by (simp add: pool_at_def pool_code_def clients_start_def numeral_2_eq_2)
  let ?ts = "m_thr (pool_at clients_7 [Asleep Pool_get (), Asleep Pool_get ()] [7])"
  let ?us = "m_thr (pool_at clients_7 [Woken Pool_get, Asleep Pool_get ()] [7])"
  have "deliver [Signal ()] ?ts ?us"
    using deliver_signal [of 1 ?ts "()" "[]" ?us] deliver_none [of ?us] by (simp add: pool_at_def)
  then have s3: "mstep pool_code {None} (?s [Asleep Pool_get (), Asleep Pool_get ()])
      (pool_at clients_7 [Woken Pool_get, Asleep Pool_get ()] [7])"
    using call_finish [of 0 "m_thr (?s [Asleep Pool_get (), Asleep Pool_get ()])" pool_code "Pool_put 7" None "{None}" clients_start
        clients_7 "[Signal ()]" 0 ?us]
    by (simp add: pool_at_def pool_code_def clients_start_def clients_7_def next_index_def MAXNCLI_def)
  show ?thesis unfolding s0 using s1 s2 s3 by (meson reach_start reach_step)
qed

theorem serv08_serves_witness:
  "length (ring clients_7) = 1 \<and>
    (\<exists>xs ls. [7] = xs @ ring clients_7 \<and> mset xs = mset (concat ls) \<and> map (\<lambda>l. Worker (int (length l)) l) ls = [Worker 0 [], Worker 0 []])"
proof -
  have "length (ring clients_7) = 1" by (simp add: clients_7_def clients_start_def ring_len_def)
  moreover have "\<exists>xs ls. [7] = xs @ ring clients_7 \<and> mset xs = mset (concat ls) \<and>
      map (\<lambda>l. Worker (int (length l)) l) ls = [Worker 0 [], Worker 0 []]"
    using serv08_serves [OF serv08_run]
    by (simp add: pool_at_def) (elim exE conjE, intro exI conjI, assumption+, rule sym, assumption)
  ultimately show ?thesis by (rule conjI)
qed

theorem serv08_wakes_witness:
  "int (length (ring clients_7)) \<le>
    cnt (\<lambda>t. \<exists>op. th_pc t = Woken op) (m_thr (pool_at clients_7 [Woken Pool_get, Asleep Pool_get ()] [7]))"
  using serv08_wakes [OF serv08_run, of "\<lparr>th_pc = Asleep Pool_get (), th_cli = Worker 0 []\<rparr>" Pool_get "()"]
  by (simp add: pool_at_def)

end
