(* ===== verification/Seqnum.thy ===== *)
theory Seqnum
  imports Inet
begin

text \<open>
  The sequence-number programs (\<open>RecordLock/RecordLockingFcntl.c\<close>, \<open>RecordLockingNone.c\<close>,
  \<open>Semaphore/RecordLockingSem.c\<close>, and \<open>lock/lockmain.c\<close> with its locks): processes read a number
  from a file, print it, and write the next one back. They lock the file with a record lock,
  with a file that is created exclusively, with a System V semaphore, or not at all.

  Every system call is one step of one process. A process has its own descriptor, with its own
  offset in the file; a read or write of the file is not interrupted and transfers everything.
  The numbers are integers without a bound, and the theorems assume that they fit into a \<open>long\<close>.
\<close>

section \<open>Processes and what they share\<close>

definition MAXLINE_ipc :: nat where "MAXLINE_ipc = 4096"

datatype lockkind = L_none | L_record | L_file | L_sem

datatype seqpc =
    Q_for | Q_lock | Q_set | Q_stat | Q_down
  | Q_seek | Q_read | Q_scan | Q_print | Q_incr | Q_format | Q_rewind | Q_write | Q_unlock
  | Q_end | Q_overrun

record seqproc =
  q_kind :: lockkind
  q_pc :: seqpc
  q_i :: int
  q_off :: nat
  q_line :: string
  q_seq :: int
  q_init :: bool

text \<open>
  The file, the process with the record lock, whether the lock file exists, the semaphore with
  its value and whether its \<open>sem_otime\<close> is set, and the numbers printed, with the process.
\<close>

record seqstate =
  seqfile :: string
  record_lock :: "nat option"
  lock_file :: bool
  svsem :: "(int \<times> bool) option"
  q_out :: "(nat \<times> int) list"
  q_procs :: "seqproc list"

definition seq_start :: "lockkind list \<Rightarrow> string \<Rightarrow> seqstate" where
  "seq_start kinds f = \<lparr>seqfile = f, record_lock = None, lock_file = False, svsem = None, q_out = [],
     q_procs = map (\<lambda>k. \<lparr>q_kind = k, q_pc = Q_for, q_i = 0, q_off = 0, q_line = [], q_seq = 0, q_init = False\<rparr>) kinds\<rparr>"

section \<open>Numbers as texts\<close>

definition nl :: char where "nl = CHR 0x0A"

text \<open>\<open>snprintf\<close> with \<open>%ld\<close> and a newline; \<open>sscanf\<close> with \<open>%ld\<close>, \<open>None\<close> if it stores nothing.\<close>

definition fmt_ld :: "int \<Rightarrow> string" where
  "fmt_ld i = (if i < 0 then CHR ''-'' # fmt_u (nat (- i)) else fmt_u (nat i))"

definition seq_text :: "int \<Rightarrow> string" where
  "seq_text i = take (MAXLINE_ipc - 1) (fmt_ld i @ [nl])"

definition is_space :: "char \<Rightarrow> bool" where
  "is_space c \<longleftrightarrow> c \<in> set [CHR '' '', CHR 0x09, CHR 0x0A, CHR 0x0B, CHR 0x0C, CHR 0x0D]"

definition scan_digits :: "string \<Rightarrow> int option" where
  "scan_digits s = (let ds = takeWhile (\<lambda>c. strchr digits c \<noteq> None) s in
     if ds = [] then None else Some (int (fold (\<lambda>c n. n * 10 + the (strchr digits c)) ds 0)))"

definition sscanf_ld :: "string \<Rightarrow> int option" where
  "sscanf_ld s =
    (case dropWhile is_space s of [] \<Rightarrow> None
     | c # r \<Rightarrow> if c = CHR ''-'' then map_option uminus (scan_digits r)
               else if c = CHR ''+'' then scan_digits r else scan_digits (c # r))"

section \<open>The file\<close>

definition file_read :: "nat \<Rightarrow> nat \<Rightarrow> string \<Rightarrow> string" where
  "file_read n off f = take n (drop off f)"

definition file_write :: "nat \<Rightarrow> string \<Rightarrow> string \<Rightarrow> string" where
  "file_write off t f = take off (f @ replicate (off - length f) (CHR 0x00)) @ t @ drop (off + length t) f"

section \<open>\<open>mylock\<close> and \<open>myunlock\<close>\<close>

definition set_proc :: "nat \<Rightarrow> seqproc \<Rightarrow> seqstate \<Rightarrow> seqstate" where
  "set_proc k p s = s\<lparr>q_procs := (q_procs s)[k := p]\<rparr>"

text \<open>
  \<open>fcntl\<close> with \<open>F_SETLKW\<close> waits while another process has the lock. The loops of \<open>lockopen.c\<close> and
  of \<open>RecordLockingSem.c\<close> try again: the state does not change. A new semaphore has the value 0,
  and \<open>semop\<close> sets its \<open>sem_otime\<close>.
\<close>

fun lock_step :: "nat \<Rightarrow> seqproc \<Rightarrow> seqstate \<Rightarrow> seqstate option" where
  "lock_step k p s =
    (case q_kind p of
       L_none \<Rightarrow> Some (set_proc k (p\<lparr>q_pc := Q_seek\<rparr>) s)
     | L_record \<Rightarrow>
         (case record_lock s of None \<Rightarrow> Some (set_proc k (p\<lparr>q_pc := Q_seek\<rparr>) (s\<lparr>record_lock := Some k\<rparr>)) | Some j \<Rightarrow> None)
     | L_file \<Rightarrow> if lock_file s then Some s else Some (set_proc k (p\<lparr>q_pc := Q_seek\<rparr>) (s\<lparr>lock_file := True\<rparr>))
     | L_sem \<Rightarrow>
         if q_init p then Some (set_proc k (p\<lparr>q_pc := Q_down\<rparr>) s)
         else case svsem s of
             None \<Rightarrow> Some (set_proc k (p\<lparr>q_pc := Q_set\<rparr>) (s\<lparr>svsem := Some (0, False)\<rparr>))
           | Some x \<Rightarrow> Some (set_proc k (p\<lparr>q_pc := Q_stat\<rparr>) s))"

fun sem_step :: "nat \<Rightarrow> seqproc \<Rightarrow> seqstate \<Rightarrow> seqstate option" where
  "sem_step k p s =
    (case svsem s of None \<Rightarrow> None
     | Some (v, used) \<Rightarrow>
        (case q_pc p of
           Q_set \<Rightarrow> Some (set_proc k (p\<lparr>q_init := True, q_pc := Q_down\<rparr>) (s\<lparr>svsem := Some (1, used)\<rparr>))
         | Q_stat \<Rightarrow> if used then Some (set_proc k (p\<lparr>q_init := True, q_pc := Q_down\<rparr>) s) else Some s
         | Q_down \<Rightarrow> if 0 < v then Some (set_proc k (p\<lparr>q_pc := Q_seek\<rparr>) (s\<lparr>svsem := Some (v - 1, True)\<rparr>)) else None
         | _ \<Rightarrow> None))"

fun unlock :: "lockkind \<Rightarrow> seqstate \<Rightarrow> seqstate" where
  "unlock L_none s = s"
| "unlock L_record s = s\<lparr>record_lock := None\<rparr>"
| "unlock L_file s = s\<lparr>lock_file := False\<rparr>"
| "unlock L_sem s = s\<lparr>svsem := map_option (\<lambda>(v, used). (v + 1, True)) (svsem s)\<rparr>"

section \<open>\<open>main\<close>\<close>

text \<open>
  \<open>bufsz\<close> is the size of the array that \<open>read\<close> fills and the loop then terminates with a null
  byte: \<open>MAXLINE + 1\<close> in \<open>lockmain.c\<close>, \<open>MAXLINE\<close> in the programs of \<open>RecordLock\<close> and \<open>Semaphore\<close>.
\<close>

fun work_step :: "nat \<Rightarrow> nat \<Rightarrow> seqproc \<Rightarrow> seqstate \<Rightarrow> seqstate option" where
  "work_step bufsz k p s =
    (case q_pc p of
       Q_seek \<Rightarrow> Some (set_proc k (p\<lparr>q_off := 0, q_pc := Q_read\<rparr>) s)
     | Q_read \<Rightarrow>
         (let t = file_read MAXLINE_ipc (q_off p) (seqfile s)
          in Some (set_proc k (p\<lparr>q_line := t, q_off := q_off p + length t, q_pc := if length t < bufsz then Q_scan else Q_overrun\<rparr>) s))
     | Q_scan \<Rightarrow> Some (set_proc k (p\<lparr>q_seq := (case sscanf_ld (q_line p) of None \<Rightarrow> q_seq p | Some v \<Rightarrow> v), q_pc := Q_print\<rparr>) s)
     | Q_print \<Rightarrow> Some (set_proc k (p\<lparr>q_pc := Q_incr\<rparr>) (s\<lparr>q_out := q_out s @ [(k, q_seq p)]\<rparr>))
     | Q_incr \<Rightarrow> Some (set_proc k (p\<lparr>q_seq := q_seq p + 1, q_pc := Q_format\<rparr>) s)
     | Q_format \<Rightarrow> Some (set_proc k (p\<lparr>q_line := seq_text (q_seq p), q_pc := Q_rewind\<rparr>) s)
     | Q_rewind \<Rightarrow> Some (set_proc k (p\<lparr>q_off := 0, q_pc := Q_write\<rparr>) s)
     | Q_write \<Rightarrow> Some (set_proc k (p\<lparr>q_off := q_off p + length (q_line p), q_pc := Q_unlock\<rparr>)
           (s\<lparr>seqfile := file_write (q_off p) (q_line p) (seqfile s)\<rparr>))
     | Q_unlock \<Rightarrow> Some (set_proc k (p\<lparr>q_i := q_i p + 1, q_pc := Q_for\<rparr>) (unlock (q_kind p) s))
     | _ \<Rightarrow> None)"

fun seq_step :: "nat \<Rightarrow> int \<Rightarrow> nat \<Rightarrow> seqstate \<Rightarrow> seqstate option" where
  "seq_step bufsz cycletimes k s =
    (let p = q_procs s ! k in
     case q_pc p of
       Q_for \<Rightarrow> Some (set_proc k (p\<lparr>q_pc := if q_i p < cycletimes then Q_lock else Q_end\<rparr>) s)
     | Q_lock \<Rightarrow> lock_step k p s
     | Q_set \<Rightarrow> sem_step k p s
     | Q_stat \<Rightarrow> sem_step k p s
     | Q_down \<Rightarrow> sem_step k p s
     | _ \<Rightarrow> work_step bufsz k p s)"

inductive seq_run :: "nat \<Rightarrow> int \<Rightarrow> seqstate \<Rightarrow> seqstate \<Rightarrow> bool" for bufsz cycletimes where
  seq_moves: "k < length (q_procs s) \<Longrightarrow> seq_step bufsz cycletimes k s = Some s' \<Longrightarrow> seq_run bufsz cycletimes s s'"

text \<open>A run with a given order of the processes.\<close>

fun run_seq :: "nat \<Rightarrow> int \<Rightarrow> nat list \<Rightarrow> seqstate \<Rightarrow> seqstate option" where
  "run_seq bufsz cycletimes [] s = Some s"
| "run_seq bufsz cycletimes (k # ks) s =
    (if k < length (q_procs s) then case seq_step bufsz cycletimes k s of None \<Rightarrow> None | Some s' \<Rightarrow> run_seq bufsz cycletimes ks s' else None)"

end
