(* ===== verification/Seqnum_Inv.thy ===== *)
theory Seqnum_Inv
  imports Seqnum Inet6
begin

text \<open>
  The sequence-number programs over any lock: numbers as texts and back, what the process in the
  critical region knows, and the locale \<open>exclusive_lock\<close> with what the programs need of a lock.
\<close>

section \<open>Numbers as texts\<close>

lemma length_fmt_u_mono: "n \<le> m \<Longrightarrow> length (fmt_u n) \<le> length (fmt_u m)"
proof (induction "10 :: nat" m arbitrary: n rule: print_base.induct)
  case (1 m)
  have one: "length (fmt_u k) = (if k < 10 then 1 else Suc (length (fmt_u (k div 10))))" for k
    by (subst print_base.simps) simp
  show ?case
  proof (cases "m < 10")
    case True
    then show ?thesis using 1(2) by (simp add: one)
  next
    case False
    then show ?thesis using 1 one [of n] one [of m] by (simp add: div_le_mono)
  qed
qed

definition is_long :: "int \<Rightarrow> bool" where
  "is_long v \<longleftrightarrow> 0 \<le> v \<and> v < 2 ^ 63"

lemma length_long: "is_long v \<Longrightarrow> length (fmt_u (nat v)) \<le> 19"
  using length_print_base [of 10 "nat v" 18] by (simp add: is_long_def nat_less_iff)

lemma seq_text_long: "is_long v \<Longrightarrow> seq_text v = fmt_u (nat v) @ [nl]"
  using length_long [of v] by (simp add: seq_text_def fmt_ld_def is_long_def MAXLINE_ipc_def)

lemma digit_not_space: "strchr digits c \<noteq> None \<Longrightarrow> \<not> is_space c \<and> c \<noteq> CHR ''-'' \<and> c \<noteq> CHR ''+''"
  by (auto simp: is_space_def strchr_def digits_def)

lemma sscanf_text:
  assumes "is_long v"
  shows "sscanf_ld (seq_text v) = Some v"
proof -
  have dec: "is_dec (fmt_u (nat v))" "dec_from 0 (fmt_u (nat v)) = nat v" using fmt_u_dec by simp_all
  obtain c cs where c: "fmt_u (nat v) = c # cs" by (cases "fmt_u (nat v)") auto
  have "strchr digits nl = None" by code_simp
  then have "takeWhile (\<lambda>c. strchr digits c \<noteq> None) (fmt_u (nat v) @ [nl]) = fmt_u (nat v)"
    using dec(1) by (simp add: is_dec_def list_all_iff takeWhile_append2)
  then have "scan_digits (fmt_u (nat v) @ [nl]) = Some v"
    using dec(2) c assms by (simp add: scan_digits_def dec_from_def is_long_def)
  then show ?thesis
    using c digit_not_space [of c] dec(1) by (simp add: seq_text_long [OF assms] sscanf_ld_def)
qed

lemma rewrite_text:
  assumes "is_long v" and "is_long (v + 1)"
  shows "file_write 0 (seq_text (v + 1)) (seq_text v) = seq_text (v + 1)"
proof -
  have "length (fmt_u (nat v)) \<le> length (fmt_u (nat (v + 1)))" by (intro length_fmt_u_mono) simp
  then show ?thesis using assms by (simp add: file_write_def seq_text_long)
qed

lemma read_text: "is_long v \<Longrightarrow> file_read MAXLINE_ipc 0 (seq_text v) = seq_text v \<and> length (seq_text v) < MAXLINE_ipc"
  using length_long [of v] by (simp add: file_read_def seq_text_long MAXLINE_ipc_def)

section \<open>What the process in the critical region knows\<close>

definition crit :: "seqproc \<Rightarrow> bool" where
  "crit p \<longleftrightarrow> q_pc p \<in> {Q_seek, Q_read, Q_scan, Q_print, Q_incr, Q_format, Q_rewind, Q_write, Q_unlock}"

text \<open>It has printed the number and not yet written the next one.\<close>

definition mid :: "seqproc \<Rightarrow> bool" where
  "mid p \<longleftrightarrow> q_pc p \<in> {Q_incr, Q_format, Q_rewind, Q_write}"

definition done_of :: "seqproc \<Rightarrow> int" where
  "done_of p = q_i p + (if q_pc p = Q_unlock then 1 else 0)"

definition seq_val :: "int \<Rightarrow> seqstate \<Rightarrow> int" where
  "seq_val base s = base + sum_list (map done_of (q_procs s))"

definition phase_ok :: "int \<Rightarrow> seqproc \<Rightarrow> bool" where
  "phase_ok v p \<longleftrightarrow>
    (case q_pc p of Q_read \<Rightarrow> q_off p = 0 | Q_scan \<Rightarrow> q_line p = seq_text v | Q_print \<Rightarrow> q_seq p = v | Q_incr \<Rightarrow> q_seq p = v
     | Q_format \<Rightarrow> q_seq p = v + 1 | Q_rewind \<Rightarrow> q_line p = seq_text (v + 1)
     | Q_write \<Rightarrow> q_off p = 0 \<and> q_line p = seq_text (v + 1) | Q_overrun \<Rightarrow> False | _ \<Rightarrow> True)"

definition numbers :: "int \<Rightarrow> int \<Rightarrow> bool \<Rightarrow> int list" where
  "numbers base v m = [base..v - 1] @ (if m then [v] else [])"

definition seq_ok :: "int \<Rightarrow> seqstate \<Rightarrow> bool" where
  "seq_ok base s \<longleftrightarrow> seqfile s = seq_text (seq_val base s) \<and> list_all (phase_ok (seq_val base s)) (q_procs s) \<and>
     map snd (q_out s) = numbers base (seq_val base s) (list_ex mid (q_procs s))"

text \<open>How often a process has been through the loop.\<close>

definition turns_ok :: "int \<Rightarrow> seqproc \<Rightarrow> bool" where
  "turns_ok n p \<longleftrightarrow> 0 \<le> q_i p \<and> (case q_pc p of Q_for \<Rightarrow> q_i p \<le> n | Q_end \<Rightarrow> q_i p = n | _ \<Rightarrow> q_i p < n)"

lemma sum_update: "k < length xs \<Longrightarrow> sum_list (map f (xs[k := x])) = sum_list (map f xs) - f (xs ! k) + (f x :: int)"
  by (induction xs arbitrary: k) (auto split: nat.splits)

lemma turns_done: "turns_ok n p \<Longrightarrow> 0 \<le> done_of p \<and> done_of p \<le> n"
  by (auto simp: turns_ok_def done_of_def split: seqpc.splits)

lemma turns_busy: "turns_ok n p \<Longrightarrow> crit p \<Longrightarrow> q_pc p \<noteq> Q_unlock \<Longrightarrow> done_of p < n"
  by (auto simp: turns_ok_def done_of_def crit_def split: seqpc.splits)

lemma sum_bound: "list_all (turns_ok n) ps \<Longrightarrow> 0 \<le> sum_list (map done_of ps) \<and> sum_list (map done_of ps) \<le> n * int (length ps)"
  by (induction ps) (auto simp: algebra_simps dest!: turns_done)

lemma val_bound:
  assumes "list_all (turns_ok n) (q_procs s)"
  shows "base \<le> seq_val base s" and "seq_val base s \<le> base + n * int (length (q_procs s))"
    and "k < length (q_procs s) \<Longrightarrow> crit (q_procs s ! k) \<Longrightarrow> q_pc (q_procs s ! k) \<noteq> Q_unlock \<Longrightarrow>
      seq_val base s < base + n * int (length (q_procs s))"
proof -
  show "base \<le> seq_val base s" "seq_val base s \<le> base + n * int (length (q_procs s))"
    using sum_bound [OF assms] by (simp_all add: seq_val_def)
  assume k: "k < length (q_procs s)" "crit (q_procs s ! k)" "q_pc (q_procs s ! k) \<noteq> Q_unlock"
  let ?p = "q_procs s ! k"
  have t: "turns_ok n ?p" using assms k(1) by (simp add: list_all_length)
  let ?q = "\<lparr>q_kind = L_none, q_pc = Q_for, q_i = n, q_off = 0, q_line = [], q_seq = 0, q_init = False\<rparr>"
  have "0 \<le> n" using turns_done [OF t] by simp
  then have "list_all (turns_ok n) ((q_procs s)[k := ?q])"
    using assms set_update_subset_insert [of "q_procs s" k ?q] by (fastforce simp: list_all_iff turns_ok_def)
  then have "sum_list (map done_of ((q_procs s)[k := ?q])) \<le> n * int (length (q_procs s))" using sum_bound by fastforce
  then show "seq_val base s < base + n * int (length (q_procs s))"
    using turns_busy [OF t k(2,3)] k(1) by (simp add: sum_update seq_val_def done_of_def [of ?q])
qed

section \<open>Steps in the critical region and outside\<close>

definition alone :: "nat \<Rightarrow> seqstate \<Rightarrow> bool" where
  "alone k s \<longleftrightarrow> k < length (q_procs s) \<and> (\<forall>j < length (q_procs s). j \<noteq> k \<longrightarrow> \<not> crit (q_procs s ! j))"

lemma phase_outside: "\<not> crit p \<Longrightarrow> phase_ok v p \<Longrightarrow> phase_ok w p"
  by (auto simp: crit_def phase_ok_def split: seqpc.splits)

lemma alone_update:
  assumes "alone k s" and "list_all (phase_ok v) (q_procs s)"
  shows "list_all (phase_ok w) ((q_procs s)[k := p]) \<longleftrightarrow> phase_ok w p" and "list_ex mid ((q_procs s)[k := p]) \<longleftrightarrow> mid p"
proof -
  have k: "k < length (q_procs s)" and other: "j < length (q_procs s) \<Longrightarrow> j \<noteq> k \<Longrightarrow> \<not> crit (q_procs s ! j)" for j
    using assms(1) by (simp_all add: alone_def)
  have "j < length (q_procs s) \<Longrightarrow> j \<noteq> k \<Longrightarrow> phase_ok w (q_procs s ! j)" for j
    using other [of j] assms(2) phase_outside by (auto simp: list_all_length)
  then show "list_all (phase_ok w) ((q_procs s)[k := p]) \<longleftrightarrow> phase_ok w p"
    using k by (auto simp: list_all_length nth_list_update)
  have "\<not> mid q" if "\<not> crit q" for q using that by (auto simp: crit_def mid_def)
  then show "list_ex mid ((q_procs s)[k := p]) \<longleftrightarrow> mid p"
    using k other by (auto simp: list_ex_length nth_list_update)
qed

lemma alone_mid: "alone k s \<Longrightarrow> list_all (phase_ok v) (q_procs s) \<Longrightarrow> list_ex mid (q_procs s) \<longleftrightarrow> mid (q_procs s ! k)"
  using alone_update(2) [of k s v "q_procs s ! k"] by simp

text \<open>A step of the only process in the critical region.\<close>

lemma seq_ok_crit:
  assumes ok: "seq_ok base s" and al: "alone k s" and t: "q_procs t = (q_procs s)[k := p]"
    and v: "v = seq_val base s - done_of (q_procs s ! k) + done_of p"
    and new: "seqfile t = seq_text v" "phase_ok v p"
      "map snd (q_out s) = numbers base (seq_val base s) (mid (q_procs s ! k)) \<Longrightarrow> map snd (q_out t) = numbers base v (mid p)"
  shows "seq_ok base t"
proof -
  have ph: "list_all (phase_ok (seq_val base s)) (q_procs s)" using ok by (simp add: seq_ok_def)
  have "seq_val base t = v" using v al t by (simp add: seq_val_def alone_def sum_update)
  moreover have "map snd (q_out t) = numbers base v (mid p)"
    using ok alone_mid [OF al ph] by (intro new(3)) (simp add: seq_ok_def)
  ultimately show ?thesis using new(1,2) t alone_update [OF al ph] by (simp add: seq_ok_def)
qed

text \<open>A step outside.\<close>

lemma seq_ok_outside:
  assumes ok: "seq_ok base s" and k: "k < length (q_procs s)" and t: "q_procs t = (q_procs s)[k := p]"
    "seqfile t = seqfile s" "q_out t = q_out s"
    and p: "done_of p = done_of (q_procs s ! k)" "\<not> mid p" "\<not> mid (q_procs s ! k)" "\<And>v. phase_ok v p"
  shows "seq_ok base t"
proof -
  have "seq_val base t = seq_val base s" using t(1) k p(1) by (simp add: seq_val_def sum_update)
  moreover have "list_ex mid (q_procs t) = list_ex mid (q_procs s)"
    using t(1) k p(2,3) by (auto simp: list_ex_length nth_list_update)
  moreover have "list_all (phase_ok v) (q_procs t)" if "list_all (phase_ok v) (q_procs s)" for v
    using that t(1) k p(4) by (auto simp: list_all_length nth_list_update)
  ultimately show ?thesis using ok t(2,3) by (simp add: seq_ok_def)
qed

lemma numbers_next: "base \<le> v \<Longrightarrow> numbers base (v + 1) False = numbers base v True"
  by (simp add: numbers_def upto_rec2)

lemma unlock_same: "seqfile (unlock l s) = seqfile s" "q_out (unlock l s) = q_out s" "q_procs (unlock l s) = q_procs s"
  by (cases l; simp)+

lemma work_keeps:
  assumes ok: "seq_ok base s" and al: "alone k s" and p: "p = q_procs s ! k" and c: "crit p"
    and v: "is_long (seq_val base s)" "q_pc p \<noteq> Q_unlock \<Longrightarrow> is_long (seq_val base s + 1)" "base \<le> seq_val base s"
    and sz: "MAXLINE_ipc \<le> bufsz" and step: "work_step bufsz k p s = Some s'"
  shows "seq_ok base s'"
proof -
  let ?v = "seq_val base s"
  have ph: "phase_ok ?v p" and tx: "seqfile s = seq_text ?v"
    using ok al by (simp_all add: seq_ok_def alone_def p list_all_length)
  show ?thesis
  proof (cases "q_pc p")
    case Q_seek
    then show ?thesis using step tx
      by (intro seq_ok_crit [OF ok al, of _ "p\<lparr>q_off := 0, q_pc := Q_read\<rparr>" ?v])
        (auto simp: set_proc_def p done_of_def phase_ok_def mid_def)
  next
    case Q_read
    then have "s' = set_proc k (p\<lparr>q_line := seq_text ?v, q_off := length (seq_text ?v), q_pc := Q_scan\<rparr>) s"
      using step ph tx read_text [OF v(1)] sz by (auto simp: phase_ok_def Let_def)
    then show ?thesis using Q_read tx
      by (intro seq_ok_crit [OF ok al, of _ "p\<lparr>q_line := seq_text ?v, q_off := length (seq_text ?v), q_pc := Q_scan\<rparr>" ?v])
        (auto simp: set_proc_def p done_of_def phase_ok_def mid_def)
  next
    case Q_scan
    then have "s' = set_proc k (p\<lparr>q_seq := ?v, q_pc := Q_print\<rparr>) s"
      using step ph sscanf_text [OF v(1)] by (simp add: phase_ok_def)
    then show ?thesis using Q_scan tx
      by (intro seq_ok_crit [OF ok al, of _ "p\<lparr>q_seq := ?v, q_pc := Q_print\<rparr>" ?v])
        (auto simp: set_proc_def p done_of_def phase_ok_def mid_def)
  next
    case Q_print
    then have "s' = set_proc k (p\<lparr>q_pc := Q_incr\<rparr>) (s\<lparr>q_out := q_out s @ [(k, ?v)]\<rparr>)" using step ph by (simp add: phase_ok_def)
    then show ?thesis using Q_print tx ph
      by (intro seq_ok_crit [OF ok al, of _ "p\<lparr>q_pc := Q_incr\<rparr>" ?v])
        (auto simp: set_proc_def p done_of_def phase_ok_def mid_def numbers_def)
  next
    case Q_incr
    then show ?thesis using step tx ph
      by (intro seq_ok_crit [OF ok al, of _ "p\<lparr>q_seq := q_seq p + 1, q_pc := Q_format\<rparr>" ?v])
        (auto simp: set_proc_def p done_of_def phase_ok_def mid_def)
  next
    case Q_format
    then show ?thesis using step tx ph
      by (intro seq_ok_crit [OF ok al, of _ "p\<lparr>q_line := seq_text (q_seq p), q_pc := Q_rewind\<rparr>" ?v])
        (auto simp: set_proc_def p done_of_def phase_ok_def mid_def)
  next
    case Q_rewind
    then show ?thesis using step tx ph
      by (intro seq_ok_crit [OF ok al, of _ "p\<lparr>q_off := 0, q_pc := Q_write\<rparr>" ?v])
        (auto simp: set_proc_def p done_of_def phase_ok_def mid_def)
  next
    case Q_write
    let ?p = "p\<lparr>q_off := length (q_line p), q_pc := Q_unlock\<rparr>"
    have s': "s' = set_proc k ?p (s\<lparr>seqfile := seq_text (?v + 1)\<rparr>)"
      using Q_write step ph tx rewrite_text [OF v(1,2)] by (simp add: phase_ok_def)
    show ?thesis using Q_write numbers_next [OF v(3)] unfolding s'
      by (intro seq_ok_crit [OF ok al, of _ ?p "?v + 1"]) (auto simp: set_proc_def p done_of_def phase_ok_def mid_def)
  next
    case Q_unlock
    then show ?thesis using step tx
      by (intro seq_ok_crit [OF ok al, of _ "p\<lparr>q_i := q_i p + 1, q_pc := Q_for\<rparr>" ?v])
        (auto simp: set_proc_def p done_of_def phase_ok_def mid_def unlock_same)
  qed (use c in \<open>auto simp: crit_def\<close>)
qed

lemma step_crit: "crit (q_procs s ! k) \<Longrightarrow> seq_step bufsz n k s = work_step bufsz k (q_procs s ! k) s"
  by (cases "q_pc (q_procs s ! k)") (simp_all add: crit_def Let_def del: work_step.simps lock_step.simps sem_step.simps)

text \<open>A step changes one process, and not its kind; outside the critical region it changes its place only.\<close>

definition moved :: "int \<Rightarrow> seqproc \<Rightarrow> seqproc \<Rightarrow> bool" where
  "moved n p q \<longleftrightarrow> q_kind q = q_kind p \<and> q_i q = q_i p \<and>
     (q_pc p = Q_for \<and> q_pc q = (if q_i p < n then Q_lock else Q_end) \<or>
      q_pc p \<in> {Q_lock, Q_set, Q_stat, Q_down} \<and> q_pc q \<in> {Q_set, Q_stat, Q_down, Q_seek})"

lemma step_outside:
  assumes "\<not> crit (q_procs s ! k)" and "seq_step bufsz n k s = Some s'"
  shows "s' = s \<or> seqfile s' = seqfile s \<and> q_out s' = q_out s \<and>
    (\<exists>q. q_procs s' = (q_procs s)[k := q] \<and> moved n (q_procs s ! k) q)"
proof -
  let ?p = "q_procs s ! k"
  have shape: "?thesis" if "s' = set_proc k q t" "q_procs t = q_procs s" "seqfile t = seqfile s" "q_out t = q_out s" "moved n ?p q" for q t
    using that by (auto simp: set_proc_def)
  show ?thesis
  proof (cases "q_pc ?p")
    case Q_for
    then show ?thesis using assms(2)
      by (intro shape [of "?p\<lparr>q_pc := if q_i ?p < n then Q_lock else Q_end\<rparr>" s]) (auto simp: Let_def moved_def)
  next
    case Q_lock
    then have step: "lock_step k ?p s = Some s'" using assms(2) by (simp add: Let_def)
    show ?thesis
    proof (cases "q_kind ?p")
      case L_none
      then show ?thesis using step Q_lock by (intro shape [of "?p\<lparr>q_pc := Q_seek\<rparr>" s]) (simp_all add: moved_def)
    next
      case L_record
      then show ?thesis using step Q_lock
        by (intro shape [of "?p\<lparr>q_pc := Q_seek\<rparr>" "s\<lparr>record_lock := Some k\<rparr>"]) (simp_all add: moved_def split: option.splits)
    next
      case L_file
      then show ?thesis using step Q_lock shape [of "?p\<lparr>q_pc := Q_seek\<rparr>" "s\<lparr>lock_file := True\<rparr>"]
        by (cases "lock_file s") (simp_all add: moved_def)
    next
      case L_sem
      then show ?thesis using step Q_lock shape [of "?p\<lparr>q_pc := Q_down\<rparr>" s] shape [of "?p\<lparr>q_pc := Q_stat\<rparr>" s]
          shape [of "?p\<lparr>q_pc := Q_set\<rparr>" "s\<lparr>svsem := Some (0, False)\<rparr>"]
        by (cases "q_init ?p"; cases "svsem s") (simp_all add: moved_def)
    qed
  next
    case Q_set
    then have "sem_step k ?p s = Some s'" using assms(2) by (simp add: Let_def)
    then show ?thesis using Q_set shape [of "?p\<lparr>q_init := True, q_pc := Q_down\<rparr>" "s\<lparr>svsem := Some (1, snd (the (svsem s)))\<rparr>"]
      by (cases "svsem s") (auto simp: moved_def split: if_splits)
  next
    case Q_stat
    then have "sem_step k ?p s = Some s'" using assms(2) by (simp add: Let_def)
    then show ?thesis using Q_stat shape [of "?p\<lparr>q_init := True, q_pc := Q_down\<rparr>" s]
      by (cases "svsem s") (auto simp: moved_def split: if_splits)
  next
    case Q_down
    then have "sem_step k ?p s = Some s'" using assms(2) by (simp add: Let_def)
    then show ?thesis using Q_down shape [of "?p\<lparr>q_pc := Q_seek\<rparr>" "s\<lparr>svsem := Some (fst (the (svsem s)) - 1, True)\<rparr>"]
      by (cases "svsem s") (auto simp: moved_def split: if_splits)
  qed (use assms in \<open>auto simp: crit_def Let_def\<close>)
qed

text \<open>A step in the critical region: the process stays there, or leaves it after another turn.\<close>

definition worked :: "seqproc \<Rightarrow> seqproc \<Rightarrow> bool" where
  "worked p q \<longleftrightarrow> q_kind q = q_kind p \<and> (crit q \<and> q_i q = q_i p \<and> q_pc p \<noteq> Q_unlock \<or> q_pc q = Q_overrun \<and> q_pc p = Q_read \<and> q_i q = q_i p \<or>
     q_pc p = Q_unlock \<and> q_pc q = Q_for \<and> q_i q = q_i p + 1)"

lemma set_proc_ex: "q_procs t = ps \<Longrightarrow> C q \<Longrightarrow> \<exists>q'. q_procs (set_proc k q t) = ps[k := q'] \<and> C q'"
  by (auto simp: set_proc_def)

lemma step_work:
  assumes c: "crit (q_procs s ! k)" and step: "seq_step bufsz n k s = Some s'"
  shows "\<exists>q. q_procs s' = (q_procs s)[k := q] \<and> worked (q_procs s ! k) q"
  using step [unfolded step_crit [OF c]] c
  by (cases "q_pc (q_procs s ! k)")
    (auto simp: Let_def intro!: set_proc_ex split: if_splits, simp_all add: worked_def crit_def unlock_same)

lemma moved_turns: "moved n p q \<Longrightarrow> turns_ok n p \<Longrightarrow> turns_ok n q"
  by (cases "q_pc p"; cases "q_pc q") (auto simp: moved_def turns_ok_def split: if_splits)

lemma worked_turns: "worked p q \<Longrightarrow> crit p \<Longrightarrow> turns_ok n p \<Longrightarrow> turns_ok n q"
  by (cases "q_pc p"; cases "q_pc q") (auto simp: worked_def turns_ok_def crit_def split: if_splits)

lemma step_procs:
  assumes "seq_step bufsz n k s = Some s'" and k: "k < length (q_procs s)"
  shows "q_procs s' = q_procs s \<or>
    (\<exists>q. q_procs s' = (q_procs s)[k := q] \<and> q_kind q = q_kind (q_procs s ! k) \<and> (turns_ok n (q_procs s ! k) \<longrightarrow> turns_ok n q))"
proof (cases "crit (q_procs s ! k)")
  case True
  then obtain q where "q_procs s' = (q_procs s)[k := q]" "worked (q_procs s ! k) q" using step_work assms(1) by blast
  moreover from this have "q_kind q = q_kind (q_procs s ! k)" by (simp add: worked_def)
  ultimately show ?thesis using worked_turns True by blast
next
  case False
  then consider "s' = s" | q where "q_procs s' = (q_procs s)[k := q]" "moved n (q_procs s ! k) q"
    using step_outside assms(1) by blast
  then show ?thesis
  proof cases
    case (2 q)
    moreover from this have "q_kind q = q_kind (q_procs s ! k)" by (simp add: moved_def)
    ultimately show ?thesis using moved_turns by blast
  qed simp
qed

lemma step_turns:
  assumes "seq_step bufsz n k s = Some s'" and "k < length (q_procs s)" and "list_all (turns_ok n) (q_procs s)"
  shows "list_all (turns_ok n) (q_procs s')" and "map q_kind (q_procs s') = map q_kind (q_procs s)"
proof -
  have t: "turns_ok n (q_procs s ! k)" using assms(2,3) by (simp add: list_all_length)
  show "list_all (turns_ok n) (q_procs s')"
    using step_procs [OF assms(1,2)] assms(2,3) t by (auto simp: list_all_length nth_list_update)
  show "map q_kind (q_procs s') = map q_kind (q_procs s)"
    using step_procs [OF assms(1,2)] assms(2) by (auto simp: map_update list_update_same_conv)
qed

section \<open>Locks that exclude\<close>

text \<open>
  What the program relies on: an invariant of the lock that every step keeps and that allows
  one process in the critical region.
\<close>

locale exclusive_lock =
  fixes kind :: lockkind
    and lock_inv :: "seqstate \<Rightarrow> bool"
  assumes inv_start: "lock_inv (seq_start (replicate m kind) f)"
    and inv_step: "lock_inv s \<Longrightarrow> k < length (q_procs s) \<Longrightarrow> q_kind (q_procs s ! k) = kind \<Longrightarrow>
      seq_step bufsz n k s = Some s' \<Longrightarrow> lock_inv s'"
    and inv_excl: "lock_inv s \<Longrightarrow> cnt crit (q_procs s) \<le> 1"
begin

definition good :: "int \<Rightarrow> int \<Rightarrow> nat \<Rightarrow> seqstate \<Rightarrow> bool" where
  "good base n m s \<longleftrightarrow> lock_inv s \<and> map q_kind (q_procs s) = replicate m kind \<and> list_all (turns_ok n) (q_procs s) \<and> seq_ok base s"

lemma good_start:
  assumes "0 \<le> n"
  shows "good base n m (seq_start (replicate m kind) (seq_text base))"
proof -
  have "seq_val base (seq_start (replicate m kind) (seq_text base)) = base"
    by (simp add: seq_val_def seq_start_def done_of_def sum_list_replicate)
  then show ?thesis using assms inv_start
    by (auto simp: good_def seq_start_def seq_ok_def phase_ok_def numbers_def mid_def turns_ok_def list_all_iff list_ex_iff)
qed

lemma good_alone: "good base n m s \<Longrightarrow> k < length (q_procs s) \<Longrightarrow> crit (q_procs s ! k) \<Longrightarrow> alone k s"
  using inv_excl [of s] cnt_two [of k "q_procs s" _ crit] by (force simp: good_def alone_def)

lemma good_step:
  assumes good: "good base n m s" and k: "k < length (q_procs s)" and step: "seq_step bufsz n k s = Some s'"
    and range: "0 \<le> base" "base + n * int m < 2 ^ 63" and sz: "MAXLINE_ipc \<le> bufsz"
  shows "good base n m s'"
proof -
  have ok: "seq_ok base s" "list_all (turns_ok n) (q_procs s)" "map q_kind (q_procs s) = replicate m kind"
    using good by (simp_all add: good_def)
  have len: "length (q_procs s) = m" using arg_cong [OF ok(3), of length] by simp
  have "q_kind (q_procs s ! k) = kind" using k ok(3) len nth_map [of k "q_procs s" q_kind] by simp
  then have inv: "lock_inv s'" using good k step inv_step by (auto simp: good_def)
  have "seq_ok base s'"
  proof (cases "crit (q_procs s ! k)")
    case True
    have w: "work_step bufsz k (q_procs s ! k) s = Some s'" using step by (simp only: step_crit [OF True])
    have "is_long (seq_val base s)" "base \<le> seq_val base s" "q_pc (q_procs s ! k) \<noteq> Q_unlock \<Longrightarrow> is_long (seq_val base s + 1)"
      using val_bound(1,2) [OF ok(2), where base = base] val_bound(3) [OF ok(2) k True, where base = base] range len by (simp_all add: is_long_def)
    then show ?thesis using work_keeps [OF ok(1) good_alone [OF good k True] refl True _ _ _ sz w] by blast
  next
    case False
    then consider "s' = s" | q where "seqfile s' = seqfile s" "q_out s' = q_out s" "q_procs s' = (q_procs s)[k := q]" "moved n (q_procs s ! k) q"
      using step_outside step by blast
    then show ?thesis
    proof cases
      case (2 q)
      then show ?thesis
        by (intro seq_ok_outside [OF ok(1) k 2(3,1,2)])
          (auto simp: moved_def done_of_def mid_def phase_ok_def split: seqpc.splits if_splits)
    qed (use ok in simp)
  qed
  then show ?thesis using inv step_turns [OF step k ok(2)] ok(3) by (simp add: good_def)
qed

lemma good_run:
  assumes "(seq_run bufsz n)\<^sup>*\<^sup>* s t" and "good base n m s" and "0 \<le> base" "base + n * int m < 2 ^ 63" "MAXLINE_ipc \<le> bufsz"
  shows "good base n m t"
  using assms by (induction rule: rtranclp_induct) (auto elim!: seq_run.cases intro: good_step)

end

end
