(* ===== verification/Seqnum_Props.thy ===== *)
theory Seqnum_Props
  imports Seqnum_Inv
begin

text \<open>
  With any of the three locks the processes print consecutive numbers, none twice and none left
  out, and the file ends with the right number; with the record lock all processes end on every
  schedule. Without a lock, or with one process that does not lock, numbers are printed twice.
\<close>

section \<open>The locks\<close>

text \<open>A process that has overrun its array still has the lock.\<close>

definition holds :: "seqproc \<Rightarrow> bool" where
  "holds p \<longleftrightarrow> crit p \<or> q_pc p = Q_overrun"

lemma crit_holds: "cnt crit ps \<le> cnt holds ps"
  by (induction ps) (simp_all add: holds_def)

lemma cnt_le_one:
  assumes "\<And>i j. i < length xs \<Longrightarrow> j < length xs \<Longrightarrow> P (xs ! i) \<Longrightarrow> P (xs ! j) \<Longrightarrow> i = j"
  shows "cnt P xs \<le> 1"
proof -
  have "card {i. i < length xs \<and> P (xs ! i)} \<le> Suc 0" using assms by (subst card_le_Suc0_iff_eq) auto
  then show ?thesis by (simp add: cnt_def length_filter_conv_card)
qed

text \<open>Steps in the critical region keep the lock, except the last one.\<close>

definition keeps_lock :: "nat \<Rightarrow> seqstate \<Rightarrow> seqstate \<Rightarrow> bool" where
  "keeps_lock k s t \<longleftrightarrow> record_lock t = record_lock s \<and> lock_file t = lock_file s \<and> svsem t = svsem s \<and>
     (\<exists>q. q_procs t = (q_procs s)[k := q] \<and> holds q)"

lemma set_proc_keeps:
  "q_procs t = q_procs s \<Longrightarrow> record_lock t = record_lock s \<Longrightarrow> lock_file t = lock_file s \<Longrightarrow> svsem t = svsem s \<Longrightarrow>
    holds q \<Longrightarrow> keeps_lock k s (set_proc k q t)"
  by (auto simp: keeps_lock_def set_proc_def)

lemma work_locks:
  assumes c: "crit (q_procs s ! k)" and step: "seq_step bufsz n k s = Some s'"
  shows "keeps_lock k s s' \<or> (\<exists>q. s' = set_proc k q (unlock (q_kind (q_procs s ! k)) s) \<and> q_pc q = Q_for)"
proof -
  let ?p = "q_procs s ! k"
  have step: "work_step bufsz k ?p s = Some s'" using step by (simp only: step_crit [OF c])
  show ?thesis
  proof (cases "q_pc ?p = Q_unlock")
    case True
    then show ?thesis using step by (intro disjI2 exI [of _ "?p\<lparr>q_i := q_i ?p + 1, q_pc := Q_for\<rparr>"]) simp
  next
    case False
    then have "keeps_lock k s s'" using step c
      by (cases "q_pc ?p") (auto simp: Let_def crit_def intro!: set_proc_keeps split: if_splits, simp_all add: holds_def crit_def)
    then show ?thesis by blast
  qed
qed

subsection \<open>The record lock\<close>

definition record_inv :: "seqstate \<Rightarrow> bool" where
  "record_inv s \<longleftrightarrow> (\<forall>k. record_lock s = Some k \<longleftrightarrow> k < length (q_procs s) \<and> holds (q_procs s ! k)) \<and>
     list_all (\<lambda>p. q_pc p \<notin> {Q_set, Q_stat, Q_down}) (q_procs s)"

lemma record_excl: "record_inv s \<Longrightarrow> cnt crit (q_procs s) \<le> 1"
  by (intro cnt_le_one) (metis holds_def option.inject record_inv_def)

lemma lock_places: "moved n p q \<Longrightarrow> holds q \<longleftrightarrow> q_pc q = Q_seek" "moved n p q \<Longrightarrow> \<not> holds p" "q_pc q = Q_for \<Longrightarrow> \<not> holds q"
  by (auto simp: moved_def holds_def crit_def split: if_splits)

lemma record_step:
  assumes inv: "record_inv s" and k: "k < length (q_procs s)" "q_kind (q_procs s ! k) = L_record"
    and step: "seq_step bufsz n k s = Some s'"
  shows "record_inv s'"
proof -
  let ?p = "q_procs s ! k"
  have upd: "record_inv t" if "q_procs t = (q_procs s)[k := q]" "q_pc q \<notin> {Q_set, Q_stat, Q_down}"
    "\<And>j. record_lock t = Some j \<longleftrightarrow> (if j = k then holds q else record_lock s = Some j)" for t q
    using that inv k(1) by (auto simp: record_inv_def list_all_length nth_list_update)
  have own: "record_lock s = Some k \<longleftrightarrow> holds ?p" using inv k(1) by (simp add: record_inv_def)
  show ?thesis
  proof (cases "crit ?p")
    case True
    then have own: "record_lock s = Some k" using own by (simp add: holds_def)
    consider "keeps_lock k s s'" | q where "s' = set_proc k q (unlock L_record s)" "q_pc q = Q_for"
      using work_locks [OF True step] k(2) by metis
    then show ?thesis
    proof cases
      case 1
      then obtain q where q: "q_procs s' = (q_procs s)[k := q]" "holds q" "record_lock s' = record_lock s"
        by (auto simp: keeps_lock_def)
      moreover have "q_pc q \<notin> {Q_set, Q_stat, Q_down}" using q(2) by (auto simp: holds_def crit_def)
      ultimately show ?thesis using own by (intro upd [of _ q]) (simp_all add: eq_commute)
    next
      case (2 q)
      then show ?thesis using own lock_places(3) by (intro upd [of _ q]) (auto simp: set_proc_def)
    qed
  next
    case False
    have pl: "q_pc ?p \<notin> {Q_set, Q_stat, Q_down}" using inv k(1) by (auto simp: record_inv_def list_all_length)
    consider "q_pc ?p = Q_for" | "q_pc ?p = Q_lock" using pl step False by (cases "q_pc ?p") (auto simp: crit_def Let_def)
    then show ?thesis
    proof cases
      case 1
      then have s': "s' = set_proc k (?p\<lparr>q_pc := if q_i ?p < n then Q_lock else Q_end\<rparr>) s" using step by (simp add: Let_def)
      show ?thesis using 1 own unfolding s'
        by (intro upd [of _ "?p\<lparr>q_pc := if q_i ?p < n then Q_lock else Q_end\<rparr>"]) (auto simp: set_proc_def holds_def crit_def)
    next
      case 2
      then have "record_lock s = None" and s': "s' = set_proc k (?p\<lparr>q_pc := Q_seek\<rparr>) (s\<lparr>record_lock := Some k\<rparr>)"
        using step k(2) by (auto simp: Let_def split: option.splits)
      then show ?thesis by (intro upd [of _ "?p\<lparr>q_pc := Q_seek\<rparr>"]) (auto simp: set_proc_def holds_def crit_def)
    qed
  qed
qed

interpretation fcntl_lock: exclusive_lock L_record record_inv
proof
  show "record_inv (seq_start (replicate m L_record) f)" for m f
    by (auto simp: record_inv_def seq_start_def holds_def crit_def list_all_iff)
qed (blast intro: record_step record_excl)+

subsection \<open>The lock file\<close>

definition no_sem :: "seqproc \<Rightarrow> bool" where
  "no_sem p \<longleftrightarrow> q_pc p \<notin> {Q_set, Q_stat, Q_down}"

definition file_inv :: "seqstate \<Rightarrow> bool" where
  "file_inv s \<longleftrightarrow> cnt holds (q_procs s) = (if lock_file s then 1 else 0) \<and> list_all no_sem (q_procs s)"

lemma file_step:
  assumes inv: "file_inv s" and k: "k < length (q_procs s)" "q_kind (q_procs s ! k) = L_file"
    and step: "seq_step bufsz n k s = Some s'"
  shows "file_inv s'"
proof -
  let ?p = "q_procs s ! k"
  have upd: "file_inv t" if "q_procs t = (q_procs s)[k := q]" "no_sem q"
    "(if lock_file t then 1 else 0) = (if lock_file s then 1 else 0) - (if holds ?p then 1 else 0) + (if holds q then 1 else (0::int))" for t q
    using that inv k(1) by (auto simp: file_inv_def list_all_length nth_list_update cnt_update)
  show ?thesis
  proof (cases "crit ?p")
    case True
    then have own: "holds ?p" "lock_file s"
      using inv cnt_nth_pos [of k "q_procs s" holds] k(1) by (auto simp: holds_def file_inv_def split: if_splits)
    consider q where "q_procs s' = (q_procs s)[k := q]" "holds q" "lock_file s' = lock_file s"
      | q where "s' = set_proc k q (unlock L_file s)" "q_pc q = Q_for"
      using work_locks [OF True step] k(2) by (auto simp: keeps_lock_def)
    then show ?thesis
    proof cases
      case (1 q)
      moreover have "no_sem q" using 1(2) by (auto simp: holds_def crit_def no_sem_def)
      ultimately show ?thesis using own by (intro upd [of _ q]) simp_all
    next
      case (2 q)
      then show ?thesis using own lock_places(3) by (intro upd [of _ q]) (auto simp: set_proc_def no_sem_def)
    qed
  next
    case False
    have pl: "no_sem ?p" using inv k(1) by (auto simp: file_inv_def list_all_length)
    consider "q_pc ?p = Q_for" | "q_pc ?p = Q_lock" using pl step False by (cases "q_pc ?p") (auto simp: crit_def no_sem_def Let_def)
    then show ?thesis
    proof cases
      case 1
      then have s': "s' = set_proc k (?p\<lparr>q_pc := if q_i ?p < n then Q_lock else Q_end\<rparr>) s" using step by (simp add: Let_def)
      show ?thesis using 1 unfolding s'
        by (intro upd [of _ "?p\<lparr>q_pc := if q_i ?p < n then Q_lock else Q_end\<rparr>"]) (auto simp: set_proc_def holds_def crit_def no_sem_def)
    next
      case 2
      then have "s' = s \<or> \<not> lock_file s \<and> s' = set_proc k (?p\<lparr>q_pc := Q_seek\<rparr>) (s\<lparr>lock_file := True\<rparr>)"
        using step k(2) by (auto simp: Let_def split: if_splits)
      then show ?thesis using inv 2 upd [of s' "?p\<lparr>q_pc := Q_seek\<rparr>"] by (auto simp: set_proc_def holds_def crit_def no_sem_def)
    qed
  qed
qed

interpretation lockfile: exclusive_lock L_file file_inv
proof
  show "file_inv (seq_start (replicate m L_file) f)" for m f
    by (auto simp: file_inv_def seq_start_def holds_def crit_def list_all_iff no_sem_def cnt_zero_iff)
  show "cnt crit (q_procs s) \<le> 1" if "file_inv s" for s
    using that crit_holds [of "q_procs s"] by (simp add: file_inv_def split: if_splits)
qed (blast intro: file_step)

subsection \<open>The semaphore\<close>

text \<open>
  Until the process that has created the semaphore has set its value and used it, no other
  process gets past the loop.
\<close>

definition setting :: "seqproc \<Rightarrow> bool" where
  "setting p \<longleftrightarrow> q_pc p = Q_set"

definition sem_inv :: "seqstate \<Rightarrow> bool" where
  "sem_inv s \<longleftrightarrow>
    (case svsem s of None \<Rightarrow> cnt holds (q_procs s) = 0 \<and> cnt setting (q_procs s) = 0
     | Some (v, used) \<Rightarrow> 0 \<le> v \<and>
         (if used then cnt holds (q_procs s) + v = 1 \<and> cnt setting (q_procs s) = 0
          else cnt holds (q_procs s) = 0 \<and> cnt setting (q_procs s) + v = 1))"

lemma sem_step_inv:
  assumes inv: "sem_inv s" and k: "k < length (q_procs s)" "q_kind (q_procs s ! k) = L_sem"
    and step: "seq_step bufsz n k s = Some s'"
  shows "sem_inv s'"
proof -
  let ?p = "q_procs s ! k"
  have one: "1 \<le> cnt holds (q_procs s)" if "holds ?p" using cnt_nth_pos k(1) that by blast
  have set: "1 \<le> cnt setting (q_procs s)" if "setting ?p" using cnt_nth_pos k(1) that by blast
  note upd = cnt_update [OF k(1)]
  show ?thesis
  proof (cases "crit ?p")
    case True
    then have own: "holds ?p" "\<not> setting ?p" by (auto simp: holds_def crit_def setting_def)
    then obtain v where v: "svsem s = Some (v, True)" using inv one by (auto simp: sem_inv_def split: option.splits if_splits)
    consider q where "q_procs s' = (q_procs s)[k := q]" "holds q" "svsem s' = svsem s"
      | q where "s' = set_proc k q (unlock L_sem s)" "q_pc q = Q_for"
      using work_locks [OF True step] k(2) by (auto simp: keeps_lock_def)
    then show ?thesis
    proof cases
      case (1 q)
      moreover have "\<not> setting q" using 1(2) by (auto simp: holds_def crit_def setting_def)
      ultimately show ?thesis using inv v own by (simp add: sem_inv_def upd)
    next
      case (2 q)
      then show ?thesis using inv v own lock_places(3) [of q] by (simp add: sem_inv_def upd set_proc_def setting_def)
    qed
  next
    case False
    have away: "\<not> holds ?p" using step False by (auto simp: holds_def Let_def)
    have plain: "sem_inv (set_proc k q s)" if "\<not> holds q" "setting q = setting ?p" for q
      using inv that away by (cases "svsem s") (auto simp: sem_inv_def set_proc_def upd)
    show ?thesis
    proof (cases "q_pc ?p")
      case Q_for
      then show ?thesis using step by (auto simp: Let_def holds_def crit_def setting_def intro!: plain split: if_splits)
    next
      case Q_lock
      then show ?thesis using step k(2) inv away
        by (auto simp: Let_def holds_def crit_def setting_def sem_inv_def set_proc_def upd split: if_splits option.splits intro!: plain)
    next
      case Q_set
      then have "setting ?p" by (simp add: setting_def)
      then show ?thesis using step inv away set Q_set
        by (auto simp: Let_def sem_inv_def set_proc_def upd holds_def crit_def setting_def split: option.splits if_splits)
    next
      case Q_stat
      then show ?thesis using step inv
        by (auto simp: Let_def holds_def crit_def setting_def split: option.splits if_splits intro!: plain)
    next
      case Q_down
      then obtain v u where v: "svsem s = Some (v, u)" "0 < v"
        and s': "s' = set_proc k (?p\<lparr>q_pc := Q_seek\<rparr>) (s\<lparr>svsem := Some (v - 1, True)\<rparr>)"
        using step by (auto simp: Let_def split: option.splits if_splits)
      have "cnt holds (q_procs s) + cnt setting (q_procs s) + v = 1" using inv v(1) by (cases u) (simp_all add: sem_inv_def)
      then have "v = 1" "cnt holds (q_procs s) = 0" "cnt setting (q_procs s) = 0"
        using v(2) cnt_nonneg [of holds "q_procs s"] cnt_nonneg [of setting "q_procs s"] by linarith+
      then show ?thesis using away Q_down unfolding s'
        by (simp add: sem_inv_def set_proc_def upd holds_def crit_def setting_def)
    qed (use step False in \<open>auto simp: crit_def Let_def\<close>)
  qed
qed

interpretation sem_lock: exclusive_lock L_sem sem_inv
proof
  show "sem_inv (seq_start (replicate m L_sem) f)" for m f
    by (auto simp: sem_inv_def seq_start_def holds_def crit_def setting_def cnt_zero_iff)
  show "cnt crit (q_procs s) \<le> 1" if "sem_inv s" for s
    using that crit_holds [of "q_procs s"] by (auto simp: sem_inv_def split: option.splits if_splits)
qed (blast intro: sem_step_inv)

section \<open>The programs\<close>

context exclusive_lock
begin

lemma good_length: "good base n m s \<Longrightarrow> length (q_procs s) = m"
  unfolding good_def by (metis length_map length_replicate)

lemma good_numbers:
  assumes "good base n m s"
  shows "map snd (q_out s) = [base..base + int (length (q_out s)) - 1]"
proof -
  let ?v = "seq_val base s"
  have v: "base \<le> ?v" using val_bound(1) assms by (auto simp: good_def)
  have out: "map snd (q_out s) = numbers base ?v (list_ex mid (q_procs s))" using assms by (simp add: good_def seq_ok_def)
  have "length (q_out s) = length (numbers base ?v (list_ex mid (q_procs s)))" using arg_cong [OF out, of length] by simp
  then show ?thesis using out v by (auto simp: numbers_def upto_rec2)
qed

lemma good_ended:
  assumes "good base n m s" and "list_all (\<lambda>p. q_pc p = Q_end) (q_procs s)"
  shows "seqfile s = seq_text (base + n * int m) \<and> map snd (q_out s) = [base..base + n * int m - 1]"
proof -
  have "done_of p = n" if "p \<in> set (q_procs s)" for p
    using assms that by (auto simp: good_def list_all_iff turns_ok_def done_of_def)
  then have "map done_of (q_procs s) = replicate m n"
    using good_length [OF assms(1)] by (auto intro: nth_equalityI)
  then have "seq_val base s = base + n * int m" by (simp add: seq_val_def sum_list_replicate mult.commute)
  moreover have "\<not> list_ex mid (q_procs s)" using assms(2) by (auto simp: list_all_iff list_ex_iff mid_def)
  ultimately show ?thesis using assms(1) by (simp add: good_def seq_ok_def numbers_def)
qed

end

text \<open>
  C16: Processes that lock the file, with a record lock, a lock file or a semaphore that the first
  of them creates, are never two in the critical region; on every schedule they print
  consecutive numbers, none twice, and when all have ended the file has the right number.
\<close>

theorem seqnum_exact:
  assumes "kind \<in> {L_record, L_file, L_sem}" and "0 \<le> base" and "0 \<le> n" and "base + n * int m < 2 ^ 63"
    and "MAXLINE_ipc \<le> bufsz"
    and "(seq_run bufsz n)\<^sup>*\<^sup>* (seq_start (replicate m kind) (seq_text base)) s"
  shows "map snd (q_out s) = [base..base + int (length (q_out s)) - 1] \<and> cnt crit (q_procs s) \<le> 1 \<and>
    (list_all (\<lambda>p. q_pc p = Q_end) (q_procs s) \<longrightarrow>
      seqfile s = seq_text (base + n * int m) \<and> length (q_out s) = nat (n * int m))"
proof -
  have "?thesis" if ex: "exclusive_lock k inv" and "kind = k" for k inv
  proof -
    note l = exclusive_lock.good_start [OF ex assms(3), of base m] exclusive_lock.good_run [OF ex]
    have good: "exclusive_lock.good k inv base n m s" using l assms that(2) by blast
    have "length (q_out s) = nat (n * int m)" if "map snd (q_out s) = [base..base + n * int m - 1]"
    proof -
      have "length (map snd (q_out s)) = length [base..base + n * int m - 1]" by (simp only: that)
      then show ?thesis by simp
    qed
    then show ?thesis
      using exclusive_lock.good_numbers [OF ex good] exclusive_lock.good_ended [OF ex good]
        exclusive_lock.inv_excl [OF ex] good
      by (auto simp: exclusive_lock.good_def [OF ex])
  qed
  then show ?thesis
    using assms(1) fcntl_lock.exclusive_lock_axioms lockfile.exclusive_lock_axioms sem_lock.exclusive_lock_axioms by blast
qed

lemma run_seq_reach: "run_seq bufsz n ks s = Some t \<Longrightarrow> (seq_run bufsz n)\<^sup>*\<^sup>* s t"
proof (induction ks arbitrary: s)
  case (Cons k ks)
  then obtain s' where "seq_run bufsz n s s'" "(seq_run bufsz n)\<^sup>*\<^sup>* s' t"
    by (auto intro: seq_moves split: if_splits option.splits simp del: seq_step.simps)
  then show ?case by (rule converse_rtranclp_into_rtranclp)
qed simp

subsection \<open>Every run with the record lock ends\<close>

fun qrank :: "seqpc \<Rightarrow> int" where
  "qrank Q_for = 11"
| "qrank Q_lock = 10"
| "qrank Q_seek = 9"
| "qrank Q_read = 8"
| "qrank Q_scan = 7"
| "qrank Q_print = 6"
| "qrank Q_incr = 5"
| "qrank Q_format = 4"
| "qrank Q_rewind = 3"
| "qrank Q_write = 2"
| "qrank Q_unlock = 1"
| "qrank q = 0"

definition turns_left :: "int \<Rightarrow> seqproc \<Rightarrow> int" where
  "turns_left n p = 11 * (n - q_i p) + qrank (q_pc p)"

definition seq_left :: "int \<Rightarrow> seqstate \<Rightarrow> int" where
  "seq_left n s = sum_list (map (turns_left n) (q_procs s))"

definition seq_final :: "seqstate \<Rightarrow> bool" where
  "seq_final s \<longleftrightarrow> list_all (\<lambda>p. q_pc p = Q_end) (q_procs s)"

lemma qrank_nonneg: "0 \<le> qrank q"
  by (cases q) simp_all

lemma set_proc_left:
  "q_procs t = q_procs s \<Longrightarrow> k < length (q_procs s) \<Longrightarrow> turns_left n q < turns_left n (q_procs s ! k) \<Longrightarrow>
    seq_left n (set_proc k q t) < seq_left n s"
  by (simp add: seq_left_def set_proc_def sum_update)

lemma record_spends:
  assumes inv: "record_inv s" and k: "k < length (q_procs s)" "q_kind (q_procs s ! k) = L_record"
    and ph: "turns_ok n (q_procs s ! k)" and step: "seq_step bufsz n k s = Some s'"
  shows "seq_left n s' < seq_left n s"
proof -
  let ?p = "q_procs s ! k"
  have pl: "q_pc ?p \<notin> {Q_set, Q_stat, Q_down}" using inv k(1) by (auto simp: record_inv_def list_all_length)
  then show ?thesis using step k ph
    by (cases "q_pc ?p")
      (auto simp: Let_def unlock_same intro!: set_proc_left split: if_splits option.splits,
       simp_all add: turns_left_def turns_ok_def)
qed

lemma record_moves:
  assumes inv: "record_inv s" and kinds: "list_all (\<lambda>p. q_kind p = L_record \<and> q_pc p \<noteq> Q_overrun) (q_procs s)" and "\<not> seq_final s"
  shows "\<exists>s'. seq_run bufsz n s s'"
proof -
  have run: "\<exists>s'. seq_run bufsz n s s'" if "k < length (q_procs s)" "q_pc (q_procs s ! k) \<notin> {Q_lock, Q_end}" for k
  proof -
    let ?p = "q_procs s ! k"
    have "q_pc ?p \<notin> {Q_set, Q_stat, Q_down, Q_overrun}"
      using inv kinds that(1) by (auto simp: record_inv_def list_all_length)
    then have "\<exists>s'. seq_step bufsz n k s = Some s'" using that(2) by (cases "q_pc ?p") (simp_all add: Let_def)
    then show ?thesis using seq_moves [OF that(1)] by blast
  qed
  obtain k where k: "k < length (q_procs s)" "q_pc (q_procs s ! k) \<noteq> Q_end"
    using assms(3) by (auto simp: seq_final_def list_all_length)
  show ?thesis
  proof (cases "q_pc (q_procs s ! k) = Q_lock")
    case True
    show ?thesis
    proof (cases "record_lock s")
      case None
      then have "\<exists>s'. seq_step bufsz n k s = Some s'" using True kinds k(1) by (simp add: Let_def list_all_length)
      then show ?thesis using seq_moves [OF k(1)] by blast
    next
      case (Some j)
      then have "j < length (q_procs s)" "holds (q_procs s ! j)" using inv unfolding record_inv_def by metis+
      then show ?thesis using run [of j] by (auto simp: holds_def crit_def)
    qed
  qed (use run k in blast)
qed

definition record_good :: "int \<Rightarrow> int \<Rightarrow> nat \<Rightarrow> nat \<Rightarrow> seqstate \<Rightarrow> bool" where
  "record_good base n m bufsz s \<longleftrightarrow> fcntl_lock.good base n m s \<and> 0 \<le> base \<and> base + n * int m < 2 ^ 63 \<and> MAXLINE_ipc \<le> bufsz"

lemma record_goodD:
  assumes "record_good base n m bufsz s"
  shows "record_inv s" and "list_all (\<lambda>p. q_kind p = L_record \<and> q_pc p \<noteq> Q_overrun) (q_procs s)" and "list_all (turns_ok n) (q_procs s)"
proof -
  have g: "record_inv s" "map q_kind (q_procs s) = replicate m L_record" "list_all (turns_ok n) (q_procs s)" "seq_ok base s"
    using assms by (simp_all add: record_good_def fcntl_lock.good_def)
  have "q_kind p = L_record" if "p \<in> set (q_procs s)" for p
    using that g(2) by (metis image_eqI in_set_replicate list.set_map)
  moreover have "q_pc p \<noteq> Q_overrun" if "p \<in> set (q_procs s)" for p
    using that g(4) by (auto simp: seq_ok_def list_all_iff phase_ok_def split: seqpc.splits)
  ultimately show "record_inv s" "list_all (\<lambda>p. q_kind p = L_record \<and> q_pc p \<noteq> Q_overrun) (q_procs s)" "list_all (turns_ok n) (q_procs s)"
    using g by (simp_all add: list_all_iff)
qed

interpretation seqrun: ending_program "seq_run bufsz n" "record_good base n m bufsz" "seq_left n" seq_final for bufsz n base m
proof
  fix s s'
  assume good: "record_good base n m bufsz s"
  note g = record_goodD [OF good]
  show "record_good base n m bufsz s'" if "seq_run bufsz n s s'"
    using that good by (auto simp: record_good_def elim!: seq_run.cases intro: fcntl_lock.good_step)
  show "seq_left n s' < seq_left n s" if "seq_run bufsz n s s'"
    using that
  proof cases
    case (seq_moves k)
    then show ?thesis using g by (intro record_spends) (auto simp: list_all_length)
  qed
  have "0 \<le> turns_left n p" if "turns_ok n p" for p
    using that qrank_nonneg [of "q_pc p"] by (auto simp: turns_left_def turns_ok_def split: seqpc.splits)
  then show "0 \<le> seq_left n s" using g(3) unfolding seq_left_def by (intro sum_list_nonneg) (auto simp: list_all_iff)
  show "\<exists>s'. seq_run bufsz n s s'" if "\<not> seq_final s" using record_moves [OF g(1,2) that] .
qed

text \<open>
  Every run of the programs with the record lock is bounded, and a state without a step is one
  where all processes have ended.
\<close>

theorem seqnum_record_ends:
  assumes "0 \<le> base" and "0 \<le> n" and "base + n * int m < 2 ^ 63" and "MAXLINE_ipc \<le> bufsz"
    and run: "(seq_run bufsz n ^^ j) (seq_start (replicate m L_record) (seq_text base)) s"
  shows "int j \<le> 11 * int m * (n + 1) \<and>
    ((\<nexists>s'. seq_run bufsz n s s') \<longrightarrow> list_all (\<lambda>p. q_pc p = Q_end) (q_procs s) \<and> seqfile s = seq_text (base + n * int m))"
proof -
  let ?s = "seq_start (replicate m L_record) (seq_text base)"
  have start: "record_good base n m bufsz ?s" using assms fcntl_lock.good_start by (simp add: record_good_def)
  have "seq_left n ?s = 11 * int m * (n + 1)"
    by (simp add: seq_left_def seq_start_def turns_left_def sum_list_replicate algebra_simps)
  moreover have "fcntl_lock.good base n m s" using seqrun.run_good [OF run start] by (simp add: record_good_def)
  ultimately show ?thesis
    using seqrun.run_short [OF run start] seqrun.run_stuck [OF run start] fcntl_lock.good_ended [of base n m s]
    by (auto simp: seq_final_def)
qed

subsection \<open>Runs\<close>

lemma seq_text_0: "seq_text 0 = [CHR ''0'', nl]" and seq_text_1: "seq_text 1 = [CHR ''1'', nl]"
  and seq_text_2: "seq_text 2 = [CHR ''2'', nl]"
  by code_simp+

lemma scan_0: "sscanf_ld [CHR ''0'', nl] = Some 0" and scan_1: "sscanf_ld [CHR ''1'', nl] = Some 1"
  by code_simp+

lemma seq_start_2: "seq_start [a, b] f = \<lparr>seqfile = f, record_lock = None, lock_file = False, svsem = None, q_out = [],
   q_procs = [\<lparr>q_kind = a, q_pc = Q_for, q_i = 0, q_off = 0, q_line = [], q_seq = 0, q_init = False\<rparr>,
     \<lparr>q_kind = b, q_pc = Q_for, q_i = 0, q_off = 0, q_line = [], q_seq = 0, q_init = False\<rparr>]\<rparr>"
  by (simp add: seq_start_def)

lemmas seq_eval = seq_start_2 seq_text_0 seq_text_1 seq_text_2 scan_0 scan_1 file_read_def file_write_def MAXLINE_ipc_def set_proc_def

text \<open>Two processes with the semaphore, one turn each.\<close>

lemma seqnum_sem_run:
  "\<exists>s. run_seq 4096 1 ([0, 0, 1, 1, 1, 0] @ replicate 10 0 @ replicate 11 1 @ [0, 1]) (seq_start [L_sem, L_sem] (seq_text 0)) = Some s \<and>
     seq_final s \<and> q_out s = [(0, 0), (1, 1)] \<and> seqfile s = seq_text 2"
  by (simp add: seq_eval seq_final_def numeral_eq_Suc Let_def)

theorem seqnum_exact_witness:
  "\<exists>s. seq_final s \<and> q_out s = [(0, 0), (1, 1)] \<and> seqfile s = seq_text (0 + 1 * int 2) \<and> cnt crit (q_procs s) \<le> 1"
proof -
  obtain s where run: "(seq_run 4096 1)\<^sup>*\<^sup>* (seq_start [L_sem, L_sem] (seq_text 0)) s"
    and s: "seq_final s" "q_out s = [(0, 0), (1, 1)]"
    using seqnum_sem_run run_seq_reach by blast
  have "replicate 2 L_sem = [L_sem, L_sem]" by (simp add: numeral_2_eq_2)
  then have "cnt crit (q_procs s) \<le> 1 \<and> seqfile s = seq_text (0 + 1 * int 2)"
    using seqnum_exact [of L_sem 0 1 2 4096 s] run s by (simp add: MAXLINE_ipc_def seq_final_def)
  then show ?thesis using s by blast
qed

text \<open>
  Without a lock, and also when only one of two processes locks the file, both can print the
  same number, and the file then has one less than it should.
\<close>

theorem seqnum_none_repeats:
  "\<exists>s. (seq_run 4096 1)\<^sup>*\<^sup>* (seq_start [L_none, L_none] (seq_text 0)) s \<and> seq_final s \<and>
     q_out s = [(0, 0), (1, 0)] \<and> seqfile s = seq_text 1"
  "\<exists>s. (seq_run 4096 1)\<^sup>*\<^sup>* (seq_start [L_record, L_none] (seq_text 0)) s \<and> seq_final s \<and>
     q_out s = [(0, 0), (1, 0)] \<and> seqfile s = seq_text 1"
proof -
  have "\<exists>s. run_seq 4096 1 (replicate 6 0 @ replicate 6 1 @ replicate 6 0 @ replicate 6 1) (seq_start [L_none, L_none] (seq_text 0)) = Some s \<and>
      seq_final s \<and> q_out s = [(0, 0), (1, 0)] \<and> seqfile s = seq_text 1"
    by (simp add: seq_eval seq_final_def numeral_eq_Suc Let_def)
  then show "\<exists>s. (seq_run 4096 1)\<^sup>*\<^sup>* (seq_start [L_none, L_none] (seq_text 0)) s \<and> seq_final s \<and>
      q_out s = [(0, 0), (1, 0)] \<and> seqfile s = seq_text 1" using run_seq_reach by blast
  have "\<exists>s. run_seq 4096 1 (replicate 6 0 @ replicate 6 1 @ replicate 6 0 @ replicate 6 1) (seq_start [L_record, L_none] (seq_text 0)) = Some s \<and>
      seq_final s \<and> q_out s = [(0, 0), (1, 0)] \<and> seqfile s = seq_text 1"
    by (simp add: seq_eval seq_final_def numeral_eq_Suc Let_def)
  then show "\<exists>s. (seq_run 4096 1)\<^sup>*\<^sup>* (seq_start [L_record, L_none] (seq_text 0)) s \<and> seq_final s \<and>
      q_out s = [(0, 0), (1, 0)] \<and> seqfile s = seq_text 1" using run_seq_reach by blast
qed

text \<open>
  The array of the programs of \<open>RecordLock\<close> has no room for the null byte when the file has
  \<open>MAXLINE\<close> bytes or more.
\<close>

theorem seqnum_overrun:
  assumes "MAXLINE_ipc \<le> length f" and "k < length (q_procs s)" and "q_pc (q_procs s ! k) = Q_read"
    and "q_off (q_procs s ! k) = 0" and "seqfile s = f" and "seq_step MAXLINE_ipc n k s = Some s'"
  shows "q_pc (q_procs s' ! k) = Q_overrun"
  using assms by (auto simp: file_read_def set_proc_def Let_def)

end
