(* ===== verification/Spec2Isabelle.thy ===== *)
theory Spec2Isabelle
  imports Mqueue_Props Sem_Props Rwlock_Props Inet_Props Stream_Props Sockaddr_Props Rtt_Props Gai_Props
    Prodcons_Three Mesg_Props Nonblock_Props Pool_Props Webthreads_Props
    Connect_Props Traceloop_Props Condprod_Simple Condprod_Batch Threadpool_Props Seqnum_Props
begin

text \<open>
  A verification library for the programs of the repository: the code of two books on
  interprocess communication (\<open>src/IPC/unpv22e\<close>) and network programming
  (\<open>src/UNPLearning/unpv13e\<close>), and exercises of the author (\<open>src/IPC\<close>). The repository is a collection of libraries and programs that
  share headers and wrappers; the parts with logic of their own are modelled here, one group
  of theories for each, and the groups meet where the code does: the file server uses the
  line reader of the stream group, \<open>getaddrinfo\<close> uses the address conversions and the socket
  address helpers, the queues, semaphores and locks are instances of one theory of monitors.

  \<^bold>\<open>Common.\<close> \<open>Prelude\<close> has the errno values, the results of C calls (\<open>errno + 'a\<close>), the effect of the
  wrappers that exit (\<open>wrapped\<close>), flag words, counting in lists of threads and chains of
  offsets through a memory. \<open>Monitor\<close> is the theory of threads that run segments of code under
  a mutex and sleep on condition variables: a step relation (\<open>mstep\<close>) that interleaves calls,
  wake-ups and spurious wake-ups, and the locales \<open>monitor_inv\<close> and \<open>monitor_safe\<close>, which carry
  invariants and progress to all reachable states; they are interpreted on the message queue,
  the semaphore, both read-write locks and the pool of threads. \<open>Files\<close> is the file system that the functions that
  open queues and semaphores use: directory, inodes, descriptors, mappings and allocations, an
  environment that removes and creates names at any time and a schedule of failing calls.

  \<^bold>\<open>Message queues\<close> (\<open>my_pxmsg_mmap\<close>). \<open>Mqueue\<close>: the mapped file as a header and slots at byte
  offsets (\<open>mymq\<close>), \<open>mymq_send\<close>, \<open>mymq_receive\<close>, \<open>mymq_notify\<close>, \<open>mymq_getattr\<close>, \<open>mymq_setattr\<close>,
  \<open>mymq_close\<close>. \<open>Mqueue_Spec\<close>: the priority list that is the specification. \<open>Mqueue_Inv\<close>: the
  well-formedness of the file and the refinement of each operation. \<open>Mqueue_Conc\<close>: the queue as
  a monitor. \<open>Mqueue_Props\<close>: every branch of send and receive, delivery in order, conservation
  of messages over all interleavings, the lost wake-up. \<open>Mq_open\<close>, \<open>Mq_open_Correct\<close>,
  \<open>Mq_open_Props\<close>: \<open>mymq_open\<close> and \<open>mymq_unlink\<close> with their races: no leak on any failure, the
  layout of the file, termination. The jumps back to \<open>again\<close> are fuel; \<open>mymq_open_returns\<close> shows
  that one jump more than there are removals by other processes is enough. \<open>None\<close> is also the result
  where the initialisation stores outside the file or its \<open>int\<close> counter overflows; the theorems say
  for which attributes it does not.

  \<^bold>\<open>Semaphores\<close> (\<open>my_pxsem_mmap\<close>, \<open>my_pxsem_svsem\<close>, \<open>my_pxsem_fifo\<close>). \<open>Sem_Spec\<close>: the locale
  \<open>counting_semaphore\<close>, the contract. \<open>Sem_mmap\<close>, \<open>Sem_mmap_open\<close>, \<open>Sem_svsem\<close>, \<open>Sem_fifo\<close>: the
  three implementations, each an interpretation of the contract. \<open>Sem_Props\<close>: sequences of calls
  on each, all interleavings on the first.

  \<^bold>\<open>Read-write locks\<close> (\<open>my_rwlock\<close>, \<open>my_rwlock_cancel\<close>). \<open>Rwlock\<close>, \<open>Rwlock_Props\<close>: exclusion,
  safety and preference of writers, with threads that are cancelled while they wait in the
  second version.

  \<^bold>\<open>Producers and consumers\<close> (\<open>pxsem\<close>). \<open>Prodcons\<close>: a machine of threads and semaphores with one
  step per statement, and the four programs as functions from places to statements.
  \<open>Prodcons_Inv\<close>: the circular buffer and the invariant of \<open>prodcons4.c\<close>; \<open>Prodcons_Props\<close>,
  \<open>Prodcons_One\<close>, \<open>Prodcons_Three\<close>: for each program, exclusion, that nothing is printed, that no
  schedule deadlocks and that all end within a bound (locale \<open>ending_program\<close>).

  \<^bold>\<open>Producers and consumers over mutexes\<close> (\<open>mutex\<close>, \<open>MutexAndCondAndRwlock/MutexAndCond.c\<close>).
  \<open>Condprod\<close>: the seven programs of the book and the one of the author, one step per statement,
  with spurious wake-ups. \<open>Condprod_Inv\<close>: who holds which mutex, and the array. \<open>Condprod_Props\<close>:
  the locale \<open>cond_threads\<close>, whose laws give \<open>ending_program\<close>, and its interpretations on
  \<open>prodcons5.c\<close> to \<open>prodcons7.c\<close>; \<open>Condprod_Batch\<close>: the one on \<open>MutexAndCond.c\<close>. \<open>Condprod_Simple\<close>: the
  programs without a condition variable: \<open>prodcons2.c\<close> ends, \<open>prodcons3.c\<close> and \<open>prodcons4.c\<close>, which
  may look for an item for ever, are correct as far as they go, and \<open>prodcons1.c\<close>, which has no
  mutex, leaves out an item.

  \<^bold>\<open>Sequence numbers\<close> (\<open>lock\<close>, \<open>RecordLock\<close>, \<open>Semaphore/RecordLockingSem.c\<close>). \<open>Seqnum\<close>: processes that
  count in a file, one step per system call, with their locks. \<open>Seqnum_Inv\<close>: the locale
  \<open>exclusive_lock\<close> and what follows from it; \<open>Seqnum_Props\<close>: its interpretations on record locks,
  lock files and semaphores, and what happens without a lock.

  \<^bold>\<open>Messages\<close> (\<open>pipemesg\<close>, \<open>svmsgcliserv\<close>). \<open>Mesg\<close>: framing over pipes, messages over System V
  queues, the file server and its client over the functions of either directory. \<open>Mesg_Props\<close>:
  the framing round trip; the locale \<open>mesg_channel\<close> with the laws the file server needs,
  interpreted on the System V functions, and the transfer of a file from end to end; the
  functions over pipes do not satisfy the laws, because \<open>Mesg_send\<close> exits.

  \<^bold>\<open>Streams\<close> (\<open>lib/readn.c\<close>, \<open>writen.c\<close>, \<open>readline.c\<close> of both trees, \<open>server\<close>, \<open>threads\<close>, \<open>sock\<close>).
  \<open>Stream_IO\<close>: descriptors as streams with finite schedules of short transfers, interruptions
  and failures; all versions of the functions. \<open>Stream_Spec\<close>: the locale \<open>byte_source\<close> and its
  three interpretations. \<open>Stream_Props\<close>: round trip, refinement of reading lines, isolation of
  threads, the miscounts of the older versions.

  \<^bold>\<open>Addresses\<close> (\<open>libfree\<close>). \<open>Inet\<close>: \<open>inet_pton\<close>, \<open>inet_ntop\<close>, \<open>inet_aton\<close>, \<open>in_cksum\<close> on words of their
  width, with every access to a local array checked. \<open>Inet_Correct\<close>, \<open>Inet6\<close>, \<open>Inet6_Text\<close>,
  \<open>Inet6_Round\<close>, \<open>Inet_Sum\<close>, \<open>Inet_Props\<close>: the accepted language, the longest run of zeros, buffer
  bounds, round trips, the ones' complement sum.

  \<^bold>\<open>Socket addresses\<close> (\<open>lib/sock_*.c\<close>): \<open>Sockaddr\<close>, \<open>Sockaddr_Props\<close>.
  \<^bold>\<open>Retransmission\<close> (\<open>lib/rtt.c\<close>, \<open>rtt/dg_send_recv.c\<close>): \<open>Rtt\<close> over rational numbers, with the
  rounding of a float as a parameter; \<open>Rtt_Props\<close>: bounds, the protocol, termination.
  \<^bold>\<open>Name lookup\<close> (\<open>libgai\<close>): \<open>Gai\<close> with an explicit allocator; \<open>Gai_Correct\<close>, \<open>Gai_Props\<close>: the
  entries of the list, the balance of allocations under any failures, numeric names.

  \<^bold>\<open>Clients and servers\<close> (\<open>nonblock\<close>, \<open>select\<close>, \<open>tcpcliserv\<close>, \<open>server\<close>, \<open>threads\<close>). \<open>Nonblock\<close>: the
  clients that copy in both directions, one round for each answer of \<open>select\<close>;
  \<open>Nonblock_Props\<close>: at every moment what has been written and what is buffered is what has been
  read. \<open>Fdserver\<close>: the servers over \<open>select\<close> and \<open>poll\<close>; \<open>Fdserver_Props\<close>: the locale \<open>counted_scan\<close>
  (a scan that stops after the announced number of entries is the scan of all), interpreted on
  both servers and on the pool, the table of clients, who is served. \<open>Pool\<close>, \<open>Pool_Props\<close>: the pool
  of processes with children that run and die, and the connections that are lost with them. \<open>Threadpool\<close>, \<open>Threadpool_Props\<close>: the pool of threads
  of \<open>serv08.c\<close> as a monitor. \<open>Web\<close>, \<open>Web_Props\<close>: the client with several
  connections; \<open>Webthreads\<close>, \<open>Webthreads_Props\<close>: its versions with threads, of which one ends on
  every schedule (\<open>ending_program\<close>) and two can run for ever.

  \<open>Connect\<close>, \<open>Connect_Props\<close> (\<open>lib/tcp_connect.c\<close> and its relatives): the helpers over \<open>getaddrinfo\<close>,
  with the descriptors and the allocations they leave behind.

  \<^bold>\<open>Ping and traceroute\<close> (\<open>ping\<close>, \<open>traceroute\<close>). \<open>Icmp\<close>: the packets as octets of a buffer that also
  holds what earlier packets have left, the receiving loops, the loop over the hops.
  \<open>Icmp_Props\<close>: the round trip of an echo request, with the checksum of the address group.
  \<open>Trace_Props\<close>: the locale \<open>packet_reader\<close> (a function that looks at received octets only), its
  interpretations on the IPv4 and IPv6 functions, the answers to a probe. \<open>Traceloop_Props\<close>: the
  probes of a trace and its end.

  \<^bold>\<open>Parameters.\<close> The sizes of the structures in a mapped file (\<open>layout\<close>), the other processes and
  the failing calls (\<open>os\<close>, schedules), \<open>ftok\<close> keys, \<open>SEMVMX\<close> and \<open>SEM_VALUE_MAX\<close>, the capacity of a
  FIFO, the rounding of floating-point stores, the byte order of the host, the resolver and
  the databases of hosts and services, the file system of the file server, \<open>strerror\<close>, the answers
  of \<open>select\<close>, \<open>poll\<close>, \<open>accept\<close> and \<open>connect\<close>, the sizes in which the files of the web client arrive, the results of \<open>sendto\<close> in
  \<open>traceroute\<close>, and the value of the uninitialised variable that \<open>recv_v6\<close> can return.

  \<^bold>\<open>Fuel and bounds.\<close> Loops over schedules are functions with termination proofs: every schedule
  is finite, so only finitely many calls are interrupted. Loops that may run for ever are
  partial functions in the option type (\<open>mq_link\<close>, \<open>client_loop\<close>) with theorems that they return.

  \<^bold>\<open>Not modelled.\<close> The wrappers around single system calls, daemons, signals and timeouts (their
  effect is part of the operations that use them); doors, Sun RPC, benchmarks; programs for
  routing and key sockets, STREAMS and libpcap, which interpret buffers of other kernels; the
  command-line tools and tests; the copies of system headers. Blocking on a full pipe or message
  queue is not modelled in the file server. Of the author's exercises those in \<open>MsgQueue\<close>,
  \<open>PipeFIFO\<close> and \<open>ShareMemory\<close> and the producers and consumers in \<open>Semaphore\<close>, which repeat modelled
  programs of the book with other sizes, and in \<open>lock\<close> the locks over named semaphores.

  \<^bold>\<open>Plan.\<close> The multiplexed file servers (\<open>svmsgmpx1q\<close>, \<open>svmsgmpxnq\<close>), the other exercises of the
  author.
\<close>

end
